(* ===== verification/KvmPrelude.thy ===== *)
theory KvmPrelude
  imports Main "HOL-Library.Word" "HOL-Library.Monad_Syntax" "HOL-Library.Char_ord"
    "HOL-Library.List_Lexorder"
begin

text \<open>
  The shared base of the development.

  \<^item> Machine integers. \<open>u8\<close> to \<open>u64\<close> are words; \<open>i16\<close> and \<open>i32\<close> are the same words read
    with \<open>sint\<close>. The release profile of the workspace (Cargo.toml) leaves overflow
    checks off, so \<open>+\<close> and \<open>-\<close> on words wrap exactly as the built program does.
    A value the code widens to \<open>i64\<close> is an \<open>int\<close>; where an \<open>i64\<close> accumulates, the
    addition is \<open>i64_add\<close>, which wraps.
  \<^item> Strings. A Rust \<open>str\<close> is its UTF-8 bytes, one \<open>char\<close> a byte, so \<open>length\<close> is
    \<open>str::len\<close>, equality and \<open>\<le>\<close> are the byte-wise ones, and an ASCII literal is
    written as it stands. \<open>trim\<close> and \<open>has_control\<close> recognise the UTF-8 encodings of
    the Unicode white space and control characters.
  \<^item> Results. \<open>Result<T, E>\<close> is \<open>'e + 'a\<close>; \<open>Inl\<close> is the error. A possible panic is
    an \<open>option\<close>: \<open>None\<close> is the panic.
\<close>

unbundle bit_operations_syntax

named_theorems kvm_defs \<open>definitions of the small operations, unfolded together\<close>
named_theorems kvm_bytes \<open>facts about big-endian byte strings\<close>

section \<open>Machine integers\<close>

type_synonym u8 = "8 word"
type_synonym u16 = "16 word"
type_synonym u32 = "32 word"
type_synonym u64 = "64 word"
type_synonym i16 = "16 word"
type_synonym i32 = "32 word"

type_synonym bytes = "u8 list"

text \<open>An \<open>as u32\<close> cast, and reading a \<open>u32\<close> back, agree on the values that fit.\<close>

lemma uint_word_of_int_32 [simp]:
  "0 \<le> i \<Longrightarrow> i < 4294967296 \<Longrightarrow> uint (word_of_int i :: u32) = i"
  by (simp add: uint_word_of_int)

lemma uint_u32_bounds [simp]: "0 \<le> uint (w :: u32)" "uint (w :: u32) < 4294967296"
  using uint_lt2p [of w] by simp_all

lemma uint_u32_le: "uint (w :: u32) \<le> 4294967295"
  using uint_u32_bounds(2) [of w] by linarith

lemma sint_i32_bounds: "- 2147483648 \<le> sint (w :: i32)" "sint (w :: i32) \<le> 2147483647"
  using sint_greater_eq [of w] sint_less [of w] by simp_all

lemma uint_pos_iff: "0 < uint (w :: 'a :: len word) \<longleftrightarrow> w \<noteq> 0"
  by (metis uint_0_iff uint_ge_0 less_le)

lemma uint_minus_1: "w \<noteq> (0 :: 'a :: len word) \<Longrightarrow> uint (w - 1) = uint w - 1"
proof -
  assume "w \<noteq> 0"
  then have "(1 :: 'a word) \<le> w"
    by (simp add: word_le_def) (use \<open>w \<noteq> 0\<close> uint_pos_iff [of w] in linarith)
  then show ?thesis
    by (simp add: uint_minus_simple_alt)
qed

lemma uint_min: "uint (min a b :: 'a :: len word) = min (uint a) (uint b)"
  by (simp add: min_def word_le_def)

lemma min_pred_less: "w \<noteq> (0 :: 'a :: len word) \<Longrightarrow> uint (min x (w - 1)) < uint w"
  by (simp add: uint_min uint_minus_1)

text \<open>\<open>u32::saturating_sub\<close> and \<open>u32::abs_diff\<close>.\<close>

definition sat_sub :: "'a :: len word \<Rightarrow> 'a word \<Rightarrow> 'a word" where
  "sat_sub a b = (if b \<le> a then a - b else 0)"

definition abs_diff :: "'a :: len word \<Rightarrow> 'a word \<Rightarrow> 'a word" where
  "abs_diff a b = (if a \<le> b then b - a else a - b)"

lemma uint_sat_sub: "uint (sat_sub a b) = max 0 (uint a - uint b)"
proof (cases "b \<le> a")
  case True
  then have "uint b \<le> uint a"
    by (simp add: word_le_def)
  with True show ?thesis
    by (simp add: sat_sub_def uint_minus_simple_alt)
next
  case False
  then have "uint a < uint b"
    by (simp add: word_le_def)
  with False show ?thesis
    by (simp add: sat_sub_def)
qed

lemma sat_sub_le: "sat_sub a b \<le> a"
  by (simp add: word_le_def uint_sat_sub)

lemma sat_sub_1_less: "w \<noteq> 0 \<Longrightarrow> uint (sat_sub w 1) < uint w"
  using uint_pos_iff [of w] by (simp add: uint_sat_sub)

lemma uint_sat_sub_1: "w \<noteq> 0 \<Longrightarrow> uint (sat_sub w 1) = uint w - 1"
  using uint_pos_iff [of w] by (simp add: uint_sat_sub)

text \<open>\<open>i64\<close> addition and subtraction in the release profile.\<close>

definition i64_add :: "int \<Rightarrow> int \<Rightarrow> int" where
  "i64_add a b = signed_take_bit 63 (a + b)"

lemma i64_add_exact [simp]:
  "- 9223372036854775808 \<le> a + b \<Longrightarrow> a + b < 9223372036854775808 \<Longrightarrow> i64_add a b = a + b"
  unfolding i64_add_def by (rule signed_take_bit_int_eq_self) simp_all

text \<open>\<open>i64::clamp\<close> panics when the bounds are the wrong way round.\<close>

definition i64_clamp :: "int \<Rightarrow> int \<Rightarrow> int \<Rightarrow> int option" where
  "i64_clamp x lo hi = (if lo \<le> hi then Some (max lo (min hi x)) else None)"

lemma i64_clamp_Some [simp]: "lo \<le> hi \<Longrightarrow> i64_clamp x lo hi = Some (max lo (min hi x))"
  by (simp add: i64_clamp_def)

section \<open>Time\<close>

text \<open>
  An \<open>Instant\<close> is a reading of the monotonic clock in nanoseconds and a \<open>Duration\<close> a
  number of nanoseconds; \<open>Instant::elapsed\<close> saturates at zero, as subtraction on \<open>nat\<close>
  does. A function that reads the clock takes the reading as the argument \<open>now\<close>: within
  one call the clock stands still.
\<close>

type_synonym instant = nat
type_synonym duration = nat

definition from_millis :: "nat \<Rightarrow> duration" where
  "from_millis ms = ms * 1000000"

definition from_secs :: "nat \<Rightarrow> duration" where
  "from_secs s = s * 1000000000"

definition elapsed :: "instant \<Rightarrow> instant \<Rightarrow> duration" where
  "elapsed now since = now - since"

section \<open>Strings\<close>

text \<open>The UTF-8 encodings of the Unicode \<open>White_Space\<close> characters.\<close>

definition white_space :: "string list" where
  "white_space =
    [[CHR 0x09], [CHR 0x0A], [CHR 0x0B], [CHR 0x0C], [CHR 0x0D], [CHR 0x20],
     [CHR 0xC2, CHR 0x85], [CHR 0xC2, CHR 0xA0], [CHR 0xE1, CHR 0x9A, CHR 0x80],
     [CHR 0xE2, CHR 0x80, CHR 0x80], [CHR 0xE2, CHR 0x80, CHR 0x81],
     [CHR 0xE2, CHR 0x80, CHR 0x82], [CHR 0xE2, CHR 0x80, CHR 0x83],
     [CHR 0xE2, CHR 0x80, CHR 0x84], [CHR 0xE2, CHR 0x80, CHR 0x85],
     [CHR 0xE2, CHR 0x80, CHR 0x86], [CHR 0xE2, CHR 0x80, CHR 0x87],
     [CHR 0xE2, CHR 0x80, CHR 0x88], [CHR 0xE2, CHR 0x80, CHR 0x89],
     [CHR 0xE2, CHR 0x80, CHR 0x8A], [CHR 0xE2, CHR 0x80, CHR 0xA8],
     [CHR 0xE2, CHR 0x80, CHR 0xA9], [CHR 0xE2, CHR 0x80, CHR 0xAF],
     [CHR 0xE2, CHR 0x81, CHR 0x9F], [CHR 0xE3, CHR 0x80, CHR 0x80]]"

fun is_prefix :: "'a list \<Rightarrow> 'a list \<Rightarrow> bool" where
  "is_prefix [] ys = True"
| "is_prefix (x # xs) [] = False"
| "is_prefix (x # xs) (y # ys) = (x = y \<and> is_prefix xs ys)"

text \<open>Drop leading patterns as long as one matches; an empty pattern never matches.\<close>

function strip_leading :: "'a list list \<Rightarrow> 'a list \<Rightarrow> 'a list" where
  "strip_leading pats s =
     (case find (\<lambda>p. p \<noteq> [] \<and> is_prefix p s) pats of
        None \<Rightarrow> s
      | Some p \<Rightarrow> strip_leading pats (drop (length p) s))"
  by pat_completeness auto
termination
proof (relation "measure (\<lambda>(pats, s). length s)")
  show "wf (measure (\<lambda>(pats :: 'a list list, s :: 'a list). length s))"
    by simp
next
  fix pats :: "'a list list" and s p
  assume "find (\<lambda>p. p \<noteq> [] \<and> is_prefix p s) pats = Some p"
  then have "p \<noteq> [] \<and> is_prefix p s"
    by (auto simp: find_Some_iff)
  then show "((pats, drop (length p) s), (pats, s)) \<in> measure (\<lambda>(pats, s). length s)"
    by (cases p; cases s) auto
qed

declare strip_leading.simps [simp del]

text \<open>\<open>str::trim\<close>.\<close>

definition trim :: "string \<Rightarrow> string" where
  "trim s = rev (strip_leading (map rev white_space) (rev (strip_leading white_space s)))"

text \<open>\<open>chars().any(char::is_control)\<close>: U+0000 to U+001F, U+007F and U+0080 to U+009F,
  the last of which are the two-byte sequences that start with 0xC2.\<close>

fun has_control :: "string \<Rightarrow> bool" where
  "has_control [] = False"
| "has_control (c # s) =
     (of_char c < (0x20 :: nat) \<or> of_char c = (0x7F :: nat)
      \<or> (of_char c = (0xC2 :: nat) \<and> (case s of [] \<Rightarrow> False
           | d # _ \<Rightarrow> (0x80 :: nat) \<le> of_char d \<and> of_char d \<le> (0x9F :: nat)))
      \<or> has_control s)"

definition is_ascii_digit :: "char \<Rightarrow> bool" where
  "is_ascii_digit c \<longleftrightarrow> (0x30 :: nat) \<le> of_char c \<and> of_char c \<le> (0x39 :: nat)"

definition is_ascii_hexdigit :: "char \<Rightarrow> bool" where
  "is_ascii_hexdigit c \<longleftrightarrow> is_ascii_digit c
     \<or> (0x41 :: nat) \<le> of_char c \<and> of_char c \<le> (0x46 :: nat)
     \<or> (0x61 :: nat) \<le> of_char c \<and> of_char c \<le> (0x66 :: nat)"

definition ascii_lower :: "char \<Rightarrow> char" where
  "ascii_lower c =
     (if (0x41 :: nat) \<le> of_char c \<and> of_char c \<le> (0x5A :: nat)
      then char_of (of_char c + (0x20 :: nat)) else c)"

definition to_ascii_lowercase :: "string \<Rightarrow> string" where
  "to_ascii_lowercase s = map ascii_lower s"


lemma is_prefix_iff: "is_prefix p s \<longleftrightarrow> (\<exists>t. s = p @ t)"
  by (induction p s rule: is_prefix.induct) auto

lemma is_prefix_append [simp]: "is_prefix p (p @ t)"
  by (auto simp: is_prefix_iff)

abbreviation leads :: "'a list list \<Rightarrow> 'a list \<Rightarrow> bool" where
  "leads pats s \<equiv> (\<exists>p \<in> set pats. p \<noteq> [] \<and> is_prefix p s)"

lemma find_leads_None: "find (\<lambda>p. p \<noteq> [] \<and> is_prefix p s) pats = None \<longleftrightarrow> \<not> leads pats s"
  unfolding find_None_iff by blast

lemma strip_leading_id: "\<not> leads pats s \<Longrightarrow> strip_leading pats s = s"
proof -
  assume "\<not> leads pats s"
  then have "find (\<lambda>p. p \<noteq> [] \<and> is_prefix p s) pats = None"
    by (rule find_leads_None [THEN iffD2])
  then show ?thesis
    by (simp add: strip_leading.simps [of pats s])
qed

lemma strip_leading_not_leads: "\<not> leads pats (strip_leading pats s)"
proof (induction pats s rule: strip_leading.induct)
  case (1 pats s)
  show ?case
  proof (cases "find (\<lambda>p. p \<noteq> [] \<and> is_prefix p s) pats")
    case None
    then have "\<not> leads pats s"
      by (rule find_leads_None [THEN iffD1])
    then show ?thesis
      by (simp add: strip_leading_id)
  next
    case (Some p)
    then have "strip_leading pats s = strip_leading pats (drop (length p) s)"
      by (subst strip_leading.simps) simp
    with "1.IH" [OF Some] show ?thesis
      by simp
  qed
qed

lemma strip_leading_suffix: "\<exists>t. s = t @ strip_leading pats s"
proof (induction pats s rule: strip_leading.induct)
  case (1 pats s)
  show ?case
  proof (cases "find (\<lambda>p. p \<noteq> [] \<and> is_prefix p s) pats")
    case None
    then show ?thesis
      by (subst strip_leading.simps) simp
  next
    case (Some p)
    then have eq: "strip_leading pats s = strip_leading pats (drop (length p) s)"
      by (subst strip_leading.simps) simp
    from "1.IH" [OF Some] obtain t where "drop (length p) s = t @ strip_leading pats s"
      unfolding eq by blast
    then have "s = (take (length p) s @ t) @ strip_leading pats s"
      by (metis append.assoc append_take_drop_id)
    then show ?thesis by blast
  qed
qed

lemma trim_idem [simp]: "trim (trim s) = trim s"
proof -
  define u where "u = strip_leading white_space s"
  define v where "v = trim s"
  have v: "rev v = strip_leading (map rev white_space) (rev u)"
    by (simp add: v_def trim_def u_def)
  obtain t where "rev u = t @ rev v"
    using strip_leading_suffix [of "rev u" "map rev white_space"] v by auto
  then have u: "u = v @ rev t"
    by (metis rev_append rev_rev_ident)
  have "\<not> leads white_space u"
    unfolding u_def by (rule strip_leading_not_leads)
  then have "\<not> leads white_space v"
    unfolding u by (auto simp: is_prefix_iff)
  then have "strip_leading white_space v = v"
    by (rule strip_leading_id)
  moreover have "strip_leading (map rev white_space) (rev v) = rev v"
    unfolding v by (intro strip_leading_id strip_leading_not_leads)
  ultimately have "trim v = v"
    by (simp add: trim_def [of v])
  then show ?thesis by (simp add: v_def)
qed

lemma trim_Nil [simp]: "trim [] = []"
  by (simp add: trim_def white_space_def strip_leading.simps)

lemma ascii_lower_idem [simp]: "ascii_lower (ascii_lower c) = ascii_lower c"
  by (auto simp: ascii_lower_def)

lemma to_ascii_lowercase_idem [simp]:
  "to_ascii_lowercase (to_ascii_lowercase s) = to_ascii_lowercase s"
  by (simp add: to_ascii_lowercase_def)

lemma length_to_ascii_lowercase [simp]: "length (to_ascii_lowercase s) = length s"
  by (simp add: to_ascii_lowercase_def)

lemma ascii_lower_hexdigit [simp]: "is_ascii_hexdigit (ascii_lower c) = is_ascii_hexdigit c"
  by (auto simp: ascii_lower_def is_ascii_hexdigit_def is_ascii_digit_def)

lemma list_all_hexdigit_lowercase [simp]:
  "list_all is_ascii_hexdigit (to_ascii_lowercase s) = list_all is_ascii_hexdigit s"
  by (simp add: to_ascii_lowercase_def list_all_iff)

section \<open>Big-endian byte strings\<close>

text \<open>\<open>to_be_bytes\<close> of an \<open>n\<close>-byte integer and \<open>from_be_bytes\<close>.\<close>

fun be_encode :: "nat \<Rightarrow> 'a :: len word \<Rightarrow> bytes" where
  "be_encode 0 w = []"
| "be_encode (Suc n) w = be_encode n (drop_bit 8 w) @ [ucast w]"

definition be_decode :: "bytes \<Rightarrow> 'a :: len word" where
  "be_decode bs = foldl (\<lambda>acc b. push_bit 8 acc OR ucast b) 0 bs"

lemma length_be_encode [simp, kvm_bytes]: "length (be_encode n w) = n"
  by (induction n arbitrary: w) auto

lemma be_decode_snoc: "be_decode (bs @ [b]) = push_bit 8 (be_decode bs) OR ucast b"
  by (simp add: be_decode_def)

lemma be_decode_encode_take_bit: "be_decode (be_encode n w) = take_bit (8 * n) w"
proof (induction n arbitrary: w)
  case 0
  show ?case by (simp add: be_decode_def)
next
  case (Suc n)
  have "push_bit 8 (take_bit (8 * n) (drop_bit 8 w)) OR ucast (ucast w :: u8)
      = take_bit (8 * Suc n) w"
    by (rule bit_word_eqI) (auto simp: bit_simps)
  with Suc show ?case by (simp add: be_decode_snoc)
qed

lemma be_decode_encode [kvm_bytes]:
  "LENGTH('a :: len) \<le> 8 * n \<Longrightarrow> be_decode (be_encode n w) = (w :: 'a word)"
  by (simp add: be_decode_encode_take_bit take_bit_word_eq_self)

lemma be_decode_u64 [simp]: "be_decode (be_encode 8 w) = (w :: u64)"
  and be_decode_u32 [simp]: "be_decode (be_encode 4 v) = (v :: u32)"
  and be_decode_u16 [simp]: "be_decode (be_encode 2 u) = (u :: u16)"
  by (simp_all add: be_decode_encode)

lemma be_encode_decode [kvm_bytes]:
  "length bs = n \<Longrightarrow> 8 * n \<le> LENGTH('a :: len) \<Longrightarrow> be_encode n (be_decode bs :: 'a word) = bs"
proof (induction bs arbitrary: n rule: rev_induct)
  case Nil
  then show ?case by simp
next
  case (snoc b bs)
  then obtain m where m: "n = Suc m" "length bs = m" "8 * m \<le> LENGTH('a)" by auto
  have d: "drop_bit 8 (be_decode (bs @ [b]) :: 'a word) = be_decode bs"
  proof -
    have small: "\<not> bit (be_decode bs :: 'a word) k" if "8 * m \<le> k" for k
    proof -
      have "(be_decode bs :: 'a word) = take_bit (8 * m) (be_decode bs)"
        using snoc.IH [OF m(2,3)] be_decode_encode_take_bit [of m "be_decode bs :: 'a word"]
        by simp
      then have "bit (be_decode bs :: 'a word) k \<longleftrightarrow> bit (take_bit (8 * m) (be_decode bs) :: 'a word) k"
        by (rule arg_cong)
      then show ?thesis using that by (simp add: bit_simps)
    qed
    show ?thesis
    proof (rule bit_word_eqI)
      fix k assume "k < LENGTH('a)"
      then show "bit (drop_bit 8 (be_decode (bs @ [b]) :: 'a word)) k = bit (be_decode bs :: 'a word) k"
        using small [of k] m snoc.prems bit_imp_le_length [of b "8 + k"]
        by (cases "8 * m \<le> k") (auto simp: be_decode_snoc bit_simps)
    qed
  qed
  have "ucast (be_decode (bs @ [b]) :: 'a word) = b"
    using m snoc.prems by (intro bit_word_eqI) (auto simp: be_decode_snoc bit_simps)
  with d m snoc.IH [OF m(2,3)] show ?case by simp
qed

lemma be_encode_inj: "be_encode 8 (v :: u64) = be_encode 8 w \<Longrightarrow> v = w"
  by (metis be_decode_u64)

text \<open>\<open>str::as_bytes\<close>.\<close>

definition str_bytes :: "string \<Rightarrow> bytes" where
  "str_bytes s = map of_char s"

lemma length_str_bytes [simp]: "length (str_bytes s) = length s"
  by (simp add: str_bytes_def)

section \<open>Lists searched and updated in place\<close>

text \<open>\<open>iter_mut().find(p)\<close> followed by an assignment.\<close>

fun update_first :: "('a \<Rightarrow> bool) \<Rightarrow> ('a \<Rightarrow> 'a) \<Rightarrow> 'a list \<Rightarrow> 'a list" where
  "update_first p f [] = []"
| "update_first p f (x # xs) = (if p x then f x # xs else x # update_first p f xs)"

lemma length_update_first [simp]: "length (update_first p f xs) = length xs"
  by (induction xs) auto

lemma map_update_first [simp]: "(\<And>x. g (f x) = g x) \<Longrightarrow> map g (update_first p f xs) = map g xs"
  by (induction xs) auto

lemma update_first_none: "find p xs = None \<Longrightarrow> update_first p f xs = xs"
  by (induction xs) (auto split: if_splits)

lemma find_update_first_same:
  "(\<And>x. p (f x) = p x) \<Longrightarrow> find p (update_first p f xs) = map_option f (find p xs)"
  by (induction xs) auto

lemma set_update_first: "x \<in> set (update_first p f xs) \<Longrightarrow> x \<in> set xs \<or> (\<exists>y \<in> set xs. p y \<and> x = f y)"
  by (induction xs) (auto split: if_splits)

lemma find_Some_set: "find p xs = Some x \<Longrightarrow> x \<in> set xs \<and> p x"
  by (auto simp: find_Some_iff)

lemma find_key_distinct:
  "distinct (map k xs) \<Longrightarrow> x \<in> set xs \<Longrightarrow> find (\<lambda>y. k y = k x) xs = Some x"
  by (induction xs) (auto simp: rev_image_eqI)

lemma find_key_ex: "k x \<in> k ` set xs \<Longrightarrow> \<exists>y. find (\<lambda>y. k y = k x) xs = Some y"
  by (induction xs) auto

lemma find_ex_iff: "(\<exists>y. find p xs = Some y) \<longleftrightarrow> (\<exists>y \<in> set xs. p y)"
  by (induction xs) auto

section \<open>Interfaces\<close>

text \<open>
  A component that handles events one after another and keeps a well-formedness
  invariant, as long as the events are admissible. Each component interprets the locale on its own
  operations; the facts proved here carry the invariant to every run.
\<close>

locale event_machine =
  fixes step :: "'e \<Rightarrow> 's \<Rightarrow> 's"
    and inv :: "'s \<Rightarrow> bool"
    and ok :: "'e \<Rightarrow> bool"
  assumes step_inv: "inv s \<Longrightarrow> ok e \<Longrightarrow> inv (step e s)"
begin

lemma run_inv: "inv s \<Longrightarrow> list_all ok es \<Longrightarrow> inv (fold step es s)"
  by (induction es arbitrary: s) (auto intro: step_inv)

lemma run_inv_all: "inv s \<Longrightarrow> (\<And>e. ok e) \<Longrightarrow> inv (fold step es s)"
  by (rule run_inv) (auto simp: list_all_iff)

end

text \<open>
  A partial encoder with a decoder that undoes it. What a peer decodes is what was
  encoded, so no two values share an encoding.
\<close>

locale wire_codec =
  fixes encode :: "'a \<Rightarrow> 'e + 'b"
    and decode :: "'b \<Rightarrow> 'f + 'a"
  assumes decode_encode: "encode x = Inr b \<Longrightarrow> decode b = Inr x"
begin

lemma encode_inj: "encode x = Inr b \<Longrightarrow> encode y = Inr b \<Longrightarrow> x = y"
  by (metis decode_encode sum.inject(2))

lemma decode_error_not_encoded: "decode b = Inl err \<Longrightarrow> encode x \<noteq> Inr b"
  by (auto dest: decode_encode)

end

text \<open>A codec whose decoder accepts nothing but encodings: the format is canonical.\<close>

locale canonical_codec = wire_codec +
  assumes encode_decode: "decode b = Inr x \<Longrightarrow> encode x = Inr b"
begin

lemma decode_iff: "decode b = Inr x \<longleftrightarrow> encode x = Inr b"
  using decode_encode encode_decode by blast

lemma decode_inj: "decode b = Inr x \<Longrightarrow> decode c = Inr x \<Longrightarrow> b = c"
  by (auto dest!: encode_decode)

end

end
