(* ===== verification/Events.thy ===== *)
theory Events
  imports KvmPrelude
begin

text \<open>
  The platform-neutral input events of \<^verbatim>\<open>kvm-core/src/event.rs\<close>: key, motion, button,
  wheel and pinch events, the numbered packet that carries one, and the snapshot of held
  controls. The \<open>linorder\<close> instance is the derived \<open>Ord\<close> of \<open>MouseButton\<close>.
\<close>

type_synonym hid_usage = u16

record key_event =
  ke_usage :: hid_usage
  ke_pressed :: bool
  ke_repeat :: bool

datatype mouse_button = BtnLeft | BtnRight | BtnMiddle | BtnBack | BtnForward

record wheel_delta =
  wd_x :: i16
  wd_y :: i16

datatype input_event =
    Key key_event
  | MouseMove i32 i32
  | MouseButton mouse_button bool
  | Wheel wheel_delta
  | SmoothWheel i32 i32
  | Pinch i32
  | PinchEnd

text \<open>\<open>InputEvent::is_release\<close>.\<close>

fun is_release :: "input_event \<Rightarrow> bool" where
  "is_release (Key k) = (\<not> ke_pressed k)"
| "is_release (MouseButton b pressed) = (\<not> pressed)"
| "is_release PinchEnd = True"
| "is_release (MouseMove dx dy) = False"
| "is_release (Wheel d) = False"
| "is_release (SmoothWheel x y) = False"
| "is_release (Pinch delta) = False"

record input_packet =
  ip_sequence :: u64
  ip_event :: input_event

record input_state =
  st_pressed_keys :: "hid_usage list"
  st_pressed_buttons :: "mouse_button list"

text \<open>The order of the constructors, which \<open>#[derive(PartialOrd, Ord)]\<close> compares.\<close>

fun button_index :: "mouse_button \<Rightarrow> nat" where
  "button_index BtnLeft = 0"
| "button_index BtnRight = 1"
| "button_index BtnMiddle = 2"
| "button_index BtnBack = 3"
| "button_index BtnForward = 4"

lemma button_index_inj [simp]: "button_index a = button_index b \<longleftrightarrow> a = b"
  by (cases a; cases b) auto

instantiation mouse_button :: linorder
begin

definition less_eq_mouse_button :: "mouse_button \<Rightarrow> mouse_button \<Rightarrow> bool" where
  "less_eq_mouse_button a b = (button_index a \<le> button_index b)"

definition less_mouse_button :: "mouse_button \<Rightarrow> mouse_button \<Rightarrow> bool" where
  "less_mouse_button a b = (button_index a < button_index b)"

instance
  by standard (auto simp: less_eq_mouse_button_def less_mouse_button_def)

end

end
