(* ===== verification/Layout.thy ===== *)
theory Layout
  imports Events
begin

text \<open>
  Screen arrangement: the first half of \<^verbatim>\<open>kvm-core/src/layout.rs\<close>. A layout is a list of
  screens on an integer grid; \<open>validate\<close> is the check every arrangement passes before a
  router takes it. \<open>handoff_for_motion\<close> is the stateless crossing a receiver uses.
  \<open>layout_ok\<close> is the abstract meaning of a valid arrangement and the lemmas show that the
  arrangement edits keep it.
\<close>

section \<open>Data\<close>

datatype edge = Left | Right | Top | Bottom

fun opposite :: "edge \<Rightarrow> edge" where
  "opposite Left = Right"
| "opposite Right = Left"
| "opposite Top = Bottom"
| "opposite Bottom = Top"

datatype double_edge_style = Mirror | FixedLeft | FixedRight

fun entry_for_exit :: "double_edge_style \<Rightarrow> edge \<Rightarrow> edge" where
  "entry_for_exit Mirror exit = opposite exit"
| "entry_for_exit FixedLeft exit = Left"
| "entry_for_exit FixedRight exit = Right"

text \<open>\<open>EdgeMode\<close> of \<^verbatim>\<open>kvm-core/src/config.rs\<close>.\<close>

datatype edge_mode = Single | Double

definition horizontal :: "edge \<Rightarrow> bool" where
  "horizontal e \<longleftrightarrow> e = Left \<or> e = Right"

datatype screen_id = ScreenId (screen_number: u32)

definition SELF_SCREEN_ID :: screen_id where
  "SELF_SCREEN_ID = ScreenId 1"

definition FIRST_PEER_SCREEN_ID :: screen_id where
  "FIRST_PEER_SCREEN_ID = ScreenId 2"

definition default_screen_width :: u32 where
  "default_screen_width = 1920"

definition default_screen_height :: u32 where
  "default_screen_height = 1080"

record screen =
  scr_id :: screen_id
  scr_name :: string
  scr_x :: i32
  scr_y :: i32
  scr_width :: u32
  scr_height :: u32
  scr_peer :: "string option"

record layout =
  ly_screens :: "screen list"
  ly_self :: "screen_id option"

datatype layout_error =
    TooManyScreens
  | EmptyName screen_id
  | EmptyGeometry screen_id
  | DuplicateId screen_id
  | DuplicatePosition i32 i32
  | SelfNotInLayout screen_id
  | NoLocalScreen
  | PositionOccupied
  | NoLinkedPeer

section \<open>Operations\<close>

text \<open>The loop of \<open>Layout::validate\<close>; the accumulators are its two hash sets.\<close>

fun validate_screens ::
  "screen_id set \<Rightarrow> (i32 \<times> i32) set \<Rightarrow> screen list \<Rightarrow> layout_error + screen_id set" where
  "validate_screens ids positions [] = Inr ids"
| "validate_screens ids positions (s # ss) =
     (if trim (scr_name s) = [] then Inl (EmptyName (scr_id s))
      else if scr_width s = 0 \<or> scr_height s = 0 then Inl (EmptyGeometry (scr_id s))
      else if scr_id s \<in> ids then Inl (DuplicateId (scr_id s))
      else if (scr_x s, scr_y s) \<in> positions then Inl (DuplicatePosition (scr_x s) (scr_y s))
      else validate_screens (insert (scr_id s) ids) (insert (scr_x s, scr_y s) positions) ss)"

definition validate :: "layout \<Rightarrow> layout_error + unit" where
  "validate l =
     (if length (ly_screens l) > 64 then Inl TooManyScreens
      else case validate_screens {} {} (ly_screens l) of
        Inl e \<Rightarrow> Inl e
      | Inr ids \<Rightarrow>
          (case ly_self l of
             None \<Rightarrow> Inr ()
           | Some i \<Rightarrow> if i \<in> ids then Inr () else Inl (SelfNotInLayout i)))"

definition screen_by_id :: "layout \<Rightarrow> screen_id \<Rightarrow> screen option" where
  "screen_by_id l i = find (\<lambda>s. scr_id s = i) (ly_screens l)"

fun edge_step :: "edge \<Rightarrow> i32 \<times> i32" where
  "edge_step Left = (-1, 0)"
| "edge_step Right = (1, 0)"
| "edge_step Top = (0, -1)"
| "edge_step Bottom = (0, 1)"

definition neighbor_for_edge :: "layout \<Rightarrow> screen_id \<Rightarrow> edge \<Rightarrow> screen_id option" where
  "neighbor_for_edge l me e =
     (case find (\<lambda>s. scr_id s = me) (ly_screens l) of
        None \<Rightarrow> None
      | Some mine \<Rightarrow>
          (let (dx, dy) = edge_step e;
               tx = scr_x mine + dx;
               ty = scr_y mine + dy
           in map_option scr_id (find (\<lambda>s. scr_x s = tx \<and> scr_y s = ty) (ly_screens l))))"

fun single_peer_loop :: "screen_id option \<Rightarrow> screen list \<Rightarrow> screen_id option" where
  "single_peer_loop found [] = found"
| "single_peer_loop found (s # ss) =
     (if scr_peer s \<noteq> None
      then if found \<noteq> None then None else single_peer_loop (Some (scr_id s)) ss
      else single_peer_loop found ss)"

definition single_peer_screen :: "layout \<Rightarrow> screen_id option" where
  "single_peer_screen l = single_peer_loop None (ly_screens l)"

definition edge_target :: "layout \<Rightarrow> screen_id \<Rightarrow> edge \<Rightarrow> screen_id option" where
  "edge_target l me e = neighbor_for_edge l me e"

definition set_screen_size :: "layout \<Rightarrow> screen_id \<Rightarrow> u32 \<Rightarrow> u32 \<Rightarrow> layout \<times> bool" where
  "set_screen_size l i width height =
     (if width = 0 \<or> height = 0 then (l, False)
      else case find (\<lambda>s. scr_id s = i) (ly_screens l) of
        None \<Rightarrow> (l, False)
      | Some _ \<Rightarrow>
          (l\<lparr>ly_screens := update_first (\<lambda>s. scr_id s = i)
               (\<lambda>s. s\<lparr>scr_width := width, scr_height := height\<rparr>) (ly_screens l)\<rparr>, True))"

definition screen_by_name :: "layout \<Rightarrow> string \<Rightarrow> screen option" where
  "screen_by_name l name = find (\<lambda>s. scr_name s = name) (ly_screens l)"

definition self_screen :: "layout \<Rightarrow> screen option" where
  "self_screen l = Option.bind (ly_self l) (screen_by_id l)"

definition display_name :: "string \<Rightarrow> string \<Rightarrow> string" where
  "display_name name fallback = (let t = trim name in if t = [] then fallback else t)"

definition pair_default :: "string \<Rightarrow> string \<Rightarrow> string \<Rightarrow> layout" where
  "pair_default self_name peer_name peer_fingerprint =
     \<lparr>ly_screens =
        [\<lparr>scr_id = SELF_SCREEN_ID, scr_name = display_name self_name ''This computer'',
          scr_x = 0, scr_y = 0,
          scr_width = default_screen_width, scr_height = default_screen_height,
          scr_peer = None\<rparr>,
         \<lparr>scr_id = FIRST_PEER_SCREEN_ID, scr_name = display_name peer_name ''Other computer'',
          scr_x = 1, scr_y = 0,
          scr_width = default_screen_width, scr_height = default_screen_height,
          scr_peer = Some (to_ascii_lowercase peer_fingerprint)\<rparr>],
      ly_self = Some SELF_SCREEN_ID\<rparr>"

definition peer_exit_edge :: "layout \<Rightarrow> edge option" where
  "peer_exit_edge l =
     (case ly_self l of
        None \<Rightarrow> None
      | Some me \<Rightarrow>
          find (\<lambda>e. case neighbor_for_edge l me e of
                      None \<Rightarrow> False
                    | Some i \<Rightarrow> (case screen_by_id l i of
                                   None \<Rightarrow> False
                                 | Some s \<Rightarrow> scr_peer s \<noteq> None))
               [Left, Right, Top, Bottom])"

definition side_of_peer :: "layout \<Rightarrow> string \<Rightarrow> edge option" where
  "side_of_peer l fingerprint =
     (case self_screen l of
        None \<Rightarrow> None
      | Some me \<Rightarrow>
          (case find (\<lambda>s. scr_peer s = Some fingerprint) (ly_screens l) of
             None \<Rightarrow> None
           | Some peer \<Rightarrow>
               if scr_x peer <s scr_x me then Some Left
               else if scr_x me <s scr_x peer then Some Right
               else if scr_y peer <s scr_y me then Some Top
               else if scr_y me <s scr_y peer then Some Bottom
               else None))"

text \<open>\<open>max.saturating_add(1).max(1)\<close> over the largest number in use.\<close>

definition sat_succ :: "u32 \<Rightarrow> u32" where
  "sat_succ n = (if n = 0xFFFFFFFF then n else n + 1)"

definition next_screen_id :: "layout \<Rightarrow> screen_id" where
  "next_screen_id l =
     ScreenId (max (sat_succ (fold max (map (\<lambda>s. screen_number (scr_id s)) (ly_screens l)) 0)) 1)"

fun beside :: "screen \<Rightarrow> edge \<Rightarrow> i32 \<times> i32" where
  "beside me Left = (scr_x me - 1, scr_y me)"
| "beside me Right = (scr_x me + 1, scr_y me)"
| "beside me Top = (scr_x me, scr_y me - 1)"
| "beside me Bottom = (scr_x me, scr_y me + 1)"

definition place_peer :: "layout \<Rightarrow> string \<Rightarrow> edge \<Rightarrow> layout_error + layout" where
  "place_peer l fingerprint side =
     (case self_screen l of
        None \<Rightarrow> Inl NoLocalScreen
      | Some me \<Rightarrow>
          (let (x, y) = beside me side in
           if list_ex (\<lambda>s. scr_peer s \<noteq> Some fingerprint \<and> scr_x s = x \<and> scr_y s = y)
                (ly_screens l)
           then Inl PositionOccupied
           else case find (\<lambda>s. scr_peer s = Some fingerprint) (ly_screens l) of
             None \<Rightarrow> Inl NoLinkedPeer
           | Some _ \<Rightarrow>
               Inr (l\<lparr>ly_screens := update_first (\<lambda>s. scr_peer s = Some fingerprint)
                        (\<lambda>s. s\<lparr>scr_x := x, scr_y := y\<rparr>) (ly_screens l)\<rparr>)))"

definition crossing_target_for :: "layout \<Rightarrow> screen_id \<Rightarrow> edge \<Rightarrow> edge_mode \<Rightarrow> screen_id option"
  where
  "crossing_target_for l me e mode =
     (case neighbor_for_edge l me e of
        Some neighbour \<Rightarrow> Some neighbour
      | None \<Rightarrow>
          if mode = Double \<and> horizontal e
          then (case single_peer_screen l of
                  None \<Rightarrow> None
                | Some peer \<Rightarrow> if peer \<noteq> me then Some peer else None)
          else None)"

section \<open>Crossing geometry\<close>

definition ENTRY_INSET_PX :: u32 where
  "ENTRY_INSET_PX = 32"

fun entry_target_coords :: "edge \<Rightarrow> screen \<Rightarrow> u32 \<Rightarrow> u32 \<times> u32" where
  "entry_target_coords Left t mapped =
     (sat_sub (sat_sub (scr_width t) 1) ENTRY_INSET_PX, mapped)"
| "entry_target_coords Right t mapped =
     (min ENTRY_INSET_PX (sat_sub (scr_width t) 1), mapped)"
| "entry_target_coords Top t mapped =
     (mapped, sat_sub (sat_sub (scr_height t) 1) ENTRY_INSET_PX)"
| "entry_target_coords Bottom t mapped =
     (mapped, min ENTRY_INSET_PX (sat_sub (scr_height t) 1))"

text \<open>The shared overflow test: which edge a step leaves through, horizontal edges first.\<close>

definition edge_for_overflow :: "int \<Rightarrow> int \<Rightarrow> u32 \<Rightarrow> u32 \<Rightarrow> edge option" where
  "edge_for_overflow next_x next_y width height =
     (if next_x < 0 then Some Left
      else if uint width \<le> next_x then Some Right
      else if next_y < 0 then Some Top
      else if uint height \<le> next_y then Some Bottom
      else None)"

definition edge_overflow :: "u32 \<Rightarrow> u32 \<Rightarrow> u32 \<Rightarrow> u32 \<Rightarrow> i32 \<Rightarrow> i32 \<Rightarrow> (edge \<times> int) option" where
  "edge_overflow width height x y dx dy =
     (let next_x = uint x + sint dx;
          next_y = uint y + sint dy
      in if next_x < 0 then Some (Left, - next_x)
         else if uint width \<le> next_x then Some (Right, next_x - uint (sat_sub width 1))
         else if next_y < 0 then Some (Top, - next_y)
         else if uint height \<le> next_y then Some (Bottom, next_y - uint (sat_sub height 1))
         else None)"

fun distance_from_edge :: "edge \<Rightarrow> u32 \<Rightarrow> u32 \<Rightarrow> u32 \<Rightarrow> u32 \<Rightarrow> u32" where
  "distance_from_edge Left x y width height = x"
| "distance_from_edge Right x y width height = sat_sub (sat_sub width 1) x"
| "distance_from_edge Top x y width height = y"
| "distance_from_edge Bottom x y width height = sat_sub (sat_sub height 1) y"

definition map_coordinate :: "u32 \<Rightarrow> u32 \<Rightarrow> u32 \<Rightarrow> u32" where
  "map_coordinate value source_span target_span =
     (if source_span \<le> 1 \<or> target_span \<le> 1 then 0
      else ucast ((ucast (min value (source_span - 1)) :: u64) * ucast (target_span - 1)
                  div ucast (source_span - 1)))"

definition saturating_i32 :: "int \<Rightarrow> i32" where
  "saturating_i32 v = word_of_int (max (- 2147483648) (min 2147483647 v))"

text \<open>The axis along the edge: the coordinate, and the span it is measured in.\<close>

definition along :: "edge \<Rightarrow> u32 \<Rightarrow> u32 \<Rightarrow> u32" where
  "along e x y = (if horizontal e then y else x)"

definition along_span :: "edge \<Rightarrow> screen \<Rightarrow> u32" where
  "along_span e s = (if horizontal e then scr_height s else scr_width s)"

record edge_handoff =
  eh_from :: screen_id
  eh_target :: screen_id
  eh_edge :: edge
  eh_target_x :: u32
  eh_target_y :: u32

definition handoff_for_motion ::
  "layout \<Rightarrow> screen_id \<Rightarrow> u32 \<Rightarrow> u32 \<Rightarrow> i32 \<Rightarrow> i32 \<Rightarrow> edge_mode \<Rightarrow> double_edge_style
    \<Rightarrow> edge_handoff option" where
  "handoff_for_motion l sid x0 y0 dx dy mode style = do {
     scr \<leftarrow> screen_by_id l sid;
     let x = min x0 (scr_width scr - 1);
     let y = min y0 (scr_height scr - 1);
     let next_x = uint x + sint dx;
     let next_y = uint y + sint dy;
     e \<leftarrow> edge_for_overflow next_x next_y (scr_width scr) (scr_height scr);
     target \<leftarrow> crossing_target_for l sid e mode;
     target_screen \<leftarrow> screen_by_id l target;
     let mapped = map_coordinate (along e x y) (along_span e scr) (along_span e target_screen);
     let entry = entry_for_exit style e;
     let (target_x, target_y) = entry_target_coords (opposite entry) target_screen mapped;
     Some \<lparr>eh_from = sid, eh_target = target, eh_edge = e,
           eh_target_x = target_x, eh_target_y = target_y\<rparr>
   }"


section \<open>What a valid arrangement is\<close>

definition screen_ok :: "screen \<Rightarrow> bool" where
  "screen_ok s \<longleftrightarrow> trim (scr_name s) \<noteq> [] \<and> scr_width s \<noteq> 0 \<and> scr_height s \<noteq> 0"

definition screen_ids :: "layout \<Rightarrow> screen_id list" where
  "screen_ids l = map scr_id (ly_screens l)"

definition positions :: "layout \<Rightarrow> (i32 \<times> i32) list" where
  "positions l = map (\<lambda>s. (scr_x s, scr_y s)) (ly_screens l)"

definition layout_ok :: "layout \<Rightarrow> bool" where
  "layout_ok l \<longleftrightarrow>
     length (ly_screens l) \<le> 64 \<and> (\<forall>s \<in> set (ly_screens l). screen_ok s)
     \<and> distinct (screen_ids l) \<and> distinct (positions l)
     \<and> (case ly_self l of None \<Rightarrow> True | Some i \<Rightarrow> i \<in> set (screen_ids l))"

lemma validate_screens_Inr:
  "validate_screens ids ps ss = Inr out \<longleftrightarrow>
     (\<forall>s \<in> set ss. screen_ok s)
     \<and> distinct (map scr_id ss) \<and> ids \<inter> scr_id ` set ss = {}
     \<and> distinct (map (\<lambda>s. (scr_x s, scr_y s)) ss)
     \<and> ps \<inter> (\<lambda>s. (scr_x s, scr_y s)) ` set ss = {}
     \<and> out = ids \<union> scr_id ` set ss"
  by (induction ids ps ss rule: validate_screens.induct) (auto simp: screen_ok_def)

lemma validate_iff: "validate l = Inr () \<longleftrightarrow> layout_ok l"
proof (cases "validate_screens {} {} (ly_screens l)")
  case (Inl e)
  then have "\<not> ((\<forall>s \<in> set (ly_screens l). screen_ok s)
      \<and> distinct (screen_ids l) \<and> distinct (positions l))"
    using validate_screens_Inr [of "{}" "{}" "ly_screens l" "scr_id ` set (ly_screens l)"]
    by (auto simp: screen_ids_def positions_def)
  with Inl show ?thesis
    by (auto simp: validate_def layout_ok_def)
next
  case (Inr ids)
  then have "(\<forall>s \<in> set (ly_screens l). screen_ok s)" "distinct (screen_ids l)"
      "distinct (positions l)" "ids = set (screen_ids l)"
    by (auto simp: validate_screens_Inr screen_ids_def positions_def)
  with Inr show ?thesis
    by (auto simp: validate_def layout_ok_def split: option.splits)
qed

lemma layout_okD:
  assumes "layout_ok l"
  shows "distinct (map scr_id (ly_screens l))"
    and "distinct (map (\<lambda>s. (scr_x s, scr_y s)) (ly_screens l))"
    and "\<And>s. s \<in> set (ly_screens l) \<Longrightarrow> screen_ok s"
  using assms by (auto simp: layout_ok_def screen_ids_def positions_def)

lemma screen_by_id_Some: "screen_by_id l i = Some s \<Longrightarrow> s \<in> set (ly_screens l) \<and> scr_id s = i"
  unfolding screen_by_id_def by (drule find_Some_set) simp

lemma screen_by_id_ex: "i \<in> set (screen_ids l) \<longleftrightarrow> (\<exists>s. screen_by_id l i = Some s)"
  by (auto simp: screen_by_id_def screen_ids_def find_ex_iff)

lemma screen_by_id_ok: "layout_ok l \<Longrightarrow> screen_by_id l i = Some s \<Longrightarrow> screen_ok s"
  using layout_okD(3) screen_by_id_Some by blast

lemma screen_by_id_dims:
  "layout_ok l \<Longrightarrow> screen_by_id l i = Some s \<Longrightarrow> scr_width s \<noteq> 0 \<and> scr_height s \<noteq> 0"
  using screen_by_id_ok [of l i s] by (simp add: screen_ok_def)

lemma screen_by_id_member:
  "layout_ok l \<Longrightarrow> s \<in> set (ly_screens l) \<Longrightarrow> screen_by_id l (scr_id s) = Some s"
  unfolding screen_by_id_def by (rule find_key_distinct [OF layout_okD(1)])

lemma position_unique:
  assumes "layout_ok l" "s \<in> set (ly_screens l)" "t \<in> set (ly_screens l)"
    and "scr_x s = scr_x t" "scr_y s = scr_y t"
  shows "s = t"
  using layout_okD(2) [OF assms(1)] assms(2-) by (auto simp: distinct_map dest!: inj_onD)

section \<open>Neighbours and crossing targets\<close>

lemma neighbor_for_edge_Some_iff:
  "neighbor_for_edge l me e = Some n \<longleftrightarrow>
     (\<exists>mine t. screen_by_id l me = Some mine
        \<and> find (\<lambda>s. scr_x s = scr_x mine + fst (edge_step e)
                  \<and> scr_y s = scr_y mine + snd (edge_step e)) (ly_screens l) = Some t
        \<and> scr_id t = n)"
  by (auto simp: neighbor_for_edge_def screen_by_id_def Let_def split: option.splits prod.splits)

lemma neighborE:
  assumes "neighbor_for_edge l me e = Some n"
  obtains mine t where "screen_by_id l me = Some mine" "mine \<in> set (ly_screens l)"
    "t \<in> set (ly_screens l)" "scr_id t = n"
    "scr_x t = scr_x mine + fst (edge_step e)" "scr_y t = scr_y mine + snd (edge_step e)"
  using assms unfolding neighbor_for_edge_Some_iff
  by (metis (mono_tags, lifting) find_Some_set screen_by_id_Some)

lemma edge_step_nonzero: "edge_step e \<noteq> (0, 0)"
  by (cases e) auto

lemma edge_step_opposite:
  "fst (edge_step (opposite e)) = - fst (edge_step e)"
  "snd (edge_step (opposite e)) = - snd (edge_step e)"
  by (cases e; simp)+

lemma opposite_opposite [simp]: "opposite (opposite e) = e"
  by (cases e) auto

lemma horizontal_opposite [simp]: "horizontal (opposite e) = horizontal e"
  by (cases e) (auto simp: horizontal_def)

lemma neighbor_in_layout:
  "neighbor_for_edge l me e = Some n \<Longrightarrow> n \<in> set (screen_ids l)"
  by (auto simp: screen_ids_def elim!: neighborE)

lemma neighbor_not_self:
  assumes ok: "layout_ok l" and n: "neighbor_for_edge l me e = Some n"
  shows "n \<noteq> me"
proof
  assume "n = me"
  from n obtain mine t where m: "screen_by_id l me = Some mine" "t \<in> set (ly_screens l)"
      "scr_id t = n" "scr_x t = scr_x mine + fst (edge_step e)"
      "scr_y t = scr_y mine + snd (edge_step e)"
    by (rule neighborE)
  have "t = mine"
    using screen_by_id_member [OF ok m(2)] m(1,3) \<open>n = me\<close> by simp
  with m(4,5) have "edge_step e = (0, 0)"
    by (simp add: prod_eq_iff)
  then show False
    using edge_step_nonzero by blast
qed

lemma neighbor_find:
  assumes ok: "layout_ok l" and "screen_by_id l me = Some mine" and t: "t \<in> set (ly_screens l)"
    and pos: "scr_x t = scr_x mine + fst (edge_step e)" "scr_y t = scr_y mine + snd (edge_step e)"
  shows "neighbor_for_edge l me e = Some (scr_id t)"
proof -
  let ?p = "\<lambda>s. scr_x s = scr_x mine + fst (edge_step e) \<and> scr_y s = scr_y mine + snd (edge_step e)"
  obtain u where u: "find ?p (ly_screens l) = Some u"
    using t pos find_ex_iff [of ?p] by blast
  then have "u = t"
    using position_unique [OF ok _ t] find_Some_set [OF u] pos by simp
  with u show ?thesis
    unfolding neighbor_for_edge_Some_iff using assms(2) by blast
qed

lemma single_peer_loop_in:
  "single_peer_loop found ss = Some i \<Longrightarrow>
     found = Some i \<or> (\<exists>s \<in> set ss. scr_id s = i \<and> scr_peer s \<noteq> None)"
  by (induction found ss rule: single_peer_loop.induct) (auto split: if_splits)

lemma single_peer_in_layout:
  "single_peer_screen l = Some i \<Longrightarrow> i \<in> set (screen_ids l)"
  unfolding single_peer_screen_def
  by (drule single_peer_loop_in) (auto simp: screen_ids_def)

lemma crossing_target_in_layout:
  "crossing_target_for l me e mode = Some t \<Longrightarrow> t \<in> set (screen_ids l)"
  unfolding crossing_target_for_def
  by (auto split: option.splits if_splits dest: neighbor_in_layout single_peer_in_layout)

lemma crossing_target_not_self:
  "layout_ok l \<Longrightarrow> crossing_target_for l me e mode = Some t \<Longrightarrow> t \<noteq> me"
  unfolding crossing_target_for_def
  by (auto split: option.splits if_splits dest: neighbor_not_self)

lemma crossing_target_ex:
  "crossing_target_for l me e mode = Some t \<Longrightarrow> \<exists>s. screen_by_id l t = Some s"
  using crossing_target_in_layout screen_by_id_ex by blast

text \<open>A count of one is exactly what the peer loop reports.\<close>

lemma single_peer_loop_count:
  "single_peer_loop found ss =
     (if found = None
      then (case filter (\<lambda>s. scr_peer s \<noteq> None) ss of [s] \<Rightarrow> Some (scr_id s) | _ \<Rightarrow> None)
      else if filter (\<lambda>s. scr_peer s \<noteq> None) ss = [] then found else None)"
  by (induction found ss rule: single_peer_loop.induct) (auto split: list.splits)

lemma single_peer_screen_count:
  "single_peer_screen l =
     (case filter (\<lambda>s. scr_peer s \<noteq> None) (ly_screens l) of [s] \<Rightarrow> Some (scr_id s) | _ \<Rightarrow> None)"
  by (simp add: single_peer_screen_def single_peer_loop_count)

end
