(* ===== verification/LayoutEdits.thy ===== *)
theory LayoutEdits
  imports Layout
begin

text \<open>
  The arrangement edits of \<open>Layout\<close> keep an arrangement valid, and do what they say:
  adopting measured sizes, moving a linked peer beside this computer, numbering a new
  screen, the default arrangement of a fresh pairing.
\<close>

section \<open>Adopting a measured size\<close>

lemma ids_set_screen_size [simp]: "screen_ids (fst (set_screen_size l i w h)) = screen_ids l"
  by (auto simp: set_screen_size_def screen_ids_def split: option.splits)

lemma positions_set_screen_size [simp]: "positions (fst (set_screen_size l i w h)) = positions l"
  by (auto simp: set_screen_size_def positions_def split: option.splits)

lemma ly_self_set_screen_size [simp]: "ly_self (fst (set_screen_size l i w h)) = ly_self l"
  by (auto simp: set_screen_size_def split: option.splits)

lemma set_screen_size_ok: "layout_ok l \<Longrightarrow> layout_ok (fst (set_screen_size l i w h))"
proof -
  assume ok: "layout_ok l"
  have len: "length (ly_screens (fst (set_screen_size l i w h))) = length (ly_screens l)"
    by (auto simp: set_screen_size_def split: option.splits)
  have "screen_ok s" if "s \<in> set (ly_screens (fst (set_screen_size l i w h)))" for s
    using that layout_okD(3) [OF ok]
    by (auto simp: set_screen_size_def screen_ok_def split: option.splits if_splits
        dest!: set_update_first)
  with ok len show ?thesis
    by (simp add: layout_ok_def split: option.splits)
qed

lemma set_screen_size_True:
  "snd (set_screen_size l i w h) \<longleftrightarrow> w \<noteq> 0 \<and> h \<noteq> 0 \<and> i \<in> set (screen_ids l)"
  by (auto simp: set_screen_size_def screen_ids_def find_None_iff split: option.splits
      dest: find_Some_set)

lemma find_update_first_other:
  "(\<And>x. p x \<Longrightarrow> \<not> q x \<and> \<not> q (f x)) \<Longrightarrow> find q (update_first p f xs) = find q xs"
  by (induction xs) auto

lemma screen_by_id_set_screen_size:
  "snd (set_screen_size l i w h) \<Longrightarrow>
   screen_by_id (fst (set_screen_size l i w h)) j =
     (if j = i then map_option (\<lambda>s. s\<lparr>scr_width := w, scr_height := h\<rparr>) (screen_by_id l i)
      else screen_by_id l j)"
  by (auto simp: set_screen_size_def screen_by_id_def find_update_first_same
      split: option.splits if_splits intro!: find_update_first_other)

lemma set_screen_size_False:
  "\<not> snd (set_screen_size l i w h) \<Longrightarrow> fst (set_screen_size l i w h) = l"
  by (auto simp: set_screen_size_def split: option.splits if_splits)

lemma single_peer_loop_update:
  "(\<And>s. scr_peer (f s) = scr_peer s \<and> scr_id (f s) = scr_id s) \<Longrightarrow>
   single_peer_loop found (update_first p f ss) = single_peer_loop found ss"
  by (induction found ss rule: single_peer_loop.induct) (auto, (induction ss, auto)?)

section \<open>Moving a linked peer\<close>

definition linked :: "layout \<Rightarrow> string \<Rightarrow> screen list" where
  "linked l fp = filter (\<lambda>s. scr_peer s = Some fp) (ly_screens l)"

lemma update_first_unique:
  "length (filter p xs) \<le> 1 \<Longrightarrow> update_first p f xs = map (\<lambda>x. if p x then f x else x) xs"
proof (induction xs)
  case Nil
  show ?case by simp
next
  case (Cons x xs)
  show ?case
  proof (cases "p x")
    case True
    with Cons.prems have "filter p xs = []" by simp
    then have "\<And>y. y \<in> set xs \<Longrightarrow> \<not> p y"
      by (auto simp: filter_empty_conv)
    with True show ?thesis by (auto intro: map_idI [symmetric])
  next
    case False
    with Cons show ?thesis by simp
  qed
qed

lemma distinct_move_one:
  assumes "distinct (map k xs)" and "\<And>x. x \<in> set xs \<Longrightarrow> \<not> p x \<Longrightarrow> k x \<noteq> v"
    and "length (filter p xs) \<le> 1" and "\<And>x. k (f x) = v"
  shows "distinct (map k (map (\<lambda>x. if p x then f x else x) xs))"
  using assms
proof (induction xs)
  case Nil
  show ?case by simp
next
  case (Cons x xs)
  let ?g = "\<lambda>x. if p x then f x else x"
  have IH: "distinct (map k (map ?g xs))"
    using Cons.prems by (intro Cons.IH) (auto split: if_splits)
  have "k (?g x) \<notin> set (map k (map ?g xs))"
  proof (cases "p x")
    case True
    then have "filter p xs = []" using Cons.prems(3) by simp
    then have "\<And>y. y \<in> set xs \<Longrightarrow> \<not> p y" by (auto simp: filter_empty_conv)
    then have "map ?g xs = xs" by (auto intro: map_idI)
    moreover have "v \<notin> k ` set xs"
      using Cons.prems(2) \<open>\<And>y. y \<in> set xs \<Longrightarrow> \<not> p y\<close> by fastforce
    ultimately show ?thesis using True Cons.prems(4) by simp
  next
    case False
    then have "k x \<noteq> v" using Cons.prems(2) by simp
    moreover have "k x \<notin> k ` set xs" using Cons.prems(1) by simp
    ultimately show ?thesis using False Cons.prems(4) by (auto split: if_splits)
  qed
  with IH show ?case by simp
qed

lemma place_peer_Inr_iff:
  "place_peer l fp side = Inr l' \<longleftrightarrow>
     (\<exists>me. self_screen l = Some me
        \<and> (\<forall>s \<in> set (ly_screens l). scr_peer s \<noteq> Some fp \<longrightarrow> (scr_x s, scr_y s) \<noteq> beside me side)
        \<and> (\<exists>peer. find (\<lambda>s. scr_peer s = Some fp) (ly_screens l) = Some peer)
        \<and> l' = l\<lparr>ly_screens := update_first (\<lambda>s. scr_peer s = Some fp)
            (\<lambda>s. s\<lparr>scr_x := fst (beside me side), scr_y := snd (beside me side)\<rparr>) (ly_screens l)\<rparr>)"
  by (auto simp: place_peer_def Let_def list_ex_iff prod_eq_iff split: option.splits prod.splits)

lemma place_peer_valid:
  assumes "layout_ok l" and "length (linked l fp) \<le> 1" and "place_peer l fp side = Inr l'"
  shows "layout_ok l'"
proof -
  obtain me where
    me: "\<forall>s \<in> set (ly_screens l). scr_peer s \<noteq> Some fp \<longrightarrow> (scr_x s, scr_y s) \<noteq> beside me side"
    and l': "l' = l\<lparr>ly_screens := update_first (\<lambda>s. scr_peer s = Some fp)
        (\<lambda>s. s\<lparr>scr_x := fst (beside me side), scr_y := snd (beside me side)\<rparr>) (ly_screens l)\<rparr>"
    using assms(3) unfolding place_peer_Inr_iff by blast
  let ?p = "\<lambda>s. scr_peer s = Some fp"
  let ?f = "\<lambda>s :: screen. s\<lparr>scr_x := fst (beside me side), scr_y := snd (beside me side)\<rparr>"
  have eq: "ly_screens l' = map (\<lambda>s. if ?p s then ?f s else s) (ly_screens l)"
    using assms(2) update_first_unique [of ?p "ly_screens l" ?f] by (simp add: l' linked_def)
  have ids: "screen_ids l' = screen_ids l"
    by (simp add: screen_ids_def l')
  have "distinct (positions l')"
    unfolding positions_def eq
    using layout_okD(2) [OF assms(1)] me assms(2)
    by (intro distinct_move_one [where v = "beside me side"]) (auto simp: linked_def)
  moreover have "\<forall>s \<in> set (ly_screens l'). screen_ok s"
    unfolding eq using layout_okD(3) [OF assms(1)] by (auto simp: screen_ok_def)
  moreover have "length (ly_screens l') \<le> 64" "ly_self l' = ly_self l"
    using assms(1) by (simp_all add: l' layout_ok_def)
  ultimately show ?thesis
    using assms(1) by (simp add: layout_ok_def ids split: option.splits)
qed

text \<open>
  Placing a peer keeps the arrangement valid. Where at most one screen carries the
  peer's fingerprint, a placement the code accepts yields an arrangement that validates
  again: no two screens overlap.
\<close>

theorem place_peer_ok:
  assumes "layout_ok l" and "length (linked l fp) \<le> 1" and "place_peer l fp side = Inr l'"
  shows "layout_ok l' \<and> validate l' = Inr ()"
  using place_peer_valid [OF assms] by (simp add: validate_iff)



text \<open>
  A concrete arrangement: this computer at the origin, one linked peer at its right.
\<close>

definition desk_pair :: layout where
  "desk_pair = pair_default ''desk'' ''laptop'' ''ab''"

text \<open>
  Grid symmetry. In a valid arrangement, if leaving screen a through edge e leads to
  screen b, then leaving b through the opposite edge leads back to a, so the edge a drive
  enters through always faces home.
\<close>

theorem neighbor_symmetric:
  assumes "layout_ok l" and "neighbor_for_edge l a e = Some b"
  shows "neighbor_for_edge l b (opposite e) = Some a"
proof -
  from assms(2) obtain sa sb where s: "screen_by_id l a = Some sa" "sa \<in> set (ly_screens l)"
      "sb \<in> set (ly_screens l)" "scr_id sb = b"
      "scr_x sb = scr_x sa + fst (edge_step e)" "scr_y sb = scr_y sa + snd (edge_step e)"
    by (rule neighborE)
  have "neighbor_for_edge l b (opposite e) = Some (scr_id sa)"
    using neighbor_find [OF assms(1) _ s(2), of b sb "opposite e"]
      screen_by_id_member [OF assms(1) s(3)] s(4-6)
    by (simp add: edge_step_opposite)
  then show ?thesis
    using screen_by_id_Some [OF s(1)] by simp
qed

lemma neighbor_symmetric_witness:
  "layout_ok desk_pair \<and> neighbor_for_edge desk_pair SELF_SCREEN_ID Right = Some FIRST_PEER_SCREEN_ID
   \<and> neighbor_for_edge desk_pair FIRST_PEER_SCREEN_ID Left = Some SELF_SCREEN_ID"
proof -
  have "layout_ok desk_pair"
    "neighbor_for_edge desk_pair SELF_SCREEN_ID Right = Some FIRST_PEER_SCREEN_ID"
    by code_simp+
  then show ?thesis
    using neighbor_symmetric [of desk_pair SELF_SCREEN_ID Right FIRST_PEER_SCREEN_ID] by simp
qed


lemma place_peer_ok_witness:
  "layout_ok desk_pair \<and> length (linked desk_pair ''ab'') \<le> 1
   \<and> (\<exists>l'. place_peer desk_pair ''ab'' Left = Inr l' \<and> layout_ok l' \<and> validate l' = Inr ())"
proof -
  have ok: "layout_ok desk_pair" "length (linked desk_pair ''ab'') \<le> 1"
    by (code_simp, code_simp)
  obtain l' where l': "place_peer desk_pair ''ab'' Left = Inr l'"
    by (cases "place_peer desk_pair ''ab'' Left")
      (auto simp: desk_pair_def pair_default_def place_peer_def self_screen_def screen_by_id_def
        SELF_SCREEN_ID_def FIRST_PEER_SCREEN_ID_def to_ascii_lowercase_def ascii_lower_def)
  from place_peer_ok [OF ok l'] ok l' show ?thesis by blast
qed


text \<open>
  After a placement the peer is where the user put it. For a linked screen that is not
  this computer's own, away from the ends of the \<open>i32\<close> grid, the arranged neighbour on
  that side is the peer's screen, and the arrangement reports that side for the peer.
\<close>

theorem place_peer_side:
  assumes ok: "layout_ok l" and one: "length (linked l fp) \<le> 1"
    and me: "self_screen l = Some me" and other: "scr_peer me \<noteq> Some fp"
    and room: "\<bar>sint (scr_x me)\<bar> < 2147483647" "\<bar>sint (scr_y me)\<bar> < 2147483647"
    and placed: "place_peer l fp side = Inr l'"
  shows "side_of_peer l' fp = Some side
    \<and> (\<exists>peer \<in> set (linked l' fp). neighbor_for_edge l' (scr_id me) side = Some (scr_id peer))"
proof -
  let ?p = "\<lambda>s. scr_peer s = Some fp"
  let ?f = "\<lambda>s :: screen. s\<lparr>scr_x := fst (beside me side), scr_y := snd (beside me side)\<rparr>"
  have l': "l' = l\<lparr>ly_screens := update_first ?p ?f (ly_screens l)\<rparr>"
    and ex: "\<exists>peer. find ?p (ly_screens l) = Some peer"
    using placed me unfolding place_peer_Inr_iff by auto
  have ok': "layout_ok l'"
    using place_peer_valid [OF ok one placed] by (simp add: validate_iff)
  obtain i where self: "ly_self l = Some i" "screen_by_id l i = Some me"
    using me by (auto simp: self_screen_def split: Option.bind_splits)
  from ex obtain peer where peer: "find ?p (ly_screens l) = Some peer" by blast
  then have fp: "find ?p (ly_screens l') = Some (?f peer)"
    by (simp add: l' find_update_first_same)
  then have peer_in: "?f peer \<in> set (ly_screens l')" "scr_peer peer = Some fp"
    using find_Some_set [OF fp] by auto
  have idme: "scr_id me = i" "me \<in> set (ly_screens l)"
    using screen_by_id_Some [OF self(2)] by auto
  have me_in: "me \<in> set (ly_screens l')"
    using idme(2) other update_first_unique [of ?p "ly_screens l" ?f] one
    by (auto simp: l' linked_def intro!: rev_image_eqI)
  have self': "self_screen l' = Some me"
    using screen_by_id_member [OF ok' me_in] self(1) idme(1) by (simp add: self_screen_def l')
  have "neighbor_for_edge l' (scr_id me) side = Some (scr_id (?f peer))"
    by (rule neighbor_find [OF ok' screen_by_id_member [OF ok' me_in] peer_in(1)])
      (cases side; simp)+
  moreover have "?f peer \<in> set (linked l' fp)"
    using peer_in by (simp add: linked_def)
  moreover have "side_of_peer l' fp = Some side"
    using room unfolding side_of_peer_def self' option.case fp
    by (cases side)
      (simp_all add: word_sless_alt sint_word_ariths signed_take_bit_int_eq_self)
  ultimately show ?thesis by fastforce
qed

lemma place_peer_side_witness:
  "\<exists>l'. place_peer desk_pair ''ab'' Top = Inr l' \<and> side_of_peer l' ''ab'' = Some Top"
proof -
  have ok: "layout_ok desk_pair" "length (linked desk_pair ''ab'') \<le> 1"
    by (code_simp, code_simp)
  define me where "me = hd (ly_screens desk_pair)"
  have me: "self_screen desk_pair = Some me" "scr_peer me \<noteq> Some ''ab''"
      "\<bar>sint (scr_x me)\<bar> < 2147483647" "\<bar>sint (scr_y me)\<bar> < 2147483647"
    by (simp_all add: me_def desk_pair_def pair_default_def self_screen_def screen_by_id_def)
  obtain l' where l': "place_peer desk_pair ''ab'' Top = Inr l'"
    by (cases "place_peer desk_pair ''ab'' Top")
      (auto simp: desk_pair_def pair_default_def place_peer_def self_screen_def screen_by_id_def
        SELF_SCREEN_ID_def FIRST_PEER_SCREEN_ID_def to_ascii_lowercase_def ascii_lower_def)
  from place_peer_side [OF ok me l'] l' show ?thesis by blast
qed

definition twin_peers :: layout where
  "twin_peers = desk_pair\<lparr>ly_screens := ly_screens desk_pair @
     [\<lparr>scr_id = ScreenId 3, scr_name = ''twin'', scr_x = -1, scr_y = 0,
       scr_width = 1920, scr_height = 1080, scr_peer = Some ''ab''\<rparr>]\<rparr>"

text \<open>
  The uniqueness of the fingerprint is needed. With two screens linked to one
  fingerprint, one of them already at the requested side, the code accepts the placement
  and the result holds two screens at one position, which no longer validates.
\<close>

theorem place_peer_overlap:
  "validate twin_peers = Inr ()
   \<and> (\<exists>l'. place_peer twin_peers ''ab'' Left = Inr l'
          \<and> validate l' = Inl (DuplicatePosition (-1) 0))"
proof -
  define l' where "l' = (case place_peer twin_peers ''ab'' Left of Inr l \<Rightarrow> l | Inl _ \<Rightarrow> desk_pair)"
  have "place_peer twin_peers ''ab'' Left = Inr l'"
    unfolding l'_def by code_simp
  moreover have "validate l' = Inl (DuplicatePosition (-1) 0)"
    unfolding l'_def by code_simp
  moreover have "validate twin_peers = Inr ()"
    by code_simp
  ultimately show ?thesis by blast
qed

section \<open>Numbering a new screen\<close>

lemma fold_max_ge: "x \<in> set xs \<or> x \<le> a \<Longrightarrow> x \<le> fold max xs (a :: 'a :: linorder)"
  by (induction xs arbitrary: a) (auto simp: le_max_iff_disj)

text \<open>
  A new screen never takes a number in use, unless the largest number in use is already
  the largest \<open>u32\<close>; its number is never 0.
\<close>

theorem next_screen_id_fresh:
  assumes "\<forall>s \<in> set (ly_screens l). scr_id s \<noteq> ScreenId 0xFFFFFFFF"
  shows "next_screen_id l \<notin> set (screen_ids l) \<and> screen_number (next_screen_id l) \<noteq> 0"
proof -
  define ns where "ns = map (\<lambda>s. screen_number (scr_id s)) (ly_screens l)"
  define m where "m = fold max ns 0"
  have "m \<in> insert 0 (set ns)"
    unfolding m_def
  proof (induction ns rule: rev_induct)
    case (snoc n ns)
    then show ?case by (auto simp: max_def)
  qed simp
  moreover have "(0xFFFFFFFF :: u32) \<notin> set ns"
    using assms by (auto simp: ns_def)
  ultimately have m: "m \<noteq> 0xFFFFFFFF" by auto
  then have "uint m < 4294967295"
    using uint_u32_le [of m] by (auto simp: word_uint_eq_iff)
  then have up: "uint (m + 1) = uint m + 1"
    by (simp add: uint_word_ariths)
  then have succ: "m < m + 1"
    by (simp add: word_less_def)
  have le: "n \<le> m" if "n \<in> set ns" for n
    unfolding m_def using that by (intro fold_max_ge) simp
  have "(1 :: u32) \<le> m + 1"
    by (simp add: word_le_def up)
  then have num: "screen_number (next_screen_id l) = m + 1"
    using m by (simp add: next_screen_id_def sat_succ_def m_def [symmetric] ns_def [symmetric])
  have "m + 1 \<notin> set ns"
    using le succ by (auto dest: le)
  then have "next_screen_id l \<notin> set (screen_ids l)"
    using num by (auto simp: screen_ids_def ns_def image_iff)
  moreover have "m + 1 \<noteq> 0"
  proof
    assume "m + 1 = 0"
    with up have "uint m + 1 = 0" by simp
    with uint_ge_0 [of m] show False by linarith
  qed
  ultimately show ?thesis using num by simp
qed

lemma next_screen_id_fresh_witness:
  "next_screen_id desk_pair \<notin> set (screen_ids desk_pair)
   \<and> screen_number (next_screen_id desk_pair) \<noteq> 0"
proof -
  have h: "\<forall>s \<in> set (ly_screens desk_pair). scr_id s \<noteq> ScreenId 0xFFFFFFFF"
    by code_simp
  show ?thesis by (rule next_screen_id_fresh [OF h])
qed

section \<open>The arrangement of a fresh pairing\<close>

lemma display_name_nonempty: "trim fallback \<noteq> [] \<Longrightarrow> trim (display_name name fallback) \<noteq> []"
  by (simp add: display_name_def Let_def)

text \<open>
  The default arrangement of a fresh pairing is valid for all names and fingerprints;
  this computer is screen 1, the peer is its right neighbour and the only linked screen.
\<close>

theorem pair_default_ok:
  "validate (pair_default me peer fp) = Inr ()
   \<and> side_of_peer (pair_default me peer fp) (to_ascii_lowercase fp) = Some Right
   \<and> peer_exit_edge (pair_default me peer fp) = Some Right
   \<and> single_peer_screen (pair_default me peer fp) = Some FIRST_PEER_SCREEN_ID"
proof -
  have "trim ''This computer'' \<noteq> []" "trim ''Other computer'' \<noteq> []"
    by code_simp+
  then have "validate (pair_default me peer fp) = Inr ()"
    by (auto simp: validate_def pair_default_def display_name_nonempty default_screen_width_def
        default_screen_height_def SELF_SCREEN_ID_def FIRST_PEER_SCREEN_ID_def)
  then show ?thesis
    by (simp add: side_of_peer_def self_screen_def screen_by_id_def pair_default_def
        SELF_SCREEN_ID_def FIRST_PEER_SCREEN_ID_def peer_exit_edge_def neighbor_for_edge_def
        single_peer_screen_def word_sless_alt)
qed

end
