(* ===== verification/Geometry.thy ===== *)
theory Geometry
  imports LayoutEdits
begin

text \<open>
  The arithmetic of a crossing: \<open>map_coordinate\<close> over the integers, its bounds, its
  monotonicity and the error of mapping there and back; where an entry lands; the
  stateless \<open>handoff_for_motion\<close>.
\<close>

section \<open>Proportional mapping\<close>

lemma uint_ucast_u64 [simp]: "uint (ucast (w :: u32) :: u64) = uint w"
  by (simp add: unsigned_ucast_eq take_bit_int_eq_self uint_u32_bounds order_less_trans
      [OF uint_u32_bounds(2)])

lemma uint_gt_1: "(1 :: u32) < w \<longleftrightarrow> 1 < uint w"
  by (simp add: word_less_def)

lemma uint_mult_u64: "uint ((a :: u64) * b) = uint a * uint b mod 18446744073709551616"
  by (simp add: uint_word_ariths)

lemma uint_map_coordinate:
  assumes s: "1 < s" and t: "1 < t"
  shows "uint (map_coordinate v s t)
    = min (uint v) (uint s - 1) * (uint t - 1) div (uint s - 1)"
    and "min (uint v) (uint s - 1) * (uint t - 1) div (uint s - 1) \<le> uint t - 1"
proof -
  let ?m = "min (uint v) (uint s - 1)"
  have nz: "s \<noteq> 0" "t \<noteq> 0" and gt: "1 < uint s" "1 < uint t"
    using s t by (auto simp: uint_gt_1)
  have us: "uint (s - 1) = uint s - 1" "uint (t - 1) = uint t - 1"
    using nz by (simp_all add: uint_minus_1)
  have m: "uint (min v (s - 1)) = ?m"
    by (simp add: uint_min us)
  have lt: "uint t \<le> 4294967295" "uint s \<le> 4294967295"
    by (rule uint_u32_le)+
  have "?m * (uint t - 1) \<le> 4294967295 * 4294967295"
    using lt gt uint_ge_0 [of v] by (intro mult_mono) (auto simp: min_le_iff_disj)
  then have prod: "uint ((ucast (min v (s - 1)) :: u64) * ucast (t - 1)) = ?m * (uint t - 1)"
    unfolding uint_mult_u64 uint_ucast_u64 m us
    using gt by (intro mod_pos_pos_trivial mult_nonneg_nonneg) auto
  have bound: "?m * (uint t - 1) div (uint s - 1) \<le> uint t - 1"
  proof -
    have "?m * (uint t - 1) div (uint s - 1) \<le> (uint s - 1) * (uint t - 1) div (uint s - 1)"
      using gt by (intro zdiv_mono1 mult_right_mono) auto
    also have "\<dots> = uint t - 1"
      using gt by simp
    finally show ?thesis .
  qed
  have "uint (map_coordinate v s t)
      = take_bit 32 (?m * (uint t - 1) div (uint s - 1))"
    using s t by (simp add: map_coordinate_def not_le uint_div prod us unsigned_ucast_eq)
  also have "\<dots> = ?m * (uint t - 1) div (uint s - 1)"
    using bound lt gt uint_ge_0 [of v]
    by (intro take_bit_int_eq_self pos_imp_zdiv_nonneg_iff [THEN iffD2] mult_nonneg_nonneg) auto
  finally show "uint (map_coordinate v s t) = ?m * (uint t - 1) div (uint s - 1)" .
  show "?m * (uint t - 1) div (uint s - 1) \<le> uint t - 1"
    by (rule bound)
qed

lemma map_coordinate_small: "s \<le> 1 \<or> t \<le> 1 \<Longrightarrow> map_coordinate v s t = 0"
  by (simp add: map_coordinate_def)

lemma map_coordinate_less:
  assumes "t \<noteq> 0"
  shows "uint (map_coordinate v s t) < uint t"
proof (cases "1 < s \<and> 1 < t")
  case True
  then show ?thesis
    using uint_map_coordinate [of s t v] by simp
next
  case False
  with assms show ?thesis
    by (simp add: map_coordinate_small not_less uint_pos_iff)
qed

lemma map_coordinate_mono:
  assumes "uint v \<le> uint w"
  shows "uint (map_coordinate v s t) \<le> uint (map_coordinate w s t)"
proof (cases "1 < s \<and> 1 < t")
  case True
  then have gt: "1 < uint s" "1 < uint t" by (auto simp: uint_gt_1)
  then have "min (uint v) (uint s - 1) * (uint t - 1) div (uint s - 1)
      \<le> min (uint w) (uint s - 1) * (uint t - 1) div (uint s - 1)"
    using assms by (intro zdiv_mono1 mult_right_mono) auto
  with True show ?thesis by (simp add: uint_map_coordinate)
next
  case False
  then show ?thesis by (simp add: map_coordinate_small not_less)
qed

lemma map_coordinate_ends:
  assumes "1 < s" "1 < t"
  shows "map_coordinate 0 s t = 0" and "map_coordinate (s - 1) s t = t - 1"
proof -
  have gt: "1 < uint s" "1 < uint t" "s \<noteq> 0" "t \<noteq> 0"
    using assms by (auto simp: uint_gt_1)
  show "map_coordinate 0 s t = 0"
    using uint_map_coordinate(1) [OF assms, of 0] gt by (simp add: word_uint_eq_iff)
  show "map_coordinate (s - 1) s t = t - 1"
    using uint_map_coordinate(1) [OF assms, of "s - 1"] gt
    by (simp add: word_uint_eq_iff uint_minus_1)
qed

lemma floor_there_and_back:
  fixes v S T :: int
  assumes "0 < S" "S \<le> T" "0 \<le> v"
  shows "v - 1 \<le> (v * T div S) * S div T" and "(v * T div S) * S div T \<le> v"
proof -
  let ?m = "v * T div S"
  have "?m * S \<le> v * T"
    using assms(1) by (metis div_mult_mod_eq pos_mod_sign add.commute le_add_same_cancel2 zle_iff_zadd)
  then have "?m * S div T \<le> v * T div T"
    using assms by (intro zdiv_mono1) auto
  then show "?m * S div T \<le> v"
    using assms by simp
  have "v * T < ?m * S + S"
    using assms(1) by (metis div_mult_mod_eq pos_mod_bound add_less_cancel_left)
  then have "v * T - T \<le> ?m * S"
    using assms(2) by linarith
  then have "(v - 1) * T \<le> ?m * S"
    by (simp add: algebra_simps)
  then have "(v - 1) * T div T \<le> ?m * S div T"
    using assms by (intro zdiv_mono1) auto
  then show "v - 1 \<le> ?m * S div T"
    using assms by simp
qed

lemma map_coordinate_back:
  assumes "1 < s" and "1 < t" and "v < s" and "s \<le> t"
  shows "uint v - 1 \<le> uint (map_coordinate (map_coordinate v s t) t s)"
    and "uint (map_coordinate (map_coordinate v s t) t s) \<le> uint v"
proof -
  have gt: "1 < uint s" "1 < uint t" "s \<noteq> 0" "t \<noteq> 0" and v: "uint v \<le> uint s - 1"
    using assms by (auto simp: uint_gt_1 word_less_def)
  have st: "uint s - 1 \<le> uint t - 1"
    using assms(4) by (simp add: word_le_def)
  have m: "uint (map_coordinate v s t) = uint v * (uint t - 1) div (uint s - 1)"
    using uint_map_coordinate(1) [OF assms(1,2), of v] v by simp
  have "uint (map_coordinate v s t) \<le> uint t - 1"
    using map_coordinate_less [OF gt(4), of v s] by simp
  then have return: "uint (map_coordinate (map_coordinate v s t) t s)
      = (uint v * (uint t - 1) div (uint s - 1)) * (uint s - 1) div (uint t - 1)"
    using uint_map_coordinate(1) [OF assms(2,1), of "map_coordinate v s t"] by (simp add: m)
  show "uint v - 1 \<le> uint (map_coordinate (map_coordinate v s t) t s)"
    "uint (map_coordinate (map_coordinate v s t) t s) \<le> uint v"
    unfolding return using floor_there_and_back [OF _ st, of "uint v"] gt by auto
qed

text \<open>
  Proportional mapping is faithful to the screens. For spans of at least two pixels it
  stays inside the target span, keeps order, maps the two ends to the two ends, is the
  identity between equal spans, and mapping to a screen at least as long and back loses at
  most one pixel.
\<close>

theorem map_coordinate_faithful:
  assumes "1 < s" and "1 < t" and "v < s" and "v \<le> w"
  shows "map_coordinate v s t < t
    \<and> map_coordinate v s t \<le> map_coordinate w s t
    \<and> map_coordinate 0 s t = 0 \<and> map_coordinate (s - 1) s t = t - 1
    \<and> map_coordinate v s s = v
    \<and> (s \<le> t \<longrightarrow> uint v - 1 \<le> uint (map_coordinate (map_coordinate v s t) t s)
           \<and> uint (map_coordinate (map_coordinate v s t) t s) \<le> uint v)"
proof (intro conjI impI)
  have gt: "1 < uint s" "1 < uint t" "s \<noteq> 0" "t \<noteq> 0" and v: "uint v \<le> uint s - 1"
    using assms by (auto simp: uint_gt_1 word_less_def)
  show "map_coordinate v s t < t"
    using map_coordinate_less [OF gt(4)] by (simp add: word_less_def)
  show "map_coordinate v s t \<le> map_coordinate w s t"
    using map_coordinate_mono [of v w s t] assms(4) by (simp add: word_le_def)
  show "map_coordinate 0 s t = 0" "map_coordinate (s - 1) s t = t - 1"
    by (rule map_coordinate_ends [OF assms(1,2)])+
  show "map_coordinate v s s = v"
    using uint_map_coordinate(1) [OF assms(1,1), of v] gt v by (simp add: word_uint_eq_iff)
  assume "s \<le> t"
  then show "uint v - 1 \<le> uint (map_coordinate (map_coordinate v s t) t s)"
    "uint (map_coordinate (map_coordinate v s t) t s) \<le> uint v"
    using map_coordinate_back [OF assms(1-3)] by simp_all
qed

lemma map_coordinate_faithful_witness:
  "map_coordinate 500 1080 1440 < 1440
   \<and> 499 \<le> uint (map_coordinate (map_coordinate 500 1080 1440) 1440 1080)"
  using map_coordinate_faithful [of 1080 1440 500 500] by simp

section \<open>Where an entry lands\<close>

lemma along_less:
  assumes "x < scr_width s" "y < scr_height s"
  shows "along e x y < along_span e s"
  using assms by (simp add: along_def along_span_def)

lemma mapped_less_span:
  assumes "scr_width t \<noteq> 0" "scr_height t \<noteq> 0"
  shows "map_coordinate v s (along_span e t) < along_span e t"
  using assms map_coordinate_less [of "along_span e t"]
  by (auto simp: word_less_def along_span_def)

text \<open>The entry lands inside the target whenever the mapped axis is the entry's own.\<close>

lemma entry_coords_inside:
  assumes "scr_width t \<noteq> 0" "scr_height t \<noteq> 0" and "mapped < along_span e t"
  shows "fst (entry_target_coords e t mapped) < scr_width t
    \<and> snd (entry_target_coords e t mapped) < scr_height t"
proof -
  have sub: "sat_sub w 1 < w" "sat_sub (sat_sub w 1) v < w" "min v (sat_sub w 1) < w"
    if "w \<noteq> 0" for w v :: u32
  proof -
    show "sat_sub w 1 < w"
      using sat_sub_1_less [OF that] by (simp add: word_less_def)
    then show "sat_sub (sat_sub w 1) v < w" "min v (sat_sub w 1) < w"
      using sat_sub_le [of "sat_sub w 1" v] by (auto simp: min_less_iff_disj)
  qed
  with assms show ?thesis
    by (cases e) (auto simp: along_span_def horizontal_def)
qed

text \<open>A landing keeps the entry inset from the edge it enters through, or the whole span of a
  smaller screen.\<close>

lemma entry_coords_inset:
  assumes "scr_width t \<noteq> 0" "scr_height t \<noteq> 0"
    and "(x, y) = entry_target_coords (opposite entry) t mapped"
  shows "distance_from_edge entry x y (scr_width t) (scr_height t)
    = min ENTRY_INSET_PX (sat_sub (if horizontal entry then scr_width t else scr_height t) 1)"
proof -
  have sub: "sat_sub a (sat_sub a b) = min b a" for a b :: u32
    by (simp add: word_uint_eq_iff uint_sat_sub uint_min)
  from assms show ?thesis
    by (cases entry) (simp_all add: horizontal_def sub)
qed


section \<open>Overflow of a step\<close>

lemma edge_for_overflow_None:
  "edge_for_overflow nx ny w h = None \<longleftrightarrow> 0 \<le> nx \<and> nx < uint w \<and> 0 \<le> ny \<and> ny < uint h"
  by (auto simp: edge_for_overflow_def)

text \<open>The overflow depth past an edge, in the terms of \<open>edge_overflow\<close>.\<close>

fun overflow_px :: "edge \<Rightarrow> int \<Rightarrow> int \<Rightarrow> u32 \<Rightarrow> u32 \<Rightarrow> int" where
  "overflow_px Left nx ny w h = - nx"
| "overflow_px Right nx ny w h = nx - uint (sat_sub w 1)"
| "overflow_px Top nx ny w h = - ny"
| "overflow_px Bottom nx ny w h = ny - uint (sat_sub h 1)"

lemma edge_overflow_eq:
  "edge_overflow w h x y dx dy =
     map_option (\<lambda>e. (e, overflow_px e (uint x + sint dx) (uint y + sint dy) w h))
       (edge_for_overflow (uint x + sint dx) (uint y + sint dy) w h)"
  by (simp add: edge_overflow_def edge_for_overflow_def Let_def)

lemma overflow_px_pos:
  assumes "edge_for_overflow nx ny w h = Some e" and "w \<noteq> 0" "h \<noteq> 0"
  shows "0 < overflow_px e nx ny w h"
  using assms(1) uint_sat_sub_1 [OF assms(2)] uint_sat_sub_1 [OF assms(3)]
  by (auto simp: edge_for_overflow_def split: if_splits)

section \<open>The stateless crossing\<close>

lemma handoff_for_motion_Some:
  assumes "handoff_for_motion l sid x0 y0 dx dy mode style = Some eh"
  obtains scr t where "screen_by_id l sid = Some scr" "eh_from eh = sid"
    and "edge_for_overflow (uint (min x0 (scr_width scr - 1)) + sint dx)
           (uint (min y0 (scr_height scr - 1)) + sint dy) (scr_width scr) (scr_height scr)
         = Some (eh_edge eh)"
    and "crossing_target_for l sid (eh_edge eh) mode = Some (eh_target eh)"
    and "screen_by_id l (eh_target eh) = Some t"
    and "(eh_target_x eh, eh_target_y eh) =
           entry_target_coords (opposite (entry_for_exit style (eh_edge eh))) t
             (map_coordinate (along (eh_edge eh) (min x0 (scr_width scr - 1)) (min y0 (scr_height scr - 1)))
               (along_span (eh_edge eh) scr) (along_span (eh_edge eh) t))"
  using assms
  by (auto simp: handoff_for_motion_def Let_def split: Option.bind_splits prod.splits)

text \<open>An entry axis is the mapped axis: always in Mirror style, and on horizontal edges.\<close>

definition aligned :: "double_edge_style \<Rightarrow> edge \<Rightarrow> bool" where
  "aligned style e \<longleftrightarrow> style = Mirror \<or> horizontal e"

lemma along_span_entry:
  "aligned style e \<Longrightarrow> along_span (opposite (entry_for_exit style e)) t = along_span e t"
  by (cases style; cases e) (auto simp: aligned_def along_span_def horizontal_def)

lemma entry_landing_inside:
  assumes "aligned style e" and "scr_width t \<noteq> 0" "scr_height t \<noteq> 0"
    and "(x, y) = entry_target_coords (opposite (entry_for_exit style e)) t
           (map_coordinate v s (along_span e t))"
  shows "x < scr_width t \<and> y < scr_height t"
proof -
  let ?e = "opposite (entry_for_exit style e)"
  have "map_coordinate v s (along_span e t) < along_span ?e t"
    using mapped_less_span [OF assms(2,3), of v s ?e] along_span_entry [OF assms(1), of t] by simp
  from entry_coords_inside [OF assms(2,3) this] assms(4) [symmetric] show ?thesis
    by simp
qed

text \<open>
  The stateless crossing is safe. On a valid arrangement a crossing names another
  screen of the arrangement, through the edge the step overflows; in Mirror style, or
  through a horizontal edge, the entry position lies inside that screen, inset from the
  entry edge by 32 pixels (or the whole span of a smaller screen).
\<close>

theorem handoff_for_motion_safe:
  assumes ok: "layout_ok l" and eh: "handoff_for_motion l sid x0 y0 dx dy mode style = Some eh"
    and al: "aligned style (eh_edge eh)"
  shows "eh_from eh = sid \<and> eh_target eh \<noteq> sid
    \<and> (\<exists>t. screen_by_id l (eh_target eh) = Some t
        \<and> eh_target_x eh < scr_width t \<and> eh_target_y eh < scr_height t
        \<and> distance_from_edge (entry_for_exit style (eh_edge eh)) (eh_target_x eh) (eh_target_y eh)
            (scr_width t) (scr_height t)
          = min ENTRY_INSET_PX (sat_sub (if horizontal (entry_for_exit style (eh_edge eh))
              then scr_width t else scr_height t) 1))"
proof -
  obtain scr t where h: "eh_from eh = sid"
      "crossing_target_for l sid (eh_edge eh) mode = Some (eh_target eh)"
      "screen_by_id l (eh_target eh) = Some t"
      "(eh_target_x eh, eh_target_y eh) =
         entry_target_coords (opposite (entry_for_exit style (eh_edge eh))) t
           (map_coordinate (along (eh_edge eh) (min x0 (scr_width scr - 1)) (min y0 (scr_height scr - 1)))
             (along_span (eh_edge eh) scr) (along_span (eh_edge eh) t))"
    using eh by (rule handoff_for_motion_Some) blast
  have dims: "scr_width t \<noteq> 0" "scr_height t \<noteq> 0"
    using screen_by_id_dims [OF ok h(3)] by auto
  show ?thesis
    using crossing_target_not_self [OF ok h(2)] entry_landing_inside [OF al dims h(4)]
      entry_coords_inset [OF dims h(4)] h(1,3)
    by blast
qed

lemma handoff_for_motion_safe_witness:
  "\<exists>eh. handoff_for_motion desk_pair SELF_SCREEN_ID 1919 500 40 0 Double Mirror = Some eh
     \<and> eh_target eh = FIRST_PEER_SCREEN_ID \<and> eh_target eh \<noteq> SELF_SCREEN_ID
     \<and> eh_target_x eh = 32 \<and> eh_target_y eh = 500"
proof -
  define eh where "eh = \<lparr>eh_from = SELF_SCREEN_ID, eh_target = FIRST_PEER_SCREEN_ID,
    eh_edge = Right, eh_target_x = 32, eh_target_y = 500\<rparr>"
  have eh: "handoff_for_motion desk_pair SELF_SCREEN_ID 1919 500 40 0 Double Mirror = Some eh"
    unfolding eh_def by code_simp
  have "layout_ok desk_pair" by code_simp
  moreover have "aligned Mirror (eh_edge eh)" by (simp add: aligned_def)
  ultimately have "eh_target eh \<noteq> SELF_SCREEN_ID"
    using handoff_for_motion_safe [OF _ eh] by blast
  then show ?thesis using eh by (auto simp: eh_def)
qed

definition desk_stack :: layout where
  "desk_stack =
     (case place_peer desk_pair ''ab'' Top of Inr l \<Rightarrow> l | Inl _ \<Rightarrow> desk_pair)"

text \<open>
  The alignment condition is needed. With a Fixed entry style and the peer arranged
  above, a valid arrangement of two 1920x1080 screens sends the cursor to row 1900 of a
  screen 1080 pixels high: the horizontal coordinate is mapped but lands in the vertical
  place.
\<close>

theorem fixed_entry_outside:
  "validate desk_stack = Inr ()
   \<and> handoff_for_motion desk_stack SELF_SCREEN_ID 1900 0 0 (-10) Double FixedLeft
     = Some \<lparr>eh_from = SELF_SCREEN_ID, eh_target = FIRST_PEER_SCREEN_ID, eh_edge = Top,
         eh_target_x = 32, eh_target_y = 1900\<rparr>
   \<and> map_option scr_height (screen_by_id desk_stack FIRST_PEER_SCREEN_ID) = Some 1080"
  by code_simp

end
