(* ===== verification/Router.thy ===== *)
theory Router
  imports Geometry
begin

text \<open>
  The stateful edge router: \<open>EdgeRouter\<close> of \<^verbatim>\<open>kvm-core/src/layout.rs\<close>, one field of the
  record per field of the struct and one definition per method. Methods that read the
  clock take its reading \<open>now\<close>. \<open>route\<close> returns \<open>None\<close> where the code would panic
  (an \<open>expect\<close> on a missing screen, \<open>i64::clamp\<close> with crossed bounds); \<open>RouterSafety\<close>
  proves that it never does.
\<close>

section \<open>State\<close>

datatype clamp_reason = Locked | NoTarget | StartupGate | PostReturn | PushBudget

record clamp_stamp =
  cs_reason :: clamp_reason
  cs_edge :: edge
  cs_overflow_px :: int
  cs_cursor_x :: u32
  cs_cursor_y :: u32

record resync_reset =
  rr_jump_px :: u32
  rr_cursor_x :: u32
  rr_cursor_y :: u32

datatype routed_event =
    Local input_event
  | Forward screen_id input_event
  | Handoff screen_id screen_id edge u32 u32 input_event
  | ReturnHome screen_id edge "edge option" bool

record edge_router =
  r_layout :: layout
  r_local_screen :: screen_id
  r_current_screen :: screen_id
  r_cursor_x :: u32
  r_cursor_y :: u32
  r_local_cursor_x :: u32
  r_local_cursor_y :: u32
  r_active_remote :: "screen_id option"
  r_entry_edge :: "edge option"
  r_return_armed :: bool
  r_return_accum :: int
  r_return_edge :: "edge option"
  r_return_edge_accum :: int
  r_edge_mode :: edge_mode
  r_double_style :: double_edge_style
  r_push_edge :: "edge option"
  r_push_accum :: int
  r_return_hold :: duration
  r_return_run_since :: "instant option"
  r_handoff_grace :: duration
  r_handoff_at :: "instant option"
  r_locked :: bool
  r_startup_gate :: bool
  r_post_return_edge :: "edge option"
  r_post_return_at :: "instant option"
  r_last_clamp :: "clamp_stamp option"
  r_last_resync_reset :: "resync_reset option"

datatype router_error =
    BadLayout layout_error
  | RouterNoLocalScreen
  | LocalScreenMissing
  | DriveActive
  | SeedWhileRemote
  | NotActiveRemote screen_id "screen_id option"
  | TargetNotInLayout screen_id

section \<open>Thresholds\<close>

definition SETTLE_PX :: u32 where "SETTLE_PX = 40"
definition POST_RETURN_CLEAR_PX :: u32 where "POST_RETURN_CLEAR_PX = 64"
definition RETURN_INSET_PX :: u32 where "RETURN_INSET_PX = 8"
definition POST_RETURN_HOLD_MS :: nat where "POST_RETURN_HOLD_MS = 250"
definition EDGE_PUSH_PX :: int where "EDGE_PUSH_PX = 8"
definition PHANTOM_START_GUARD_PX :: u32 where "PHANTOM_START_GUARD_PX = 64"
definition RETURN_PUSH_PX :: int where "RETURN_PUSH_PX = 64"
definition RETURN_EDGE_PX :: int where "RETURN_EDGE_PX = 20"
definition RESYNC_DIVERGE_PX :: u32 where "RESYNC_DIVERGE_PX = 2"

lemmas thresholds = SETTLE_PX_def POST_RETURN_CLEAR_PX_def RETURN_INSET_PX_def
  POST_RETURN_HOLD_MS_def EDGE_PUSH_PX_def PHANTOM_START_GUARD_PX_def RETURN_PUSH_PX_def
  RETURN_EDGE_PX_def RESYNC_DIVERGE_PX_def

section \<open>Construction and settings\<close>

definition router_new :: "layout \<Rightarrow> router_error + edge_router" where
  "router_new l =
     (case validate l of
        Inl e \<Rightarrow> Inl (BadLayout e)
      | Inr _ \<Rightarrow>
          (case (case ly_self l of
                   Some i \<Rightarrow> Some i
                 | None \<Rightarrow> (case ly_screens l of [] \<Rightarrow> None | s # _ \<Rightarrow> Some (scr_id s))) of
             None \<Rightarrow> Inl RouterNoLocalScreen
           | Some current \<Rightarrow>
               (case screen_by_id l current of
                  None \<Rightarrow> Inl LocalScreenMissing
                | Some scr \<Rightarrow>
                    Inr \<lparr>r_layout = l, r_local_screen = current, r_current_screen = current,
                      r_cursor_x = scr_width scr div 2, r_cursor_y = scr_height scr div 2,
                      r_local_cursor_x = scr_width scr div 2,
                      r_local_cursor_y = scr_height scr div 2,
                      r_active_remote = None, r_entry_edge = None, r_return_armed = False,
                      r_return_accum = 0, r_return_edge = None, r_return_edge_accum = 0,
                      r_edge_mode = Double, r_double_style = Mirror,
                      r_push_edge = None, r_push_accum = 0,
                      r_return_hold = 0, r_return_run_since = None,
                      r_handoff_grace = 0, r_handoff_at = None,
                      r_locked = False, r_startup_gate = False,
                      r_post_return_edge = None, r_post_return_at = None,
                      r_last_clamp = None, r_last_resync_reset = None\<rparr>)))"

definition set_return_hold :: "duration \<Rightarrow> edge_router \<Rightarrow> edge_router" where
  "set_return_hold hold r = r\<lparr>r_return_hold := hold\<rparr>"

definition set_handoff_grace :: "duration \<Rightarrow> edge_router \<Rightarrow> edge_router" where
  "set_handoff_grace grace r = r\<lparr>r_handoff_grace := grace\<rparr>"

definition in_handoff_grace :: "instant \<Rightarrow> edge_router \<Rightarrow> bool" where
  "in_handoff_grace now r \<longleftrightarrow>
     r_handoff_grace r \<noteq> 0
     \<and> (case r_handoff_at r of
          None \<Rightarrow> False
        | Some when \<Rightarrow> elapsed now when < r_handoff_grace r)"

definition set_locked :: "bool \<Rightarrow> edge_router \<Rightarrow> edge_router" where
  "set_locked locked r = r\<lparr>r_locked := locked\<rparr>"

definition set_edge_mode :: "edge_mode \<Rightarrow> edge_router \<Rightarrow> edge_router" where
  "set_edge_mode mode r = r\<lparr>r_edge_mode := mode\<rparr>"

definition set_double_style :: "double_edge_style \<Rightarrow> edge_router \<Rightarrow> edge_router" where
  "set_double_style style r = r\<lparr>r_double_style := style\<rparr>"

definition return_state :: "edge_router \<Rightarrow> edge option \<times> bool" where
  "return_state r = (r_entry_edge r, r_return_armed r)"

definition crossing_target :: "edge_router \<Rightarrow> screen_id \<Rightarrow> edge \<Rightarrow> screen_id option" where
  "crossing_target r me e = crossing_target_for (r_layout r) me e (r_edge_mode r)"

definition near_crossing_edge :: "edge_router \<Rightarrow> u32 \<Rightarrow> bool" where
  "near_crossing_edge r margin_px =
     (if r_active_remote r \<noteq> None \<or> r_current_screen r \<noteq> r_local_screen r \<or> r_locked r then False
      else case screen_by_id (r_layout r) (r_current_screen r) of
        None \<Rightarrow> False
      | Some scr \<Rightarrow>
          list_ex (\<lambda>(e, distance). distance \<le> uint margin_px
                     \<and> crossing_target r (r_current_screen r) e \<noteq> None)
            [(Left, uint (r_cursor_x r)),
             (Right, uint (sat_sub (scr_width scr) 1) - uint (r_cursor_x r)),
             (Top, uint (r_cursor_y r)),
             (Bottom, uint (sat_sub (scr_height scr) 1) - uint (r_cursor_y r))])"

definition set_layout :: "layout \<Rightarrow> edge_router \<Rightarrow> router_error + edge_router" where
  "set_layout l r =
     (case validate l of
        Inl e \<Rightarrow> Inl (BadLayout e)
      | Inr _ \<Rightarrow>
          if r_active_remote r \<noteq> None then Inl DriveActive
          else if screen_by_id l (r_local_screen r) = None then Inl LocalScreenMissing
          else
            (let carried = l\<lparr>ly_screens := map (\<lambda>s.
                   case screen_by_id (r_layout r) (scr_id s) of
                     None \<Rightarrow> s
                   | Some old \<Rightarrow> s\<lparr>scr_width := scr_width old, scr_height := scr_height old\<rparr>)
                   (ly_screens l)\<rparr>
             in case screen_by_id carried (r_local_screen r) of
                  None \<Rightarrow> Inl LocalScreenMissing
                | Some scr \<Rightarrow>
                    (let x = min (r_cursor_x r) (sat_sub (scr_width scr) 1);
                         y = min (r_cursor_y r) (sat_sub (scr_height scr) 1)
                     in Inr (r\<lparr>r_layout := carried, r_current_screen := r_local_screen r,
                          r_cursor_x := x, r_cursor_y := y,
                          r_local_cursor_x := x, r_local_cursor_y := y,
                          r_entry_edge := None, r_return_armed := False, r_return_accum := 0,
                          r_return_edge := None, r_return_edge_accum := 0,
                          r_push_edge := None, r_push_accum := 0,
                          r_post_return_edge := None, r_post_return_at := None\<rparr>))))"

fun fixed_return_edge_of :: "double_edge_style \<Rightarrow> edge option" where
  "fixed_return_edge_of Mirror = None"
| "fixed_return_edge_of FixedLeft = Some Left"
| "fixed_return_edge_of FixedRight = Some Right"

definition fixed_return_edge :: "edge_router \<Rightarrow> edge option" where
  "fixed_return_edge r = fixed_return_edge_of (r_double_style r)"

section \<open>Placing the local cursor\<close>

definition seed_position :: "u32 \<Rightarrow> u32 \<Rightarrow> bool \<Rightarrow> edge_router \<Rightarrow> router_error + edge_router" where
  "seed_position x y apply_gate r =
     (if r_active_remote r \<noteq> None then Inl SeedWhileRemote
      else case screen_by_id (r_layout r) (r_local_screen r) of
        None \<Rightarrow> Inl LocalScreenMissing
      | Some scr \<Rightarrow>
          (let cx = min x (scr_width scr - 1);
               cy = min y (scr_height scr - 1);
               gate = apply_gate \<and>
                 list_ex (\<lambda>e. crossing_target r (r_local_screen r) e \<noteq> None
                     \<and> distance_from_edge e cx cy (scr_width scr) (scr_height scr)
                         < word_of_int EDGE_PUSH_PX)
                   [Left, Right, Top, Bottom]
           in Inr (r\<lparr>r_cursor_x := cx, r_cursor_y := cy,
                r_local_cursor_x := cx, r_local_cursor_y := cy,
                r_push_edge := None, r_push_accum := 0,
                r_last_clamp := None, r_last_resync_reset := None,
                r_post_return_edge := None, r_post_return_at := None,
                r_startup_gate := gate\<rparr>)))"

definition set_local_cursor_position :: "u32 \<Rightarrow> u32 \<Rightarrow> edge_router \<Rightarrow> router_error + edge_router"
  where
  "set_local_cursor_position x y r = seed_position x y True r"

definition place_local_cursor :: "u32 \<Rightarrow> u32 \<Rightarrow> edge_router \<Rightarrow> router_error + edge_router" where
  "place_local_cursor x y r = seed_position x y False r"

text \<open>The correction of a push run by a truth re-pin, the last part of \<open>resync_if_local\<close>.\<close>

definition correct_push_run ::
  "u32 \<Rightarrow> u32 \<Rightarrow> u32 \<Rightarrow> u32 \<Rightarrow> screen \<Rightarrow> edge_router \<Rightarrow> edge_router" where
  "correct_push_run old_x old_y pinned_x pinned_y scr r =
     (case r_push_edge r of
        None \<Rightarrow> r
      | Some e \<Rightarrow>
          (let before = distance_from_edge e old_x old_y (scr_width scr) (scr_height scr);
               after = distance_from_edge e pinned_x pinned_y (scr_width scr) (scr_height scr);
               accum = i64_add (r_push_accum r) (- uint (sat_sub after before))
           in if accum \<le> 0 then r\<lparr>r_push_edge := None, r_push_accum := 0\<rparr>
              else r\<lparr>r_push_accum := accum\<rparr>))"

definition resync_if_local :: "u32 \<Rightarrow> u32 \<Rightarrow> edge_router \<Rightarrow> edge_router" where
  "resync_if_local x y r =
     (if r_active_remote r \<noteq> None \<or> r_current_screen r \<noteq> r_local_screen r then r
      else case screen_by_id (r_layout r) (r_local_screen r) of
        None \<Rightarrow> r
      | Some scr \<Rightarrow>
          (let pinned_x = min x (scr_width scr - 1);
               pinned_y = min y (scr_height scr - 1);
               moved = max (abs_diff pinned_x (r_cursor_x r)) (abs_diff pinned_y (r_cursor_y r));
               r1 = r\<lparr>r_cursor_x := pinned_x, r_cursor_y := pinned_y,
                      r_local_cursor_x := pinned_x, r_local_cursor_y := pinned_y\<rparr>
           in if RESYNC_DIVERGE_PX < moved
              then correct_push_run (r_cursor_x r) (r_cursor_y r) pinned_x pinned_y scr
                (if r_push_edge r \<noteq> None \<and> r_push_accum r \<noteq> 0
                 then r1\<lparr>r_last_resync_reset :=
                        Some \<lparr>rr_jump_px = moved, rr_cursor_x = pinned_x, rr_cursor_y = pinned_y\<rparr>\<rparr>
                 else r1)
              else r1))"

section \<open>Adopting measured sizes\<close>

definition adopt_local_screen_size ::
  "u32 \<Rightarrow> u32 \<Rightarrow> edge_router \<Rightarrow> (edge_router \<times> (u32 \<times> u32) option) option" where
  "adopt_local_screen_size width height r =
     (let (l, adopted) = set_screen_size (r_layout r) (r_local_screen r) width height;
          r1 = r\<lparr>r_layout := l\<rparr>
      in if \<not> adopted then Some (r1, None)
         else case screen_by_id l (r_local_screen r) of
           None \<Rightarrow> None
         | Some scr \<Rightarrow>
             Some (r1\<lparr>r_cursor_x := min (r_cursor_x r) (scr_width scr - 1),
                      r_cursor_y := min (r_cursor_y r) (scr_height scr - 1),
                      r_local_cursor_x := min (r_local_cursor_x r) (scr_width scr - 1),
                      r_local_cursor_y := min (r_local_cursor_y r) (scr_height scr - 1),
                      r_push_edge := None, r_push_accum := 0\<rparr>,
                   Some (scr_width scr, scr_height scr)))"

definition adopt_peer_screen_size ::
  "string \<Rightarrow> u32 \<Rightarrow> u32 \<Rightarrow> edge_router \<Rightarrow> (edge_router \<times> (u32 \<times> u32) option) option" where
  "adopt_peer_screen_size fingerprint width height r =
     (case find (\<lambda>s. scr_peer s = Some fingerprint) (ly_screens (r_layout r)) of
        None \<Rightarrow> Some (r, None)
      | Some found \<Rightarrow>
          (let i = scr_id found;
               (l, adopted) = set_screen_size (r_layout r) i width height;
               r1 = r\<lparr>r_layout := l\<rparr>
           in if \<not> adopted then Some (r1, None)
              else case screen_by_id l i of
                None \<Rightarrow> None
              | Some scr \<Rightarrow>
                  (let r2 = (if r_current_screen r = i
                        then r1\<lparr>r_cursor_x := min (r_cursor_x r) (sat_sub (scr_width scr) 1),
                                r_cursor_y := min (r_cursor_y r) (sat_sub (scr_height scr) 1)\<rparr>
                        else r1)
                   in Some (r2\<lparr>r_push_edge := None, r_push_accum := 0, r_return_accum := 0,
                          r_return_edge := None, r_return_edge_accum := 0,
                          r_return_run_since := None\<rparr>,
                        Some (scr_width scr, scr_height scr)))))"

end
