(* ===== verification/Routing.thy ===== *)
theory Routing
  imports Router
begin

text \<open>
  \<open>EdgeRouter::route\<close> and the operations that hand control over or bring it home. The
  method's two halves (a remote screen is driven, or the local screen is) are split at the
  code's own branches; every branch keeps its assignments.
\<close>

section \<open>Bringing control home\<close>

definition return_to_local ::
  "screen_id \<Rightarrow> u32 \<Rightarrow> u32 \<Rightarrow> edge_router \<Rightarrow> router_error + edge_router" where
  "return_to_local from x y r =
     (if r_active_remote r \<noteq> Some from then Inl (NotActiveRemote from (r_active_remote r))
      else case screen_by_id (r_layout r) (r_local_screen r) of
        None \<Rightarrow> Inl LocalScreenMissing
      | Some scr \<Rightarrow>
          (let cx = min x (scr_width scr - 1); cy = min y (scr_height scr - 1)
           in Inr (r\<lparr>r_current_screen := r_local_screen r,
                r_cursor_x := cx, r_cursor_y := cy,
                r_local_cursor_x := cx, r_local_cursor_y := cy,
                r_active_remote := None, r_entry_edge := None, r_return_armed := False,
                r_push_edge := None, r_push_accum := 0,
                r_return_edge := None, r_return_edge_accum := 0,
                r_return_run_since := None\<rparr>)))"

definition landing_edge :: "edge_mode \<Rightarrow> double_edge_style \<Rightarrow> edge \<Rightarrow> edge" where
  "landing_edge mode style e =
     (if mode = Double \<and> style = Mirror \<and> horizontal e then opposite e else e)"

fun landing_coords ::
  "edge \<Rightarrow> u32 \<Rightarrow> u32 \<Rightarrow> u32 \<Rightarrow> u32 \<Rightarrow> u32 \<Rightarrow> u32 \<Rightarrow> u32 \<times> u32" where
  "landing_coords Left cx cy remote_width remote_height width height =
     (RETURN_INSET_PX, map_coordinate cy remote_height height)"
| "landing_coords Right cx cy remote_width remote_height width height =
     (sat_sub (sat_sub width 1) RETURN_INSET_PX, map_coordinate cy remote_height height)"
| "landing_coords Top cx cy remote_width remote_height width height =
     (map_coordinate cx remote_width width, RETURN_INSET_PX)"
| "landing_coords Bottom cx cy remote_width remote_height width height =
     (map_coordinate cx remote_width width, sat_sub (sat_sub height 1) RETURN_INSET_PX)"

definition restore_local_at_edge ::
  "instant \<Rightarrow> screen_id \<Rightarrow> edge \<Rightarrow> edge_router \<Rightarrow> router_error + (edge_router \<times> u32 \<times> u32)" where
  "restore_local_at_edge now from e r =
     (if r_active_remote r \<noteq> Some from then Inl (NotActiveRemote from (r_active_remote r))
      else case screen_by_id (r_layout r) (r_local_screen r) of
        None \<Rightarrow> Inl LocalScreenMissing
      | Some scr \<Rightarrow>
          (let width = scr_width scr;
               height = scr_height scr;
               (remote_width, remote_height) =
                 (case screen_by_id (r_layout r) from of
                    None \<Rightarrow> (width, height)
                  | Some remote \<Rightarrow> (scr_width remote, scr_height remote));
               landing = landing_edge (r_edge_mode r) (r_double_style r) e;
               (x, y) = landing_coords landing (r_cursor_x r) (r_cursor_y r)
                          remote_width remote_height width height;
               cx = min x (sat_sub width 1);
               cy = min y (sat_sub height 1)
           in Inr (r\<lparr>r_current_screen := r_local_screen r,
                r_cursor_x := cx, r_cursor_y := cy,
                r_local_cursor_x := cx, r_local_cursor_y := cy,
                r_active_remote := None, r_entry_edge := None, r_return_armed := False,
                r_push_edge := None, r_push_accum := 0,
                r_post_return_edge := Some landing, r_post_return_at := Some now,
                r_return_edge := None, r_return_edge_accum := 0,
                r_return_run_since := None\<rparr>, cx, cy)))"

definition restore_local :: "screen_id \<Rightarrow> edge_router \<Rightarrow> router_error + (edge_router \<times> u32 \<times> u32)"
  where
  "restore_local from r =
     (if r_active_remote r \<noteq> Some from then Inl (NotActiveRemote from (r_active_remote r))
      else case screen_by_id (r_layout r) (r_local_screen r) of
        None \<Rightarrow> Inl LocalScreenMissing
      | Some scr \<Rightarrow>
          (let remote_height = (case screen_by_id (r_layout r) from of
                   None \<Rightarrow> scr_height scr
                 | Some remote \<Rightarrow> scr_height remote);
               mapped_y = map_coordinate (r_cursor_y r) remote_height (scr_height scr);
               cx = min (r_local_cursor_x r) (scr_width scr - 1);
               cy = min mapped_y (scr_height scr - 1)
           in Inr (r\<lparr>r_current_screen := r_local_screen r,
                r_cursor_x := cx, r_cursor_y := cy,
                r_local_cursor_x := cx, r_local_cursor_y := cy,
                r_active_remote := None, r_entry_edge := None, r_return_armed := False,
                r_push_edge := None, r_push_accum := 0,
                r_post_return_edge := None, r_post_return_at := None,
                r_return_edge := None, r_return_edge_accum := 0,
                r_return_run_since := None\<rparr>, cx, cy)))"

text \<open>\<open>handoff_to\<close>: \<open>False\<close> when the request names this computer, \<open>True\<close> for a new drive.\<close>

definition handoff_to ::
  "instant \<Rightarrow> screen_id \<Rightarrow> u32 \<Rightarrow> u32 \<Rightarrow> edge_router \<Rightarrow> router_error + (edge_router \<times> bool)" where
  "handoff_to now target x y r =
     (case screen_by_id (r_layout r) target of
        None \<Rightarrow> Inl (TargetNotInLayout target)
      | Some t \<Rightarrow>
          (let cx = min x (scr_width t - 1); cy = min y (scr_height t - 1) in
           if r_local_screen r = target
           then Inr (r\<lparr>r_current_screen := target,
                  r_cursor_x := cx, r_cursor_y := cy,
                  r_local_cursor_x := cx, r_local_cursor_y := cy,
                  r_active_remote := None, r_entry_edge := None, r_return_armed := False,
                  r_push_edge := None, r_push_accum := 0,
                  r_post_return_edge := None, r_post_return_at := None,
                  r_return_edge := None, r_return_edge_accum := 0,
                  r_return_run_since := None\<rparr>, False)
           else
             (let saved = (if r_current_screen r = r_local_screen r
                   then r\<lparr>r_local_cursor_x := r_cursor_x r, r_local_cursor_y := r_cursor_y r\<rparr>
                   else r)
              in Inr (saved\<lparr>r_current_screen := target,
                   r_cursor_x := cx, r_cursor_y := cy,
                   r_active_remote := Some target, r_entry_edge := None,
                   r_return_armed := True,
                   r_return_edge := None, r_return_edge_accum := 0,
                   r_return_run_since := None,
                   r_post_return_edge := None, r_post_return_at := None,
                   r_handoff_at := Some now\<rparr>, True))))"

section \<open>Routing while a remote screen is driven\<close>

text \<open>The step stays inside the remote screen.\<close>

definition remote_inside :: "screen \<Rightarrow> int \<Rightarrow> int \<Rightarrow> edge_router \<Rightarrow> edge_router" where
  "remote_inside remote next_x next_y r =
     (let cx = word_of_int next_x; cy = word_of_int next_y;
          r1 = r\<lparr>r_cursor_x := cx, r_cursor_y := cy\<rparr>;
          active_return_edge = (if r_return_edge r \<noteq> None then r_return_edge r else r_entry_edge r);
          clear = (case active_return_edge of
                     None \<Rightarrow> True
                   | Some e \<Rightarrow> 2 < distance_from_edge e cx cy (scr_width remote) (scr_height remote));
          r2 = (if clear
                then r1\<lparr>r_return_accum := 0, r_return_edge := None, r_return_edge_accum := 0,
                        r_return_run_since := None\<rparr>
                else r1)
      in if \<not> r_return_armed r2
         then (case r_entry_edge r2 of
                 None \<Rightarrow> r2
               | Some entry \<Rightarrow>
                   if SETTLE_PX \<le> distance_from_edge entry cx cy (scr_width remote) (scr_height remote)
                   then r2\<lparr>r_return_armed := True\<rparr> else r2)
         else r2)"

definition faces_home :: "edge_router \<Rightarrow> screen_id \<Rightarrow> edge \<Rightarrow> bool" where
  "faces_home r from e =
     (case fixed_return_edge r of
        Some fixed \<Rightarrow> e = fixed
      | None \<Rightarrow>
          neighbor_for_edge (r_layout r) from e = Some (r_local_screen r)
          \<or> (r_edge_mode r = Double \<and> horizontal e \<and> from \<noteq> r_local_screen r
              \<and> single_peer_screen (r_layout r) \<noteq> None))"

text \<open>How far past an edge of the driven screen the step went.\<close>

fun remote_overflow_px :: "edge \<Rightarrow> int \<Rightarrow> int \<Rightarrow> screen \<Rightarrow> int" where
  "remote_overflow_px Left next_x next_y remote = - next_x"
| "remote_overflow_px Right next_x next_y remote = next_x - (uint (scr_width remote) - 1)"
| "remote_overflow_px Top next_x next_y remote = - next_y"
| "remote_overflow_px Bottom next_x next_y remote = next_y - (uint (scr_height remote) - 1)"

definition remote_clamp :: "screen \<Rightarrow> int \<Rightarrow> int \<Rightarrow> edge_router \<Rightarrow> edge_router option" where
  "remote_clamp remote next_x next_y r = do {
     cx \<leftarrow> i64_clamp next_x 0 (uint (scr_width remote) - 1);
     cy \<leftarrow> i64_clamp next_y 0 (uint (scr_height remote) - 1);
     Some (r\<lparr>r_cursor_x := word_of_int cx, r_cursor_y := word_of_int cy\<rparr>)
   }"

text \<open>The restore of a return, whose result the code discards, and the event it reports.\<close>

definition return_home :: "instant \<Rightarrow> screen_id \<Rightarrow> edge \<Rightarrow> edge_router \<Rightarrow> edge_router \<times> routed_event"
  where
  "return_home now target e r =
     (case restore_local_at_edge now target e r of
        Inl _ \<Rightarrow> r
      | Inr (r', _) \<Rightarrow> r',
      ReturnHome (r_current_screen r) e (r_entry_edge r) (r_return_armed r))"

text \<open>The brush-proof return: an armed drive, or an unarmed one away from its entry edge.\<close>

definition note_return_run :: "instant \<Rightarrow> edge \<Rightarrow> int \<Rightarrow> edge_router \<Rightarrow> edge_router" where
  "note_return_run now e overflow r =
     (let credit = (if r_return_armed r then overflow else min overflow (RETURN_PUSH_PX - 1))
      in if r_return_edge r = Some e
         then r\<lparr>r_return_edge_accum := i64_add (r_return_edge_accum r) credit\<rparr>
         else r\<lparr>r_return_edge := Some e, r_return_edge_accum := credit,
                r_return_run_since := Some now\<rparr>)"

definition return_fires :: "instant \<Rightarrow> edge_router \<Rightarrow> bool" where
  "return_fires now r \<longleftrightarrow>
     (let held = r_return_hold r = 0
            \<or> (case r_return_run_since r of
                 None \<Rightarrow> False
               | Some since \<Rightarrow> r_return_hold r \<le> elapsed now since);
          grace = in_handoff_grace now r;
          threshold = (if r_return_armed r then RETURN_EDGE_PX else RETURN_PUSH_PX)
      in threshold \<le> r_return_edge_accum r \<and> held \<and> \<not> grace)"

definition remote_overflow ::
  "instant \<Rightarrow> screen_id \<Rightarrow> input_event \<Rightarrow> screen \<Rightarrow> edge \<Rightarrow> int \<Rightarrow> int \<Rightarrow> edge_router
    \<Rightarrow> (edge_router \<times> routed_event) option" where
  "remote_overflow now target event remote e next_x next_y r =
     (let from = r_current_screen r;
          unarmed_entry = (r_entry_edge r = Some e \<and> \<not> r_return_armed r);
          home = faces_home r from e;
          overflow = max (remote_overflow_px e next_x next_y remote) 0
      in if home \<and> \<not> unarmed_entry
         then (let r1 = note_return_run now e overflow r
               in if return_fires now r1 then Some (return_home now target e r1)
                  else map_option (\<lambda>r2. (r2, Forward target event))
                         (remote_clamp remote next_x next_y r1))
         else if home
         then (let r1 = r\<lparr>r_return_accum := i64_add (r_return_accum r) overflow\<rparr>
               in if RETURN_PUSH_PX \<le> r_return_accum r1 \<and> \<not> in_handoff_grace now r1
                  then Some (return_home now target e r1)
                  else map_option (\<lambda>r2. (r2, Forward target event))
                         (remote_clamp remote next_x next_y r1))
         else map_option (\<lambda>r2. (r2, Forward target event))
                (remote_clamp remote next_x next_y
                  (r\<lparr>r_return_accum := 0, r_return_edge := None, r_return_edge_accum := 0,
                     r_return_run_since := None\<rparr>)))"

fun route_remote ::
  "instant \<Rightarrow> screen_id \<Rightarrow> input_event \<Rightarrow> edge_router \<Rightarrow> (edge_router \<times> routed_event) option" where
  "route_remote now target (MouseMove dx dy) r =
     (case screen_by_id (r_layout r) (r_current_screen r) of
        None \<Rightarrow> Some (r, Forward target (MouseMove dx dy))
      | Some remote \<Rightarrow>
          (let next_x = uint (r_cursor_x r) + sint dx;
               next_y = uint (r_cursor_y r) + sint dy
           in case edge_for_overflow next_x next_y (scr_width remote) (scr_height remote) of
                None \<Rightarrow> Some (remote_inside remote next_x next_y r, Forward target (MouseMove dx dy))
              | Some e \<Rightarrow>
                  remote_overflow now target (MouseMove dx dy) remote e next_x next_y r))"
| "route_remote now target event r = Some (r, Forward target event)"

section \<open>Routing while control is local\<close>

definition post_return_holds :: "instant \<Rightarrow> edge_router \<Rightarrow> bool" where
  "post_return_holds now r =
     (case r_post_return_at r of
        None \<Rightarrow> False
      | Some at \<Rightarrow> elapsed now at < from_millis POST_RETURN_HOLD_MS)"

text \<open>The bounds of the two clamps are never crossed: \<open>width - 1\<close> is unsigned.\<close>

definition clamp_to_edge ::
  "int \<Rightarrow> int \<Rightarrow> u32 \<Rightarrow> u32 \<Rightarrow> clamp_reason \<Rightarrow> edge_router \<Rightarrow> edge_router \<times> routed_event" where
  "clamp_to_edge next_x next_y width height reason r =
     (let clamped_x = max 0 (min (uint (width - 1)) next_x);
          clamped_y = max 0 (min (uint (height - 1)) next_y);
          cx = word_of_int clamped_x;
          cy = word_of_int clamped_y;
          e = (case edge_for_overflow next_x next_y width height of None \<Rightarrow> Left | Some e \<Rightarrow> e);
          overflow = max (overflow_px e next_x next_y width height) 0
      in (r\<lparr>r_cursor_x := cx, r_cursor_y := cy,
            r_local_cursor_x := cx, r_local_cursor_y := cy,
            r_last_clamp := Some \<lparr>cs_reason = reason, cs_edge = e, cs_overflow_px = overflow,
                                  cs_cursor_x = cx, cs_cursor_y = cy\<rparr>\<rparr>,
          Local (MouseMove (saturating_i32 (clamped_x - uint (r_cursor_x r)))
                           (saturating_i32 (clamped_y - uint (r_cursor_y r))))))"

definition clear_push :: "edge_router \<Rightarrow> edge_router" where
  "clear_push r = r\<lparr>r_push_edge := None, r_push_accum := 0\<rparr>"

text \<open>The step stays inside the local screen.\<close>

definition local_inside :: "screen \<Rightarrow> int \<Rightarrow> int \<Rightarrow> edge_router \<Rightarrow> edge_router" where
  "local_inside scr next_x next_y r =
     (let cx = word_of_int next_x; cy = word_of_int next_y;
          dist = (\<lambda>e. distance_from_edge e cx cy (scr_width scr) (scr_height scr));
          r1 = r\<lparr>r_cursor_x := cx, r_cursor_y := cy, r_local_cursor_x := cx, r_local_cursor_y := cy\<rparr>;
          r2 = (if (case r_push_edge r1 of None \<Rightarrow> True | Some e \<Rightarrow> 2 < dist e)
                then clear_push r1 else r1);
          r3 = (case r_post_return_edge r2 of
                  None \<Rightarrow> r2
                | Some suppressed \<Rightarrow>
                    if POST_RETURN_CLEAR_PX \<le> dist suppressed
                    then r2\<lparr>r_post_return_edge := None, r_post_return_at := None\<rparr> else r2)
      in if \<not> near_crossing_edge r3 (word_of_int EDGE_PUSH_PX)
         then r3\<lparr>r_startup_gate := False\<rparr> else r3)"

text \<open>The four gates that hold a crossing, in the code's order.\<close>

definition gate_reason :: "instant \<Rightarrow> edge \<Rightarrow> edge_router \<Rightarrow> clamp_reason option" where
  "gate_reason now e r =
     (if r_locked r then Some Locked
      else if crossing_target r (r_current_screen r) e = None then Some NoTarget
      else if r_startup_gate r then Some StartupGate
      else if r_post_return_edge r = Some e \<and> post_return_holds now r then Some PostReturn
      else None)"

text \<open>The push run on this edge after the step.\<close>

definition push_credit :: "screen \<Rightarrow> edge \<Rightarrow> int \<Rightarrow> edge_router \<Rightarrow> int" where
  "push_credit scr e overflow r =
     (if distance_from_edge e (r_cursor_x r) (r_cursor_y r) (scr_width scr) (scr_height scr)
           \<le> PHANTOM_START_GUARD_PX
      then overflow else min overflow (EDGE_PUSH_PX - 1))"

definition note_push :: "screen \<Rightarrow> edge \<Rightarrow> int \<Rightarrow> edge_router \<Rightarrow> edge_router" where
  "note_push scr e overflow r =
     (let credit = push_credit scr e overflow r
      in if r_push_edge r = Some e
         then r\<lparr>r_push_accum := i64_add (r_push_accum r) credit\<rparr>
         else r\<lparr>r_push_edge := Some e, r_push_accum := credit\<rparr>)"

fun handoff_remainder :: "edge \<Rightarrow> int \<Rightarrow> input_event" where
  "handoff_remainder Left overflow = MouseMove (- saturating_i32 overflow) 0"
| "handoff_remainder Right overflow = MouseMove (saturating_i32 overflow) 0"
| "handoff_remainder Top overflow = MouseMove 0 (- saturating_i32 overflow)"
| "handoff_remainder Bottom overflow = MouseMove 0 (saturating_i32 overflow)"

text \<open>The crossing itself, from the reset of the push run on.\<close>

definition commit_handoff ::
  "instant \<Rightarrow> screen \<Rightarrow> edge \<Rightarrow> screen_id \<Rightarrow> int \<Rightarrow> edge_router \<Rightarrow> (edge_router \<times> routed_event) option"
  where
  "commit_handoff now scr e target overflow r0 =
     (let r = r0\<lparr>r_push_edge := None, r_push_accum := 0,
                 r_post_return_edge := None, r_post_return_at := None\<rparr>
      in case screen_by_id (r_layout r) target of
           None \<Rightarrow> None
         | Some t \<Rightarrow>
             (let mapped = map_coordinate (along e (r_cursor_x r) (r_cursor_y r))
                             (along_span e scr) (along_span e t);
                  entry = entry_for_exit (r_double_style r) e;
                  (target_x, target_y) = entry_target_coords (opposite entry) t mapped;
                  from = r_current_screen r;
                  saved = (if from = r_local_screen r
                    then r\<lparr>r_local_cursor_x := r_cursor_x r, r_local_cursor_y := r_cursor_y r\<rparr>
                    else r)
              in Some (saved\<lparr>r_current_screen := target,
                     r_cursor_x := target_x, r_cursor_y := target_y,
                     r_active_remote := Some target, r_entry_edge := Some entry,
                     r_return_armed := False, r_return_accum := 0,
                     r_return_edge := None, r_return_edge_accum := 0,
                     r_return_run_since := None, r_handoff_at := Some now\<rparr>,
                   Handoff from target e target_x target_y (handoff_remainder e overflow))))"

definition local_overflow ::
  "instant \<Rightarrow> screen \<Rightarrow> edge \<Rightarrow> int \<Rightarrow> int \<Rightarrow> edge_router \<Rightarrow> (edge_router \<times> routed_event) option"
  where
  "local_overflow now scr e next_x next_y r =
     (let overflow = (case e of
            Left \<Rightarrow> - next_x
          | Right \<Rightarrow> next_x - uint (scr_width scr - 1)
          | Top \<Rightarrow> - next_y
          | Bottom \<Rightarrow> next_y - uint (scr_height scr - 1))
      in case gate_reason now e r of
           Some reason \<Rightarrow>
             Some (clamp_to_edge next_x next_y (scr_width scr) (scr_height scr) reason (clear_push r))
         | None \<Rightarrow>
             (case crossing_target r (r_current_screen r) e of
                None \<Rightarrow> None
              | Some target \<Rightarrow>
                  (let r1 = note_push scr e overflow r
                   in if r_push_accum r1 < EDGE_PUSH_PX
                      then Some (clamp_to_edge next_x next_y (scr_width scr) (scr_height scr)
                             PushBudget r1)
                      else commit_handoff now scr e target overflow r1)))"

fun route_local ::
  "instant \<Rightarrow> input_event \<Rightarrow> edge_router \<Rightarrow> (edge_router \<times> routed_event) option" where
  "route_local now (MouseMove dx dy) r =
     (case screen_by_id (r_layout r) (r_current_screen r) of
        None \<Rightarrow> None
      | Some scr \<Rightarrow>
          (let next_x = uint (r_cursor_x r) + sint dx;
               next_y = uint (r_cursor_y r) + sint dy
           in case edge_for_overflow next_x next_y (scr_width scr) (scr_height scr) of
                None \<Rightarrow> Some (local_inside scr next_x next_y r, Local (MouseMove dx dy))
              | Some e \<Rightarrow> local_overflow now scr e next_x next_y r))"
| "route_local now event r = Some (r, Local event)"

definition route ::
  "instant \<Rightarrow> input_event \<Rightarrow> edge_router \<Rightarrow> (edge_router \<times> routed_event) option" where
  "route now event r =
     (case r_active_remote r of
        Some target \<Rightarrow> route_remote now target event r
      | None \<Rightarrow> route_local now event r)"

end
