(* ===== verification/RouterSafety.thy ===== *)
theory RouterSafety
  imports Routing LayoutEdits
begin

text \<open>
  The router never panics and keeps its state consistent. \<open>router_ok\<close> is the structural
  invariant (a valid arrangement, screens that exist, a driven screen exactly when one is
  active, a bounded push run); \<open>cursor_inside\<close> adds that the tracked cursor lies on the
  current screen. The lemmas give both for every method but \<open>route\<close>, which \<open>RouteSafety\<close>
  treats; \<open>RouterRuns\<close> carries them to every sequence of calls.
\<close>

section \<open>The invariant\<close>

definition push_ok :: "edge_router \<Rightarrow> bool" where
  "push_ok r \<longleftrightarrow> 0 \<le> r_push_accum r \<and> r_push_accum r < EDGE_PUSH_PX
     \<and> (r_push_edge r = None \<longrightarrow> r_push_accum r = 0)"

definition router_ok :: "edge_router \<Rightarrow> bool" where
  "router_ok r \<longleftrightarrow>
     layout_ok (r_layout r) \<and> r_local_screen r \<in> set (screen_ids (r_layout r))
     \<and> (case r_active_remote r of
          None \<Rightarrow> r_current_screen r = r_local_screen r
        | Some t \<Rightarrow> r_current_screen r = t \<and> t \<in> set (screen_ids (r_layout r))
            \<and> t \<noteq> r_local_screen r)
     \<and> push_ok r"

definition cursor_inside :: "edge_router \<Rightarrow> bool" where
  "cursor_inside r \<longleftrightarrow>
     (case screen_by_id (r_layout r) (r_current_screen r) of
        None \<Rightarrow> False
      | Some s \<Rightarrow> r_cursor_x r < scr_width s \<and> r_cursor_y r < scr_height s)"

lemma router_okD:
  assumes "router_ok r"
  shows "layout_ok (r_layout r)" "r_local_screen r \<in> set (screen_ids (r_layout r))"
    "push_ok r"
  using assms by (auto simp: router_ok_def)

lemma router_ok_local_screen:
  "router_ok r \<Longrightarrow> \<exists>s. screen_by_id (r_layout r) (r_local_screen r) = Some s
     \<and> scr_width s \<noteq> 0 \<and> scr_height s \<noteq> 0"
  using screen_by_id_ex screen_by_id_dims by (metis router_okD(1,2))

lemma router_ok_current_screen:
  assumes "router_ok r"
  obtains s where "screen_by_id (r_layout r) (r_current_screen r) = Some s"
    "scr_width s \<noteq> 0" "scr_height s \<noteq> 0"
proof -
  have "r_current_screen r \<in> set (screen_ids (r_layout r))"
    using assms by (auto simp: router_ok_def split: option.splits)
  then show ?thesis
    using that screen_by_id_ex screen_by_id_dims router_okD(1) [OF assms] by metis
qed

lemma router_ok_cases:
  assumes "router_ok r"
  obtains "r_active_remote r = None" "r_current_screen r = r_local_screen r"
  | t where "r_active_remote r = Some t" "r_current_screen r = t"
      "t \<in> set (screen_ids (r_layout r))" "t \<noteq> r_local_screen r"
  using assms by (cases "r_active_remote r") (auto simp: router_ok_def)

text \<open>What a step must leave alone for the invariant to carry over.\<close>

lemma router_ok_frame:
  assumes "router_ok r"
    and "r_layout r' = r_layout r" "r_local_screen r' = r_local_screen r"
    and "r_current_screen r' = r_current_screen r" "r_active_remote r' = r_active_remote r"
    and "push_ok r \<Longrightarrow> push_ok r'"
  shows "router_ok r'"
  using assms by (auto simp: router_ok_def split: option.splits)

lemma router_ok_home:
  assumes "router_ok r"
    and "r_layout r' = r_layout r" "r_local_screen r' = r_local_screen r"
    and "r_current_screen r' = r_local_screen r" "r_active_remote r' = None"
    and "r_push_edge r' = None" "r_push_accum r' = 0"
  shows "router_ok r'"
  using assms by (auto simp: router_ok_def push_ok_def thresholds)

lemma router_ok_drive:
  assumes "router_ok r"
    and "r_layout r' = r_layout r" "r_local_screen r' = r_local_screen r"
    and "r_current_screen r' = t" "r_active_remote r' = Some t"
    and "t \<in> set (screen_ids (r_layout r))" "t \<noteq> r_local_screen r"
    and "push_ok r \<Longrightarrow> push_ok r'"
  shows "router_ok r'"
  using assms by (auto simp: router_ok_def)

lemma EDGE_PUSH_PX_pos [simp]: "0 < EDGE_PUSH_PX"
  by (simp add: thresholds)

section \<open>Every method keeps it\<close>

lemma router_new_ok: "router_new l = Inr r \<Longrightarrow> router_ok r \<and> cursor_inside r \<and> r_layout r = l"
proof -
  assume new: "router_new l = Inr r"
  then have "validate l = Inr ()"
    by (auto simp: router_new_def split: sum.splits)
  then have ok: "layout_ok l"
    by (simp add: validate_iff)
  from new obtain scr where scr: "screen_by_id l (r_local_screen r) = Some scr" and r:
      "r_layout r = l" "r_current_screen r = r_local_screen r" "r_active_remote r = None"
      "r_push_edge r = None" "r_push_accum r = 0"
      "r_cursor_x r = scr_width scr div 2" "r_cursor_y r = scr_height scr div 2"
    by (auto simp: router_new_def split: sum.splits option.splits list.splits)
  have half: "w div 2 < w" if "w \<noteq> 0" for w :: u32
    using that uint_pos_iff [of w] by (simp add: word_less_def uint_div)
  have "r_local_screen r \<in> set (screen_ids l)"
    using scr screen_by_id_ex by blast
  then show ?thesis
    using ok scr r half screen_by_id_dims [OF ok scr]
    by (auto simp: router_ok_def push_ok_def cursor_inside_def)
qed

lemma carried_ok:
  assumes "layout_ok l" "layout_ok old"
  shows "layout_ok (l\<lparr>ly_screens := map (\<lambda>s.
     case screen_by_id old (scr_id s) of
       None \<Rightarrow> s | Some o' \<Rightarrow> s\<lparr>scr_width := scr_width o', scr_height := scr_height o'\<rparr>)
     (ly_screens l)\<rparr>)" (is "layout_ok ?c")
    and "screen_ids (l\<lparr>ly_screens := map (\<lambda>s.
     case screen_by_id old (scr_id s) of
       None \<Rightarrow> s | Some o' \<Rightarrow> s\<lparr>scr_width := scr_width o', scr_height := scr_height o'\<rparr>)
     (ly_screens l)\<rparr>) = screen_ids l"
proof -
  show ids: "screen_ids ?c = screen_ids l"
    by (auto simp: screen_ids_def split: option.splits)
  have pos: "positions ?c = positions l"
    by (auto simp: positions_def split: option.splits)
  have "screen_ok s" if "s \<in> set (ly_screens ?c)" for s
    using that layout_okD(3) [OF assms(1)] screen_by_id_dims [OF assms(2)]
    by (auto simp: screen_ok_def split: option.splits)
  then show "layout_ok ?c"
    using assms(1) ids pos by (simp add: layout_ok_def split: option.splits)
qed

lemma min_pred: "w \<noteq> 0 \<Longrightarrow> min x (w - 1) < (w :: u32)" "w \<noteq> 0 \<Longrightarrow> min x (sat_sub w 1) < (w :: u32)"
  using min_pred_less [of w x] sat_sub_1_less [of w] by (auto simp: word_less_def uint_min)

lemma set_layout_Inr:
  assumes "set_layout l r = Inr r'" and ok: "router_ok r"
  shows "router_ok r' \<and> cursor_inside r' \<and> screen_ids (r_layout r') = screen_ids l
    \<and> r_active_remote r = None"
proof -
  from assms(1) have v: "layout_ok l"
    by (auto simp: set_layout_def validate_iff split: sum.splits)
  note c = carried_ok [OF v router_okD(1) [OF ok]]
  show ?thesis
    using assms(1) ok c screen_by_id_dims [OF c(1)] c(2) screen_by_id_ex
    by (auto simp: set_layout_def router_ok_def push_ok_def cursor_inside_def Let_def min_pred
        split: sum.splits option.splits if_splits)
qed

lemma seed_position_Inr:
  assumes "seed_position x y g r = Inr r'" and "router_ok r"
  shows "router_ok r' \<and> cursor_inside r'"
proof
  show "router_ok r'"
    by (rule router_ok_frame [OF assms(2)])
      (use assms(1) in \<open>auto simp: seed_position_def Let_def push_ok_def split: option.splits if_splits\<close>)
  show "cursor_inside r'"
    using assms router_ok_local_screen [OF assms(2)]
    by (auto simp: seed_position_def Let_def cursor_inside_def router_ok_def min_pred
        split: option.splits if_splits)
qed

lemma push_ok_cong:
  "r_push_edge r' = r_push_edge r \<Longrightarrow> r_push_accum r' = r_push_accum r \<Longrightarrow> push_ok r \<Longrightarrow> push_ok r'"
  by (simp add: push_ok_def)

lemma push_ok_cleared: "r_push_edge r = None \<Longrightarrow> r_push_accum r = 0 \<Longrightarrow> push_ok r"
  by (simp add: push_ok_def)

lemma correct_push_run_ok:
  assumes "push_ok r"
  shows "push_ok (correct_push_run ox oy px py scr r)"
proof (cases "r_push_edge r")
  case None
  with assms show ?thesis by (simp add: correct_push_run_def)
next
  case (Some e)
  define k where "k = uint (sat_sub (distance_from_edge e px py (scr_width scr) (scr_height scr))
    (distance_from_edge e ox oy (scr_width scr) (scr_height scr)))"
  have k: "0 \<le> k" "k \<le> 4294967295"
    unfolding k_def by (simp_all add: uint_u32_le)
  have "i64_add (r_push_accum r) (- k) = r_push_accum r - k"
    using assms k i64_add_exact [of "r_push_accum r" "- k"] by (simp add: thresholds push_ok_def)
  then show ?thesis
    using Some assms k
    by (auto simp: correct_push_run_def Let_def k_def [symmetric] thresholds push_ok_def)
qed

lemma correct_push_run_frame [simp]:
  "r_layout (correct_push_run ox oy px py scr r) = r_layout r"
  "r_local_screen (correct_push_run ox oy px py scr r) = r_local_screen r"
  "r_current_screen (correct_push_run ox oy px py scr r) = r_current_screen r"
  "r_active_remote (correct_push_run ox oy px py scr r) = r_active_remote r"
  "r_cursor_x (correct_push_run ox oy px py scr r) = r_cursor_x r"
  "r_cursor_y (correct_push_run ox oy px py scr r) = r_cursor_y r"
  by (simp_all add: correct_push_run_def Let_def split: option.splits)

lemma resync_if_local_fields:
  assumes "r_active_remote r = None" "r_current_screen r = r_local_screen r"
    and "screen_by_id (r_layout r) (r_local_screen r) = Some scr"
  shows "r_layout (resync_if_local x y r) = r_layout r"
    "r_local_screen (resync_if_local x y r) = r_local_screen r"
    "r_current_screen (resync_if_local x y r) = r_current_screen r"
    "r_active_remote (resync_if_local x y r) = r_active_remote r"
    "r_cursor_x (resync_if_local x y r) = min x (scr_width scr - 1)"
    "r_cursor_y (resync_if_local x y r) = min y (scr_height scr - 1)"
  using assms by (simp_all add: resync_if_local_def Let_def)

lemma resync_if_local_other:
  "r_active_remote r \<noteq> None \<or> r_current_screen r \<noteq> r_local_screen r \<Longrightarrow> resync_if_local x y r = r"
  by (simp add: resync_if_local_def)

lemma resync_if_local_ok:
  assumes ok: "router_ok r"
  shows "router_ok (resync_if_local x y r)"
proof (cases "r_active_remote r \<noteq> None \<or> r_current_screen r \<noteq> r_local_screen r")
  case True
  with ok show ?thesis by (simp add: resync_if_local_other)
next
  case False
  obtain scr where scr: "screen_by_id (r_layout r) (r_local_screen r) = Some scr"
    using router_ok_local_screen [OF ok] by blast
  have "push_ok (resync_if_local x y r)"
    using False scr router_okD(3) [OF ok]
    by (auto simp: resync_if_local_def Let_def intro!: correct_push_run_ok elim!: push_ok_cong [rotated 2])
  then show ?thesis
    using False by (intro router_ok_frame [OF ok]) (simp_all add: resync_if_local_fields [OF _ _ scr])
qed

lemma resync_if_local_inside:
  assumes ok: "router_ok r" and "cursor_inside r"
  shows "cursor_inside (resync_if_local x y r)"
proof (cases "r_active_remote r \<noteq> None \<or> r_current_screen r \<noteq> r_local_screen r")
  case True
  with assms show ?thesis by (simp add: resync_if_local_other)
next
  case False
  obtain scr where scr: "screen_by_id (r_layout r) (r_local_screen r) = Some scr"
      "scr_width scr \<noteq> 0" "scr_height scr \<noteq> 0"
    using router_ok_local_screen [OF ok] by blast
  with False show ?thesis
    by (simp add: cursor_inside_def resync_if_local_fields [OF _ _ scr(1)] min_pred)
qed

section \<open>Adopting measured sizes\<close>

lemma router_ok_layout:
  assumes "router_ok r" and "layout_ok (r_layout r')"
    and "screen_ids (r_layout r') = screen_ids (r_layout r)"
    and "r_local_screen r' = r_local_screen r" "r_current_screen r' = r_current_screen r"
    and "r_active_remote r' = r_active_remote r" and "push_ok r \<Longrightarrow> push_ok r'"
  shows "router_ok r'"
  using assms by (auto simp: router_ok_def split: option.splits)

lemma sized_screen:
  assumes "set_screen_size l i w h = (l', True)"
  obtains s where "screen_by_id l i = Some s"
    "screen_by_id l' i = Some (s\<lparr>scr_width := w, scr_height := h\<rparr>)" "w \<noteq> 0" "h \<noteq> 0"
proof -
  have T: "snd (set_screen_size l i w h)" and l': "l' = fst (set_screen_size l i w h)"
    using assms by auto
  from T have "w \<noteq> 0" "h \<noteq> 0" "i \<in> set (screen_ids l)"
    by (auto simp: set_screen_size_True)
  moreover from this obtain s where "screen_by_id l i = Some s"
    using screen_by_id_ex by blast
  ultimately show ?thesis
    using that screen_by_id_set_screen_size [OF T, of i] l' by simp
qed

lemma min_less_dim: "a < b \<Longrightarrow> w \<noteq> 0 \<Longrightarrow> min a (w - 1) < w \<and> min a (w - 1) < b \<and>
   min a (sat_sub w 1) < w \<and> min a (sat_sub w 1) < (b :: u32)"
  by (metis min_pred min_less_iff_disj)

lemma adopt_local_ok:
  assumes ok: "router_ok r"
  obtains r' a where "adopt_local_screen_size w h r = Some (r', a)" "router_ok r'"
    "cursor_inside r \<Longrightarrow> cursor_inside r'"
    "screen_ids (r_layout r') = screen_ids (r_layout r)"
proof -
  let ?i = "r_local_screen r"
  obtain l' b where l': "set_screen_size (r_layout r) ?i w h = (l', b)"
    by fastforce
  have lok: "layout_ok l'" and ids: "screen_ids l' = screen_ids (r_layout r)"
    using set_screen_size_ok [OF router_okD(1) [OF ok], of ?i w h]
      ids_set_screen_size [of "r_layout r" ?i w h] l' by simp_all
  show ?thesis
  proof (cases b)
    case False
    then have "l' = r_layout r"
      using set_screen_size_False [of "r_layout r" ?i w h] l' by simp
    with False show ?thesis
      using that [of r None] l' ok by (simp add: adopt_local_screen_size_def Let_def)
  next
    case True
    with l' obtain s where s: "screen_by_id (r_layout r) ?i = Some s"
        "screen_by_id l' ?i = Some (s\<lparr>scr_width := w, scr_height := h\<rparr>)" "w \<noteq> 0" "h \<noteq> 0"
      by (auto elim: sized_screen)
    obtain r' where r': "adopt_local_screen_size w h r = Some (r', Some (w, h))"
        "r_layout r' = l'" "r_local_screen r' = ?i" "r_current_screen r' = r_current_screen r"
        "r_active_remote r' = r_active_remote r" "push_ok r'"
        "r_cursor_x r' = min (r_cursor_x r) (w - 1)" "r_cursor_y r' = min (r_cursor_y r) (h - 1)"
      using True l' s by (simp add: adopt_local_screen_size_def push_ok_cleared)
    have "router_ok r'"
      by (rule router_ok_layout [OF ok]) (simp_all add: r' lok ids)
    moreover have "cursor_inside r'" if "cursor_inside r"
      using that True l' s screen_by_id_set_screen_size [of "r_layout r" ?i w h "r_current_screen r"]
      by (auto simp: cursor_inside_def r' min_less_dim split: option.splits if_splits)
    ultimately show ?thesis
      using that r'(1) ids r'(2) by simp
  qed
qed

lemma adopt_peer_ok:
  assumes ok: "router_ok r"
  obtains r' a where "adopt_peer_screen_size fp w h r = Some (r', a)" "router_ok r'"
    "cursor_inside r \<Longrightarrow> cursor_inside r'"
    "screen_ids (r_layout r') = screen_ids (r_layout r)"
proof (cases "find (\<lambda>s. scr_peer s = Some fp) (ly_screens (r_layout r))")
  case None
  then show ?thesis
    using that [of r None] ok by (simp add: adopt_peer_screen_size_def)
next
  case (Some found)
  let ?i = "scr_id found"
  obtain l' b where l': "set_screen_size (r_layout r) ?i w h = (l', b)"
    by fastforce
  have lok: "layout_ok l'" and ids: "screen_ids l' = screen_ids (r_layout r)"
    using set_screen_size_ok [OF router_okD(1) [OF ok], of ?i w h]
      ids_set_screen_size [of "r_layout r" ?i w h] l' by simp_all
  show ?thesis
  proof (cases b)
    case False
    then have "l' = r_layout r"
      using set_screen_size_False [of "r_layout r" ?i w h] l' by simp
    with False show ?thesis
      using that [of r None] Some l' ok by (simp add: adopt_peer_screen_size_def Let_def)
  next
    case True
    with l' obtain s where s: "screen_by_id (r_layout r) ?i = Some s"
        "screen_by_id l' ?i = Some (s\<lparr>scr_width := w, scr_height := h\<rparr>)" "w \<noteq> 0" "h \<noteq> 0"
      by (auto elim: sized_screen)
    obtain r' where r': "adopt_peer_screen_size fp w h r = Some (r', Some (w, h))"
        "r_layout r' = l'" "r_local_screen r' = r_local_screen r"
        "r_current_screen r' = r_current_screen r"
        "r_active_remote r' = r_active_remote r" "push_ok r'"
        "r_cursor_x r' = (if r_current_screen r = ?i then min (r_cursor_x r) (sat_sub w 1) else r_cursor_x r)"
        "r_cursor_y r' = (if r_current_screen r = ?i then min (r_cursor_y r) (sat_sub h 1) else r_cursor_y r)"
      using True Some l' s
      by (cases "r_current_screen r = ?i") (simp_all add: adopt_peer_screen_size_def push_ok_cleared)
    have "router_ok r'"
      by (rule router_ok_layout [OF ok]) (simp_all add: r' lok ids)
    moreover have "cursor_inside r'" if "cursor_inside r"
      using that True l' s screen_by_id_set_screen_size [of "r_layout r" ?i w h "r_current_screen r"]
      by (auto simp: cursor_inside_def r' min_less_dim split: option.splits if_splits)
    ultimately show ?thesis
      using that r'(1) ids r'(2) by simp
  qed
qed

section \<open>Bringing control home\<close>

lemma return_to_local_ok:
  assumes ok: "router_ok r" and "return_to_local from x y r = Inr r'"
  shows "router_ok r' \<and> cursor_inside r' \<and> r_active_remote r' = None"
proof -
  obtain s where s: "screen_by_id (r_layout r) (r_local_screen r) = Some s"
      "scr_width s \<noteq> 0" "scr_height s \<noteq> 0"
    using router_ok_local_screen [OF ok] by blast
  have "router_ok r'"
    by (rule router_ok_home [OF ok])
      (use assms(2) s in \<open>auto simp: return_to_local_def Let_def split: if_splits\<close>)
  then show ?thesis
    using assms(2) s by (auto simp: return_to_local_def cursor_inside_def Let_def min_pred split: if_splits)
qed

lemma restore_local_at_edge_ok:
  assumes ok: "router_ok r" and "restore_local_at_edge now from e r = Inr (r', cx, cy)"
  shows "router_ok r' \<and> cursor_inside r' \<and> r_active_remote r' = None"
proof -
  obtain s where s: "screen_by_id (r_layout r) (r_local_screen r) = Some s"
      "scr_width s \<noteq> 0" "scr_height s \<noteq> 0"
    using router_ok_local_screen [OF ok] by blast
  have "router_ok r'"
    by (rule router_ok_home [OF ok])
      (use assms(2) s in \<open>auto simp: restore_local_at_edge_def Let_def split: if_splits prod.splits\<close>)
  then show ?thesis
    using assms(2) s by (auto simp: restore_local_at_edge_def cursor_inside_def Let_def min_pred
        split: if_splits prod.splits)
qed

lemma restore_local_ok:
  assumes ok: "router_ok r" and "restore_local from r = Inr (r', cx, cy)"
  shows "router_ok r' \<and> cursor_inside r' \<and> r_active_remote r' = None"
proof -
  obtain s where s: "screen_by_id (r_layout r) (r_local_screen r) = Some s"
      "scr_width s \<noteq> 0" "scr_height s \<noteq> 0"
    using router_ok_local_screen [OF ok] by blast
  have "router_ok r'"
    by (rule router_ok_home [OF ok])
      (use assms(2) s in \<open>auto simp: restore_local_def Let_def split: if_splits\<close>)
  then show ?thesis
    using assms(2) s by (auto simp: restore_local_def cursor_inside_def Let_def min_pred
        split: if_splits)
qed

text \<open>The results are errors only when the named screen is not the driven one.\<close>

lemma restore_local_at_edge_ex:
  assumes "router_ok r" "r_active_remote r = Some from"
  shows "\<exists>r' cx cy. restore_local_at_edge now from e r = Inr (r', cx, cy)"
  using assms router_ok_local_screen [OF assms(1)]
  by (auto simp: restore_local_at_edge_def Let_def split: prod.splits)

lemma handoff_to_ok:
  assumes ok: "router_ok r" and ho: "handoff_to now target x y r = Inr (r', driving)"
  shows "router_ok r' \<and> cursor_inside r' \<and> r_current_screen r' = target
    \<and> (driving \<longleftrightarrow> target \<noteq> r_local_screen r)"
proof -
  obtain t where t: "screen_by_id (r_layout r) target = Some t"
    using ho by (auto simp: handoff_to_def split: option.splits)
  have dims: "scr_width t \<noteq> 0" "scr_height t \<noteq> 0" and tin: "target \<in> set (screen_ids (r_layout r))"
    using screen_by_id_dims [OF router_okD(1) [OF ok] t] screen_by_id_ex t by auto
  show ?thesis
  proof (cases "r_local_screen r = target")
    case True
    have "router_ok r'"
      by (rule router_ok_home [OF ok]) (use ho t True in \<open>auto simp: handoff_to_def Let_def\<close>)
    with True show ?thesis
      using ho t dims by (auto simp: handoff_to_def cursor_inside_def Let_def min_pred)
  next
    case False
    have "router_ok r'"
      by (rule router_ok_drive [OF ok, where t = target])
        (use ho t tin False in \<open>auto simp: handoff_to_def Let_def push_ok_def split: if_splits\<close>)
    with False show ?thesis
      using ho t dims by (auto simp: handoff_to_def cursor_inside_def Let_def min_pred split: if_splits)
  qed
qed

end
