(* ===== verification/RouteSafety.thy ===== *)
theory RouteSafety
  imports RouterSafety
begin

text \<open>
  \<open>route\<close> keeps the invariant of \<open>RouterSafety\<close> and never panics. \<open>remote_overflow_cases\<close>
  and \<open>local_overflow_cases\<close> say what an overflowing step may do (stay, come home; hold the
  cursor, cross), and later proofs start from them.
\<close>

section \<open>Routing\<close>

lemma EDGE_for_some: "edge_for_overflow nx ny w h = Some e \<Longrightarrow> w \<noteq> 0 \<Longrightarrow> h \<noteq> 0 \<Longrightarrow>
   (case e of Left \<Rightarrow> - nx | Right \<Rightarrow> nx - uint (w - 1) | Top \<Rightarrow> - ny | Bottom \<Rightarrow> ny - uint (h - 1))
     = overflow_px e nx ny w h"
  by (cases e) (simp_all add: uint_sat_sub_1 uint_minus_1)

lemma word_of_int_less: "0 \<le> i \<Longrightarrow> i < uint w \<Longrightarrow> word_of_int i < (w :: u32)"
proof -
  assume i: "0 \<le> i" "i < uint w"
  then have "i mod 4294967296 = i"
    using uint_u32_bounds(2) [of w] by (intro mod_pos_pos_trivial) linarith+
  with i show ?thesis
    by (simp add: word_less_def uint_word_of_int)
qed

lemma step_inside:
  assumes "edge_for_overflow (uint x + sint dx) (uint y + sint dy) w h = None"
  shows "(x :: u32) + dx < w \<and> (y :: u32) + dy < h"
  using assms word_of_int_less [of "uint x + sint dx" w] word_of_int_less [of "uint y + sint dy" h]
  by (simp add: edge_for_overflow_None)

lemma clamped_less: "w \<noteq> 0 \<Longrightarrow> word_of_int (max 0 (min (uint w - 1) i)) < (w :: u32)"
  using uint_pos_iff [of w] by (intro word_of_int_less) auto

lemma remote_clamp_Some:
  assumes "scr_width s \<noteq> 0" "scr_height s \<noteq> 0"
  obtains cx cy where "remote_clamp s nx ny r = Some (r\<lparr>r_cursor_x := cx, r_cursor_y := cy\<rparr>)"
    "cx < scr_width s" "cy < scr_height s"
  using assms uint_pos_iff [of "scr_width s"] uint_pos_iff [of "scr_height s"]
    that [OF _ clamped_less clamped_less]
  by (auto simp: remote_clamp_def)

lemma in_handoff_grace_cong:
  "r_handoff_grace r' = r_handoff_grace r \<Longrightarrow> r_handoff_at r' = r_handoff_at r \<Longrightarrow>
   in_handoff_grace now r' = in_handoff_grace now r"
  by (auto simp: in_handoff_grace_def split: option.splits)

lemma remote_inside_fields [simp]:
  "r_layout (remote_inside s nx ny r) = r_layout r"
  "r_local_screen (remote_inside s nx ny r) = r_local_screen r"
  "r_current_screen (remote_inside s nx ny r) = r_current_screen r"
  "r_active_remote (remote_inside s nx ny r) = r_active_remote r"
  "r_push_edge (remote_inside s nx ny r) = r_push_edge r"
  "r_push_accum (remote_inside s nx ny r) = r_push_accum r"
  "r_cursor_x (remote_inside s nx ny r) = word_of_int nx"
  "r_cursor_y (remote_inside s nx ny r) = word_of_int ny"
  by (simp_all add: remote_inside_def Let_def split: option.splits)

lemma note_return_run_fields [simp]:
  "r_layout (note_return_run now e v r) = r_layout r"
  "r_local_screen (note_return_run now e v r) = r_local_screen r"
  "r_current_screen (note_return_run now e v r) = r_current_screen r"
  "r_active_remote (note_return_run now e v r) = r_active_remote r"
  "r_push_edge (note_return_run now e v r) = r_push_edge r"
  "r_push_accum (note_return_run now e v r) = r_push_accum r"
  "r_entry_edge (note_return_run now e v r) = r_entry_edge r"
  "r_return_armed (note_return_run now e v r) = r_return_armed r"
  "r_handoff_at (note_return_run now e v r) = r_handoff_at r"
  "r_handoff_grace (note_return_run now e v r) = r_handoff_grace r"
  "r_return_hold (note_return_run now e v r) = r_return_hold r"
  "r_cursor_x (note_return_run now e v r) = r_cursor_x r"
  "r_cursor_y (note_return_run now e v r) = r_cursor_y r"
  by (simp_all add: note_return_run_def Let_def)

lemma return_home_ok:
  assumes "router_ok r" and "return_home now target e r = (r', ev)" "r_active_remote r = Some target"
  shows "router_ok r' \<and> cursor_inside r' \<and> r_active_remote r' = None
    \<and> ev = ReturnHome (r_current_screen r) e (r_entry_edge r) (r_return_armed r)"
  using assms restore_local_at_edge_ex [OF assms(1,3), of now e]
  by (auto simp: return_home_def restore_local_at_edge_ok)

text \<open>What a remote motion step may do: stay with the drive, or come home.\<close>

lemma remote_overflow_cases:
  assumes ok: "router_ok r" and act: "r_active_remote r = Some target"
    and s: "screen_by_id (r_layout r) (r_current_screen r) = Some s"
  obtains (stay) r1 cx cy where
      "remote_overflow now target ev s e nx ny r
        = Some (r1\<lparr>r_cursor_x := cx, r_cursor_y := cy\<rparr>, Forward target ev)"
      "cx < scr_width s" "cy < scr_height s"
      "r_layout r1 = r_layout r" "r_local_screen r1 = r_local_screen r"
      "r_current_screen r1 = r_current_screen r" "r_active_remote r1 = r_active_remote r"
      "r_push_edge r1 = r_push_edge r" "r_push_accum r1 = r_push_accum r"
  | (home) r1 where "remote_overflow now target ev s e nx ny r = Some (return_home now target e r1)"
      "router_ok r1" "r_active_remote r1 = Some target"
      "r_current_screen r1 = r_current_screen r"
      "r_entry_edge r1 = r_entry_edge r" "r_return_armed r1 = r_return_armed r"
      "r_cursor_x r1 = r_cursor_x r" "r_cursor_y r1 = r_cursor_y r"
      "faces_home r (r_current_screen r) e" "\<not> in_handoff_grace now r"
proof -
  have dims: "scr_width s \<noteq> 0" "scr_height s \<noteq> 0"
    using screen_by_id_dims [OF router_okD(1) [OF ok] s] by auto
  note clamp = remote_clamp_Some [OF dims]
  let ?from = "r_current_screen r"
  let ?ov = "max (remote_overflow_px e nx ny s) 0"
  consider "faces_home r ?from e \<and> \<not> (r_entry_edge r = Some e \<and> \<not> r_return_armed r)"
    | "faces_home r ?from e \<and> (r_entry_edge r = Some e \<and> \<not> r_return_armed r)"
    | "\<not> faces_home r ?from e" by blast
  then show ?thesis
  proof cases
    case 1
    let ?r1 = "note_return_run now e ?ov r"
    have ok1: "router_ok ?r1"
      by (rule router_ok_frame [OF ok]) (simp_all add: push_ok_def)
    obtain cx cy where c: "remote_clamp s nx ny ?r1 = Some (?r1\<lparr>r_cursor_x := cx, r_cursor_y := cy\<rparr>)"
        "cx < scr_width s" "cy < scr_height s"
      by (rule clamp)
    show ?thesis
    proof (cases "return_fires now ?r1")
      case True
      then have "\<not> in_handoff_grace now r"
        using in_handoff_grace_cong [of ?r1 r now] by (simp add: return_fires_def Let_def)
      then show ?thesis
        using home [of ?r1] 1 True ok1 act by (simp add: remote_overflow_def Let_def)
    next
      case False
      then show ?thesis
        using stay [where ?r1.0 = ?r1 and cx = cx and cy = cy] 1 c by (simp add: remote_overflow_def Let_def)
    qed
  next
    case 2
    let ?r1 = "r\<lparr>r_return_accum := i64_add (r_return_accum r) ?ov\<rparr>"
    have ok1: "router_ok ?r1"
      by (rule router_ok_frame [OF ok]) (simp_all add: push_ok_def)
    obtain cx cy where c: "remote_clamp s nx ny ?r1 = Some (?r1\<lparr>r_cursor_x := cx, r_cursor_y := cy\<rparr>)"
        "cx < scr_width s" "cy < scr_height s"
      by (rule clamp)
    have g: "in_handoff_grace now ?r1 = in_handoff_grace now r"
      by (rule in_handoff_grace_cong) simp_all
    show ?thesis
    proof (cases "RETURN_PUSH_PX \<le> r_return_accum ?r1 \<and> \<not> in_handoff_grace now ?r1")
      case True
      then show ?thesis
        using home [of ?r1] 2 ok1 act g by (simp add: remote_overflow_def Let_def)
    next
      case False
      with 2 c show ?thesis
        by (intro stay [where ?r1.0 = ?r1 and cx = cx and cy = cy])
          (auto simp: remote_overflow_def Let_def)
    qed
  next
    case 3
    let ?r1 = "r\<lparr>r_return_accum := 0, r_return_edge := None, r_return_edge_accum := 0,
                     r_return_run_since := None\<rparr>"
    obtain cx cy where c: "remote_clamp s nx ny ?r1 = Some (?r1\<lparr>r_cursor_x := cx, r_cursor_y := cy\<rparr>)"
        "cx < scr_width s" "cy < scr_height s"
      by (rule clamp)
    then show ?thesis
      using stay [where ?r1.0 = ?r1 and cx = cx and cy = cy] 3 by (simp add: remote_overflow_def Let_def)
  qed
qed

lemma route_remote_ok:
  assumes ok: "router_ok r" and act: "r_active_remote r = Some target"
  obtains r' ev' where "route_remote now target ev r = Some (r', ev')" "router_ok r'"
    "cursor_inside r \<Longrightarrow> cursor_inside r'"
proof (cases "\<exists>dx dy. ev = MouseMove dx dy")
  case False
  then show ?thesis
    using that [of r "Forward target ev"] ok by (cases ev) auto
next
  case True
  then obtain dx dy where ev: "ev = MouseMove dx dy" by blast
  obtain s where s: "screen_by_id (r_layout r) (r_current_screen r) = Some s"
      "scr_width s \<noteq> 0" "scr_height s \<noteq> 0"
    using ok by (rule router_ok_current_screen)
  let ?nx = "uint (r_cursor_x r) + sint dx" and ?ny = "uint (r_cursor_y r) + sint dy"
  show ?thesis
  proof (cases "edge_for_overflow ?nx ?ny (scr_width s) (scr_height s)")
    case None
    let ?r' = "remote_inside s ?nx ?ny r"
    have "router_ok ?r'"
      by (rule router_ok_frame [OF ok]) (simp_all add: push_ok_def)
    moreover have "cursor_inside ?r'"
      using None s by (simp add: cursor_inside_def step_inside)
    ultimately show ?thesis
      using that [of ?r' "Forward target ev"] s None ev by (simp add: Let_def)
  next
    case (Some e)
    show ?thesis
      using ok act s(1)
    proof (cases rule: remote_overflow_cases [where now = now and ev = ev and e = e and nx = ?nx and ny = ?ny])
      case (stay r1 cx cy)
      let ?r' = "r1\<lparr>r_cursor_x := cx, r_cursor_y := cy\<rparr>"
      have "router_ok ?r'"
        by (rule router_ok_frame [OF ok]) (simp_all add: stay push_ok_def)
      moreover have "cursor_inside ?r'"
        using stay s by (simp add: cursor_inside_def)
      ultimately show ?thesis
        using that [of ?r' "Forward target ev"] s Some ev stay(1) by (simp add: Let_def)
    next
      case (home r1)
      obtain r' ev' where h: "return_home now target e r1 = (r', ev')" by fastforce
      then show ?thesis
        using that [of r' ev'] return_home_ok [OF home(2) h home(3)] home(1) s Some ev
        by (simp add: Let_def)
    qed
  qed
qed

subsection \<open>The local half\<close>

lemma clear_push_fields [simp]:
  "r_layout (clear_push r) = r_layout r" "r_local_screen (clear_push r) = r_local_screen r"
  "r_current_screen (clear_push r) = r_current_screen r"
  "r_active_remote (clear_push r) = r_active_remote r"
  "r_push_edge (clear_push r) = None" "r_push_accum (clear_push r) = 0"
  "r_cursor_x (clear_push r) = r_cursor_x r" "r_cursor_y (clear_push r) = r_cursor_y r"
  by (simp_all add: clear_push_def)

lemma note_push_fields [simp]:
  "r_layout (note_push s e v r) = r_layout r" "r_local_screen (note_push s e v r) = r_local_screen r"
  "r_current_screen (note_push s e v r) = r_current_screen r"
  "r_active_remote (note_push s e v r) = r_active_remote r"
  "r_push_edge (note_push s e v r) = Some e"
  "r_cursor_x (note_push s e v r) = r_cursor_x r" "r_cursor_y (note_push s e v r) = r_cursor_y r"
  "r_double_style (note_push s e v r) = r_double_style r"
  "r_edge_mode (note_push s e v r) = r_edge_mode r"
  by (simp_all add: note_push_def Let_def)

lemma local_inside_fields [simp]:
  "r_layout (local_inside s nx ny r) = r_layout r"
  "r_local_screen (local_inside s nx ny r) = r_local_screen r"
  "r_current_screen (local_inside s nx ny r) = r_current_screen r"
  "r_active_remote (local_inside s nx ny r) = r_active_remote r"
  "r_cursor_x (local_inside s nx ny r) = word_of_int nx"
  "r_cursor_y (local_inside s nx ny r) = word_of_int ny"
  by (simp_all add: local_inside_def Let_def clear_push_def split: option.splits)

lemma local_inside_push:
  "push_ok r \<Longrightarrow> push_ok (local_inside s nx ny r)"
  by (auto simp: local_inside_def Let_def clear_push_def push_ok_def split: option.splits if_splits)

lemma clamp_to_edge_fields [simp]:
  "r_layout (fst (clamp_to_edge nx ny w h why r)) = r_layout r"
  "r_local_screen (fst (clamp_to_edge nx ny w h why r)) = r_local_screen r"
  "r_current_screen (fst (clamp_to_edge nx ny w h why r)) = r_current_screen r"
  "r_active_remote (fst (clamp_to_edge nx ny w h why r)) = r_active_remote r"
  "r_push_edge (fst (clamp_to_edge nx ny w h why r)) = r_push_edge r"
  "r_push_accum (fst (clamp_to_edge nx ny w h why r)) = r_push_accum r"
  by (simp_all add: clamp_to_edge_def Let_def)

lemma clamp_to_edge_inside:
  assumes "w \<noteq> 0" "h \<noteq> 0"
  shows "r_cursor_x (fst (clamp_to_edge nx ny w h why r)) < w
    \<and> r_cursor_y (fst (clamp_to_edge nx ny w h why r)) < h"
  using assms by (simp add: clamp_to_edge_def Let_def uint_minus_1 clamped_less)

text \<open>The push run a step notes never wraps.\<close>

lemma note_push_accum:
  assumes p: "push_ok r" and v: "0 < v" "v < 17179869184"
  shows "r_push_accum (note_push s e v r) =
      (if r_push_edge r = Some e then r_push_accum r + push_credit s e v r else push_credit s e v r)"
    and "0 < push_credit s e v r" "push_credit s e v r \<le> v"
    and "0 < r_push_accum (note_push s e v r)"
proof -
  show c: "0 < push_credit s e v r" "push_credit s e v r \<le> v"
    using v by (auto simp: push_credit_def thresholds)
  then show a: "r_push_accum (note_push s e v r) =
      (if r_push_edge r = Some e then r_push_accum r + push_credit s e v r else push_credit s e v r)"
    using p v by (simp add: note_push_def Let_def push_ok_def thresholds)
  show "0 < r_push_accum (note_push s e v r)"
    using a c p by (simp add: push_ok_def)
qed

lemma overflow_px_bound:
  "overflow_px e (uint (x :: u32) + sint (dx :: i32)) (uint (y :: u32) + sint (dy :: i32)) w h < 17179869184"
  using sint_i32_bounds [of dx] sint_i32_bounds [of dy] uint_u32_bounds [of x] uint_u32_bounds [of y]
    uint_ge_0 [of "sat_sub w 1"] uint_ge_0 [of "sat_sub h 1"]
  by (cases e; simp only: overflow_px.simps; linarith)

text \<open>What an overflow on the local screen may do: hold the cursor, or cross.\<close>

lemma local_overflow_cases:
  assumes ok: "router_ok r"
    and s: "screen_by_id (r_layout r) (r_current_screen r) = Some s"
    and e: "edge_for_overflow nx ny (scr_width s) (scr_height s) = Some e"
    and b: "overflow_px e nx ny (scr_width s) (scr_height s) < 17179869184"
  obtains (gated) why where "gate_reason now e r = Some why"
      "local_overflow now s e nx ny r
        = Some (clamp_to_edge nx ny (scr_width s) (scr_height s) why (clear_push r))"
  | (budget) r1 where "gate_reason now e r = None"
      "r1 = note_push s e (overflow_px e nx ny (scr_width s) (scr_height s)) r"
      "push_ok r1" "r_push_accum r1 < EDGE_PUSH_PX"
      "local_overflow now s e nx ny r
        = Some (clamp_to_edge nx ny (scr_width s) (scr_height s) PushBudget r1)"
  | (cross) r1 target where "gate_reason now e r = None"
      "r1 = note_push s e (overflow_px e nx ny (scr_width s) (scr_height s)) r"
      "EDGE_PUSH_PX \<le> r_push_accum r1"
      "crossing_target r (r_current_screen r) e = Some target"
      "local_overflow now s e nx ny r = commit_handoff now s e target
         (overflow_px e nx ny (scr_width s) (scr_height s)) r1"
proof -
  have dims: "scr_width s \<noteq> 0" "scr_height s \<noteq> 0"
    using screen_by_id_dims [OF router_okD(1) [OF ok] s] by auto
  let ?ov = "overflow_px e nx ny (scr_width s) (scr_height s)"
  note ov = EDGE_for_some [OF e dims] overflow_px_pos [OF e dims]
  let ?r1 = "note_push s e ?ov r"
  show ?thesis
  proof (cases "gate_reason now e r")
    case (Some why)
    then show ?thesis
      using gated by (simp add: local_overflow_def Let_def)
  next
    case None
    then obtain target where t: "crossing_target r (r_current_screen r) e = Some target"
      by (auto simp: gate_reason_def split: if_splits)
    show ?thesis
    proof (cases "r_push_accum ?r1 < EDGE_PUSH_PX")
      case True
      have "push_ok ?r1"
        using True note_push_accum(4) [OF router_okD(3) [OF ok] ov(2) b, of s e] by (simp add: push_ok_def)
      then show ?thesis
        using budget [of ?r1] None t ov(1) True by (simp add: local_overflow_def Let_def)
    next
      case False
      then show ?thesis
        using cross [of ?r1 target] None t ov(1) by (simp add: local_overflow_def Let_def)
    qed
  qed
qed

lemma commit_handoff_Some:
  assumes "screen_by_id (r_layout r) target = Some t"
  obtains r' x y where
    "commit_handoff now s e target ov r =
       Some (r', Handoff (r_current_screen r) target e x y (handoff_remainder e ov))"
    "(x, y) = entry_target_coords (opposite (entry_for_exit (r_double_style r) e)) t
       (map_coordinate (along e (r_cursor_x r) (r_cursor_y r)) (along_span e s) (along_span e t))"
    "r_layout r' = r_layout r" "r_local_screen r' = r_local_screen r"
    "r_current_screen r' = target" "r_active_remote r' = Some target"
    "r_cursor_x r' = x" "r_cursor_y r' = y" "r_entry_edge r' = Some (entry_for_exit (r_double_style r) e)"
    "r_return_armed r' = False" "r_handoff_at r' = Some now" "r_push_edge r' = None" "r_push_accum r' = 0"
proof -
  let ?m = "map_coordinate (along e (r_cursor_x r) (r_cursor_y r)) (along_span e s) (along_span e t)"
  obtain x y where xy: "entry_target_coords (opposite (entry_for_exit (r_double_style r) e)) t ?m = (x, y)"
    by fastforce
  obtain r' where eq: "commit_handoff now s e target ov r =
       Some (r', Handoff (r_current_screen r) target e x y (handoff_remainder e ov))"
    using assms xy by (simp add: commit_handoff_def Let_def)
  show ?thesis
    by (rule that [OF eq])
      (use eq assms xy in \<open>auto simp: commit_handoff_def Let_def split: if_splits\<close>)
qed

lemma route_local_ok:
  assumes ok: "router_ok r" and act: "r_active_remote r = None"
  obtains r' ev' where "route_local now ev r = Some (r', ev')" "router_ok r'"
    "cursor_inside r \<Longrightarrow>
      (\<And>e. crossing_target r (r_current_screen r) e \<noteq> None \<Longrightarrow> aligned (r_double_style r) e)
      \<Longrightarrow> cursor_inside r'"
proof (cases "\<exists>dx dy. ev = MouseMove dx dy")
  case False
  then show ?thesis
    using that [of r "Local ev"] ok by (cases ev) auto
next
  case True
  then obtain dx dy where ev: "ev = MouseMove dx dy" by blast
  obtain s where s: "screen_by_id (r_layout r) (r_current_screen r) = Some s"
      "scr_width s \<noteq> 0" "scr_height s \<noteq> 0"
    using ok by (rule router_ok_current_screen)
  let ?nx = "uint (r_cursor_x r) + sint dx" and ?ny = "uint (r_cursor_y r) + sint dy"
  have clamped: "router_ok (fst (clamp_to_edge ?nx ?ny (scr_width s) (scr_height s) why r1))
      \<and> cursor_inside (fst (clamp_to_edge ?nx ?ny (scr_width s) (scr_height s) why r1))"
    if "r_layout r1 = r_layout r" "r_local_screen r1 = r_local_screen r"
      "r_current_screen r1 = r_current_screen r" "r_active_remote r1 = r_active_remote r" "push_ok r1"
    for why r1
  proof
    show "router_ok (fst (clamp_to_edge ?nx ?ny (scr_width s) (scr_height s) why r1))"
      by (rule router_ok_frame [OF ok]) (use that in \<open>simp_all add: push_ok_def\<close>)
    show "cursor_inside (fst (clamp_to_edge ?nx ?ny (scr_width s) (scr_height s) why r1))"
      using that s clamp_to_edge_inside [OF s(2,3), of ?nx ?ny why r1] by (simp add: cursor_inside_def)
  qed
  show ?thesis
  proof (cases "edge_for_overflow ?nx ?ny (scr_width s) (scr_height s)")
    case None
    let ?r' = "local_inside s ?nx ?ny r"
    have "router_ok ?r'"
      by (rule router_ok_frame [OF ok]) (simp_all add: local_inside_push)
    moreover have "cursor_inside ?r'"
      using None s by (simp add: cursor_inside_def step_inside)
    ultimately show ?thesis
      using that [of ?r' "Local ev"] s None ev by (simp add: Let_def)
  next
    case (Some e)
    show ?thesis
      using ok s(1) Some overflow_px_bound
    proof (cases rule: local_overflow_cases [where now = now])
      case (gated why)
      then show ?thesis
        using that [of "fst (clamp_to_edge ?nx ?ny (scr_width s) (scr_height s) why (clear_push r))"
            "snd (clamp_to_edge ?nx ?ny (scr_width s) (scr_height s) why (clear_push r))"]
          clamped [of "clear_push r" why] s Some ev
        by (simp add: Let_def push_ok_cleared)
    next
      case (budget r1)
      then show ?thesis
        using that [of "fst (clamp_to_edge ?nx ?ny (scr_width s) (scr_height s) PushBudget r1)"
            "snd (clamp_to_edge ?nx ?ny (scr_width s) (scr_height s) PushBudget r1)"]
          clamped [of r1 PushBudget] s Some ev
        by (simp add: Let_def)
    next
      case (cross r1 target)
      have tgt: "target \<noteq> r_current_screen r" "target \<in> set (screen_ids (r_layout r))"
        using cross(4) crossing_target_not_self crossing_target_in_layout router_okD(1) [OF ok]
        by (auto simp: crossing_target_def)
      then obtain t where t: "screen_by_id (r_layout r1) target = Some t"
          "scr_width t \<noteq> 0" "scr_height t \<noteq> 0"
        using screen_by_id_ex screen_by_id_dims [OF router_okD(1) [OF ok]] cross(2) by fastforce
      obtain r' x y where h: "commit_handoff now s e target
            (overflow_px e ?nx ?ny (scr_width s) (scr_height s)) r1 =
          Some (r', Handoff (r_current_screen r1) target e x y
            (handoff_remainder e (overflow_px e ?nx ?ny (scr_width s) (scr_height s))))"
          "(x, y) = entry_target_coords (opposite (entry_for_exit (r_double_style r1) e)) t
            (map_coordinate (along e (r_cursor_x r1) (r_cursor_y r1)) (along_span e s) (along_span e t))"
          "r_layout r' = r_layout r1" "r_local_screen r' = r_local_screen r1"
          "r_current_screen r' = target" "r_active_remote r' = Some target"
          "r_cursor_x r' = x" "r_cursor_y r' = y" "r_push_edge r' = None" "r_push_accum r' = 0"
        by (rule commit_handoff_Some [OF t(1)])
      have "router_ok r'"
        by (rule router_ok_drive [OF ok, where t = target])
          (use h tgt act ok cross(2) in \<open>auto simp: router_ok_def push_ok_def\<close>)
      moreover have "cursor_inside r'" if "aligned (r_double_style r) e"
        using entry_landing_inside [OF _ t(2,3) h(2)] that h t cross(2) by (simp add: cursor_inside_def)
      ultimately show ?thesis
        using that [of r' "Handoff (r_current_screen r1) target e x y
            (handoff_remainder e (overflow_px e ?nx ?ny (scr_width s) (scr_height s)))"]
          h(1) cross(4,5) s Some ev by (simp add: Let_def)
    qed
  qed
qed

lemma route_ok:
  assumes "router_ok r"
  obtains r' ev' where "route now ev r = Some (r', ev')" "router_ok r'"
    "cursor_inside r \<Longrightarrow>
      (\<And>e. crossing_target r (r_current_screen r) e \<noteq> None \<Longrightarrow> aligned (r_double_style r) e)
      \<Longrightarrow> cursor_inside r'"
proof (cases "r_active_remote r")
  case None
  show ?thesis
    using assms None by (rule route_local_ok) (use that None in \<open>auto simp: route_def\<close>)
next
  case (Some target)
  show ?thesis
    using assms Some by (rule route_remote_ok) (use that Some in \<open>auto simp: route_def\<close>)
qed

end
