(* ===== verification/RouterRuns.thy ===== *)
theory RouterRuns
  imports RouteSafety
begin

text \<open>
  Sequences of calls. \<open>router_call\<close> names every state-changing method of the router,
  \<open>router_step\<close> runs one, with \<open>None\<close> for a panic, and the two interpretations of
  \<open>event_machine\<close> carry the invariants of \<open>RouterSafety\<close> to every sequence.
\<close>

section \<open>Settings\<close>

text \<open>What only the setters and the arrangement methods write.\<close>

definition settings ::
  "edge_router \<Rightarrow> layout \<times> screen_id \<times> edge_mode \<times> double_edge_style \<times> duration \<times> duration \<times> bool" where
  "settings r = (r_layout r, r_local_screen r, r_edge_mode r, r_double_style r, r_return_hold r,
     r_handoff_grace r, r_locked r)"

lemma settings_remote_clamp: "remote_clamp s nx ny r = Some r' \<Longrightarrow> settings r' = settings r"
  by (auto simp: remote_clamp_def settings_def split: Option.bind_splits)

lemma settings_return_home: "return_home now t e r = (r', ev) \<Longrightarrow> settings r' = settings r"
  by (auto simp: return_home_def restore_local_at_edge_def Let_def settings_def
      split: sum.splits option.splits prod.splits if_splits)

lemma settings_note_return_run [simp]: "settings (note_return_run now e v r) = settings r"
  by (simp add: note_return_run_def Let_def settings_def)

lemma settings_remote_inside [simp]: "settings (remote_inside s nx ny r) = settings r"
  by (simp add: remote_inside_def Let_def settings_def split: option.splits)

lemma settings_remote_overflow:
  "remote_overflow now t ev s e nx ny r = Some (r', ev') \<Longrightarrow> settings r' = settings r"
  by (auto simp: remote_overflow_def Let_def split: if_splits
      dest!: settings_remote_clamp settings_return_home) (simp_all add: settings_def)

lemma settings_local [simp]:
  "settings (local_inside s nx ny r) = settings r"
  "settings (clear_push r) = settings r"
  "settings (note_push s e v r) = settings r"
  "settings (fst (clamp_to_edge nx ny w h why r)) = settings r"
  by (simp_all add: local_inside_def clear_push_def note_push_def clamp_to_edge_def Let_def settings_def
      split: option.splits)

lemma settings_commit_handoff:
  "commit_handoff now s e t ov r = Some (r', ev) \<Longrightarrow> settings r' = settings r"
  by (auto simp: commit_handoff_def Let_def settings_def split: option.splits prod.splits if_splits)

lemma settings_local_overflow:
  "local_overflow now s e nx ny r = Some (r', ev) \<Longrightarrow> settings r' = settings r"
  by (auto simp: local_overflow_def Let_def split: option.splits if_splits
      dest!: settings_commit_handoff)
   (metis fst_conv settings_local(2,3,4))+

lemma settings_route: "route now ev r = Some (r', ev') \<Longrightarrow> settings r' = settings r"
proof -
  assume "route now ev r = Some (r', ev')"
  then show ?thesis
    by (cases ev; cases "r_active_remote r")
      (auto simp: route_def Let_def split: option.splits
        dest: settings_remote_overflow settings_local_overflow)
qed

section \<open>Every call\<close>

text \<open>The methods the service calls on a router. A method that fails leaves it as it was.\<close>

datatype router_call =
    Route instant input_event
  | SetLayout layout
  | SeedPosition u32 u32 bool
  | Resync u32 u32
  | AdoptLocal u32 u32
  | AdoptPeer string u32 u32
  | ReturnToLocal screen_id u32 u32
  | RestoreAtEdge instant screen_id edge
  | Restore screen_id
  | HandoffTo instant screen_id u32 u32
  | SetLocked bool
  | SetEdgeMode edge_mode
  | SetDoubleStyle double_edge_style
  | SetReturnHold duration
  | SetHandoffGrace duration

definition kept :: "edge_router \<Rightarrow> router_error + edge_router \<Rightarrow> edge_router" where
  "kept r res = (case res of Inl _ \<Rightarrow> r | Inr r' \<Rightarrow> r')"

definition kept_at :: "edge_router \<Rightarrow> router_error + (edge_router \<times> 'a) \<Rightarrow> edge_router" where
  "kept_at r res = (case res of Inl _ \<Rightarrow> r | Inr (r', _) \<Rightarrow> r')"

fun router_op :: "router_call \<Rightarrow> edge_router \<Rightarrow> edge_router option" where
  "router_op (Route now ev) r = map_option fst (route now ev r)"
| "router_op (SetLayout l) r = Some (kept r (set_layout l r))"
| "router_op (SeedPosition x y g) r = Some (kept r (seed_position x y g r))"
| "router_op (Resync x y) r = Some (resync_if_local x y r)"
| "router_op (AdoptLocal w h) r = map_option fst (adopt_local_screen_size w h r)"
| "router_op (AdoptPeer fp w h) r = map_option fst (adopt_peer_screen_size fp w h r)"
| "router_op (ReturnToLocal from x y) r = Some (kept r (return_to_local from x y r))"
| "router_op (RestoreAtEdge now from e) r = Some (kept_at r (restore_local_at_edge now from e r))"
| "router_op (Restore from) r = Some (kept_at r (restore_local from r))"
| "router_op (HandoffTo now t x y) r = Some (kept_at r (handoff_to now t x y r))"
| "router_op (SetLocked b) r = Some (set_locked b r)"
| "router_op (SetEdgeMode m) r = Some (set_edge_mode m r)"
| "router_op (SetDoubleStyle s) r = Some (set_double_style s r)"
| "router_op (SetReturnHold d) r = Some (set_return_hold d r)"
| "router_op (SetHandoffGrace d) r = Some (set_handoff_grace d r)"

text \<open>\<open>None\<close> is a panic, and stays one.\<close>

definition router_step :: "router_call \<Rightarrow> edge_router option \<Rightarrow> edge_router option" where
  "router_step op s = Option.bind s (router_op op)"

lemmas setter_defs = set_locked_def set_edge_mode_def set_double_style_def set_return_hold_def
  set_handoff_grace_def

lemma router_ok_setters [simp]:
  "router_ok (set_locked b r) = router_ok r"
  "router_ok (set_edge_mode m r) = router_ok r"
  "router_ok (set_double_style s r) = router_ok r"
  "router_ok (set_return_hold d r) = router_ok r"
  "router_ok (set_handoff_grace d r) = router_ok r"
  by (simp_all add: setter_defs router_ok_def push_ok_def split: option.splits)

lemma cursor_inside_setters [simp]:
  "cursor_inside (set_locked b r) = cursor_inside r"
  "cursor_inside (set_edge_mode m r) = cursor_inside r"
  "cursor_inside (set_double_style s r) = cursor_inside r"
  "cursor_inside (set_return_hold d r) = cursor_inside r"
  "cursor_inside (set_handoff_grace d r) = cursor_inside r"
  by (simp_all add: setter_defs cursor_inside_def split: option.splits)

lemma style_setters [simp]:
  "r_double_style (set_locked b r) = r_double_style r"
  "r_double_style (set_edge_mode m r) = r_double_style r"
  "r_double_style (set_double_style s r) = s"
  "r_double_style (set_return_hold d r) = r_double_style r"
  "r_double_style (set_handoff_grace d r) = r_double_style r"
  by (simp_all add: setter_defs)

lemma kept_cases:
  "(\<And>r'. res = Inr r' \<Longrightarrow> P r') \<Longrightarrow> P r \<Longrightarrow> P (kept r res)"
  "(\<And>r' v. res' = Inr (r', v) \<Longrightarrow> P r') \<Longrightarrow> P r \<Longrightarrow> P (kept_at r res')"
  by (auto simp: kept_def kept_at_def split: sum.splits prod.splits)

lemma router_op_ok:
  assumes ok: "router_ok r"
  shows "\<exists>r'. router_op op r = Some r' \<and> router_ok r'"
proof (cases op)
  case (Route now ev)
  obtain r' ev' where "route now ev r = Some (r', ev')" "router_ok r'"
    using ok by (rule route_ok)
  with Route show ?thesis by simp
next
  case (AdoptLocal w h)
  obtain r' a where "adopt_local_screen_size w h r = Some (r', a)" "router_ok r'"
    using ok by (rule adopt_local_ok)
  with AdoptLocal show ?thesis by simp
next
  case (AdoptPeer fp w h)
  obtain r' a where "adopt_peer_screen_size fp w h r = Some (r', a)" "router_ok r'"
    using ok by (rule adopt_peer_ok)
  with AdoptPeer show ?thesis by simp
qed (use ok in \<open>auto intro!: kept_cases [where P = router_ok] resync_if_local_ok
      dest: set_layout_Inr seed_position_Inr return_to_local_ok restore_local_at_edge_ok
        restore_local_ok handoff_to_ok\<close>)

text \<open>The cursor stays on the screen as long as the entry style is Mirror.\<close>

definition tracked :: "edge_router \<Rightarrow> bool" where
  "tracked r \<longleftrightarrow> router_ok r \<and> cursor_inside r \<and> r_double_style r = Mirror"

fun mirror_op :: "router_call \<Rightarrow> bool" where
  "mirror_op (SetDoubleStyle s) = (s = Mirror)"
| "mirror_op op = True"

lemma aligned_mirror [simp]: "aligned Mirror e"
  by (simp add: aligned_def)

lemma settings_style: "settings r' = settings r \<Longrightarrow> r_double_style r' = r_double_style r"
  by (simp add: settings_def)

lemma style_kept:
  "set_layout l r = Inr r' \<Longrightarrow> r_double_style r' = r_double_style r"
  "seed_position x y g r = Inr r' \<Longrightarrow> r_double_style r' = r_double_style r"
  "return_to_local from x y r = Inr r' \<Longrightarrow> r_double_style r' = r_double_style r"
  "restore_local_at_edge now from e r = Inr (r', v) \<Longrightarrow> r_double_style r' = r_double_style r"
  "restore_local from r = Inr (r', v) \<Longrightarrow> r_double_style r' = r_double_style r"
  "handoff_to now t x y r = Inr (r', b) \<Longrightarrow> r_double_style r' = r_double_style r"
  by (auto simp: set_layout_def seed_position_def return_to_local_def restore_local_at_edge_def
      restore_local_def handoff_to_def Let_def split: sum.splits option.splits if_splits prod.splits)

lemma style_sizes:
  "adopt_local_screen_size w h r = Some (r', a) \<Longrightarrow> r_double_style r' = r_double_style r"
  "adopt_peer_screen_size fp w h r = Some (r', a) \<Longrightarrow> r_double_style r' = r_double_style r"
  "r_double_style (resync_if_local x y r) = r_double_style r"
  by (auto simp: adopt_local_screen_size_def adopt_peer_screen_size_def resync_if_local_def
      correct_push_run_def Let_def split: option.splits if_splits prod.splits)

lemma route_mirror:
  assumes ok: "router_ok r" and ins: "cursor_inside r" and m: "r_double_style r = Mirror"
  shows "\<exists>r' ev'. route now ev r = Some (r', ev') \<and> router_ok r' \<and> cursor_inside r'"
proof (rule route_ok [OF ok])
  fix r' ev'
  assume r': "route now ev r = Some (r', ev')" "router_ok r'"
    and inside: "cursor_inside r \<Longrightarrow>
      (\<And>e. crossing_target r (r_current_screen r) e \<noteq> None \<Longrightarrow> aligned (r_double_style r) e)
      \<Longrightarrow> cursor_inside r'"
  have "cursor_inside r'"
    by (rule inside [OF ins]) (simp add: m)
  with r' show ?thesis by blast
qed

lemma router_op_tracked:
  assumes t: "tracked r" and "mirror_op op"
  shows "\<exists>r'. router_op op r = Some r' \<and> tracked r'"
proof -
  have ok: "router_ok r" and ins: "cursor_inside r" and m: "r_double_style r = Mirror"
    using t by (auto simp: tracked_def)
  show ?thesis
  proof (cases op)
    case (Route now ev)
    obtain r' ev' where "route now ev r = Some (r', ev')" "router_ok r'" "cursor_inside r'"
      using route_mirror [OF ok ins m] by blast
    with Route ins m show ?thesis
      by (simp add: tracked_def settings_style [OF settings_route])
  next
    case (AdoptLocal w h)
    obtain r' a where "adopt_local_screen_size w h r = Some (r', a)" "router_ok r'" "cursor_inside r'"
      using adopt_local_ok [OF ok, of w h] ins by metis
    with AdoptLocal ins m show ?thesis by (simp add: tracked_def style_sizes)
  next
    case (AdoptPeer fp w h)
    obtain r' a where "adopt_peer_screen_size fp w h r = Some (r', a)" "router_ok r'" "cursor_inside r'"
      using adopt_peer_ok [OF ok, of fp w h] ins by metis
    with AdoptPeer ins m show ?thesis by (simp add: tracked_def style_sizes)
  qed (use t ok ins m assms(2) in \<open>auto simp: tracked_def kept_def kept_at_def
        resync_if_local_ok resync_if_local_inside style_sizes style_kept split: sum.splits prod.splits
        dest: set_layout_Inr seed_position_Inr return_to_local_ok restore_local_at_edge_ok
          restore_local_ok handoff_to_ok\<close>)
qed

section \<open>Every sequence of calls\<close>

definition live :: "(edge_router \<Rightarrow> bool) \<Rightarrow> edge_router option \<Rightarrow> bool" where
  "live P s = (case s of None \<Rightarrow> False | Some r \<Rightarrow> P r)"

lemma live_Some [simp]: "live P (Some r) = P r"
  by (simp add: live_def)

lemma liveE: "live P s \<Longrightarrow> (\<And>r. s = Some r \<Longrightarrow> P r \<Longrightarrow> thesis) \<Longrightarrow> thesis"
  by (cases s) (auto simp: live_def)

lemma router_op_live: "router_ok r \<Longrightarrow> live router_ok (router_op c r)"
  using router_op_ok [of r c] by auto

lemma router_op_tracked_live: "tracked r \<Longrightarrow> mirror_op c \<Longrightarrow> live tracked (router_op c r)"
  using router_op_tracked [of r c] by auto

interpretation router_run: event_machine router_step "live router_ok" "\<lambda>_. True"
  by unfold_locales (auto simp: router_step_def router_op_live elim!: liveE)

interpretation tracked_run: event_machine router_step "live tracked" mirror_op
  by unfold_locales (auto simp: router_step_def router_op_tracked_live elim!: liveE)

text \<open>
  C1: the router never panics. From the router the service builds on an accepted
  arrangement, every sequence of method calls (events routed at any times, arrangement
  changes, size adoptions, seeds, re-pins, returns, forced handoffs, settings) runs to an
  end, and leaves a valid arrangement, a local and a current screen that exist, a driven
  screen exactly when it is the current one and not the local one, and a push run that has
  not reached the crossing threshold.
\<close>

theorem router_never_panics:
  assumes "router_new l = Inr r0"
  shows "\<exists>r. fold router_step ops (Some r0) = Some r
    \<and> validate (r_layout r) = Inr ()
    \<and> screen_by_id (r_layout r) (r_local_screen r) \<noteq> None
    \<and> screen_by_id (r_layout r) (r_current_screen r) \<noteq> None
    \<and> r_active_remote r = (if r_current_screen r = r_local_screen r then None
                           else Some (r_current_screen r))
    \<and> 0 \<le> r_push_accum r \<and> r_push_accum r < EDGE_PUSH_PX"
proof -
  have "live router_ok (fold router_step ops (Some r0))"
    using router_new_ok [OF assms] by (intro router_run.run_inv) (simp_all add: list_all_iff)
  then obtain r where r: "fold router_step ops (Some r0) = Some r" and ok: "router_ok r"
    by (rule liveE)
  obtain s t where s: "screen_by_id (r_layout r) (r_local_screen r) = Some s"
      "screen_by_id (r_layout r) (r_current_screen r) = Some t"
    using router_ok_local_screen [OF ok] router_ok_current_screen [OF ok] by metis
  have "r_active_remote r = (if r_current_screen r = r_local_screen r then None
      else Some (r_current_screen r))"
    by (rule router_ok_cases [OF ok]) simp_all
  then show ?thesis
    using r s router_okD(1,3) [OF ok] by (simp add: validate_iff push_ok_def)
qed

lemma desk_pair_router: "\<exists>r0. router_new desk_pair = Inr r0"
proof -
  have "(case router_new desk_pair of Inl _ \<Rightarrow> False | Inr _ \<Rightarrow> True)" by code_simp
  then show ?thesis by (auto split: sum.splits)
qed

lemma router_never_panics_witness:
  "\<exists>r0 r. router_new desk_pair = Inr r0
     \<and> fold router_step [Route 0 (MouseMove 950 0), Route 1 (MouseMove 40 7)] (Some r0) = Some r
     \<and> screen_by_id (r_layout r) (r_current_screen r) \<noteq> None"
  using desk_pair_router router_never_panics by blast

text \<open>
  C3: the tracked cursor never leaves the screen it is on. As long as the entry style stays
  Mirror (the default), after every sequence of method calls the cursor of the router lies
  inside the current screen, local or driven.
\<close>

theorem cursor_stays_on_screen:
  assumes "router_new l = Inr r0" and "list_all mirror_op ops"
  shows "\<exists>r s. fold router_step ops (Some r0) = Some r
    \<and> screen_by_id (r_layout r) (r_current_screen r) = Some s
    \<and> r_cursor_x r < scr_width s \<and> r_cursor_y r < scr_height s"
proof -
  have "r_double_style r0 = Mirror"
    using assms(1) by (auto simp: router_new_def split: sum.splits option.splits list.splits)
  then have "live tracked (fold router_step ops (Some r0))"
    using router_new_ok [OF assms(1)] assms(2)
    by (intro tracked_run.run_inv) (simp_all add: tracked_def)
  then obtain r where "fold router_step ops (Some r0) = Some r" "tracked r"
    by (rule liveE)
  then show ?thesis
    by (auto simp: tracked_def cursor_inside_def split: option.splits)
qed

lemma cursor_stays_on_screen_witness:
  "\<exists>r0 r s. router_new desk_pair = Inr r0
     \<and> fold router_step [Route 0 (MouseMove 950 0), Route 1 (MouseMove 40 7), SetDoubleStyle Mirror]
         (Some r0) = Some r
     \<and> screen_by_id (r_layout r) (r_current_screen r) = Some s \<and> r_cursor_x r < scr_width s"
  using desk_pair_router cursor_stays_on_screen
    [of desk_pair _ "[Route 0 (MouseMove 950 0), Route 1 (MouseMove 40 7), SetDoubleStyle Mirror]"]
  by fastforce

end
