(* ===== verification/RouterOutcomes.thy ===== *)
theory RouterOutcomes
  imports RouterRuns
begin

text \<open>
  What each outcome of \<open>route\<close> says of the call that gave it: \<open>route_handoffE\<close> for a crossing,
  \<open>route_return_homeE\<close> for a return. The properties of \<open>Crossings\<close> and \<open>Returns\<close> start from
  these two rules.
\<close>

section \<open>What each outcome says of the call\<close>

lemma router_ok_current:
  "router_ok r \<Longrightarrow> r_current_screen r = (case r_active_remote r of None \<Rightarrow> r_local_screen r | Some t \<Rightarrow> t)"
  by (simp add: router_ok_def split: option.splits)

lemma route_remote_not_handoff:
  assumes ok: "router_ok r" and act: "r_active_remote r = Some target"
    and "route now ev r = Some (r', out)"
  shows "out = Forward target ev
    \<or> (\<exists>e. out = ReturnHome target e (r_entry_edge r) (r_return_armed r))"
proof -
  have cur: "r_current_screen r = target"
    using router_ok_current [OF ok] act by simp
  obtain s where s: "screen_by_id (r_layout r) (r_current_screen r) = Some s"
    using ok by (rule router_ok_current_screen)
  show ?thesis
  proof (cases "\<exists>dx dy. ev = MouseMove dx dy")
    case False
    then show ?thesis using assms by (cases ev) (auto simp: route_def)
  next
    case True
    then obtain dx dy where ev: "ev = MouseMove dx dy" by blast
    let ?nx = "uint (r_cursor_x r) + sint dx" and ?ny = "uint (r_cursor_y r) + sint dy"
    show ?thesis
    proof (cases "edge_for_overflow ?nx ?ny (scr_width s) (scr_height s)")
      case None
      then show ?thesis using assms s ev by (auto simp: route_def Let_def)
    next
      case (Some e)
      show ?thesis
        using ok act s
      proof (cases rule: remote_overflow_cases [where now = now and ev = ev and e = e and nx = ?nx and ny = ?ny])
        case (stay r1 cx cy)
        then show ?thesis using assms(2,3) s ev Some by (auto simp: route_def Let_def)
      next
        case (home r1)
        then have "return_home now target e r1 = (r', out)"
          using assms(2,3) s ev Some by (auto simp: route_def Let_def)
        from return_home_ok [OF home(2) this home(3)] home cur show ?thesis by simp
      qed
    qed
  qed
qed

lemma clamp_to_edge_out: "\<exists>dx dy. snd (clamp_to_edge nx ny w h why r) = Local (MouseMove dx dy)"
  by (simp add: clamp_to_edge_def Let_def)

text \<open>Everything a handoff rests on.\<close>

lemma route_handoffE:
  assumes ok: "router_ok r" and h: "route now ev r = Some (r', Handoff from target e x y rest)"
  obtains dx dy s t ov where
    "ev = MouseMove dx dy" "r_active_remote r = None"
    "from = r_local_screen r" "from = r_current_screen r"
    "screen_by_id (r_layout r) from = Some s"
    "edge_for_overflow (uint (r_cursor_x r) + sint dx) (uint (r_cursor_y r) + sint dy)
       (scr_width s) (scr_height s) = Some e"
    "ov = overflow_px e (uint (r_cursor_x r) + sint dx) (uint (r_cursor_y r) + sint dy)
       (scr_width s) (scr_height s)" "0 < ov" "ov < 17179869184"
    "gate_reason now e r = None" "crossing_target r from e = Some target"
    "EDGE_PUSH_PX \<le> r_push_accum (note_push s e ov r)"
    "screen_by_id (r_layout r) target = Some t" "rest = handoff_remainder e ov"
    "(x, y) = entry_target_coords (opposite (entry_for_exit (r_double_style r) e)) t
       (map_coordinate (along e (r_cursor_x r) (r_cursor_y r)) (along_span e s) (along_span e t))"
    "r_layout r' = r_layout r" "r_active_remote r' = Some target" "r_current_screen r' = target"
    "r_cursor_x r' = x" "r_cursor_y r' = y"
    "r_entry_edge r' = Some (entry_for_exit (r_double_style r) e)" "\<not> r_return_armed r'"
    "r_handoff_at r' = Some now"
proof -
  have act: "r_active_remote r = None"
    using route_remote_not_handoff [OF ok _ h] by fastforce
  then have cur: "r_current_screen r = r_local_screen r"
    using router_ok_current [OF ok] act by simp
  obtain s where s: "screen_by_id (r_layout r) (r_current_screen r) = Some s"
      "scr_width s \<noteq> 0" "scr_height s \<noteq> 0"
    using ok by (rule router_ok_current_screen)
  obtain dx dy where ev: "ev = MouseMove dx dy"
    using h act by (cases ev) (auto simp: route_def)
  let ?nx = "uint (r_cursor_x r) + sint dx" and ?ny = "uint (r_cursor_y r) + sint dy"
  obtain e' where e': "edge_for_overflow ?nx ?ny (scr_width s) (scr_height s) = Some e'"
    using h act s ev by (cases "edge_for_overflow ?nx ?ny (scr_width s) (scr_height s)")
      (auto simp: route_def Let_def)
  have lo: "local_overflow now s e' ?nx ?ny r = Some (r', Handoff from target e x y rest)"
    using h act s ev e' by (simp add: route_def Let_def)
  let ?ov = "overflow_px e' ?nx ?ny (scr_width s) (scr_height s)"
  show ?thesis
    using ok s(1) e' overflow_px_bound
  proof (cases rule: local_overflow_cases [where now = now])
    case (gated why)
    with lo show ?thesis
      using clamp_to_edge_out [of ?nx ?ny "scr_width s" "scr_height s" why "clear_push r"]
      by (metis option.inject routed_event.distinct(3) snd_conv)
  next
    case (budget r1)
    with lo show ?thesis
      using clamp_to_edge_out [of ?nx ?ny "scr_width s" "scr_height s" PushBudget r1]
      by (metis option.inject routed_event.distinct(3) snd_conv)
  next
    case (cross r1 target')
    obtain t where t: "screen_by_id (r_layout r1) target' = Some t"
      using crossing_target_ex [OF cross(4) [unfolded crossing_target_def]] cross(2) by auto
    obtain r'' x' y' where c: "commit_handoff now s e' target' ?ov r1 =
          Some (r'', Handoff (r_current_screen r1) target' e' x' y' (handoff_remainder e' ?ov))"
        "(x', y') = entry_target_coords (opposite (entry_for_exit (r_double_style r1) e')) t
          (map_coordinate (along e' (r_cursor_x r1) (r_cursor_y r1)) (along_span e' s) (along_span e' t))"
        "r_layout r'' = r_layout r1" "r_current_screen r'' = target'" "r_active_remote r'' = Some target'"
        "r_cursor_x r'' = x'" "r_cursor_y r'' = y'"
        "r_entry_edge r'' = Some (entry_for_exit (r_double_style r1) e')"
        "r_return_armed r'' = False" "r_handoff_at r'' = Some now"
      by (rule commit_handoff_Some [OF t])
    have eqs: "r'' = r'" "r_current_screen r1 = from" "target' = target" "e' = e" "x' = x" "y' = y"
        "handoff_remainder e' ?ov = rest"
      using lo cross(5) c(1) by auto
    have r1: "r_layout r1 = r_layout r" "r_current_screen r1 = r_current_screen r"
        "r_cursor_x r1 = r_cursor_x r" "r_cursor_y r1 = r_cursor_y r"
        "r_double_style r1 = r_double_style r"
      using cross(2) by simp_all
    show ?thesis
      by (rule that [of dx dy s ?ov t])
        (use ev act cur s e' eqs r1 c cross t overflow_px_pos [OF e' s(2,3)] overflow_px_bound
          in \<open>simp_all\<close>)
  qed
qed

text \<open>The push a return takes: past the entry edge before the drive has settled, 64 pixels in
  total; elsewhere a run of 20 (64 before settling) held as long as the hold setting asks.\<close>

definition return_pressed ::
  "instant \<Rightarrow> screen \<Rightarrow> edge \<Rightarrow> int \<Rightarrow> int \<Rightarrow> edge_router \<Rightarrow> bool" where
  "return_pressed now s e nx ny r \<longleftrightarrow>
     (let depth = max (remote_overflow_px e nx ny s) 0
      in if r_entry_edge r = Some e \<and> \<not> r_return_armed r
         then RETURN_PUSH_PX \<le> i64_add (r_return_accum r) depth
         else return_fires now (note_return_run now e depth r))"

lemma remote_overflow_pressed:
  "remote_overflow now t ev s e nx ny r = Some (r', ReturnHome f e' en ar) \<Longrightarrow>
   return_pressed now s e nx ny r"
  by (auto simp: remote_overflow_def return_pressed_def Let_def split: if_splits)

text \<open>Everything a return rests on, and where it lands.\<close>

lemma route_return_homeE:
  assumes ok: "router_ok r" and h: "route now ev r = Some (r', ReturnHome from e entry armed)"
  obtains dx dy r1 where "ev = MouseMove dx dy" "r_active_remote r = Some from"
    "from = r_current_screen r" "faces_home r from e" "\<not> in_handoff_grace now r"
    "router_ok r1" "r_active_remote r1 = Some from"
    "return_home now from e r1 = (r', ReturnHome from e entry armed)"
    "r_cursor_x r1 = r_cursor_x r" "r_cursor_y r1 = r_cursor_y r"
    "entry = r_entry_edge r" "armed = r_return_armed r"
    "\<exists>s. screen_by_id (r_layout r) from = Some s
       \<and> edge_for_overflow (uint (r_cursor_x r) + sint dx) (uint (r_cursor_y r) + sint dy)
           (scr_width s) (scr_height s) = Some e
       \<and> return_pressed now s e (uint (r_cursor_x r) + sint dx) (uint (r_cursor_y r) + sint dy) r"
proof (cases "r_active_remote r")
  case None
  have cur: "r_current_screen r = r_local_screen r"
    using router_ok_current [OF ok] None by simp
  obtain s where s: "screen_by_id (r_layout r) (r_current_screen r) = Some s"
    using ok by (rule router_ok_current_screen)
  obtain dx dy where ev: "ev = MouseMove dx dy"
    using h None by (cases ev) (auto simp: route_def)
  let ?nx = "uint (r_cursor_x r) + sint dx" and ?ny = "uint (r_cursor_y r) + sint dy"
  obtain e' where e': "edge_for_overflow ?nx ?ny (scr_width s) (scr_height s) = Some e'"
    using h None s ev by (cases "edge_for_overflow ?nx ?ny (scr_width s) (scr_height s)")
      (auto simp: route_def Let_def)
  have lo: "local_overflow now s e' ?nx ?ny r = Some (r', ReturnHome from e entry armed)"
    using h None s ev e' by (simp add: route_def Let_def)
  show ?thesis
    using ok s e' overflow_px_bound
  proof (cases rule: local_overflow_cases [where now = now])
    case (gated why)
    with lo show ?thesis
      using clamp_to_edge_out [of ?nx ?ny "scr_width s" "scr_height s" why "clear_push r"]
      by (metis option.inject routed_event.distinct(5) snd_conv)
  next
    case (budget r1)
    with lo show ?thesis
      using clamp_to_edge_out [of ?nx ?ny "scr_width s" "scr_height s" PushBudget r1]
      by (metis option.inject routed_event.distinct(5) snd_conv)
  next
    case (cross r1 target')
    then show ?thesis
      using lo by (auto simp: commit_handoff_def Let_def split: option.splits prod.splits)
  qed
next
  case (Some target)
  have cur: "r_current_screen r = target"
    using router_ok_current [OF ok] Some by simp
  obtain s where s: "screen_by_id (r_layout r) (r_current_screen r) = Some s"
    using ok by (rule router_ok_current_screen)
  obtain dx dy where ev: "ev = MouseMove dx dy"
    using h Some by (cases ev) (auto simp: route_def)
  let ?nx = "uint (r_cursor_x r) + sint dx" and ?ny = "uint (r_cursor_y r) + sint dy"
  obtain e' where e': "edge_for_overflow ?nx ?ny (scr_width s) (scr_height s) = Some e'"
    using h Some s ev by (cases "edge_for_overflow ?nx ?ny (scr_width s) (scr_height s)")
      (auto simp: route_def Let_def)
  have ro: "remote_overflow now target ev s e' ?nx ?ny r = Some (r', ReturnHome from e entry armed)"
    using h Some s ev e' by (simp add: route_def Let_def)
  show ?thesis
    using ok Some s
  proof (cases rule: remote_overflow_cases [where now = now and ev = ev and e = e' and nx = ?nx and ny = ?ny])
    case (stay r1 cx cy)
    with ro show ?thesis by simp
  next
    case (home r1)
    with ro have rh: "return_home now target e' r1 = (r', ReturnHome from e entry armed)" by simp
    then have eq: "from = r_current_screen r1" "e = e'" "entry = r_entry_edge r1" "armed = r_return_armed r1"
      by (simp_all add: return_home_def)
    show ?thesis
      by (rule that [of dx dy r1])
        (use ev Some cur home rh eq s e' remote_overflow_pressed [OF ro] in simp_all)
  qed
qed

end
