(* ===== verification/Crossings.thy ===== *)
theory Crossings
  imports RouterOutcomes
begin

text \<open>
  Crossings from this computer to another screen: what guards them, when exactly they happen
  (\<open>handoff_for_motion\<close>, the gates and the push run), and that a persistent push succeeds.
\<close>

section \<open>Crossings\<close>

text \<open>
  Nothing but motion moves control. A key, button or wheel event leaves the router's
  state as it is and goes where control is: to the driven screen, or to this computer.
\<close>

theorem only_motion_moves_control:
  "case ev of MouseMove dx dy \<Rightarrow> True
   | _ \<Rightarrow> route now ev r
       = Some (r, case r_active_remote r of None \<Rightarrow> Local ev | Some t \<Rightarrow> Forward t ev)"
  by (cases ev; cases "r_active_remote r") (simp_all add: route_def)

text \<open>
  C2: a crossing is guarded. When a step hands control to another screen, the router was
  unlocked, local, past its startup gate and not holding that edge after a return; the
  target is what the arrangement names for the edge the step overflows; and the push
  reached 8 pixels: either on top of an earlier push on the same edge, or at once from a
  cursor within 64 pixels of the edge. A single step from further inside never crosses.
\<close>

theorem crossing_is_guarded:
  assumes "router_ok r" and "route now ev r = Some (r', Handoff from target e x y rest)"
  shows "\<not> r_locked r \<and> \<not> r_startup_gate r \<and> r_active_remote r = None
    \<and> from = r_local_screen r \<and> target \<noteq> from
    \<and> crossing_target_for (r_layout r) from e (r_edge_mode r) = Some target
    \<and> \<not> (r_post_return_edge r = Some e \<and> post_return_holds now r)
    \<and> r_active_remote r' = Some target
    \<and> (\<exists>s dx dy depth. ev = MouseMove dx dy \<and> screen_by_id (r_layout r) from = Some s
        \<and> edge_overflow (scr_width s) (scr_height s) (r_cursor_x r) (r_cursor_y r) dx dy = Some (e, depth)
        \<and> (r_push_edge r = Some e \<and> 0 < r_push_accum r \<and> 8 \<le> r_push_accum r + depth
           \<or> 8 \<le> depth
             \<and> distance_from_edge e (r_cursor_x r) (r_cursor_y r) (scr_width s) (scr_height s) \<le> 64))"
proof -
  obtain dx dy s t ov where h: "ev = MouseMove dx dy" "r_active_remote r = None"
    "from = r_local_screen r" "from = r_current_screen r"
    "screen_by_id (r_layout r) from = Some s"
    "edge_for_overflow (uint (r_cursor_x r) + sint dx) (uint (r_cursor_y r) + sint dy)
       (scr_width s) (scr_height s) = Some e"
    "ov = overflow_px e (uint (r_cursor_x r) + sint dx) (uint (r_cursor_y r) + sint dy)
       (scr_width s) (scr_height s)" "0 < ov" "ov < 17179869184"
    "gate_reason now e r = None" "crossing_target r from e = Some target"
    "EDGE_PUSH_PX \<le> r_push_accum (note_push s e ov r)" "r_active_remote r' = Some target"
    by (rule route_handoffE [OF assms]) blast
  have p: "push_ok r" by (rule router_okD(3) [OF assms(1)])
  note acc = note_push_accum [OF p h(8,9), of s e]
  have push: "r_push_edge r = Some e \<and> 0 < r_push_accum r \<and> 8 \<le> r_push_accum r + ov
      \<or> 8 \<le> ov
        \<and> distance_from_edge e (r_cursor_x r) (r_cursor_y r) (scr_width s) (scr_height s) \<le> 64"
    using h(12) acc(1-3) p
    by (cases "r_push_edge r = Some e \<and> 0 < r_push_accum r")
      (auto simp: push_credit_def thresholds push_ok_def split: if_splits)
  have "edge_overflow (scr_width s) (scr_height s) (r_cursor_x r) (r_cursor_y r) dx dy = Some (e, ov)"
    using h(6,7) by (simp add: edge_overflow_eq)
  with h push crossing_target_not_self [OF router_okD(1) [OF assms(1)]] show ?thesis
    by (auto simp: gate_reason_def crossing_target_def split: if_splits)
qed

text \<open>Which steps cross, exactly: the stateless crossing, the gates, and the push run.\<close>

lemma route_crosses:
  assumes ok: "router_ok r" and act: "r_active_remote r = None"
    and s: "screen_by_id (r_layout r) (r_current_screen r) = Some s"
    and e: "edge_for_overflow (uint (r_cursor_x r) + sint dx) (uint (r_cursor_y r) + sint dy)
       (scr_width s) (scr_height s) = Some e"
    and ov: "ov = overflow_px e (uint (r_cursor_x r) + sint dx) (uint (r_cursor_y r) + sint dy)
       (scr_width s) (scr_height s)"
    and gates: "gate_reason now e r = None"
    and push: "EDGE_PUSH_PX \<le> r_push_accum (note_push s e ov r)"
  obtains r' target t x y where "crossing_target r (r_current_screen r) e = Some target"
    "route now (MouseMove dx dy) r
      = Some (r', Handoff (r_current_screen r) target e x y (handoff_remainder e ov))"
    "screen_by_id (r_layout r) target = Some t"
    "(x, y) = entry_target_coords (opposite (entry_for_exit (r_double_style r) e)) t
       (map_coordinate (along e (r_cursor_x r) (r_cursor_y r)) (along_span e s) (along_span e t))"
proof -
  let ?nx = "uint (r_cursor_x r) + sint dx" and ?ny = "uint (r_cursor_y r) + sint dy"
  show ?thesis
    using ok s e overflow_px_bound
  proof (cases rule: local_overflow_cases [where now = now])
    case (gated why)
    with gates show ?thesis by simp
  next
    case (budget r1)
    with push ov show ?thesis by simp
  next
    case (cross r1 target)
    have r1: "r_layout r1 = r_layout r" "r_current_screen r1 = r_current_screen r"
        "r_cursor_x r1 = r_cursor_x r" "r_cursor_y r1 = r_cursor_y r"
        "r_double_style r1 = r_double_style r"
      using cross(2) by simp_all
    obtain t where t: "screen_by_id (r_layout r1) target = Some t"
      using crossing_target_ex [OF cross(4) [unfolded crossing_target_def]] r1 by auto
    obtain r'' x y where c: "commit_handoff now s e target ov r1 =
          Some (r'', Handoff (r_current_screen r1) target e x y (handoff_remainder e ov))"
        "(x, y) = entry_target_coords (opposite (entry_for_exit (r_double_style r1) e)) t
          (map_coordinate (along e (r_cursor_x r1) (r_cursor_y r1)) (along_span e s) (along_span e t))"
      by (rule commit_handoff_Some [OF t])
    show ?thesis
      by (rule that [of target r'' x y t])
        (use cross c r1 t act s e ov in \<open>simp_all add: route_def Let_def\<close>)
  qed
qed

text \<open>The push run on an edge after a motion.\<close>

definition push_after :: "edge \<Rightarrow> i32 \<Rightarrow> i32 \<Rightarrow> edge_router \<Rightarrow> int" where
  "push_after e dx dy r =
     (case screen_by_id (r_layout r) (r_current_screen r) of
        None \<Rightarrow> 0
      | Some s \<Rightarrow> r_push_accum (note_push s e
          (overflow_px e (uint (r_cursor_x r) + sint dx) (uint (r_cursor_y r) + sint dy)
             (scr_width s) (scr_height s)) r))"

lemma min_pred_id: "x < w \<Longrightarrow> min x (w - 1) = (x :: u32)"
proof -
  assume x: "x < w"
  then have w: "w \<noteq> 0" by auto
  from x have "uint x < uint w" by (simp add: word_less_def)
  then show ?thesis
    by (simp add: word_uint_eq_iff uint_min uint_minus_1 [OF w])
qed

lemma handoff_for_motion_eq:
  assumes "screen_by_id l i = Some s" "x < scr_width s" "y < scr_height s"
    and "edge_for_overflow (uint x + sint dx) (uint y + sint dy) (scr_width s) (scr_height s) = Some e"
    and "crossing_target_for l i e mode = Some target" "screen_by_id l target = Some t"
    and "(tx, ty) = entry_target_coords (opposite (entry_for_exit style e)) t
       (map_coordinate (along e x y) (along_span e s) (along_span e t))"
  shows "handoff_for_motion l i x y dx dy mode style
    = Some \<lparr>eh_from = i, eh_target = target, eh_edge = e, eh_target_x = tx, eh_target_y = ty\<rparr>"
  using assms(1,4-6) assms(7) [symmetric] min_pred_id [OF assms(2)] min_pred_id [OF assms(3)]
  by (simp add: handoff_for_motion_def Let_def)

text \<open>
  C4: the router and the stateless crossing agree. For a local router whose cursor is on its
  screen, a motion hands over exactly when \<open>handoff_for_motion\<close> names a crossing from the
  cursor's position, no gate holds the edge, and the push run reaches 8 pixels; and then it
  hands over to the same screen, through the same edge, at the same position.
\<close>

theorem route_agrees_with_handoff_for_motion:
  assumes ok: "router_ok r" and inside: "cursor_inside r" and act: "r_active_remote r = None"
  shows "(\<exists>r' rest. route now (MouseMove dx dy) r = Some (r', Handoff from target e x y rest))
    \<longleftrightarrow> handoff_for_motion (r_layout r) (r_local_screen r) (r_cursor_x r) (r_cursor_y r) dx dy
          (r_edge_mode r) (r_double_style r)
        = Some \<lparr>eh_from = from, eh_target = target, eh_edge = e, eh_target_x = x, eh_target_y = y\<rparr>
      \<and> gate_reason now e r = None \<and> 8 \<le> push_after e dx dy r"
    (is "?L \<longleftrightarrow> ?R")
proof
  have cur: "r_current_screen r = r_local_screen r"
    using router_ok_current [OF ok] act by simp
  {
    assume ?L
    then obtain r' rest where
      "route now (MouseMove dx dy) r = Some (r', Handoff from target e x y rest)" by blast
    then obtain dx' dy' s t ov where h: "MouseMove dx dy = MouseMove dx' dy'"
      "from = r_local_screen r" "screen_by_id (r_layout r) from = Some s"
      "edge_for_overflow (uint (r_cursor_x r) + sint dx') (uint (r_cursor_y r) + sint dy')
         (scr_width s) (scr_height s) = Some e"
      "ov = overflow_px e (uint (r_cursor_x r) + sint dx') (uint (r_cursor_y r) + sint dy')
         (scr_width s) (scr_height s)"
      "gate_reason now e r = None" "crossing_target r from e = Some target"
      "EDGE_PUSH_PX \<le> r_push_accum (note_push s e ov r)"
      "screen_by_id (r_layout r) target = Some t"
      "(x, y) = entry_target_coords (opposite (entry_for_exit (r_double_style r) e)) t
         (map_coordinate (along e (r_cursor_x r) (r_cursor_y r)) (along_span e s) (along_span e t))"
      by (rule route_handoffE [OF ok]) blast
    have "r_cursor_x r < scr_width s" "r_cursor_y r < scr_height s"
      using inside h(2,3) cur by (auto simp: cursor_inside_def)
    note eq = handoff_for_motion_eq [OF h(3) this h(4) h(7) [unfolded crossing_target_def] h(9,10)]
    show ?R
      using eq h cur by (simp add: push_after_def thresholds)
  next
    assume R: ?R
    then obtain s t where h: "screen_by_id (r_layout r) (r_local_screen r) = Some s"
      "from = r_local_screen r"
      "edge_for_overflow (uint (min (r_cursor_x r) (scr_width s - 1)) + sint dx)
         (uint (min (r_cursor_y r) (scr_height s - 1)) + sint dy) (scr_width s) (scr_height s) = Some e"
      "crossing_target_for (r_layout r) (r_local_screen r) e (r_edge_mode r) = Some target"
      "screen_by_id (r_layout r) target = Some t"
      "(x, y) = entry_target_coords (opposite (entry_for_exit (r_double_style r) e)) t
         (map_coordinate (along e (min (r_cursor_x r) (scr_width s - 1)) (min (r_cursor_y r) (scr_height s - 1)))
           (along_span e s) (along_span e t))"
      by (auto elim!: handoff_for_motion_Some)
    have "r_cursor_x r < scr_width s" "r_cursor_y r < scr_height s"
      using inside h(1) cur by (auto simp: cursor_inside_def)
    note m = min_pred_id [OF this(1)] min_pred_id [OF this(2)]
    have s: "screen_by_id (r_layout r) (r_current_screen r) = Some s"
      using h(1) cur by simp
    have e: "edge_for_overflow (uint (r_cursor_x r) + sint dx) (uint (r_cursor_y r) + sint dy)
         (scr_width s) (scr_height s) = Some e"
      using h(3) m by simp
    have push: "EDGE_PUSH_PX \<le> r_push_accum (note_push s e
        (overflow_px e (uint (r_cursor_x r) + sint dx) (uint (r_cursor_y r) + sint dy)
             (scr_width s) (scr_height s)) r)"
      using R s by (simp add: push_after_def thresholds)
    obtain r' target' t' x' y' where c: "crossing_target r (r_current_screen r) e = Some target'"
      "route now (MouseMove dx dy) r
        = Some (r', Handoff (r_current_screen r) target' e x' y' (handoff_remainder e
           (overflow_px e (uint (r_cursor_x r) + sint dx) (uint (r_cursor_y r) + sint dy)
             (scr_width s) (scr_height s))))"
      "screen_by_id (r_layout r) target' = Some t'"
      "(x', y') = entry_target_coords (opposite (entry_for_exit (r_double_style r) e)) t'
         (map_coordinate (along e (r_cursor_x r) (r_cursor_y r)) (along_span e s) (along_span e t'))"
      using R by (elim conjE route_crosses [OF ok act s e refl _ push]) blast
    have "target' = target" "t' = t"
      using c(1,3) h(4,5) cur by (auto simp: crossing_target_def)
    moreover from this have "(x', y') = (x, y)"
      using c(4) h(6) m by simp
    ultimately show ?L
      using c(2) h(2) cur by auto
  }
qed

text \<open>A fresh router of an arrangement, its cursor placed.\<close>

definition router_at :: "layout \<Rightarrow> u32 \<Rightarrow> u32 \<Rightarrow> edge_router option" where
  "router_at l x y =
     (case router_new l of
        Inl _ \<Rightarrow> None
      | Inr r \<Rightarrow> (case place_local_cursor x y r of Inl _ \<Rightarrow> None | Inr r' \<Rightarrow> Some r'))"

lemma router_at_ok: "router_at l x y = Some r \<Longrightarrow> router_ok r \<and> cursor_inside r"
  by (auto simp: router_at_def place_local_cursor_def split: sum.splits
      dest: router_new_ok seed_position_Inr)

lemma desk_at_cross:
  "\<exists>r r'. router_at desk_pair 1919 500 = Some r \<and> r_active_remote r = None
     \<and> route 5 (MouseMove 40 0) r
       = Some (r', Handoff SELF_SCREEN_ID FIRST_PEER_SCREEN_ID Right 32 500 (MouseMove 40 0))"
proof -
  have "(case router_at desk_pair 1919 500 of None \<Rightarrow> False | Some r \<Rightarrow> r_active_remote r = None
      \<and> (case route 5 (MouseMove 40 0) r of
           Some (r', Handoff f t e x y rest) \<Rightarrow> f = SELF_SCREEN_ID \<and> t = FIRST_PEER_SCREEN_ID
             \<and> e = Right \<and> x = 32 \<and> y = 500 \<and> rest = MouseMove 40 0
         | _ \<Rightarrow> False))"
    by code_simp
  then show ?thesis
    by (auto split: option.splits prod.splits routed_event.splits)
qed

lemma crossing_is_guarded_witness:
  "\<exists>r r'. router_at desk_pair 1919 500 = Some r
     \<and> route 5 (MouseMove 40 0) r
       = Some (r', Handoff SELF_SCREEN_ID FIRST_PEER_SCREEN_ID Right 32 500 (MouseMove 40 0))
     \<and> \<not> r_locked r \<and> FIRST_PEER_SCREEN_ID \<noteq> SELF_SCREEN_ID"
  using desk_at_cross crossing_is_guarded router_at_ok by blast

lemma route_agrees_with_handoff_for_motion_witness:
  "\<exists>r. router_at desk_pair 1919 500 = Some r \<and> gate_reason 5 Right r = None
     \<and> handoff_for_motion (r_layout r) (r_local_screen r) (r_cursor_x r) (r_cursor_y r) 40 0
          (r_edge_mode r) (r_double_style r)
        = Some \<lparr>eh_from = SELF_SCREEN_ID, eh_target = FIRST_PEER_SCREEN_ID, eh_edge = Right,
            eh_target_x = 32, eh_target_y = 500\<rparr>"
proof -
  obtain r r' where r: "router_at desk_pair 1919 500 = Some r" "r_active_remote r = None"
      "route 5 (MouseMove 40 0) r
       = Some (r', Handoff SELF_SCREEN_ID FIRST_PEER_SCREEN_ID Right 32 500 (MouseMove 40 0))"
    using desk_at_cross by blast
  then show ?thesis
    using route_agrees_with_handoff_for_motion [of r 5 40 0 SELF_SCREEN_ID FIRST_PEER_SCREEN_ID Right 32 500]
      router_at_ok [OF r(1)] by blast
qed

lemma route_keeps_ok: "router_ok r \<Longrightarrow> route now ev r = Some (r', out) \<Longrightarrow> router_ok r'"
  by (metis Pair_inject option.inject route_ok)

section \<open>A persistent push crosses\<close>

fun push_event :: "edge \<Rightarrow> i32 \<Rightarrow> input_event" where
  "push_event Left d = MouseMove (- d) 0"
| "push_event Right d = MouseMove d 0"
| "push_event Top d = MouseMove 0 (- d)"
| "push_event Bottom d = MouseMove 0 d"

fun route_all :: "(instant \<times> input_event) list \<Rightarrow> edge_router \<Rightarrow> routed_event list" where
  "route_all [] r = []"
| "route_all ((now, ev) # es) r =
     (case route now ev r of None \<Rightarrow> [] | Some (r', out) \<Rightarrow> out # route_all es r')"

definition at_edge :: "edge \<Rightarrow> edge_router \<Rightarrow> bool" where
  "at_edge e r =
     (case screen_by_id (r_layout r) (r_current_screen r) of
        None \<Rightarrow> False
      | Some s \<Rightarrow> r_cursor_x r < scr_width s \<and> r_cursor_y r < scr_height s
          \<and> distance_from_edge e (r_cursor_x r) (r_cursor_y r) (scr_width s) (scr_height s) = 0)"

definition gates_clear :: "edge \<Rightarrow> edge_router \<Rightarrow> bool" where
  "gates_clear e r \<longleftrightarrow> \<not> r_locked r \<and> \<not> r_startup_gate r \<and> r_post_return_edge r \<noteq> Some e
     \<and> r_active_remote r = None \<and> crossing_target r (r_current_screen r) e \<noteq> None"

lemma sint_uminus_pos: "0 < sint (d :: i32) \<Longrightarrow> sint (- d) = - sint d"
  using sint_i32_bounds [of d] by (simp add: sint_word_ariths(4) signed_take_bit_int_eq_self)

lemma push_event_overflows:
  assumes "0 < sint d" and "at_edge e r" and "screen_by_id (r_layout r) (r_current_screen r) = Some s"
  obtains dx dy where "push_event e d = MouseMove dx dy"
    "edge_for_overflow (uint (r_cursor_x r) + sint dx) (uint (r_cursor_y r) + sint dy)
       (scr_width s) (scr_height s) = Some e"
    "overflow_px e (uint (r_cursor_x r) + sint dx) (uint (r_cursor_y r) + sint dy)
       (scr_width s) (scr_height s) = sint d"
    "\<forall>why r1. r_cursor_x (fst (clamp_to_edge (uint (r_cursor_x r) + sint dx)
         (uint (r_cursor_y r) + sint dy) (scr_width s) (scr_height s) why r1)) = r_cursor_x r"
    "\<forall>why r1. r_cursor_y (fst (clamp_to_edge (uint (r_cursor_x r) + sint dx)
         (uint (r_cursor_y r) + sint dy) (scr_width s) (scr_height s) why r1)) = r_cursor_y r"
proof -
  have lt: "uint (r_cursor_x r) < uint (scr_width s)" "uint (r_cursor_y r) < uint (scr_height s)"
    using assms by (auto simp: at_edge_def word_less_def)
  then have w: "scr_width s \<noteq> 0" "scr_height s \<noteq> 0"
    using uint_ge_0 by fastforce+
  have d: "uint (distance_from_edge e (r_cursor_x r) (r_cursor_y r) (scr_width s) (scr_height s)) = 0"
    using assms by (simp add: at_edge_def)
  have word: "\<not> uint (scr_width s) - 1 + sint d < 0" "\<not> uint (scr_height s) - 1 + sint d < 0"
    "max 0 (uint (scr_width s) - 1) = uint (scr_width s) - 1"
    "max 0 (uint (scr_height s) - 1) = uint (scr_height s) - 1"
    using lt assms(1) uint_ge_0 [of "r_cursor_x r"] uint_ge_0 [of "r_cursor_y r"] by linarith+
  show ?thesis
  proof (cases e)
    case Left
    then have x: "r_cursor_x r = 0" using d by (simp add: word_uint_eq_iff)
    show ?thesis
      by (rule that [of "- d" 0])
        (use Left x assms(1) lt w in \<open>simp_all add: sint_uminus_pos edge_for_overflow_def
          clamp_to_edge_def Let_def uint_minus_1 word\<close>)
  next
    case Right
    then have x: "r_cursor_x r = scr_width s - 1"
      using d lt w by (simp add: word_uint_eq_iff uint_sat_sub uint_minus_1)
    show ?thesis
      by (rule that [of d 0])
        (use Right x assms(1) lt w word in \<open>simp_all add: sint_uminus_pos edge_for_overflow_def
          clamp_to_edge_def Let_def uint_minus_1 word uint_sat_sub_1\<close>)
  next
    case Top
    then have x: "r_cursor_y r = 0" using d by (simp add: word_uint_eq_iff)
    show ?thesis
      by (rule that [of 0 "- d"])
        (use Top x assms(1) lt w in \<open>simp_all add: sint_uminus_pos edge_for_overflow_def
          clamp_to_edge_def Let_def uint_minus_1 word\<close>)
  next
    case Bottom
    then have x: "r_cursor_y r = scr_height s - 1"
      using d lt w by (simp add: word_uint_eq_iff uint_sat_sub uint_minus_1)
    show ?thesis
      by (rule that [of 0 d])
        (use Bottom x assms(1) lt w word in \<open>simp_all add: sint_uminus_pos edge_for_overflow_def
          clamp_to_edge_def Let_def uint_minus_1 word uint_sat_sub_1\<close>)
  qed
qed


lemma gates_clear_reason: "gates_clear e r \<Longrightarrow> gate_reason now e r = None"
  by (auto simp: gates_clear_def gate_reason_def)

lemma clamp_to_edge_gates [simp]:
  "r_startup_gate (fst (clamp_to_edge nx ny w h why r)) = r_startup_gate r"
  "r_post_return_edge (fst (clamp_to_edge nx ny w h why r)) = r_post_return_edge r"
  "r_locked (fst (clamp_to_edge nx ny w h why r)) = r_locked r"
  "r_edge_mode (fst (clamp_to_edge nx ny w h why r)) = r_edge_mode r"
  by (simp_all add: clamp_to_edge_def Let_def)

lemma note_push_gates [simp]:
  "r_startup_gate (note_push s e v r) = r_startup_gate r"
  "r_post_return_edge (note_push s e v r) = r_post_return_edge r"
  "r_locked (note_push s e v r) = r_locked r"
  by (simp_all add: note_push_def Let_def)

text \<open>One push against the edge crosses, or adds its depth to the run and leaves the rest.\<close>

lemma push_step:
  assumes ok: "router_ok r" and at: "at_edge e r" and clear: "gates_clear e r" and d: "0 < sint d"
    and base: "base = (if r_push_edge r = Some e then r_push_accum r else 0)"
  obtains (crossed) r' target x y rest where "EDGE_PUSH_PX \<le> base + sint d"
      "route now (push_event e d) r = Some (r', Handoff (r_local_screen r) target e x y rest)"
  | (pushed) r' out where "base + sint d < EDGE_PUSH_PX"
      "route now (push_event e d) r = Some (r', out)" "router_ok r'" "at_edge e r'" "gates_clear e r'"
      "r_push_edge r' = Some e" "r_push_accum r' = base + sint d"
      "r_local_screen r' = r_local_screen r"
proof -
  obtain s where s: "screen_by_id (r_layout r) (r_current_screen r) = Some s"
    using ok by (rule router_ok_current_screen)
  have act: "r_active_remote r = None" and cur: "r_current_screen r = r_local_screen r"
    using clear router_ok_current [OF ok] by (auto simp: gates_clear_def)
  obtain dx dy where p: "push_event e d = MouseMove dx dy"
    "edge_for_overflow (uint (r_cursor_x r) + sint dx) (uint (r_cursor_y r) + sint dy)
       (scr_width s) (scr_height s) = Some e"
    "overflow_px e (uint (r_cursor_x r) + sint dx) (uint (r_cursor_y r) + sint dy)
       (scr_width s) (scr_height s) = sint d"
    "\<forall>why r1. r_cursor_x (fst (clamp_to_edge (uint (r_cursor_x r) + sint dx)
         (uint (r_cursor_y r) + sint dy) (scr_width s) (scr_height s) why r1)) = r_cursor_x r"
    "\<forall>why r1. r_cursor_y (fst (clamp_to_edge (uint (r_cursor_x r) + sint dx)
         (uint (r_cursor_y r) + sint dy) (scr_width s) (scr_height s) why r1)) = r_cursor_y r"
    using d at s by (rule push_event_overflows)
  let ?nx = "uint (r_cursor_x r) + sint dx" and ?ny = "uint (r_cursor_y r) + sint dy"
  note pok = router_okD(3) [OF ok]
  have b: "sint d < 17179869184"
    using sint_i32_bounds(2) [of d] by linarith
  have credit: "push_credit s e (sint d) r = sint d"
    using at s by (simp add: push_credit_def at_edge_def thresholds)
  have acc: "r_push_accum (note_push s e (sint d) r) = base + sint d"
    using note_push_accum(1) [OF pok d b, of s e] by (simp add: base credit)
  show ?thesis
    using ok s p(2) overflow_px_bound
  proof (cases rule: local_overflow_cases [where now = now])
    case (gated why)
    then show ?thesis using gates_clear_reason [OF clear, of now] by simp
  next
    case (budget r1)
    let ?r' = "fst (clamp_to_edge ?nx ?ny (scr_width s) (scr_height s) PushBudget r1)"
    have r1: "r1 = note_push s e (sint d) r" using budget(2) p(3) by simp
    have rt: "route now (push_event e d) r = Some (?r',
        snd (clamp_to_edge ?nx ?ny (scr_width s) (scr_height s) PushBudget r1))"
      using budget(5) s p(1,2) act by (simp add: route_def Let_def)
    show ?thesis
    proof (rule pushed [OF _ rt])
      show "base + sint d < EDGE_PUSH_PX"
        using budget(4) acc r1 by simp
      show "router_ok ?r'"
        by (rule route_keeps_ok [OF ok rt])
      show "at_edge e ?r'"
        using at s p(4,5) by (simp add: at_edge_def r1)
      show "gates_clear e ?r'"
        using clear by (simp add: gates_clear_def crossing_target_def r1)
    qed (simp_all add: r1 acc)
  next
    case (cross r1 target')
    have gates: "gate_reason now e r = None"
      by (rule gates_clear_reason [OF clear])
    have ge: "EDGE_PUSH_PX \<le> base + sint d"
      using cross(2,3) acc p(3) by simp
    obtain r' target t x y where
      "route now (MouseMove dx dy) r
        = Some (r', Handoff (r_current_screen r) target e x y (handoff_remainder e (sint d)))"
      by (rule route_crosses [OF ok act s p(2) p(3) [symmetric] gates]) (use ge acc in auto)
    then show ?thesis
      using crossed [OF ge] p(1) cur by simp
  qed
qed

lemma pushes_cross:
  assumes "router_ok r" "at_edge e r" "gates_clear e r"
    and "list_all (\<lambda>(t, d). 0 < sint d) ps"
    and "base = (if r_push_edge r = Some e then r_push_accum r else 0)"
    and "8 \<le> base + (\<Sum>(t, d) \<leftarrow> ps. sint d)" "base < 8"
  shows "\<exists>target x y rest. Handoff (r_local_screen r) target e x y rest
    \<in> set (route_all (map (\<lambda>(t, d). (t, push_event e d)) ps) r)"
  using assms
proof (induction ps arbitrary: r base)
  case Nil
  then show ?case by simp
next
  case (Cons p ps)
  obtain t d where p: "p = (t, d)" by fastforce
  have d: "0 < sint d" using Cons.prems(4) p by simp
  show ?case
    using Cons.prems(1-3) d Cons.prems(5)
  proof (cases rule: push_step [where now = t])
    case (crossed r' target x y rest)
    then show ?thesis by (auto simp: p)
  next
    case (pushed r' out)
    have "\<exists>target x y rest. Handoff (r_local_screen r') target e x y rest
      \<in> set (route_all (map (\<lambda>(t, d). (t, push_event e d)) ps) r')"
      by (rule Cons.IH [where base = "base + sint d"])
        (use pushed Cons.prems(4,6) p in \<open>simp_all add: thresholds\<close>)
    then show ?thesis
      using pushed(2,8) by (auto simp: p)
  qed
qed

text \<open>
  C22: a persistent push crosses. With the cursor at an edge that leads somewhere, the router
  unlocked and no gate holding that edge, any sequence of pushes against the edge whose
  depths add up to at least 8 pixels, one pixel at a time or all at once and however long
  it takes, hands control over through that edge.
\<close>

theorem persistent_push_crosses:
  assumes "router_ok r" and "at_edge e r" and "gates_clear e r"
    and "list_all (\<lambda>(t, d). 0 < sint d) ps" and "8 \<le> (\<Sum>(t, d) \<leftarrow> ps. sint d)"
  shows "\<exists>target x y rest. Handoff (r_local_screen r) target e x y rest
    \<in> set (route_all (map (\<lambda>(t, d). (t, push_event e d)) ps) r)"
proof -
  let ?base = "if r_push_edge r = Some e then r_push_accum r else 0"
  have "0 \<le> ?base" "?base < 8"
    using router_okD(3) [OF assms(1)] by (auto simp: push_ok_def thresholds)
  then show ?thesis
    using pushes_cross [OF assms(1-4) refl] assms(5) by simp
qed

lemma persistent_push_crosses_witness:
  "\<exists>r target x y rest. router_at desk_pair 1919 500 = Some r
     \<and> Handoff (r_local_screen r) target Right x y rest
       \<in> set (route_all [(1, MouseMove 3 0), (2, MouseMove 3 0), (900000000, MouseMove 3 0)] r)"
proof -
  have "(case router_at desk_pair 1919 500 of None \<Rightarrow> False | Some r \<Rightarrow> at_edge Right r \<and> gates_clear Right r)"
    by code_simp
  then obtain r where r: "router_at desk_pair 1919 500 = Some r" "at_edge Right r" "gates_clear Right r"
    by (auto split: option.splits)
  then show ?thesis
    using persistent_push_crosses [of r Right "[(1, 3), (2, 3), (900000000, 3)]"] router_at_ok [OF r(1)]
    by simp
qed

end
