(* ===== verification/Returns.thy ===== *)
theory Returns
  imports Crossings
begin

text \<open>
  Returns to this computer: what earns one, where it lands, that a drive and its return come
  back to the same place, and that the shove that came home is not handed straight back.
\<close>

section \<open>Returns\<close>

lemma landing_inset:
  assumes "scr_width s \<noteq> 0" "scr_height s \<noteq> 0"
    and "(x, y) = landing_coords landing cx cy rw rh (scr_width s) (scr_height s)"
    and "x' = min x (sat_sub (scr_width s) 1)" "y' = min y (sat_sub (scr_height s) 1)"
  shows "distance_from_edge landing x' y' (scr_width s) (scr_height s)
    = min RETURN_INSET_PX (sat_sub (if horizontal landing then scr_width s else scr_height s) 1)"
proof -
  have sub: "sat_sub a (min (sat_sub a b) a) = min b a" for a b :: u32
    by (simp add: word_uint_eq_iff uint_sat_sub uint_min)
  from assms show ?thesis
    by (cases landing) (simp_all add: horizontal_def sub)
qed

text \<open>What the restore of a return does, in full.\<close>

lemma return_homeE:
  assumes ok: "router_ok r" and act: "r_active_remote r = Some from"
    and h: "return_home now from e r = (r', ev)"
  obtains s t x y where "screen_by_id (r_layout r) (r_local_screen r) = Some s"
    "screen_by_id (r_layout r) from = Some t" "scr_width s \<noteq> 0" "scr_height s \<noteq> 0"
    "(x, y) = landing_coords (landing_edge (r_edge_mode r) (r_double_style r) e)
       (r_cursor_x r) (r_cursor_y r) (scr_width t) (scr_height t) (scr_width s) (scr_height s)"
    "r_cursor_x r' = min x (sat_sub (scr_width s) 1)" "r_cursor_y r' = min y (sat_sub (scr_height s) 1)"
    "r_current_screen r' = r_local_screen r" "r_active_remote r' = None" "r_layout r' = r_layout r"
    "r_post_return_edge r' = Some (landing_edge (r_edge_mode r) (r_double_style r) e)"
    "r_post_return_at r' = Some now" "r_push_edge r' = None"
proof -
  obtain s where s: "screen_by_id (r_layout r) (r_local_screen r) = Some s"
      "scr_width s \<noteq> 0" "scr_height s \<noteq> 0"
    using router_ok_local_screen [OF ok] by blast
  have "from = r_current_screen r"
    using router_ok_current [OF ok] act by simp
  then obtain t where t: "screen_by_id (r_layout r) from = Some t"
    using router_ok_current_screen [OF ok] by metis
  obtain x y where xy: "landing_coords (landing_edge (r_edge_mode r) (r_double_style r) e)
       (r_cursor_x r) (r_cursor_y r) (scr_width t) (scr_height t) (scr_width s) (scr_height s) = (x, y)"
    by fastforce
  show ?thesis
    by (rule that [OF s(1) t s(2,3) xy [symmetric]])
      (use h act s t xy in \<open>auto simp: return_home_def restore_local_at_edge_def Let_def\<close>)
qed

text \<open>
  A return is earned, and lands inside the home edge. When a step brings control home,
  the router was driving that screen, the edge faces home, the drive was out of its grace
  period and the push reached its threshold; afterwards this computer is current, the
  cursor is inside its screen, 8 pixels in from the landing edge (or the whole span of a
  smaller screen), and that edge is held from the moment of the return.
\<close>

theorem return_lands_inside_home_edge:
  assumes ok: "router_ok r" and h: "route now ev r = Some (r', ReturnHome from e entry armed)"
  shows "r_active_remote r = Some from \<and> faces_home r from e \<and> \<not> in_handoff_grace now r
    \<and> entry = r_entry_edge r \<and> armed = r_return_armed r
    \<and> r_active_remote r' = None \<and> r_current_screen r' = r_local_screen r
    \<and> (\<exists>dx dy t. ev = MouseMove dx dy \<and> screen_by_id (r_layout r) from = Some t
        \<and> return_pressed now t e (uint (r_cursor_x r) + sint dx) (uint (r_cursor_y r) + sint dy) r)
    \<and> (\<exists>s landing. screen_by_id (r_layout r) (r_local_screen r) = Some s
        \<and> landing = landing_edge (r_edge_mode r) (r_double_style r) e
        \<and> r_cursor_x r' < scr_width s \<and> r_cursor_y r' < scr_height s
        \<and> distance_from_edge landing (r_cursor_x r') (r_cursor_y r') (scr_width s) (scr_height s)
          = min 8 (sat_sub (if horizontal landing then scr_width s else scr_height s) 1)
        \<and> r_post_return_edge r' = Some landing \<and> r_post_return_at r' = Some now)"
proof -
  obtain dx dy r1 where r1: "ev = MouseMove dx dy" "r_active_remote r = Some from"
    "faces_home r from e" "\<not> in_handoff_grace now r"
    "router_ok r1" "r_active_remote r1 = Some from"
    "return_home now from e r1 = (r', ReturnHome from e entry armed)"
    "entry = r_entry_edge r" "armed = r_return_armed r"
    "\<exists>s. screen_by_id (r_layout r) from = Some s
       \<and> edge_for_overflow (uint (r_cursor_x r) + sint dx) (uint (r_cursor_y r) + sint dy)
           (scr_width s) (scr_height s) = Some e
       \<and> return_pressed now s e (uint (r_cursor_x r) + sint dx) (uint (r_cursor_y r) + sint dy) r"
    by (rule route_return_homeE [OF ok h]) blast
  have "settings r1 = settings r"
    using settings_return_home [OF r1(7)] settings_route [OF h] by simp
  then have eqs: "r_layout r1 = r_layout r" "r_local_screen r1 = r_local_screen r"
      "r_edge_mode r1 = r_edge_mode r" "r_double_style r1 = r_double_style r"
    by (simp_all add: settings_def)
  let ?landing = "landing_edge (r_edge_mode r) (r_double_style r) e"
  obtain s t x y where l: "screen_by_id (r_layout r1) (r_local_screen r1) = Some s"
    "screen_by_id (r_layout r1) from = Some t" "scr_width s \<noteq> 0" "scr_height s \<noteq> 0"
    "(x, y) = landing_coords (landing_edge (r_edge_mode r1) (r_double_style r1) e)
       (r_cursor_x r1) (r_cursor_y r1) (scr_width t) (scr_height t) (scr_width s) (scr_height s)"
    "r_cursor_x r' = min x (sat_sub (scr_width s) 1)" "r_cursor_y r' = min y (sat_sub (scr_height s) 1)"
    "r_current_screen r' = r_local_screen r1" "r_active_remote r' = None" "r_layout r' = r_layout r1"
    "r_post_return_edge r' = Some (landing_edge (r_edge_mode r1) (r_double_style r1) e)"
    "r_post_return_at r' = Some now" "r_push_edge r' = None"
    by (rule return_homeE [OF r1(5,6,7)])
  have "distance_from_edge ?landing (r_cursor_x r') (r_cursor_y r') (scr_width s) (scr_height s)
      = min 8 (sat_sub (if horizontal ?landing then scr_width s else scr_height s) 1)"
    using landing_inset [OF l(3-7)] by (simp add: eqs thresholds)
  then show ?thesis
    using r1 l eqs by (auto simp: min_pred)
qed

text \<open>
  C23: a drive and its return come back to the same place. In Mirror Double, if a horizontal
  edge is crossed at row y, and the drive comes home through the opposite edge of the peer
  after roaming only along its rows, the cursor lands within one pixel of row y, 8 pixels
  inside the edge it left through, provided the peer is at least as tall.
\<close>

theorem drive_round_trip:
  assumes ok: "router_ok r" and inside: "cursor_inside r"
    and cfg: "r_edge_mode r = Double" "r_double_style r = Mirror" "horizontal e"
    and out: "route now ev r = Some (r', Handoff from target e x y rest)"
    and roam: "router_ok r2" "r_active_remote r2 = Some target" "settings r2 = settings r'"
      "r_cursor_y r2 = r_cursor_y r'"
    and home: "route later ev2 r2 = Some (r3, ReturnHome target (opposite e) entry armed)"
    and screens: "screen_by_id (r_layout r) from = Some s" "screen_by_id (r_layout r) target = Some t"
      "1 < scr_height s" "scr_height s \<le> scr_height t"
  shows "\<bar>uint (r_cursor_y r3) - uint (r_cursor_y r)\<bar> \<le> 1
    \<and> distance_from_edge e (r_cursor_x r3) (r_cursor_y r3) (scr_width s) (scr_height s)
      = min 8 (scr_width s - 1)"
proof -
  have sets: "settings r2 = settings r"
    using roam(3) settings_route [OF out] by simp
  have cross: "from = r_local_screen r" "from = r_current_screen r" "r_cursor_y r' = y"
      "\<exists>s t. screen_by_id (r_layout r) from = Some s \<and> screen_by_id (r_layout r) target = Some t
       \<and> (x, y) = entry_target_coords (opposite (entry_for_exit (r_double_style r) e)) t
       (map_coordinate (along e (r_cursor_x r) (r_cursor_y r)) (along_span e s) (along_span e t))"
    by (rule route_handoffE [OF ok out], blast)+
  have y: "y = map_coordinate (r_cursor_y r) (scr_height s) (scr_height t)"
    using cross(4) screens cfg(2,3) by (cases e) (auto simp: along_def along_span_def horizontal_def)
  have cy: "r_cursor_y r < scr_height s"
    using inside screens(1) cross(2) by (simp add: cursor_inside_def)
  obtain r1 where r1: "router_ok r1" "r_active_remote r1 = Some target"
    "return_home later target (opposite e) r1 = (r3, ReturnHome target (opposite e) entry armed)"
    "r_cursor_y r1 = r_cursor_y r2"
    by (rule route_return_homeE [OF roam(1) home]) blast
  have "settings r1 = settings r"
    using settings_return_home [OF r1(3)] settings_route [OF home] sets by simp
  then have eqs: "r_layout r1 = r_layout r" "r_local_screen r1 = r_local_screen r"
      "r_edge_mode r1 = Double" "r_double_style r1 = Mirror"
    using cfg by (simp_all add: settings_def)
  have le: "landing_edge Double Mirror (opposite e) = e"
    using cfg(3) by (simp add: landing_edge_def)
  obtain s' t' x' y' where l: "screen_by_id (r_layout r1) (r_local_screen r1) = Some s'"
    "screen_by_id (r_layout r1) target = Some t'" "scr_width s' \<noteq> 0" "scr_height s' \<noteq> 0"
    "(x', y') = landing_coords (landing_edge (r_edge_mode r1) (r_double_style r1) (opposite e))
       (r_cursor_x r1) (r_cursor_y r1) (scr_width t') (scr_height t') (scr_width s') (scr_height s')"
    "r_cursor_x r3 = min x' (sat_sub (scr_width s') 1)" "r_cursor_y r3 = min y' (sat_sub (scr_height s') 1)"
    by (rule return_homeE [OF r1(1-3)]) blast
  have st: "s' = s" "t' = t"
    using l(1,2) eqs cross(1) screens(1,2) by auto
  have "distance_from_edge e (r_cursor_x r3) (r_cursor_y r3) (scr_width s) (scr_height s)
      = min 8 (sat_sub (scr_width s) 1)"
    using landing_inset [OF l(3-7)] cfg(3) by (simp add: eqs le st thresholds)
  moreover have "sat_sub (scr_width s) 1 = scr_width s - 1"
    using l(3) st by (simp add: word_uint_eq_iff uint_sat_sub_1 uint_minus_1)
  moreover have "\<bar>uint (r_cursor_y r3) - uint (r_cursor_y r)\<bar> \<le> 1"
  proof -
    have y': "y' = map_coordinate (map_coordinate (r_cursor_y r) (scr_height s) (scr_height t))
        (scr_height t) (scr_height s)"
    proof -
      have "(x', y') = landing_coords e (r_cursor_x r1)
          (map_coordinate (r_cursor_y r) (scr_height s) (scr_height t))
          (scr_width t) (scr_height t) (scr_width s) (scr_height s)"
        using l(5) r1(4) roam(4) cross(3) y by (simp add: eqs le st)
      with cfg(3) show ?thesis by (cases e) (auto simp: horizontal_def)
    qed
    have "1 < scr_height t"
      using screens(3,4) by simp
    note b = map_coordinate_back [OF screens(3) this cy screens(4)]
    have "uint y' \<le> uint (scr_height s) - 1"
      using map_coordinate_less [of "scr_height s"] l(4) st y' by fastforce
    then have "r_cursor_y r3 = y'"
      using l(4,7) st by (simp add: word_uint_eq_iff uint_min uint_sat_sub_1)
    with b y' show ?thesis by (simp add: abs_le_iff)
  qed
  ultimately show ?thesis by simp
qed

text \<open>A step out and a step home: the edge left through, and where the return lands.\<close>

definition there_and_back ::
  "instant \<Rightarrow> input_event \<Rightarrow> instant \<Rightarrow> input_event \<Rightarrow> edge_router \<Rightarrow> (edge \<times> edge \<times> u32 \<times> u32) option"
  where
  "there_and_back now out later home r =
     (case route now out r of
        Some (r', Handoff f t e x y rest) \<Rightarrow>
          (case route later home r' of
             Some (r3, ReturnHome f' e' entry armed) \<Rightarrow> Some (e, e', r_cursor_x r3, r_cursor_y r3)
           | _ \<Rightarrow> None)
      | _ \<Rightarrow> None)"

text \<open>
  Outside Mirror Double with a horizontal edge, a return lands on the far side of this
  computer's screen. With the peer above, a drive that leaves through the top edge at row 0
  and comes back down through the peer's bottom edge lands at row 1071 of 1080; in Single
  mode with the peer at the right, a drive that leaves at column 1919 lands at column 8.
\<close>

theorem return_lands_on_far_side:
  "map_option (there_and_back 5 (MouseMove 0 (-40)) 9 (MouseMove 0 200)) (router_at desk_stack 960 0)
     = Some (Some (Top, Bottom, 960, 1071))
   \<and> map_option (\<lambda>r. there_and_back 5 (MouseMove 40 0) 9 (MouseMove (-200) 0) (set_edge_mode Single r))
       (router_at desk_pair 1919 500)
     = Some (Some (Right, Left, 8, 500))"
  by code_simp

lemma desk_drive:
  "\<exists>r r' r3. router_at desk_pair 1919 500 = Some r
     \<and> r_edge_mode r = Double \<and> r_double_style r = Mirror
     \<and> route 5 (MouseMove 40 0) r
       = Some (r', Handoff SELF_SCREEN_ID FIRST_PEER_SCREEN_ID Right 32 500 (MouseMove 40 0))
     \<and> r_active_remote r' = Some FIRST_PEER_SCREEN_ID
     \<and> route 9 (MouseMove (-200) 0) r'
       = Some (r3, ReturnHome FIRST_PEER_SCREEN_ID Left (Some Left) False)"
proof -
  have "(case router_at desk_pair 1919 500 of None \<Rightarrow> False | Some r \<Rightarrow>
      r_edge_mode r = Double \<and> r_double_style r = Mirror
      \<and> (case route 5 (MouseMove 40 0) r of
           Some (r', Handoff f t e x y rest) \<Rightarrow> f = SELF_SCREEN_ID \<and> t = FIRST_PEER_SCREEN_ID
             \<and> e = Right \<and> x = 32 \<and> y = 500 \<and> rest = MouseMove 40 0
             \<and> r_active_remote r' = Some FIRST_PEER_SCREEN_ID
             \<and> (case route 9 (MouseMove (-200) 0) r' of
                  Some (r3, ReturnHome f e entry armed) \<Rightarrow> f = FIRST_PEER_SCREEN_ID \<and> e = Left
                    \<and> entry = Some Left \<and> \<not> armed
                | _ \<Rightarrow> False)
         | _ \<Rightarrow> False))"
    by code_simp
  then show ?thesis
    by (auto split: option.splits prod.splits routed_event.splits)
qed

lemma return_lands_inside_home_edge_witness:
  "\<exists>r r3. router_ok r
     \<and> route 9 (MouseMove (-200) 0) r
       = Some (r3, ReturnHome FIRST_PEER_SCREEN_ID Left (Some Left) False)
     \<and> r_active_remote r3 = None \<and> r_post_return_at r3 = Some 9"
  using desk_drive router_at_ok route_keeps_ok return_lands_inside_home_edge by meson

lemma drive_round_trip_witness:
  "\<exists>r r' r3. router_at desk_pair 1919 500 = Some r
     \<and> route 5 (MouseMove 40 0) r
       = Some (r', Handoff SELF_SCREEN_ID FIRST_PEER_SCREEN_ID Right 32 500 (MouseMove 40 0))
     \<and> route 9 (MouseMove (-200) 0) r'
       = Some (r3, ReturnHome FIRST_PEER_SCREEN_ID Left (Some Left) False)
     \<and> \<bar>uint (r_cursor_y r3) - uint (r_cursor_y r)\<bar> \<le> 1"
proof -
  obtain r r' r3 where r: "router_at desk_pair 1919 500 = Some r"
    "r_edge_mode r = Double" "r_double_style r = Mirror"
    "route 5 (MouseMove 40 0) r
       = Some (r', Handoff SELF_SCREEN_ID FIRST_PEER_SCREEN_ID Right 32 500 (MouseMove 40 0))"
    "r_active_remote r' = Some FIRST_PEER_SCREEN_ID"
    "route 9 (MouseMove (-200) 0) r'
       = Some (r3, ReturnHome FIRST_PEER_SCREEN_ID Left (Some Left) False)"
    using desk_drive by blast
  have ok: "router_ok r" "cursor_inside r" using router_at_ok [OF r(1)] by auto
  have "r_layout r = desk_pair"
    using r(1) by (auto simp: router_at_def place_local_cursor_def seed_position_def Let_def
        dest!: router_new_ok split: sum.splits option.splits if_splits)
  moreover have "(case (screen_by_id desk_pair SELF_SCREEN_ID, screen_by_id desk_pair FIRST_PEER_SCREEN_ID) of
      (Some s, Some t) \<Rightarrow> 1 < scr_height s \<and> scr_height s \<le> scr_height t | _ \<Rightarrow> False)"
    by code_simp
  ultimately obtain s t where "screen_by_id (r_layout r) SELF_SCREEN_ID = Some s"
    "screen_by_id (r_layout r) FIRST_PEER_SCREEN_ID = Some t"
    "1 < scr_height s" "scr_height s \<le> scr_height t"
    by (auto split: option.splits)
  then have "\<bar>uint (r_cursor_y r3) - uint (r_cursor_y r)\<bar> \<le> 1"
    using drive_round_trip [OF ok r(2,3) _ r(4) route_keeps_ok [OF ok(1) r(4)] r(5) refl refl]
      r(6) by (simp add: horizontal_def)
  then show ?thesis using r by blast
qed

section \<open>No bounce after a return\<close>

definition near_edge :: "edge \<Rightarrow> edge_router \<Rightarrow> bool" where
  "near_edge e r =
     (case screen_by_id (r_layout r) (r_current_screen r) of
        None \<Rightarrow> False
      | Some s \<Rightarrow>
          distance_from_edge e (r_cursor_x r) (r_cursor_y r) (scr_width s) (scr_height s) < 64)"

text \<open>Local steps that keep the cursor within 64 pixels of an edge.\<close>

inductive roams :: "edge \<Rightarrow> edge_router \<Rightarrow> edge_router \<Rightarrow> bool" for e r where
  start: "roams e r r"
| step: "roams e r q \<Longrightarrow> route t ev q = Some (q', Local out) \<Longrightarrow> near_edge e q' \<Longrightarrow> roams e r q'"

lemma local_step_keeps_hold:
  assumes ok: "router_ok q" and st: "route t ev q = Some (q', Local out)" and near: "near_edge e q'"
    and hold: "r_post_return_edge q = Some e"
  shows "r_post_return_edge q' = Some e \<and> r_post_return_at q' = r_post_return_at q"
proof -
  have act: "r_active_remote q = None"
    using route_remote_not_handoff [OF ok _ st] by fastforce
  obtain s where s: "screen_by_id (r_layout q) (r_current_screen q) = Some s"
    using ok by (rule router_ok_current_screen)
  show ?thesis
  proof (cases "\<exists>dx dy. ev = MouseMove dx dy")
    case False
    then have "q' = q" using st act by (cases ev) (auto simp: route_def)
    with hold show ?thesis by simp
  next
    case True
    then obtain dx dy where ev: "ev = MouseMove dx dy" by blast
    let ?nx = "uint (r_cursor_x q) + sint dx" and ?ny = "uint (r_cursor_y q) + sint dy"
    have hold_clamp: "r_post_return_edge (fst (clamp_to_edge ?nx ?ny w h why r1)) = r_post_return_edge r1"
      "r_post_return_at (fst (clamp_to_edge ?nx ?ny w h why r1)) = r_post_return_at r1" for w h why r1
      by (simp_all add: clamp_to_edge_def Let_def)
    show ?thesis
    proof (cases "edge_for_overflow ?nx ?ny (scr_width s) (scr_height s)")
      case None
      then have q': "q' = local_inside s ?nx ?ny q"
        using st act s ev by (simp add: route_def Let_def)
      then have "distance_from_edge e (r_cursor_x q + dx) (r_cursor_y q + dy) (scr_width s) (scr_height s) < 64"
        using near s by (simp add: near_edge_def)
      then show ?thesis
        using hold by (auto simp: q' local_inside_def Let_def clear_push_def thresholds not_le)
    next
      case (Some e')
      then have lo: "local_overflow t s e' ?nx ?ny q = Some (q', Local out)"
        using st act s ev by (simp add: route_def Let_def)
      show ?thesis
        using ok s Some overflow_px_bound
      proof (cases rule: local_overflow_cases [where now = t])
        case (gated why)
        then have "q' = fst (clamp_to_edge ?nx ?ny (scr_width s) (scr_height s) why (clear_push q))"
          using lo by (metis fst_conv option.inject)
        then show ?thesis using hold by (simp add: hold_clamp clear_push_def)
      next
        case (budget r1)
        then have "q' = fst (clamp_to_edge ?nx ?ny (scr_width s) (scr_height s) PushBudget r1)"
          using lo by (metis fst_conv option.inject)
        then show ?thesis using hold budget(2) by (simp add: hold_clamp note_push_def Let_def)
      next
        case (cross r1 target)
        then show ?thesis
          using lo by (auto simp: commit_handoff_def Let_def split: option.splits prod.splits)
      qed
    qed
  qed
qed

lemma roams_hold:
  assumes "roams e r q" "router_ok r" "r_post_return_edge r = Some e"
  shows "router_ok q \<and> r_post_return_edge q = Some e \<and> r_post_return_at q = r_post_return_at r"
  using assms(1)
proof induction
  case start
  with assms show ?case by simp
next
  case (step q t ev q' out)
  then show ?case
    using local_step_keeps_hold [of q t ev q' out e] route_keeps_ok [of q t ev q'] by simp
qed

text \<open>
  C24: no bounce after a return. A drive that came home is not handed straight back by the
  shove that brought it: for 250 milliseconds after the return, however the pointer moves
  within 64 pixels of the landing edge, no step crosses that edge.
\<close>

theorem no_bounce_after_return:
  assumes ok: "router_ok r"
    and home: "route now ev r = Some (r', ReturnHome from e entry armed)"
    and roam: "roams (landing_edge (r_edge_mode r) (r_double_style r) e) r' q"
    and soon: "elapsed later now < from_millis 250"
  shows "case route later ev2 q of
      None \<Rightarrow> False
    | Some (q', Handoff from2 target e2 x y rest) \<Rightarrow>
        e2 \<noteq> landing_edge (r_edge_mode r) (r_double_style r) e
    | Some (q', out) \<Rightarrow> True"
proof -
  obtain r1 where r1: "router_ok r1" "r_active_remote r1 = Some from"
    "return_home now from e r1 = (r', ReturnHome from e entry armed)"
    by (rule route_return_homeE [OF ok home]) blast
  have "settings r1 = settings r"
    using settings_return_home [OF r1(3)] settings_route [OF home] by simp
  then have eqs: "r_edge_mode r1 = r_edge_mode r" "r_double_style r1 = r_double_style r"
    by (simp_all add: settings_def)
  let ?landing = "landing_edge (r_edge_mode r) (r_double_style r) e"
  have "r_post_return_edge r' = Some ?landing" "r_post_return_at r' = Some now"
    by (rule return_homeE [OF r1], simp add: eqs)+
  then have q: "router_ok q" "r_post_return_edge q = Some ?landing" "r_post_return_at q = Some now"
    using roams_hold [OF roam route_keeps_ok [OF ok home]] by auto
  have "e2 \<noteq> ?landing" if "route later ev2 q = Some (q', Handoff from2 target e2 x y rest)"
    for q' from2 target e2 x y rest
  proof -
    have "gate_reason later e2 q = None"
      by (rule route_handoffE [OF q(1) that])
    then show ?thesis
      using q soon by (auto simp: gate_reason_def post_return_holds_def thresholds split: if_splits)
  qed
  moreover obtain q' out where "route later ev2 q = Some (q', out)"
    using q(1) by (rule route_ok)
  ultimately show ?thesis
    by (auto split: routed_event.splits)
qed

lemma no_bounce_after_return_witness:
  "\<exists>r r3. router_ok r
     \<and> route 9 (MouseMove (-200) 0) r
       = Some (r3, ReturnHome FIRST_PEER_SCREEN_ID Left (Some Left) False)
     \<and> (case route 100 (MouseMove 400 0) r3 of
          None \<Rightarrow> False
        | Some (q', Handoff from2 target e2 x y rest) \<Rightarrow>
            e2 \<noteq> landing_edge (r_edge_mode r) (r_double_style r) Left
        | Some (q', out) \<Rightarrow> True)"
proof -
  obtain r r3 where "router_ok r"
    "route 9 (MouseMove (-200) 0) r
       = Some (r3, ReturnHome FIRST_PEER_SCREEN_ID Left (Some Left) False)"
    using desk_drive router_at_ok route_keeps_ok by meson
  moreover have "elapsed 100 9 < from_millis 250"
    by (simp add: elapsed_def from_millis_def)
  ultimately show ?thesis
    using no_bounce_after_return [OF _ _ roams.start] by blast
qed

end
