(* ===== verification/Config.thy ===== *)
theory Config
  imports Layout
begin

text \<open>
  The daemon's configuration: \<^verbatim>\<open>kvm-core/src/config.rs\<close>. \<open>validate_config\<close> is
  \<open>Config::validate\<close> and \<open>load_config\<close> is \<open>Config::load\<close> from the text of the file on;
  \<open>serde_json\<close> is the parameter \<open>parse\<close>. \<open>EdgeMode\<close> is in \<open>Layout\<close>, whose crossing rule
  uses it. Reading and writing the file are not modelled.
\<close>

definition MAX_DEVICE_NAME_BYTES :: nat where "MAX_DEVICE_NAME_BYTES = 128"
definition DEFAULT_CLIPBOARD_MAX_MB :: u32 where "DEFAULT_CLIPBOARD_MAX_MB = 2"
definition MAX_CLIPBOARD_MAX_MB :: u32 where "MAX_CLIPBOARD_MAX_MB = 16"

datatype transport_protocol = Quic | Udp

datatype mode = Bidirectional | ServerClient | ClientOnly

record config =
  cfg_device_name :: string
  cfg_listen_port :: u16
  cfg_mode :: mode
  cfg_transport :: transport_protocol
  cfg_edge_mode :: edge_mode
  cfg_layout :: layout
  cfg_allow_lock_screen_control :: bool
  cfg_auto_connect_address :: "string option"
  cfg_clipboard_enabled :: bool
  cfg_clipboard_max_mb :: u32
  cfg_reverse_scroll :: bool
  cfg_auto_discover :: bool
  cfg_double_edge_style :: double_edge_style

datatype config_error =
    EmptyDeviceName
  | DeviceNameTooLong
  | DeviceNameControl
  | ZeroPort
  | EmptyAutoConnect
  | ReceiverAutoConnect
  | ClipboardLimit
  | ConfigLayout layout_error

text \<open>\<open>Config::default\<close>; the host name is read from the environment.\<close>

definition default_config :: "string option \<Rightarrow> config" where
  "default_config hostname =
     \<lparr>cfg_device_name = (case hostname of Some h \<Rightarrow> h | None \<Rightarrow> ''unknown''),
      cfg_listen_port = 42110, cfg_mode = Bidirectional, cfg_transport = Udp,
      cfg_edge_mode = Double, cfg_layout = \<lparr>ly_screens = [], ly_self = None\<rparr>,
      cfg_allow_lock_screen_control = False, cfg_auto_connect_address = None,
      cfg_clipboard_enabled = True, cfg_clipboard_max_mb = DEFAULT_CLIPBOARD_MAX_MB,
      cfg_reverse_scroll = False, cfg_auto_discover = True, cfg_double_edge_style = Mirror\<rparr>"

definition validate_config :: "config \<Rightarrow> config_error + unit" where
  "validate_config c =
     (let device_name = trim (cfg_device_name c) in
      if device_name = [] then Inl EmptyDeviceName
      else if length device_name > MAX_DEVICE_NAME_BYTES then Inl DeviceNameTooLong
      else if has_control device_name then Inl DeviceNameControl
      else if cfg_listen_port c = 0 then Inl ZeroPort
      else if (case cfg_auto_connect_address c of None \<Rightarrow> False | Some a \<Rightarrow> trim a = [])
      then Inl EmptyAutoConnect
      else if cfg_mode c = ClientOnly \<and> cfg_auto_connect_address c \<noteq> None
      then Inl ReceiverAutoConnect
      else if cfg_clipboard_max_mb c = 0 \<or> MAX_CLIPBOARD_MAX_MB < cfg_clipboard_max_mb c
      then Inl ClipboardLimit
      else case validate (cfg_layout c) of Inl e \<Rightarrow> Inl (ConfigLayout e) | Inr u \<Rightarrow> Inr u)"

definition clipboard_max_bytes :: "config \<Rightarrow> nat" where
  "clipboard_max_bytes c =
     unat (max 1 (min MAX_CLIPBOARD_MAX_MB (cfg_clipboard_max_mb c))) * 1024 * 1024"

text \<open>\<open>str::contains\<close>.\<close>

fun contains :: "string \<Rightarrow> string \<Rightarrow> bool" where
  "contains [] pat = (pat = [])"
| "contains (c # s) pat = (is_prefix pat (c # s) \<or> contains s pat)"

definition STYLE_FIELD :: string where
  "STYLE_FIELD = CHR 0x22 # ''double_edge_style'' @ [CHR 0x22]"

definition load_config :: "(string \<Rightarrow> 'e + config) \<Rightarrow> string \<Rightarrow> ('e + config_error) + config" where
  "load_config parse raw =
     (case parse raw of
        Inl e \<Rightarrow> Inl (Inl e)
      | Inr c0 \<Rightarrow>
          (let c1 = c0\<lparr>cfg_transport := Udp\<rparr>;
               c = (if \<not> contains raw STYLE_FIELD
                    then c1\<lparr>cfg_edge_mode := Double, cfg_double_edge_style := Mirror\<rparr> else c1)
           in case validate_config c of Inl e \<Rightarrow> Inl (Inr e) | Inr _ \<Rightarrow> Inr c))"

section \<open>What a valid configuration is\<close>

definition config_ok :: "config \<Rightarrow> bool" where
  "config_ok c \<longleftrightarrow>
     (let name = trim (cfg_device_name c)
      in name \<noteq> [] \<and> length name \<le> MAX_DEVICE_NAME_BYTES \<and> \<not> has_control name)
     \<and> cfg_listen_port c \<noteq> 0
     \<and> (case cfg_auto_connect_address c of
          None \<Rightarrow> True
        | Some a \<Rightarrow> trim a \<noteq> [] \<and> cfg_mode c \<noteq> ClientOnly)
     \<and> 1 \<le> cfg_clipboard_max_mb c \<and> cfg_clipboard_max_mb c \<le> MAX_CLIPBOARD_MAX_MB
     \<and> layout_ok (cfg_layout c)"

lemma word_ge_1: "1 \<le> w \<longleftrightarrow> w \<noteq> (0 :: 'a :: len word)"
  using uint_pos_iff [of w] by (auto simp: word_le_def)

lemma validate_config_iff: "validate_config c = Inr () \<longleftrightarrow> config_ok c"
  by (auto simp: validate_config_def config_ok_def Let_def validate_iff [symmetric] word_ge_1 not_less
      split: option.splits sum.splits)

lemma clipboard_max_bytes_bounds:
  "1024 * 1024 \<le> clipboard_max_bytes c \<and> clipboard_max_bytes c \<le> 16 * 1024 * 1024"
proof -
  let ?m = "max 1 (min MAX_CLIPBOARD_MAX_MB (cfg_clipboard_max_mb c))"
  have "1 \<le> ?m" "?m \<le> 16"
    by (auto simp: MAX_CLIPBOARD_MAX_MB_def)
  then have "1 \<le> unat ?m" "unat ?m \<le> 16"
    by (simp_all add: word_le_nat_alt)
  then show ?thesis by (simp add: clipboard_max_bytes_def)
qed

lemma load_config_Inr:
  assumes "load_config parse raw = Inr c"
  shows "config_ok c \<and> cfg_transport c = Udp
    \<and> (\<exists>c0. parse raw = Inr c0 \<and> c = c0\<lparr>cfg_transport := Udp,
          cfg_edge_mode := if contains raw STYLE_FIELD then cfg_edge_mode c0 else Double,
          cfg_double_edge_style :=
            if contains raw STYLE_FIELD then cfg_double_edge_style c0 else Mirror\<rparr>)"
  using assms
  by (auto simp: load_config_def Let_def validate_config_iff split: sum.splits if_splits)

text \<open>
  C31: what a loaded configuration promises. Whatever the file says and however it is parsed,
  a configuration that loads has a usable name, a port, an auto-connect address only where
  the node may dial, a clipboard limit of 1 to 16 MiB and a valid arrangement; it runs over
  UDP, and a file that predates the entry style runs Double and Mirror.
\<close>

theorem loaded_config_valid:
  assumes "load_config parse raw = Inr c"
  shows "config_ok c \<and> validate_config c = Inr () \<and> cfg_transport c = Udp
    \<and> clipboard_max_bytes c = unat (cfg_clipboard_max_mb c) * 1048576
    \<and> 1048576 \<le> clipboard_max_bytes c \<and> clipboard_max_bytes c \<le> 16777216
    \<and> (contains raw STYLE_FIELD \<or> cfg_edge_mode c = Double \<and> cfg_double_edge_style c = Mirror)"
proof -
  have ok: "config_ok c" "cfg_transport c = Udp"
    and style: "contains raw STYLE_FIELD \<or> cfg_edge_mode c = Double \<and> cfg_double_edge_style c = Mirror"
    using load_config_Inr [OF assms] by auto
  have "max 1 (min MAX_CLIPBOARD_MAX_MB (cfg_clipboard_max_mb c)) = cfg_clipboard_max_mb c"
    using ok(1) by (auto simp: config_ok_def)
  then have "clipboard_max_bytes c = unat (cfg_clipboard_max_mb c) * 1048576"
    by (simp add: clipboard_max_bytes_def)
  then show ?thesis
    using ok style clipboard_max_bytes_bounds [of c] by (simp add: validate_config_iff)
qed

lemma loaded_config_valid_witness:
  "\<exists>c. load_config (\<lambda>_. Inr ((default_config (Some ''desk''))\<lparr>cfg_transport := Quic,
        cfg_edge_mode := Single\<rparr>) :: unit + config) ''{}'' = Inr c
     \<and> cfg_transport c = Udp \<and> cfg_edge_mode c = Double"
proof -
  let ?p = "\<lambda>_ :: string. Inr ((default_config (Some ''desk''))\<lparr>cfg_transport := Quic,
        cfg_edge_mode := Single\<rparr>) :: unit + config"
  have "(case load_config ?p ''{}'' of Inl _ \<Rightarrow> False | Inr c \<Rightarrow> \<not> contains ''{}'' STYLE_FIELD)"
    by code_simp
  then obtain c where "load_config ?p ''{}'' = Inr c" "\<not> contains ''{}'' STYLE_FIELD"
    by (auto split: sum.splits)
  then show ?thesis
    using loaded_config_valid [of ?p "''{}''" c] by blast
qed

end
