(* ===== verification/Datagram.thy ===== *)
theory Datagram
  imports Events
begin

text \<open>
  The pointer datagram of \<^verbatim>\<open>kvm-protocol/src/wire.rs\<close>: a version byte, a kind byte, the
  sequence number and the signed event fields, all big-endian. The interpretation of
  \<open>canonical_codec\<close> says that decoding undoes encoding and that the encoding is canonical: a decoder accepts nothing the encoder does not produce.
\<close>

text \<open>\<open>std::io::Error\<close>: its kind and message, for the kinds the protocol code makes.\<close>

datatype io_error = InvalidInput string | InvalidData string | UnexpectedEof

fun error_text :: "io_error \<Rightarrow> string" where
  "error_text (InvalidInput t) = t"
| "error_text (InvalidData t) = t"
| "error_text UnexpectedEof = ''unexpected end of file''"

definition MAX_DATAGRAM_SIZE :: nat where "MAX_DATAGRAM_SIZE = 1200"
definition DATAGRAM_MOUSE_MOVE :: u8 where "DATAGRAM_MOUSE_MOVE = 1"
definition DATAGRAM_WHEEL :: u8 where "DATAGRAM_WHEEL = 2"
definition DATAGRAM_SMOOTH_WHEEL :: u8 where "DATAGRAM_SMOOTH_WHEEL = 3"
definition DATAGRAM_VERSION :: u8 where "DATAGRAM_VERSION = 1"
definition DATAGRAM_MOUSE_MOVE_SIZE :: nat where "DATAGRAM_MOUSE_MOVE_SIZE = 1 + 1 + 8 + 4 + 4"
definition DATAGRAM_WHEEL_SIZE :: nat where "DATAGRAM_WHEEL_SIZE = 1 + 1 + 8 + 2 + 2"
definition DATAGRAM_SMOOTH_WHEEL_SIZE :: nat where "DATAGRAM_SMOOTH_WHEEL_SIZE = 1 + 1 + 8 + 4 + 4"

lemmas datagram_consts = MAX_DATAGRAM_SIZE_def DATAGRAM_MOUSE_MOVE_def DATAGRAM_WHEEL_def
  DATAGRAM_SMOOTH_WHEEL_def DATAGRAM_VERSION_def DATAGRAM_MOUSE_MOVE_SIZE_def
  DATAGRAM_WHEEL_SIZE_def DATAGRAM_SMOOTH_WHEEL_SIZE_def

record datagram_input =
  di_sequence :: u64
  di_event :: input_event

fun datagram_kind :: "input_event \<Rightarrow> u8 option" where
  "datagram_kind (MouseMove dx dy) = Some DATAGRAM_MOUSE_MOVE"
| "datagram_kind (Wheel d) = Some DATAGRAM_WHEEL"
| "datagram_kind (SmoothWheel x y) = Some DATAGRAM_SMOOTH_WHEEL"
| "datagram_kind _ = None"

text \<open>The event fields; the last arm is the code's \<open>unreachable!\<close>.\<close>

fun datagram_fields :: "input_event \<Rightarrow> bytes" where
  "datagram_fields (MouseMove dx dy) = be_encode 4 dx @ be_encode 4 dy"
| "datagram_fields (Wheel d) = be_encode 2 (wd_x d) @ be_encode 2 (wd_y d)"
| "datagram_fields (SmoothWheel x y) = be_encode 4 x @ be_encode 4 y"
| "datagram_fields _ = []"

definition encode_input_datagram :: "datagram_input \<Rightarrow> io_error + bytes" where
  "encode_input_datagram packet =
     (case datagram_kind (di_event packet) of
        None \<Rightarrow> Inl (InvalidInput ''only pointer motion and wheel events may use datagrams'')
      | Some kind \<Rightarrow>
          Inr ([DATAGRAM_VERSION, kind] @ be_encode 8 (di_sequence packet)
               @ datagram_fields (di_event packet)))"

text \<open>A slice \<open>payload[a..b]\<close>, and the reads of fixed-size fields.\<close>

definition slice :: "nat \<Rightarrow> nat \<Rightarrow> 'a list \<Rightarrow> 'a list" where
  "slice a b xs = take (b - a) (drop a xs)"

definition read_u64 :: "bytes \<Rightarrow> u64" where "read_u64 bs = be_decode bs"
definition read_i32 :: "bytes \<Rightarrow> i32" where "read_i32 bs = be_decode bs"
definition read_i16 :: "bytes \<Rightarrow> i16" where "read_i16 bs = be_decode bs"

definition decode_input_datagram :: "bytes \<Rightarrow> io_error + datagram_input" where
  "decode_input_datagram payload =
     (if length payload > MAX_DATAGRAM_SIZE then Inl (InvalidData ''invalid input datagram size'')
      else case payload of
        [] \<Rightarrow> Inl (InvalidData ''empty input datagram'')
      | version # rest \<Rightarrow>
          if version \<noteq> DATAGRAM_VERSION
          then Inl (InvalidData ''unsupported input datagram version'')
          else (case rest of
            [] \<Rightarrow> Inl (InvalidData ''missing input datagram kind'')
          | kind # _ \<Rightarrow>
              if kind = DATAGRAM_MOUSE_MOVE \<and> length payload = DATAGRAM_MOUSE_MOVE_SIZE
              then Inr \<lparr>di_sequence = read_u64 (slice 2 10 payload),
                     di_event = MouseMove (read_i32 (slice 10 14 payload))
                                          (read_i32 (slice 14 18 payload))\<rparr>
              else if kind = DATAGRAM_WHEEL \<and> length payload = DATAGRAM_WHEEL_SIZE
              then Inr \<lparr>di_sequence = read_u64 (slice 2 10 payload),
                     di_event = Wheel \<lparr>wd_x = read_i16 (slice 10 12 payload),
                                       wd_y = read_i16 (slice 12 14 payload)\<rparr>\<rparr>
              else if kind = DATAGRAM_SMOOTH_WHEEL \<and> length payload = DATAGRAM_SMOOTH_WHEEL_SIZE
              then Inr \<lparr>di_sequence = read_u64 (slice 2 10 payload),
                     di_event = SmoothWheel (read_i32 (slice 10 14 payload))
                                            (read_i32 (slice 14 18 payload))\<rparr>
              else Inl (InvalidData ''invalid input datagram kind or size'')))"

lemma slice_fields:
  assumes "length xs = a" "length ys = b - a" "a \<le> b"
  shows "slice a b (xs @ ys @ zs) = ys"
  using assms by (simp add: slice_def)

lemma drop_slice: "a \<le> b \<Longrightarrow> drop a xs = slice a b xs @ drop b xs"
  using append_take_drop_id [of "b - a" "drop a xs"] by (simp add: slice_def)

lemma split_payload:
  assumes "length payload = 10 + 2 * n"
  shows "payload = take 2 payload @ slice 2 10 payload @ slice 10 (10 + n) payload
    @ slice (10 + n) (10 + 2 * n) payload"
proof -
  have "payload = take 2 payload @ drop 2 payload"
    by simp
  also have "drop 2 payload = slice 2 10 payload @ slice 10 (10 + n) payload @ drop (10 + n) payload"
    using drop_slice [of 2 10 payload] drop_slice [of 10 "10 + n" payload] by simp
  also have "drop (10 + n) payload = slice (10 + n) (10 + 2 * n) payload"
    using assms by (simp add: slice_def)
  finally show ?thesis .
qed

lemma decode_encode_datagram:
  "encode_input_datagram d = Inr b \<Longrightarrow> decode_input_datagram b = Inr d"
proof -
  obtain s e where d: "d = \<lparr>di_sequence = s, di_event = e\<rparr>"
    by (cases d) auto
  assume "encode_input_datagram d = Inr b"
  then show ?thesis
    by (cases e)
      (auto simp: d encode_input_datagram_def decode_input_datagram_def datagram_consts
        read_u64_def read_i32_def read_i16_def slice_def)
qed


lemma length_slice: "b \<le> length xs \<Longrightarrow> length (slice a b xs) = b - a"
  by (auto simp: slice_def)

text \<open>Every accepted payload is the encoding of what it decodes to.\<close>

lemma encode_decode_datagram:
  assumes "decode_input_datagram b = Inr d"
  shows "encode_input_datagram d = Inr b"
proof -
  obtain kind rest where b: "b = DATAGRAM_VERSION # kind # rest"
    using assms by (auto simp: decode_input_datagram_def split: list.splits if_splits)
  have take2: "take 2 b = [DATAGRAM_VERSION, kind]"
    by (simp add: b)
  have fields: "be_encode 4 (read_i32 (slice 10 14 b)) = slice 10 14 b"
    "be_encode 4 (read_i32 (slice 14 18 b)) = slice 14 18 b"
    "be_encode 8 (read_u64 (slice 2 10 b)) = slice 2 10 b" if "length b = 18"
    using that by (simp_all add: read_i32_def read_u64_def be_encode_decode length_slice)
  have fields2: "be_encode 2 (read_i16 (slice 10 12 b)) = slice 10 12 b"
    "be_encode 2 (read_i16 (slice 12 14 b)) = slice 12 14 b"
    "be_encode 8 (read_u64 (slice 2 10 b)) = slice 2 10 b" if "length b = 14"
    using that by (simp_all add: read_i16_def read_u64_def be_encode_decode length_slice)
  consider (move) "kind = DATAGRAM_MOUSE_MOVE" "length b = 18"
      "d = \<lparr>di_sequence = read_u64 (slice 2 10 b),
         di_event = MouseMove (read_i32 (slice 10 14 b)) (read_i32 (slice 14 18 b))\<rparr>"
    | (wheel) "kind = DATAGRAM_WHEEL" "length b = 14"
      "d = \<lparr>di_sequence = read_u64 (slice 2 10 b),
         di_event = Wheel \<lparr>wd_x = read_i16 (slice 10 12 b), wd_y = read_i16 (slice 12 14 b)\<rparr>\<rparr>"
    | (smooth) "kind = DATAGRAM_SMOOTH_WHEEL" "length b = 18"
      "d = \<lparr>di_sequence = read_u64 (slice 2 10 b),
         di_event = SmoothWheel (read_i32 (slice 10 14 b)) (read_i32 (slice 14 18 b))\<rparr>"
    using assms b
    by (auto simp: decode_input_datagram_def DATAGRAM_MOUSE_MOVE_SIZE_def DATAGRAM_WHEEL_SIZE_def
        DATAGRAM_SMOOTH_WHEEL_SIZE_def split: if_splits)
  then show ?thesis
  proof cases
    case move
    then show ?thesis
      using split_payload [of b 4] fields take2 by (simp add: encode_input_datagram_def)
  next
    case wheel
    then show ?thesis
      using split_payload [of b 2] fields2 take2 by (simp add: encode_input_datagram_def)
  next
    case smooth
    then show ?thesis
      using split_payload [of b 4] fields take2 by (simp add: encode_input_datagram_def)
  qed
qed

interpretation datagram: canonical_codec encode_input_datagram decode_input_datagram
  by unfold_locales (fact decode_encode_datagram encode_decode_datagram)+

text \<open>
  C25: the pointer datagram format is exact. A payload decodes to an input exactly when it is
  that input's encoding, so decoding undoes encoding, no two inputs share a datagram and a
  receiver accepts nothing a sender could not have made; only motion and wheel events
  encode, in 14 or 18 bytes, far below the datagram limit.
\<close>

theorem datagram_codec_exact:
  "(decode_input_datagram b = Inr d \<longleftrightarrow> encode_input_datagram d = Inr b)
   \<and> (case encode_input_datagram d of
        Inr p \<Rightarrow> length p = (case di_event d of Wheel w \<Rightarrow> 14 | _ \<Rightarrow> 18)
          \<and> length p \<le> MAX_DATAGRAM_SIZE
      | Inl err \<Rightarrow> (case di_event d of
          MouseMove dx dy \<Rightarrow> False | Wheel w \<Rightarrow> False | SmoothWheel x y \<Rightarrow> False | _ \<Rightarrow> True))"
proof
  show "decode_input_datagram b = Inr d \<longleftrightarrow> encode_input_datagram d = Inr b"
    by (rule datagram.decode_iff)
  show "case encode_input_datagram d of
        Inr p \<Rightarrow> length p = (case di_event d of Wheel w \<Rightarrow> 14 | _ \<Rightarrow> 18)
          \<and> length p \<le> MAX_DATAGRAM_SIZE
      | Inl err \<Rightarrow> (case di_event d of
          MouseMove dx dy \<Rightarrow> False | Wheel w \<Rightarrow> False | SmoothWheel x y \<Rightarrow> False | _ \<Rightarrow> True)"
    by (cases "di_event d") (simp_all add: encode_input_datagram_def MAX_DATAGRAM_SIZE_def)
qed

end
