(* ===== verification/Wire.thy ===== *)
theory Wire
  imports Datagram Config
begin

text \<open>
  The messages of a session and their framing: \<^verbatim>\<open>kvm-protocol/src/wire.rs\<close>. Every variant
  of \<open>WireMessage\<close> is a constructor; \<open>validate_message\<close> is the check both ends run. A frame
  is a four-byte big-endian length and that many bytes of JSON; \<open>serde_json\<close> is the pair of
  parameters \<open>to_json\<close> and \<open>from_json\<close>, and \<open>json_ok\<close> is its documented behaviour: parsing
  undoes printing.
\<close>

section \<open>Messages\<close>

definition MAX_FRAME_SIZE :: nat where "MAX_FRAME_SIZE = 64 * 1024"
definition MAX_NODE_NAME_BYTES :: nat where "MAX_NODE_NAME_BYTES = 128"
definition MAX_REJECT_REASON_BYTES :: nat where "MAX_REJECT_REASON_BYTES = 1024"
definition MAX_CLIPBOARD_TEXT_BYTES :: nat where "MAX_CLIPBOARD_TEXT_BYTES = 48 * 1024"
definition MAX_CLIPBOARD_UPDATE_BYTES :: u64 where "MAX_CLIPBOARD_UPDATE_BYTES = 16 * 1024 * 1024"

lemmas wire_limits = MAX_FRAME_SIZE_def MAX_NODE_NAME_BYTES_def MAX_REJECT_REASON_BYTES_def
  MAX_CLIPBOARD_TEXT_BYTES_def MAX_CLIPBOARD_UPDATE_BYTES_def

record screen_geometry =
  sg_screen_id :: u32
  sg_width :: u32
  sg_height :: u32

record hello =
  he_node_name :: string
  he_mode :: mode
  he_lock_screen_requested :: bool
  he_clipboard_enabled :: bool
  he_screen_geometry :: "screen_geometry option"
  he_smooth_scroll :: bool
  he_pinch_zoom :: bool
  he_motion_lane :: bool
  he_link_id :: "u64 option"
  he_udp_motion :: bool

record accepted =
  ac_lock_screen_enabled :: bool
  ac_clipboard_enabled :: bool
  ac_screen_geometry :: "screen_geometry option"
  ac_smooth_scroll :: bool
  ac_pinch_zoom :: bool
  ac_motion_lane :: bool
  ac_udp_motion :: bool

datatype wire_message =
    Hello hello
  | PairRequest (pr_node_name: string) (pr_fingerprint: string) (pr_code: "string option")
  | PairChallenge (pc_node_name: string) (pc_fingerprint: string) (pc_code: "string option")
      (pc_pre_approved: bool)
  | PairConfirm (pf_fingerprint: string)
  | Accepted accepted
  | Input input_packet
  | StateSync input_state
  | ClipboardText (ct_revision: u64) (ct_text: string)
  | ClipboardImage (ci_revision: u64) (ci_width: u32) (ci_height: u32) (ci_png: string)
  | ClipboardStart (cs_revision: u64) (cs_total: u64) (cs_chunks: u32)
  | ClipboardImageStart (is_revision: u64) (is_total: u64) (is_chunks: u32) (is_width: u32)
      (is_height: u32)
  | ClipboardChunk (cc_revision: u64) (cc_index: u32) (cc_data: string)
  | ClipboardImageChunk (ic_revision: u64) (ic_index: u32) (ic_data: string)
  | ClipboardEnd (ce_revision: u64)
  | ClipboardImageEnd (ie_revision: u64)
  | ReleaseAll
  | LinkEnded (le_link_id: "u64 option")
  | Ping (pi_nonce: u64)
  | Pong (po_nonce: u64)
  | PointerHandoff (ph_screen_id: u32) (ph_target_name: string) (ph_x: u32) (ph_y: u32)
      (ph_geometry: "screen_geometry option")
  | HandoffRequest (hr_screen_id: u32) (hr_target_name: string) (hr_x: u32) (hr_y: u32)
      (hr_dx: i32) (hr_dy: i32) (hr_geometry: "screen_geometry option")
  | Reject (re_reason: string)

section \<open>Validation\<close>

definition validate_image_dims :: "u32 \<Rightarrow> u32 \<Rightarrow> io_error + unit" where
  "validate_image_dims width height =
     (if width = 0 \<or> height = 0 \<or> 16384 < width \<or> 16384 < height
      then Inl (InvalidInput ''clipboard image dimensions are empty or exceed maximum size'')
      else Inr ())"

definition validate_node_name :: "string \<Rightarrow> io_error + unit" where
  "validate_node_name name =
     (if trim name = [] \<or> length name > MAX_NODE_NAME_BYTES \<or> has_control name
      then Inl (InvalidInput ''node name is empty, too long, or contains control characters'')
      else Inr ())"

definition validate_fingerprint :: "string \<Rightarrow> io_error + unit" where
  "validate_fingerprint fingerprint =
     (if length fingerprint \<noteq> 64 \<or> \<not> list_all is_ascii_hexdigit fingerprint
      then Inl (InvalidInput ''fingerprint must contain 64 hexadecimal characters'')
      else Inr ())"

text \<open>Sequencing of checks, the \<open>?\<close> operator on \<open>Result<(), E>\<close>.\<close>

definition and_then :: "'e + unit \<Rightarrow> 'e + 'a \<Rightarrow> 'e + 'a" where
  "and_then r next = (case r of Inl e \<Rightarrow> Inl e | Inr _ \<Rightarrow> next)"

definition guard :: "bool \<Rightarrow> 'e \<Rightarrow> 'e + unit" where
  "guard bad e = (if bad then Inl e else Inr ())"

text \<open>The first match of \<open>validate_message\<close>: field checks, and the geometry to check next.\<close>

fun message_fields :: "wire_message \<Rightarrow> io_error + screen_geometry option" where
  "message_fields (Hello h) =
     and_then (validate_node_name (he_node_name h)) (Inr (he_screen_geometry h))"
| "message_fields (Accepted a) = Inr (ac_screen_geometry a)"
| "message_fields (PointerHandoff i name x y geometry) = Inr geometry"
| "message_fields (HandoffRequest i name x y dx dy geometry) = Inr geometry"
| "message_fields (PairRequest node_name fingerprint_hex pairing_code) =
     and_then (validate_node_name node_name)
    (and_then (validate_fingerprint fingerprint_hex)
    (and_then (case pairing_code of
        None \<Rightarrow> Inr ()
      | Some code \<Rightarrow> guard (length code > 16 \<or> has_control code)
          (InvalidInput ''pairing code is too long or contains control characters''))
      (Inr None)))"
| "message_fields (PairChallenge node_name fingerprint_hex verification_code pre) =
     and_then (validate_node_name node_name)
    (and_then (validate_fingerprint fingerprint_hex)
    (and_then (case verification_code of
        None \<Rightarrow> Inr ()
      | Some code \<Rightarrow> guard (length code \<noteq> 6 \<or> \<not> list_all is_ascii_digit code)
          (InvalidInput ''pairing verification code must contain exactly six digits''))
      (Inr None)))"
| "message_fields (PairConfirm fingerprint_hex) =
     and_then (validate_fingerprint fingerprint_hex) (Inr None)"
| "message_fields (Reject reason) =
     and_then (guard (length reason > MAX_REJECT_REASON_BYTES \<or> has_control reason)
       (InvalidInput ''rejection reason is empty, too long, or contains control characters''))
     (Inr None)"
| "message_fields _ = Inr None"

definition validate_geometry :: "screen_geometry option \<Rightarrow> io_error + unit" where
  "validate_geometry geometry =
     (case geometry of
        None \<Rightarrow> Inr ()
      | Some g \<Rightarrow>
          if sg_width g = 0 \<or> sg_height g = 0
          then Inl (InvalidInput ''screen geometry cannot have zero width or height'')
          else if 1000000 < sg_width g \<or> 1000000 < sg_height g
          then Inl (InvalidInput ''screen geometry exceeds maximum dimension'')
          else Inr ())"

text \<open>\<open>u64::div_ceil\<close> by the chunk size; the sum cannot wrap below the update ceiling.\<close>

definition min_chunks :: "u64 \<Rightarrow> u64" where
  "min_chunks total_bytes =
     (let d = of_nat MAX_CLIPBOARD_TEXT_BYTES; q = total_bytes div d
      in if 0 < total_bytes mod d then q + 1 else q)"

fun validate_payload :: "wire_message \<Rightarrow> io_error + unit" where
  "validate_payload (ClipboardText revision text) =
     guard (length text > MAX_CLIPBOARD_TEXT_BYTES)
       (InvalidInput ''clipboard text exceeds maximum size'')"
| "validate_payload (ClipboardImage revision width height png_base64) =
     and_then (guard (length png_base64 > MAX_CLIPBOARD_TEXT_BYTES)
       (InvalidInput ''clipboard image exceeds maximum single-shot size''))
     (validate_image_dims width height)"
| "validate_payload (ClipboardChunk revision index data) =
     guard (length data > MAX_CLIPBOARD_TEXT_BYTES)
       (InvalidInput ''clipboard chunk exceeds maximum size'')"
| "validate_payload (ClipboardImageChunk revision index data) =
     guard (length data > MAX_CLIPBOARD_TEXT_BYTES)
       (InvalidInput ''clipboard chunk exceeds maximum size'')"
| "validate_payload (ClipboardStart revision total_bytes chunks) =
     and_then (guard (MAX_CLIPBOARD_UPDATE_BYTES < total_bytes \<or> chunks = 0)
       (InvalidInput ''clipboard transfer header is empty or exceeds maximum size''))
     (guard (ucast chunks < min_chunks total_bytes)
       (InvalidInput ''clipboard transfer header undercounts its chunks''))"
| "validate_payload (ClipboardImageStart revision total_bytes chunks width height) =
     and_then (guard (MAX_CLIPBOARD_UPDATE_BYTES < total_bytes \<or> chunks = 0)
       (InvalidInput ''clipboard image transfer header is empty or exceeds maximum size''))
    (and_then (validate_image_dims width height)
     (guard (ucast chunks < min_chunks total_bytes)
       (InvalidInput ''clipboard image transfer header undercounts its chunks'')))"
| "validate_payload _ = Inr ()"

definition validate_message :: "wire_message \<Rightarrow> io_error + unit" where
  "validate_message message =
     (case message_fields message of
        Inl e \<Rightarrow> Inl e
      | Inr geometry \<Rightarrow> and_then (validate_geometry geometry) (validate_payload message))"

section \<open>Frames\<close>

text \<open>\<open>write_frame\<close> appends to what the writer has been given; \<open>read_frame\<close> returns the
  message and the bytes it left. \<open>Inr None\<close> is a stream that ended before the frame.\<close>

definition write_frame ::
  "(wire_message \<Rightarrow> string + bytes) \<Rightarrow> bytes \<Rightarrow> wire_message \<Rightarrow> io_error + bytes" where
  "write_frame to_json writer message =
     (case validate_message message of
        Inl e \<Rightarrow> Inl e
      | Inr _ \<Rightarrow>
          (case to_json message of
             Inl e \<Rightarrow> Inl (InvalidData e)
           | Inr payload \<Rightarrow>
               if length payload > MAX_FRAME_SIZE
               then Inl (InvalidInput ''wire message exceeds maximum frame size'')
               else Inr (writer @ be_encode 4 (of_nat (length payload) :: u32) @ payload)))"

definition read_frame ::
  "(bytes \<Rightarrow> string + wire_message) \<Rightarrow> bytes \<Rightarrow> io_error + (wire_message \<times> bytes) option" where
  "read_frame from_json reader =
     (if length reader < 4 then Inr None
      else
        (let size = unat (be_decode (take 4 reader) :: u32);
             rest = drop 4 reader
         in if size = 0 \<or> size > MAX_FRAME_SIZE
            then Inl (InvalidData ''invalid wire frame size'')
            else if length rest < size then Inl UnexpectedEof
            else case from_json (take size rest) of
              Inl e \<Rightarrow> Inl (InvalidData e)
            | Inr message \<Rightarrow>
                (case validate_message message of
                   Inl e \<Rightarrow> Inl (InvalidData (error_text e))
                 | Inr _ \<Rightarrow> Inr (Some (message, drop size rest)))))"

section \<open>What a valid message is\<close>

definition name_ok :: "string \<Rightarrow> bool" where
  "name_ok name \<longleftrightarrow> trim name \<noteq> [] \<and> length name \<le> 128 \<and> \<not> has_control name"

definition fingerprint_ok :: "string \<Rightarrow> bool" where
  "fingerprint_ok fp \<longleftrightarrow> length fp = 64 \<and> list_all is_ascii_hexdigit fp"

definition geometry_ok :: "screen_geometry option \<Rightarrow> bool" where
  "geometry_ok g = (case g of None \<Rightarrow> True | Some s \<Rightarrow>
     1 \<le> sg_width s \<and> sg_width s \<le> 1000000 \<and> 1 \<le> sg_height s \<and> sg_height s \<le> 1000000)"

definition dims_ok :: "u32 \<Rightarrow> u32 \<Rightarrow> bool" where
  "dims_ok w h \<longleftrightarrow> 1 \<le> w \<and> w \<le> 16384 \<and> 1 \<le> h \<and> h \<le> 16384"

text \<open>A transfer header: at most 16 MiB, and enough 48 KiB chunks to carry it.\<close>

definition transfer_ok :: "u64 \<Rightarrow> u32 \<Rightarrow> bool" where
  "transfer_ok bytes_total chunks \<longleftrightarrow>
     unat bytes_total \<le> 16777216 \<and> 0 < unat chunks \<and> unat bytes_total \<le> unat chunks * 49152"

fun message_ok :: "wire_message \<Rightarrow> bool" where
  "message_ok (Hello h) = (name_ok (he_node_name h) \<and> geometry_ok (he_screen_geometry h))"
| "message_ok (Accepted a) = geometry_ok (ac_screen_geometry a)"
| "message_ok (PointerHandoff i name x y g) = geometry_ok g"
| "message_ok (HandoffRequest i name x y dx dy g) = geometry_ok g"
| "message_ok (PairRequest name fp code) = (name_ok name \<and> fingerprint_ok fp
     \<and> (case code of None \<Rightarrow> True | Some c \<Rightarrow> length c \<le> 16 \<and> \<not> has_control c))"
| "message_ok (PairChallenge name fp code pre) = (name_ok name \<and> fingerprint_ok fp
     \<and> (case code of None \<Rightarrow> True | Some c \<Rightarrow> length c = 6 \<and> list_all is_ascii_digit c))"
| "message_ok (PairConfirm fp) = fingerprint_ok fp"
| "message_ok (Reject reason) = (length reason \<le> 1024 \<and> \<not> has_control reason)"
| "message_ok (ClipboardText n text) = (length text \<le> 49152)"
| "message_ok (ClipboardImage n w h png) = (length png \<le> 49152 \<and> dims_ok w h)"
| "message_ok (ClipboardChunk n i data) = (length data \<le> 49152)"
| "message_ok (ClipboardImageChunk n i data) = (length data \<le> 49152)"
| "message_ok (ClipboardStart n bytes_total chunks) = transfer_ok bytes_total chunks"
| "message_ok (ClipboardImageStart n bytes_total chunks w h) = (transfer_ok bytes_total chunks \<and> dims_ok w h)"
| "message_ok _ = True"

lemma geometry_ok_None [simp]: "geometry_ok None"
  by (simp add: geometry_ok_def)

lemma and_then_Inr: "and_then r n = Inr x \<longleftrightarrow> r = Inr () \<and> n = Inr x"
  by (cases r) (auto simp: and_then_def)

lemma guard_Inr: "guard bad e = Inr () \<longleftrightarrow> \<not> bad"
  by (simp add: guard_def)

lemma validate_node_name_iff: "validate_node_name n = Inr () \<longleftrightarrow> name_ok n"
  by (auto simp: validate_node_name_def name_ok_def wire_limits)

lemma validate_fingerprint_iff: "validate_fingerprint fp = Inr () \<longleftrightarrow> fingerprint_ok fp"
  by (auto simp: validate_fingerprint_def fingerprint_ok_def)

lemma validate_image_dims_iff: "validate_image_dims w h = Inr () \<longleftrightarrow> dims_ok w h"
  by (auto simp: validate_image_dims_def dims_ok_def word_ge_1 not_less)

lemma validate_geometry_iff: "validate_geometry g = Inr () \<longleftrightarrow> geometry_ok g"
  by (auto simp: validate_geometry_def geometry_ok_def word_ge_1 not_less split: option.splits)

lemma div_ceil:
  fixes n d :: nat
  assumes "0 < d"
  shows "(n + (d - 1)) div d = (if 0 < n mod d then n div d + 1 else n div d)"
proof -
  have "n + (d - 1) = (n mod d + (d - 1)) + n div d * d"
    by simp
  then have "(n + (d - 1)) div d = n div d + (n mod d + (d - 1)) div d"
    using assms by (metis div_mult_self1 less_not_refl3 add.commute)
  moreover have "(n mod d + (d - 1)) div d = (if 0 < n mod d then 1 else 0)"
  proof (cases "n mod d")
    case 0
    then show ?thesis using assms by simp
  next
    case (Suc m)
    moreover have "m < d"
      using Suc mod_less_divisor [OF assms, of n] by simp
    moreover have "(m + d) div d = m div d + 1"
      using assms by (intro div_add_self2) simp
    ultimately show ?thesis by simp
  qed
  ultimately show ?thesis by simp
qed

lemma div_ceil_le:
  fixes n d c :: nat
  assumes "0 < d"
  shows "(n + (d - 1)) div d \<le> c \<longleftrightarrow> n \<le> c * d"
proof -
  have "(n + (d - 1)) div d \<le> c \<longleftrightarrow> (n + (d - 1)) div d < Suc c"
    by (simp add: less_Suc_eq_le)
  also have "\<dots> \<longleftrightarrow> n + (d - 1) < Suc c * d"
    using assms by (rule div_less_iff_less_mult)
  also have "\<dots> \<longleftrightarrow> n \<le> c * d"
    using assms by auto
  finally show ?thesis .
qed

lemma unat_min_chunks:
  assumes "unat bytes_total \<le> 16777216"
  shows "unat (min_chunks bytes_total) = (unat bytes_total + 49151) div 49152"
proof -
  have q: "unat (bytes_total div 49152) = unat bytes_total div 49152" "unat (bytes_total mod 49152) = unat bytes_total mod 49152"
    by (simp_all add: unat_div unat_mod)
  have small: "unat bytes_total div 49152 < 342"
    using assms by linarith
  have succ: "unat (bytes_total div 49152 + 1) = unat bytes_total div 49152 + 1"
    using small by (subst unat_add_lem [THEN iffD1]) (simp_all add: q)
  have pos: "0 < bytes_total mod 49152 \<longleftrightarrow> 0 < unat bytes_total mod 49152"
    by (simp add: word_less_nat_alt q(2))
  have "(unat bytes_total + 49151) div 49152
      = (if 0 < unat bytes_total mod 49152 then unat bytes_total div 49152 + 1 else unat bytes_total div 49152)"
    using div_ceil [of 49152 "unat bytes_total"] by simp
  then show ?thesis
    using succ q(1) pos by (simp add: min_chunks_def Let_def wire_limits)
qed

lemma transfer_iff:
  "\<not> (MAX_CLIPBOARD_UPDATE_BYTES < bytes_total \<or> chunks = 0) \<and> \<not> ucast chunks < min_chunks bytes_total
   \<longleftrightarrow> transfer_ok bytes_total chunks"
proof (cases "unat bytes_total \<le> 16777216 \<and> chunks \<noteq> 0")
  case True
  have u: "unat (ucast chunks :: u64) = unat chunks"
  proof -
    have "unat chunks < 2 ^ 64"
      by (rule order_less_trans [OF unsigned_less [of chunks]]) simp
    then show ?thesis by (simp add: unsigned_ucast_eq take_bit_nat_eq_self)
  qed
  have "(unat bytes_total + 49151) div 49152 \<le> unat chunks \<longleftrightarrow> unat bytes_total \<le> unat chunks * 49152"
    using div_ceil_le [of 49152 "unat bytes_total" "unat chunks"] by simp
  then have "\<not> ucast chunks < min_chunks bytes_total \<longleftrightarrow> unat bytes_total \<le> unat chunks * 49152"
    using True u by (simp add: not_less word_le_nat_alt unat_min_chunks)
  moreover have "0 < unat chunks"
    using True by (simp add: unat_gt_0)
  ultimately show ?thesis
    using True by (auto simp: transfer_ok_def wire_limits word_less_nat_alt)
next
  case False
  then show ?thesis
    by (auto simp: transfer_ok_def wire_limits word_less_nat_alt)
qed

lemma validate_message_steps:
  "validate_message m = Inr () \<longleftrightarrow>
     (\<exists>g. message_fields m = Inr g \<and> validate_geometry g = Inr () \<and> validate_payload m = Inr ())"
  by (auto simp: validate_message_def and_then_Inr split: sum.splits)

lemma validate_message_iff: "validate_message m = Inr () \<longleftrightarrow> message_ok m"
proof (cases m)
  case (ClipboardStart n bytes_total chunks)
  then show ?thesis
    using transfer_iff [of bytes_total chunks]
    by (simp add: validate_message_steps validate_geometry_def and_then_Inr guard_Inr)
next
  case (ClipboardImageStart n bytes_total chunks w h)
  then show ?thesis
    using transfer_iff [of bytes_total chunks]
    by (auto simp: validate_message_steps validate_geometry_def and_then_Inr guard_Inr
        validate_image_dims_iff)
qed (auto simp: validate_message_steps and_then_Inr guard_Inr validate_node_name_iff
    validate_fingerprint_iff validate_image_dims_iff validate_geometry_iff wire_limits
    not_less split: option.splits)

text \<open>
  Message validation means what it says. \<open>validate_message\<close> accepts exactly the messages
  whose names, fingerprints, codes, geometries, image sizes, texts and chunks are within
  their bounds, and a clipboard transfer header only if it announces at most 16 MiB and
  enough chunks of 48 KiB to carry them: no peer can announce an unbounded transfer or one
  it cannot complete.
\<close>

theorem validate_message_exact: "validate_message m = Inr () \<longleftrightarrow> message_ok m"
  by (rule validate_message_iff)

section \<open>Framing\<close>

definition json_ok ::
  "(wire_message \<Rightarrow> string + bytes) \<Rightarrow> (bytes \<Rightarrow> string + wire_message) \<Rightarrow> bool" where
  "json_ok to_json from_json \<longleftrightarrow>
     (\<forall>m p. to_json m = Inr p \<longrightarrow> from_json p = Inr m \<and> p \<noteq> [])"

lemma json_okD: "json_ok t f \<Longrightarrow> t m = Inr p \<Longrightarrow> f p = Inr m \<and> p \<noteq> []"
  by (simp add: json_ok_def)

lemma write_frame_Inr:
  "write_frame to_json w m = Inr w' \<longleftrightarrow>
     validate_message m = Inr () \<and> (\<exists>p. to_json m = Inr p \<and> length p \<le> 65536
       \<and> w' = w @ be_encode 4 (of_nat (length p) :: u32) @ p)"
  by (auto simp: write_frame_def wire_limits split: sum.splits)

lemma frame_size:
  assumes "length p \<le> 65536"
  shows "unat (of_nat (length p) :: u32) = length p"
  using assms by (simp add: unat_of_nat take_bit_nat_eq_self)

lemma read_written_frame:
  assumes json: "json_ok to_json from_json" and w: "write_frame to_json w m = Inr w'"
  obtains f where "w' = w @ f" "f \<noteq> []" "length f \<le> 65540"
    "\<forall>rest. read_frame from_json (f @ rest) = Inr (Some (m, rest))"
proof -
  from w obtain p where p: "validate_message m = Inr ()" "to_json m = Inr p" "length p \<le> 65536"
      "w' = w @ be_encode 4 (of_nat (length p) :: u32) @ p"
    by (auto simp: write_frame_Inr)
  let ?f = "be_encode 4 (of_nat (length p) :: u32) @ p"
  have j: "from_json p = Inr m" "p \<noteq> []"
    using json_okD [OF json p(2)] by auto
  have "read_frame from_json (?f @ rest) = Inr (Some (m, rest))" for rest
    using p(1,3) j by (simp add: read_frame_def frame_size wire_limits)
  then show ?thesis
    by (intro that [of ?f]) (use p(3,4) j in simp_all)
qed

text \<open>A sender's writes and a receiver's reads, one frame after another.\<close>

fun write_frames ::
  "(wire_message \<Rightarrow> string + bytes) \<Rightarrow> bytes \<Rightarrow> wire_message list \<Rightarrow> io_error + bytes" where
  "write_frames to_json w [] = Inr w"
| "write_frames to_json w (m # ms) =
     (case write_frame to_json w m of Inl e \<Rightarrow> Inl e | Inr w' \<Rightarrow> write_frames to_json w' ms)"

lemma read_frame_shrinks:
  "read_frame from_json r = Inr (Some (m, rest)) \<Longrightarrow> length rest < length r"
  by (auto simp: read_frame_def Let_def split: if_splits sum.splits)

function read_frames ::
  "(bytes \<Rightarrow> string + wire_message) \<Rightarrow> bytes \<Rightarrow> wire_message list \<times> io_error option" where
  "read_frames from_json r =
     (case read_frame from_json r of
        Inl e \<Rightarrow> ([], Some e)
      | Inr None \<Rightarrow> ([], None)
      | Inr (Some (m, rest)) \<Rightarrow> (let (ms, e) = read_frames from_json rest in (m # ms, e)))"
  by pat_completeness auto
termination
  by (relation "measure (\<lambda>(f, r). length r)") (auto dest: read_frame_shrinks)

declare read_frames.simps [simp del]

lemma write_frames_prefix:
  assumes "json_ok to_json from_json" and "write_frames to_json w ms = Inr w'"
  shows "\<exists>s. w' = w @ s \<and> read_frames from_json s = (ms, None)"
  using assms(2)
proof (induction ms arbitrary: w)
  case Nil
  have "read_frames from_json [] = ([], None)"
    by (subst read_frames.simps) (simp add: read_frame_def)
  with Nil show ?case by simp
next
  case (Cons m ms)
  then obtain w1 where w1: "write_frame to_json w m = Inr w1" "write_frames to_json w1 ms = Inr w'"
    by (auto split: sum.splits)
  obtain f where f: "w1 = w @ f" "f \<noteq> []" "length f \<le> 65540"
      "\<forall>rest. read_frame from_json (f @ rest) = Inr (Some (m, rest))"
    by (rule read_written_frame [OF assms(1) w1(1)])
  obtain s where s: "w' = w1 @ s" "read_frames from_json s = (ms, None)"
    using Cons.IH [OF w1(2)] by blast
  have "read_frames from_json (f @ s) = (m # ms, None)"
    by (subst read_frames.simps) (simp add: f(4) s(2))
  then show ?case
    using s(1) f(1) by auto
qed

text \<open>
  C26: frames arrive whole, once and in order. Whatever messages a sender writes to a stream
  one after another, the receiver of that stream reads back exactly those messages in that
  order and then sees its end, given that JSON parsing undoes printing.
\<close>

theorem frames_in_order:
  assumes "json_ok to_json from_json" and "write_frames to_json [] ms = Inr stream"
  shows "read_frames from_json stream = (ms, None)"
  using write_frames_prefix [OF assms] by simp

text \<open>A concrete printer and parser for the probe messages.\<close>

fun probe_json :: "wire_message \<Rightarrow> string + bytes" where
  "probe_json (Ping n) = Inr (1 # be_encode 8 n)"
| "probe_json (Pong n) = Inr (2 # be_encode 8 n)"
| "probe_json ReleaseAll = Inr [3]"
| "probe_json _ = Inl ''not a probe''"

fun probe_parse :: "bytes \<Rightarrow> string + wire_message" where
  "probe_parse [] = Inl ''empty''"
| "probe_parse (k # bs) =
     (if k = 1 then Inr (Ping (be_decode bs))
      else if k = 2 then Inr (Pong (be_decode bs))
      else if k = 3 then Inr ReleaseAll else Inl ''not a probe'')"

lemma probe_json_ok: "json_ok probe_json probe_parse"
  unfolding json_ok_def
proof (intro allI impI)
  fix m p assume "probe_json m = Inr p"
  then show "probe_parse p = Inr m \<and> p \<noteq> []"
    by (cases m) auto
qed

lemma frames_in_order_witness:
  "\<exists>stream. write_frames probe_json [] [Ping 7, ReleaseAll, Pong 9] = Inr stream
     \<and> read_frames probe_parse stream = ([Ping 7, ReleaseAll, Pong 9], None)"
proof -
  have valid: "validate_message (Ping n) = Inr ()" "validate_message ReleaseAll = Inr ()"
    "validate_message (Pong n) = Inr ()" for n
    by (simp_all add: validate_message_iff)
  have "\<exists>stream. write_frames probe_json [] [Ping 7, ReleaseAll, Pong 9] = Inr stream"
    by (simp add: write_frame_def valid wire_limits)
  then obtain stream where "write_frames probe_json [] [Ping 7, ReleaseAll, Pong 9] = Inr stream"
    by blast
  then show ?thesis
    using frames_in_order [OF probe_json_ok] by blast
qed

text \<open>
  C27: a frame that is accepted is bounded and valid. Whatever bytes arrive and however the
  JSON parser behaves, a message comes out of \<open>read_frame\<close> only from a frame of 1 to 65536
  bytes that the stream holds whole, the rest of the stream is what follows that frame, and
  the message satisfies the validity rules; so an oversized or truncated frame is an error.
\<close>

theorem read_frame_sound:
  assumes "read_frame from_json r = Inr (Some (m, rest))"
  shows "\<exists>size. 0 < size \<and> size \<le> 65536 \<and> unat (be_decode (take 4 r) :: u32) = size
    \<and> length r = 4 + size + length rest \<and> rest = drop (4 + size) r
    \<and> from_json (take size (drop 4 r)) = Inr m \<and> message_ok m"
proof -
  define n where "n = unat (be_decode (take 4 r) :: u32)"
  define q where "q = drop 4 r"
  have l: "\<not> length r < 4"
    using assms by (auto simp: read_frame_def)
  have "(if n = 0 \<or> n > 65536 then Inl (InvalidData ''invalid wire frame size'')
      else if length q < n then Inl UnexpectedEof
      else case from_json (take n q) of
          Inl e \<Rightarrow> Inl (InvalidData e)
        | Inr message \<Rightarrow>
            (case validate_message message of
               Inl e \<Rightarrow> Inl (InvalidData (error_text e))
             | Inr _ \<Rightarrow> Inr (Some (message, drop n q)))) = Inr (Some (m, rest))"
    using assms l unfolding read_frame_def Let_def wire_limits n_def q_def
    by (simp del: length_drop)
  then have h: "0 < n" "n \<le> 65536" "n \<le> length q" "from_json (take n q) = Inr m"
      "validate_message m = Inr ()" "rest = drop n q"
    by (auto split: if_splits sum.splits)
  have "rest = drop (4 + n) r" "length r = 4 + n + length rest"
    using h(3,6) l by (simp_all add: q_def add.commute)
  moreover have "message_ok m"
    using h(5) by (simp add: validate_message_iff)
  ultimately show ?thesis
    using h(1,2,4) unfolding n_def q_def by blast
qed

lemma read_frame_sound_witness:
  "read_frame probe_parse [0, 0, 0, 1, 3, 9] = Inr (Some (ReleaseAll, [9])) \<and> message_ok ReleaseAll"
proof -
  have one: "(be_decode [0, 0, 0, 1] :: u32) = 1"
    by (simp add: be_decode_def)
  have valid: "validate_message ReleaseAll = Inr ()"
    by (simp add: validate_message_iff)
  have "read_frame probe_parse [0, 0, 0, 1, 3, 9] = Inr (Some (ReleaseAll, [9]))"
    using one valid by (simp add: read_frame_def wire_limits)
  then show ?thesis
    using read_frame_sound [of probe_parse "[0, 0, 0, 1, 3, 9]" ReleaseAll "[9]"] by blast
qed

section \<open>The greeting of a configured node\<close>

text \<open>The first message of a dialling node, \<open>connect_session\<close> of \<^verbatim>\<open>kvm-daemon/src/service.rs\<close>.\<close>

definition client_hello ::
  "string \<Rightarrow> mode \<Rightarrow> bool \<Rightarrow> bool \<Rightarrow> screen_geometry option \<Rightarrow> u64 option \<Rightarrow> bool \<Rightarrow> wire_message"
  where
  "client_hello node_name mode request_lock_screen clipboard_enabled geometry link_id want_udp =
     Hello \<lparr>he_node_name = node_name, he_mode = mode,
       he_lock_screen_requested = request_lock_screen,
       he_clipboard_enabled = clipboard_enabled, he_screen_geometry = geometry,
       he_smooth_scroll = True, he_pinch_zoom = True, he_motion_lane = True,
       he_link_id = link_id, he_udp_motion = want_udp\<rparr>"

text \<open>
  A valid configuration can greet, provided its name carries no outer white space. The
  name is sent as configured, and the wire check does not trim it as the configuration
  check does: a configuration named \<open>desk\<close> and a line feed validates, and every greeting it
  sends is refused by the node's own sender.
\<close>

theorem valid_config_greets:
  "(config_ok c \<and> trim (cfg_device_name c) = cfg_device_name c \<and> geometry_ok g \<longrightarrow>
      validate_message (client_hello (cfg_device_name c) (cfg_mode c) lock clip g link udp) = Inr ())
   \<and> (let c' = (default_config None)\<lparr>cfg_device_name := ''desk'' @ [CHR 0x0A]\<rparr>
      in validate_config c' = Inr ()
         \<and> validate_message (client_hello (cfg_device_name c') (cfg_mode c') lock clip None link udp)
             = Inl (InvalidInput ''node name is empty, too long, or contains control characters''))"
proof
  show "config_ok c \<and> trim (cfg_device_name c) = cfg_device_name c \<and> geometry_ok g \<longrightarrow>
      validate_message (client_hello (cfg_device_name c) (cfg_mode c) lock clip g link udp) = Inr ()"
    by (auto simp: validate_message_iff client_hello_def config_ok_def name_ok_def Let_def
        MAX_DEVICE_NAME_BYTES_def)
  have "validate_config ((default_config None)\<lparr>cfg_device_name := ''desk'' @ [CHR 0x0A]\<rparr>) = Inr ()"
    by code_simp
  moreover have "validate_node_name (''desk'' @ [CHR 0x0A])
      = Inl (InvalidInput ''node name is empty, too long, or contains control characters'')"
    by code_simp
  ultimately show "let c' = (default_config None)\<lparr>cfg_device_name := ''desk'' @ [CHR 0x0A]\<rparr>
      in validate_config c' = Inr ()
         \<and> validate_message (client_hello (cfg_device_name c') (cfg_mode c') lock clip None link udp)
             = Inl (InvalidInput ''node name is empty, too long, or contains control characters'')"
    by (simp add: Let_def client_hello_def validate_message_def and_then_def)
qed

lemma valid_config_greets_witness:
  "validate_message (client_hello ''desk'' Bidirectional False True None (Some 5) True) = Inr ()"
proof -
  let ?c = "default_config (Some ''desk'')"
  have "validate_config ?c = Inr ()" "trim ''desk'' = ''desk''"
    by code_simp+
  then have "config_ok ?c \<and> trim (cfg_device_name ?c) = cfg_device_name ?c \<and> geometry_ok None"
    by (simp add: validate_config_iff default_config_def)
  then show ?thesis
    using valid_config_greets [of ?c None False True "Some 5" True] by (simp add: default_config_def)
qed

end
