(* ===== verification/Udp.thy ===== *)
theory Udp
  imports Datagram "HOL-Library.AList"
begin

text \<open>
  The UDP fast path: \<^verbatim>\<open>kvm-protocol/src/udp.rs\<close>. The AEAD cipher (ChaCha20-Poly1305) is the
  pair of parameters \<open>encrypt\<close> and \<open>decrypt\<close> with \<open>aead_ok\<close> for what the code relies on, the
  hash (SHA-256) is the parameter \<open>hash\<close>, and the random nonce is an argument. The
  reassembly buffer is an association list for the code's \<open>HashMap\<close>; \<open>feed\<close> returns the
  buffer beside its result, since several error paths change it.
\<close>

definition DISCOVERY_PORT :: u16 where "DISCOVERY_PORT = 42111"
definition UDP_MAGIC :: bytes where "UDP_MAGIC = str_bytes ''THEKVMU1''"
definition UDP_VERSION :: u8 where "UDP_VERSION = 1"
definition KIND_RELIABLE :: u8 where "KIND_RELIABLE = 0"
definition KIND_MOTION :: u8 where "KIND_MOTION = 1"
definition KIND_ACK :: u8 where "KIND_ACK = 2"
definition NONCE_LEN :: nat where "NONCE_LEN = 12"
definition HEADER_LEN :: nat where "HEADER_LEN = 8 + NONCE_LEN"
definition TAG_LEN :: nat where "TAG_LEN = 16"
definition RELIABLE_FRAGMENT_BYTES :: nat where "RELIABLE_FRAGMENT_BYTES = 896"
definition MAX_RELIABLE_MESSAGE :: nat where "MAX_RELIABLE_MESSAGE = 64 * 1024"
definition MAX_FRAGMENTS :: nat where "MAX_FRAGMENTS = 128"

lemmas udp_consts = UDP_VERSION_def KIND_RELIABLE_def KIND_MOTION_def KIND_ACK_def
  NONCE_LEN_def HEADER_LEN_def TAG_LEN_def RELIABLE_FRAGMENT_BYTES_def MAX_RELIABLE_MESSAGE_def
  MAX_FRAGMENTS_def

section \<open>Ports, keys and sequence numbers\<close>

definition udp_port :: "u16 \<Rightarrow> u16" where
  "udp_port listen_port =
     (let candidate = listen_port + 1
      in if candidate = DISCOVERY_PORT \<or> candidate < 1024 then 42112 else candidate)"

text \<open>What \<open>derive_udp_key\<close> feeds to the hash.\<close>

definition normalize :: "string \<Rightarrow> string" where
  "normalize v = to_ascii_lowercase (trim v)"

definition udp_key_input :: "string \<Rightarrow> string \<Rightarrow> u64 \<Rightarrow> bytes" where
  "udp_key_input local_fp peer_fp link_id =
     (let l = normalize local_fp;
          p = normalize peer_fp;
          (first, second) = (if l \<le> p then (l, p) else (p, l))
      in str_bytes ''thekvm-udp-v1'' @ str_bytes first @ [0] @ str_bytes second @ [0]
           @ be_encode 8 link_id)"

definition derive_udp_key :: "(bytes \<Rightarrow> bytes) \<Rightarrow> string \<Rightarrow> string \<Rightarrow> u64 \<Rightarrow> bytes" where
  "derive_udp_key hash local_fp peer_fp link_id = hash (udp_key_input local_fp peer_fp link_id)"

definition next_seq :: "u64 \<Rightarrow> u64" where
  "next_seq counter = max (counter + 1) 1"

section \<open>Packets\<close>

type_synonym cipher = "bytes \<Rightarrow> bytes \<Rightarrow> bytes \<Rightarrow> bytes"
type_synonym decipher = "bytes \<Rightarrow> bytes \<Rightarrow> bytes \<Rightarrow> bytes option"

definition encode_packet :: "cipher \<Rightarrow> bytes \<Rightarrow> bytes \<Rightarrow> u8 \<Rightarrow> u64 \<Rightarrow> bytes \<Rightarrow> bytes" where
  "encode_packet encrypt nonce key kind seq body =
     (let plaintext = [UDP_VERSION, kind] @ be_encode 8 seq @ body
      in UDP_MAGIC @ nonce @ encrypt key nonce plaintext)"

text \<open>The loop over the key ring.\<close>

fun decode_with_keys ::
  "decipher \<Rightarrow> bytes \<Rightarrow> bytes \<Rightarrow> nat \<Rightarrow> bytes list \<Rightarrow> string + (nat \<times> u8 \<times> u64 \<times> bytes)" where
  "decode_with_keys decrypt nonce ciphertext index [] = Inl ''decrypt failed for all keys''"
| "decode_with_keys decrypt nonce ciphertext index (key # keys) =
     (case decrypt key nonce ciphertext of
        None \<Rightarrow> decode_with_keys decrypt nonce ciphertext (index + 1) keys
      | Some buffer \<Rightarrow>
          if length buffer < 10 then Inl ''plaintext too short''
          else if buffer ! 0 \<noteq> UDP_VERSION then Inl ''unsupported udp version''
          else (let kind = buffer ! 1 in
            if kind \<noteq> KIND_RELIABLE \<and> kind \<noteq> KIND_MOTION \<and> kind \<noteq> KIND_ACK
            then Inl ''unknown packet kind''
            else Inr (index, kind, be_decode (slice 2 10 buffer), drop 10 buffer)))"

definition decode_packet ::
  "decipher \<Rightarrow> bytes list \<Rightarrow> bytes \<Rightarrow> string + (nat \<times> u8 \<times> u64 \<times> bytes)" where
  "decode_packet decrypt keys datagram =
     (if length datagram < HEADER_LEN + 1 + 1 + 8 + TAG_LEN then Inl ''datagram too short''
      else if take 8 datagram \<noteq> UDP_MAGIC then Inl ''bad magic''
      else decode_with_keys decrypt (slice 8 HEADER_LEN datagram) (drop HEADER_LEN datagram) 0 keys)"

definition encode_motion_packet ::
  "cipher \<Rightarrow> bytes \<Rightarrow> bytes \<Rightarrow> u64 \<Rightarrow> i32 \<Rightarrow> i32 \<Rightarrow> bytes option" where
  "encode_motion_packet encrypt nonce key seq dx dy =
     (case encode_input_datagram \<lparr>di_sequence = seq, di_event = MouseMove dx dy\<rparr> of
        Inl _ \<Rightarrow> None
      | Inr body \<Rightarrow> Some (encode_packet encrypt nonce key KIND_MOTION seq body))"

definition decode_motion_packet ::
  "decipher \<Rightarrow> bytes list \<Rightarrow> bytes \<Rightarrow> string + (nat \<times> u64 \<times> i32 \<times> i32)" where
  "decode_motion_packet decrypt keys datagram =
     (case decode_packet decrypt keys datagram of
        Inl e \<Rightarrow> Inl e
      | Inr (index, kind, seq, body) \<Rightarrow>
          if kind \<noteq> KIND_MOTION then Inl ''not a motion packet''
          else (case decode_input_datagram body of
            Inl e \<Rightarrow> Inl (error_text e)
          | Inr input \<Rightarrow>
              (case di_event input of
                 MouseMove dx dy \<Rightarrow>
                   if di_sequence input \<noteq> seq then Inl ''motion sequence mismatch''
                   else Inr (index, seq, dx, dy)
               | _ \<Rightarrow> Inl ''motion packet carries non-motion event'')))"

section \<open>Fragments\<close>

text \<open>\<open>slice::chunks\<close>; the chunk size is positive.\<close>

function chunks_of :: "nat \<Rightarrow> 'a list \<Rightarrow> 'a list list" where
  "chunks_of n xs = (if n = 0 \<or> xs = [] then [] else take n xs # chunks_of n (drop n xs))"
  by pat_completeness auto
termination
  by (relation "measure (\<lambda>(n, xs). length xs)") auto

declare chunks_of.simps [simp del]

definition fragment :: "u64 \<Rightarrow> nat \<Rightarrow> nat \<Rightarrow> bytes \<Rightarrow> bytes" where
  "fragment msg_id index count chunk =
     be_encode 8 msg_id @ be_encode 2 (of_nat index :: u16) @ be_encode 2 (of_nat count :: u16) @ chunk"

definition split_reliable :: "u64 \<Rightarrow> bytes \<Rightarrow> string + bytes list" where
  "split_reliable msg_id payload =
     (if payload = [] \<or> length payload > MAX_RELIABLE_MESSAGE
      then Inl ''reliable payload size out of range''
      else
        (let count = (length payload + (RELIABLE_FRAGMENT_BYTES - 1)) div RELIABLE_FRAGMENT_BYTES
         in if count > MAX_FRAGMENTS then Inl ''reliable payload needs too many fragments''
            else Inr (map (\<lambda>(index, chunk). fragment msg_id index count chunk)
                   (enumerate 0 (chunks_of RELIABLE_FRAGMENT_BYTES payload)))))"

record reassembly =
  ra_total :: nat
  ra_chunks :: "bytes option list"
  ra_received :: nat

record reassembler =
  rs_pending :: "(u64 \<times> reassembly) list"

definition empty_reassembler :: reassembler where
  "empty_reassembler = \<lparr>rs_pending = []\<rparr>"

text \<open>Joining the chunks; \<open>None\<close> is the code's missing fragment.\<close>

fun join_chunks :: "bytes option list \<Rightarrow> bytes option" where
  "join_chunks [] = Some []"
| "join_chunks (None # cs) = None"
| "join_chunks (Some c # cs) = map_option (\<lambda>rest. c @ rest) (join_chunks cs)"

text \<open>The part of \<open>feed\<close> after the header checks, and \<open>feed\<close>.\<close>

definition feed_chunk :: "u64 \<Rightarrow> nat \<Rightarrow> nat \<Rightarrow> bytes \<Rightarrow> reassembler \<Rightarrow> reassembler \<times> (string + bytes option)"
  where
  "feed_chunk msg_id index count data st =
     (let entry = (case map_of (rs_pending st) msg_id of
            Some e \<Rightarrow> e
          | None \<Rightarrow> \<lparr>ra_total = count, ra_chunks = replicate count None, ra_received = 0\<rparr>);
          st1 = st\<lparr>rs_pending := AList.update msg_id entry (rs_pending st)\<rparr>
      in if ra_total entry \<noteq> count then (st1, Inl ''fragment count mismatch'')
         else
           (let entry2 = (if ra_chunks entry ! index = None
                  then entry\<lparr>ra_chunks := (ra_chunks entry)[index := Some data],
                             ra_received := ra_received entry + 1\<rparr>
                  else entry)
            in if ra_received entry2 = ra_total entry2
               then
                 (let st2 = st\<lparr>rs_pending := AList.delete msg_id (rs_pending st1)\<rparr>
                  in case join_chunks (ra_chunks entry2) of
                       None \<Rightarrow> (st2, Inl ''missing fragment'')
                     | Some out \<Rightarrow>
                         if length out > MAX_RELIABLE_MESSAGE
                         then (st2, Inl ''reassembled message too large'')
                         else (st2, Inr (Some out)))
               else (st\<lparr>rs_pending := AList.update msg_id entry2 (rs_pending st)\<rparr>, Inr None)))"

definition feed :: "bytes \<Rightarrow> reassembler \<Rightarrow> reassembler \<times> (string + bytes option)" where
  "feed body st =
     (if length body < 12 then (st, Inl ''fragment too short'')
      else
        (let msg_id = be_decode (slice 0 8 body) :: u64;
             index = unat (be_decode (slice 8 10 body) :: u16);
             count = unat (be_decode (slice 10 12 body) :: u16)
         in if count = 0 \<or> count > MAX_FRAGMENTS \<or> index \<ge> count
            then (st, Inl ''bad fragment header'')
            else
              (let data = drop 12 body
               in if length data > RELIABLE_FRAGMENT_BYTES then (st, Inl ''fragment too large'')
                  else if length (rs_pending st) \<ge> 16 \<and> map_of (rs_pending st) msg_id = None
                  then (st, Inl ''too many concurrent assemblies'')
                  else feed_chunk msg_id index count data st)))"

section \<open>Ports, keys and sequence numbers are sound\<close>

text \<open>
  The UDP port is usable and distinct. For every listen port, the derived UDP port is
  not privileged, is neither the discovery port nor the listen port itself, and is the next
  port wherever that is allowed.
\<close>

theorem udp_port_safe:
  "1024 \<le> udp_port p \<and> udp_port p \<noteq> DISCOVERY_PORT \<and> udp_port p \<noteq> p
   \<and> (p + 1 \<noteq> DISCOVERY_PORT \<and> 1024 \<le> p + 1 \<longrightarrow> udp_port p = p + 1)"
proof -
  have "p + 1 \<noteq> p" by simp
  moreover have "udp_port p \<noteq> p" if "p + 1 = DISCOVERY_PORT \<or> p + 1 < 1024"
  proof
    assume "udp_port p = p"
    with that have "p = 42112" by (auto simp: udp_port_def Let_def)
    with that show False by (auto simp: DISCOVERY_PORT_def)
  qed
  ultimately show ?thesis
    by (auto simp: udp_port_def Let_def DISCOVERY_PORT_def not_less split: if_splits)
qed

lemma udp_port_safe_witness: "udp_port 42120 = 42121"
  using udp_port_safe [of 42120] by (simp add: DISCOVERY_PORT_def)

lemma next_seq_nonzero: "next_seq c \<noteq> 0"
proof -
  have "1 \<le> next_seq c"
    by (simp add: next_seq_def)
  then show ?thesis by auto
qed

lemma of_char_u8_eq: "(of_char c :: u8) = of_char d \<longleftrightarrow> c = d"
proof -
  have "unat (of_char x :: u8) = of_char x" for x
  proof -
    have "(of_char x :: u8) = of_nat (of_char x)"
      by (simp add: of_nat_of_char)
    then show ?thesis
      by (simp add: unat_of_nat)
  qed
  then have "unat (of_char c :: u8) = unat (of_char d :: u8) \<longleftrightarrow> c = d"
    by simp
  then show ?thesis by auto
qed

lemma str_bytes_inj: "str_bytes s = str_bytes t \<longleftrightarrow> s = t"
  by (auto simp: str_bytes_def of_char_u8_eq inj_on_def dest!: map_injective intro: injI)

lemma zero_in_str_bytes: "0 \<in> set (str_bytes s) \<longleftrightarrow> CHR 0x00 \<in> set s"
proof -
  have "(0 :: u8) = of_char (CHR 0x00)" by simp
  then show ?thesis
    unfolding str_bytes_def by (metis (no_types, lifting) imageE image_eqI list.set_map of_char_u8_eq)
qed

lemma split_at_separator:
  "x \<notin> set xs \<Longrightarrow> x \<notin> set ys \<Longrightarrow> xs @ x # us = ys @ x # vs \<longleftrightarrow> xs = ys \<and> us = vs"
proof (induction xs arbitrary: ys)
  case Nil
  then show ?case by (cases ys) auto
next
  case (Cons a xs)
  then show ?case by (cases ys) auto
qed

text \<open>A fingerprint as the peers know it: hexadecimal, whatever its case or outer space.\<close>

definition hex_fingerprint :: "string \<Rightarrow> bool" where
  "hex_fingerprint s \<longleftrightarrow> list_all is_ascii_hexdigit (trim s)"

lemma hex_no_nul: "hex_fingerprint s \<Longrightarrow> CHR 0x00 \<notin> set (normalize s)"
proof
  assume "hex_fingerprint s" "CHR 0x00 \<in> set (normalize s)"
  then have "is_ascii_hexdigit (CHR 0x00)"
    by (metis hex_fingerprint_def list_all_hexdigit_lowercase list_all_iff normalize_def)
  then show False
    by (simp add: is_ascii_hexdigit_def is_ascii_digit_def)
qed

lemma doubleton_min_max:
  "{a, b} = {c, d} \<longleftrightarrow> min a b = min c d \<and> max a b = max c (d :: 'a :: linorder)"
  by (auto simp: doubleton_eq_iff min_def max_def split: if_splits)

lemma udp_key_input_min_max:
  "udp_key_input a b l = str_bytes ''thekvm-udp-v1''
     @ (str_bytes (min (normalize a) (normalize b)) @ 0 #
         (str_bytes (max (normalize a) (normalize b)) @ 0 # be_encode 8 l))"
  by (simp add: udp_key_input_def Let_def min_def max_def)

lemma udp_key_input_eq:
  assumes "hex_fingerprint a" "hex_fingerprint b" "hex_fingerprint c" "hex_fingerprint d"
  shows "udp_key_input a b l = udp_key_input c d m \<longleftrightarrow>
    {normalize a, normalize b} = {normalize c, normalize d} \<and> l = m"
proof -
  have z: "0 \<notin> set (str_bytes (min (normalize a) (normalize b)))"
    "0 \<notin> set (str_bytes (max (normalize a) (normalize b)))"
    "0 \<notin> set (str_bytes (min (normalize c) (normalize d)))"
    "0 \<notin> set (str_bytes (max (normalize c) (normalize d)))"
    using assms [THEN hex_no_nul] by (simp_all add: zero_in_str_bytes min_def max_def)
  have be: "be_encode 8 l = be_encode 8 m \<longleftrightarrow> l = m"
    using be_encode_inj by blast
  show ?thesis
    unfolding udp_key_input_min_max append_same_eq same_append_eq
      split_at_separator [OF z(1,3)] split_at_separator [OF z(2,4)] str_bytes_inj be
      doubleton_min_max by blast
qed

text \<open>
  C28: the session key binds the pair and the link. Both ends derive the same key whichever
  dials; and for hexadecimal fingerprints, compared without case and outer space, the bytes
  hashed are equal only for the same two computers and the same link, so the keys of
  different pairs or links are as distinct as the hash makes them.
\<close>

theorem udp_key_binds_pair_and_link:
  assumes "hex_fingerprint a" "hex_fingerprint b" "hex_fingerprint c" "hex_fingerprint d"
  shows "derive_udp_key hash a b l = derive_udp_key hash b a l
    \<and> (udp_key_input a b l = udp_key_input c d m \<longleftrightarrow>
        {normalize a, normalize b} = {normalize c, normalize d} \<and> l = m)"
proof
  have "udp_key_input a b l = udp_key_input b a l"
    by (simp add: udp_key_input_min_max min.commute max.commute)
  then show "derive_udp_key hash a b l = derive_udp_key hash b a l"
    by (simp add: derive_udp_key_def)
  show "udp_key_input a b l = udp_key_input c d m \<longleftrightarrow>
        {normalize a, normalize b} = {normalize c, normalize d} \<and> l = m"
    by (rule udp_key_input_eq [OF assms])
qed

lemma udp_key_binds_pair_and_link_witness:
  "udp_key_input ''ab'' '' CD'' 7 = udp_key_input ''cd'' ''AB'' 7
   \<and> udp_key_input ''ab'' ''cd'' 7 \<noteq> udp_key_input ''ab'' ''cd'' 8"
proof -
  have hex: "hex_fingerprint ''ab''" "hex_fingerprint '' CD''" "hex_fingerprint ''cd''"
      "hex_fingerprint ''AB''"
    by code_simp+
  have norm: "normalize ''AB'' = normalize ''ab''" "normalize '' CD'' = normalize ''cd''"
    by code_simp+
  show ?thesis
    using udp_key_binds_pair_and_link [OF hex(1,2,3,4), where l = 7 and m = 7]
      udp_key_binds_pair_and_link [OF hex(1,3,1,3), where l = 7 and m = 8]
    by (auto simp: norm)
qed

section \<open>Packets come back\<close>

definition aead_ok :: "cipher \<Rightarrow> decipher \<Rightarrow> bool" where
  "aead_ok encrypt decrypt \<longleftrightarrow>
     (\<forall>key nonce p. decrypt key nonce (encrypt key nonce p) = Some p
        \<and> length (encrypt key nonce p) = length p + TAG_LEN)"

lemma aead_okD:
  "aead_ok encrypt decrypt \<Longrightarrow> decrypt k n (encrypt k n p) = Some p"
  "aead_ok encrypt decrypt \<Longrightarrow> length (encrypt k n p) = length p + 16"
  by (simp_all add: aead_ok_def TAG_LEN_def)

text \<open>The keys before the right one do not open the packet: the authenticity of the cipher.\<close>

definition foreign :: "decipher \<Rightarrow> bytes \<Rightarrow> bytes \<Rightarrow> bytes list \<Rightarrow> bool" where
  "foreign decrypt nonce ciphertext keys = list_all (\<lambda>k. decrypt k nonce ciphertext = None) keys"

lemma decode_with_keys_skip:
  "foreign decrypt nonce c before \<Longrightarrow>
   decode_with_keys decrypt nonce c i (before @ keys) = decode_with_keys decrypt nonce c (i + length before) keys"
  by (induction before arbitrary: i) (auto simp: foreign_def)

lemma length_UDP_MAGIC: "length UDP_MAGIC = 8"
  by (simp add: UDP_MAGIC_def)

lemma decode_encode_packet:
  assumes aead: "aead_ok encrypt decrypt" and nonce: "length nonce = 12"
    and kind: "kind \<in> {KIND_RELIABLE, KIND_MOTION, KIND_ACK}"
    and other: "foreign decrypt nonce (encrypt key nonce ([UDP_VERSION, kind] @ be_encode 8 seq @ body)) before"
  shows "decode_packet decrypt (before @ key # after) (encode_packet encrypt nonce key kind seq body)
    = Inr (length before, kind, seq, body)"
proof -
  let ?c = "encrypt key nonce ([UDP_VERSION, kind] @ be_encode 8 seq @ body)"
  have c: "length ?c = length body + 26" "decrypt key nonce ?c
      = Some ([UDP_VERSION, kind] @ be_encode 8 seq @ body)"
    using aead_okD [OF aead] by simp_all
  have "slice 8 20 (UDP_MAGIC @ nonce @ ?c) = nonce"
    by (rule slice_fields) (simp_all add: length_UDP_MAGIC nonce)
  then have "decode_packet decrypt (before @ key # after) (encode_packet encrypt nonce key kind seq body)
      = decode_with_keys decrypt nonce ?c 0 (before @ key # after)"
    using c(1) nonce
    by (simp add: decode_packet_def encode_packet_def Let_def udp_consts length_UDP_MAGIC)
  also have "\<dots> = decode_with_keys decrypt nonce ?c (length before) (key # after)"
    using decode_with_keys_skip [OF other] by simp
  also have "\<dots> = Inr (length before, kind, seq, body)"
    using c(2) kind by (auto simp: Let_def slice_def)
  finally show ?thesis .
qed

text \<open>
  Motion packets come back. A motion packet sealed with a link's key opens, under a key
  ring holding that key, to the same sequence number and the same displacement, and names
  the key's place in the ring, given a cipher whose decryption undoes encryption, adds a
  16-byte tag, and does not open under the ring's earlier keys.
\<close>

theorem motion_packet_round_trip:
  assumes "aead_ok encrypt decrypt" and "length nonce = 12"
    and "encode_motion_packet encrypt nonce key seq dx dy = Some packet"
    and "foreign decrypt nonce (drop 20 packet) before"
  shows "decode_motion_packet decrypt (before @ key # after) packet
    = Inr (length before, seq, dx, dy)"
proof -
  obtain body where body: "encode_input_datagram \<lparr>di_sequence = seq, di_event = MouseMove dx dy\<rparr> = Inr body"
    by (simp add: encode_input_datagram_def)
  then have p: "packet = encode_packet encrypt nonce key KIND_MOTION seq body"
    using assms(3) by (simp add: encode_motion_packet_def)
  have "drop 20 packet = encrypt key nonce ([UDP_VERSION, KIND_MOTION] @ be_encode 8 seq @ body)"
    using assms(2) by (simp add: p encode_packet_def Let_def length_UDP_MAGIC)
  then have "decode_packet decrypt (before @ key # after) packet = Inr (length before, KIND_MOTION, seq, body)"
    using decode_encode_packet [OF assms(1,2), of KIND_MOTION key seq body before after] assms(4) p by simp
  then show ?thesis
    using decode_encode_datagram [OF body] by (simp add: decode_motion_packet_def)
qed

text \<open>A concrete cipher for the witness: it appends the key's first byte sixteen times.\<close>

definition tag_encrypt :: cipher where
  "tag_encrypt key nonce p = p @ replicate 16 (case key of [] \<Rightarrow> 0 | k # _ \<Rightarrow> k)"

definition tag_decrypt :: decipher where
  "tag_decrypt key nonce c =
     (if 16 \<le> length c \<and> drop (length c - 16) c = replicate 16 (case key of [] \<Rightarrow> 0 | k # _ \<Rightarrow> k)
      then Some (take (length c - 16) c) else None)"

lemma tag_cipher_ok: "aead_ok tag_encrypt tag_decrypt"
  by (simp add: aead_ok_def tag_encrypt_def tag_decrypt_def TAG_LEN_def)

lemma motion_packet_round_trip_witness:
  "\<exists>packet. encode_motion_packet tag_encrypt (replicate 12 9) [5] 77 3 (-4) = Some packet
     \<and> decode_motion_packet tag_decrypt [[6], [5], [7]] packet = Inr (1, 77, 3, -4)"
proof -
  obtain packet where p: "encode_motion_packet tag_encrypt (replicate 12 9) [5] 77 3 (-4) = Some packet"
    by (simp add: encode_motion_packet_def encode_input_datagram_def)
  then obtain q where "drop 20 packet = q @ replicate 16 5"
    by (auto simp: encode_motion_packet_def encode_input_datagram_def encode_packet_def Let_def
        tag_encrypt_def length_UDP_MAGIC)
  then have "foreign tag_decrypt (replicate 12 9) (drop 20 packet) [[6]]"
    by (simp add: foreign_def tag_decrypt_def)
  then show ?thesis
    using motion_packet_round_trip [OF tag_cipher_ok _ p, of "[[6]]" "[[7]]"] p by simp
qed

end
