(* ===== verification/Reassembly.thy ===== *)
theory Reassembly
  imports Udp
begin

text \<open>
  The reliable path over UDP: a message split into fragments is put together again whatever
  the order and repetition in which they arrive, and the buffer stays bounded whatever
  arrives.
\<close>

section \<open>The invariant of the buffer\<close>

definition filled :: "'a option list \<Rightarrow> nat set" where
  "filled cs = {i. i < length cs \<and> cs ! i \<noteq> None}"

definition reassembly_ok :: "reassembly \<Rightarrow> bool" where
  "reassembly_ok e \<longleftrightarrow>
     0 < ra_total e \<and> ra_total e \<le> 128 \<and> length (ra_chunks e) = ra_total e
     \<and> ra_received e = card (filled (ra_chunks e)) \<and> ra_received e < ra_total e
     \<and> list_all (\<lambda>c. case c of None \<Rightarrow> True | Some d \<Rightarrow> length d \<le> 896) (ra_chunks e)"

definition reassembler_ok :: "reassembler \<Rightarrow> bool" where
  "reassembler_ok st \<longleftrightarrow> distinct (map fst (rs_pending st)) \<and> length (rs_pending st) \<le> 16
     \<and> list_all (\<lambda>(k, e). reassembly_ok e) (rs_pending st)"

lemma filled_bound: "filled cs \<subseteq> {..<length cs}"
  by (auto simp: filled_def)

lemma finite_filled [simp]: "finite (filled cs)"
  by (rule finite_subset [OF filled_bound]) simp

lemma filled_update: "i < length cs \<Longrightarrow> filled (cs[i := Some d]) = insert i (filled cs)"
  by (auto simp: filled_def nth_list_update)

lemma filled_replicate [simp]: "filled (replicate n None) = {}"
  by (auto simp: filled_def)

lemma card_filled_full: "card (filled cs) = length cs \<longleftrightarrow> filled cs = {..<length cs}"
proof
  assume "card (filled cs) = length cs"
  then show "filled cs = {..<length cs}"
    by (intro card_subset_eq filled_bound) simp_all
next
  assume "filled cs = {..<length cs}"
  then show "card (filled cs) = length cs"
    by simp
qed

lemma join_chunks_full:
  "filled cs = {..<length cs} \<Longrightarrow> join_chunks cs = Some (concat (map the cs))"
proof (induction cs)
  case Nil
  show ?case by simp
next
  case (Cons c cs)
  have "0 \<in> filled (c # cs)"
    using Cons.prems by simp
  then have "c \<noteq> None"
    by (simp add: filled_def)
  have "filled cs = {..<length cs}"
  proof -
    have "cs ! i \<noteq> None" if "i < length cs" for i
    proof -
      have "Suc i \<in> filled (c # cs)" using Cons.prems that by simp
      then show ?thesis by (simp add: filled_def)
    qed
    then show ?thesis by (auto simp: filled_def)
  qed
  then have "join_chunks cs = Some (concat (map the cs))"
    by (rule Cons.IH)
  with \<open>c \<noteq> None\<close> show ?case by (cases c) simp_all
qed

lemma set_AList_update: "set (AList.update k v al) \<subseteq> insert (k, v) (set al)"
  by (induction al) auto

lemma length_AList_update:
  "length (AList.update k v al) = (if map_of al k = None then Suc (length al) else length al)"
  by (induction al) auto

lemma AList_update_ok:
  assumes "reassembler_ok st" "reassembly_ok e"
    and "length (rs_pending st) < 16 \<or> map_of (rs_pending st) k \<noteq> None"
  shows "reassembler_ok (st\<lparr>rs_pending := AList.update k e (rs_pending st)\<rparr>)"
  using assms set_AList_update [of k e "rs_pending st"]
  by (auto simp: reassembler_ok_def distinct_update length_AList_update list_all_iff)

lemma AList_delete_ok:
  "reassembler_ok st \<Longrightarrow> reassembler_ok (st\<lparr>rs_pending := AList.delete k (rs_pending st)\<rparr>)"
  by (auto simp: reassembler_ok_def list_all_iff AList.delete_eq
      intro: distinct_map_filter order_trans [OF length_filter_le])

text \<open>The header of a fragment, and what \<open>feed\<close> does with a well-formed one.\<close>

definition header :: "bytes \<Rightarrow> u64 \<times> nat \<times> nat" where
  "header body = (be_decode (slice 0 8 body), unat (be_decode (slice 8 10 body) :: u16),
     unat (be_decode (slice 10 12 body) :: u16))"

lemma feed_cases:
  assumes "header body = (msg_id, index, count)"
  obtains (rejected) err where "feed body st = (st, Inl err)" "err \<noteq> ''missing fragment''"
  | (taken) "0 < count" "count \<le> 128" "index < count" "length (drop 12 body) \<le> 896"
      "length (rs_pending st) < 16 \<or> map_of (rs_pending st) msg_id \<noteq> None"
      "feed body st = feed_chunk msg_id index count (drop 12 body) st"
proof -
  let ?bad = "length body < 12 \<or> count = 0 \<or> count > 128 \<or> index \<ge> count
    \<or> length (drop 12 body) > 896
    \<or> length (rs_pending st) \<ge> 16 \<and> map_of (rs_pending st) msg_id = None"
  show ?thesis
  proof (cases ?bad)
    case True
    then have "\<exists>err. feed body st = (st, Inl err) \<and> err \<noteq> ''missing fragment''"
      using assms by (auto simp: feed_def header_def Let_def udp_consts)
    then show ?thesis
      using rejected by blast
  next
    case False
    then have "feed body st = feed_chunk msg_id index count (drop 12 body) st"
      using assms by (auto simp: feed_def header_def Let_def udp_consts)
    with False show ?thesis
      using taken by auto
  qed
qed

lemma feed_chunk_ok:
  assumes ok: "reassembler_ok st"
    and c: "0 < count" "count \<le> 128" "index < count" "length data \<le> 896"
    and room: "length (rs_pending st) < 16 \<or> map_of (rs_pending st) msg_id \<noteq> None"
    and fc: "feed_chunk msg_id index count data st = (st', res)"
  shows "reassembler_ok st' \<and> res \<noteq> Inl ''missing fragment''
    \<and> (case res of Inr (Some out) \<Rightarrow> length out \<le> 65536 | _ \<Rightarrow> True)"
proof -
  define entry where "entry = (case map_of (rs_pending st) msg_id of
      Some e \<Rightarrow> e | None \<Rightarrow> \<lparr>ra_total = count, ra_chunks = replicate count None, ra_received = 0\<rparr>)"
  have e: "reassembly_ok entry"
  proof (cases "map_of (rs_pending st) msg_id")
    case None
    then show ?thesis
      using c(1,2) by (simp add: entry_def reassembly_ok_def list_all_iff)
  next
    case (Some e)
    then have "(msg_id, e) \<in> set (rs_pending st)"
      by (rule map_of_SomeD)
    with Some ok show ?thesis
      by (auto simp: entry_def reassembler_ok_def list_all_iff)
  qed
  have st1: "reassembler_ok (st\<lparr>rs_pending := AList.update msg_id entry (rs_pending st)\<rparr>)"
    by (rule AList_update_ok [OF ok e room])
  define entry2 where "entry2 = (if ra_chunks entry ! index = None
      then entry\<lparr>ra_chunks := (ra_chunks entry)[index := Some data], ra_received := ra_received entry + 1\<rparr>
      else entry)"
  show ?thesis
  proof (cases "ra_total entry = count")
    case False
    then show ?thesis
      using fc st1 by (auto simp: feed_chunk_def Let_def entry_def [symmetric])
  next
    case True
    then have idx: "index < length (ra_chunks entry)"
      using e c(3) by (simp add: reassembly_ok_def)
    have e2: "length (ra_chunks entry2) = ra_total entry2" "ra_total entry2 = count"
      using e True by (auto simp: entry2_def reassembly_ok_def)
    have rec: "ra_received entry2 = card (filled (ra_chunks entry2))"
    proof (cases "ra_chunks entry ! index")
      case None
      then have "index \<notin> filled (ra_chunks entry)"
        by (simp add: filled_def)
      with None show ?thesis
        using e by (simp add: entry2_def reassembly_ok_def filled_update [OF idx])
    next
      case (Some d)
      then show ?thesis
        using e by (simp add: entry2_def reassembly_ok_def)
    qed
    have small: "list_all (\<lambda>c. case c of None \<Rightarrow> True | Some d \<Rightarrow> length d \<le> 896) (ra_chunks entry2)"
      using e c(4) set_update_subset_insert [of "ra_chunks entry" index "Some data"]
      by (auto simp: entry2_def reassembly_ok_def list_all_iff)
    have "card (filled (ra_chunks entry2)) \<le> card {..<length (ra_chunks entry2)}"
      by (rule card_mono [OF _ filled_bound]) simp
    note e2 = e2(1) rec small e2(2) this
    show ?thesis
    proof (cases "ra_received entry2 = ra_total entry2")
      case False
      then have "reassembly_ok entry2"
        using e2 c by (simp add: reassembly_ok_def)
      then show ?thesis
        using fc True False AList_update_ok [OF ok _ room]
        by (auto simp: feed_chunk_def Let_def entry_def [symmetric] entry2_def [symmetric])
    next
      case full: True
      then have "filled (ra_chunks entry2) = {..<length (ra_chunks entry2)}"
        using e2 full card_filled_full [of "ra_chunks entry2"] by simp
      note join = join_chunks_full [OF this]
      show ?thesis
        using fc True full join AList_delete_ok [OF st1, of msg_id]
        by (auto simp: feed_chunk_def Let_def entry_def [symmetric] entry2_def [symmetric]
            MAX_RELIABLE_MESSAGE_def split: if_splits)
    qed
  qed
qed

lemma feed_ok:
  assumes "reassembler_ok st" and "feed body st = (st', res)"
  shows "reassembler_ok st' \<and> res \<noteq> Inl ''missing fragment''
    \<and> (case res of Inr (Some out) \<Rightarrow> length out \<le> 65536 | _ \<Rightarrow> True)"
proof -
  obtain msg_id index count where h: "header body = (msg_id, index, count)"
    by (metis prod_cases3)
  show ?thesis
    using h
  proof (cases rule: feed_cases [where st = st])
    case (rejected err)
    with assms show ?thesis by auto
  next
    case taken
    with assms feed_chunk_ok [OF assms(1) taken(1-5)] show ?thesis by simp
  qed
qed

interpretation reassembler_run: event_machine "\<lambda>body st. fst (feed body st)" reassembler_ok "\<lambda>_. True"
  by unfold_locales (metis feed_ok prod.collapse)

text \<open>The bytes the buffer holds.\<close>

definition buffered :: "reassembler \<Rightarrow> nat" where
  "buffered st = sum_list (map (\<lambda>(k, e). sum_list
     (map (\<lambda>c. case c of None \<Rightarrow> 0 | Some d \<Rightarrow> length d) (ra_chunks e))) (rs_pending st))"

lemma sum_list_bound: "list_all (\<lambda>x. f x \<le> b) xs \<Longrightarrow> sum_list (map f xs) \<le> length xs * (b :: nat)"
  by (induction xs) auto

lemma reassembly_buffered:
  assumes "reassembly_ok e"
  shows "sum_list (map (\<lambda>c. case c of None \<Rightarrow> 0 | Some d \<Rightarrow> length d) (ra_chunks e)) \<le> 114688"
proof -
  let ?f = "\<lambda>c :: bytes option. case c of None \<Rightarrow> 0 | Some d \<Rightarrow> length d"
  have "list_all (\<lambda>c. ?f c \<le> 896) (ra_chunks e)"
    using assms by (auto simp: reassembly_ok_def list_all_iff split: option.splits)
  then have "sum_list (map ?f (ra_chunks e)) \<le> length (ra_chunks e) * 896"
    by (rule sum_list_bound)
  also have "\<dots> \<le> 128 * 896"
    using assms by (intro mult_right_mono) (auto simp: reassembly_ok_def)
  finally show ?thesis by simp
qed

text \<open>
  C29: the reassembly buffer is bounded. Whatever datagram bodies arrive, in whatever order,
  the buffer never holds more than 16 assemblies and 1835008 bytes, a message it gives out
  has at most 65536 bytes, and the code's missing-fragment error is never reached.
\<close>

theorem reassembler_bounded:
  "let st = fold (\<lambda>body st. fst (feed body st)) bodies empty_reassembler
   in length (rs_pending st) \<le> 16 \<and> buffered st \<le> 1835008
      \<and> snd (feed body st) \<noteq> Inl ''missing fragment''
      \<and> (case snd (feed body st) of Inr (Some out) \<Rightarrow> length out \<le> 65536 | _ \<Rightarrow> True)"
proof -
  define st where "st = fold (\<lambda>body st. fst (feed body st)) bodies empty_reassembler"
  have ok: "reassembler_ok st"
    unfolding st_def
    by (rule reassembler_run.run_inv_all) (simp_all add: reassembler_ok_def empty_reassembler_def)
  have len: "length (rs_pending st) \<le> 16"
    using ok by (simp add: reassembler_ok_def)
  have "buffered st \<le> length (rs_pending st) * 114688"
    unfolding buffered_def
    by (rule sum_list_bound)
      (use ok in \<open>auto simp: reassembler_ok_def list_all_iff intro!: reassembly_buffered\<close>)
  also have "\<dots> \<le> 16 * 114688"
    using len by simp
  finally have "buffered st \<le> 1835008"
    by simp
  moreover have "snd (feed body st) \<noteq> Inl ''missing fragment''
      \<and> (case snd (feed body st) of Inr (Some out) \<Rightarrow> length out \<le> 65536 | _ \<Rightarrow> True)"
    using feed_ok [OF ok, of body "fst (feed body st)" "snd (feed body st)"] by simp
  ultimately show ?thesis
    using len by (simp add: Let_def st_def [symmetric])
qed

section \<open>Splitting and reassembling\<close>

lemma concat_chunks_of: "0 < n \<Longrightarrow> concat (chunks_of n xs) = xs"
  by (induction n xs rule: chunks_of.induct) (subst chunks_of.simps, auto)

lemma chunks_of_small: "c \<in> set (chunks_of n xs) \<Longrightarrow> length c \<le> n"
proof (induction n xs rule: chunks_of.induct)
  case (1 n xs)
  then show ?case
    by (subst (asm) (2) chunks_of.simps) (auto split: if_splits)
qed

lemma length_chunks_of: "0 < n \<Longrightarrow> length (chunks_of n xs) = (length xs + (n - 1)) div n"
proof (induction n xs rule: chunks_of.induct)
  case (1 n xs)
  show ?case
  proof (cases "xs = []")
    case True
    then show ?thesis using 1 by (simp add: chunks_of.simps)
  next
    case False
    have "length (chunks_of n xs) = Suc ((length xs - n + (n - 1)) div n)"
      using 1 False by (subst chunks_of.simps) simp
    also have "\<dots> = (length xs + (n - 1)) div n"
    proof (cases "n \<le> length xs")
      case True
      then have "length xs + (n - 1) = (length xs - n + (n - 1)) + n"
        by simp
      then show ?thesis
        using 1(2) by (metis add.commute div_add_self2 not_gr_zero plus_1_eq_Suc)
    next
      case False
      then have "length xs + (n - 1) = n + (length xs - 1)" "length xs - 1 < n"
        using \<open>xs \<noteq> []\<close> by (cases xs; simp)+
      then have "(length xs + (n - 1)) div n = (length xs - 1) div n + 1"
        using 1(2) by (metis div_add_self1 less_not_refl)
      moreover have "(length xs - 1) div n = 0" "(length xs - n + (n - 1)) div n = 0"
        using False 1(2) \<open>length xs - 1 < n\<close> by simp_all
      ultimately show ?thesis
        by simp
    qed
    finally show ?thesis .
  qed
qed

lemma split_reliable_Inr:
  assumes "split_reliable msg_id payload = Inr frags"
  obtains cs where "cs = chunks_of 896 payload" "concat cs = payload" "0 < length cs"
    "length cs \<le> 128" "list_all (\<lambda>c. length c \<le> 896) cs" "length payload \<le> 65536"
    "frags = map (\<lambda>i. fragment msg_id i (length cs) (cs ! i)) [0..<length cs]"
proof -
  let ?cs = "chunks_of 896 payload"
  have len: "length ?cs = (length payload + 895) div 896"
    using length_chunks_of [of 896 payload] by simp
  have h: "payload \<noteq> []" "length payload \<le> 65536" "(length payload + 895) div 896 \<le> 128"
      "frags = map (\<lambda>(i, c). fragment msg_id i (length ?cs) c) (enumerate 0 ?cs)"
    using assms by (auto simp: split_reliable_def Let_def udp_consts len split: if_splits)
  have "frags = map (\<lambda>i. fragment msg_id i (length ?cs) (?cs ! i)) [0..<length ?cs]"
    unfolding h(4) by (rule nth_equalityI) (simp_all add: nth_enumerate_eq)
  moreover have "concat ?cs = payload"
    by (rule concat_chunks_of) simp
  moreover have "0 < length ?cs"
    using h(1) calculation(2) by fastforce
  ultimately show ?thesis
    using that h(2,3) len by (simp add: list_all_iff chunks_of_small)
qed

text \<open>The state of the buffer once the fragments of \<open>S\<close> have arrived.\<close>

definition assembling :: "reassembler \<Rightarrow> u64 \<Rightarrow> bytes list \<Rightarrow> nat set \<Rightarrow> bool" where
  "assembling st msg_id cs S \<longleftrightarrow>
     (if S = {} then map_of (rs_pending st) msg_id = None \<and> length (rs_pending st) < 16
      else map_of (rs_pending st) msg_id = Some \<lparr>ra_total = length cs,
         ra_chunks = map (\<lambda>i. if i \<in> S then Some (cs ! i) else None) [0..<length cs],
         ra_received = card S\<rparr>)"

lemma header_fragment:
  assumes "i < 65536" "n < 65536"
  shows "header (fragment msg_id i n data) = (msg_id, i, n)" "drop 12 (fragment msg_id i n data) = data"
    "length (fragment msg_id i n data) = 12 + length data"
  using assms by (simp_all add: header_def fragment_def slice_def unat_of_nat take_bit_nat_eq_self)

lemma feed_fragment:
  assumes a: "assembling st msg_id cs S" and S: "S \<subset> {..<length cs}" and i: "i < length cs"
    and cs: "length cs \<le> 128" "list_all (\<lambda>c. length c \<le> 896) cs" "length (concat cs) \<le> 65536"
    and f: "feed (fragment msg_id i (length cs) (cs ! i)) st = (st', res)"
  shows "if insert i S = {..<length cs}
    then res = Inr (Some (concat cs)) \<and> map_of (rs_pending st') msg_id = None
    else res = Inr None \<and> assembling st' msg_id cs (insert i S)"
proof -
  let ?b = "fragment msg_id i (length cs) (cs ! i)"
  have n: "i < 65536" "length cs < 65536" using i cs(1) by simp_all
  have finS: "finite S" using S finite_subset by blast
  define entry where "entry = \<lparr>ra_total = length cs,
    ra_chunks = map (\<lambda>i. if i \<in> S then Some (cs ! i) else None) [0..<length cs], ra_received = card S\<rparr>"
  define entry2 where "entry2 = \<lparr>ra_total = length cs,
    ra_chunks = map (\<lambda>j. if j \<in> insert i S then Some (cs ! j) else None) [0..<length cs],
    ra_received = card (insert i S)\<rparr>"
  have look: "(case map_of (rs_pending st) msg_id of Some e \<Rightarrow> e
      | None \<Rightarrow> \<lparr>ra_total = length cs, ra_chunks = replicate (length cs) None, ra_received = 0\<rparr>) = entry"
    using a by (auto simp: assembling_def entry_def map_replicate_const split: if_splits)
  have step: "(if ra_chunks entry ! i = None
      then entry\<lparr>ra_chunks := (ra_chunks entry)[i := Some (cs ! i)], ra_received := ra_received entry + 1\<rparr>
      else entry) = entry2"
  proof (cases "i \<in> S")
    case True
    then show ?thesis
      using i by (simp add: entry_def entry2_def insert_absorb)
  next
    case False
    have "(map (\<lambda>j. if j \<in> S then Some (cs ! j) else None) [0..<length cs])[i := Some (cs ! i)]
        = map (\<lambda>j. if j \<in> insert i S then Some (cs ! j) else None) [0..<length cs]"
    proof (rule nth_equalityI)
      fix j assume "j < length ((map (\<lambda>j. if j \<in> S then Some (cs ! j) else None) [0..<length cs])[i := Some (cs ! i)])"
      then show "(map (\<lambda>j. if j \<in> S then Some (cs ! j) else None) [0..<length cs])[i := Some (cs ! i)] ! j
          = map (\<lambda>j. if j \<in> insert i S then Some (cs ! j) else None) [0..<length cs] ! j"
        by (cases "j = i") (simp_all add: nth_list_update)
    qed simp
    with False show ?thesis
      using i finS by (simp add: entry_def entry2_def)
  qed
  have "length (cs ! i) \<le> 896"
    using cs(2) i by (simp add: list_all_length)
  moreover have "length (rs_pending st) < 16 \<or> map_of (rs_pending st) msg_id \<noteq> None"
    using a by (auto simp: assembling_def split: if_splits)
  ultimately have "feed ?b st = feed_chunk msg_id i (length cs) (cs ! i) st"
    using header_fragment [OF n, of msg_id "cs ! i"] i cs(1)
    by (auto simp: feed_def header_def Let_def udp_consts)
  then have fc: "feed_chunk msg_id i (length cs) (cs ! i) st = (st', res)"
    using f by simp
  have full: "ra_received entry2 = ra_total entry2 \<longleftrightarrow> insert i S = {..<length cs}"
  proof -
    have sub: "insert i S \<subseteq> {..<length cs}" using S i by auto
    have "card (insert i S) = length cs \<longleftrightarrow> insert i S = {..<length cs}"
      using card_subset_eq [OF finite_lessThan sub] by force
    then show ?thesis
      by (simp only: entry2_def reassembly.simps)
  qed
  have tot: "ra_total entry = length cs"
    by (simp add: entry_def)
  have unf: "feed_chunk msg_id i (length cs) (cs ! i) st =
    (if ra_received entry2 = ra_total entry2
     then (case join_chunks (ra_chunks entry2) of
             None \<Rightarrow> (st\<lparr>rs_pending := AList.delete msg_id (AList.update msg_id entry (rs_pending st))\<rparr>,
                      Inl ''missing fragment'')
           | Some out \<Rightarrow>
               if length out > MAX_RELIABLE_MESSAGE
               then (st\<lparr>rs_pending := AList.delete msg_id (AList.update msg_id entry (rs_pending st))\<rparr>,
                     Inl ''reassembled message too large'')
               else (st\<lparr>rs_pending := AList.delete msg_id (AList.update msg_id entry (rs_pending st))\<rparr>,
                     Inr (Some out)))
     else (st\<lparr>rs_pending := AList.update msg_id entry2 (rs_pending st)\<rparr>, Inr None))"
    unfolding feed_chunk_def Let_def look step tot by (simp split: option.splits)
  show ?thesis
  proof (cases "insert i S = {..<length cs}")
    case True
    have "join_chunks (ra_chunks entry2) = Some (concat (map the (ra_chunks entry2)))"
      by (rule join_chunks_full) (use True in \<open>auto simp: entry2_def filled_def\<close>)
    moreover have "map the (ra_chunks entry2) = cs"
      by (rule nth_equalityI) (use True in \<open>auto simp: entry2_def\<close>)
    ultimately have join: "join_chunks (ra_chunks entry2) = Some (concat cs)"
      by simp
    have "(st', res) = (st\<lparr>rs_pending := AList.delete msg_id (AList.update msg_id entry (rs_pending st))\<rparr>,
        Inr (Some (concat cs)))"
      using fc unf join full True cs(3) by (simp add: MAX_RELIABLE_MESSAGE_def)
    then show ?thesis
      using True by (simp add: AList.delete_conv')
  next
    case False
    then have "(st', res) = (st\<lparr>rs_pending := AList.update msg_id entry2 (rs_pending st)\<rparr>, Inr None)"
      using fc unf full by simp
    then show ?thesis
      using False by (simp add: assembling_def AList.update_conv' entry2_def)
  qed
qed

text \<open>A run of deliveries: the fragments that arrive, by index, and the results.\<close>

fun deliver :: "bytes list \<Rightarrow> nat list \<Rightarrow> reassembler \<Rightarrow> reassembler \<times> (string + bytes option) list" where
  "deliver frags [] st = (st, [])"
| "deliver frags (i # is) st =
     (let (st1, res) = feed (frags ! i) st; (st2, rest) = deliver frags is st1 in (st2, res # rest))"

lemma deliver_incomplete:
  assumes "list_all (\<lambda>c. length c \<le> 896) cs" "length cs \<le> 128" "length (concat cs) \<le> 65536"
    and "frags = map (\<lambda>i. fragment msg_id i (length cs) (cs ! i)) [0..<length cs]"
    and "assembling st msg_id cs S" "S \<union> set is \<subset> {..<length cs}"
  shows "\<exists>st'. deliver frags is st = (st', replicate (length is) (Inr None))
    \<and> assembling st' msg_id cs (S \<union> set is)"
  using assms(5,6)
proof (induction "is" arbitrary: st S)
  case Nil
  then show ?case by simp
next
  case (Cons i "is")
  have i: "i < length cs" "S \<subset> {..<length cs}" "insert i S \<noteq> {..<length cs}"
    using Cons.prems(2) by auto
  obtain st1 res where f: "feed (fragment msg_id i (length cs) (cs ! i)) st = (st1, res)"
    by fastforce
  have "res = Inr None" "assembling st1 msg_id cs (insert i S)"
    using feed_fragment [OF Cons.prems(1) i(2,1) assms(2,1,3) f] i(3) by auto
  moreover have "frags ! i = fragment msg_id i (length cs) (cs ! i)"
    using i(1) by (simp add: assms(4))
  moreover obtain st2 where "deliver frags is st1 = (st2, replicate (length is) (Inr None))"
      "assembling st2 msg_id cs (insert i S \<union> set is)"
    using Cons.IH [OF calculation(2)] Cons.prems(2) by auto
  ultimately show ?case
    using f by simp
qed

text \<open>
  C30: a split message is put together again. Deliver the fragments of a message to a buffer
  with room and no assembly under its id, in any order and with any repetitions: nothing
  comes out while one is missing, and the fragment that completes the set brings out exactly
  the message and frees the buffer's entry.
\<close>

theorem split_reassemble:
  assumes "split_reliable msg_id payload = Inr frags"
    and "map_of (rs_pending st) msg_id = None" and "length (rs_pending st) < 16"
    and "set is \<subset> {..<length frags}" and "insert i (set is) = {..<length frags}"
  shows "\<exists>st1 st2. deliver frags is st = (st1, replicate (length is) (Inr None))
    \<and> feed (frags ! i) st1 = (st2, Inr (Some payload)) \<and> map_of (rs_pending st2) msg_id = None"
proof -
  obtain cs where cs: "cs = chunks_of 896 payload" "concat cs = payload" "0 < length cs"
    "length cs \<le> 128" "list_all (\<lambda>c. length c \<le> 896) cs" "length payload \<le> 65536"
    "frags = map (\<lambda>i. fragment msg_id i (length cs) (cs ! i)) [0..<length cs]"
    using assms(1) by (rule split_reliable_Inr)
  have len: "length frags = length cs" by (simp add: cs(7))
  have small: "length (concat cs) \<le> 65536" using cs(2,6) by simp
  have "assembling st msg_id cs {}"
    using assms(2,3) by (simp add: assembling_def)
  then obtain st1 where st1: "deliver frags is st = (st1, replicate (length is) (Inr None))"
      "assembling st1 msg_id cs (set is)"
    using deliver_incomplete [OF cs(5,4) small cs(7), of st "{}" "is"] assms(4) len by auto
  have i: "i < length cs" using assms(5) len by auto
  obtain st2 res where f: "feed (fragment msg_id i (length cs) (cs ! i)) st1 = (st2, res)"
    by fastforce
  have "res = Inr (Some (concat cs)) \<and> map_of (rs_pending st2) msg_id = None"
    using feed_fragment [OF st1(2) _ i cs(4,5) small f] assms(4,5) len by simp
  moreover have "frags ! i = fragment msg_id i (length cs) (cs ! i)"
    using i by (simp add: cs(7))
  ultimately show ?thesis
    using st1(1) f cs(2) by simp
qed

text \<open>A message of three fragments.\<close>

definition long_payload :: bytes where
  "long_payload = replicate 2000 1"

lemma length_long_payload: "length long_payload = 2000"
  by (simp only: long_payload_def length_replicate)

lemma split_reassemble_witness:
  "\<exists>frags st1 st2. split_reliable 7 long_payload = Inr frags
     \<and> deliver frags [2, 0, 2] empty_reassembler = (st1, [Inr None, Inr None, Inr None])
     \<and> feed (frags ! 1) st1 = (st2, Inr (Some long_payload))"
proof -
  have "long_payload \<noteq> []"
    using length_long_payload by auto
  then obtain frags where f: "split_reliable 7 long_payload = Inr frags"
    by (simp add: split_reliable_def Let_def udp_consts length_long_payload)
  then have three: "length frags = 3"
    by (auto simp: split_reliable_def Let_def udp_consts length_chunks_of length_long_payload
        split: if_splits)
  have all3: "insert (1 :: nat) (set [2, 0, 2]) = {..<3}"
    by auto
  have some3: "set [2 :: nat, 0, 2] \<subset> {..<3}"
  proof
    show "set [2 :: nat, 0, 2] \<subseteq> {..<3}" by simp
    have "(1 :: nat) \<in> {..<3}" "(1 :: nat) \<notin> set [2, 0, 2]" by simp_all
    then show "set [2 :: nat, 0, 2] \<noteq> {..<3}" by blast
  qed
  note is3 = some3 [folded three] all3 [folded three]
  have room: "map_of (rs_pending empty_reassembler) 7 = None" "length (rs_pending empty_reassembler) < 16"
    by (simp_all add: empty_reassembler_def)
  have "replicate (length [2, 0, 2 :: nat]) (Inr None :: string + bytes option) = [Inr None, Inr None, Inr None]"
    by simp
  then show ?thesis
    using split_reassemble [OF f room is3] f by metis
qed

end
