(* ===== verification/Pairing.thy ===== *)
theory Pairing
  imports Udp Config
begin

text \<open>
  Pairing codes and the hexadecimal transport of identities:
  \<^verbatim>\<open>kvm-protocol/src/pairing.rs\<close>. SHA-256 is the parameter \<open>hash\<close>. The identities themselves
  (certificates, their files and DPAPI) are not modelled.
\<close>

section \<open>Six-digit codes\<close>

definition PAIRING_CODE_ROTATION_SECS :: u64 where "PAIRING_CODE_ROTATION_SECS = 1800"

text \<open>\<open>format!("{value:06}")\<close>.\<close>

fun digits :: "nat \<Rightarrow> string" where
  "digits n = (if n < 10 then [char_of (0x30 + n)] else digits (n div 10) @ [char_of (0x30 + n mod 10)])"

declare digits.simps [simp del]

definition pad6 :: "nat \<Rightarrow> string" where
  "pad6 n = (let d = digits n in replicate (6 - length d) (CHR ''0'') @ d)"

definition station_pairing_code :: "(bytes \<Rightarrow> bytes) \<Rightarrow> string \<Rightarrow> u64 \<Rightarrow> string" where
  "station_pairing_code hash identity_fingerprint_hex unix_secs =
     (let window = unix_secs div PAIRING_CODE_ROTATION_SECS;
          digest = hash (str_bytes ''thekvm-pairing-code-v1''
            @ str_bytes (to_ascii_lowercase (trim identity_fingerprint_hex)) @ be_encode 8 window);
          value = (be_decode (take 4 digest) :: u32) mod 1000000
      in pad6 (unat value))"

definition station_code_valid :: "(bytes \<Rightarrow> bytes) \<Rightarrow> string \<Rightarrow> string \<Rightarrow> u64 \<Rightarrow> bool" where
  "station_code_valid hash identity_fingerprint_hex code0 unix_secs =
     (let code = trim code0 in
      if length code \<noteq> 6 \<or> \<not> list_all is_ascii_digit code then False
      else
        (let current = unix_secs div PAIRING_CODE_ROTATION_SECS
         in list_ex (\<lambda>window. station_pairing_code hash identity_fingerprint_hex
                (window * PAIRING_CODE_ROTATION_SECS) = code)
              [sat_sub current 1, current, current + 1]))"

definition verification_code_input :: "string \<Rightarrow> string \<Rightarrow> bytes" where
  "verification_code_input local_fingerprint_hex peer_fingerprint_hex =
     (let l = normalize local_fingerprint_hex;
          p = normalize peer_fingerprint_hex;
          (first, second) = (if l \<le> p then (l, p) else (p, l))
      in str_bytes ''THEKVM-PAIRING-CODE-V1'' @ str_bytes first @ [0] @ str_bytes second)"

definition verification_code :: "(bytes \<Rightarrow> bytes) \<Rightarrow> string \<Rightarrow> string \<Rightarrow> string" where
  "verification_code hash local_fingerprint_hex peer_fingerprint_hex =
     (let digest = hash (verification_code_input local_fingerprint_hex peer_fingerprint_hex);
          value = be_decode ([0, 0] @ take 6 digest) :: u64
      in pad6 (unat (value mod 1000000)))"

section \<open>Hexadecimal transport\<close>

definition hex_digit :: "u8 \<Rightarrow> char" where
  "hex_digit n = (if n < 10 then char_of (0x30 + unat n) else char_of (0x57 + unat n))"

text \<open>\<open>format!("{b:02x}")\<close> of each byte.\<close>

definition hex_encode :: "bytes \<Rightarrow> string" where
  "hex_encode bs = concat (map (\<lambda>b. [hex_digit (drop_bit 4 b), hex_digit (b AND 15)]) bs)"

text \<open>\<open>char::to_digit(16)\<close> on an ASCII byte.\<close>

definition hex_value :: "char \<Rightarrow> nat option" where
  "hex_value c =
     (let n = of_char c :: nat in
      if 0x30 \<le> n \<and> n \<le> 0x39 then Some (n - 0x30)
      else if 0x41 \<le> n \<and> n \<le> 0x46 then Some (n - 0x37)
      else if 0x61 \<le> n \<and> n \<le> 0x66 then Some (n - 0x57)
      else None)"

text \<open>\<open>u8::from_str_radix(s, 16)\<close>: one leading plus sign is skipped, unless it is all there
  is; a value above 255 is an error.\<close>

definition u8_from_hex :: "string \<Rightarrow> u8 option" where
  "u8_from_hex s =
     (if s = [] \<or> s = ''+'' then None
      else
        (let ds = (if hd s = CHR ''+'' then tl s else s);
             value = fold (\<lambda>c acc. case acc of None \<Rightarrow> None
                 | Some n \<Rightarrow> (case hex_value c of None \<Rightarrow> None
                     | Some d \<Rightarrow> if 16 * n + d > 255 then None else Some (16 * n + d)))
               ds (Some 0)
         in map_option of_nat value))"

text \<open>A byte that continues a UTF-8 sequence: slicing a \<open>str\<close> there panics.\<close>

definition is_continuation :: "char \<Rightarrow> bool" where
  "is_continuation c \<longleftrightarrow> (0x80 :: nat) \<le> of_char c \<and> of_char c < (0xC0 :: nat)"

text \<open>The pairs of \<open>hex_decode\<close>, one slice after another. The outer \<open>None\<close> is the panic of a
  slice whose end is inside a character.\<close>

fun hex_pairs :: "string \<Rightarrow> (io_error + bytes) option" where
  "hex_pairs (a # b # rest) =
     (if is_continuation a \<or> (case rest of [] \<Rightarrow> False | c # _ \<Rightarrow> is_continuation c) then None
      else case u8_from_hex [a, b] of
        None \<Rightarrow> Some (Inl (InvalidData ''identity hex contains non-hexadecimal data''))
      | Some v \<Rightarrow> map_option (map_sum id ((#) v)) (hex_pairs rest))"
| "hex_pairs _ = Some (Inr [])"

definition hex_decode :: "string \<Rightarrow> (io_error + bytes) option" where
  "hex_decode hex0 =
     (let hex = trim hex0 in
      if length hex mod 2 \<noteq> 0
      then Some (Inl (InvalidData ''identity hex has an odd length''))
      else hex_pairs hex)"

section \<open>Six-digit codes are shared and expire\<close>

text \<open>A text that starts and ends with visible ASCII characters has no outer space.\<close>

definition visible :: "char \<Rightarrow> bool" where
  "visible c \<longleftrightarrow> (0x21 :: nat) \<le> of_char c \<and> of_char c \<le> (0x7E :: nat)"

lemma visible_no_space: "visible c \<Longrightarrow> \<not> leads white_space (c # s)"
  and visible_no_space_rev: "visible c \<Longrightarrow> \<not> leads (map rev white_space) (c # s)"
  by (auto simp: white_space_def visible_def)

lemma trim_visible:
  assumes "s \<noteq> []" "visible (hd s)" "visible (last s)"
  shows "trim s = s"
proof -
  from assms(1) have s: "s = hd s # tl s" "rev s = last s # rev (butlast s)"
    by (simp_all add: rev_eq_Cons_iff)
  have "\<not> leads white_space s" "\<not> leads (map rev white_space) (rev s)"
    using visible_no_space [OF assms(2), of "tl s"] visible_no_space_rev [OF assms(3), of "rev (butlast s)"]
    by (simp_all only: s [symmetric] not_False_eq_True)
  then show ?thesis
    by (simp add: trim_def strip_leading_id)
qed

lemma length_digits: "n < 10 ^ k \<Longrightarrow> 0 < k \<Longrightarrow> length (digits n) \<le> k"
proof (induction n arbitrary: k rule: digits.induct)
  case (1 n)
  show ?case
  proof (cases "n < 10")
    case True
    then show ?thesis using 1 by (simp add: digits.simps [of n])
  next
    case False
    with "1.prems" obtain j where k: "k = Suc j" "0 < j"
      by (cases k; cases "k = 1") auto
    with "1.prems" have "n div 10 < 10 ^ j"
      by (simp add: less_mult_imp_div_less mult.commute)
    with 1 False k show ?thesis
      by (simp add: digits.simps [of n])
  qed
qed

lemma ascii_digit_of_nat: "d < (10 :: nat) \<Longrightarrow> is_ascii_digit (char_of (0x30 + d))"
  by (simp add: is_ascii_digit_def of_char_of)

lemma digits_ascii: "list_all is_ascii_digit (digits n)"
proof (induction n rule: digits.induct)
  case (1 n)
  then show ?case
    by (simp add: digits.simps [of n] ascii_digit_of_nat)
qed

definition six_digits :: "string \<Rightarrow> bool" where
  "six_digits s \<longleftrightarrow> length s = 6 \<and> list_all is_ascii_digit s"

lemma pad6_six_digits: "n < 1000000 \<Longrightarrow> six_digits (pad6 n)"
  using length_digits [of n 6] digits_ascii [of n]
  by (auto simp: pad6_def six_digits_def Let_def is_ascii_digit_def list_all_iff)

lemma unat_mod_million: "unat (v mod 1000000 :: u32) < 1000000" "unat (w mod 1000000 :: u64) < 1000000"
  by (simp_all add: unat_mod)

lemma hexdigit_visible: "is_ascii_hexdigit c \<Longrightarrow> visible c"
  by (auto simp: is_ascii_hexdigit_def is_ascii_digit_def visible_def)

lemma trim_hexdigits: "list_all is_ascii_hexdigit s \<Longrightarrow> trim s = s"
  by (cases "s = []") (simp, rule trim_visible, auto simp: list_all_iff intro!: hexdigit_visible)

lemma trim_six_digits: "six_digits s \<Longrightarrow> trim s = s"
proof -
  assume s: "six_digits s"
  then have "s \<noteq> []" by (auto simp: six_digits_def)
  moreover have "visible c" if "c \<in> set s" for c
    using s that by (auto simp: six_digits_def list_all_iff is_ascii_digit_def visible_def)
  ultimately show ?thesis by (intro trim_visible) auto
qed

lemma station_code_six_digits: "six_digits (station_pairing_code hash fp t)"
  unfolding station_pairing_code_def Let_def by (intro pad6_six_digits unat_mod_million)

lemma uint_div_window: "uint (t div 1800 :: u64) = uint t div 1800"
  by (simp add: uint_div)

lemma window_start: "uint w * 1800 < 18446744073709551616 \<Longrightarrow> (w * 1800) div 1800 = (w :: u64)"
proof -
  assume w: "uint w * 1800 < 18446744073709551616"
  then have "uint (w * 1800) = uint w * 1800"
    by (simp add: uint_word_ariths take_bit_int_eq_self)
  then show ?thesis
    by (intro word_uint_eqI) (simp add: uint_div_window)
qed

lemma station_code_window_start:
  "uint w * 1800 < 18446744073709551616 \<Longrightarrow> w = t div 1800
     \<Longrightarrow> station_pairing_code hash fp (w * 1800) = station_pairing_code hash fp t"
  by (simp add: station_pairing_code_def PAIRING_CODE_ROTATION_SECS_def window_start)

lemma within_one:
  "0 \<le> w \<Longrightarrow> 0 \<le> c \<Longrightarrow> (w = max 0 (c - 1) \<or> w = c \<or> w = c + 1) \<longleftrightarrow> \<bar>w - c\<bar> \<le> (1 :: int)"
  by (auto simp: max_def abs_if split: if_splits)

lemma near_windows:
  assumes "uint now < 18446744073709548016"
  shows "w \<in> {sat_sub (now div 1800) 1, now div 1800, now div 1800 + 1} \<longleftrightarrow>
    \<bar>uint w - uint (now div 1800 :: u64)\<bar> \<le> 1"
    and "w \<in> {sat_sub (now div 1800) 1, now div 1800, now div 1800 + 1} \<Longrightarrow> uint w * 1800 < 18446744073709551616"
proof -
  define c where "c = now div 1800"
  have c: "uint c * 1800 \<le> uint now"
    unfolding c_def uint_div_window by linarith
  then have succ: "uint (c + 1) = uint c + 1"
    using assms by (simp add: uint_word_ariths take_bit_int_eq_self)
  have pred: "uint (sat_sub c 1) = max 0 (uint c - 1)"
    by (simp add: uint_sat_sub)
  have nonneg: "0 \<le> uint w" "0 \<le> uint c" by simp_all
  have mem: "w \<in> {sat_sub c 1, c, c + 1} \<longleftrightarrow>
    uint w = max 0 (uint c - 1) \<or> uint w = uint c \<or> uint w = uint c + 1"
    unfolding insert_iff empty_iff word_uint_eq_iff succ pred by blast
  show "w \<in> {sat_sub (now div 1800) 1, now div 1800, now div 1800 + 1} \<longleftrightarrow>
    \<bar>uint w - uint (now div 1800 :: u64)\<bar> \<le> 1"
    unfolding c_def [symmetric] mem by (rule within_one [OF nonneg])
  show "uint w * 1800 < 18446744073709551616"
    if "w \<in> {sat_sub (now div 1800) 1, now div 1800, now div 1800 + 1}"
  proof -
    from that have "uint w \<le> uint c + 1"
      unfolding c_def [symmetric] mem using nonneg by (auto simp: max_def)
    with c assms show ?thesis by linarith
  qed
qed

lemma station_code_valid_iff:
  assumes "uint now < 18446744073709548016"
  shows "station_code_valid hash fp code now \<longleftrightarrow>
    (\<exists>t. \<bar>uint (t div 1800) - uint (now div 1800)\<bar> \<le> 1
       \<and> trim code = station_pairing_code hash fp t)" (is "?V \<longleftrightarrow> ?E")
proof
  assume ?V
  then have "\<exists>w. w \<in> {sat_sub (now div 1800) 1, now div 1800, now div 1800 + 1}
    \<and> station_pairing_code hash fp (w * 1800) = trim code"
    unfolding station_code_valid_def PAIRING_CODE_ROTATION_SECS_def Let_def
    by (simp only: split: if_splits) auto
  then obtain w where w: "w \<in> {sat_sub (now div 1800) 1, now div 1800, now div 1800 + 1}"
    and code: "station_pairing_code hash fp (w * 1800) = trim code" by blast
  have "(w * 1800) div 1800 = w"
    by (rule window_start [OF near_windows(2) [OF assms w]])
  with near_windows(1) [OF assms, THEN iffD1, OF w] code show ?E
    by (intro exI [of _ "w * 1800"]) simp
next
  assume ?E
  then obtain t where t: "\<bar>uint (t div 1800) - uint (now div 1800)\<bar> \<le> 1"
    and code: "trim code = station_pairing_code hash fp t" by blast
  have w: "t div 1800 \<in> {sat_sub (now div 1800) 1, now div 1800, now div 1800 + 1}"
    by (rule near_windows(1) [OF assms, THEN iffD2, OF t])
  have "station_pairing_code hash fp ((t div 1800) * 1800) = trim code"
    unfolding code by (rule station_code_window_start [OF near_windows(2) [OF assms w] refl])
  moreover have "six_digits (trim code)"
    unfolding code by (rule station_code_six_digits)
  ultimately show ?V
    using w unfolding station_code_valid_def PAIRING_CODE_ROTATION_SECS_def Let_def six_digits_def
    by auto
qed

text \<open>
  The station code expires. A typed code is accepted exactly when it is, but for outer
  space, the code the station shows at some time in the current half hour, the one before or
  the one after; so a code is accepted for clocks up to 30 minutes apart, and a code no
  station shows in those windows is refused. This holds for every hash, up to the last hour
  of the 64-bit clock.
\<close>

theorem station_code_window:
  assumes "uint now < 18446744073709548016"
  shows "(station_code_valid hash fp code now \<longleftrightarrow>
      (\<exists>t. \<bar>uint (t div 1800) - uint (now div 1800)\<bar> \<le> 1
         \<and> trim code = station_pairing_code hash fp t))
    \<and> (\<bar>uint t - uint now\<bar> \<le> 1800 \<longrightarrow>
        station_code_valid hash fp (station_pairing_code hash fp t) now)"
proof (intro conjI impI)
  show "station_code_valid hash fp code now \<longleftrightarrow>
      (\<exists>t. \<bar>uint (t div 1800) - uint (now div 1800)\<bar> \<le> 1
         \<and> trim code = station_pairing_code hash fp t)"
    by (rule station_code_valid_iff [OF assms])
  assume "\<bar>uint t - uint now\<bar> \<le> 1800"
  then have "\<bar>uint (t div 1800) - uint (now div 1800)\<bar> \<le> 1"
    unfolding uint_div_window by linarith
  with trim_six_digits [OF station_code_six_digits, of hash fp t]
  show "station_code_valid hash fp (station_pairing_code hash fp t) now"
    unfolding station_code_valid_iff [OF assms] by blast
qed

lemma station_code_window_witness:
  "station_code_valid (\<lambda>b. b) ''AB'' (station_pairing_code (\<lambda>b. b) ''AB'' 3601) 1801"
  using station_code_window [of 1801 "\<lambda>b. b" "''AB''" "[]" 3601] by simp

lemma verification_code_input_min_max:
  "verification_code_input a b = str_bytes ''THEKVM-PAIRING-CODE-V1''
     @ (str_bytes (min (normalize a) (normalize b)) @ 0 #
         str_bytes (max (normalize a) (normalize b)))"
  by (simp add: verification_code_input_def Let_def min_def max_def)

lemma verification_code_input_eq:
  assumes "hex_fingerprint a" "hex_fingerprint b" "hex_fingerprint c" "hex_fingerprint d"
  shows "verification_code_input a b = verification_code_input c d \<longleftrightarrow>
    {normalize a, normalize b} = {normalize c, normalize d}"
proof -
  have z: "0 \<notin> set (str_bytes (min (normalize a) (normalize b)))"
    "0 \<notin> set (str_bytes (min (normalize c) (normalize d)))"
    using assms [THEN hex_no_nul] by (simp_all add: zero_in_str_bytes min_def)
  show ?thesis
    unfolding verification_code_input_min_max same_append_eq split_at_separator [OF z]
      str_bytes_inj doubleton_min_max by blast
qed

text \<open>
  The two ends compare the same code. Whichever end computes it, the code of a pair is
  the same six digits, and it stands for that pair: for hexadecimal fingerprints, compared
  without case and outer space, two pairs hash the same bytes only when they are the same
  two computers.
\<close>

theorem verification_code_shared:
  assumes "hex_fingerprint a" "hex_fingerprint b" "hex_fingerprint c" "hex_fingerprint d"
  shows "verification_code hash a b = verification_code hash b a
    \<and> six_digits (verification_code hash a b)
    \<and> (verification_code_input a b = verification_code_input c d \<longleftrightarrow>
        {normalize a, normalize b} = {normalize c, normalize d})"
proof (intro conjI)
  have "verification_code_input a b = verification_code_input b a"
    by (simp add: verification_code_input_min_max min.commute max.commute)
  then show "verification_code hash a b = verification_code hash b a"
    by (simp add: verification_code_def)
  show "six_digits (verification_code hash a b)"
    unfolding verification_code_def Let_def by (intro pad6_six_digits unat_mod_million)
  show "verification_code_input a b = verification_code_input c d \<longleftrightarrow>
        {normalize a, normalize b} = {normalize c, normalize d}"
    by (rule verification_code_input_eq [OF assms])
qed

lemma verification_code_shared_witness:
  "verification_code (\<lambda>b. b) ''ab'' ''CD'' = verification_code (\<lambda>b. b) ''CD'' ''ab''
   \<and> verification_code_input ''ab'' ''CD'' = verification_code_input ''cd'' ''AB''"
proof -
  have h: "hex_fingerprint ''ab''" "hex_fingerprint ''CD''" "hex_fingerprint ''cd''"
    "hex_fingerprint ''AB''"
    by code_simp+
  have "{normalize ''ab'', normalize ''CD''} = {normalize ''cd'', normalize ''AB''}"
    by code_simp
  with verification_code_shared [OF h, of "\<lambda>b. b"] show ?thesis by blast
qed

section \<open>Identities survive their hexadecimal transport\<close>

lemma word8_cases: "(w :: u8) AND 15 < 16" "drop_bit 4 (w :: u8) < 16"
proof -
  show "w AND 15 < 16"
    by (rule order_le_less_trans [OF word_and_le1]) simp
  show "drop_bit 4 w < 16"
    using uint_lt2p [of w]
    by (simp add: word_less_def drop_bit_eq_div uint_div del: uint_lt2p)
qed

lemma hex_value_digit: "n < 16 \<Longrightarrow> hex_value (hex_digit n) = Some (unat n)"
proof -
  assume "n < 16"
  then have n: "unat n < 16" by (simp add: word_less_nat_alt)
  show ?thesis
  proof (cases "n < 10")
    case True
    then have "unat n < 10" by (simp add: word_less_nat_alt)
    with True show ?thesis by (simp add: hex_digit_def hex_value_def of_char_of)
  next
    case False
    then have "10 \<le> unat n" by (simp add: word_less_nat_alt)
    with False n show ?thesis by (simp add: hex_digit_def hex_value_def of_char_of)
  qed
qed

lemma hex_digit_visible: "n < 16 \<Longrightarrow> visible (hex_digit n) \<and> \<not> is_continuation (hex_digit n)
    \<and> hex_digit n \<noteq> CHR ''+''"
proof -
  assume "n < 16"
  then have n: "unat n < 16" by (simp add: word_less_nat_alt)
  then have "of_char (hex_digit n) = (if n < 10 then 48 + unat n else 87 + unat n)"
    by (simp add: hex_digit_def of_char_of)
  moreover have "of_char (CHR ''+'') = (43 :: nat)" by simp
  ultimately show ?thesis using n
    by (auto simp: visible_def is_continuation_def split: if_splits)
qed

lemma u8_from_hex_digits: "u8_from_hex [hex_digit (drop_bit 4 b), hex_digit (b AND 15)] = Some b"
proof -
  let ?h = "drop_bit 4 b" and ?l = "b AND 15"
  have v: "hex_value (hex_digit ?h) = Some (unat ?h)" "hex_value (hex_digit ?l) = Some (unat ?l)"
    by (simp_all only: hex_value_digit word8_cases)
  have join: "16 * unat ?h + unat ?l = unat b"
  proof -
    have "?l = take_bit 4 b"
      by (simp add: take_bit_eq_mask mask_eq_exp_minus_1)
    then show ?thesis
      by (simp add: take_bit_eq_mod drop_bit_eq_div unat_div unat_mod)
  qed
  moreover have "unat b \<le> 255"
    using uint_lt2p [of b] by (simp add: nat_le_iff flip: nat_uint_eq)
  ultimately show ?thesis
    using hex_digit_visible [OF word8_cases(2), of b] v word8_cases
    by (simp add: u8_from_hex_def)
qed

lemma hex_encode_Cons [simp]:
  "hex_encode (b # bs) = hex_digit (drop_bit 4 b) # hex_digit (b AND 15) # hex_encode bs"
  by (simp add: hex_encode_def)

lemma hex_encode_Nil [simp]: "hex_encode [] = []"
  by (simp add: hex_encode_def)

lemma length_hex_encode: "length (hex_encode bs) = 2 * length bs"
  by (induction bs) auto

lemma hex_encode_visible: "c \<in> set (hex_encode bs) \<Longrightarrow> visible c"
proof (induction bs)
  case (Cons b bs)
  then show ?case
    using hex_digit_visible [OF word8_cases(1), of b] hex_digit_visible [OF word8_cases(2), of b]
    by auto
qed simp

lemma hex_pairs_encode: "hex_pairs (hex_encode bs) = Some (Inr bs)"
proof (induction bs)
  case (Cons b bs)
  then show ?case
    using hex_digit_visible [OF word8_cases(2), of b]
      hex_digit_visible [OF word8_cases(2), of "hd bs"]
    by (cases bs) (simp_all add: u8_from_hex_digits)
qed simp

text \<open>
  An identity survives its hexadecimal transport: decoding what \<open>hex_encode\<close> printed
  gives back the bytes, whatever white space surrounds the line it travelled in, and no
  other bytes print the same.
\<close>

theorem hex_round_trip:
  "hex_decode (hex_encode bs) = Some (Inr bs) \<and> (hex_encode bs = hex_encode cs \<longleftrightarrow> bs = cs)"
proof -
  have dec: "hex_decode (hex_encode xs) = Some (Inr xs)" for xs
  proof (cases xs)
    case Nil
    then show ?thesis by (simp add: hex_decode_def)
  next
    case (Cons x ys)
    then have "trim (hex_encode xs) = hex_encode xs"
      using hex_encode_visible [of _ xs] by (intro trim_visible) (auto simp del: hex_encode_Nil)
    then show ?thesis
      by (simp add: hex_decode_def length_hex_encode hex_pairs_encode)
  qed
  then show ?thesis
    by (metis option.inject sum.inject(2))
qed

text \<open>
  The decoder is neither strict nor total. A sign is read as a digit: \<open>+f\<close> decodes to one
  byte; and a two-byte character at an odd place makes it panic instead of returning its
  error, although \<open>hex_decode\<close> is meant to reject what is not hexadecimal.
\<close>

theorem hex_decode_not_strict:
  "hex_decode ''+f'' = Some (Inr [15])
   \<and> hex_decode [CHR ''a'', CHR 0xC3, CHR 0xA9, CHR ''b''] = None"
proof
  show "hex_decode ''+f'' = Some (Inr [15])"
    by code_simp
  show "hex_decode [CHR ''a'', CHR 0xC3, CHR 0xA9, CHR ''b''] = None"
    by code_simp
qed

end
