(* ===== verification/PeerBook.thy ===== *)
theory PeerBook
  imports Pairing
begin

text \<open>
  The list of trusted peers: \<open>PeerBook\<close> of \<^verbatim>\<open>kvm-protocol/src/pairing.rs\<close>. The record
  \<open>peer_book\<close> has the peers in memory and the peers the file holds; whether a write of the
  file succeeds is the argument \<open>io\<close>, an error or none, since \<open>atomic_write\<close> replaces the
  whole file or leaves it as it is. \<^verbatim>\<open>serde_json\<close> stores and restores a list of peers as it is.
\<close>

section \<open>The trusted peers\<close>

definition MAX_TRUSTED_PEERS :: nat where "MAX_TRUSTED_PEERS = 256"
definition MAX_PEER_ADDRESS_BYTES :: nat where "MAX_PEER_ADDRESS_BYTES = 256"

record peer =
  pr_name :: string
  pr_fingerprint_hex :: string
  pr_address :: "string option"

record peer_book =
  pb_peers :: "peer list"
  pb_file :: "peer list option"

definition validate_peer_fields ::
  "string \<Rightarrow> string \<Rightarrow> string option \<Rightarrow> (string \<Rightarrow> io_error) \<Rightarrow> io_error + unit" where
  "validate_peer_fields name fingerprint_hex address kind =
     (if name = [] \<or> length name > MAX_DEVICE_NAME_BYTES \<or> has_control name
      then Inl (kind ''peer name is empty, too long, or contains control characters'')
      else if length fingerprint_hex \<noteq> 64 \<or> \<not> list_all is_ascii_hexdigit fingerprint_hex
      then Inl (kind ''peer fingerprint must contain 64 hexadecimal characters'')
      else if (case address of None \<Rightarrow> False
          | Some a \<Rightarrow> a = [] \<or> length a > MAX_PEER_ADDRESS_BYTES \<or> has_control a)
      then Inl (kind ''peer address is empty, too long, or contains control characters'')
      else Inr ())"

definition normalize_peer :: "peer \<Rightarrow> peer" where
  "normalize_peer p =
     p\<lparr>pr_name := trim (pr_name p),
       pr_fingerprint_hex := to_ascii_lowercase (pr_fingerprint_hex p),
       pr_address := map_option trim (pr_address p)\<rparr>"

text \<open>The loop over the peers; the peers after a refused one are as they were, and the caller
  drops them all.\<close>

fun normalize_each :: "(string \<Rightarrow> io_error) \<Rightarrow> peer list \<Rightarrow> io_error + peer list" where
  "normalize_each kind [] = Inr []"
| "normalize_each kind (p # ps) =
     (let q = normalize_peer p in
      case validate_peer_fields (pr_name q) (pr_fingerprint_hex q) (pr_address q) kind of
        Inl e \<Rightarrow> Inl e
      | Inr _ \<Rightarrow> map_sum id ((#) q) (normalize_each kind ps))"

definition normalize_and_validate_peers ::
  "peer list \<Rightarrow> (string \<Rightarrow> io_error) \<Rightarrow> io_error + peer list" where
  "normalize_and_validate_peers peers kind =
     (if length peers > MAX_TRUSTED_PEERS
      then Inl (kind ''trusted peer list exceeds 256 entries'')
      else case normalize_each kind peers of
        Inl e \<Rightarrow> Inl e
      | Inr qs \<Rightarrow>
          if \<not> distinct (map pr_fingerprint_hex qs)
          then Inl (kind ''trusted peer list contains duplicates'')
          else Inr qs)"

text \<open>\<open>PeerBook::load_or_create\<close>: \<open>None\<close> is a missing file, \<open>Inl\<close> a file that cannot be read
  or parsed.\<close>

definition load_or_create :: "(io_error + peer list) option \<Rightarrow> io_error + peer_book" where
  "load_or_create file =
     (case (case file of None \<Rightarrow> Inr [] | Some parsed \<Rightarrow> parsed) of
        Inl e \<Rightarrow> Inl e
      | Inr peers \<Rightarrow>
          (case normalize_and_validate_peers peers InvalidData of
             Inl e \<Rightarrow> Inl e
           | Inr qs \<Rightarrow> Inr \<lparr>pb_peers = qs,
               pb_file = (case file of None \<Rightarrow> None | Some _ \<Rightarrow> Some peers)\<rparr>))"

definition is_pinned :: "string \<Rightarrow> peer_book \<Rightarrow> bool" where
  "is_pinned fingerprint_hex b =
     (let wanted = to_ascii_lowercase (trim fingerprint_hex)
      in list_ex (\<lambda>p. pr_fingerprint_hex p = wanted) (pb_peers b))"

definition save_book :: "io_error option \<Rightarrow> peer_book \<Rightarrow> peer_book \<times> (io_error + unit)" where
  "save_book io b =
     (case normalize_and_validate_peers (pb_peers b) InvalidData of
        Inl e \<Rightarrow> (b, Inl e)
      | Inr qs \<Rightarrow>
          (case io of
             Some e \<Rightarrow> (b, Inl e)
           | None \<Rightarrow> (b\<lparr>pb_file := Some qs\<rparr>, Inr ())))"

definition pin_with_address ::
  "io_error option \<Rightarrow> string \<Rightarrow> string \<Rightarrow> string option \<Rightarrow> peer_book
     \<Rightarrow> peer_book \<times> (io_error + unit)" where
  "pin_with_address io name0 fingerprint0 address0 b =
     (let name = trim name0;
          fingerprint_hex = to_ascii_lowercase fingerprint0;
          address = map_option trim address0
      in case validate_peer_fields name fingerprint_hex address InvalidInput of
           Inl e \<Rightarrow> (b, Inl e)
         | Inr _ \<Rightarrow>
             if \<not> is_pinned fingerprint_hex b
             then
               (if length (pb_peers b) \<ge> MAX_TRUSTED_PEERS
                then (b, Inl (InvalidInput ''trusted peer limit of 256 reached''))
                else save_book io (b\<lparr>pb_peers := pb_peers b @
                       [\<lparr>pr_name = name, pr_fingerprint_hex = fingerprint_hex,
                         pr_address = address\<rparr>]\<rparr>))
             else
               (case find (\<lambda>p. pr_fingerprint_hex p = fingerprint_hex) (pb_peers b) of
                  None \<Rightarrow> (b, Inr ())
                | Some p \<Rightarrow>
                    (let p1 = p\<lparr>pr_name := name\<rparr>;
                         p2 = (if address \<noteq> None then p1\<lparr>pr_address := address\<rparr> else p1)
                     in if p2 = p then (b, Inr ())
                        else save_book io (b\<lparr>pb_peers :=
                               update_first (\<lambda>q. pr_fingerprint_hex q = fingerprint_hex)
                                 (\<lambda>_. p2) (pb_peers b)\<rparr>))))"

definition pin_peer ::
  "io_error option \<Rightarrow> string \<Rightarrow> string \<Rightarrow> peer_book \<Rightarrow> peer_book \<times> (io_error + unit)" where
  "pin_peer io name fingerprint_hex b = pin_with_address io name fingerprint_hex None b"

definition unpin :: "io_error option \<Rightarrow> string \<Rightarrow> peer_book \<Rightarrow> peer_book \<times> (io_error + bool)" where
  "unpin io fingerprint0 b =
     (let fingerprint_hex = to_ascii_lowercase fingerprint0;
          kept = filter (\<lambda>p. pr_fingerprint_hex p \<noteq> fingerprint_hex) (pb_peers b)
      in if length kept = length (pb_peers b) then (b, Inr False)
         else
           (case save_book io (b\<lparr>pb_peers := kept\<rparr>) of
              (b2, Inl e) \<Rightarrow> (b2, Inl e)
            | (b2, Inr _) \<Rightarrow> (b2, Inr True)))"

section \<open>The list of trusted peers stays valid\<close>

definition fields_ok :: "string \<Rightarrow> string \<Rightarrow> string option \<Rightarrow> bool" where
  "fields_ok name fp address \<longleftrightarrow>
     name \<noteq> [] \<and> length name \<le> 128 \<and> \<not> has_control name
     \<and> length fp = 64 \<and> list_all is_ascii_hexdigit fp
     \<and> (case address of None \<Rightarrow> True
        | Some a \<Rightarrow> a \<noteq> [] \<and> length a \<le> 256 \<and> \<not> has_control a)"

lemma validate_peer_fields_iff: "validate_peer_fields n fp a kind = Inr () \<longleftrightarrow> fields_ok n fp a"
  by (auto simp: validate_peer_fields_def fields_ok_def MAX_DEVICE_NAME_BYTES_def
      MAX_PEER_ADDRESS_BYTES_def split: option.splits)

lemma validate_peer_fields_Inr: "validate_peer_fields n fp a kind = Inr u \<longleftrightarrow> fields_ok n fp a"
  by (simp add: validate_peer_fields_iff)

definition peer_ok :: "peer \<Rightarrow> bool" where
  "peer_ok p \<longleftrightarrow> trim (pr_name p) = pr_name p
     \<and> to_ascii_lowercase (pr_fingerprint_hex p) = pr_fingerprint_hex p
     \<and> map_option trim (pr_address p) = pr_address p
     \<and> fields_ok (pr_name p) (pr_fingerprint_hex p) (pr_address p)"

definition peers_ok :: "peer list \<Rightarrow> bool" where
  "peers_ok ps \<longleftrightarrow> length ps \<le> 256 \<and> list_all peer_ok ps \<and> distinct (map pr_fingerprint_hex ps)"

lemma normalize_peer_ok:
  "fields_ok (pr_name (normalize_peer p)) (pr_fingerprint_hex (normalize_peer p))
     (pr_address (normalize_peer p)) \<Longrightarrow> peer_ok (normalize_peer p)"
  by (simp add: peer_ok_def normalize_peer_def option.map_comp comp_def)

lemma normalize_peer_id: "peer_ok p \<Longrightarrow> normalize_peer p = p"
  by (cases p) (simp add: peer_ok_def normalize_peer_def)

lemma normalize_each_Inr: "normalize_each kind ps = Inr qs \<Longrightarrow> list_all peer_ok qs \<and> length qs = length ps"
proof (induction ps arbitrary: qs)
  case (Cons p ps)
  from Cons.prems obtain rs where rs: "normalize_each kind ps = Inr rs" "qs = normalize_peer p # rs"
    and ok: "fields_ok (pr_name (normalize_peer p)) (pr_fingerprint_hex (normalize_peer p))
      (pr_address (normalize_peer p))"
    by (cases "normalize_each kind ps") (auto simp: Let_def validate_peer_fields_Inr split: sum.splits)
  with Cons.IH [OF rs(1)] normalize_peer_ok [OF ok] show ?case by simp
qed simp

lemma normalize_each_id: "list_all peer_ok ps \<Longrightarrow> normalize_each kind ps = Inr ps"
proof (induction ps)
  case (Cons p ps)
  then have "validate_peer_fields (pr_name p) (pr_fingerprint_hex p) (pr_address p) kind = Inr ()"
    by (simp add: validate_peer_fields_iff peer_ok_def)
  with Cons show ?case
    by (simp add: Let_def normalize_peer_id)
qed simp

lemma normalize_and_validate_Inr:
  "normalize_and_validate_peers ps kind = Inr qs \<Longrightarrow> peers_ok qs"
  by (auto simp: normalize_and_validate_peers_def peers_ok_def MAX_TRUSTED_PEERS_def
      split: if_splits sum.splits dest!: normalize_each_Inr)

lemma normalize_and_validate_id:
  "peers_ok ps \<Longrightarrow> normalize_and_validate_peers ps kind = Inr ps"
  by (simp add: normalize_and_validate_peers_def peers_ok_def MAX_TRUSTED_PEERS_def normalize_each_id)

lemma save_book_ok:
  "peers_ok (pb_peers b) \<Longrightarrow> save_book io b = (case io of
     Some e \<Rightarrow> (b, Inl e) | None \<Rightarrow> (b\<lparr>pb_file := Some (pb_peers b)\<rparr>, Inr ()))"
  by (simp add: save_book_def normalize_and_validate_id)

text \<open>What the file brings back at the next start.\<close>

definition reload :: "peer_book \<Rightarrow> peer list option" where
  "reload b = (case load_or_create (map_option Inr (pb_file b)) of
     Inl _ \<Rightarrow> None | Inr b2 \<Rightarrow> Some (pb_peers b2))"

lemma reload_saved: "peers_ok ps \<Longrightarrow> reload (b\<lparr>pb_file := Some ps\<rparr>) = Some ps"
  by (simp add: reload_def load_or_create_def normalize_and_validate_id)

lemma load_ok: "load_or_create file = Inr b \<Longrightarrow> peers_ok (pb_peers b) \<and> reload b = Some (pb_peers b)"
  by (auto simp: load_or_create_def reload_def split: option.splits sum.splits
      dest: normalize_and_validate_Inr)

text \<open>The two lists an accepted \<open>pin_with_address\<close> may leave, and the one \<open>unpin\<close> leaves.\<close>

definition new_peer :: "string \<Rightarrow> string \<Rightarrow> string option \<Rightarrow> peer" where
  "new_peer name fp address = \<lparr>pr_name = trim name, pr_fingerprint_hex = to_ascii_lowercase fp,
     pr_address = map_option trim address\<rparr>"

lemma new_peer_ok:
  "validate_peer_fields (trim name) (to_ascii_lowercase fp) (map_option trim address) kind = Inr ()
     \<Longrightarrow> peer_ok (new_peer name fp address)"
  by (simp add: peer_ok_def new_peer_def option.map_comp comp_def validate_peer_fields_iff)

definition merge_peer :: "peer \<Rightarrow> peer \<Rightarrow> peer" where
  "merge_peer q p = p\<lparr>pr_name := pr_name q,
     pr_address := (if pr_address q = None then pr_address p else pr_address q)\<rparr>"

lemma merge_peer_ok: "peer_ok q \<Longrightarrow> peer_ok p \<Longrightarrow> peer_ok (merge_peer q p)"
  by (auto simp: peer_ok_def merge_peer_def fields_ok_def)

text \<open>Trust as a finite map from fingerprints to a name and an address.\<close>

definition trust :: "peer_book \<Rightarrow> string \<rightharpoonup> string \<times> string option" where
  "trust b fp = map_option (\<lambda>p. (pr_name p, pr_address p))
     (find (\<lambda>p. pr_fingerprint_hex p = fp) (pb_peers b))"

lemma is_pinned_trust: "is_pinned fp b \<longleftrightarrow> trust b (to_ascii_lowercase (trim fp)) \<noteq> None"
  by (auto simp: is_pinned_def trust_def list_ex_iff find_None_iff)

lemma find_append: "find P (xs @ ys) = (case find P xs of None \<Rightarrow> find P ys | Some x \<Rightarrow> Some x)"
  by (induction xs) auto

lemma find_update_first_key:
  "k y = key \<Longrightarrow> find (\<lambda>p. k p = c) (update_first (\<lambda>q. k q = key) (\<lambda>_. y) xs) =
     (if c = key then map_option (\<lambda>_. y) (find (\<lambda>p. k p = key) xs) else find (\<lambda>p. k p = c) xs)"
  by (induction xs) auto

lemma keys_update_first:
  "k y = key \<Longrightarrow> map k (update_first (\<lambda>q. k q = key) (\<lambda>_. y) xs) = map k xs"
  by (induction xs) auto

lemma all_update_first: "list_all P xs \<Longrightarrow> P y \<Longrightarrow> list_all P (update_first q (\<lambda>_. y) xs)"
  by (induction xs) auto

text \<open>The peers after a pin that is not refused.\<close>

definition put_peer :: "peer \<Rightarrow> peer list \<Rightarrow> peer list" where
  "put_peer q ps =
     (case find (\<lambda>p. pr_fingerprint_hex p = pr_fingerprint_hex q) ps of
        None \<Rightarrow> ps @ [q]
      | Some p \<Rightarrow> update_first (\<lambda>r. pr_fingerprint_hex r = pr_fingerprint_hex q) (\<lambda>_. merge_peer q p) ps)"

lemma put_peer_ok:
  assumes ps: "peers_ok ps" and q: "peer_ok q"
    and room: "find (\<lambda>p. pr_fingerprint_hex p = pr_fingerprint_hex q) ps = None \<Longrightarrow> length ps < 256"
  shows "peers_ok (put_peer q ps)"
proof (cases "find (\<lambda>p. pr_fingerprint_hex p = pr_fingerprint_hex q) ps")
  case None
  then have "pr_fingerprint_hex q \<notin> pr_fingerprint_hex ` set ps"
    by (auto simp: find_None_iff)
  with ps q room [OF None] show ?thesis
    by (simp add: put_peer_def None peers_ok_def)
next
  case (Some p)
  then have p: "p \<in> set ps" "pr_fingerprint_hex p = pr_fingerprint_hex q"
    by (auto dest: find_Some_set)
  with ps q have "peer_ok (merge_peer q p)"
    by (auto simp: peers_ok_def list_all_iff intro: merge_peer_ok)
  moreover have "pr_fingerprint_hex (merge_peer q p) = pr_fingerprint_hex q"
    by (simp add: merge_peer_def p)
  ultimately show ?thesis
    using ps by (simp add: put_peer_def Some peers_ok_def all_update_first keys_update_first)
qed

definition saved :: "io_error option \<Rightarrow> peer list \<Rightarrow> peer_book \<Rightarrow> peer_book" where
  "saved io ps b = \<lparr>pb_peers = ps, pb_file = (if io = None then Some ps else pb_file b)\<rparr>"

lemma save_book_peers:
  "peers_ok ps \<Longrightarrow> save_book io (b\<lparr>pb_peers := ps\<rparr>)
     = (saved io ps b, case io of None \<Rightarrow> Inr () | Some e \<Rightarrow> Inl e)"
  by (cases b) (auto simp: save_book_ok saved_def split: option.splits)

lemma update_first_same: "find P xs = Some x \<Longrightarrow> update_first P (\<lambda>_. x) xs = xs"
  by (induction xs) auto

text \<open>A pin is refused and changes nothing, finds the peer as it is, or stores it.\<close>

lemma pin_cases:
  assumes ok: "peers_ok (pb_peers b)"
  obtains (refused) err where "pin_with_address io name fp address b = (b, Inl err)"
  | (same) "pin_with_address io name fp address b = (b, Inr ())"
      "put_peer (new_peer name fp address) (pb_peers b) = pb_peers b"
  | (stored) ps where "ps = put_peer (new_peer name fp address) (pb_peers b)" "peers_ok ps"
      "pin_with_address io name fp address b
         = (saved io ps b, case io of None \<Rightarrow> Inr () | Some e \<Rightarrow> Inl e)"
proof -
  let ?q = "new_peer name fp address" and ?fp = "to_ascii_lowercase fp"
  let ?pin = "pin_with_address io name fp address b"
  let ?key = "\<lambda>p. pr_fingerprint_hex p = ?fp"
  have q: "pr_name ?q = trim name" "pr_fingerprint_hex ?q = ?fp" "pr_address ?q = map_option trim address"
    by (simp_all add: new_peer_def)
  show thesis
  proof (cases "fields_ok (trim name) ?fp (map_option trim address)")
    case False
    then have "?pin = (b, Inl (case validate_peer_fields (trim name) ?fp (map_option trim address)
        InvalidInput of Inl e \<Rightarrow> e | Inr _ \<Rightarrow> UnexpectedEof))"
      by (auto simp: pin_with_address_def Let_def validate_peer_fields_Inr split: sum.splits)
    then show thesis by (rule refused)
  next
    case fields: True
    then have valid: "validate_peer_fields (trim name) ?fp (map_option trim address) InvalidInput = Inr ()"
      by (simp add: validate_peer_fields_iff)
    have qok: "peer_ok ?q" by (rule new_peer_ok [OF valid])
    have "list_all is_ascii_hexdigit ?fp" "length ?fp = 64"
      using fields by (simp_all add: fields_ok_def)
    then have trim_fp: "trim ?fp = ?fp"
      by (simp add: trim_hexdigits)
    have pinned: "is_pinned ?fp b \<longleftrightarrow> find ?key (pb_peers b) \<noteq> None"
      by (simp add: is_pinned_trust trust_def trim_fp)
    show thesis
    proof (cases "find ?key (pb_peers b)")
      case None
      show thesis
      proof (cases "length (pb_peers b) < 256")
        case True
        have put: "put_peer ?q (pb_peers b) = pb_peers b @ [?q]"
          by (simp add: put_peer_def q None)
        have ps: "peers_ok (pb_peers b @ [?q])"
          using put_peer_ok [OF ok qok True] by (simp add: put)
        have "?pin = save_book io (b\<lparr>pb_peers := pb_peers b @ [?q]\<rparr>)"
          using True by (simp add: pin_with_address_def Let_def valid pinned None
              MAX_TRUSTED_PEERS_def new_peer_def)
        then show thesis
          using stored [OF _ ps] put by (simp add: save_book_peers [OF ps])
      next
        case False
        then have "?pin = (b, Inl (InvalidInput ''trusted peer limit of 256 reached''))"
          by (simp add: pin_with_address_def Let_def valid pinned None MAX_TRUSTED_PEERS_def)
        then show thesis by (rule refused)
      qed
    next
      case (Some p)
      let ?m = "merge_peer ?q p"
      have put: "put_peer ?q (pb_peers b) = update_first ?key (\<lambda>_. ?m) (pb_peers b)"
        by (simp add: put_peer_def q Some)
      have m: "(if map_option trim address \<noteq> None
          then p\<lparr>pr_name := trim name\<rparr>\<lparr>pr_address := map_option trim address\<rparr>
          else p\<lparr>pr_name := trim name\<rparr>) = ?m"
        by (simp add: merge_peer_def q)
      have pin: "?pin = (if ?m = p then (b, Inr ())
          else save_book io (b\<lparr>pb_peers := update_first ?key (\<lambda>_. ?m) (pb_peers b)\<rparr>))"
        by (simp only: pin_with_address_def Let_def valid pinned Some sum.case option.case m)
          simp
      have ps: "peers_ok (update_first ?key (\<lambda>_. ?m) (pb_peers b))"
        using put_peer_ok [OF ok qok] Some by (simp add: put q)
      show thesis
      proof (cases "?m = p")
        case True
        then show thesis
          using pin put update_first_same [OF Some] by (intro same) simp_all
      next
        case False
        then show thesis
          using pin put by (intro stored [OF _ ps]) (simp_all add: save_book_peers [OF ps])
      qed
    qed
  qed
qed

lemma length_filter_eq: "length (filter P xs) = length xs \<longleftrightarrow> list_all P xs"
proof (induction xs)
  case (Cons x xs)
  then show ?case
    by auto (metis Suc_n_not_le_n length_filter_le)
qed simp

lemma unpin_cases:
  fixes fp
  assumes ok: "peers_ok (pb_peers b)"
  defines "kept \<equiv> filter (\<lambda>p. pr_fingerprint_hex p \<noteq> to_ascii_lowercase fp) (pb_peers b)"
  shows "peers_ok kept \<and> unpin io fp b =
    (if trust b (to_ascii_lowercase fp) = None then (b, Inr False)
     else (saved io kept b, case io of None \<Rightarrow> Inr True | Some e \<Rightarrow> Inl e))"
proof
  show kept: "peers_ok kept"
    using ok unfolding kept_def peers_ok_def
    by (auto simp: list_all_iff distinct_map_filter intro: order_trans [OF length_filter_le])
  have "length kept = length (pb_peers b) \<longleftrightarrow> trust b (to_ascii_lowercase fp) = None"
    unfolding kept_def trust_def length_filter_eq by (auto simp: find_None_iff list_all_iff)
  then show "unpin io fp b =
    (if trust b (to_ascii_lowercase fp) = None then (b, Inr False)
     else (saved io kept b, case io of None \<Rightarrow> Inr True | Some e \<Rightarrow> Inl e))"
    by (simp add: unpin_def kept_def [symmetric] save_book_peers [OF kept] split: option.splits)
qed

section \<open>Runs\<close>

datatype book_op =
    Pin "io_error option" string string "string option"
  | Unpin "io_error option" string

fun book_step :: "book_op \<Rightarrow> peer_book \<Rightarrow> peer_book" where
  "book_step (Pin io name fp address) b = fst (pin_with_address io name fp address b)"
| "book_step (Unpin io fp) b = fst (unpin io fp b)"

fun write_ok :: "book_op \<Rightarrow> bool" where
  "write_ok (Pin io name fp address) = (io = None)"
| "write_ok (Unpin io fp) = (io = None)"

lemma reload_saved_book: "peers_ok ps \<Longrightarrow> reload (saved None ps b) = Some ps"
  by (simp add: saved_def reload_def load_or_create_def normalize_and_validate_id)

lemma pb_peers_saved [simp]: "pb_peers (saved io ps b) = ps"
  by (simp add: saved_def)

interpretation book_run: event_machine book_step "\<lambda>b :: peer_book. peers_ok (pb_peers b)" "\<lambda>_. True"
proof
  fix b :: peer_book and op
  assume ok: "peers_ok (pb_peers b)"
  show "peers_ok (pb_peers (book_step op b))"
  proof (cases op)
    case (Pin io name fp address)
    with ok show ?thesis by (cases rule: pin_cases [OF ok, of io name fp address]) simp_all
  next
    case (Unpin io fp)
    with ok unpin_cases [OF ok, of fp io] show ?thesis by simp
  qed
qed

interpretation synced_run: event_machine book_step
  "\<lambda>b :: peer_book. peers_ok (pb_peers b) \<and> reload b = Some (pb_peers b)" write_ok
proof
  fix b :: peer_book and op
  assume inv: "peers_ok (pb_peers b) \<and> reload b = Some (pb_peers b)" and wr: "write_ok op"
  then have ok: "peers_ok (pb_peers b)" by blast
  show "peers_ok (pb_peers (book_step op b)) \<and> reload (book_step op b) = Some (pb_peers (book_step op b))"
  proof (cases op)
    case (Pin io name fp address)
    with inv wr show ?thesis
      by (cases rule: pin_cases [OF ok, of io name fp address]) (simp_all add: reload_saved_book)
  next
    case (Unpin io fp)
    with inv wr unpin_cases [OF ok, of fp io] show ?thesis by (simp add: reload_saved_book)
  qed
qed

text \<open>
  The list of trusted peers stays valid and is what the next start loads. From a list
  that was loaded, after any pins and unpins, whether the file could be written or not, the
  list has at most 256 well-formed peers with different fingerprints; and as long as every
  write succeeded, loading the file again gives exactly the list in memory.
\<close>

theorem peer_book_runs:
  assumes "load_or_create file = Inr b0"
  shows "let b = fold book_step ops b0
    in length (pb_peers b) \<le> 256 \<and> list_all peer_ok (pb_peers b)
       \<and> distinct (map pr_fingerprint_hex (pb_peers b))
       \<and> (list_all write_ok ops \<longrightarrow> reload b = Some (pb_peers b))"
proof -
  have "peers_ok (pb_peers b0)" "reload b0 = Some (pb_peers b0)"
    using load_ok [OF assms] by simp_all
  then have "peers_ok (pb_peers (fold book_step ops b0))"
    and "list_all write_ok ops \<Longrightarrow> reload (fold book_step ops b0) = Some (pb_peers (fold book_step ops b0))"
    using book_run.run_inv_all synced_run.run_inv by blast+
  then show ?thesis
    by (simp add: Let_def peers_ok_def)
qed

lemma peer_book_runs_witness:
  "let b = fold book_step [Pin None '' desk '' (replicate 64 (CHR ''A'')) None] \<lparr>pb_peers = [], pb_file = None\<rparr>
   in length (pb_peers b) \<le> 256 \<and> reload b = Some (pb_peers b)"
  using peer_book_runs [of None "\<lparr>pb_peers = [], pb_file = None\<rparr>"
      "[Pin None '' desk '' (replicate 64 (CHR ''A'')) None]"]
  by (simp add: load_or_create_def normalize_and_validate_peers_def Let_def MAX_TRUSTED_PEERS_def)

lemma trust_saved: "trust (saved io ps b) fp = map_option (\<lambda>p. (pr_name p, pr_address p))
    (find (\<lambda>p. pr_fingerprint_hex p = fp) ps)"
  by (simp add: trust_def)

lemma trust_put_peer:
  "trust (saved io (put_peer (new_peer name fp address) (pb_peers b)) b)
     = (trust b)(to_ascii_lowercase fp \<mapsto>
         (trim name, if address = None then (case trust b (to_ascii_lowercase fp) of
              None \<Rightarrow> None | Some (_, a) \<Rightarrow> a) else map_option trim address))"
proof (rule ext)
  fix c
  define f where "f = to_ascii_lowercase fp"
  define q where "q = new_peer name fp address"
  have q: "pr_name q = trim name" "pr_fingerprint_hex q = f" "pr_address q = map_option trim address"
    by (simp_all add: q_def f_def new_peer_def)
  show "trust (saved io (put_peer (new_peer name fp address) (pb_peers b)) b) c
    = ((trust b)(to_ascii_lowercase fp \<mapsto> (trim name, if address = None
         then (case trust b (to_ascii_lowercase fp) of None \<Rightarrow> None | Some (_, a) \<Rightarrow> a)
         else map_option trim address))) c"
    unfolding q_def [symmetric] f_def [symmetric]
  proof (cases "find (\<lambda>p. pr_fingerprint_hex p = f) (pb_peers b)")
    case None
    then show "trust (saved io (put_peer q (pb_peers b)) b) c = ((trust b)(f \<mapsto> (trim name,
        if address = None then (case trust b f of None \<Rightarrow> None | Some (_, a) \<Rightarrow> a)
        else map_option trim address))) c"
      by (auto simp: trust_saved put_peer_def q find_append trust_def split: option.splits)
  next
    case (Some p)
    then have "pr_fingerprint_hex (merge_peer q p) = f"
      by (auto simp: merge_peer_def dest: find_Some_set)
    with Some show "trust (saved io (put_peer q (pb_peers b)) b) c = ((trust b)(f \<mapsto> (trim name,
        if address = None then (case trust b f of None \<Rightarrow> None | Some (_, a) \<Rightarrow> a)
        else map_option trim address))) c"
      by (auto simp: trust_saved put_peer_def q find_update_first_key trust_def merge_peer_def)
  qed
qed

lemma find_filter_key:
  "find (\<lambda>p. k p = c) (filter (\<lambda>p. k p \<noteq> key) xs) = (if c = key then None else find (\<lambda>p. k p = c) xs)"
  by (induction xs) auto

text \<open>
  C39: pinning and unpinning are map updates. Seen as a map from fingerprints to a name and an
  address, a successful pin stores the trimmed name under the lower-case fingerprint, keeps
  the known address when none is given, and touches no other peer; a successful unpin
  removes exactly that peer and tells whether there was one; and \<open>is_pinned\<close> is the domain of
  the map.
\<close>

theorem peer_book_refines_map:
  assumes "peers_ok (pb_peers b)"
  shows "(pin_with_address io name fp address b = (b2, Inr ()) \<longrightarrow>
      trust b2 = (trust b)(to_ascii_lowercase fp \<mapsto>
         (trim name, if address = None then (case trust b (to_ascii_lowercase fp) of
              None \<Rightarrow> None | Some (_, a) \<Rightarrow> a) else map_option trim address)))
    \<and> (unpin io fp b = (b3, Inr found) \<longrightarrow>
      trust b3 = (trust b)(to_ascii_lowercase fp := None)
      \<and> found = (trust b (to_ascii_lowercase fp) \<noteq> None))
    \<and> (is_pinned fp b \<longleftrightarrow> to_ascii_lowercase (trim fp) \<in> dom (trust b))"
proof (intro conjI impI)
  assume pin: "pin_with_address io name fp address b = (b2, Inr ())"
  have "trust b2 = trust (saved io (put_peer (new_peer name fp address) (pb_peers b)) b)"
    using pin by (cases rule: pin_cases [OF assms, of io name fp address]) (auto simp: trust_def fun_eq_iff)
  then show "trust b2 = (trust b)(to_ascii_lowercase fp \<mapsto>
         (trim name, if address = None then (case trust b (to_ascii_lowercase fp) of
              None \<Rightarrow> None | Some (_, a) \<Rightarrow> a) else map_option trim address))"
    by (simp only: trust_put_peer)
next
  assume "unpin io fp b = (b3, Inr found)"
  with unpin_cases [OF assms, of fp io]
  show "trust b3 = (trust b)(to_ascii_lowercase fp := None)"
    and "found = (trust b (to_ascii_lowercase fp) \<noteq> None)"
    by (auto simp: trust_def fun_eq_iff find_filter_key split: if_splits option.splits)
next
  show "is_pinned fp b \<longleftrightarrow> to_ascii_lowercase (trim fp) \<in> dom (trust b)"
    by (auto simp: is_pinned_trust)
qed

lemma peer_book_refines_map_witness:
  "\<exists>b2. pin_with_address None ''desk'' (replicate 64 (CHR ''A'')) None \<lparr>pb_peers = [], pb_file = None\<rparr>
      = (b2, Inr ())
    \<and> trust b2 (replicate 64 (CHR ''a'')) = Some (''desk'', None)"
proof -
  have ok: "peers_ok (pb_peers \<lparr>pb_peers = [], pb_file = None\<rparr>)"
    by (simp add: peers_ok_def)
  obtain b2 where b2: "pin_with_address None ''desk'' (replicate 64 (CHR ''A'')) None
      \<lparr>pb_peers = [], pb_file = None\<rparr> = (b2, Inr ())"
  proof -
    have "snd (pin_with_address None ''desk'' (replicate 64 (CHR ''A'')) None
      \<lparr>pb_peers = [], pb_file = None\<rparr>) = Inr ()"
      by code_simp
    then show thesis using that by (metis prod.collapse)
  qed
  have "to_ascii_lowercase (replicate 64 (CHR ''A'')) = replicate 64 (CHR ''a'')"
    "trim ''desk'' = ''desk''"
    by code_simp+
  moreover have "trust b2 = (trust \<lparr>pb_peers = [], pb_file = None\<rparr>)
    (to_ascii_lowercase (replicate 64 (CHR ''A'')) \<mapsto> (trim ''desk'', None))"
    using b2 peer_book_refines_map [OF ok, where io = None and name = "''desk''"
      and fp = "replicate 64 (CHR ''A'')" and address = None and ?b2.0 = b2]
    by (simp add: trust_def)
  ultimately show ?thesis
    using b2 by simp
qed

text \<open>
  A failed revocation cannot be repeated. When the file cannot be written, \<open>unpin\<close>
  reports the error but has dropped the peer from memory; asked again with a working disk it
  answers that there is no such peer and writes nothing, so the file still holds the peer
  and the next start trusts it again.
\<close>

theorem failed_unpin_is_undone:
  assumes "peers_ok (pb_peers b)" and "reload b = Some (pb_peers b)"
    and "trust b (to_ascii_lowercase fp) \<noteq> None"
  shows "\<exists>b1. unpin (Some err) fp b = (b1, Inl err) \<and> unpin None fp b1 = (b1, Inr False)
    \<and> reload b1 = Some (pb_peers b)"
proof (intro exI conjI)
  let ?kept = "filter (\<lambda>p. pr_fingerprint_hex p \<noteq> to_ascii_lowercase fp) (pb_peers b)"
  let ?b1 = "saved (Some err) ?kept b"
  show "unpin (Some err) fp b = (?b1, Inl err)"
    using unpin_cases [OF assms(1), of fp "Some err"] assms(3) by simp
  have "trust ?b1 (to_ascii_lowercase fp) = None"
    by (simp add: trust_saved find_filter_key)
  moreover have "peers_ok (pb_peers ?b1)"
    using unpin_cases [OF assms(1), of fp "Some err"] by simp
  ultimately show "unpin None fp ?b1 = (?b1, Inr False)"
    using unpin_cases [of ?b1 fp None] by simp
  show "reload ?b1 = Some (pb_peers b)"
    using assms(2) by (simp add: reload_def saved_def)
qed

lemma failed_unpin_is_undone_witness:
  "\<exists>b b1. unpin (Some UnexpectedEof) (replicate 64 (CHR ''a'')) b = (b1, Inl UnexpectedEof)
     \<and> unpin None (replicate 64 (CHR ''a'')) b1 = (b1, Inr False)
     \<and> reload b1 = Some (pb_peers b)"
proof -
  let ?fp = "replicate 64 (CHR ''a'')"
  let ?p = "\<lparr>pr_name = ''desk'', pr_fingerprint_hex = ?fp, pr_address = None\<rparr>"
  let ?b = "\<lparr>pb_peers = [?p], pb_file = Some [?p]\<rparr>"
  have "peer_ok ?p" by code_simp
  then have ok: "peers_ok (pb_peers ?b)" by (simp add: peers_ok_def)
  have "reload ?b = Some (pb_peers ?b)"
    using reload_saved_book [OF ok, of ?b] by (simp add: saved_def)
  moreover have "trust ?b (to_ascii_lowercase ?fp) \<noteq> None" by code_simp
  ultimately show ?thesis
    using failed_unpin_is_undone [OF ok, of ?fp UnexpectedEof] by blast
qed

end
