(* ===== verification/Invite.thy ===== *)
theory Invite
  imports Pairing
begin

text \<open>
  Pairing invites: \<^verbatim>\<open>kvm-protocol/src/invite.rs\<close>. The look-up of the LAN address asks the
  operating system and is not modelled.
\<close>

definition INVITE_SCHEME :: string where "INVITE_SCHEME = ''thekvm://v1/''"

text \<open>\<open>str::strip_prefix\<close> and \<open>str::rsplit_once\<close> of a character.\<close>

definition strip_prefix :: "'a list \<Rightarrow> 'a list \<Rightarrow> 'a list option" where
  "strip_prefix p s = (if is_prefix p s then Some (drop (length p) s) else None)"

fun rsplit_once :: "'a \<Rightarrow> 'a list \<Rightarrow> ('a list \<times> 'a list) option" where
  "rsplit_once c [] = None"
| "rsplit_once c (x # xs) =
     (case rsplit_once c xs of
        Some (before, after) \<Rightarrow> Some (x # before, after)
      | None \<Rightarrow> if x = c then Some ([], xs) else None)"

definition parse_invite :: "string \<Rightarrow> io_error + string \<times> string" where
  "parse_invite text0 =
     (let trimmed = trim text0;
          lowered = to_ascii_lowercase trimmed;
          body = (case strip_prefix INVITE_SCHEME lowered of
              Some rest \<Rightarrow> drop (length trimmed - length rest) trimmed
            | None \<Rightarrow> (case strip_prefix ''thekvm://'' lowered of
                Some rest \<Rightarrow> drop (length trimmed - length rest) trimmed
              | None \<Rightarrow> trimmed))
      in case rsplit_once (CHR ''#'') body of
           None \<Rightarrow> Inl (InvalidData ''invite must contain '#<certificate fingerprint>' '')
         | Some (address0, fingerprint0) \<Rightarrow>
             (let address = trim address0;
                  fingerprint = to_ascii_lowercase (trim fingerprint0)
              in if length fingerprint \<noteq> 64 \<or> \<not> list_all is_ascii_hexdigit fingerprint
                 then Inl (InvalidData ''invite fingerprint must contain 64 hexadecimal characters'')
                 else if has_control address
                 then Inl (InvalidData ''invite address contains control characters'')
                 else Inr (address, fingerprint)))"

definition build_invite :: "string \<Rightarrow> string \<Rightarrow> io_error + string" where
  "build_invite address fingerprint_hex =
     (let fingerprint = to_ascii_lowercase (trim fingerprint_hex)
      in if length fingerprint \<noteq> 64 \<or> \<not> list_all is_ascii_hexdigit fingerprint
         then Inl (InvalidInput ''fingerprint must contain 64 hexadecimal characters'')
         else if has_control address
         then Inl (InvalidInput ''address contains control characters'')
         else Inr (INVITE_SCHEME @ trim address @ ''#'' @ fingerprint))"

definition describe_invite ::
  "(bytes \<Rightarrow> bytes) \<Rightarrow> string \<Rightarrow> string \<Rightarrow> string \<Rightarrow> io_error + string \<times> string" where
  "describe_invite hash address fingerprint_hex peer_fingerprint_hex =
     (case build_invite address fingerprint_hex of
        Inl e \<Rightarrow> Inl e
      | Inr invite \<Rightarrow> Inr (invite, verification_code hash fingerprint_hex peer_fingerprint_hex))"

section \<open>Invites are read as they were built\<close>

lemma rsplit_once_None: "rsplit_once c xs = None \<longleftrightarrow> c \<notin> set xs"
  by (induction xs) (auto split: option.splits)

lemma rsplit_once_append: "c \<notin> set ys \<Longrightarrow> rsplit_once c (xs @ c # ys) = Some (xs, ys)"
proof (induction xs)
  case Nil
  then show ?case using rsplit_once_None [of c ys] by simp
qed simp

lemma rsplit_once_Some: "rsplit_once c s = Some (xs, ys) \<Longrightarrow> s = xs @ c # ys \<and> c \<notin> set ys"
proof (induction s arbitrary: xs)
  case (Cons x s)
  then show ?case
    using rsplit_once_None [of c s] by (auto split: option.splits if_splits)
qed simp

lemma has_control_suffix: "has_control ys \<Longrightarrow> has_control (xs @ ys)"
  by (induction xs) auto

lemma has_control_prefix: "has_control xs \<Longrightarrow> has_control (xs @ ys)"
proof (induction xs rule: has_control.induct)
  case (2 c s)
  then show ?case by (cases s) auto
qed simp

lemma trim_infix: "\<exists>xs ys. s = xs @ trim s @ ys"
proof -
  define u where "u = strip_leading white_space s"
  obtain xs where s: "s = xs @ u"
    using strip_leading_suffix [of s white_space] by (auto simp: u_def)
  obtain t where "rev u = t @ rev (trim s)"
    using strip_leading_suffix [of "rev u" "map rev white_space"] by (auto simp: u_def trim_def)
  then have "u = trim s @ rev t"
    by (metis rev_append rev_rev_ident)
  with s show ?thesis by blast
qed

lemma has_control_trim: "has_control (trim s) \<Longrightarrow> has_control s"
  using trim_infix [of s] by (metis has_control_prefix has_control_suffix)

definition fingerprint_of :: "string \<Rightarrow> string" where
  "fingerprint_of s = to_ascii_lowercase (trim s)"

lemma to_ascii_lowercase_append: "to_ascii_lowercase (a @ b) = to_ascii_lowercase a @ to_ascii_lowercase b"
  by (simp add: to_ascii_lowercase_def)

lemma parse_built:
  assumes fp: "list_all is_ascii_hexdigit fp" "length fp = 64" "to_ascii_lowercase fp = fp"
    and address: "trim address = address" "\<not> has_control address"
  shows "parse_invite (INVITE_SCHEME @ address @ ''#'' @ fp) = Inr (address, fp)"
proof -
  let ?url = "INVITE_SCHEME @ address @ ''#'' @ fp"
  have ne: "fp \<noteq> []" using fp(2) by auto
  have "visible (last ?url)"
    using ne fp(1) by (simp add: list_all_iff hexdigit_visible)
  then have trimmed: "trim ?url = ?url"
    by (intro trim_visible) (simp_all add: INVITE_SCHEME_def visible_def)
  have low: "to_ascii_lowercase INVITE_SCHEME = INVITE_SCHEME" "length INVITE_SCHEME = 12"
    by code_simp (simp add: INVITE_SCHEME_def)
  have strip: "strip_prefix INVITE_SCHEME (to_ascii_lowercase ?url)
    = Some (to_ascii_lowercase (address @ ''#'' @ fp))"
    by (simp add: strip_prefix_def to_ascii_lowercase_append low)
  have "CHR ''#'' \<notin> set fp"
    using fp(1) by (auto simp: list_all_iff is_ascii_hexdigit_def is_ascii_digit_def)
  then have split: "rsplit_once (CHR ''#'') (address @ ''#'' @ fp) = Some (address, fp)"
    by (simp add: rsplit_once_append)
  have body: "drop (length ?url - length (to_ascii_lowercase (address @ ''#'' @ fp))) ?url
    = address @ ''#'' @ fp"
    by simp
  show ?thesis
    unfolding parse_invite_def trimmed Let_def strip option.case body split prod.case
    using fp address by (simp add: trim_hexdigits)
qed

lemma parse_invite_Inr:
  assumes "parse_invite text = Inr (a, f)"
  shows "length f = 64 \<and> list_all is_ascii_hexdigit f \<and> \<not> has_control a \<and> trim a = a
    \<and> to_ascii_lowercase f = f"
proof -
  from assms obtain body where "(case rsplit_once (CHR ''#'') body of
        None \<Rightarrow> Inl (InvalidData ''invite must contain '#<certificate fingerprint>' '')
      | Some (address0, fingerprint0) \<Rightarrow>
          (let address = trim address0; fingerprint = to_ascii_lowercase (trim fingerprint0)
           in if length fingerprint \<noteq> 64 \<or> \<not> list_all is_ascii_hexdigit fingerprint
              then Inl (InvalidData ''invite fingerprint must contain 64 hexadecimal characters'')
              else if has_control address
              then Inl (InvalidData ''invite address contains control characters'')
              else Inr (address, fingerprint))) = Inr (a, f)"
    unfolding parse_invite_def Let_def by blast
  then show ?thesis
    by (cases "rsplit_once (CHR ''#'') body") (auto simp: Let_def split: if_splits)
qed

text \<open>
  An invite is read as it was built. Whatever address, even one that contains the
  separator or looks like an invite itself, the receiver gets the trimmed address and the
  lower-case fingerprint; and whatever text is pasted, what is accepted as an invite has a
  64-digit lower-case fingerprint and an address without control characters, so an invite
  can be built from it again.
\<close>

theorem invite_round_trip:
  "(build_invite address fp = Inr url \<longrightarrow>
      parse_invite url = Inr (trim address, to_ascii_lowercase (trim fp)))
   \<and> (parse_invite text = Inr (a, f) \<longrightarrow>
      (\<exists>u. build_invite a f = Inr u \<and> parse_invite u = Inr (a, f)))"
proof (intro conjI impI)
  assume "build_invite address fp = Inr url"
  then have url: "url = INVITE_SCHEME @ trim address @ ''#'' @ fingerprint_of fp"
    and ok: "list_all is_ascii_hexdigit (fingerprint_of fp)" "length (fingerprint_of fp) = 64"
      "\<not> has_control address"
    by (auto simp: build_invite_def fingerprint_of_def Let_def split: if_splits)
  have "parse_invite url = Inr (trim address, fingerprint_of fp)"
    unfolding url using ok has_control_trim [of address]
    by (intro parse_built) (auto simp: fingerprint_of_def)
  then show "parse_invite url = Inr (trim address, to_ascii_lowercase (trim fp))"
    by (simp add: fingerprint_of_def)
next
  assume "parse_invite text = Inr (a, f)"
  then have ok: "list_all is_ascii_hexdigit f" "length f = 64" "\<not> has_control a" "trim a = a"
    "to_ascii_lowercase f = f"
    using parse_invite_Inr by blast+
  have "trim f = f" using ok(1) by (rule trim_hexdigits)
  with ok have "build_invite a f = Inr (INVITE_SCHEME @ a @ ''#'' @ f)"
    by (simp add: build_invite_def)
  moreover have "parse_invite (INVITE_SCHEME @ a @ ''#'' @ f) = Inr (a, f)"
    by (rule parse_built) (use ok in auto)
  ultimately show "\<exists>u. build_invite a f = Inr u \<and> parse_invite u = Inr (a, f)"
    by blast
qed

lemma invite_round_trip_witness:
  "parse_invite (''thekvm://v1/10.0.0.7:42110#'' @ replicate 64 (CHR ''a''))
     = Inr (''10.0.0.7:42110'', replicate 64 (CHR ''a''))"
proof -
  have url: "build_invite '' 10.0.0.7:42110'' (replicate 64 (CHR ''A''))
    = Inr (''thekvm://v1/10.0.0.7:42110#'' @ replicate 64 (CHR ''a''))"
    by code_simp
  have parts: "trim '' 10.0.0.7:42110'' = ''10.0.0.7:42110''"
    "to_ascii_lowercase (trim (replicate 64 (CHR ''A''))) = replicate 64 (CHR ''a'')"
    by code_simp+
  show ?thesis
    using invite_round_trip [THEN conjunct1, THEN mp, OF url] unfolding parts .
qed

end
