(* ===== verification/Discovery.thy ===== *)
theory Discovery
  imports Wire Udp
begin

text \<open>
  LAN discovery: \<^verbatim>\<open>kvm-protocol/src/discovery.rs\<close>. \<^verbatim>\<open>serde_json\<close> is the pair of parameters
  \<open>to_json\<close> and \<open>from_json\<close>; the network interfaces and the datagrams that arrive in each
  round of a scan are arguments. An IPv4 address is its 32-bit number.
\<close>

section \<open>Advertisements\<close>

definition REQUEST :: bytes where "REQUEST = str_bytes ''THEKVM-DISCOVER/1''"
definition RESPONSE_PREFIX :: bytes where
  "RESPONSE_PREFIX = str_bytes (''THEKVM-ADVERTISE/1'' @ [CHR 0x00])"
definition MAX_RESPONSE_SIZE :: nat where "MAX_RESPONSE_SIZE = 1024"

record advertisement =
  ad_node_name :: string
  ad_listen_port :: u16
  ad_fingerprint_hex :: string
  ad_mode :: mode

fun role_label :: "mode \<Rightarrow> string" where
  "role_label Bidirectional = ''both ways''"
| "role_label ServerClient = ''controls other''"
| "role_label ClientOnly = ''is controlled''"

definition validate_advertisement :: "advertisement \<Rightarrow> io_error + unit" where
  "validate_advertisement a =
     (if trim (ad_node_name a) = [] \<or> length (ad_node_name a) > MAX_DEVICE_NAME_BYTES
         \<or> has_control (ad_node_name a)
      then Inl (InvalidInput ''discovery node name is empty or too long'')
      else if ad_listen_port a = 0
      then Inl (InvalidInput ''discovery listen port must be non-zero'')
      else if length (ad_fingerprint_hex a) \<noteq> 64
         \<or> \<not> list_all is_ascii_hexdigit (ad_fingerprint_hex a)
      then Inl (InvalidInput ''discovery fingerprint must contain 64 hexadecimal characters'')
      else Inr ())"

definition encode_advertisement ::
  "(advertisement \<Rightarrow> string + bytes) \<Rightarrow> advertisement \<Rightarrow> io_error + bytes" where
  "encode_advertisement to_json a =
     (case validate_advertisement a of
        Inl e \<Rightarrow> Inl e
      | Inr _ \<Rightarrow>
          (case to_json a of
             Inl e \<Rightarrow> Inl (InvalidData e)
           | Inr payload \<Rightarrow>
               if length RESPONSE_PREFIX + length payload > MAX_RESPONSE_SIZE
               then Inl (InvalidInput ''discovery advertisement exceeds maximum size'')
               else Inr (RESPONSE_PREFIX @ payload)))"

definition decode_advertisement ::
  "(bytes \<Rightarrow> string + advertisement) \<Rightarrow> bytes \<Rightarrow> io_error + advertisement" where
  "decode_advertisement from_json payload =
     (if length payload \<le> length RESPONSE_PREFIX \<or> length payload > MAX_RESPONSE_SIZE
      then Inl (InvalidData ''invalid discovery advertisement size'')
      else if \<not> is_prefix RESPONSE_PREFIX payload
      then Inl (InvalidData ''invalid discovery advertisement prefix'')
      else case from_json (drop (length RESPONSE_PREFIX) payload) of
        Inl e \<Rightarrow> Inl (InvalidData e)
      | Inr a \<Rightarrow> (case validate_advertisement a of Inl e \<Rightarrow> Inl e | Inr _ \<Rightarrow> Inr a))"

definition is_request :: "bytes \<Rightarrow> bool" where
  "is_request payload \<longleftrightarrow> payload = REQUEST"

section \<open>Scanning\<close>

datatype if_addr = V4 (if_ip: u32) (if_netmask: u32) | V6

definition BROADCAST :: u32 where "BROADCAST = 0xFFFFFFFF"

definition is_loopback :: "u32 \<Rightarrow> bool" where "is_loopback ip \<longleftrightarrow> drop_bit 24 ip = 127"
definition is_link_local :: "u32 \<Rightarrow> bool" where "is_link_local ip \<longleftrightarrow> drop_bit 16 ip = 0xA9FE"
definition is_unspecified :: "u32 \<Rightarrow> bool" where "is_unspecified ip \<longleftrightarrow> ip = 0"

fun add_target :: "if_addr \<Rightarrow> u32 list \<Rightarrow> u32 list" where
  "add_target V6 targets = targets"
| "add_target (V4 ip netmask) targets =
     (if is_loopback ip \<or> is_link_local ip \<or> is_unspecified ip then targets
      else
        (let broadcast = ip OR NOT netmask
         in if broadcast \<noteq> BROADCAST \<and> broadcast \<notin> set targets then targets @ [broadcast]
            else targets))"

definition broadcast_targets :: "if_addr list \<Rightarrow> u32 list" where
  "broadcast_targets interfaces = fold add_target interfaces [BROADCAST]"

text \<open>A datagram that arrived: its source address and its bytes. A result of the scan: the
  address to dial and the advertisement.\<close>

type_synonym reply = "u32 \<times> bytes"
type_synonym found = "(u32 \<times> u16) \<times> advertisement"

definition take_reply ::
  "(bytes \<Rightarrow> string + advertisement) \<Rightarrow> reply \<Rightarrow> string set \<times> found list \<Rightarrow> string set \<times> found list"
  where
  "take_reply from_json r st =
     (let (source, payload) = r; (seen, results) = st
      in case decode_advertisement from_json (take 2048 payload) of
           Inl _ \<Rightarrow> (seen, results)
         | Inr a \<Rightarrow>
             if ad_fingerprint_hex a \<in> seen then (seen, results)
             else (insert (ad_fingerprint_hex a) seen,
                   results @ [((source, ad_listen_port a), a)]))"

text \<open>
  The rounds of a scan. A round is what arrived before its window closed (or the socket
  failed) and whether the overall deadline had passed by then.
\<close>

definition ROUNDS :: nat where "ROUNDS = 3"

fun scan_rounds ::
  "(bytes \<Rightarrow> string + advertisement) \<Rightarrow> (reply list \<times> bool) list \<Rightarrow> string set \<times> found list
     \<Rightarrow> string set \<times> found list" where
  "scan_rounds from_json [] st = st"
| "scan_rounds from_json ((replies, expired) # rounds) st =
     (let st2 = fold (take_reply from_json) replies st
      in if expired then st2 else scan_rounds from_json rounds st2)"

definition scan :: "(bytes \<Rightarrow> string + advertisement) \<Rightarrow> (reply list \<times> bool) list \<Rightarrow> found list" where
  "scan from_json rounds = snd (scan_rounds from_json (take ROUNDS rounds) ({}, []))"

section \<open>What a scan finds\<close>

lemma validate_advertisement_Inr: "validate_advertisement a = Inr u \<longleftrightarrow> validate_advertisement a = Inr ()"
  by simp

lemma decode_advertisement_valid:
  "decode_advertisement from_json p = Inr a \<Longrightarrow> validate_advertisement a = Inr ()"
  by (auto simp: decode_advertisement_def split: if_splits sum.splits)

text \<open>The replies a scan has heard: all of a round, and no round after the deadline.\<close>

fun heard :: "(reply list \<times> bool) list \<Rightarrow> reply list" where
  "heard [] = []"
| "heard ((replies, expired) # rounds) = replies @ (if expired then [] else heard rounds)"

lemma scan_rounds_heard: "scan_rounds from_json rounds st = fold (take_reply from_json) (heard rounds) st"
  by (induction rounds arbitrary: st rule: heard.induct) (auto simp: Let_def)

definition advert_of :: "(bytes \<Rightarrow> string + advertisement) \<Rightarrow> reply \<Rightarrow> found option" where
  "advert_of from_json r = (case decode_advertisement from_json (take 2048 (snd r)) of
     Inl _ \<Rightarrow> None | Inr a \<Rightarrow> Some ((fst r, ad_listen_port a), a))"

lemma take_reply_advert:
  "take_reply from_json r (seen, results) = (case advert_of from_json r of
     None \<Rightarrow> (seen, results)
   | Some f \<Rightarrow> if ad_fingerprint_hex (snd f) \<in> seen then (seen, results)
       else (insert (ad_fingerprint_hex (snd f)) seen, results @ [f]))"
  by (cases r) (auto simp: take_reply_def advert_of_def split: sum.splits)

lemma fold_take_reply:
  assumes "fold (take_reply from_json) rs ({}, []) = (seen, results)"
  shows "seen = (\<lambda>f. ad_fingerprint_hex (snd f)) ` set results
    \<and> distinct (map (\<lambda>f. ad_fingerprint_hex (snd f)) results)
    \<and> set results \<subseteq> {f. \<exists>r \<in> set rs. advert_of from_json r = Some f}
    \<and> (\<forall>r \<in> set rs. \<forall>f. advert_of from_json r = Some f \<longrightarrow> ad_fingerprint_hex (snd f) \<in> seen)"
  using assms
proof (induction rs arbitrary: seen results rule: rev_induct)
  case (snoc r rs)
  obtain seen1 results1 where st: "fold (take_reply from_json) rs ({}, []) = (seen1, results1)"
    by fastforce
  from snoc.prems have step: "take_reply from_json r (seen1, results1) = (seen, results)"
    by (simp add: st)
  show ?case
    using snoc.IH [OF st] step
    by (cases "advert_of from_json r")
      (auto simp: take_reply_advert split: if_splits)
qed simp

text \<open>
  A scan is sound and complete. Every result is a valid advertisement from a datagram
  the scan received, at the address the datagram came from and the port it names; no
  fingerprint is listed twice; and every device of which one decodable reply arrived before
  the deadline is listed.
\<close>

theorem scan_sound_and_complete:
  "distinct (map (\<lambda>f. ad_fingerprint_hex (snd f)) (scan from_json rounds))
   \<and> (\<forall>f \<in> set (scan from_json rounds). validate_advertisement (snd f) = Inr ()
        \<and> (\<exists>r \<in> set (heard (take 3 rounds)). advert_of from_json r = Some f
             \<and> fst f = (fst r, ad_listen_port (snd f))))
   \<and> (\<forall>r \<in> set (heard (take 3 rounds)). \<forall>f. advert_of from_json r = Some f \<longrightarrow>
        ad_fingerprint_hex (snd f) \<in> (\<lambda>f. ad_fingerprint_hex (snd f)) ` set (scan from_json rounds))"
proof -
  obtain seen where st: "fold (take_reply from_json) (heard (take 3 rounds)) ({}, [])
      = (seen, scan from_json rounds)"
    by (simp add: scan_def ROUNDS_def scan_rounds_heard) (metis prod.collapse)
  have adv: "validate_advertisement (snd f) = Inr () \<and> fst f = (fst r, ad_listen_port (snd f))"
    if "advert_of from_json r = Some f" for r f
    using that decode_advertisement_valid [of from_json]
    by (auto simp: advert_of_def split: sum.splits)
  show ?thesis
    using fold_take_reply [OF st] adv by blast
qed

definition probe_advert :: advertisement where
  "probe_advert = \<lparr>ad_node_name = ''desk'', ad_listen_port = 42110,
     ad_fingerprint_hex = replicate 64 (CHR ''a''), ad_mode = Bidirectional\<rparr>"

lemma scan_sound_and_complete_witness:
  "ad_fingerprint_hex probe_advert \<in> (\<lambda>f. ad_fingerprint_hex (snd f)) `
     set (scan (\<lambda>_. Inr probe_advert) [([(5, RESPONSE_PREFIX @ [1])], True)])"
proof -
  have "validate_advertisement probe_advert = Inr ()"
    by code_simp
  then have "advert_of (\<lambda>_. Inr probe_advert) (5, RESPONSE_PREFIX @ [1]) = Some ((5, 42110), probe_advert)"
    by (simp add: advert_of_def decode_advertisement_def RESPONSE_PREFIX_def MAX_RESPONSE_SIZE_def
        probe_advert_def)
  moreover have "(5, RESPONSE_PREFIX @ [1]) \<in> set (heard (take 3 [([(5, RESPONSE_PREFIX @ [1])], True)]))"
    by simp
  ultimately show ?thesis
    using scan_sound_and_complete
      [of "\<lambda>_. Inr probe_advert" "[([(5, RESPONSE_PREFIX @ [1])], True)]"]
    by (metis snd_conv)
qed

text \<open>
  An advertisement is read as it was sent, by whoever receives the datagram whole, given
  that JSON parsing undoes printing; and what \<open>decode_advertisement\<close> accepts is valid and at
  most 1024 bytes long.
\<close>

theorem advertisement_round_trip:
  assumes json: "\<forall>p. to_json a = Inr p \<longrightarrow> from_json p = Inr a \<and> p \<noteq> []"
    and "encode_advertisement to_json a = Inr b"
  shows "decode_advertisement from_json b = Inr a \<and> length b \<le> 1024
    \<and> validate_advertisement a = Inr ()"
proof -
  from assms(2) have ok: "validate_advertisement a = Inr ()"
    by (cases "validate_advertisement a") (auto simp: encode_advertisement_def)
  with assms(2) obtain q where q: "to_json a = Inr q" "b = RESPONSE_PREFIX @ q"
    "length RESPONSE_PREFIX + length q \<le> 1024"
    by (cases "to_json a") (auto simp: encode_advertisement_def MAX_RESPONSE_SIZE_def split: if_splits)
  with json have "from_json q = Inr a" "q \<noteq> []" by auto
  with ok q show ?thesis
    by (simp add: decode_advertisement_def MAX_RESPONSE_SIZE_def)
qed

lemma advertisement_round_trip_witness:
  "decode_advertisement (\<lambda>_. Inr probe_advert) (RESPONSE_PREFIX @ [1]) = Inr probe_advert"
proof -
  have "validate_advertisement probe_advert = Inr ()"
    by code_simp
  then have enc: "encode_advertisement (\<lambda>_. Inr [1]) probe_advert = Inr (RESPONSE_PREFIX @ [1])"
    by (simp add: encode_advertisement_def RESPONSE_PREFIX_def MAX_RESPONSE_SIZE_def)
  have json: "\<forall>p. (\<lambda>_. Inr [1]) probe_advert = Inr p \<longrightarrow>
      (\<lambda>_. Inr probe_advert) p = (Inr probe_advert :: string + advertisement) \<and> p \<noteq> []"
    by auto
  show ?thesis
    using advertisement_round_trip [OF json enc] by blast
qed

end
