(* ===== verification/Approvals.thy ===== *)
theory Approvals
  imports Udp "HOL-Library.Product_Lexorder"
begin

text \<open>
  The two approval queues of the daemon: \<open>PairingApprovals\<close> and \<open>LinkApprovals\<close> of
  \<^verbatim>\<open>kvm-daemon/src/control.rs\<close>. Every method takes its locks, works and returns without
  waiting in between, so a method is one step on the state; waiting is the step \<open>finish_wait\<close>,
  taken when the decision has arrived, the sender is gone or the time-out has passed. A
  \<open>tokio\<close> one-shot channel is a number whose state is kept beside the queue, because the
  entry in the queue and the waiter share it. \<open>BTreeMap\<close> and \<open>HashMap\<close> are association
  lists. The clock is the argument \<open>now\<close>.
\<close>

definition MAX_PENDING_PAIRINGS :: nat where "MAX_PENDING_PAIRINGS = 16"
definition MAX_PENDING_LINKS :: nat where "MAX_PENDING_LINKS = 16"
definition MAX_PAIRING_REJECTS :: u32 where "MAX_PAIRING_REJECTS = 5"
definition REJECT_WINDOW :: duration where "REJECT_WINDOW = from_secs (10 * 60)"
definition REJECT_FREEZE :: duration where "REJECT_FREEZE = from_secs 60"
definition PAIRING_LINK_GRACE :: duration where "PAIRING_LINK_GRACE = from_secs 120"
definition APPROVED_LINK_TTL :: duration where "APPROVED_LINK_TTL = from_secs (24 * 60 * 60)"
definition APPROVED_LINK_CAP :: nat where "APPROVED_LINK_CAP = 512"

section \<open>Repeated denials\<close>

record reject_record =
  rj_count :: u32
  rj_window_started :: instant
  rj_frozen_until :: "instant option"

type_synonym rejects = "(string \<times> reject_record) list"

definition frozen :: "instant \<Rightarrow> reject_record \<Rightarrow> bool" where
  "frozen now r = (case rj_frozen_until r of None \<Rightarrow> False | Some until \<Rightarrow> now < until)"

definition is_frozen :: "instant \<Rightarrow> string \<Rightarrow> rejects \<Rightarrow> bool" where
  "is_frozen now fp rs = (case map_of rs fp of None \<Rightarrow> False | Some r \<Rightarrow> frozen now r)"

definition retain_rejects :: "instant \<Rightarrow> rejects \<Rightarrow> rejects" where
  "retain_rejects now rs =
     filter (\<lambda>(_, r). frozen now r \<or> elapsed now (rj_window_started r) < REJECT_WINDOW) rs"

definition note_denial :: "instant \<Rightarrow> string \<Rightarrow> rejects \<Rightarrow> rejects" where
  "note_denial now fp rs =
     (let fresh = \<lparr>rj_count = 0, rj_window_started = now, rj_frozen_until = None\<rparr>;
          r0 = (case map_of rs fp of None \<Rightarrow> fresh | Some r \<Rightarrow> r);
          r1 = (if elapsed now (rj_window_started r0) \<ge> REJECT_WINDOW then fresh else r0);
          r2 = r1\<lparr>rj_count := rj_count r1 + 1\<rparr>;
          r3 = (if rj_count r2 \<ge> MAX_PAIRING_REJECTS
                then r2\<lparr>rj_frozen_until := Some (now + REJECT_FREEZE)\<rparr> else r2)
      in AList.update fp r3 rs)"

section \<open>A queue of requests and its channels\<close>

datatype channel = Waiting | Decided bool | SenderDropped | ReceiverDropped

record ('k, 'r) queue =
  qu_pending :: "('k \<times> ('r \<times> nat)) list"
  qu_channels :: "nat \<Rightarrow> channel"
  qu_next :: nat

definition empty_queue :: "('k, 'r) queue" where
  "empty_queue = \<lparr>qu_pending = [], qu_channels = (\<lambda>_. Waiting), qu_next = 0\<rparr>"

text \<open>Listing a request opens its channel.\<close>

definition enqueue :: "'k \<Rightarrow> 'r \<Rightarrow> ('k, 'r) queue \<Rightarrow> ('k, 'r) queue \<times> nat" where
  "enqueue key request q =
     (q\<lparr>qu_pending := AList.update key (request, qu_next q) (qu_pending q),
        qu_channels := (qu_channels q)(qu_next q := Waiting),
        qu_next := Suc (qu_next q)\<rparr>,
      qu_next q)"

text \<open>Dropping an entry drops its sender; a decision that was sent stays in the channel.\<close>

definition drop_sender :: "nat \<Rightarrow> (nat \<Rightarrow> channel) \<Rightarrow> nat \<Rightarrow> channel" where
  "drop_sender c chans = (if chans c = Waiting then chans(c := SenderDropped) else chans)"

definition withdraw :: "'k \<Rightarrow> ('k, 'r) queue \<Rightarrow> ('k, 'r) queue" where
  "withdraw key q =
     (case map_of (qu_pending q) key of
        None \<Rightarrow> q
      | Some (_, c) \<Rightarrow> q\<lparr>qu_pending := AList.delete key (qu_pending q),
                          qu_channels := drop_sender c (qu_channels q)\<rparr>)"

text \<open>\<open>remove(&key)\<close> and \<open>send(approved)\<close>: the send succeeds when the waiter is still there.\<close>

definition settle :: "'k \<Rightarrow> bool \<Rightarrow> ('k, 'r) queue \<Rightarrow> ('k, 'r) queue \<times> bool" where
  "settle key approved q =
     (case map_of (qu_pending q) key of
        None \<Rightarrow> (q, False)
      | Some (_, c) \<Rightarrow>
          (let q1 = q\<lparr>qu_pending := AList.delete key (qu_pending q)\<rparr>
           in if qu_channels q c = Waiting
              then (q1\<lparr>qu_channels := (qu_channels q)(c := Decided approved)\<rparr>, True)
              else (q1, False)))"

text \<open>
  The end of a wait: what the channel holds if it is settled, else the time-out; then the
  waiter's entry is removed and its receiver is gone.
\<close>

definition finish_wait :: "'k \<Rightarrow> nat \<Rightarrow> ('k, 'r) queue \<Rightarrow> ('k, 'r) queue \<times> bool" where
  "finish_wait key c q =
     (let decision = (case qu_channels q c of Decided b \<Rightarrow> b | _ \<Rightarrow> False);
          q1 = q\<lparr>qu_channels := (qu_channels q)(c := ReceiverDropped)\<rparr>
      in (withdraw key q1, decision))"

text \<open>A waiter that is dropped without waiting leaves its entry listed.\<close>

definition drop_waiter :: "nat \<Rightarrow> ('k, 'r) queue \<Rightarrow> ('k, 'r) queue" where
  "drop_waiter c q = q\<lparr>qu_channels := (qu_channels q)(c := ReceiverDropped)\<rparr>"

section \<open>Pairing requests\<close>

record pending_pairing =
  pp_node_name :: string
  pp_fingerprint_hex :: string
  pp_address :: string
  pp_verification_code :: string

record pairing_approvals =
  pa_queue :: "(string, pending_pairing) queue"
  pa_rejects :: rejects

definition default_pairing_approvals :: pairing_approvals where
  "default_pairing_approvals = \<lparr>pa_queue = empty_queue, pa_rejects = []\<rparr>"

text \<open>A waiter: the key it will remove and its receiver, if it has one.\<close>

type_synonym 'k waiter = "'k \<times> nat option"

definition register_pairing ::
  "bool \<Rightarrow> instant \<Rightarrow> pending_pairing \<Rightarrow> pairing_approvals
     \<Rightarrow> pairing_approvals \<times> (string + string waiter)" where
  "register_pairing auto_confirm now request a =
     (let fingerprint = to_ascii_lowercase (pp_fingerprint_hex request)
      in if auto_confirm then (a, Inr (fingerprint, None))
         else if length (qu_pending (pa_queue a)) \<ge> MAX_PENDING_PAIRINGS
         then (a, Inl ''too many pending pairing requests'')
         else if map_of (qu_pending (pa_queue a)) fingerprint \<noteq> None
         then (a, Inl ''pairing is already awaiting local approval'')
         else if is_frozen now fingerprint (pa_rejects a)
         then (a, Inl ''pairing attempts from this device are paused for 1 minute after repeated denials'')
         else
           (let (q, c) = enqueue fingerprint request (pa_queue a)
            in (a\<lparr>pa_queue := q, pa_rejects := retain_rejects now (pa_rejects a)\<rparr>,
                Inr (fingerprint, Some c))))"

definition list_pairings :: "pairing_approvals \<Rightarrow> pending_pairing list" where
  "list_pairings a = map (\<lambda>(_, request, _). request) (sort_key fst (qu_pending (pa_queue a)))"

definition decide_pairing ::
  "instant \<Rightarrow> string \<Rightarrow> bool \<Rightarrow> pairing_approvals \<Rightarrow> pairing_approvals \<times> bool" where
  "decide_pairing now fingerprint0 approved a =
     (let fingerprint = to_ascii_lowercase fingerprint0;
          (q, removed) = settle fingerprint approved (pa_queue a);
          a1 = a\<lparr>pa_queue := q\<rparr>
      in if \<not> removed then (a1, False)
         else if approved then (a1\<lparr>pa_rejects := AList.delete fingerprint (pa_rejects a)\<rparr>, True)
         else (a1\<lparr>pa_rejects := note_denial now fingerprint (pa_rejects a)\<rparr>, True))"

definition cancel_pairing :: "string \<Rightarrow> pairing_approvals \<Rightarrow> pairing_approvals" where
  "cancel_pairing fingerprint a =
     a\<lparr>pa_queue := withdraw (to_ascii_lowercase fingerprint) (pa_queue a)\<rparr>"

definition wait_pairing :: "string waiter \<Rightarrow> pairing_approvals \<Rightarrow> pairing_approvals \<times> bool" where
  "wait_pairing w a =
     (case w of
        (_, None) \<Rightarrow> (a, True)
      | (fingerprint, Some c) \<Rightarrow>
          (let (q, decision) = finish_wait fingerprint c (pa_queue a)
           in (a\<lparr>pa_queue := q\<rparr>, decision)))"

section \<open>Links\<close>

record pending_link =
  pl_node_name :: string
  pl_fingerprint_hex :: string
  pl_address :: string
  pl_link_id :: "u64 option"

type_synonym epoch = "string \<times> u64"

record link_approvals =
  la_queue :: "(epoch, pending_link) queue"
  la_approved :: "(epoch \<times> instant) list"
  la_rejects :: rejects
  la_paired_at :: "(string \<times> instant) list"

definition default_link_approvals :: link_approvals where
  "default_link_approvals = \<lparr>la_queue = empty_queue, la_approved = [], la_rejects = [], la_paired_at = []\<rparr>"

definition register_link ::
  "instant \<Rightarrow> pending_link \<Rightarrow> link_approvals \<Rightarrow> link_approvals \<times> (string + epoch waiter)" where
  "register_link now request a =
     (let fingerprint = to_ascii_lowercase (pl_fingerprint_hex request)
      in case pl_link_id request of
           None \<Rightarrow> (a, Inl ''epoch-less links never queue for approval'')
         | Some link_id \<Rightarrow>
             (let key = (fingerprint, link_id)
              in if length (qu_pending (la_queue a)) \<ge> MAX_PENDING_LINKS
                 then (a, Inl ''too many pending link approvals'')
                 else if map_of (qu_pending (la_queue a)) key \<noteq> None
                 then (a, Inl ''link is already awaiting local approval'')
                 else if is_frozen now fingerprint (la_rejects a)
                 then (a, Inl ''link attempts from this device are paused for 1 minute after repeated denials'')
                 else
                   (let (q, c) = enqueue key request (la_queue a)
                    in (a\<lparr>la_queue := q, la_rejects := retain_rejects now (la_rejects a)\<rparr>,
                        Inr (key, Some c)))))"

definition list_links :: "link_approvals \<Rightarrow> pending_link list" where
  "list_links a = map (\<lambda>(_, request, _). request) (sort_key fst (qu_pending (la_queue a)))"

definition prune_approved :: "instant \<Rightarrow> (epoch \<times> instant) list \<Rightarrow> (epoch \<times> instant) list" where
  "prune_approved now approved =
     (let kept = filter (\<lambda>(_, when). elapsed now when < APPROVED_LINK_TTL) approved
      in if length kept > APPROVED_LINK_CAP then [] else kept)"

definition decide_link ::
  "instant \<Rightarrow> string \<Rightarrow> u64 \<Rightarrow> bool \<Rightarrow> link_approvals \<Rightarrow> link_approvals \<times> bool" where
  "decide_link now fingerprint0 link_id approved a =
     (let fingerprint = to_ascii_lowercase fingerprint0;
          key = (fingerprint, link_id);
          (q, removed) = settle key approved (la_queue a);
          a1 = a\<lparr>la_queue := q\<rparr>
      in if \<not> removed then (a1, False)
         else if approved
         then (a1\<lparr>la_approved := prune_approved now (AList.update key now (la_approved a)),
                  la_rejects := AList.delete fingerprint (la_rejects a)\<rparr>, True)
         else (a1\<lparr>la_rejects := note_denial now fingerprint (la_rejects a)\<rparr>, True))"

definition is_approved :: "instant \<Rightarrow> string \<Rightarrow> u64 \<Rightarrow> link_approvals \<Rightarrow> link_approvals \<times> bool" where
  "is_approved now fingerprint link_id a =
     (let approved = prune_approved now (la_approved a)
      in (a\<lparr>la_approved := approved\<rparr>,
          map_of approved (to_ascii_lowercase fingerprint, link_id) \<noteq> None))"

definition note_paired :: "instant \<Rightarrow> string \<Rightarrow> link_approvals \<Rightarrow> link_approvals" where
  "note_paired now fingerprint a =
     a\<lparr>la_paired_at := filter (\<lambda>(_, when). elapsed now when < PAIRING_LINK_GRACE)
         (AList.update (to_ascii_lowercase fingerprint) now (la_paired_at a))\<rparr>"

definition recently_paired :: "instant \<Rightarrow> string \<Rightarrow> link_approvals \<Rightarrow> bool" where
  "recently_paired now fingerprint a =
     (case map_of (la_paired_at a) (to_ascii_lowercase fingerprint) of
        None \<Rightarrow> False | Some when \<Rightarrow> elapsed now when < PAIRING_LINK_GRACE)"

text \<open>\<open>pending.retain\<close>: every entry that goes drops its sender.\<close>

definition retain_pending :: "('k \<Rightarrow> bool) \<Rightarrow> ('k, 'r) queue \<Rightarrow> ('k, 'r) queue" where
  "retain_pending keep q =
     q\<lparr>qu_pending := filter (\<lambda>(key, _). keep key) (qu_pending q),
       qu_channels := fold (\<lambda>(key, _, c). if keep key then id else drop_sender c)
         (qu_pending q) (qu_channels q)\<rparr>"

definition revoke_epoch :: "u64 \<Rightarrow> link_approvals \<Rightarrow> link_approvals" where
  "revoke_epoch link_id a =
     a\<lparr>la_approved := filter (\<lambda>((_, epoch), _). epoch \<noteq> link_id) (la_approved a),
       la_queue := retain_pending (\<lambda>(_, epoch). epoch \<noteq> link_id) (la_queue a)\<rparr>"

definition revoke_peer :: "string \<Rightarrow> link_approvals \<Rightarrow> link_approvals" where
  "revoke_peer fingerprint0 a =
     (let fingerprint = to_ascii_lowercase fingerprint0
      in a\<lparr>la_approved := filter (\<lambda>((fp, _), _). fp \<noteq> fingerprint) (la_approved a),
           la_queue := retain_pending (\<lambda>(fp, _). fp \<noteq> fingerprint) (la_queue a)\<rparr>)"

definition cancel_link :: "string \<Rightarrow> u64 \<Rightarrow> link_approvals \<Rightarrow> link_approvals" where
  "cancel_link fingerprint link_id a =
     a\<lparr>la_queue := withdraw (to_ascii_lowercase fingerprint, link_id) (la_queue a)\<rparr>"

definition wait_link :: "epoch waiter \<Rightarrow> link_approvals \<Rightarrow> link_approvals \<times> bool" where
  "wait_link w a =
     (case w of
        (_, None) \<Rightarrow> (a, True)
      | (key, Some c) \<Rightarrow>
          (let (q, decision) = finish_wait key c (la_queue a)
           in (a\<lparr>la_queue := q\<rparr>, decision)))"

lemma map_of_update: "map_of (AList.update k v al) = (map_of al)(k \<mapsto> v)"
  by (simp add: AList.update_conv')

end
