(* ===== verification/ApprovalRuns.thy ===== *)
theory ApprovalRuns
  imports Approvals
begin

text \<open>
  What the approval queues promise over any sequence of calls: nothing is approved without a
  local decision, the queues are bounded, repeated denials freeze a device; and where they
  fall short.
\<close>

section \<open>The queue\<close>

text \<open>
  \<open>issued\<close> are the waiters handed out so far and \<open>allowed\<close> the keys the local user has
  approved. A channel that holds an approval belongs to a waiter whose key was approved.
\<close>

definition queue_ok :: "('k \<times> nat) set \<Rightarrow> 'k set \<Rightarrow> ('k, 'r) queue \<Rightarrow> bool" where
  "queue_ok issued allowed q \<longleftrightarrow>
     distinct (map fst (qu_pending q))
     \<and> (\<forall>(key, request, c) \<in> set (qu_pending q). (key, c) \<in> issued)
     \<and> (\<forall>(key, c) \<in> issued. c < qu_next q)
     \<and> (\<forall>k1 k2 c. (k1, c) \<in> issued \<longrightarrow> (k2, c) \<in> issued \<longrightarrow> k1 = k2)
     \<and> (\<forall>c. qu_channels q c = Decided True \<longrightarrow> (\<exists>key \<in> allowed. (key, c) \<in> issued))"

lemma distinct_AList_update:
  "distinct (map fst al) \<Longrightarrow> distinct (map fst (AList.update k v al))"
  by (rule AList.distinct_update)

lemma distinct_AList_delete:
  "distinct (map fst al) \<Longrightarrow> distinct (map fst (AList.delete k al))"
  by (rule AList.distinct_delete)

lemma set_update_cases: "x \<in> set (AList.update k v al) \<Longrightarrow> x = (k, v) \<or> x \<in> set al"
  by (induction al) (auto split: if_splits)

lemma set_AList_delete: "set (AList.delete k al) \<subseteq> set al"
  by (auto simp: AList.delete_eq)

lemma enqueue_ok:
  assumes "queue_ok issued allowed q" and "enqueue key request q = (q2, c)"
  shows "queue_ok (insert (key, c) issued) allowed q2"
proof -
  have q2: "qu_pending q2 = AList.update key (request, qu_next q) (qu_pending q)"
    "qu_channels q2 = (qu_channels q)(qu_next q := Waiting)" "qu_next q2 = Suc (qu_next q)"
    "c = qu_next q"
    using assms(2) by (auto simp: enqueue_def)
  have fresh: "(k, qu_next q) \<notin> issued" for k
    using assms(1) by (auto simp: queue_ok_def)
  show ?thesis
    using assms(1) fresh unfolding queue_ok_def q2
    by (auto simp: distinct_AList_update less_Suc_eq dest!: set_update_cases split: if_splits)
qed

lemma queue_ok_mono:
  assumes "queue_ok issued allowed q"
    and "distinct (map fst (qu_pending q2))" "set (qu_pending q2) \<subseteq> set (qu_pending q)"
    and "qu_next q2 = qu_next q"
    and "\<forall>c. qu_channels q2 c = Decided True \<longrightarrow>
      qu_channels q c = Decided True \<or> (\<exists>key \<in> allowed. (key, c) \<in> issued)"
  shows "queue_ok issued allowed q2"
proof -
  from assms(1) have q1: "\<forall>(key, request, c) \<in> set (qu_pending q). (key, c) \<in> issued"
    unfolding queue_ok_def by (elim conjE)
  from assms(1) have q2: "\<forall>c. qu_channels q c = Decided True \<longrightarrow> (\<exists>key \<in> allowed. (key, c) \<in> issued)"
    unfolding queue_ok_def by (elim conjE)
  from q1 assms(3) have "\<forall>(key, request, c) \<in> set (qu_pending q2). (key, c) \<in> issued"
    by (meson subsetD)
  moreover from q2 assms(5)
  have "\<forall>c. qu_channels q2 c = Decided True \<longrightarrow> (\<exists>key \<in> allowed. (key, c) \<in> issued)"
    by blast
  ultimately show ?thesis
    using assms(1,2,4) unfolding queue_ok_def by (elim conjE, intro conjI) simp_all
qed

lemma queue_ok_owner:
  "queue_ok issued allowed q \<Longrightarrow> (k1, c) \<in> issued \<Longrightarrow> (k2, c) \<in> issued \<Longrightarrow> k1 = k2"
  unfolding queue_ok_def by (elim conjE) blast

lemma settle_ok:
  assumes ok: "queue_ok issued allowed q" and key: "approved \<longrightarrow> key \<in> allowed"
  shows "queue_ok issued allowed (fst (settle key approved q))"
proof (cases "map_of (qu_pending q) key")
  case None
  then show ?thesis by (simp add: settle_def ok)
next
  case (Some e)
  obtain r c where e: "e = (r, c)" by (cases e)
  have c: "(key, c) \<in> issued"
    using ok Some by (auto simp: queue_ok_def e dest!: map_of_SomeD)
  have del: "distinct (map fst (AList.delete key (qu_pending q)))"
    "set (AList.delete key (qu_pending q)) \<subseteq> set (qu_pending q)"
    using ok by (simp_all add: queue_ok_def distinct_AList_delete set_AList_delete)
  show ?thesis
  proof (cases "qu_channels q c = Waiting")
    case True
    have "queue_ok issued allowed (q\<lparr>qu_pending := AList.delete key (qu_pending q),
        qu_channels := (qu_channels q)(c := Decided approved)\<rparr>)"
      using c key by (intro queue_ok_mono [OF ok]) (use del in auto)
    then show ?thesis by (simp add: settle_def Some e True)
  next
    case False
    have "queue_ok issued allowed (q\<lparr>qu_pending := AList.delete key (qu_pending q)\<rparr>)"
      by (intro queue_ok_mono [OF ok]) (use del in auto)
    then show ?thesis by (simp add: settle_def Some e False)
  qed
qed

lemma withdraw_ok: "queue_ok issued allowed q \<Longrightarrow> queue_ok issued allowed (withdraw key q)"
  by (rule queue_ok_mono, assumption)
    (auto simp: withdraw_def queue_ok_def drop_sender_def distinct_AList_delete
      dest: set_AList_delete [THEN subsetD] split: option.splits if_splits)

lemma drop_waiter_ok: "queue_ok issued allowed q \<Longrightarrow> queue_ok issued allowed (drop_waiter c q)"
  by (rule queue_ok_mono, assumption) (auto simp: drop_waiter_def queue_ok_def split: if_splits)

lemma finish_wait_eq:
  "finish_wait key c q = (withdraw key (drop_waiter c q), qu_channels q c = Decided True)"
  by (auto simp: finish_wait_def drop_waiter_def split: channel.splits)

lemma retain_channels:
  "fold (\<lambda>(key, _, c). if keep key then id else drop_sender c) al chans d = Decided b
     \<Longrightarrow> chans d = Decided b"
proof (induction al arbitrary: chans)
  case (Cons x al)
  obtain key r c where x: "x = (key, r, c)" by (cases x)
  have "(if keep key then id else drop_sender c) chans d = Decided b"
    using Cons.IH [of "(if keep key then id else drop_sender c) chans"] Cons.prems
    by (simp add: x)
  then show ?case
    by (auto simp: drop_sender_def split: if_splits)
qed simp

lemma retain_pending_ok:
  "queue_ok issued allowed q \<Longrightarrow> queue_ok issued allowed (retain_pending keep q)"
  by (rule queue_ok_mono, assumption)
    (auto simp: retain_pending_def queue_ok_def distinct_map_filter dest: retain_channels)

lemma length_AList_update_le: "length (AList.update k v al) \<le> Suc (length al)"
  by (induction al) auto

lemma length_AList_delete_le: "length (AList.delete k al) \<le> length al"
  by (simp add: AList.delete_eq)

lemma pending_shrinks:
  "length (qu_pending (withdraw key q)) \<le> length (qu_pending q)"
  "length (qu_pending (fst (settle key b q))) \<le> length (qu_pending q)"
  "length (qu_pending (retain_pending keep q)) \<le> length (qu_pending q)"
  "qu_pending (drop_waiter c q) = qu_pending q"
  by (auto simp: withdraw_def settle_def retain_pending_def drop_waiter_def Let_def
      length_AList_delete_le split: option.splits)

section \<open>Runs of the link queue\<close>

datatype link_op =
    RegisterLink instant pending_link
  | DecideLink instant string u64 bool
  | CancelLink string u64
  | WaitLink "epoch waiter"
  | DropLinkWaiter nat
  | AskApproved instant string u64
  | NotePaired instant string
  | RevokeEpoch u64
  | RevokePeer string

text \<open>The state with the waiters handed out so far.\<close>

type_synonym link_run = "link_approvals \<times> (epoch \<times> nat) set"

fun link_step :: "link_op \<Rightarrow> link_run \<Rightarrow> link_run" where
  "link_step (RegisterLink now request) (a, issued) =
     (case register_link now request a of
        (a2, Inr (key, Some c)) \<Rightarrow> (a2, insert (key, c) issued)
      | (a2, _) \<Rightarrow> (a2, issued))"
| "link_step (DecideLink now fp link_id approved) (a, issued) =
     (fst (decide_link now fp link_id approved a), issued)"
| "link_step (CancelLink fp link_id) (a, issued) = (cancel_link fp link_id a, issued)"
| "link_step (WaitLink w) (a, issued) = (fst (wait_link w a), issued)"
| "link_step (DropLinkWaiter c) (a, issued) = (a\<lparr>la_queue := drop_waiter c (la_queue a)\<rparr>, issued)"
| "link_step (AskApproved now fp link_id) (a, issued) = (fst (is_approved now fp link_id a), issued)"
| "link_step (NotePaired now fp) (a, issued) = (note_paired now fp a, issued)"
| "link_step (RevokeEpoch link_id) (a, issued) = (revoke_epoch link_id a, issued)"
| "link_step (RevokePeer fp) (a, issued) = (revoke_peer fp a, issued)"

definition link_start :: link_run where "link_start = (default_link_approvals, {})"

text \<open>The epochs the local user has approved in a run.\<close>

fun op_allows :: "link_op \<Rightarrow> epoch set" where
  "op_allows (DecideLink now fp link_id True) = {(to_ascii_lowercase fp, link_id)}"
| "op_allows _ = {}"

lemma op_allows_iff:
  "k \<in> op_allows op \<longleftrightarrow> (\<exists>now fp. op = DecideLink now fp (snd k) True \<and> to_ascii_lowercase fp = fst k)"
  by (cases "(op)" rule: op_allows.cases) auto

definition allowed_in :: "link_op list \<Rightarrow> epoch set" where
  "allowed_in ops = (\<Union>op \<in> set ops. op_allows op)"

definition links_ok :: "epoch set \<Rightarrow> link_run \<Rightarrow> bool" where
  "links_ok allowed st \<longleftrightarrow>
     queue_ok (snd st) allowed (la_queue (fst st))
     \<and> length (qu_pending (la_queue (fst st))) \<le> 16
     \<and> fst ` set (la_approved (fst st)) \<subseteq> allowed
     \<and> length (la_approved (fst st)) \<le> 512"

lemma prune_approved_ok:
  "fst ` set al \<subseteq> A \<Longrightarrow> fst ` set (prune_approved now al) \<subseteq> A"
  "length (prune_approved now al) \<le> 512"
  by (auto simp: prune_approved_def Let_def APPROVED_LINK_CAP_def)

lemma register_link_ok:
  assumes "links_ok allowed (a, issued)"
  shows "links_ok allowed (link_step (RegisterLink now request) (a, issued))"
proof (cases "pl_link_id request")
  case None
  with assms show ?thesis by (simp add: register_link_def Let_def)
next
  case (Some link_id)
  let ?key = "(to_ascii_lowercase (pl_fingerprint_hex request), link_id)"
  obtain q c where q: "enqueue ?key request (la_queue a) = (q, c)" by fastforce
  have "queue_ok (insert (?key, c) issued) allowed q"
    using assms enqueue_ok [OF _ q] by (simp add: links_ok_def)
  moreover have "length (qu_pending q) \<le> Suc (length (qu_pending (la_queue a)))"
    using q length_AList_update_le by (auto simp: enqueue_def)
  ultimately show ?thesis
    using assms by (auto simp: register_link_def Let_def Some q links_ok_def MAX_PENDING_LINKS_def)
qed

lemma decide_link_ok:
  assumes ok: "links_ok allowed (a, issued)"
    and key: "approved \<longrightarrow> (to_ascii_lowercase fp, link_id) \<in> allowed"
  shows "links_ok allowed (fst (decide_link now fp link_id approved a), issued)"
proof -
  let ?key = "(to_ascii_lowercase fp, link_id)"
  obtain q removed where q: "settle ?key approved (la_queue a) = (q, removed)" by fastforce
  have queue: "queue_ok issued allowed q" "length (qu_pending q) \<le> 16"
    using settle_ok [of issued allowed "la_queue a" approved ?key]
      pending_shrinks(2) [of ?key approved "la_queue a"] ok key
    by (auto simp: links_ok_def q)
  have "fst ` set (AList.update ?key now (la_approved a)) \<subseteq> allowed" if approved
    using ok key that by (auto simp: links_ok_def dest!: set_update_cases)
  then show ?thesis
    using ok queue prune_approved_ok
    by (auto simp: decide_link_def Let_def q links_ok_def)
qed

lemma wait_link_ok:
  "links_ok allowed (a, issued) \<Longrightarrow> links_ok allowed (fst (wait_link w a), issued)"
  using pending_shrinks(1) [of _ "drop_waiter _ (la_queue a)"]
  by (cases w; cases "snd w")
    (auto simp: wait_link_def finish_wait_eq links_ok_def pending_shrinks(4)
      intro!: withdraw_ok drop_waiter_ok intro: order_trans)

interpretation link_machine: event_machine link_step "links_ok allowed" "\<lambda>op. op_allows op \<subseteq> allowed"
  for allowed
proof
  fix st op
  assume ok: "links_ok allowed st" and op: "op_allows op \<subseteq> allowed"
  obtain a issued where st: "st = (a, issued)" by fastforce
  show "links_ok allowed (link_step op st)"
  proof (cases op)
    case (RegisterLink now request)
    with ok show ?thesis by (simp only: st register_link_ok)
  next
    case (DecideLink now fp link_id approved)
    with op have "approved \<longrightarrow> (to_ascii_lowercase fp, link_id) \<in> allowed" by auto
    with ok decide_link_ok show ?thesis by (simp add: st DecideLink)
  next
    case (CancelLink fp link_id)
    with ok show ?thesis
      by (auto simp: st links_ok_def cancel_link_def withdraw_ok intro: order_trans [OF pending_shrinks(1)])
  next
    case (WaitLink w)
    with ok wait_link_ok show ?thesis by (simp add: st)
  next
    case (DropLinkWaiter c)
    with ok show ?thesis by (simp add: st links_ok_def drop_waiter_ok pending_shrinks)
  next
    case (AskApproved now fp link_id)
    with ok prune_approved_ok show ?thesis by (auto simp: st links_ok_def is_approved_def Let_def)
  next
    case (NotePaired now fp)
    with ok show ?thesis by (simp add: st links_ok_def note_paired_def)
  next
    case (RevokeEpoch link_id)
    with ok show ?thesis
      by (auto simp: st links_ok_def revoke_epoch_def retain_pending_ok
          intro: order_trans [OF pending_shrinks(3)] order_trans [OF length_filter_le])
  next
    case (RevokePeer fp)
    with ok show ?thesis
      by (auto simp: st links_ok_def revoke_peer_def Let_def retain_pending_ok
          intro: order_trans [OF pending_shrinks(3)] order_trans [OF length_filter_le])
  qed
qed

lemma link_start_ok: "links_ok allowed link_start"
  by (simp add: links_ok_def link_start_def default_link_approvals_def queue_ok_def empty_queue_def)

lemma link_run_ok: "links_ok (allowed_in ops) (fold link_step ops link_start)"
  by (rule link_machine.run_inv [OF link_start_ok]) (auto simp: list_all_iff allowed_in_def)

section \<open>Nothing is approved without a decision\<close>

text \<open>
  No link without a local decision. After any sequence of calls on the link queue, in
  any order and at any times, a waiter that was handed out for an epoch reports an approval
  only if the local user approved exactly that peer and epoch before; the same holds for an
  epoch the queue remembers as approved; and the queue holds at most 16 requests and
  remembers at most 512 epochs.
\<close>

theorem links_need_a_decision:
  assumes "fold link_step ops link_start = (a, issued)"
  shows "((key, c) \<in> issued \<longrightarrow> snd (wait_link (key, Some c) a) \<longrightarrow>
      (\<exists>now fp. DecideLink now fp (snd key) True \<in> set ops \<and> to_ascii_lowercase fp = fst key))
    \<and> (snd (is_approved now fp link_id a) \<longrightarrow>
      (\<exists>t f. DecideLink t f link_id True \<in> set ops \<and> to_ascii_lowercase f = to_ascii_lowercase fp))
    \<and> length (list_links a) \<le> 16 \<and> length (la_approved a) \<le> 512"
proof (intro conjI impI)
  have ok: "links_ok (allowed_in ops) (a, issued)"
    using link_run_ok [of ops] assms by simp
  have allowed: "\<exists>t f. DecideLink t f (snd k) True \<in> set ops \<and> to_ascii_lowercase f = fst k"
    if "k \<in> allowed_in ops" for k
    using that by (auto simp: allowed_in_def op_allows_iff)
  show "length (list_links a) \<le> 16" "length (la_approved a) \<le> 512"
    using ok by (simp_all add: links_ok_def list_links_def)
  show "\<exists>now fp. DecideLink now fp (snd key) True \<in> set ops \<and> to_ascii_lowercase fp = fst key"
    if key: "(key, c) \<in> issued" and wait: "snd (wait_link (key, Some c) a)"
  proof -
    from wait have "qu_channels (la_queue a) c = Decided True"
      by (simp add: wait_link_def finish_wait_eq)
    with ok obtain k where "k \<in> allowed_in ops" "(k, c) \<in> issued"
      by (auto simp: links_ok_def queue_ok_def)
    moreover have "k = key"
      using ok queue_ok_owner [of issued "allowed_in ops" "la_queue a" k c key] key
        \<open>(k, c) \<in> issued\<close>
      by (simp add: links_ok_def)
    ultimately show ?thesis
      using allowed by blast
  qed
  show "\<exists>t f. DecideLink t f link_id True \<in> set ops \<and> to_ascii_lowercase f = to_ascii_lowercase fp"
    if "snd (is_approved now fp link_id a)"
  proof -
    from that have "(to_ascii_lowercase fp, link_id) \<in> fst ` set (prune_approved now (la_approved a))"
      by (auto simp: is_approved_def Let_def dest!: map_of_SomeD intro: rev_image_eqI)
    then have "(to_ascii_lowercase fp, link_id) \<in> allowed_in ops"
      using ok prune_approved_ok(1) [of "la_approved a" "allowed_in ops" now]
      by (auto simp: links_ok_def)
    from allowed [OF this] show ?thesis by simp
  qed
qed

definition laptop_request :: pending_link where
  "laptop_request = \<lparr>pl_node_name = ''laptop'', pl_fingerprint_hex = ''AB'', pl_address = ''10.0.0.7'',
     pl_link_id = Some 7\<rparr>"

lemma links_need_a_decision_witness:
  "\<exists>a issued. fold link_step [RegisterLink 0 laptop_request, DecideLink 5 ''ab'' 7 True] link_start = (a, issued)
     \<and> snd (wait_link ((''ab'', 7), Some 0) a) \<and> length (list_links a) \<le> 16"
proof -
  let ?ops = "[RegisterLink 0 laptop_request, DecideLink 5 ''ab'' 7 True]"
  obtain a issued where run: "fold link_step ?ops link_start = (a, issued)" by fastforce
  have low: "to_ascii_lowercase ''AB'' = ''ab''" "to_ascii_lowercase ''ab'' = ''ab''"
    by code_simp+
  have "snd (wait_link ((''ab'', 7), Some 0) (fst (fold link_step ?ops link_start)))"
    by (simp add: link_start_def default_link_approvals_def empty_queue_def register_link_def Let_def
        laptop_request_def low MAX_PENDING_LINKS_def is_frozen_def
        enqueue_def retain_rejects_def decide_link_def settle_def wait_link_def finish_wait_def)
  with run links_need_a_decision [OF run] show ?thesis by auto
qed

section \<open>Repeated denials freeze a device\<close>

lemma map_of_filter_value:
  "distinct (map fst al) \<Longrightarrow> map_of (filter (\<lambda>(_, v). P v) al) k = (case map_of al k of
     None \<Rightarrow> None | Some v \<Rightarrow> if P v then Some v else None)"
proof (induction al)
  case (Cons x al)
  have "map_of al (fst x) = None"
    using Cons.prems by (simp add: map_of_eq_None_iff)
  with Cons show ?case
    by (cases x) (auto simp del: map_of_eq_Some_iff)
qed simp

lemma map_of_retain_rejects:
  "distinct (map fst rs) \<Longrightarrow> map_of (retain_rejects now rs) fp = (case map_of rs fp of
     None \<Rightarrow> None
   | Some r \<Rightarrow> if frozen now r \<or> elapsed now (rj_window_started r) < REJECT_WINDOW then Some r else None)"
  unfolding retain_rejects_def by (rule map_of_filter_value)

lemma distinct_note_denial: "distinct (map fst rs) \<Longrightarrow> distinct (map fst (note_denial now fp rs))"
  by (simp add: note_denial_def Let_def distinct_AList_update)

lemma distinct_retain_rejects: "distinct (map fst rs) \<Longrightarrow> distinct (map fst (retain_rejects now rs))"
  by (simp add: retain_rejects_def distinct_map_filter)

text \<open>A device asks to pair and the user denies it at once.\<close>

definition ring :: "pending_pairing \<Rightarrow> instant \<Rightarrow> pairing_approvals \<Rightarrow> pairing_approvals" where
  "ring request now a = fst (decide_pairing now (pp_fingerprint_hex request) False
     (fst (register_pairing False now request a)))"

lemma ring_eq:
  assumes "qu_pending (pa_queue a) = []"
    and "\<not> is_frozen now (to_ascii_lowercase (pp_fingerprint_hex request)) (pa_rejects a)"
  shows "qu_pending (pa_queue (ring request now a)) = []
    \<and> pa_rejects (ring request now a) = note_denial now (to_ascii_lowercase (pp_fingerprint_hex request))
        (retain_rejects now (pa_rejects a))"
  using assms by (simp add: ring_def register_pairing_def decide_pairing_def Let_def enqueue_def
      settle_def MAX_PENDING_PAIRINGS_def)

lemma note_denial_next:
  assumes "map_of rs fp = Some \<lparr>rj_count = of_nat (Suc n), rj_window_started = t, rj_frozen_until = None\<rparr>"
    and "n < 4" and "s - t < REJECT_WINDOW"
  shows "map_of (note_denial s fp rs) fp = Some \<lparr>rj_count = of_nat (Suc (Suc n)), rj_window_started = t,
      rj_frozen_until = (if Suc n = 4 then Some (s + REJECT_FREEZE) else None)\<rparr>"
proof -
  have "n = 0 \<or> n = 1 \<or> n = 2 \<or> n = 3"
    using assms(2) by linarith
  then show ?thesis
    using assms(3) unfolding note_denial_def assms(1)
    by (auto simp: Let_def map_of_update elapsed_def MAX_PAIRING_REJECTS_def word_le_nat_alt)
qed

lemma rings:
  fixes request
  defines "fp \<equiv> to_ascii_lowercase (pp_fingerprint_hex request)"
  assumes a: "qu_pending (pa_queue a) = []" "distinct (map fst (pa_rejects a))" "map_of (pa_rejects a) fp = None"
    and "sorted (t # ts)" and "\<forall>s \<in> set ts. s - t < REJECT_WINDOW" and "length ts < 5"
  shows "qu_pending (pa_queue (fold (ring request) (t # ts) a)) = []
    \<and> distinct (map fst (pa_rejects (fold (ring request) (t # ts) a)))
    \<and> map_of (pa_rejects (fold (ring request) (t # ts) a)) fp
      = Some \<lparr>rj_count = of_nat (Suc (length ts)), rj_window_started = t,
          rj_frozen_until = (if length ts = 4 then Some (last (t # ts) + REJECT_FREEZE) else None)\<rparr>"
  using assms(5-7)
proof (induction ts rule: rev_induct)
  case Nil
  have "\<not> is_frozen t fp (pa_rejects a)"
    by (simp add: is_frozen_def a)
  note ring = ring_eq [OF a(1) this [unfolded fp_def], folded fp_def]
  have "map_of (retain_rejects t (pa_rejects a)) fp = None"
    by (simp add: map_of_retain_rejects a)
  with ring show ?case
    by (simp add: a distinct_note_denial distinct_retain_rejects del: map_of_eq_Some_iff)
      (simp add: note_denial_def Let_def map_of_update MAX_PAIRING_REJECTS_def elapsed_def
        REJECT_WINDOW_def from_secs_def word_le_nat_alt del: map_of_eq_Some_iff)
next
  case (snoc s ts)
  let ?b = "fold (ring request) (t # ts) a"
  have "sorted (t # ts)" "\<forall>s \<in> set ts. s - t < REJECT_WINDOW" "length ts < 4" "s - t < REJECT_WINDOW"
    using snoc.prems by (auto simp: sorted_append)
  with snoc.IH have b: "qu_pending (pa_queue ?b) = []" "distinct (map fst (pa_rejects ?b))"
    "map_of (pa_rejects ?b) fp = Some \<lparr>rj_count = of_nat (Suc (length ts)), rj_window_started = t,
       rj_frozen_until = None\<rparr>" by simp_all
  have "\<not> is_frozen s fp (pa_rejects ?b)"
    unfolding is_frozen_def b(3) by (simp add: frozen_def)
  note ring = ring_eq [OF b(1) this [unfolded fp_def], folded fp_def]
  have kept: "map_of (retain_rejects s (pa_rejects ?b)) fp = Some \<lparr>rj_count = of_nat (Suc (length ts)),
      rj_window_started = t, rj_frozen_until = None\<rparr>"
    unfolding map_of_retain_rejects [OF b(2)] b(3)
    using \<open>s - t < REJECT_WINDOW\<close> by (simp add: elapsed_def)
  note next_record = note_denial_next [OF kept \<open>length ts < 4\<close> \<open>s - t < REJECT_WINDOW\<close>]
  show ?case
    using ring b(2) next_record
    by (simp add: distinct_note_denial distinct_retain_rejects del: map_of_eq_Some_iff)
qed

text \<open>
  Repeated denials freeze a device. When a device asks to pair and is denied five times
  within ten minutes, its next request is refused without being shown for the 60 seconds
  after the fifth denial; after that it is shown again.
\<close>

theorem denials_freeze:
  assumes "qu_pending (pa_queue a) = []" and "distinct (map fst (pa_rejects a))"
    and "map_of (pa_rejects a) (to_ascii_lowercase (pp_fingerprint_hex request)) = None"
    and "sorted [t1, t2, t3, t4, t5]" and "t5 - t1 < from_secs 600" and "t5 \<le> now"
  shows "let r = snd (register_pairing False now request (fold (ring request) [t1, t2, t3, t4, t5] a))
    in if now < t5 + from_secs 60
       then r = Inl ''pairing attempts from this device are paused for 1 minute after repeated denials''
       else \<exists>w. r = Inr w"
proof -
  have "qu_pending (pa_queue (fold (ring request) [t1, t2, t3, t4, t5] a)) = []
    \<and> map_of (pa_rejects (fold (ring request) [t1, t2, t3, t4, t5] a)) (to_ascii_lowercase (pp_fingerprint_hex request))
      = Some \<lparr>rj_count = of_nat 5, rj_window_started = t1, rj_frozen_until = Some (t5 + REJECT_FREEZE)\<rparr>"
  proof -
    have "\<forall>s \<in> set [t2, t3, t4, t5]. s - t1 < REJECT_WINDOW"
      using assms(4,5) by (simp add: REJECT_WINDOW_def) linarith
    from rings [OF assms(1-4) this] show ?thesis by simp
  qed
  then show ?thesis
    by (simp add: register_pairing_def Let_def MAX_PENDING_PAIRINGS_def is_frozen_def frozen_def
        REJECT_FREEZE_def enqueue_def)
qed

lemma denials_freeze_witness:
  "\<exists>r. snd (register_pairing False 9 r (fold (ring r) [1, 2, 3, 4, 5] default_pairing_approvals))
     = Inl ''pairing attempts from this device are paused for 1 minute after repeated denials''"
proof -
  let ?r = "\<lparr>pp_node_name = ''laptop'', pp_fingerprint_hex = ''ab'', pp_address = [], pp_verification_code = ''123456''\<rparr>"
  have "9 < 5 + from_secs 60" "5 - 1 < from_secs 600"
    by (simp_all add: from_secs_def)
  then show ?thesis
    using denials_freeze [of default_pairing_approvals ?r 1 2 3 4 5 9]
    by (auto simp: default_pairing_approvals_def empty_queue_def)
qed

section \<open>Where the queues fall short\<close>

text \<open>
  A finished wait can withdraw another request. A waiter removes its key from the queue
  when it wakes up, whatever request is listed there by then. If a device asks again for the
  same epoch after it was decided and before the first waiter wakes, that waiter still
  reports the first decision, and the second request disappears undecided: its waiter reports a
  denial the user never made, and the user's answer to it finds nothing.
\<close>

theorem stale_wait_withdraws_successor:
  "let (a1, w1) = register_link 0 laptop_request default_link_approvals;
       (a2, d1) = decide_link 1 ''ab'' 7 True a1;
       (a3, w2) = register_link 2 laptop_request a2;
       (a4, r1) = wait_link ((''ab'', 7), Some 0) a3;
       (a5, d2) = decide_link 3 ''ab'' 7 True a4;
       (a6, r2) = wait_link ((''ab'', 7), Some 1) a5
   in w1 = Inr ((''ab'', 7), Some 0) \<and> d1 \<and> w2 = Inr ((''ab'', 7), Some 1)
      \<and> r1 \<and> list_links a4 = [] \<and> \<not> d2 \<and> \<not> r2"
proof -
  have low: "to_ascii_lowercase ''AB'' = ''ab''" "to_ascii_lowercase ''ab'' = ''ab''"
    by code_simp+
  show ?thesis
    by (simp add: default_link_approvals_def empty_queue_def register_link_def Let_def
        laptop_request_def low MAX_PENDING_LINKS_def is_frozen_def enqueue_def retain_rejects_def
        decide_link_def settle_def wait_link_def finish_wait_def withdraw_def drop_sender_def
        list_links_def)
qed

lemma length_update_fresh: "k \<notin> fst ` set al \<Longrightarrow> AList.update k v al = al @ [(k, v)]"
  by (induction al) auto

text \<open>
  An approval can be forgotten at once. The set of approved epochs is emptied when it
  outgrows 512, after the new epoch was added: with 512 live approvals, the user's approval
  of one more succeeds and is not remembered, nor is any of the others, although approvals
  are documented to be remembered for retries.
\<close>

theorem approval_forgotten_at_cap:
  assumes "length (la_approved a) = 512" and "\<forall>(e, when) \<in> set (la_approved a). elapsed now when < from_secs 86400"
    and "(to_ascii_lowercase fp, link_id) \<notin> fst ` set (la_approved a)"
    and "decide_link now fp link_id True a = (a2, True)"
  shows "la_approved a2 = [] \<and> \<not> snd (is_approved now fp link_id a2)"
proof -
  let ?al = "AList.update (to_ascii_lowercase fp, link_id) now (la_approved a)"
  have "filter (\<lambda>(_, when). elapsed now when < APPROVED_LINK_TTL) ?al = ?al"
    using assms(2) unfolding length_update_fresh [OF assms(3)]
    by (auto simp: filter_id_conv APPROVED_LINK_TTL_def elapsed_def from_secs_def)
  moreover have "length ?al = 513"
    by (simp add: length_update_fresh [OF assms(3)] assms(1))
  ultimately have "prune_approved now ?al = []"
    by (simp add: prune_approved_def APPROVED_LINK_CAP_def)
  with assms(4) have "la_approved a2 = []"
    by (auto simp: decide_link_def Let_def split: prod.splits if_splits)
  then show ?thesis
    by (simp add: is_approved_def prune_approved_def)
qed

lemma approval_forgotten_at_cap_witness:
  "\<exists>a a2. length (la_approved a) = 512 \<and> decide_link 3 ''ab'' 7 True a = (a2, True) \<and> la_approved a2 = []"
proof -
  define al :: "(epoch \<times> instant) list" where "al = map (\<lambda>i. ((''cd'', of_nat i), 0)) [0..<512]"
  let ?a = "\<lparr>la_queue = fst (enqueue (''ab'', 7) laptop_request empty_queue), la_approved = al,
      la_rejects = [], la_paired_at = []\<rparr>"
  have low: "to_ascii_lowercase ''ab'' = ''ab''" by code_simp
  have al: "length al = 512" "\<forall>(e, when) \<in> set al. elapsed 3 when < from_secs 86400"
    "(''ab'', 7) \<notin> fst ` set al"
    by (auto simp: al_def elapsed_def from_secs_def)
  have "snd (decide_link 3 ''ab'' 7 True ?a)"
    by (simp add: decide_link_def Let_def low settle_def enqueue_def empty_queue_def)
  then obtain a2 where a2: "decide_link 3 ''ab'' 7 True ?a = (a2, True)"
    by (metis prod.collapse)
  have "la_approved a2 = []"
    using approval_forgotten_at_cap [OF _ _ _ a2] al by (simp add: low)
  with a2 al(1) show ?thesis
    by (intro exI [of _ ?a] exI [of _ a2]) simp
qed

end
