(* ===== verification/Registries.thy ===== *)
theory Registries
  imports Approvals
begin

text \<open>
  The process-wide registries of the daemon: \<^verbatim>\<open>kvm-daemon/src/service.rs\<close>, inbound sessions,
  banned epochs, recently seen peers, the UI's presence, outbound link leases, UDP motion
  keys and motion sinks. Each \<open>static\<close> of the code is a field of the record \<open>registries\<close>; a
  function that takes a lock, works and returns is one step on it. \<open>HashMap\<close> and \<open>HashSet\<close>
  are association lists and lists without duplicates, in an order that stands for theirs.
  The atomics a session shares with its registry entry are kept per registration id, since
  every registration makes fresh ones. A poisoned lock is not modelled.
\<close>

definition NO_INPUT_YET :: u64 where "NO_INPUT_YET = - 1"
definition LEASE_MS :: u64 where "LEASE_MS = 45000"
definition RECENT_INBOUND_MAX_SECS :: nat where "RECENT_INBOUND_MAX_SECS = 15 * 60"
definition PRESENCE_TTL :: duration where "PRESENCE_TTL = from_secs 12"
definition LEASE_SILENCE_LIMIT :: duration where "LEASE_SILENCE_LIMIT = from_secs 45"

text \<open>\<open>Duration::as_secs\<close>.\<close>

definition as_secs :: "duration \<Rightarrow> nat" where "as_secs d = d div 1000000000"

record inbound_link =
  il_id :: u64
  il_fingerprint_hex :: string
  il_node_name :: string
  il_address :: string
  il_link_id :: "u64 option"

text \<open>The atomics of one registration, and its hang-up channel: the value sent and whether the
  serve loop still listens.\<close>

record activity =
  ac_input_events :: u64
  ac_driving :: bool
  ac_last_input :: u64
  ac_drop :: bool
  ac_listening :: bool

record recent_inbound =
  ri_node_name :: string
  ri_address :: string
  ri_link_id :: "u64 option"
  ri_last_seen :: instant

record presence_record =
  pe_id :: u64
  pe_last_seen :: instant

record outbound_lease =
  ol_id :: u64
  ol_fingerprint_hex :: string
  ol_address :: string
  ol_link_id :: "u64 option"
  ol_last_ping :: instant

record udp_motion_key =
  mk_key :: bytes
  mk_fingerprint_hex :: string
  mk_lock_screen_enabled :: bool
  mk_last_seen :: instant

record registries =
  rg_link_ids :: u64
  rg_inbound :: "(string \<times> inbound_link) list"
  rg_activity :: "u64 \<Rightarrow> activity"
  rg_recent :: "(string \<times> recent_inbound) list"
  rg_ended :: "u64 list"
  rg_peer_ended :: "u64 list"
  rg_presence :: "presence_record option"
  rg_presence_ids :: u64
  rg_lease_seen :: bool
  rg_ui_contact :: "instant option"
  rg_leases :: "((string \<times> u64 option) \<times> outbound_lease) list"
  rg_lease_ids :: u64
  rg_motion_keys :: "udp_motion_key list"
  rg_motion_sinks :: "(string \<times> nat) list"

definition fresh_activity :: activity where
  "fresh_activity = \<lparr>ac_input_events = 0, ac_driving = False, ac_last_input = NO_INPUT_YET,
     ac_drop = False, ac_listening = True\<rparr>"

definition start_registries :: registries where
  "start_registries = \<lparr>rg_link_ids = 1, rg_inbound = [], rg_activity = (\<lambda>_. fresh_activity),
     rg_recent = [], rg_ended = [], rg_peer_ended = [], rg_presence = None, rg_presence_ids = 1,
     rg_lease_seen = False, rg_ui_contact = None, rg_leases = [], rg_lease_ids = 1,
     rg_motion_keys = [], rg_motion_sinks = []\<rparr>"

section \<open>Inbound sessions\<close>

definition note_inbound_seen ::
  "instant \<Rightarrow> string \<Rightarrow> string \<Rightarrow> string \<Rightarrow> u64 option \<Rightarrow> registries \<Rightarrow> registries" where
  "note_inbound_seen now fp name address link_id g =
     (let seen = filter (\<lambda>(_, r). as_secs (elapsed now (ri_last_seen r)) \<le> RECENT_INBOUND_MAX_SECS)
            (rg_recent g)
      in if length seen \<ge> 64 then g\<lparr>rg_recent := seen\<rparr>
         else g\<lparr>rg_recent := AList.update fp \<lparr>ri_node_name = name, ri_address = address,
                ri_link_id = link_id, ri_last_seen = now\<rparr> seen\<rparr>)"

definition register_inbound_link ::
  "instant \<Rightarrow> string \<Rightarrow> string \<Rightarrow> string \<Rightarrow> u64 option \<Rightarrow> registries \<Rightarrow> registries \<times> u64" where
  "register_inbound_link now fp name address link_id g0 =
     (let sid = rg_link_ids g0;
          g = note_inbound_seen now fp name address link_id (g0\<lparr>rg_link_ids := sid + 1\<rparr>)
      in (g\<lparr>rg_activity := (rg_activity g)(sid := fresh_activity),
            rg_inbound := AList.update fp \<lparr>il_id = sid, il_fingerprint_hex = fp, il_node_name = name,
              il_address = address, il_link_id = link_id\<rparr> (rg_inbound g)\<rparr>,
          sid))"

text \<open>\<open>note_inbound_activity\<close> on the atomics of one session.\<close>

definition note_inbound_activity :: "u64 \<Rightarrow> u64 \<Rightarrow> registries \<Rightarrow> registries" where
  "note_inbound_activity now_ms sid g =
     (let a = rg_activity g sid
      in g\<lparr>rg_activity := (rg_activity g)(sid := a\<lparr>ac_input_events := ac_input_events a + 1,
             ac_last_input := now_ms\<rparr>)\<rparr>)"

definition registry_input_recent_at :: "string \<Rightarrow> u64 \<Rightarrow> registries \<Rightarrow> bool" where
  "registry_input_recent_at fp now_ms g =
     (case map_of (rg_inbound g) fp of
        None \<Rightarrow> False
      | Some l \<Rightarrow>
          (let stamp = ac_last_input (rg_activity g (il_id l))
           in stamp \<noteq> NO_INPUT_YET \<and> stamp \<le> now_ms \<and> now_ms - stamp < LEASE_MS))"

text \<open>Remove an entry only when it still has this id.\<close>

definition remove_if :: "('v \<Rightarrow> bool) \<Rightarrow> 'k \<Rightarrow> ('k \<times> 'v) list \<Rightarrow> ('k \<times> 'v) list" where
  "remove_if mine k al =
     (case map_of al k of
        None \<Rightarrow> al
      | Some v \<Rightarrow> if mine v then AList.delete k al else al)"

definition remove_inbound_link :: "string \<Rightarrow> u64 \<Rightarrow> registries \<Rightarrow> registries" where
  "remove_inbound_link fp sid g = g\<lparr>rg_inbound := remove_if (\<lambda>l. il_id l = sid) fp (rg_inbound g)\<rparr>"

definition drop_inbound_link :: "string \<Rightarrow> registries \<Rightarrow> registries \<times> bool" where
  "drop_inbound_link fp g =
     (case map_of (rg_inbound g) fp of
        None \<Rightarrow> (g, False)
      | Some l \<Rightarrow>
          (let a = rg_activity g (il_id l)
           in if ac_listening a
              then (g\<lparr>rg_activity := (rg_activity g)(il_id l := a\<lparr>ac_drop := True\<rparr>)\<rparr>, True)
              else (g, False)))"

record active_session =
  as_link :: inbound_link
  as_input_events :: u64
  as_driving :: bool
  as_last_input_age_ms :: "u64 option"

definition list_inbound_links :: "u64 \<Rightarrow> registries \<Rightarrow> active_session list" where
  "list_inbound_links now_ms g =
     map (\<lambda>(_, l).
       (let a = rg_activity g (il_id l)
        in \<lparr>as_link = l, as_input_events = ac_input_events a, as_driving = ac_driving a,
            as_last_input_age_ms = (if ac_last_input a \<noteq> NO_INPUT_YET
              then Some (sat_sub now_ms (ac_last_input a)) else None)\<rparr>)) (rg_inbound g)"

section \<open>Ended links\<close>

definition ban :: "u64 \<Rightarrow> u64 list \<Rightarrow> u64 list" where
  "ban link_id ended = List.insert link_id (if length ended \<ge> 32 then [] else ended)"

definition end_link :: "u64 \<Rightarrow> registries \<Rightarrow> registries" where
  "end_link link_id g = g\<lparr>rg_ended := ban link_id (rg_ended g)\<rparr>"

definition peer_end_link :: "u64 \<Rightarrow> registries \<Rightarrow> registries" where
  "peer_end_link link_id g = g\<lparr>rg_peer_ended := ban link_id (rg_peer_ended g)\<rparr>"

definition peer_link_ended :: "u64 \<Rightarrow> registries \<Rightarrow> bool" where
  "peer_link_ended link_id g \<longleftrightarrow> link_id \<in> set (rg_peer_ended g)"

definition link_ended :: "u64 \<Rightarrow> registries \<Rightarrow> bool" where
  "link_ended link_id g \<longleftrightarrow> link_id \<in> set (rg_ended g) \<or> peer_link_ended link_id g"

text \<open>\<open>load_ended_links\<close> on the two parsed lists, and what \<open>persist_ended_links\<close> writes.\<close>

definition load_ended_links :: "u64 list \<Rightarrow> u64 list \<Rightarrow> registries \<Rightarrow> registries" where
  "load_ended_links ended peer_ended g =
     fold peer_end_link (take 32 peer_ended) (fold end_link (take 32 ended) g)"

definition persist_ended_links :: "registries \<Rightarrow> u64 list \<times> u64 list" where
  "persist_ended_links g = (take 32 (rg_ended g), take 32 (rg_peer_ended g))"

section \<open>Recently seen peers\<close>

record recent_view =
  rv_fingerprint_hex :: string
  rv_node_name :: string
  rv_address :: string
  rv_link_id :: "u64 option"
  rv_age_secs :: nat

definition recent_inbound_view :: "recent_view list \<Rightarrow> (u64 option \<Rightarrow> bool) \<Rightarrow> recent_view list" where
  "recent_inbound_view records banned =
     sort_key rv_age_secs (filter (\<lambda>r. \<not> banned (rv_link_id r)
       \<and> rv_age_secs r \<le> RECENT_INBOUND_MAX_SECS) records)"

definition recent_inbound_links :: "instant \<Rightarrow> registries \<Rightarrow> recent_view list" where
  "recent_inbound_links now g =
     recent_inbound_view
       (map (\<lambda>(fp, r). \<lparr>rv_fingerprint_hex = fp, rv_node_name = ri_node_name r,
           rv_address = ri_address r, rv_link_id = ri_link_id r,
           rv_age_secs = as_secs (elapsed now (ri_last_seen r))\<rparr>) (rg_recent g))
       (\<lambda>link_id. case link_id of None \<Rightarrow> False | Some l \<Rightarrow> link_ended l g)"

definition forget_recent_inbound :: "string \<Rightarrow> registries \<Rightarrow> registries" where
  "forget_recent_inbound fp g = g\<lparr>rg_recent := AList.delete fp (rg_recent g)\<rparr>"

section \<open>The presence of the desktop application\<close>

definition presence_fresh :: "presence_record option \<Rightarrow> instant \<Rightarrow> bool" where
  "presence_fresh r now = (case r of None \<Rightarrow> False | Some p \<Rightarrow> elapsed now (pe_last_seen p) < PRESENCE_TTL)"

definition legacy_presence_fresh :: "instant option \<Rightarrow> bool \<Rightarrow> instant \<Rightarrow> bool" where
  "legacy_presence_fresh contact lease_seen now \<longleftrightarrow>
     \<not> lease_seen \<and> (case contact of None \<Rightarrow> False | Some at \<Rightarrow> elapsed now at < PRESENCE_TTL)"

definition note_ui_contact :: "instant \<Rightarrow> registries \<Rightarrow> registries" where
  "note_ui_contact now g = g\<lparr>rg_ui_contact := Some now\<rparr>"

definition presence_begin :: "instant \<Rightarrow> registries \<Rightarrow> registries \<times> u64" where
  "presence_begin now g =
     (g\<lparr>rg_lease_seen := True, rg_presence_ids := rg_presence_ids g + 1,
        rg_presence := Some \<lparr>pe_id = rg_presence_ids g, pe_last_seen = now\<rparr>\<rparr>,
      rg_presence_ids g)"

definition presence_touch :: "instant \<Rightarrow> u64 \<Rightarrow> registries \<Rightarrow> registries \<times> bool" where
  "presence_touch now pid g =
     (case rg_presence g of
        None \<Rightarrow> (g, False)
      | Some p \<Rightarrow>
          if pe_id p = pid then (g\<lparr>rg_presence := Some (p\<lparr>pe_last_seen := now\<rparr>)\<rparr>, True)
          else (g, False))"

definition presence_end :: "u64 \<Rightarrow> registries \<Rightarrow> registries \<times> bool" where
  "presence_end pid g =
     (case rg_presence g of
        None \<Rightarrow> (g, False)
      | Some p \<Rightarrow> if pe_id p = pid then (g\<lparr>rg_presence := None\<rparr>, True) else (g, False))"

definition ui_present :: "instant \<Rightarrow> registries \<Rightarrow> bool" where
  "ui_present now g \<longleftrightarrow>
     presence_fresh (rg_presence g) now \<or> legacy_presence_fresh (rg_ui_contact g) (rg_lease_seen g) now"

section \<open>Outbound link leases\<close>

definition lease_begin ::
  "instant \<Rightarrow> string \<Rightarrow> string \<Rightarrow> u64 option \<Rightarrow> registries \<Rightarrow> registries \<times> u64" where
  "lease_begin now fp address link_id g =
     (let lid = rg_lease_ids g
      in (g\<lparr>rg_lease_ids := lid + 1,
            rg_leases := AList.update (fp, link_id) \<lparr>ol_id = lid, ol_fingerprint_hex = fp,
              ol_address = address, ol_link_id = link_id, ol_last_ping = now\<rparr> (rg_leases g)\<rparr>,
          lid))"

definition lease_touch ::
  "instant \<Rightarrow> string \<Rightarrow> u64 option \<Rightarrow> u64 \<Rightarrow> registries \<Rightarrow> registries \<times> bool" where
  "lease_touch now fp link_id lid g =
     (case map_of (rg_leases g) (fp, link_id) of
        None \<Rightarrow> (g, False)
      | Some l \<Rightarrow>
          if ol_id l = lid
          then (g\<lparr>rg_leases := AList.update (fp, link_id) (l\<lparr>ol_last_ping := now\<rparr>) (rg_leases g)\<rparr>, True)
          else (g, False))"

definition lease_end ::
  "string \<Rightarrow> u64 option \<Rightarrow> u64 \<Rightarrow> registries \<Rightarrow> registries \<times> outbound_lease option" where
  "lease_end fp link_id lid g =
     (case map_of (rg_leases g) (fp, link_id) of
        None \<Rightarrow> (g, None)
      | Some l \<Rightarrow>
          if ol_id l = lid
          then (g\<lparr>rg_leases := remove_if (\<lambda>l. ol_id l = lid) (fp, link_id) (rg_leases g)\<rparr>, Some l)
          else (g, None))"

definition outbound_epoch_owner :: "u64 \<Rightarrow> registries \<Rightarrow> string option" where
  "outbound_epoch_owner link_id g =
     map_option (\<lambda>(_, l). ol_fingerprint_hex l)
       (find (\<lambda>(_, l). ol_link_id l = Some link_id) (rg_leases g))"

definition outbound_epoch_live :: "string \<Rightarrow> u64 \<Rightarrow> registries \<Rightarrow> bool" where
  "outbound_epoch_live fp link_id g =
     (case outbound_epoch_owner link_id g of
        None \<Rightarrow> False
      | Some owner \<Rightarrow> to_ascii_lowercase owner = to_ascii_lowercase fp)"

definition take_lease ::
  "u64 option \<Rightarrow> string option \<Rightarrow> registries \<Rightarrow> registries \<times> outbound_lease option" where
  "take_lease link_id address g =
     (case find (\<lambda>(_, l). (case link_id of None \<Rightarrow> False | Some epoch \<Rightarrow> ol_link_id l = Some epoch)
            \<or> (case address of None \<Rightarrow> False | Some a \<Rightarrow> ol_address l = a)) (rg_leases g) of
        None \<Rightarrow> (g, None)
      | Some (key, l) \<Rightarrow> (g\<lparr>rg_leases := AList.delete key (rg_leases g)\<rparr>, Some l))"

section \<open>UDP motion\<close>

definition register_udp_motion_key ::
  "(bytes \<Rightarrow> bytes) \<Rightarrow> instant \<Rightarrow> string \<Rightarrow> string \<Rightarrow> u64 \<Rightarrow> bool \<Rightarrow> registries \<Rightarrow> registries \<times> bytes"
  where
  "register_udp_motion_key hash now local_fp peer_fp link_id lock_screen_enabled g =
     (let key = derive_udp_key hash local_fp peer_fp link_id;
          kept = filter (\<lambda>e. mk_key e \<noteq> key \<and> as_secs (elapsed now (mk_last_seen e)) \<le> 15 * 60)
            (rg_motion_keys g);
          room = (if length kept \<ge> 64 then tl kept else kept)
      in (g\<lparr>rg_motion_keys := room @ [\<lparr>mk_key = key, mk_fingerprint_hex = peer_fp,
             mk_lock_screen_enabled = lock_screen_enabled, mk_last_seen = now\<rparr>]\<rparr>, key))"

definition udp_motion_key_snapshot :: "registries \<Rightarrow> (bytes \<times> string \<times> bool) list" where
  "udp_motion_key_snapshot g =
     map (\<lambda>e. (mk_key e, mk_fingerprint_hex e, mk_lock_screen_enabled e)) (rg_motion_keys g)"

text \<open>A motion sink is the number of its channel; a guard remembers it.\<close>

definition register_udp_motion_sink :: "string \<Rightarrow> nat \<Rightarrow> registries \<Rightarrow> registries" where
  "register_udp_motion_sink fp sink g = g\<lparr>rg_motion_sinks := AList.update fp sink (rg_motion_sinks g)\<rparr>"

definition drop_udp_motion_sink :: "string \<Rightarrow> nat \<Rightarrow> registries \<Rightarrow> registries" where
  "drop_udp_motion_sink fp sink g =
     g\<lparr>rg_motion_sinks := remove_if (\<lambda>s. s = sink) fp (rg_motion_sinks g)\<rparr>"

text \<open>Where a delta goes: the channel of the episode that owns the peer, if there is one.\<close>

definition forward_udp_motion :: "string \<Rightarrow> registries \<Rightarrow> nat option" where
  "forward_udp_motion fp g = map_of (rg_motion_sinks g) fp"

end
