(* ===== verification/RegistryRuns.thy ===== *)
theory RegistryRuns
  imports Registries
begin

text \<open>
  What the registries promise: a session's clean-up never removes its successor, the motion
  keys are bounded, bans survive a restart; and two places where entries are lost.
\<close>

section \<open>Slots with an owner\<close>

text \<open>
  A table whose entries are put in by one party and released by it later, when another party
  may have replaced the entry. The laws are those of a map whose release checks the owner.
\<close>

datatype ('k, 'v, 'i) slot_event = Put 'k 'v | Release 'k 'i

fun slot_step ::
  "('k \<Rightarrow> 'v \<Rightarrow> 't \<Rightarrow> 't) \<Rightarrow> ('k \<Rightarrow> 'i \<Rightarrow> 't \<Rightarrow> 't) \<Rightarrow> ('k, 'v, 'i) slot_event \<Rightarrow> 't \<Rightarrow> 't" where
  "slot_step put release (Put k v) t = put k v t"
| "slot_step put release (Release k i) t = release k i t"

fun puts :: "'k \<Rightarrow> ('k, 'v, 'i) slot_event \<Rightarrow> bool" where
  "puts k (Put k2 v) = (k = k2)"
| "puts k (Release k2 i) = False"

locale owned_slots =
  fixes get :: "'t \<Rightarrow> 'k \<Rightarrow> 'v option"
    and put :: "'k \<Rightarrow> 'v \<Rightarrow> 't \<Rightarrow> 't"
    and release :: "'k \<Rightarrow> 'i \<Rightarrow> 't \<Rightarrow> 't"
    and owner :: "'v \<Rightarrow> 'i"
  assumes get_put: "get (put k v t) = (get t)(k \<mapsto> v)"
    and get_release: "get (release k i t) =
      (case get t k of None \<Rightarrow> get t | Some v \<Rightarrow> if owner v = i then (get t)(k := None) else get t)"
begin

lemma absent_stays:
  "get t k = None \<Longrightarrow> list_all (\<lambda>e. \<not> puts k e) later \<Longrightarrow> get (fold (slot_step put release) later t) k = None"
proof (induction later arbitrary: t)
  case (Cons e later)
  have "get (slot_step put release e t) k = None"
    using Cons.prems by (cases e) (auto simp: get_put get_release split: option.splits)
  with Cons show ?case by simp
qed simp

lemma latest_entry:
  "get t k = Some v \<Longrightarrow> list_all (\<lambda>e. \<not> puts k e) later \<Longrightarrow>
     get (fold (slot_step put release) later t) k
       = (if Release k (owner v) \<in> set later then None else Some v)"
proof (induction later arbitrary: t)
  case (Cons e later)
  show ?case
  proof (cases "e = Release k (owner v)")
    case True
    then have "get (slot_step put release e t) k = None"
      using Cons.prems by (simp add: get_release)
    with Cons.prems absent_stays True show ?thesis by simp
  next
    case False
    then have "get (slot_step put release e t) k = Some v"
      using Cons.prems by (cases e) (auto simp: get_put get_release split: option.splits)
    with Cons False show ?thesis by auto
  qed
qed simp

lemma after_put:
  "list_all (\<lambda>e. \<not> puts k e) later \<Longrightarrow>
     get (fold (slot_step put release) later (put k v t)) k
       = (if Release k (owner v) \<in> set later then None else Some v)"
  by (rule latest_entry) (simp_all add: get_put)

end

lemma map_of_remove_if:
  "map_of (remove_if mine k al) = (case map_of al k of
     None \<Rightarrow> map_of al | Some v \<Rightarrow> if mine v then (map_of al)(k := None) else map_of al)"
  by (simp add: remove_if_def AList.delete_conv' split: option.splits)

text \<open>The inbound sessions, the outbound leases, the motion sinks and the presence slot.\<close>

definition inbound_of :: "registries \<Rightarrow> string \<rightharpoonup> inbound_link" where
  "inbound_of g = map_of (rg_inbound g)"

definition put_inbound :: "string \<Rightarrow> inbound_link \<Rightarrow> registries \<Rightarrow> registries" where
  "put_inbound fp l g = g\<lparr>rg_inbound := AList.update fp l (rg_inbound g)\<rparr>"

interpretation inbound_slots: owned_slots inbound_of put_inbound remove_inbound_link il_id
  by unfold_locales
    (simp_all add: inbound_of_def put_inbound_def remove_inbound_link_def map_of_update
      map_of_remove_if split: option.splits)

definition lease_of :: "registries \<Rightarrow> string \<times> u64 option \<rightharpoonup> outbound_lease" where
  "lease_of g = map_of (rg_leases g)"

definition put_lease :: "string \<times> u64 option \<Rightarrow> outbound_lease \<Rightarrow> registries \<Rightarrow> registries" where
  "put_lease key l g = g\<lparr>rg_leases := AList.update key l (rg_leases g)\<rparr>"

definition end_lease :: "string \<times> u64 option \<Rightarrow> u64 \<Rightarrow> registries \<Rightarrow> registries" where
  "end_lease key lid g = fst (lease_end (fst key) (snd key) lid g)"

interpretation lease_slots: owned_slots lease_of put_lease end_lease ol_id
  by unfold_locales
    (auto simp: lease_of_def put_lease_def end_lease_def lease_end_def map_of_update
      map_of_remove_if split: option.splits)

definition put_sink :: "string \<Rightarrow> nat \<Rightarrow> registries \<Rightarrow> registries" where
  "put_sink fp sink g = register_udp_motion_sink fp sink g"

interpretation sink_slots: owned_slots "\<lambda>g fp. forward_udp_motion fp g" put_sink drop_udp_motion_sink id
  by unfold_locales
    (auto simp: forward_udp_motion_def put_sink_def register_udp_motion_sink_def
      drop_udp_motion_sink_def map_of_update map_of_remove_if fun_eq_iff split: option.splits)

definition presence_of :: "registries \<Rightarrow> unit \<Rightarrow> presence_record option" where
  "presence_of g u = rg_presence g"

definition put_presence :: "unit \<Rightarrow> presence_record \<Rightarrow> registries \<Rightarrow> registries" where
  "put_presence u p g = g\<lparr>rg_presence := Some p\<rparr>"

definition end_presence :: "unit \<Rightarrow> u64 \<Rightarrow> registries \<Rightarrow> registries" where
  "end_presence u pid g = fst (presence_end pid g)"

interpretation presence_slot: owned_slots presence_of put_presence end_presence pe_id
  by unfold_locales
    (auto simp: presence_of_def put_presence_def end_presence_def presence_end_def fun_eq_iff
      split: option.splits)

lemma register_inbound_puts:
  "fst (register_inbound_link now fp name address link_id g)
     = put_inbound fp \<lparr>il_id = rg_link_ids g, il_fingerprint_hex = fp, il_node_name = name,
         il_address = address, il_link_id = link_id\<rparr>
       (fst (register_inbound_link now fp name address link_id g)\<lparr>rg_inbound := rg_inbound g\<rparr>)"
  by (simp add: register_inbound_link_def put_inbound_def Let_def note_inbound_seen_def)

text \<open>
  A clean-up never removes a successor. After a session of a peer is registered, and
  until another one of that peer is, the registry holds exactly this session, unless it was
  removed with its own id: the late clean-up of an earlier session, in whatever order the
  tasks run, changes nothing. The same holds for outbound link leases.
\<close>

theorem cleanup_spares_successor:
  assumes "register_inbound_link now fp name address link_id g = (g1, sid)"
    and "list_all (\<lambda>e. \<not> puts fp e) later"
    and "lease_begin now fp address link_id h = (h1, lid)"
    and "list_all (\<lambda>e. \<not> puts (fp, link_id) e) later2"
  shows "map_option il_id (inbound_of (fold (slot_step put_inbound remove_inbound_link) later g1) fp)
      = (if Release fp sid \<in> set later then None else Some sid)
    \<and> map_option ol_id (lease_of (fold (slot_step put_lease end_lease) later2 h1) (fp, link_id))
      = (if Release (fp, link_id) lid \<in> set later2 then None else Some lid)"
proof
  let ?l = "\<lparr>il_id = sid, il_fingerprint_hex = fp, il_node_name = name, il_address = address,
      il_link_id = link_id\<rparr>"
  have "sid = rg_link_ids g" "g1 = fst (register_inbound_link now fp name address link_id g)"
    using assms(1) by (auto simp: register_inbound_link_def Let_def)
  then have "g1 = put_inbound fp ?l (g1\<lparr>rg_inbound := rg_inbound g\<rparr>)"
    using register_inbound_puts by simp
  then show "map_option il_id (inbound_of (fold (slot_step put_inbound remove_inbound_link) later g1) fp)
      = (if Release fp sid \<in> set later then None else Some sid)"
    using inbound_slots.after_put [OF assms(2), of ?l "g1\<lparr>rg_inbound := rg_inbound g\<rparr>"] by simp
  let ?o = "\<lparr>ol_id = lid, ol_fingerprint_hex = fp, ol_address = address, ol_link_id = link_id,
      ol_last_ping = now\<rparr>"
  have "h1 = put_lease (fp, link_id) ?o (h\<lparr>rg_lease_ids := lid + 1\<rparr>)"
    using assms(3) by (auto simp: lease_begin_def put_lease_def Let_def)
  then show "map_option ol_id (lease_of (fold (slot_step put_lease end_lease) later2 h1) (fp, link_id))
      = (if Release (fp, link_id) lid \<in> set later2 then None else Some lid)"
    using lease_slots.after_put [OF assms(4), of ?o] by simp
qed

lemma cleanup_spares_successor_witness:
  "\<exists>g1 sid. register_inbound_link 5 ''ab'' ''laptop'' ''10.0.0.7'' None start_registries = (g1, sid)
    \<and> map_option il_id (inbound_of (fold (slot_step put_inbound remove_inbound_link) [Release ''ab'' 9] g1) ''ab'')
      = Some sid"
proof -
  obtain g1 sid where reg: "register_inbound_link 5 ''ab'' ''laptop'' ''10.0.0.7'' None start_registries = (g1, sid)"
    by fastforce
  obtain h1 lid where lease: "lease_begin 5 ''ab'' ''10.0.0.7'' None start_registries = (h1, lid)"
    by fastforce
  have "sid = 1"
    using reg by (auto simp: register_inbound_link_def start_registries_def Let_def)
  moreover have "list_all (\<lambda>e. \<not> puts ''ab'' e) [Release ''ab'' 9]"
    "list_all (\<lambda>e. \<not> puts (''ab'', None) e) []"
    by simp_all
  ultimately show ?thesis
    using cleanup_spares_successor [OF reg _ lease, of "[Release ''ab'' 9]" "[]"] reg by auto
qed

section \<open>Bans\<close>

lemma ban_bounded: "length ended \<le> 32 \<Longrightarrow> length (ban l ended) \<le> 32"
  by (auto simp: ban_def List.insert_def)

lemma distinct_ban: "distinct ended \<Longrightarrow> distinct (ban l ended)"
  by (simp add: ban_def)

lemma in_ban: "l \<in> set (ban l ended)"
  by (simp add: ban_def)

lemma fold_ban:
  "distinct ids \<Longrightarrow> length (acc :: u64 list) + length ids \<le> 32 \<Longrightarrow> set acc \<inter> set ids = {}
     \<Longrightarrow> set (fold ban ids acc) = set acc \<union> set ids"
proof (induction ids arbitrary: acc)
  case (Cons i ids)
  have "ban i acc = i # acc"
    using Cons.prems by (auto simp: ban_def List.insert_def)
  moreover have "set (fold ban ids (i # acc)) = set (i # acc) \<union> set ids"
    using Cons.prems by (intro Cons.IH) auto
  ultimately show ?case by auto
qed simp

lemma rg_fold_end_link:
  "rg_ended (fold end_link ids g) = fold ban ids (rg_ended g)"
  "rg_peer_ended (fold end_link ids g) = rg_peer_ended g"
  "rg_ended (fold peer_end_link ids g) = rg_ended g"
  "rg_peer_ended (fold peer_end_link ids g) = fold ban ids (rg_peer_ended g)"
  by (induction ids arbitrary: g) (simp_all add: end_link_def peer_end_link_def)

datatype ban_op = EndLink u64 | PeerEndLink u64

fun ban_step :: "ban_op \<Rightarrow> registries \<Rightarrow> registries" where
  "ban_step (EndLink l) g = end_link l g"
| "ban_step (PeerEndLink l) g = peer_end_link l g"

definition bans_ok :: "registries \<Rightarrow> bool" where
  "bans_ok g \<longleftrightarrow> distinct (rg_ended g) \<and> length (rg_ended g) \<le> 32
     \<and> distinct (rg_peer_ended g) \<and> length (rg_peer_ended g) \<le> 32"

interpretation ban_run: event_machine ban_step bans_ok "\<lambda>_. True"
proof
  fix g op
  assume "bans_ok g"
  then show "bans_ok (ban_step op g)"
    by (cases op) (simp_all add: bans_ok_def end_link_def peer_end_link_def ban_bounded distinct_ban)
qed

text \<open>
  Bans survive a restart. After any bans, written to the file and loaded by a new
  process, exactly the same epochs are refused; and a ban is in force at once.
\<close>

theorem bans_survive_restart:
  "let g = fold ban_step ops start_registries;
       (ended, peer_ended) = persist_ended_links g;
       g2 = load_ended_links ended peer_ended start_registries
   in link_ended l g2 = link_ended l g \<and> link_ended l (end_link l g) \<and> link_ended l (peer_end_link l g)"
proof -
  define g where "g = fold ban_step ops start_registries"
  have "bans_ok g"
    unfolding g_def by (rule ban_run.run_inv_all) (simp_all add: bans_ok_def start_registries_def)
  then have g: "distinct (rg_ended g)" "length (rg_ended g) \<le> 32" "distinct (rg_peer_ended g)"
    "length (rg_peer_ended g) \<le> 32"
    by (simp_all add: bans_ok_def)
  have "link_ended l (load_ended_links (rg_ended g) (rg_peer_ended g) start_registries) = link_ended l g"
    using fold_ban [OF g(1), of "[]"] fold_ban [OF g(3), of "[]"] g
    by (simp add: link_ended_def peer_link_ended_def load_ended_links_def rg_fold_end_link
        start_registries_def)
  then show ?thesis
    unfolding g_def [symmetric] using g
    by (simp add: persist_ended_links_def link_ended_def peer_link_ended_def end_link_def
        peer_end_link_def in_ban)
qed

text \<open>
  A ban can be lifted by the very next one. When 31 epochs are banned and the user
  disconnects one more, the next Disconnect of any other link empties the set first, so the
  epoch ended a moment ago is accepted again, although a dial carrying an ended epoch is
  documented to be refused and only old bans to be worthless.
\<close>

theorem ban_forgotten_by_next:
  assumes "length (rg_ended g) = 31" and "l \<notin> set (rg_ended g)" and "l \<noteq> l2"
    and "\<not> peer_link_ended l g"
  shows "link_ended l (end_link l g) \<and> \<not> link_ended l (end_link l2 (end_link l g))"
  using assms by (simp add: link_ended_def peer_link_ended_def end_link_def ban_def List.insert_def)

lemma ban_forgotten_by_next_witness:
  "\<exists>g. length (rg_ended g) = 31 \<and> link_ended 7 (end_link 7 g) \<and> \<not> link_ended 7 (end_link 8 (end_link 7 g))"
proof -
  define ids :: "u64 list" where
    "ids = [100, 101, 102, 103, 104, 105, 106, 107, 108, 109, 110, 111, 112, 113, 114, 115, 116, 117,
      118, 119, 120, 121, 122, 123, 124, 125, 126, 127, 128, 129, 130]"
  let ?g = "start_registries\<lparr>rg_ended := ids\<rparr>"
  have ids: "length ids = 31" by (simp add: ids_def)
  have "7 \<notin> set ids" by (simp add: ids_def)
  then show ?thesis
    using ban_forgotten_by_next [of ?g 7 8] ids
    by (intro exI [of _ ?g]) (simp add: peer_link_ended_def start_registries_def)
qed

section \<open>Motion keys\<close>

datatype key_op = MotionKey instant string string u64 bool

fun key_step :: "(bytes \<Rightarrow> bytes) \<Rightarrow> key_op \<Rightarrow> registries \<Rightarrow> registries" where
  "key_step hash (MotionKey now local_fp peer_fp link_id lock) g =
     fst (register_udp_motion_key hash now local_fp peer_fp link_id lock g)"

definition keys_ok :: "registries \<Rightarrow> bool" where
  "keys_ok g \<longleftrightarrow> length (rg_motion_keys g) \<le> 64 \<and> distinct (map mk_key (rg_motion_keys g))"

lemma register_key_ok:
  "keys_ok g \<Longrightarrow> keys_ok (fst (register_udp_motion_key hash now local_fp peer_fp link_id lock g))"
proof -
  assume ok: "keys_ok g"
  let ?key = "derive_udp_key hash local_fp peer_fp link_id"
  define kept where "kept = filter (\<lambda>e. mk_key e \<noteq> ?key \<and> as_secs (elapsed now (mk_last_seen e)) \<le> 15 * 60)
      (rg_motion_keys g)"
  have "length kept \<le> length (rg_motion_keys g)"
    unfolding kept_def by (rule length_filter_le)
  with ok have "length kept \<le> 64"
    by (simp add: keys_ok_def)
  moreover have "distinct (map mk_key kept)" "?key \<notin> set (map mk_key kept)"
    using ok by (auto simp: kept_def keys_ok_def distinct_map_filter)
  ultimately have kept: "distinct (map mk_key kept)" "?key \<notin> set (map mk_key kept)"
    "length kept \<le> 64" by blast+
  then have "distinct (map mk_key (tl kept))" "?key \<notin> set (map mk_key (tl kept))"
    by (cases kept; simp)+
  moreover have "rg_motion_keys (fst (register_udp_motion_key hash now local_fp peer_fp link_id lock g))
    = (if length kept \<ge> 64 then tl kept else kept) @ [\<lparr>mk_key = ?key, mk_fingerprint_hex = peer_fp,
         mk_lock_screen_enabled = lock, mk_last_seen = now\<rparr>]"
    by (simp add: register_udp_motion_key_def Let_def kept_def)
  ultimately show ?thesis
    using kept by (auto simp: keys_ok_def)
qed

interpretation key_run: event_machine "key_step hash" keys_ok "\<lambda>_. True" for hash
proof
  fix g op
  assume "keys_ok g"
  then show "keys_ok (key_step hash op g)"
    by (cases op) (simp add: register_key_ok)
qed

text \<open>
  The motion key ring is bounded and current. Whatever links are opened, the ring holds
  at most 64 keys, no key twice, and the link opened last is in it with its own peer and
  lock-screen privilege, so a datagram is never charged to a stale peer.
\<close>

theorem motion_keys_bounded:
  "let g = fold (key_step hash) ops start_registries;
       (g2, key) = register_udp_motion_key hash now local_fp peer_fp link_id lock g
   in length (udp_motion_key_snapshot g2) \<le> 64
      \<and> distinct (map fst (udp_motion_key_snapshot g2))
      \<and> map_of (udp_motion_key_snapshot g2) (derive_udp_key hash local_fp peer_fp link_id)
          = Some (peer_fp, lock)"
proof -
  define g where "g = fold (key_step hash) ops start_registries"
  have "keys_ok g"
    unfolding g_def by (rule key_run.run_inv_all) (simp_all add: keys_ok_def start_registries_def)
  obtain g2 key where reg: "register_udp_motion_key hash now local_fp peer_fp link_id lock g = (g2, key)"
    by fastforce
  then have "keys_ok g2"
    using register_key_ok [OF \<open>keys_ok g\<close>, of hash now local_fp peer_fp link_id lock] by simp
  then have ok: "length (udp_motion_key_snapshot g2) \<le> 64" "distinct (map fst (udp_motion_key_snapshot g2))"
    by (simp_all add: keys_ok_def udp_motion_key_snapshot_def comp_def)
  have "(derive_udp_key hash local_fp peer_fp link_id, peer_fp, lock) \<in> set (udp_motion_key_snapshot g2)"
    using reg by (auto simp: register_udp_motion_key_def udp_motion_key_snapshot_def Let_def)
  with ok(2) have "map_of (udp_motion_key_snapshot g2) (derive_udp_key hash local_fp peer_fp link_id)
      = Some (peer_fp, lock)"
    by (rule map_of_is_SomeI)
  with ok show ?thesis
    unfolding g_def [symmetric] by (simp add: reg)
qed

section \<open>Recently seen peers\<close>

text \<open>
  A known peer is not stamped when the list is full. With 64 peers seen in the last
  fifteen minutes, a new session of one of them leaves its old stamp, address and epoch in
  place, although every registration is documented to stamp its peer.
\<close>

theorem seen_not_refreshed:
  assumes "length (rg_recent g) = 64"
    and "\<forall>(fp, r) \<in> set (rg_recent g). elapsed now (ri_last_seen r) \<le> from_secs 900"
  shows "rg_recent (fst (register_inbound_link now fp name address link_id g)) = rg_recent g"
proof -
  have "as_secs (elapsed now (ri_last_seen r)) \<le> RECENT_INBOUND_MAX_SECS"
    if "elapsed now (ri_last_seen r) \<le> from_secs 900" for r
    using that div_le_mono [OF that, of 1000000000]
    by (simp add: as_secs_def RECENT_INBOUND_MAX_SECS_def from_secs_def)
  with assms(2) have "filter (\<lambda>(_, r). as_secs (elapsed now (ri_last_seen r)) \<le> RECENT_INBOUND_MAX_SECS)
      (rg_recent g) = rg_recent g"
    by (auto simp: filter_id_conv)
  with assms(1) show ?thesis
    by (simp add: register_inbound_link_def note_inbound_seen_def Let_def)
qed

lemma seen_not_refreshed_witness:
  "\<exists>g. length (rg_recent g) = 64
     \<and> rg_recent (fst (register_inbound_link 9 ''A'' ''laptop'' ''10.0.0.7'' None g)) = rg_recent g
     \<and> ri_last_seen (the (map_of (rg_recent g) ''A'')) = 1"
proof -
  define entry where "entry = \<lparr>ri_node_name = ''desk'', ri_address = ''10.0.0.9'', ri_link_id = None, ri_last_seen = 1\<rparr>"
  define seen where "seen = map (\<lambda>i. ([char_of (65 + i)], entry)) [0..<64 :: nat]"
  let ?g = "start_registries\<lparr>rg_recent := seen\<rparr>"
  have len: "length (rg_recent ?g) = 64"
    by (simp add: seen_def)
  have live: "\<forall>(fp, r) \<in> set (rg_recent ?g). elapsed 9 (ri_last_seen r) \<le> from_secs 900"
    by (auto simp: seen_def entry_def elapsed_def from_secs_def)
  have "CHR ''A'' = char_of (65 :: nat)"
    by code_simp
  then have "map_of seen ''A'' = Some entry"
    unfolding seen_def by (subst upt_conv_Cons) simp_all
  then have "ri_last_seen (the (map_of seen ''A'')) = 1"
    by (simp add: entry_def)
  with seen_not_refreshed [OF len live, of "''A''" "''laptop''" "''10.0.0.7''" None] len
  show ?thesis by (intro exI [of _ ?g]) simp
qed

end
