(* ===== verification/Admission.thy ===== *)
theory Admission
  imports ApprovalRuns RegistryRuns PeerBook Wire
begin

text \<open>
  Who gets in: the gate a dialing peer's \<open>Hello\<close> passes, the pairing ceremony and the
  requests of the local user, in \<^verbatim>\<open>kvm-daemon/src/service.rs\<close> and
  \<^verbatim>\<open>kvm-daemon/src/control.rs\<close>. The record \<open>daemon\<close> collects the state they share: the
  trusted peers, both approval queues and the registries. Streams, audit lines and the
  notification of the other side are left out; what is written to the file of bans is the
  field \<open>dm_bans\<close>.
\<close>

record daemon =
  dm_book :: peer_book
  dm_pairings :: pairing_approvals
  dm_links :: link_approvals
  dm_registries :: registries
  dm_bans :: "u64 list \<times> u64 list"

section \<open>The gate\<close>

fun mode_allows_incoming :: "mode \<Rightarrow> bool" where
  "mode_allows_incoming m = (m = Bidirectional \<or> m = ClientOnly)"

fun mode_allows_outgoing :: "mode \<Rightarrow> bool" where
  "mode_allows_outgoing m = (m = Bidirectional \<or> m = ServerClient)"

definition validate_input_capability :: "bool \<Rightarrow> config \<Rightarrow> bool \<Rightarrow> string + bool" where
  "validate_input_capability windows c lock_screen_requested =
     (if lock_screen_requested \<and> \<not> cfg_allow_lock_screen_control c
      then if windows then Inr False else Inl ''privileged remote input is disabled locally''
      else Inr (lock_screen_requested \<and> cfg_allow_lock_screen_control c))"

text \<open>Refused with the reason sent, waiting for the local user, or let through.\<close>

datatype gate = Refused string | Asked "epoch waiter" | Passed

definition hello_gate ::
  "instant \<Rightarrow> config \<Rightarrow> string \<Rightarrow> string \<Rightarrow> hello \<Rightarrow> daemon \<Rightarrow> daemon \<times> gate" where
  "hello_gate now c fp dialable h d =
     (if \<not> is_pinned fp (dm_book d) then (d, Refused ''peer is not paired'')
      else if (case he_link_id h of None \<Rightarrow> False | Some l \<Rightarrow> link_ended l (dm_registries d))
      then (d, Refused ''link ended by this computer; press Connect for a fresh link'')
      else if \<not> mode_allows_incoming (cfg_mode c)
      then (d, Refused ''this node is configured as controller-only'')
      else if \<not> mode_allows_outgoing (he_mode h)
      then (d, Refused ''peer is configured as receiver-only'')
      else if he_link_id h \<noteq> None \<and> \<not> ui_present now (dm_registries d)
      then (d, Refused ''the TheKVM app is not running on this computer; open it there and connect again'')
      else case he_link_id h of
        None \<Rightarrow> (d, Passed)
      | Some epoch \<Rightarrow>
          (let (links, approved) = is_approved now fp epoch (dm_links d);
               known = (approved \<or> recently_paired now fp links);
               locally_initiated = (\<not> known \<and> outbound_epoch_live fp epoch (dm_registries d));
               d1 = d\<lparr>dm_links := links\<rparr>
           in if \<not> known \<and> \<not> locally_initiated
              then
                (case register_link now \<lparr>pl_node_name = he_node_name h, pl_fingerprint_hex = fp,
                     pl_address = dialable, pl_link_id = Some epoch\<rparr> links of
                   (links2, Inr waiter) \<Rightarrow> (d1\<lparr>dm_links := links2\<rparr>, Asked waiter)
                 | (links2, Inl e) \<Rightarrow> (d1\<lparr>dm_links := links2\<rparr>, Refused e))
              else (d1, Passed)))"

text \<open>The end of the wait: the decision, or the connection closed first.\<close>

definition gate_decided :: "epoch waiter \<Rightarrow> daemon \<Rightarrow> daemon \<times> gate" where
  "gate_decided w d =
     (let (links, approved) = wait_link w (dm_links d)
      in (d\<lparr>dm_links := links\<rparr>,
          if approved then Passed else Refused ''declined the link on this computer''))"

definition gate_closed :: "string \<Rightarrow> u64 \<Rightarrow> daemon \<Rightarrow> daemon" where
  "gate_closed fp epoch d = d\<lparr>dm_links := cancel_link fp epoch (dm_links d)\<rparr>"

text \<open>After the gate: what the session may do, or the last refusal.\<close>

definition input_grant :: "bool \<Rightarrow> config \<Rightarrow> hello \<Rightarrow> gate \<Rightarrow> gate \<times> bool" where
  "input_grant windows c h g =
     (case g of
        Passed \<Rightarrow>
          (case validate_input_capability windows c (he_lock_screen_requested h) of
             Inl e \<Rightarrow> (Refused e, False)
           | Inr enabled \<Rightarrow> (Passed, enabled))
      | _ \<Rightarrow> (g, False))"

section \<open>Hanging up\<close>

definition teardown_link :: "string option \<Rightarrow> u64 option \<Rightarrow> daemon \<Rightarrow> daemon" where
  "teardown_link fp0 link_id d =
     (let d1 = (case map_option to_ascii_lowercase fp0 of
            None \<Rightarrow> d
          | Some fp \<Rightarrow> d\<lparr>dm_registries := forget_recent_inbound fp
                (fst (drop_inbound_link fp (dm_registries d))),
              dm_links := revoke_peer fp (dm_links d)\<rparr>);
          d2 = (case link_id of
            None \<Rightarrow> d1
          | Some l \<Rightarrow> d1\<lparr>dm_registries := (if link_ended l (dm_registries d1) then dm_registries d1
                else end_link l (dm_registries d1)),
              dm_links := revoke_epoch l (dm_links d1)\<rparr>)
      in if link_id \<noteq> None \<or> fp0 \<noteq> None
         then d2\<lparr>dm_bans := persist_ended_links (dm_registries d2)\<rparr> else d2)"

text \<open>The application went away: every session it was serving is hung up.\<close>

definition on_ui_gone :: "daemon \<Rightarrow> daemon" where
  "on_ui_gone d =
     fold (\<lambda>(_, l). teardown_link (Some (il_fingerprint_hex l)) (il_link_id l))
       (rg_inbound (dm_registries d)) d"

section \<open>Requests of the local user\<close>

text \<open>The answers these requests give, of the \<open>ControlResponse\<close>s.\<close>

datatype response =
    ErrorResponse string
  | PairingApproved string
  | PairingRejected string
  | LinkApproved string "u64 option"
  | LinkRejected string "u64 option"
  | Unpaired string
  | SessionDropped string
  | LinkEnded u64
  | Disconnected "string option" "u64 option"

definition is_fingerprint :: "string \<Rightarrow> bool" where
  "is_fingerprint v \<longleftrightarrow> length v = 64 \<and> list_all is_ascii_hexdigit v"

definition bad_fingerprint :: response where
  "bad_fingerprint = ErrorResponse ''peer fingerprint must contain 64 hexadecimal characters''"

definition answer_pairing :: "instant \<Rightarrow> string \<Rightarrow> bool \<Rightarrow> daemon \<Rightarrow> daemon \<times> response" where
  "answer_pairing now fp0 approved d =
     (if \<not> is_fingerprint fp0 then (d, bad_fingerprint)
      else
        (let fp = to_ascii_lowercase fp0;
             (pairings, found) = decide_pairing now fp approved (dm_pairings d)
         in (d\<lparr>dm_pairings := pairings\<rparr>,
             if \<not> found then ErrorResponse ''pending pairing request was not found''
             else if approved then PairingApproved fp else PairingRejected fp)))"

definition approve_link :: "instant \<Rightarrow> string \<Rightarrow> u64 option \<Rightarrow> daemon \<Rightarrow> daemon \<times> response" where
  "approve_link now fp0 link_id d =
     (if \<not> is_fingerprint fp0 then (d, bad_fingerprint)
      else case link_id of
        None \<Rightarrow> (d, ErrorResponse ''epoch-less links never queue for approval'')
      | Some l \<Rightarrow>
          (let fp = to_ascii_lowercase fp0;
               foreign_epoch = (case outbound_epoch_owner l (dm_registries d) of
                   None \<Rightarrow> False | Some owner \<Rightarrow> owner \<noteq> fp)
           in if foreign_epoch
              then (d, ErrorResponse ''that link epoch belongs to a different computer'')
              else
                (let (links, found) = decide_link now fp l True (dm_links d)
                 in (d\<lparr>dm_links := links\<rparr>,
                     if found then LinkApproved fp (Some l)
                     else ErrorResponse ''pending link request was not found''))))"

definition reject_link :: "instant \<Rightarrow> string \<Rightarrow> u64 option \<Rightarrow> daemon \<Rightarrow> daemon \<times> response" where
  "reject_link now fp0 link_id d =
     (if \<not> is_fingerprint fp0 then (d, bad_fingerprint)
      else case link_id of
        None \<Rightarrow> (d, ErrorResponse ''epoch-less links never queue for approval'')
      | Some l \<Rightarrow>
          (let fp = to_ascii_lowercase fp0;
               (links, found) = decide_link now fp l False (dm_links d)
           in (d\<lparr>dm_links := links\<rparr>,
               if found then LinkRejected fp (Some l)
               else ErrorResponse ''pending link request was not found'')))"

definition unpair :: "io_error option \<Rightarrow> string \<Rightarrow> daemon \<Rightarrow> daemon \<times> response" where
  "unpair io fp0 d =
     (if \<not> is_fingerprint fp0 then (d, bad_fingerprint)
      else
        (let fp = to_ascii_lowercase fp0 in
         case unpin io fp (dm_book d) of
           (book, Inr True) \<Rightarrow>
             (d\<lparr>dm_book := book, dm_links := revoke_peer fp (dm_links d)\<rparr>, Unpaired fp)
         | (book, Inr False) \<Rightarrow> (d\<lparr>dm_book := book\<rparr>, ErrorResponse ''peer fingerprint was not paired'')
         | (book, Inl e) \<Rightarrow> (d\<lparr>dm_book := book\<rparr>, ErrorResponse (''revoking peer failed: '' @ error_text e))))"

definition drop_session :: "string \<Rightarrow> daemon \<Rightarrow> daemon \<times> response" where
  "drop_session fp0 d =
     (if \<not> is_fingerprint fp0 then (d, bad_fingerprint)
      else
        (let fp = to_ascii_lowercase fp0;
             (g, live) = drop_inbound_link fp (dm_registries d)
         in if live
            then (d\<lparr>dm_registries := g, dm_links := revoke_peer fp (dm_links d)\<rparr>, SessionDropped fp)
            else (d\<lparr>dm_registries := g\<rparr>, ErrorResponse ''no live inbound session for that peer'')))"

definition end_link_request :: "u64 \<Rightarrow> daemon \<Rightarrow> daemon \<times> response" where
  "end_link_request l d =
     (let g = end_link l (dm_registries d)
      in (d\<lparr>dm_registries := g, dm_links := revoke_epoch l (dm_links d),
            dm_bans := persist_ended_links g\<rparr>, LinkEnded l))"

definition disconnect_link ::
  "string option \<Rightarrow> string option \<Rightarrow> u64 option \<Rightarrow> daemon \<Rightarrow> daemon \<times> response" where
  "disconnect_link fp0 address0 link_id0 d =
     (let (g, lease) = take_lease link_id0 address0 (dm_registries d);
          d1 = d\<lparr>dm_registries := g\<rparr>;
          fp1 = (case fp0 of None \<Rightarrow> None
             | Some f \<Rightarrow> if is_fingerprint f then Some (to_ascii_lowercase f) else None);
          fp = (case fp1 of Some f \<Rightarrow> Some f | None \<Rightarrow> map_option ol_fingerprint_hex lease);
          address = (case address0 of Some a \<Rightarrow> Some a | None \<Rightarrow> map_option ol_address lease);
          link_id = (case link_id0 of Some l \<Rightarrow> Some l
             | None \<Rightarrow> (case lease of None \<Rightarrow> None | Some r \<Rightarrow> ol_link_id r))
      in if fp = None \<and> address = None \<and> link_id = None
         then (d1, ErrorResponse ''disconnect needs a peer fingerprint, address, or link epoch'')
         else (teardown_link fp link_id d1, Disconnected fp link_id))"

section \<open>Leases of the application and of outbound links\<close>

definition link_lease ::
  "instant \<Rightarrow> string \<Rightarrow> string \<Rightarrow> u64 option \<Rightarrow> daemon \<Rightarrow> daemon \<times> u64 option" where
  "link_lease now fp0 address link_id d =
     (if \<not> is_fingerprint fp0 then (d, None)
      else
        (let (g, lid) = lease_begin now (to_ascii_lowercase fp0) address link_id (dm_registries d)
         in (d\<lparr>dm_registries := g\<rparr>, Some lid)))"

definition link_lease_over :: "string \<Rightarrow> u64 option \<Rightarrow> u64 \<Rightarrow> daemon \<Rightarrow> daemon" where
  "link_lease_over fp0 link_id lid d =
     (let (g, lease) = lease_end (to_ascii_lowercase fp0) link_id lid (dm_registries d);
          d1 = d\<lparr>dm_registries := g\<rparr>
      in case lease of
           None \<Rightarrow> d1
         | Some l \<Rightarrow> teardown_link (Some (ol_fingerprint_hex l)) (ol_link_id l) d1)"

definition presence_over :: "u64 \<Rightarrow> daemon \<Rightarrow> daemon" where
  "presence_over pid d =
     (let (g, gone) = presence_end pid (dm_registries d);
          d1 = d\<lparr>dm_registries := g\<rparr>
      in if gone then on_ui_gone d1 else d1)"

section \<open>The pairing ceremony\<close>

text \<open>Until the initiator confirms: the code it typed is checked, or the request is listed.\<close>

definition begin_pairing ::
  "(bytes \<Rightarrow> bytes) \<Rightarrow> bool \<Rightarrow> instant \<Rightarrow> u64 \<Rightarrow> string \<Rightarrow> string \<Rightarrow> string \<Rightarrow> string \<Rightarrow> string option \<Rightarrow> string
     \<Rightarrow> daemon \<Rightarrow> daemon \<times> (string + bool \<times> string waiter option)" where
  "begin_pairing hash auto_confirm now now_secs local_fp peer_fp claimed node_name code address d =
     (if claimed \<noteq> peer_fp then (d, Inl ''pairing identity does not match the certificate'')
      else
        (let typed = (case code of None \<Rightarrow> False
             | Some typed_code \<Rightarrow> station_code_valid hash local_fp typed_code now_secs)
         in if typed then (d, Inr (True, None))
            else
              (case register_pairing auto_confirm now \<lparr>pp_node_name = node_name,
                   pp_fingerprint_hex = peer_fp, pp_address = address,
                   pp_verification_code = verification_code hash local_fp peer_fp\<rparr> (dm_pairings d) of
                 (pairings, Inl e) \<Rightarrow> (d\<lparr>dm_pairings := pairings\<rparr>, Inl e)
               | (pairings, Inr w) \<Rightarrow> (d\<lparr>dm_pairings := pairings\<rparr>, Inr (False, Some w)))))"

definition abort_pairing :: "string waiter option \<Rightarrow> daemon \<Rightarrow> daemon" where
  "abort_pairing w d =
     (case w of None \<Rightarrow> d
      | Some (fp, _) \<Rightarrow> d\<lparr>dm_pairings := cancel_pairing fp (dm_pairings d)\<rparr>)"

text \<open>After the confirmation: the local decision, then trust and the note for the first link.\<close>

definition finish_pairing ::
  "instant \<Rightarrow> io_error option \<Rightarrow> string \<Rightarrow> string \<Rightarrow> bool \<Rightarrow> string waiter option \<Rightarrow> daemon
     \<Rightarrow> daemon \<times> (string + unit)" where
  "finish_pairing now io node_name fp typed w d =
     (let (pairings, approved) = (case w of
            Some waiter \<Rightarrow> wait_pairing waiter (dm_pairings d)
          | None \<Rightarrow> (dm_pairings d, typed));
          d1 = d\<lparr>dm_pairings := pairings\<rparr>
      in if \<not> approved then (d1, Inl ''pairing was rejected or timed out locally'')
         else case pin_peer io node_name fp (dm_book d1) of
           (book, Inl e) \<Rightarrow> (d1\<lparr>dm_book := book\<rparr>, Inl (error_text e))
         | (book, Inr _) \<Rightarrow>
             (d1\<lparr>dm_book := book, dm_links := note_paired now fp (dm_links d1)\<rparr>, Inr ()))"

end
