(* ===== verification/AdmissionRuns.thy ===== *)
theory AdmissionRuns
  imports Admission
begin

text \<open>
  What the gate promises over any sequence of calls: a session with a link epoch opens only
  for a trusted peer and with the consent of the local user, traced to the call that gave it; a
  hung-up epoch stays refused whatever is called later.
\<close>

section \<open>Runs of the daemon\<close>

text \<open>
  The calls that reach the shared state. \<open>Ceremony\<close> steps finish or abort a pairing that
  \<open>BeginPairing\<close> opened; the typed code of such a ceremony was right when its waiter is \<open>None\<close>.
\<close>

datatype daemon_op =
    Hello instant config string string hello
  | GateDecided "epoch waiter"
  | GateClosed string u64
  | AnswerPairing instant string bool
  | ApproveLink instant string "u64 option"
  | RejectLink instant string "u64 option"
  | Unpair "io_error option" string
  | DropSession string
  | EndEpoch u64
  | PeerEnded u64
  | Disconnect "string option" "string option" "u64 option"
  | OpenLease instant string string "u64 option"
  | TouchLease instant string "u64 option" u64
  | CloseLease string "u64 option" u64
  | OpenPresence instant
  | TouchPresence instant u64
  | ClosePresence u64
  | UiContact instant
  | SessionUp instant string string string "u64 option"
  | SessionDown string u64
  | PinPeer "io_error option" string string "string option"
  | BeginPairing bool instant u64 string string string string "string option" string
  | AbortPairing "string waiter option"
  | FinishPairing instant "io_error option" string string "string waiter option"

text \<open>The daemon with the link waiters handed out and the ceremonies begun so far.\<close>

record daemon_run =
  ru_daemon :: daemon
  ru_links :: "(epoch \<times> nat) set"
  ru_ceremonies :: "(string \<times> string waiter option) set"

definition on_registries :: "(registries \<Rightarrow> registries) \<Rightarrow> daemon \<Rightarrow> daemon" where
  "on_registries f d = d\<lparr>dm_registries := f (dm_registries d)\<rparr>"

fun daemon_step :: "(bytes \<Rightarrow> bytes) \<Rightarrow> daemon_op \<Rightarrow> daemon_run \<Rightarrow> daemon_run" where
  "daemon_step hash (Hello now c fp dialable h) s =
     (case hello_gate now c fp dialable h (ru_daemon s) of
        (d, Asked (key, Some n)) \<Rightarrow> s\<lparr>ru_daemon := d, ru_links := insert (key, n) (ru_links s)\<rparr>
      | (d, _) \<Rightarrow> s\<lparr>ru_daemon := d\<rparr>)"
| "daemon_step hash (GateDecided w) s = s\<lparr>ru_daemon := fst (gate_decided w (ru_daemon s))\<rparr>"
| "daemon_step hash (GateClosed fp l) s = s\<lparr>ru_daemon := gate_closed fp l (ru_daemon s)\<rparr>"
| "daemon_step hash (AnswerPairing now fp b) s = s\<lparr>ru_daemon := fst (answer_pairing now fp b (ru_daemon s))\<rparr>"
| "daemon_step hash (ApproveLink now fp l) s = s\<lparr>ru_daemon := fst (approve_link now fp l (ru_daemon s))\<rparr>"
| "daemon_step hash (RejectLink now fp l) s = s\<lparr>ru_daemon := fst (reject_link now fp l (ru_daemon s))\<rparr>"
| "daemon_step hash (Unpair io fp) s = s\<lparr>ru_daemon := fst (unpair io fp (ru_daemon s))\<rparr>"
| "daemon_step hash (DropSession fp) s = s\<lparr>ru_daemon := fst (drop_session fp (ru_daemon s))\<rparr>"
| "daemon_step hash (EndEpoch l) s = s\<lparr>ru_daemon := fst (end_link_request l (ru_daemon s))\<rparr>"
| "daemon_step hash (PeerEnded l) s = s\<lparr>ru_daemon := on_registries (peer_end_link l) (ru_daemon s)\<rparr>"
| "daemon_step hash (Disconnect fp a l) s = s\<lparr>ru_daemon := fst (disconnect_link fp a l (ru_daemon s))\<rparr>"
| "daemon_step hash (OpenLease now fp a l) s = s\<lparr>ru_daemon := fst (link_lease now fp a l (ru_daemon s))\<rparr>"
| "daemon_step hash (TouchLease now fp l lid) s =
     s\<lparr>ru_daemon := on_registries (\<lambda>g. fst (lease_touch now fp l lid g)) (ru_daemon s)\<rparr>"
| "daemon_step hash (CloseLease fp l lid) s = s\<lparr>ru_daemon := link_lease_over fp l lid (ru_daemon s)\<rparr>"
| "daemon_step hash (OpenPresence now) s =
     s\<lparr>ru_daemon := on_registries (\<lambda>g. fst (presence_begin now g)) (ru_daemon s)\<rparr>"
| "daemon_step hash (TouchPresence now pid) s =
     s\<lparr>ru_daemon := on_registries (\<lambda>g. fst (presence_touch now pid g)) (ru_daemon s)\<rparr>"
| "daemon_step hash (ClosePresence pid) s = s\<lparr>ru_daemon := presence_over pid (ru_daemon s)\<rparr>"
| "daemon_step hash (UiContact now) s = s\<lparr>ru_daemon := on_registries (note_ui_contact now) (ru_daemon s)\<rparr>"
| "daemon_step hash (SessionUp now fp name a l) s =
     s\<lparr>ru_daemon := on_registries (\<lambda>g. fst (register_inbound_link now fp name a l g)) (ru_daemon s)\<rparr>"
| "daemon_step hash (SessionDown fp sid) s =
     s\<lparr>ru_daemon := on_registries (remove_inbound_link fp sid) (ru_daemon s)\<rparr>"
| "daemon_step hash (PinPeer io name fp a) s =
     s\<lparr>ru_daemon := (ru_daemon s)\<lparr>dm_book := fst (pin_with_address io name fp a (dm_book (ru_daemon s)))\<rparr>\<rparr>"
| "daemon_step hash (BeginPairing auto now secs local_fp fp claimed name code a) s =
     (case begin_pairing hash auto now secs local_fp fp claimed name code a (ru_daemon s) of
        (d, Inl _) \<Rightarrow> s\<lparr>ru_daemon := d\<rparr>
      | (d, Inr (_, w)) \<Rightarrow> s\<lparr>ru_daemon := d, ru_ceremonies := insert (fp, w) (ru_ceremonies s)\<rparr>)"
| "daemon_step hash (AbortPairing w) s = s\<lparr>ru_daemon := abort_pairing w (ru_daemon s)\<rparr>"
| "daemon_step hash (FinishPairing now io name fp w) s =
     (if (fp, w) \<in> ru_ceremonies s
      then s\<lparr>ru_daemon := fst (finish_pairing now io name fp (w = None) w (ru_daemon s))\<rparr> else s)"

definition daemon_start :: "peer_book \<Rightarrow> u64 list \<Rightarrow> u64 list \<Rightarrow> daemon_run" where
  "daemon_start book ended peer_ended =
     \<lparr>ru_daemon = \<lparr>dm_book = book, dm_pairings = default_pairing_approvals,
        dm_links = default_link_approvals,
        dm_registries = load_ended_links ended peer_ended start_registries,
        dm_bans = (ended, peer_ended)\<rparr>, ru_links = {}, ru_ceremonies = {}\<rparr>"

section \<open>Consent\<close>

text \<open>The local user allowed this epoch of this peer.\<close>

fun allows_epoch :: "string \<Rightarrow> u64 \<Rightarrow> daemon_op \<Rightarrow> bool" where
  "allows_epoch fp epoch (ApproveLink now f l) =
     (is_fingerprint f \<and> l = Some epoch \<and> to_ascii_lowercase f = to_ascii_lowercase fp)"
| "allows_epoch fp epoch _ = False"

text \<open>The local user allowed the pairing, or the peer typed the code this machine displays, or
  the operator asked for unattended pairing.\<close>

fun allows_pairing :: "(bytes \<Rightarrow> bytes) \<Rightarrow> string \<Rightarrow> daemon_op \<Rightarrow> bool" where
  "allows_pairing hash fp (AnswerPairing now f b) = (b \<and> to_ascii_lowercase f = to_ascii_lowercase fp)"
| "allows_pairing hash fp (BeginPairing auto now secs local_fp f claimed name code a) =
     (to_ascii_lowercase f = to_ascii_lowercase fp
      \<and> (auto \<or> (case code of None \<Rightarrow> False | Some typed \<Rightarrow> station_code_valid hash local_fp typed secs)))"
| "allows_pairing hash fp _ = False"

text \<open>A ceremony with this peer was completed at this time.\<close>

fun completes_pairing :: "string \<Rightarrow> instant \<Rightarrow> daemon_op \<Rightarrow> bool" where
  "completes_pairing fp at (FinishPairing now io name f w) =
     (now = at \<and> to_ascii_lowercase f = to_ascii_lowercase fp)"
| "completes_pairing fp at _ = False"

text \<open>The local application dialed this peer with this epoch.\<close>

fun connects :: "string \<Rightarrow> u64 \<Rightarrow> daemon_op \<Rightarrow> bool" where
  "connects fp epoch (OpenLease now f a l) =
     (is_fingerprint f \<and> l = Some epoch \<and> to_ascii_lowercase f = to_ascii_lowercase fp)"
| "connects fp epoch _ = False"


section \<open>The invariant behind it\<close>

definition links_inv ::
  "epoch set \<Rightarrow> (string \<times> instant) set \<Rightarrow> (epoch \<times> nat) set \<Rightarrow> link_approvals \<Rightarrow> bool" where
  "links_inv A F issued a \<longleftrightarrow> links_ok A (a, issued) \<and> set (la_paired_at a) \<subseteq> F"

definition leases_inv :: "(string \<times> u64) set \<Rightarrow> registries \<Rightarrow> bool" where
  "leases_inv L g \<longleftrightarrow>
     (\<forall>(key, r) \<in> set (rg_leases g). \<forall>l. ol_link_id r = Some l \<longrightarrow> (ol_fingerprint_hex r, l) \<in> L)"

definition pair_waiters :: "(string \<times> string waiter option) set \<Rightarrow> (string \<times> nat) set" where
  "pair_waiters cer = {(k, c). \<exists>fp. (fp, Some (k, Some c)) \<in> cer}"

definition pairings_inv :: "string set \<Rightarrow> (string \<times> string waiter option) set \<Rightarrow> pairing_approvals \<Rightarrow> bool"
  where "pairings_inv B cer a \<longleftrightarrow> queue_ok (pair_waiters cer) B (pa_queue a)
     \<and> (\<forall>(fp, w) \<in> cer. case w of Some (k, Some c) \<Rightarrow> k = to_ascii_lowercase fp
          | _ \<Rightarrow> to_ascii_lowercase fp \<in> B)"

text \<open>The approvals of epochs\<close>

lemma links_inv_step:
  assumes "links_inv A F issued a" and "op_allows op \<subseteq> A"
    and "link_step op (a, issued) = (a2, issued2)" and "set (la_paired_at a2) \<subseteq> F"
  shows "links_inv A F issued2 a2"
  using link_machine.step_inv [of A "(a, issued)" op] assms by (simp add: links_inv_def)

lemma paired_at_kept [simp]:
  "la_paired_at (revoke_peer fp a) = la_paired_at a"
  "la_paired_at (revoke_epoch l a) = la_paired_at a"
  "la_paired_at (cancel_link fp l a) = la_paired_at a"
  "la_paired_at (fst (wait_link w a)) = la_paired_at a"
  "la_paired_at (fst (decide_link now fp l b a)) = la_paired_at a"
  "la_paired_at (fst (is_approved now fp l a)) = la_paired_at a"
  "la_paired_at (fst (register_link now request a)) = la_paired_at a"
  by (auto simp: revoke_peer_def revoke_epoch_def cancel_link_def wait_link_def decide_link_def
      is_approved_def register_link_def Let_def split: prod.splits option.splits)

lemma links_inv_paired: "links_inv A F issued a \<Longrightarrow> set (la_paired_at a) \<subseteq> F"
  by (simp add: links_inv_def)

lemma links_inv_revoke_peer [intro]: "links_inv A F issued a \<Longrightarrow> links_inv A F issued (revoke_peer fp a)"
  by (rule links_inv_step [where op = "RevokePeer fp"]) (auto dest: links_inv_paired)

lemma links_inv_revoke_epoch [intro]: "links_inv A F issued a \<Longrightarrow> links_inv A F issued (revoke_epoch l a)"
  by (rule links_inv_step [where op = "RevokeEpoch l"]) (auto dest: links_inv_paired)

lemma links_inv_cancel [intro]: "links_inv A F issued a \<Longrightarrow> links_inv A F issued (cancel_link fp l a)"
  by (rule links_inv_step [where op = "CancelLink fp l"]) (auto dest: links_inv_paired)

lemma links_inv_wait [intro]: "links_inv A F issued a \<Longrightarrow> links_inv A F issued (fst (wait_link w a))"
  by (rule links_inv_step [where op = "WaitLink w"]) (auto dest: links_inv_paired)

lemma links_inv_asked [intro]: "links_inv A F issued a \<Longrightarrow> links_inv A F issued (fst (is_approved now fp l a))"
  by (rule links_inv_step [where op = "AskApproved now fp l"]) (auto dest: links_inv_paired)

lemma links_inv_decide:
  "links_inv A F issued a \<Longrightarrow> (b \<Longrightarrow> (to_ascii_lowercase fp, l) \<in> A)
     \<Longrightarrow> links_inv A F issued (fst (decide_link now fp l b a))"
  by (rule links_inv_step [where op = "DecideLink now fp l b"]) (auto simp: op_allows_iff dest: links_inv_paired)

lemma links_inv_note_paired:
  assumes "links_inv A F issued a" and "(to_ascii_lowercase fp, now) \<in> F"
  shows "links_inv A F issued (note_paired now fp a)"
proof (rule links_inv_step [OF assms(1), of "NotePaired now fp"])
  show "set (la_paired_at (note_paired now fp a)) \<subseteq> F"
    using assms links_inv_paired [OF assms(1)]
    by (auto simp: note_paired_def dest!: set_update_cases)
qed simp_all

lemma links_inv_register:
  assumes inv: "links_inv A F issued a" and reg: "register_link now request a = (a2, r)"
  shows "links_inv A F (case r of Inr (key, Some c) \<Rightarrow> insert (key, c) issued | _ \<Rightarrow> issued) a2"
proof (rule links_inv_step [OF inv, of "RegisterLink now request"])
  show "set (la_paired_at a2) \<subseteq> F"
    using paired_at_kept(7) [of now request a] links_inv_paired [OF inv] by (simp add: reg)
qed (auto simp: reg split: sum.splits option.splits)

text \<open>The leases\<close>

lemma leases_kept [simp]:
  "rg_leases (fst (drop_inbound_link fp g)) = rg_leases g"
  "rg_leases (forget_recent_inbound fp g) = rg_leases g"
  "rg_leases (end_link l g) = rg_leases g"
  "rg_leases (peer_end_link l g) = rg_leases g"
  "rg_leases (fst (presence_begin now g)) = rg_leases g"
  "rg_leases (fst (presence_touch now pid g)) = rg_leases g"
  "rg_leases (fst (presence_end pid g)) = rg_leases g"
  "rg_leases (note_ui_contact now g) = rg_leases g"
  "rg_leases (note_inbound_seen now fp name a link_id g) = rg_leases g"
  "rg_leases (fst (register_inbound_link now fp name a link_id g)) = rg_leases g"
  "rg_leases (remove_inbound_link fp sid g) = rg_leases g"
  by (auto simp: drop_inbound_link_def forget_recent_inbound_def end_link_def peer_end_link_def
      presence_begin_def presence_touch_def presence_end_def note_ui_contact_def Let_def
      note_inbound_seen_def register_inbound_link_def remove_inbound_link_def split: option.splits)

lemma leases_kept_fold [simp]: "rg_leases (load_ended_links e p g) = rg_leases g"
proof -
  have "rg_leases (fold end_link xs g) = rg_leases g" for xs g
    by (induction xs arbitrary: g) auto
  moreover have "rg_leases (fold peer_end_link xs g) = rg_leases g" for xs g
    by (induction xs arbitrary: g) auto
  ultimately show ?thesis by (simp add: load_ended_links_def)
qed

lemma leases_inv_cong: "rg_leases g2 = rg_leases g \<Longrightarrow> leases_inv L g2 = leases_inv L g"
  by (simp add: leases_inv_def)

lemma leases_inv_subset: "leases_inv L g \<Longrightarrow> set (rg_leases g2) \<subseteq> set (rg_leases g) \<Longrightarrow> leases_inv L g2"
  by (auto simp: leases_inv_def)

lemma leases_inv_begin:
  "leases_inv L g \<Longrightarrow> (\<And>l. link_id = Some l \<Longrightarrow> (fp, l) \<in> L)
     \<Longrightarrow> leases_inv L (fst (lease_begin now fp a link_id g))"
  by (auto simp: leases_inv_def lease_begin_def Let_def dest!: set_update_cases)

lemma leases_inv_touch: "leases_inv L g \<Longrightarrow> leases_inv L (fst (lease_touch now fp link_id lid g))"
  by (auto simp: leases_inv_def lease_touch_def dest!: set_update_cases map_of_SomeD split: option.splits)

lemma leases_inv_end: "leases_inv L g \<Longrightarrow> leases_inv L (fst (lease_end fp link_id lid g))"
  by (erule leases_inv_subset)
    (auto simp: lease_end_def remove_if_def dest: set_AList_delete [THEN subsetD] split: option.splits)

lemma leases_inv_take: "leases_inv L g \<Longrightarrow> leases_inv L (fst (take_lease link_id a g))"
  by (erule leases_inv_subset)
    (auto simp: take_lease_def dest: set_AList_delete [THEN subsetD] split: option.splits)


text \<open>The pairing ceremonies\<close>

lemma pairings_inv_queue:
  "pairings_inv B cer a \<Longrightarrow> queue_ok (pair_waiters cer) B (pa_queue a2) \<Longrightarrow> pairings_inv B cer a2"
  by (simp add: pairings_inv_def)

lemma pairings_inv_ok: "pairings_inv B cer a \<Longrightarrow> queue_ok (pair_waiters cer) B (pa_queue a)"
  by (simp add: pairings_inv_def)

lemma pairings_inv_cancel: "pairings_inv B cer a \<Longrightarrow> pairings_inv B cer (cancel_pairing fp a)"
  by (rule pairings_inv_queue, assumption) (simp add: cancel_pairing_def pairings_inv_ok withdraw_ok)

lemma pairings_inv_wait: "pairings_inv B cer a \<Longrightarrow> pairings_inv B cer (fst (wait_pairing w a))"
  by (rule pairings_inv_queue, assumption)
    (auto simp: wait_pairing_def pairings_inv_ok finish_wait_eq drop_waiter_ok withdraw_ok
      split: prod.splits option.splits)

lemma pairings_inv_decide:
  assumes "pairings_inv B cer a" and "b \<Longrightarrow> to_ascii_lowercase fp \<in> B"
  shows "pairings_inv B cer (fst (decide_pairing now fp b a))"
proof (rule pairings_inv_queue [OF assms(1)])
  have "pa_queue (fst (decide_pairing now fp b a)) = fst (settle (to_ascii_lowercase fp) b (pa_queue a))"
    by (auto simp: decide_pairing_def Let_def split: prod.splits)
  then show "queue_ok (pair_waiters cer) B (pa_queue (fst (decide_pairing now fp b a)))"
    using settle_ok [OF pairings_inv_ok [OF assms(1)], of b "to_ascii_lowercase fp"] assms(2) by simp
qed

lemma pair_waiters_insert [simp]:
  "pair_waiters (insert (fp, Some (k, Some c)) cer) = insert (k, c) (pair_waiters cer)"
  "pair_waiters (insert (fp, Some (k, None)) cer) = pair_waiters cer"
  "pair_waiters (insert (fp, None) cer) = pair_waiters cer"
  by (auto simp: pair_waiters_def)

lemma pairings_inv_register:
  assumes inv: "pairings_inv B cer a" and fp: "pp_fingerprint_hex request = fp"
    and auto_fp: "auto_confirm \<Longrightarrow> to_ascii_lowercase fp \<in> B"
    and reg: "register_pairing auto_confirm now request a = (a2, r)"
  shows "pairings_inv B (case r of Inl _ \<Rightarrow> cer | Inr w \<Rightarrow> insert (fp, Some w) cer) a2"
proof (cases "auto_confirm \<or> (\<exists>e. r = Inl e)")
  case True
  then show ?thesis
    using inv auto_fp reg fp
    by (auto simp: register_pairing_def pairings_inv_def enqueue_def Let_def split: if_splits)
next
  case False
  let ?key = "to_ascii_lowercase fp"
  obtain q c where q: "enqueue ?key request (pa_queue a) = (q, c)" by fastforce
  have "queue_ok (insert (?key, c) (pair_waiters cer)) B q"
    using inv enqueue_ok [OF _ q] by (simp add: pairings_inv_def)
  with False inv reg show ?thesis
    by (auto simp: register_pairing_def pairings_inv_def Let_def q fp split: if_splits)
qed

text \<open>An approved wait belongs to a ceremony whose peer the user allowed.\<close>

lemma wait_pairing_allowed:
  assumes inv: "pairings_inv B cer a" and cer: "(fp, w) \<in> cer"
    and wait: "(case w of Some waiter \<Rightarrow> snd (wait_pairing waiter a) | None \<Rightarrow> True)"
  shows "to_ascii_lowercase fp \<in> B"
proof (cases "\<exists>k c. w = Some (k, Some c)")
  case False
  with inv cer show ?thesis
    by (force simp: pairings_inv_def split: option.splits prod.splits)
next
  case True
  then obtain k c where w: "w = Some (k, Some c)" by blast
  with wait have "qu_channels (pa_queue a) c = Decided True"
    by (simp add: wait_pairing_def finish_wait_eq)
  with inv obtain k2 where k2: "k2 \<in> B" "(k2, c) \<in> pair_waiters cer"
    by (auto simp: pairings_inv_def queue_ok_def)
  have "(k, c) \<in> pair_waiters cer" using cer by (auto simp: w pair_waiters_def)
  with k2 inv have "k2 = k" by (auto simp: pairings_inv_def dest: queue_ok_owner)
  moreover have "k = to_ascii_lowercase fp"
    using inv cer by (fastforce simp: w pairings_inv_def)
  ultimately show ?thesis using k2 by simp
qed


section \<open>Every handler keeps it\<close>

text \<open>
  What the run has shown so far: the epochs allowed, the peers whose pairing was allowed, the
  pairings completed with their times, and the epochs dialed.
\<close>

record evidence =
  ev_epochs :: "epoch set"
  ev_trusted :: "string set"
  ev_paired :: "(string \<times> instant) set"
  ev_dialed :: "(string \<times> u64) set"

definition daemon_inv ::
  "evidence \<Rightarrow> (epoch \<times> nat) set \<Rightarrow> (string \<times> string waiter option) set \<Rightarrow> daemon \<Rightarrow> bool" where
  "daemon_inv E issued cer d \<longleftrightarrow>
     links_inv (ev_epochs E) (ev_paired E \<inter> ev_trusted E \<times> UNIV) issued (dm_links d)
     \<and> leases_inv (ev_dialed E) (dm_registries d)
     \<and> pairings_inv (ev_trusted E) cer (dm_pairings d)"

lemma daemon_invD [dest]:
  assumes "daemon_inv E issued cer d"
  shows "links_inv (ev_epochs E) (ev_paired E \<inter> ev_trusted E \<times> UNIV) issued (dm_links d)"
    "leases_inv (ev_dialed E) (dm_registries d)" "pairings_inv (ev_trusted E) cer (dm_pairings d)"
  using assms by (simp_all add: daemon_inv_def)

lemma daemon_inv_registries:
  "daemon_inv E issued cer d \<Longrightarrow> leases_inv (ev_dialed E) g
     \<Longrightarrow> daemon_inv E issued cer (d\<lparr>dm_registries := g\<rparr>)"
  by (simp add: daemon_inv_def)

lemma daemon_inv_same_leases:
  "daemon_inv E issued cer d \<Longrightarrow> rg_leases g = rg_leases (dm_registries d)
     \<Longrightarrow> daemon_inv E issued cer (d\<lparr>dm_registries := g\<rparr>)"
  by (simp add: daemon_inv_def leases_inv_def)

lemma daemon_inv_links:
  "daemon_inv E issued cer d
     \<Longrightarrow> links_inv (ev_epochs E) (ev_paired E \<inter> ev_trusted E \<times> UNIV) issued2 a
     \<Longrightarrow> daemon_inv E issued2 cer (d\<lparr>dm_links := a\<rparr>)"
  by (simp add: daemon_inv_def)

lemma daemon_inv_pairings:
  "daemon_inv E issued cer d \<Longrightarrow> pairings_inv (ev_trusted E) cer2 a
     \<Longrightarrow> daemon_inv E issued cer2 (d\<lparr>dm_pairings := a\<rparr>)"
  by (simp add: daemon_inv_def)

lemma daemon_inv_rest [simp]:
  "daemon_inv E issued cer (d\<lparr>dm_book := b\<rparr>) = daemon_inv E issued cer d"
  "daemon_inv E issued cer (d\<lparr>dm_bans := bans\<rparr>) = daemon_inv E issued cer d"
  by (simp_all add: daemon_inv_def)

lemma daemon_inv_teardown:
  assumes "daemon_inv E issued cer d"
  shows "daemon_inv E issued cer (teardown_link fp0 link_id d)"
proof -
  note inv = daemon_invD [OF assms]
  show ?thesis
    unfolding daemon_inv_def
    by (intro conjI; cases fp0; cases link_id)
      (use inv in \<open>auto simp: teardown_link_def Let_def leases_inv_def\<close>)
qed

lemma daemon_inv_ui_gone:
  assumes "daemon_inv E issued cer d"
  shows "daemon_inv E issued cer (on_ui_gone d)"
proof -
  have "daemon_inv E issued cer (fold (\<lambda>(_, l). teardown_link (Some (il_fingerprint_hex l)) (il_link_id l)) ls d)"
    for ls :: "(string \<times> inbound_link) list"
    using assms by (induction ls arbitrary: d) (auto intro: daemon_inv_teardown)
  then show ?thesis by (simp add: on_ui_gone_def)
qed

lemma daemon_inv_hello:
  assumes inv: "daemon_inv E issued cer d" and gate: "hello_gate now c fp dialable h d = (d2, g)"
  shows "daemon_inv E (case g of Asked (key, Some n) \<Rightarrow> insert (key, n) issued | _ \<Rightarrow> issued) cer d2"
proof (cases "he_link_id h")
  case None
  with gate inv show ?thesis by (auto simp: hello_gate_def split: if_splits)
next
  case (Some epoch)
  let ?request = "\<lparr>pl_node_name = he_node_name h, pl_fingerprint_hex = fp, pl_address = dialable,
      pl_link_id = Some epoch\<rparr>"
  obtain links approved where ask: "is_approved now fp epoch (dm_links d) = (links, approved)" by fastforce
  obtain links2 r where reg: "register_link now ?request links = (links2, r)" by fastforce
  have "links_inv (ev_epochs E) (ev_paired E \<inter> ev_trusted E \<times> UNIV) issued links"
    using links_inv_asked [OF daemon_invD(1) [OF inv], of now fp epoch] by (simp add: ask)
  note asked = daemon_inv_links [OF inv this] daemon_inv_links [OF inv links_inv_register [OF this reg]]
  show ?thesis
    using gate inv asked
    by (cases r) (auto simp: hello_gate_def Some ask reg Let_def split: if_splits option.splits)
qed

lemma daemon_inv_gate_decided:
  "daemon_inv E issued cer d \<Longrightarrow> daemon_inv E issued cer (fst (gate_decided w d))"
  using links_inv_wait [OF daemon_invD(1), of E issued cer d w]
  by (auto simp: gate_decided_def split: prod.splits intro: daemon_inv_links)

lemma daemon_inv_gate_closed: "daemon_inv E issued cer d \<Longrightarrow> daemon_inv E issued cer (gate_closed fp l d)"
  unfolding gate_closed_def by (blast intro: daemon_inv_links)

lemma daemon_inv_answer_pairing:
  assumes inv: "daemon_inv E issued cer d" and b: "b \<Longrightarrow> to_ascii_lowercase fp \<in> ev_trusted E"
  shows "daemon_inv E issued cer (fst (answer_pairing now fp b d))"
  using inv daemon_inv_pairings [OF inv pairings_inv_decide [OF daemon_invD(3) [OF inv], of b "to_ascii_lowercase fp" now]] b
  by (auto simp: answer_pairing_def Let_def split: prod.splits)

lemma daemon_inv_answer_link:
  assumes inv: "daemon_inv E issued cer d"
    and b: "\<And>l. is_fingerprint fp \<Longrightarrow> link_id = Some l \<Longrightarrow> (to_ascii_lowercase fp, l) \<in> ev_epochs E"
  shows "daemon_inv E issued cer (fst (approve_link now fp link_id d))"
proof (cases link_id)
  case None
  with inv show ?thesis by (simp add: approve_link_def)
next
  case (Some l)
  then show ?thesis
    using inv daemon_inv_links [OF inv links_inv_decide [OF daemon_invD(1) [OF inv],
        of True "to_ascii_lowercase fp" l now]] b
    by (auto simp: approve_link_def Let_def split: prod.splits option.splits)
qed

lemma daemon_inv_reject_link:
  assumes inv: "daemon_inv E issued cer d"
  shows "daemon_inv E issued cer (fst (reject_link now fp link_id d))"
proof (cases link_id)
  case None
  with inv show ?thesis by (simp add: reject_link_def)
next
  case (Some l)
  then show ?thesis
    using inv daemon_inv_links [OF inv links_inv_decide [OF daemon_invD(1) [OF inv],
        of False "to_ascii_lowercase fp" l now]]
    by (auto simp: reject_link_def Let_def split: prod.splits)
qed

lemma daemon_inv_unpair:
  assumes inv: "daemon_inv E issued cer d"
  shows "daemon_inv E issued cer (fst (unpair io fp d))"
  using inv daemon_inv_links [OF inv links_inv_revoke_peer [OF daemon_invD(1) [OF inv]]]
  by (auto simp: unpair_def Let_def daemon_inv_def split: prod.splits sum.splits bool.splits)

lemma daemon_inv_drop_session:
  assumes inv: "daemon_inv E issued cer d"
  shows "daemon_inv E issued cer (fst (drop_session fp d))"
proof -
  have "daemon_inv E issued cer (d\<lparr>dm_registries := fst (drop_inbound_link (to_ascii_lowercase fp) (dm_registries d))\<rparr>)"
    by (rule daemon_inv_same_leases [OF inv]) simp
  note dropped = this daemon_inv_links [OF this links_inv_revoke_peer [OF daemon_invD(1) [OF inv]]]
  show ?thesis
    using inv dropped
    by (auto simp: drop_session_def Let_def split: prod.splits)
qed

lemma daemon_inv_end_link:
  "daemon_inv E issued cer d \<Longrightarrow> daemon_inv E issued cer (fst (end_link_request l d))"
  by (auto simp: end_link_request_def Let_def daemon_inv_def leases_inv_def)

lemma daemon_inv_disconnect:
  assumes inv: "daemon_inv E issued cer d"
  shows "daemon_inv E issued cer (fst (disconnect_link fp a link_id d))"
proof -
  have "daemon_inv E issued cer (d\<lparr>dm_registries := fst (take_lease link_id a (dm_registries d))\<rparr>)"
    by (rule daemon_inv_registries [OF inv leases_inv_take [OF daemon_invD(2) [OF inv]]])
  then show ?thesis
    by (auto simp: disconnect_link_def Let_def daemon_inv_teardown split: prod.splits)
qed

lemma daemon_inv_lease:
  assumes inv: "daemon_inv E issued cer d"
    and b: "\<And>l. is_fingerprint fp \<Longrightarrow> link_id = Some l \<Longrightarrow> (to_ascii_lowercase fp, l) \<in> ev_dialed E"
  shows "daemon_inv E issued cer (fst (link_lease now fp a link_id d))"
  using inv daemon_inv_registries [OF inv leases_inv_begin [OF daemon_invD(2) [OF inv],
      of link_id "to_ascii_lowercase fp" now a]] b
  by (auto simp: link_lease_def Let_def split: prod.splits)

lemma daemon_inv_lease_over:
  assumes inv: "daemon_inv E issued cer d"
  shows "daemon_inv E issued cer (link_lease_over fp link_id lid d)"
proof -
  have "daemon_inv E issued cer (d\<lparr>dm_registries := fst (lease_end (to_ascii_lowercase fp) link_id lid (dm_registries d))\<rparr>)"
    by (rule daemon_inv_registries [OF inv leases_inv_end [OF daemon_invD(2) [OF inv]]])
  then show ?thesis
    by (auto simp: link_lease_over_def Let_def daemon_inv_teardown split: prod.splits option.splits)
qed

lemma daemon_inv_presence_over:
  assumes inv: "daemon_inv E issued cer d"
  shows "daemon_inv E issued cer (presence_over pid d)"
proof -
  have "daemon_inv E issued cer (d\<lparr>dm_registries := fst (presence_end pid (dm_registries d))\<rparr>)"
    by (rule daemon_inv_same_leases [OF inv]) simp
  then show ?thesis
    by (auto simp: presence_over_def Let_def daemon_inv_ui_gone split: prod.splits)
qed


lemma daemon_inv_begin_pairing:
  assumes inv: "daemon_inv E issued cer d"
    and trusted: "allows_pairing hash fp (BeginPairing auto now secs local_fp fp claimed name code a)
      \<Longrightarrow> to_ascii_lowercase fp \<in> ev_trusted E"
    and begun: "begin_pairing hash auto now secs local_fp fp claimed name code a d = (d2, r)"
  shows "daemon_inv E issued (case r of Inl _ \<Rightarrow> cer | Inr (_, w) \<Rightarrow> insert (fp, w) cer) d2"
proof -
  let ?request = "\<lparr>pp_node_name = name, pp_fingerprint_hex = fp, pp_address = a,
      pp_verification_code = verification_code hash local_fp fp\<rparr>"
  let ?typed = "case code of None \<Rightarrow> False | Some typed \<Rightarrow> station_code_valid hash local_fp typed secs"
  obtain pairings q where reg: "register_pairing auto now ?request (dm_pairings d) = (pairings, q)"
    by fastforce
  consider "claimed \<noteq> fp" | "claimed = fp" ?typed | "claimed = fp" "\<not> ?typed" by blast
  then show ?thesis
  proof cases
    case 1
    with begun inv show ?thesis by (auto simp: begin_pairing_def)
  next
    case 2
    moreover from 2 trusted have "to_ascii_lowercase fp \<in> ev_trusted E" by simp
    ultimately show ?thesis
      using begun inv by (auto simp: begin_pairing_def daemon_inv_def pairings_inv_def)
  next
    case 3
    have "pairings_inv (ev_trusted E) (case q of Inl _ \<Rightarrow> cer | Inr w \<Rightarrow> insert (fp, Some w) cer) pairings"
      by (rule pairings_inv_register [OF daemon_invD(3) [OF inv] _ _ reg]) (use trusted in auto)
    from daemon_inv_pairings [OF inv this] 3 begun show ?thesis
      by (auto simp: begin_pairing_def reg Let_def split: sum.splits)
  qed
qed

lemma daemon_inv_abort_pairing:
  "daemon_inv E issued cer d \<Longrightarrow> daemon_inv E issued cer (abort_pairing w d)"
  by (auto simp: abort_pairing_def split: option.splits prod.splits
      intro!: daemon_inv_pairings pairings_inv_cancel)

lemma daemon_inv_finish_pairing:
  assumes inv: "daemon_inv E issued cer d" and cer: "(fp, w) \<in> cer"
    and paired: "(to_ascii_lowercase fp, now) \<in> ev_paired E"
  shows "daemon_inv E issued cer (fst (finish_pairing now io name fp (w = None) w d))"
proof -
  let ?decision = "case w of Some waiter \<Rightarrow> wait_pairing waiter (dm_pairings d)
    | None \<Rightarrow> (dm_pairings d, w = None)"
  obtain pairings approved where wait: "?decision = (pairings, approved)" by fastforce
  have "pairings_inv (ev_trusted E) cer pairings"
    using pairings_inv_wait [OF daemon_invD(3) [OF inv]] daemon_invD(3) [OF inv] wait
    by (cases w) (auto, metis fst_conv)
  note d1 = daemon_inv_pairings [OF inv this]
  have "to_ascii_lowercase fp \<in> ev_trusted E" if approved
    using that wait by (intro wait_pairing_allowed [OF daemon_invD(3) [OF inv] cer]) (auto split: option.splits)
  then have "daemon_inv E issued cer (d\<lparr>dm_pairings := pairings, dm_links := note_paired now fp (dm_links d)\<rparr>)"
    if approved
    using that paired by (intro daemon_inv_links [OF d1] links_inv_note_paired) (use inv in auto)
  with d1 show ?thesis
    using wait by (auto simp: finish_pairing_def Let_def daemon_inv_def split: sum.splits prod.splits)
qed

text \<open>What one call may add to the evidence.\<close>

fun supports :: "(bytes \<Rightarrow> bytes) \<Rightarrow> evidence \<Rightarrow> daemon_op \<Rightarrow> bool" where
  "supports hash E (AnswerPairing now fp b) = (b \<longrightarrow> to_ascii_lowercase fp \<in> ev_trusted E)"
| "supports hash E (ApproveLink now fp l) =
     (\<forall>e. is_fingerprint fp \<longrightarrow> l = Some e \<longrightarrow> (to_ascii_lowercase fp, e) \<in> ev_epochs E)"
| "supports hash E (OpenLease now fp a l) =
     (\<forall>e. is_fingerprint fp \<longrightarrow> l = Some e \<longrightarrow> (to_ascii_lowercase fp, e) \<in> ev_dialed E)"
| "supports hash E (BeginPairing auto now secs local_fp fp claimed name code a) =
     (allows_pairing hash fp (BeginPairing auto now secs local_fp fp claimed name code a)
       \<longrightarrow> to_ascii_lowercase fp \<in> ev_trusted E)"
| "supports hash E (FinishPairing now io name fp w) = ((to_ascii_lowercase fp, now) \<in> ev_paired E)"
| "supports hash E _ = True"

definition consent_inv :: "evidence \<Rightarrow> daemon_run \<Rightarrow> bool" where
  "consent_inv E s \<longleftrightarrow> daemon_inv E (ru_links s) (ru_ceremonies s) (ru_daemon s)"

interpretation daemon_machine: event_machine "daemon_step hash" "consent_inv E" "supports hash E"
  for hash E
proof
  fix s :: daemon_run and op :: daemon_op
  assume inv: "consent_inv E s" and ok: "supports hash E op"
  note d = inv [unfolded consent_inv_def]
  show "consent_inv E (daemon_step hash op s)"
  proof (cases op)
    case (Hello now c fp dialable h)
    obtain d2 g where gate: "hello_gate now c fp dialable h (ru_daemon s) = (d2, g)" by fastforce
    show ?thesis
      using daemon_inv_hello [OF d gate]
      by (auto simp: Hello gate consent_inv_def split: gate.splits option.splits prod.splits)
  next
    case (BeginPairing auto now secs local_fp fp claimed name code a)
    obtain d2 r where begun:
      "begin_pairing hash auto now secs local_fp fp claimed name code a (ru_daemon s) = (d2, r)"
      by fastforce
    show ?thesis
      using daemon_inv_begin_pairing [OF d _ begun] ok
      by (auto simp: BeginPairing begun consent_inv_def split: sum.splits prod.splits)
  qed (use d ok in \<open>simp_all add: consent_inv_def on_registries_def daemon_inv_gate_decided
      daemon_inv_gate_closed daemon_inv_answer_pairing daemon_inv_answer_link daemon_inv_reject_link
      daemon_inv_unpair daemon_inv_drop_session daemon_inv_end_link daemon_inv_disconnect daemon_inv_lease
      daemon_inv_lease_over daemon_inv_presence_over daemon_inv_same_leases daemon_inv_abort_pairing
      daemon_inv_finish_pairing daemon_inv_registries leases_inv_touch daemon_invD(2)\<close>)
qed


section \<open>A laptop and this machine\<close>

definition laptop_fp :: string where "laptop_fp = replicate 64 (CHR ''a'')"

definition laptop_book :: peer_book where
  "laptop_book = \<lparr>pb_peers = [\<lparr>pr_name = ''laptop'', pr_fingerprint_hex = laptop_fp, pr_address = None\<rparr>],
     pb_file = None\<rparr>"

definition laptop_hello :: hello where
  "laptop_hello = \<lparr>he_node_name = ''laptop'', he_mode = Bidirectional, he_lock_screen_requested = False,
     he_clipboard_enabled = False, he_screen_geometry = None, he_smooth_scroll = False,
     he_pinch_zoom = False, he_motion_lane = False, he_link_id = Some 7, he_udp_motion = False\<rparr>"

definition desk_config :: config where "desk_config = default_config (Some ''desk'')"

lemma laptop_facts [simp]:
  "to_ascii_lowercase laptop_fp = laptop_fp" "trim laptop_fp = laptop_fp" "is_fingerprint laptop_fp"
  "is_pinned laptop_fp laptop_book" "he_link_id laptop_hello = Some 7" "he_mode laptop_hello = Bidirectional"
  "cfg_mode desk_config = Bidirectional"
proof -
  show hex: "is_fingerprint laptop_fp"
    by (simp add: is_fingerprint_def laptop_fp_def is_ascii_hexdigit_def list_all_length)
  then show trim: "trim laptop_fp = laptop_fp"
    by (simp add: is_fingerprint_def trim_hexdigits)
  show low: "to_ascii_lowercase laptop_fp = laptop_fp"
    by (simp add: to_ascii_lowercase_def laptop_fp_def ascii_lower_def)
  show "is_pinned laptop_fp laptop_book"
    by (simp add: is_pinned_def laptop_book_def trim low)
qed (simp_all add: laptop_hello_def desk_config_def default_config_def)

lemma present_after_begin [simp]:
  "now - t < from_secs 12 \<Longrightarrow> ui_present now (fst (presence_begin t g))"
  by (simp add: ui_present_def presence_begin_def presence_fresh_def PRESENCE_TTL_def elapsed_def)

section \<open>What the calls have shown\<close>

definition evidence_of :: "(bytes \<Rightarrow> bytes) \<Rightarrow> daemon_op list \<Rightarrow> evidence" where
  "evidence_of hash ops = \<lparr>ev_epochs = {(fp, l). list_ex (allows_epoch fp l) ops},
     ev_trusted = {fp. list_ex (allows_pairing hash fp) ops},
     ev_paired = {(fp, t). list_ex (completes_pairing fp t) ops},
     ev_dialed = {(fp, l). list_ex (connects fp l) ops}\<rparr>"

lemma evidence_lower [simp]:
  "allows_epoch (to_ascii_lowercase fp) l = allows_epoch fp l"
  "allows_pairing hash (to_ascii_lowercase fp) = allows_pairing hash fp"
  "completes_pairing (to_ascii_lowercase fp) t = completes_pairing fp t"
  "connects (to_ascii_lowercase fp) l = connects fp l"
  by (rule ext, case_tac x; simp)+

lemma evidence_supports:
  assumes "op \<in> set ops"
  shows "supports hash (evidence_of hash ops) op"
proof -
  have ex: "list_ex P ops" if "P op" for P
    using assms that by (auto simp: list_ex_iff)
  show ?thesis
  proof (cases op)
    case (AnswerPairing now fp b)
    with ex [of "allows_pairing hash fp"] show ?thesis by (simp add: evidence_of_def)
  next
    case (ApproveLink now fp l)
    with ex [of "allows_epoch fp (the l)"] show ?thesis by (auto simp: evidence_of_def)
  next
    case (OpenLease now fp a l)
    with ex [of "connects fp (the l)"] show ?thesis by (auto simp: evidence_of_def)
  next
    case (BeginPairing auto now secs local_fp fp claimed name code a)
    with ex [of "allows_pairing hash fp"] show ?thesis by (simp add: evidence_of_def)
  next
    case (FinishPairing now io name fp w)
    with ex [of "completes_pairing fp now"] show ?thesis by (simp add: evidence_of_def)
  qed simp_all
qed

lemma start_inv: "consent_inv E (daemon_start book ended peer_ended)"
  by (simp add: consent_inv_def daemon_start_def daemon_inv_def links_inv_def links_ok_def queue_ok_def
      default_link_approvals_def empty_queue_def leases_inv_def start_registries_def pairings_inv_def
      default_pairing_approvals_def pair_waiters_def)

lemma run_consent:
  "consent_inv (evidence_of hash ops) (fold (daemon_step hash) ops (daemon_start book ended peer_ended))"
  by (rule daemon_machine.run_inv [OF start_inv]) (simp add: list_all_iff evidence_supports)

text \<open>What the gate has checked when it lets a link through.\<close>

lemma hello_gate_Passed:
  assumes "snd (hello_gate now c fp dialable h d) = Passed" and "he_link_id h = Some epoch"
  shows "is_pinned fp (dm_book d)" "\<not> link_ended epoch (dm_registries d)"
    "mode_allows_incoming (cfg_mode c)" "mode_allows_outgoing (he_mode h)"
    "ui_present now (dm_registries d)"
    "snd (is_approved now fp epoch (dm_links d)) \<or> recently_paired now fp (dm_links d)
      \<or> outbound_epoch_live fp epoch (dm_registries d)"
proof -
  have "recently_paired now fp (fst (is_approved now fp epoch (dm_links d))) = recently_paired now fp (dm_links d)"
    by (simp add: recently_paired_def)
  then show "is_pinned fp (dm_book d)" "\<not> link_ended epoch (dm_registries d)"
    "mode_allows_incoming (cfg_mode c)" "mode_allows_outgoing (he_mode h)"
    "ui_present now (dm_registries d)"
    "snd (is_approved now fp epoch (dm_links d)) \<or> recently_paired now fp (dm_links d)
      \<or> outbound_epoch_live fp epoch (dm_registries d)"
    using assms unfolding hello_gate_def
    by (auto simp del: mode_allows_incoming.simps mode_allows_outgoing.simps
        simp: Let_def split: if_splits prod.splits sum.splits)
qed

section \<open>Where an approval comes from\<close>

lemma fold_first:
  assumes "P (fold step ops s)" "\<not> P s"
  shows "\<exists>a op b. ops = a @ op # b \<and> \<not> P (fold step a s) \<and> P (step op (fold step a s))"
  using assms
proof (induction ops rule: rev_induct)
  case (snoc op ops)
  show ?case
  proof (cases "P (fold step ops s)")
    case True
    with snoc obtain a op' b where "ops = a @ op' # b" "\<not> P (fold step a s)" "P (step op' (fold step a s))" by blast
    then show ?thesis by (intro exI [of _ a] exI [of _ op'] exI [of _ "b @ [op]"]) simp
  next
    case False
    with snoc.prems(1) show ?thesis by (intro exI [of _ ops] exI [of _ op] exI [of _ "[]"]) simp
  qed
qed simp

lemma on_ui_gone_induct:
  assumes "P d" "\<And>d f l. P d \<Longrightarrow> P (teardown_link f l d)"
  shows "P (on_ui_gone d)"
proof -
  have "P (fold (\<lambda>(_, l). teardown_link (Some (il_fingerprint_hex l)) (il_link_id l)) ls d)"
    for ls :: "(string \<times> inbound_link) list"
    using assms(1) by (induction ls arbitrary: d) (auto intro: assms(2))
  then show ?thesis by (simp add: on_ui_gone_def)
qed

text \<open>Hanging up lets nobody in: it notes no pairing, allows no epoch and leaves the ceremonies alone.\<close>

definition no_gain :: "daemon \<Rightarrow> daemon \<Rightarrow> bool" where
  "no_gain d d2 \<longleftrightarrow> set (la_paired_at (dm_links d2)) \<subseteq> set (la_paired_at (dm_links d))
     \<and> set (la_approved (dm_links d2)) \<subseteq> set (la_approved (dm_links d)) \<and> dm_pairings d2 = dm_pairings d"

lemma no_gain_refl [simp]: "no_gain d d"
  by (simp add: no_gain_def)

lemma no_gain_trans: "no_gain d d1 \<Longrightarrow> no_gain d1 d2 \<Longrightarrow> no_gain d d2"
  by (auto simp: no_gain_def)

lemma no_gain_registries [simp]:
  "no_gain d (d2\<lparr>dm_registries := g\<rparr>) = no_gain d d2" "no_gain (d\<lparr>dm_registries := g\<rparr>) d2 = no_gain d d2"
  "no_gain d (d2\<lparr>dm_book := b\<rparr>) = no_gain d d2" "no_gain d (d2\<lparr>dm_bans := n\<rparr>) = no_gain d d2"
  by (simp_all add: no_gain_def)

lemma no_gain_links:
  "set (la_paired_at a) \<subseteq> set (la_paired_at (dm_links d)) \<Longrightarrow> set (la_approved a) \<subseteq> set (la_approved (dm_links d))
     \<Longrightarrow> no_gain d (d\<lparr>dm_links := a\<rparr>)"
  by (simp add: no_gain_def)

lemma prune_approved_subset: "set (prune_approved now approved) \<subseteq> set approved"
  by (auto simp: prune_approved_def Let_def)

lemma approved_shrinks [simp]:
  "set (la_approved (revoke_peer fp a)) \<subseteq> set (la_approved a)"
  "set (la_approved (revoke_epoch l a)) \<subseteq> set (la_approved a)"
  "la_approved (cancel_link fp l a) = la_approved a" "la_approved (fst (wait_link w a)) = la_approved a"
  "set (la_approved (fst (is_approved now fp l a))) \<subseteq> set (la_approved a)"
  "la_approved (fst (register_link now request a)) = la_approved a"
  "la_approved (fst (decide_link now fp l False a)) = la_approved a"
  using prune_approved_subset
  by (auto simp: revoke_peer_def revoke_epoch_def cancel_link_def wait_link_def
      is_approved_def register_link_def decide_link_def Let_def split: prod.splits option.splits)

lemma no_gain_teardown: "no_gain d (teardown_link f l d)"
  using approved_shrinks(1) [of "to_ascii_lowercase _" "dm_links d"] approved_shrinks(2)
  by (cases f; cases l) (auto simp: teardown_link_def Let_def no_gain_def dest!: subsetD [OF approved_shrinks(1)]
      subsetD [OF approved_shrinks(2)])

lemma no_gain_ui_gone: "no_gain d (on_ui_gone d)"
  by (rule on_ui_gone_induct [where P = "no_gain d"]) (auto intro: no_gain_trans no_gain_teardown)

text \<open>A pairing is noted by a ceremony that succeeds, and by nothing else.\<close>

lemma paired_note:
  "x \<in> set (la_paired_at (note_paired now fp a)) \<Longrightarrow> x = (to_ascii_lowercase fp, now) \<or> x \<in> set (la_paired_at a)"
  by (auto simp: note_paired_def dest!: set_update_cases)

lemma approved_decided:
  assumes "x \<in> set (la_approved (fst (decide_link now fp l True a)))" "x \<notin> set (la_approved a)"
  shows "x = ((to_ascii_lowercase fp, l), now) \<and> snd (decide_link now fp l True a)"
  using assms prune_approved_subset
  by (fastforce simp: decide_link_def Let_def dest!: set_update_cases split: prod.splits if_splits)

lemma hello_gain: "no_gain d (fst (hello_gate now c fp dialable h d))"
proof (cases "he_link_id h")
  case None
  then show ?thesis by (auto simp: hello_gate_def)
next
  case (Some epoch)
  let ?request = "\<lparr>pl_node_name = he_node_name h, pl_fingerprint_hex = fp, pl_address = dialable, pl_link_id = Some epoch\<rparr>"
  obtain links approved where ask: "is_approved now fp epoch (dm_links d) = (links, approved)" by fastforce
  obtain links2 r where reg: "register_link now ?request links = (links2, r)" by fastforce
  have "set (la_approved links) \<subseteq> set (la_approved (dm_links d))" "la_paired_at links = la_paired_at (dm_links d)"
    using approved_shrinks(5) [of now fp epoch "dm_links d"] paired_at_kept(6) [of now fp epoch "dm_links d"] by (simp_all add: ask)
  moreover have "la_approved links2 = la_approved links" "la_paired_at links2 = la_paired_at links"
    using approved_shrinks(6) [of now ?request links] paired_at_kept(7) [of now ?request links] by (simp_all add: reg)
  ultimately show ?thesis
    by (cases r) (auto simp: hello_gate_def Some ask reg Let_def no_gain_def)
qed

lemma other_gains:
  "no_gain d (fst (gate_decided w d))" "no_gain d (gate_closed fp l d)" "no_gain d (fst (reject_link now fp m d))"
  "no_gain d (fst (unpair io fp d))" "no_gain d (fst (drop_session fp d))" "no_gain d (fst (end_link_request l d))"
  "no_gain d (fst (disconnect_link f a m d))" "no_gain d (fst (link_lease now fp b m d))"
  "no_gain d (link_lease_over fp m lid d)" "no_gain d (presence_over pid d)" "no_gain d (on_registries h d)"
proof -
  have ended: "no_gain (d\<lparr>dm_registries := g\<rparr>) (teardown_link f l (d\<lparr>dm_registries := g\<rparr>))" for g f l
    by (rule no_gain_teardown)
  have gone: "no_gain (d\<lparr>dm_registries := g\<rparr>) (on_ui_gone (d\<lparr>dm_registries := g\<rparr>))" for g
    by (rule no_gain_ui_gone)
  show "no_gain d (fst (gate_decided w d))" "no_gain d (gate_closed fp l d)" "no_gain d (on_registries h d)"
    by (auto simp: gate_decided_def gate_closed_def on_registries_def Let_def case_prod_beta intro!: no_gain_links)
  show "no_gain d (fst (end_link_request l d))"
    by (auto simp: end_link_request_def Let_def no_gain_def dest!: subsetD [OF approved_shrinks(2)])
  show "no_gain d (fst (reject_link now fp m d))"
    by (auto simp: reject_link_def Let_def case_prod_beta intro!: no_gain_links split: option.split)
  show "no_gain d (fst (unpair io fp d))"
    by (auto simp: unpair_def Let_def no_gain_def dest!: subsetD [OF approved_shrinks(1)]
        split: prod.splits sum.splits bool.splits)
  show "no_gain d (fst (drop_session fp d))"
    by (auto simp: drop_session_def Let_def no_gain_def case_prod_beta dest!: subsetD [OF approved_shrinks(1)])
  show "no_gain d (fst (disconnect_link f a m d))"
    using ended by (auto simp: disconnect_link_def Let_def case_prod_beta)
  show "no_gain d (fst (link_lease now fp b m d))"
    by (auto simp: link_lease_def Let_def case_prod_beta)
  show "no_gain d (link_lease_over fp m lid d)"
    using ended by (auto simp: link_lease_over_def Let_def case_prod_beta split: option.split)
  show "no_gain d (presence_over pid d)"
    using gone by (auto simp: presence_over_def Let_def case_prod_beta)
qed

lemma pairing_links:
  "dm_links (fst (answer_pairing now fp b d)) = dm_links d" "dm_links (abort_pairing w d) = dm_links d"
  "dm_links (fst (begin_pairing hash auto now secs local_fp fp claimed name code a d)) = dm_links d"
  by (auto simp: answer_pairing_def abort_pairing_def begin_pairing_def Let_def case_prod_beta split: option.split sum.split)

lemma run_fields [simp]:
  "ru_daemon (daemon_step hash (Hello now c fp dialable h) s) = fst (hello_gate now c fp dialable h (ru_daemon s))"
  "ru_daemon (daemon_step hash (BeginPairing auto now secs local_fp fp claimed name code a) s)
     = fst (begin_pairing hash auto now secs local_fp fp claimed name code a (ru_daemon s))"
  by (auto split: prod.splits sum.splits gate.splits option.splits)

lemma finish_gain:
  "x \<in> set (la_paired_at (dm_links (fst (finish_pairing now io name fp typed w d)))) \<Longrightarrow> x \<notin> set (la_paired_at (dm_links d))
     \<Longrightarrow> x = (to_ascii_lowercase fp, now) \<and> snd (finish_pairing now io name fp typed w d) = Inr ()"
  "la_approved (dm_links (fst (finish_pairing now io name fp typed w d))) = la_approved (dm_links d)"
  using paired_note [of x now fp "dm_links d"]
  by (auto simp: finish_pairing_def Let_def case_prod_beta split: sum.splits if_splits) (simp add: note_paired_def)+

lemma paired_at_step:
  assumes "x \<in> set (la_paired_at (dm_links (ru_daemon (daemon_step hash op s))))"
    and "x \<notin> set (la_paired_at (dm_links (ru_daemon s)))"
  shows "\<exists>t io name f w. op = FinishPairing t io name f w \<and> (f, w) \<in> ru_ceremonies s
    \<and> snd (finish_pairing t io name f (w = None) w (ru_daemon s)) = Inr () \<and> x = (to_ascii_lowercase f, t)"
proof (cases "\<exists>t io name f w. op = FinishPairing t io name f w")
  case True
  then obtain t io name f w where op: "op = FinishPairing t io name f w" by blast
  have cer: "(f, w) \<in> ru_ceremonies s" using assms op by (simp split: if_splits)
  with assms op have "x \<in> set (la_paired_at (dm_links (fst (finish_pairing t io name f (w = None) w (ru_daemon s)))))" by simp
  from finish_gain(1) [OF this assms(2)] op cer show ?thesis by blast
next
  case other: False
  have none: False if "no_gain (ru_daemon s) (ru_daemon (daemon_step hash op s))"
    using that assms by (auto simp: no_gain_def)
  show ?thesis
  proof (cases op)
    case (ApproveLink now fp l)
    have "la_paired_at (dm_links (fst (approve_link now fp l d))) = la_paired_at (dm_links d)" for d
      by (auto simp: approve_link_def Let_def case_prod_beta split: option.split)
    with assms ApproveLink show ?thesis by simp
  next
    case (FinishPairing t io name f w)
    with other show ?thesis by blast
  qed (use none assms in \<open>simp_all add: hello_gain other_gains pairing_links del: daemon_step.simps(1,22)\<close>)
qed

lemma approved_step:
  assumes "x \<in> set (la_approved (dm_links (ru_daemon (daemon_step hash op s))))"
    and "x \<notin> set (la_approved (dm_links (ru_daemon s)))"
  shows "\<exists>t f l. op = ApproveLink t f (Some l) \<and> x = ((to_ascii_lowercase f, l), t)
    \<and> snd (approve_link t f (Some l) (ru_daemon s)) = LinkApproved (to_ascii_lowercase f) (Some l)"
proof (cases "\<exists>t f l. op = ApproveLink t f (Some l)")
  case True
  then obtain t f l where op: "op = ApproveLink t f (Some l)" by blast
  obtain links found where dec: "decide_link t (to_ascii_lowercase f) l True (dm_links (ru_daemon s)) = (links, found)" by fastforce
  have "x = ((to_ascii_lowercase f, l), t) \<and> found" if "x \<in> set (la_approved links)"
    using approved_decided [of x t "to_ascii_lowercase f" l "dm_links (ru_daemon s)"] that assms(2) by (simp add: dec)
  with assms op dec show ?thesis
    by (auto simp: approve_link_def Let_def split: if_splits option.splits)
next
  case other: False
  have none: False if "no_gain (ru_daemon s) (ru_daemon (daemon_step hash op s))"
    using that assms by (auto simp: no_gain_def)
  show ?thesis
  proof (cases op)
    case (ApproveLink now fp l)
    with other have "l = None" by (cases l) simp_all
    with assms ApproveLink show ?thesis by (simp add: approve_link_def split: if_splits)
  next
    case (FinishPairing t io name f w)
    with assms show ?thesis by (simp add: finish_gain(2) split: if_splits)
  qed (use none assms in \<open>simp_all add: hello_gain other_gains pairing_links del: daemon_step.simps(1,22)\<close>)
qed

text \<open>
  A step that allows the ceremony \<open>w\<close> with the peer \<open>f\<close>: the user's answer finds the request
  of this very ceremony and lets it through; or the ceremony begins with the code read off this
  screen, or in a run the operator asked to confirm by itself.
\<close>

definition pair_queue :: "daemon_run \<Rightarrow> (string, pending_pairing) queue" where
  "pair_queue s = pa_queue (dm_pairings (ru_daemon s))"

fun allows_ceremony ::
  "(bytes \<Rightarrow> bytes) \<Rightarrow> string \<Rightarrow> string waiter option \<Rightarrow> daemon_op \<Rightarrow> daemon_run \<Rightarrow> bool" where
  "allows_ceremony hash f w (AnswerPairing now g b) s =
     (b \<and> to_ascii_lowercase g = to_ascii_lowercase f \<and> (f, w) \<in> ru_ceremonies s
      \<and> (case (w, map_of (qu_pending (pair_queue s)) (to_ascii_lowercase g)) of
           (Some (_, Some c), Some (_, listed)) \<Rightarrow> listed = c | _ \<Rightarrow> False)
      \<and> snd (answer_pairing now g b (ru_daemon s)) = PairingApproved (to_ascii_lowercase g))"
| "allows_ceremony hash f w (BeginPairing auto now secs local_fp g claimed name code a) s =
     (g = f \<and> claimed = f
      \<and> (case w of
           None \<Rightarrow> (case code of None \<Rightarrow> False | Some typed \<Rightarrow> station_code_valid hash local_fp typed secs)
         | Some (_, None) \<Rightarrow> auto
         | _ \<Rightarrow> False))"
| "allows_ceremony hash f w _ s = False"

lemma settle_channel:
  assumes "qu_channels (fst (settle key b q)) c = Decided True" "qu_channels q c \<noteq> Decided True"
  shows "b \<and> snd (settle key b q) \<and> (\<exists>request. map_of (qu_pending q) key = Some (request, c))"
  using assms by (auto simp: settle_def Let_def split: option.splits if_splits)

lemma quiet_channels:
  "qu_channels (withdraw key q) c = Decided True \<Longrightarrow> qu_channels q c = Decided True"
  "qu_channels (fst (finish_wait key n q)) c = Decided True \<Longrightarrow> qu_channels q c = Decided True"
  "qu_channels (fst (enqueue key request q)) c = Decided True \<Longrightarrow> qu_channels q c = Decided True"
  by (auto simp: withdraw_def finish_wait_def enqueue_def drop_sender_def Let_def split: option.splits if_splits)

lemma pairing_channels:
  "qu_channels (pa_queue (cancel_pairing fp a)) c = Decided True \<Longrightarrow> qu_channels (pa_queue a) c = Decided True"
  "qu_channels (pa_queue (fst (wait_pairing w a))) c = Decided True \<Longrightarrow> qu_channels (pa_queue a) c = Decided True"
  "qu_channels (pa_queue (fst (register_pairing auto now request a))) c = Decided True \<Longrightarrow> qu_channels (pa_queue a) c = Decided True"
  using quiet_channels
  by (auto simp: cancel_pairing_def wait_pairing_def register_pairing_def Let_def case_prod_beta split: option.splits if_splits prod.splits)

lemma daemon_channels:
  "qu_channels (pa_queue (dm_pairings (abort_pairing w d))) c = Decided True \<Longrightarrow> qu_channels (pa_queue (dm_pairings d)) c = Decided True"
  "qu_channels (pa_queue (dm_pairings (fst (begin_pairing hash auto now secs local_fp fp claimed name code a d)))) c = Decided True
     \<Longrightarrow> qu_channels (pa_queue (dm_pairings d)) c = Decided True"
  "qu_channels (pa_queue (dm_pairings (fst (finish_pairing now io name fp typed w d)))) c = Decided True
     \<Longrightarrow> qu_channels (pa_queue (dm_pairings d)) c = Decided True"
proof -
  show "qu_channels (pa_queue (dm_pairings (abort_pairing w d))) c = Decided True \<Longrightarrow> qu_channels (pa_queue (dm_pairings d)) c = Decided True"
    using pairing_channels(1) by (auto simp: abort_pairing_def split: option.splits prod.splits)
  show "qu_channels (pa_queue (dm_pairings (fst (begin_pairing hash auto now secs local_fp fp claimed name code a d)))) c = Decided True
     \<Longrightarrow> qu_channels (pa_queue (dm_pairings d)) c = Decided True"
    using pairing_channels(3) [of auto now _ "dm_pairings d" c]
    by (auto simp: begin_pairing_def Let_def split: option.splits prod.splits sum.splits if_splits) (metis fst_conv)+
  show "qu_channels (pa_queue (dm_pairings (fst (finish_pairing now io name fp typed w d)))) c = Decided True
     \<Longrightarrow> qu_channels (pa_queue (dm_pairings d)) c = Decided True"
    using pairing_channels(2) [of _ "dm_pairings d" c]
    by (cases w) (auto simp: finish_pairing_def Let_def case_prod_beta split: sum.splits if_splits)
qed

lemma channel_step:
  assumes "qu_channels (pair_queue (daemon_step hash op s)) c = Decided True" "qu_channels (pair_queue s) c \<noteq> Decided True"
  shows "\<exists>now g request. op = AnswerPairing now g True
    \<and> map_of (qu_pending (pair_queue s)) (to_ascii_lowercase g) = Some (request, c)
    \<and> snd (answer_pairing now g True (ru_daemon s)) = PairingApproved (to_ascii_lowercase g)"
proof (cases "\<exists>now g b. op = AnswerPairing now g b")
  case True
  then obtain now g b where op: "op = AnswerPairing now g b" by blast
  define a where "a = dm_pairings (ru_daemon s)"
  obtain a2 found where dec: "decide_pairing now (to_ascii_lowercase g) b a = (a2, found)" by fastforce
  have hex: "is_fingerprint g" using assms op by (auto simp: answer_pairing_def pair_queue_def split: if_splits)
  have "qu_channels (pa_queue a2) c = Decided True"
    using assms(1) op hex dec by (simp add: answer_pairing_def pair_queue_def Let_def a_def)
  moreover have q: "pa_queue a2 = fst (settle (to_ascii_lowercase g) b (pa_queue a))"
    "found = snd (settle (to_ascii_lowercase g) b (pa_queue a))"
    using dec by (auto simp: decide_pairing_def Let_def split: prod.splits if_splits)
  ultimately have after: "qu_channels (fst (settle (to_ascii_lowercase g) b (pa_queue a))) c = Decided True" by simp
  have before: "qu_channels (pa_queue a) c \<noteq> Decided True" using assms(2) by (simp add: pair_queue_def a_def)
  note set = settle_channel [OF after before, folded q(2)]
  from set obtain request where req: "map_of (qu_pending (pa_queue a)) (to_ascii_lowercase g) = Some (request, c)" by blast
  have "snd (answer_pairing now g True (ru_daemon s)) = PairingApproved (to_ascii_lowercase g)"
    using hex dec set by (simp add: answer_pairing_def Let_def a_def)
  with op set req show ?thesis by (simp add: pair_queue_def a_def)
next
  case other: False
  have same: False if "dm_pairings (ru_daemon (daemon_step hash op s)) = dm_pairings (ru_daemon s)"
    using that assms by (simp add: pair_queue_def)
  note kept = hello_gain other_gains
  show ?thesis
  proof (cases op)
    case (ApproveLink now fp l)
    have "dm_pairings (fst (approve_link now fp l d)) = dm_pairings d" for d
      by (auto simp: approve_link_def Let_def case_prod_beta split: option.split)
    with same ApproveLink show ?thesis by simp
  next
    case (AbortPairing w)
    with assms daemon_channels(1) show ?thesis by (simp add: pair_queue_def)
  next
    case (BeginPairing auto now secs local_fp fp claimed name code a)
    with assms show ?thesis
      using daemon_channels(2) [of hash auto now secs local_fp fp claimed name code a "ru_daemon s" c]
      by (simp add: pair_queue_def del: daemon_step.simps)
  next
    case (FinishPairing t io name f w)
    with assms show ?thesis
      using daemon_channels(3) [of t io name f "w = None" w "ru_daemon s" c] by (auto simp: pair_queue_def split: if_splits)
  qed (use same other kept in \<open>simp_all add: no_gain_def del: daemon_step.simps(1)\<close>)
qed

lemma ceremony_step:
  assumes "(f, w) \<in> ru_ceremonies (daemon_step hash op s)" "(f, w) \<notin> ru_ceremonies s"
  shows "(\<exists>k c. w = Some (k, Some c) \<and> qu_channels (pair_queue (daemon_step hash op s)) c = Waiting)
    \<or> (\<nexists>k c. w = Some (k, Some c)) \<and> allows_ceremony hash f w op s"
proof (cases "\<exists>auto now secs local_fp fp claimed name code a. op = BeginPairing auto now secs local_fp fp claimed name code a")
  case True
  then obtain auto now secs local_fp fp claimed name code a
    where op: "op = BeginPairing auto now secs local_fp fp claimed name code a" by blast
  show ?thesis
    using assms unfolding op
    by (auto simp: begin_pairing_def Let_def register_pairing_def enqueue_def pair_queue_def
        split: prod.splits sum.splits if_splits option.splits)
next
  case False
  with assms show ?thesis by (cases op) (auto split: prod.splits sum.splits gate.splits option.splits if_splits)
qed

text \<open>What a ceremony needs to go through.\<close>

definition settled_well :: "string waiter option \<Rightarrow> daemon_run \<Rightarrow> bool" where
  "settled_well w s \<longleftrightarrow> (case w of Some (_, Some c) \<Rightarrow> qu_channels (pair_queue s) c = Decided True | _ \<Rightarrow> True)"

lemma finish_settled:
  "snd (finish_pairing t io name f (w = None) w (ru_daemon s)) = Inr () \<Longrightarrow> settled_well w s"
  by (auto simp: finish_pairing_def Let_def settled_well_def wait_pairing_def finish_wait_eq pair_queue_def
      split: option.splits prod.splits if_splits)

lemma ceremony_allowed:
  fixes book ended peer_ended
  defines "s0 \<equiv> daemon_start book ended peer_ended"
  assumes "(f, w) \<in> ru_ceremonies (fold (daemon_step hash) ops s0)" "settled_well w (fold (daemon_step hash) ops s0)"
  shows "\<exists>a op b. ops = a @ op # b \<and> allows_ceremony hash f w op (fold (daemon_step hash) a s0)"
proof -
  define P where "P = (\<lambda>s. (f, w) \<in> ru_ceremonies s \<and> settled_well w s)"
  have "P (fold (daemon_step hash) ops s0)" "\<not> P s0" using assms by (simp_all add: P_def s0_def daemon_start_def)
  from fold_first [OF this] obtain a op b where split: "ops = a @ op # b"
    and first: "\<not> P (fold (daemon_step hash) a s0)" "P (daemon_step hash op (fold (daemon_step hash) a s0))" by blast
  define s1 where "s1 = fold (daemon_step hash) a s0"
  have inv: "pairings_inv (ev_trusted (evidence_of hash a)) (ru_ceremonies s1) (dm_pairings (ru_daemon s1))"
    using run_consent [of hash a book ended peer_ended] by (auto simp: s1_def s0_def consent_inv_def daemon_inv_def)
  have "allows_ceremony hash f w op s1"
  proof (cases "(f, w) \<in> ru_ceremonies s1")
    case False
    with ceremony_step [of f w hash op s1] first(2) show ?thesis
      by (auto simp: P_def s1_def settled_well_def)
  next
    case listed: True
    with first obtain k c where w: "w = Some (k, Some c)"
      "qu_channels (pair_queue s1) c \<noteq> Decided True" "qu_channels (pair_queue (daemon_step hash op s1)) c = Decided True"
      by (auto simp: P_def s1_def settled_well_def split: option.splits prod.splits)
    obtain now g request where op: "op = AnswerPairing now g True"
      "map_of (qu_pending (pair_queue s1)) (to_ascii_lowercase g) = Some (request, c)"
      "snd (answer_pairing now g True (ru_daemon s1)) = PairingApproved (to_ascii_lowercase g)"
      using channel_step [OF w(3,2)] by blast
    note ok = pairings_inv_ok [OF inv]
    have "(to_ascii_lowercase g, request, c) \<in> set (qu_pending (pa_queue (dm_pairings (ru_daemon s1))))"
      using op(2) by (auto simp: pair_queue_def dest: map_of_SomeD)
    then have "(to_ascii_lowercase g, c) \<in> pair_waiters (ru_ceremonies s1)" using ok by (auto simp: queue_ok_def)
    moreover have "(k, c) \<in> pair_waiters (ru_ceremonies s1)" using listed w(1) by (auto simp: pair_waiters_def)
    ultimately have "to_ascii_lowercase g = k" by (rule queue_ok_owner [OF ok])
    moreover have "k = to_ascii_lowercase f" using inv listed w(1) by (fastforce simp: pairings_inv_def)
    ultimately show ?thesis using op listed w(1) by simp
  qed
  with split show ?thesis unfolding s1_def by blast
qed

section \<open>No session without consent\<close>

text \<open>
  C12: no session without consent. Whatever calls the daemon has served since it started, a
  peer whose \<open>Hello\<close> names a link epoch is let through without a prompt only if it is a
  trusted peer, the epoch was not ended, both machines' modes allow it and the application
  is running; and if the local user's answer to the prompt of this epoch of this peer was taken
  less than 24 hours ago; or less than two minutes ago a ceremony with this peer succeeded, and
  before it did the user let that very ceremony through, or it began with the code read off this
  screen or in a run the operator asked to confirm by itself; or the application here dialed this
  very peer with this epoch.
\<close>

theorem no_session_without_consent:
  assumes start: "s0 = daemon_start book ended peer_ended"
    and epoch: "he_link_id h = Some epoch"
    and passed: "snd (hello_gate now c fp dialable h (ru_daemon (fold (daemon_step hash) ops s0))) = Passed"
  shows "(let d = ru_daemon (fold (daemon_step hash) ops s0) in
      is_pinned fp (dm_book d) \<and> \<not> link_ended epoch (dm_registries d)
      \<and> mode_allows_incoming (cfg_mode c) \<and> mode_allows_outgoing (he_mode h) \<and> ui_present now (dm_registries d))
    \<and> ((\<exists>ops1 t f ops2. ops = ops1 @ ApproveLink t f (Some epoch) # ops2
          \<and> to_ascii_lowercase f = to_ascii_lowercase fp \<and> elapsed now t < from_secs (24 * 60 * 60)
          \<and> snd (approve_link t f (Some epoch) (ru_daemon (fold (daemon_step hash) ops1 s0)))
            = LinkApproved (to_ascii_lowercase f) (Some epoch))
       \<or> (\<exists>ops1 t io name f w ops2. ops = ops1 @ FinishPairing t io name f w # ops2
          \<and> to_ascii_lowercase f = to_ascii_lowercase fp \<and> elapsed now t < from_secs 120
          \<and> (f, w) \<in> ru_ceremonies (fold (daemon_step hash) ops1 s0)
          \<and> snd (finish_pairing t io name f (w = None) w (ru_daemon (fold (daemon_step hash) ops1 s0))) = Inr ()
          \<and> (\<exists>a op b. ops1 = a @ op # b \<and> allows_ceremony hash f w op (fold (daemon_step hash) a s0)))
       \<or> list_ex (connects fp epoch) ops)"
proof -
  let ?run = "\<lambda>ops. fold (daemon_step hash) ops s0"
  let ?d = "ru_daemon (?run ops)"
  let ?E = "evidence_of hash ops"
  note gate = hello_gate_Passed [OF passed epoch]
  have inv: "daemon_inv ?E (ru_links (?run ops)) (ru_ceremonies (?run ops)) ?d"
    using run_consent [of hash ops book ended peer_ended] by (simp add: start consent_inv_def)
  have empty: "la_paired_at (dm_links (ru_daemon s0)) = []" "la_approved (dm_links (ru_daemon s0)) = []"
    by (simp_all add: start daemon_start_def default_link_approvals_def)
  have approved: "\<exists>ops1 t f ops2. ops = ops1 @ ApproveLink t f (Some epoch) # ops2
      \<and> to_ascii_lowercase f = to_ascii_lowercase fp \<and> elapsed now t < from_secs (24 * 60 * 60)
      \<and> snd (approve_link t f (Some epoch) (ru_daemon (?run ops1))) = LinkApproved (to_ascii_lowercase f) (Some epoch)"
    if "snd (is_approved now fp epoch (dm_links ?d))"
  proof -
    from that obtain t where "((to_ascii_lowercase fp, epoch), t) \<in> set (prune_approved now (la_approved (dm_links ?d)))"
      by (auto simp: is_approved_def Let_def dest: map_of_SomeD)
    then have t: "((to_ascii_lowercase fp, epoch), t) \<in> set (la_approved (dm_links ?d))" "elapsed now t < from_secs (24 * 60 * 60)"
      by (auto simp: prune_approved_def Let_def APPROVED_LINK_TTL_def split: if_splits)
    with fold_first [of "\<lambda>s. ((to_ascii_lowercase fp, epoch), t) \<in> set (la_approved (dm_links (ru_daemon s)))" "daemon_step hash" ops s0]
    obtain ops1 op ops2 where split: "ops = ops1 @ op # ops2"
      and first: "((to_ascii_lowercase fp, epoch), t) \<notin> set (la_approved (dm_links (ru_daemon (?run ops1))))"
        "((to_ascii_lowercase fp, epoch), t) \<in> set (la_approved (dm_links (ru_daemon (daemon_step hash op (?run ops1)))))"
      by (auto simp: empty)
    from approved_step [OF first(2,1)] obtain f where "op = ApproveLink t f (Some epoch)"
      "to_ascii_lowercase f = to_ascii_lowercase fp"
      "snd (approve_link t f (Some epoch) (ru_daemon (?run ops1))) = LinkApproved (to_ascii_lowercase f) (Some epoch)" by auto
    with split t(2) show ?thesis by blast
  qed
  have paired: "\<exists>ops1 t io name f w ops2. ops = ops1 @ FinishPairing t io name f w # ops2
      \<and> to_ascii_lowercase f = to_ascii_lowercase fp \<and> elapsed now t < from_secs 120
      \<and> (f, w) \<in> ru_ceremonies (?run ops1)
      \<and> snd (finish_pairing t io name f (w = None) w (ru_daemon (?run ops1))) = Inr ()
      \<and> (\<exists>a op b. ops1 = a @ op # b \<and> allows_ceremony hash f w op (?run a))"
    if "recently_paired now fp (dm_links ?d)"
  proof -
    from that obtain t where t: "(to_ascii_lowercase fp, t) \<in> set (la_paired_at (dm_links ?d))" "elapsed now t < from_secs 120"
      by (auto simp: recently_paired_def PAIRING_LINK_GRACE_def dest: map_of_SomeD split: option.splits)
    with fold_first [of "\<lambda>s. (to_ascii_lowercase fp, t) \<in> set (la_paired_at (dm_links (ru_daemon s)))" "daemon_step hash" ops s0]
    obtain ops1 op ops2 where split: "ops = ops1 @ op # ops2"
      and first: "(to_ascii_lowercase fp, t) \<notin> set (la_paired_at (dm_links (ru_daemon (?run ops1))))"
        "(to_ascii_lowercase fp, t) \<in> set (la_paired_at (dm_links (ru_daemon (daemon_step hash op (?run ops1)))))"
      by (auto simp: empty)
    from paired_at_step [OF first(2,1)] obtain io name f w where op: "op = FinishPairing t io name f w"
      "(f, w) \<in> ru_ceremonies (?run ops1)" "to_ascii_lowercase f = to_ascii_lowercase fp"
      "snd (finish_pairing t io name f (w = None) w (ru_daemon (?run ops1))) = Inr ()" by auto
    have "\<exists>a op b. ops1 = a @ op # b \<and> allows_ceremony hash f w op (?run a)"
      using ceremony_allowed [of f w hash ops1 book ended peer_ended] op(2) finish_settled [OF op(4)] by (simp add: start)
    with split op t(2) show ?thesis by blast
  qed
  have dialed: "list_ex (connects fp epoch) ops" if "outbound_epoch_live fp epoch (dm_registries ?d)"
  proof -
    from that obtain key r where r: "(key, r) \<in> set (rg_leases (dm_registries ?d))"
      "ol_link_id r = Some epoch" "to_ascii_lowercase (ol_fingerprint_hex r) = to_ascii_lowercase fp"
      by (auto simp: outbound_epoch_live_def outbound_epoch_owner_def find_Some_iff split: option.splits)
        (metis nth_mem prod.collapse)
    with daemon_invD(2) [OF inv] have "list_ex (connects (ol_fingerprint_hex r) epoch) ops"
      by (auto simp: leases_inv_def evidence_of_def)
    moreover have "connects (ol_fingerprint_hex r) epoch = connects fp epoch"
      using evidence_lower(4) r(3) by metis
    ultimately show ?thesis by simp
  qed
  have "is_pinned fp (dm_book ?d) \<and> \<not> link_ended epoch (dm_registries ?d)
      \<and> mode_allows_incoming (cfg_mode c) \<and> mode_allows_outgoing (he_mode h) \<and> ui_present now (dm_registries ?d)"
    using gate(1-5) by blast
  then show ?thesis using gate(6) approved paired dialed unfolding Let_def by blast
qed

text \<open>
  A prompt is answered by the user alone. A link that waited for the local user goes on
  only if the user allowed that epoch for that peer: not after a denial, a time-out, a
  withdrawn request, or an answer to any other request.
\<close>

theorem prompted_link_needs_allow:
  assumes run: "fold (daemon_step hash) ops (daemon_start book ended peer_ended) = s"
    and asked: "((fp, epoch), n) \<in> ru_links s"
    and passed: "snd (gate_decided ((fp, epoch), Some n) (ru_daemon s)) = Passed"
  shows "list_ex (allows_epoch fp epoch) ops"
proof -
  let ?E = "evidence_of hash ops"
  have "daemon_inv ?E (ru_links s) (ru_ceremonies s) (ru_daemon s)"
    using run_consent [of hash ops book ended peer_ended] by (simp add: run consent_inv_def)
  then have ok: "queue_ok (ru_links s) (ev_epochs ?E) (la_queue (dm_links (ru_daemon s)))"
    by (simp add: daemon_inv_def links_inv_def links_ok_def)
  from passed have "qu_channels (la_queue (dm_links (ru_daemon s))) n = Decided True"
    by (simp add: gate_decided_def wait_link_def finish_wait_eq split: if_splits)
  with ok obtain key where "key \<in> ev_epochs ?E" "(key, n) \<in> ru_links s"
    unfolding queue_ok_def by blast
  with queue_ok_owner [OF ok this(2) asked] show ?thesis
    by (simp add: evidence_of_def)
qed


lemma no_session_without_consent_witness:
  "\<exists>s0. s0 = daemon_start laptop_book [] []
     \<and> snd (hello_gate 1 desk_config laptop_fp ''10.0.0.7'' laptop_hello (ru_daemon
         (fold (daemon_step id) [OpenPresence 0, OpenLease 0 laptop_fp ''10.0.0.7'' (Some 7)] s0))) = Passed
     \<and> is_pinned laptop_fp (dm_book (ru_daemon
         (fold (daemon_step id) [OpenPresence 0, OpenLease 0 laptop_fp ''10.0.0.7'' (Some 7)] s0)))"
proof -
  let ?ops = "[OpenPresence 0, OpenLease 0 laptop_fp ''10.0.0.7'' (Some 7)]"
  define s0 where "s0 = daemon_start laptop_book [] []"
  have passed: "snd (hello_gate 1 desk_config laptop_fp ''10.0.0.7'' laptop_hello
      (ru_daemon (fold (daemon_step id) ?ops s0))) = Passed"
    unfolding s0_def
    by (simp add: daemon_start_def on_registries_def load_ended_links_def start_registries_def
        presence_begin_def link_lease_def lease_begin_def hello_gate_def link_ended_def peer_link_ended_def
        ui_present_def presence_fresh_def PRESENCE_TTL_def elapsed_def from_secs_def is_approved_def
        prune_approved_def default_link_approvals_def recently_paired_def outbound_epoch_live_def
        outbound_epoch_owner_def)
  from no_session_without_consent [OF s0_def laptop_facts(5) passed] passed s0_def
  show ?thesis unfolding Let_def by blast
qed

lemma prompted_link_needs_allow_witness:
  "\<exists>s. fold (daemon_step id) [OpenPresence 0, Hello 1 desk_config laptop_fp ''10.0.0.7'' laptop_hello,
       ApproveLink 2 laptop_fp (Some 7)] (daemon_start laptop_book [] []) = s
     \<and> ((laptop_fp, 7), 0) \<in> ru_links s
     \<and> snd (gate_decided ((laptop_fp, 7), Some 0) (ru_daemon s)) = Passed"
proof -
  let ?ops = "[OpenPresence 0, Hello 1 desk_config laptop_fp ''10.0.0.7'' laptop_hello,
    ApproveLink 2 laptop_fp (Some 7)]"
  obtain s where run: "fold (daemon_step id) ?ops (daemon_start laptop_book [] []) = s" by blast
  have "((laptop_fp, 7), 0) \<in> ru_links s
    \<and> snd (gate_decided ((laptop_fp, 7), Some 0) (ru_daemon s)) = Passed"
    unfolding run [symmetric]
    by (simp add: daemon_start_def on_registries_def load_ended_links_def start_registries_def
        presence_begin_def hello_gate_def link_ended_def peer_link_ended_def
        ui_present_def presence_fresh_def PRESENCE_TTL_def elapsed_def from_secs_def is_approved_def
        prune_approved_def default_link_approvals_def recently_paired_def outbound_epoch_live_def
        outbound_epoch_owner_def register_link_def MAX_PENDING_LINKS_def empty_queue_def is_frozen_def
        enqueue_def approve_link_def decide_link_def settle_def gate_decided_def wait_link_def
        finish_wait_def retain_rejects_def Let_def)
  with run prompted_link_needs_allow [OF run, of laptop_fp 7 0] show ?thesis by blast
qed

section \<open>Hanging up\<close>

lemma drop_sender_keeps: "drop_sender c chans d = (if d = c \<and> chans c = Waiting then SenderDropped else chans d)"
  by (simp add: drop_sender_def)

text \<open>How many epochs a call may end, on this side and for the peer.\<close>

fun ends :: "daemon_op \<Rightarrow> daemon_run \<Rightarrow> nat" where
  "ends (EndEpoch l) s = 1"
| "ends (Disconnect fp a l) s = 1"
| "ends (CloseLease fp l lid) s = 1"
| "ends (ClosePresence pid) s = length (rg_inbound (dm_registries (ru_daemon s)))"
| "ends _ s = 0"

fun peer_ends :: "daemon_op \<Rightarrow> nat" where
  "peer_ends (PeerEnded l) = 1"
| "peer_ends _ = 0"

fun ends_over :: "(bytes \<Rightarrow> bytes) \<Rightarrow> daemon_op list \<Rightarrow> daemon_run \<Rightarrow> nat" where
  "ends_over hash [] s = 0"
| "ends_over hash (op # ops) s = ends op s + ends_over hash ops (daemon_step hash op s)"

text \<open>A list of epochs that takes up to \<open>n\<close> more and loses none, as long as it stays within 32.\<close>

definition grows :: "nat \<Rightarrow> u64 list \<Rightarrow> u64 list \<Rightarrow> bool" where
  "grows n e e2 \<longleftrightarrow> (length e + n \<le> 32 \<longrightarrow> set e \<subseteq> set e2 \<and> length e2 \<le> length e + n)"

lemma grows_refl [simp]: "grows n e e"
  by (simp add: grows_def)

lemma grows_ban: "grows 1 e (ban l e)"
  by (auto simp: grows_def ban_def List.insert_def)

lemma grows_trans: "grows n e e1 \<Longrightarrow> grows m e1 e2 \<Longrightarrow> grows (n + m) e e2"
  by (auto simp: grows_def)

lemma grows_mono: "grows n e e2 \<Longrightarrow> n \<le> m \<Longrightarrow> grows m e e2"
  by (auto simp: grows_def)

text \<open>The registries as far as the ended epochs go.\<close>

definition grown :: "nat \<Rightarrow> nat \<Rightarrow> registries \<Rightarrow> registries \<Rightarrow> bool" where
  "grown n m g g2 \<longleftrightarrow> grows n (rg_ended g) (rg_ended g2) \<and> grows m (rg_peer_ended g) (rg_peer_ended g2)"

lemma grown_same: "rg_ended g2 = rg_ended g \<Longrightarrow> rg_peer_ended g2 = rg_peer_ended g \<Longrightarrow> grown n m g g2"
  by (simp add: grown_def)

lemma ended_kept [simp]:
  "rg_ended (fst (drop_inbound_link fp g)) = rg_ended g" "rg_peer_ended (fst (drop_inbound_link fp g)) = rg_peer_ended g"
  "rg_ended (forget_recent_inbound fp g) = rg_ended g" "rg_peer_ended (forget_recent_inbound fp g) = rg_peer_ended g"
  "rg_ended (fst (presence_begin now g)) = rg_ended g" "rg_peer_ended (fst (presence_begin now g)) = rg_peer_ended g"
  "rg_ended (fst (presence_touch now pid g)) = rg_ended g" "rg_peer_ended (fst (presence_touch now pid g)) = rg_peer_ended g"
  "rg_ended (fst (presence_end pid g)) = rg_ended g" "rg_peer_ended (fst (presence_end pid g)) = rg_peer_ended g"
  "rg_ended (note_ui_contact now g) = rg_ended g" "rg_peer_ended (note_ui_contact now g) = rg_peer_ended g"
  "rg_ended (fst (register_inbound_link now fp name a m g)) = rg_ended g"
  "rg_peer_ended (fst (register_inbound_link now fp name a m g)) = rg_peer_ended g"
  "rg_ended (remove_inbound_link fp sid g) = rg_ended g" "rg_peer_ended (remove_inbound_link fp sid g) = rg_peer_ended g"
  "rg_ended (fst (lease_begin now fp a m g)) = rg_ended g" "rg_peer_ended (fst (lease_begin now fp a m g)) = rg_peer_ended g"
  "rg_ended (fst (lease_touch now fp m lid g)) = rg_ended g" "rg_peer_ended (fst (lease_touch now fp m lid g)) = rg_peer_ended g"
  "rg_ended (fst (lease_end fp m lid g)) = rg_ended g" "rg_peer_ended (fst (lease_end fp m lid g)) = rg_peer_ended g"
  "rg_ended (fst (take_lease m b g)) = rg_ended g" "rg_peer_ended (fst (take_lease m b g)) = rg_peer_ended g"
  by (auto simp: drop_inbound_link_def forget_recent_inbound_def presence_begin_def presence_touch_def presence_end_def
      note_ui_contact_def Let_def note_inbound_seen_def register_inbound_link_def remove_inbound_link_def lease_begin_def
      lease_touch_def lease_end_def take_lease_def split: option.splits)

lemma grown_teardown: "grown 1 0 (dm_registries d) (dm_registries (teardown_link f l d))"
  using grows_ban by (cases f; cases l) (auto simp: grown_def teardown_link_def Let_def end_link_def)

lemma grown_teardowns:
  "grown (length ls) 0 (dm_registries d)
     (dm_registries (fold (\<lambda>(_, l). teardown_link (Some (il_fingerprint_hex l)) (il_link_id l)) ls d))"
proof (induction ls arbitrary: d)
  case (Cons x ls)
  obtain k l where x: "x = (k, l)" by force
  from Cons [of "teardown_link (Some (il_fingerprint_hex l)) (il_link_id l) d"]
    grown_teardown [of d "Some (il_fingerprint_hex l)" "il_link_id l"]
  show ?case unfolding x grown_def by (auto dest: grows_trans)
qed (simp add: grown_def)

lemma grown_step: "grown (ends op s) (peer_ends op) (dm_registries (ru_daemon s)) (dm_registries (ru_daemon (daemon_step hash op s)))"
proof (cases op)
  case (Hello now c fp dialable h)
  then show ?thesis
    by (auto simp: hello_gate_def Let_def intro!: grown_same split: prod.splits sum.splits option.splits simp del: daemon_step.simps(1))
next
  case (Disconnect fp a l)
  show ?thesis
    using grown_teardown [of "ru_daemon s\<lparr>dm_registries := fst (take_lease l a (dm_registries (ru_daemon s)))\<rparr>"]
    by (auto simp: Disconnect disconnect_link_def Let_def case_prod_beta grown_def)
next
  case (CloseLease fp l lid)
  show ?thesis
    using grown_teardown [of "ru_daemon s\<lparr>dm_registries := fst (lease_end (to_ascii_lowercase fp) l lid (dm_registries (ru_daemon s)))\<rparr>"]
    by (auto simp: CloseLease link_lease_over_def Let_def case_prod_beta grown_def split: option.split)
next
  case (ClosePresence pid)
  have "rg_inbound (fst (presence_end pid g)) = rg_inbound g" for g by (simp add: presence_end_def Let_def split: option.split)
  with grown_teardowns [of "rg_inbound (dm_registries (ru_daemon s))" "ru_daemon s\<lparr>dm_registries := fst (presence_end pid (dm_registries (ru_daemon s)))\<rparr>"]
  show ?thesis
    by (auto simp: ClosePresence presence_over_def on_ui_gone_def Let_def case_prod_beta grown_def)
next
  case (EndEpoch l)
  then show ?thesis using grows_ban by (simp add: end_link_request_def Let_def end_link_def grown_def)
next
  case (PeerEnded l)
  then show ?thesis using grows_ban by (simp add: on_registries_def peer_end_link_def grown_def)
next
  case (BeginPairing auto now secs local_fp fp claimed name code a)
  then show ?thesis
    by (auto simp: begin_pairing_def Let_def case_prod_beta intro!: grown_same split: option.split sum.split simp del: daemon_step.simps(22))
qed (auto simp: gate_decided_def gate_closed_def answer_pairing_def approve_link_def reject_link_def unpair_def drop_session_def
    link_lease_def on_registries_def abort_pairing_def finish_pairing_def Let_def case_prod_beta
    intro!: grown_same split: option.split sum.split bool.split)

text \<open>Nothing is listed or allowed for an epoch.\<close>

definition unlisted :: "u64 \<Rightarrow> link_approvals \<Rightarrow> bool" where
  "unlisted l a \<longleftrightarrow> l \<notin> snd ` fst ` set (qu_pending (la_queue a))"

lemma unlisted_subset: "unlisted l a \<Longrightarrow> set (qu_pending (la_queue a2)) \<subseteq> set (qu_pending (la_queue a)) \<Longrightarrow> unlisted l a2"
  by (auto simp: unlisted_def)

lemma revoked_unlisted: "unlisted l (revoke_epoch l a)"
  by (auto simp: unlisted_def revoke_epoch_def retain_pending_def)

lemma queue_shrinks:
  "set (qu_pending (withdraw key q)) \<subseteq> set (qu_pending q)" "set (qu_pending (fst (settle key b q))) \<subseteq> set (qu_pending q)"
  "set (qu_pending (fst (finish_wait key n q))) \<subseteq> set (qu_pending q)" "set (qu_pending (retain_pending keep q)) \<subseteq> set (qu_pending q)"
  by (auto simp: withdraw_def settle_def finish_wait_def retain_pending_def Let_def split: option.splits
      dest: subsetD [OF set_AList_delete])

lemma unlisted_kept:
  "unlisted l a \<Longrightarrow> unlisted l (revoke_peer fp a)" "unlisted l a \<Longrightarrow> unlisted l (revoke_epoch m a)"
  "unlisted l a \<Longrightarrow> unlisted l (cancel_link fp m a)" "unlisted l a \<Longrightarrow> unlisted l (fst (wait_link w a))"
  "unlisted l a \<Longrightarrow> unlisted l (fst (decide_link now fp m b a))" "unlisted l (fst (is_approved now fp m a)) = unlisted l a"
  "unlisted l (note_paired now fp a) = unlisted l a"
proof -
  show "unlisted l a \<Longrightarrow> unlisted l (revoke_peer fp a)" "unlisted l a \<Longrightarrow> unlisted l (revoke_epoch m a)"
    "unlisted l a \<Longrightarrow> unlisted l (cancel_link fp m a)"
    by (erule unlisted_subset; simp add: revoke_peer_def revoke_epoch_def cancel_link_def Let_def queue_shrinks)+
  show "unlisted l a \<Longrightarrow> unlisted l (fst (wait_link w a))"
    by (erule unlisted_subset) (auto simp: wait_link_def case_prod_beta dest: subsetD [OF queue_shrinks(3)] split: option.splits prod.splits)
  show "unlisted l a \<Longrightarrow> unlisted l (fst (decide_link now fp m b a))"
    by (erule unlisted_subset) (auto simp: decide_link_def Let_def case_prod_beta dest: subsetD [OF queue_shrinks(2)])
  show "unlisted l (fst (is_approved now fp m a)) = unlisted l a" "unlisted l (note_paired now fp a) = unlisted l a"
    by (simp_all add: unlisted_def is_approved_def note_paired_def Let_def)
qed

lemma unlisted_register:
  assumes "unlisted l a" "pl_link_id request \<noteq> Some l"
  shows "unlisted l (fst (register_link now request a))"
  using assms by (auto simp: unlisted_def register_link_def enqueue_def Let_def dest!: set_update_cases split: option.splits)

lemma unlisted_teardown: "unlisted l (dm_links d) \<Longrightarrow> unlisted l (dm_links (teardown_link f m d))"
  by (cases f; cases m) (simp_all add: teardown_link_def Let_def unlisted_kept)

lemma unlisted_hello:
  assumes "unlisted l (dm_links d)" "link_ended l (dm_registries d)"
  shows "unlisted l (dm_links (fst (hello_gate now c fp dialable h d)))"
proof (cases "he_link_id h")
  case None
  with assms show ?thesis by (auto simp: hello_gate_def)
next
  case (Some epoch)
  let ?request = "\<lparr>pl_node_name = he_node_name h, pl_fingerprint_hex = fp, pl_address = dialable, pl_link_id = Some epoch\<rparr>"
  obtain links approved where ask: "is_approved now fp epoch (dm_links d) = (links, approved)" by fastforce
  obtain links2 r where reg: "register_link now ?request links = (links2, r)" by fastforce
  have links: "unlisted l links" using assms(1) unlisted_kept(6) [of l now fp epoch "dm_links d"] by (simp add: ask)
  have "unlisted l links2" if "epoch \<noteq> l"
    using unlisted_register [OF links, of ?request now] that by (simp add: reg)
  with links assms show ?thesis
    by (cases r) (auto simp: hello_gate_def Some ask reg Let_def)
qed

lemma unlisted_step:
  assumes "unlisted l (dm_links (ru_daemon s))" "link_ended l (dm_registries (ru_daemon s))"
  shows "unlisted l (dm_links (ru_daemon (daemon_step hash op s)))"
proof -
  have gone: "unlisted l (dm_links (on_ui_gone d))" if "unlisted l (dm_links d)" for d
    using that by (intro on_ui_gone_induct [where P = "\<lambda>d. unlisted l (dm_links d)"]) (auto intro: unlisted_teardown)
  show ?thesis
  proof (cases op)
    case (Hello now c fp dialable h)
    with unlisted_hello [OF assms] show ?thesis by (simp del: daemon_step.simps(1))
  next
    case (Disconnect fp a m)
    show ?thesis
      using assms(1) by (auto simp: Disconnect disconnect_link_def Let_def case_prod_beta intro!: unlisted_teardown)
  next
    case (CloseLease fp m lid)
    show ?thesis
      using assms(1) by (auto simp: CloseLease link_lease_over_def Let_def case_prod_beta split: option.split intro!: unlisted_teardown)
  next
    case (ClosePresence pid)
    show ?thesis using assms(1) gone by (auto simp: ClosePresence presence_over_def Let_def case_prod_beta)
  next
    case (BeginPairing auto now secs local_fp fp claimed name code a)
    with assms(1) show ?thesis by (simp add: pairing_links del: daemon_step.simps(22))
  qed (use assms(1) in \<open>auto simp: gate_decided_def gate_closed_def answer_pairing_def approve_link_def reject_link_def unpair_def
      drop_session_def end_link_request_def link_lease_def on_registries_def abort_pairing_def finish_pairing_def Let_def
      case_prod_beta unlisted_kept split: option.split sum.split bool.split\<close>)
qed

lemma stays_ended:
  assumes "unlisted l (dm_links (ru_daemon s))" "link_ended l (dm_registries (ru_daemon s))"
    and "length (rg_ended (dm_registries (ru_daemon s))) + ends_over hash ops s \<le> 32"
    and "length (rg_peer_ended (dm_registries (ru_daemon s))) + sum_list (map peer_ends ops) \<le> 32"
  shows "unlisted l (dm_links (ru_daemon (fold (daemon_step hash) ops s)))
    \<and> link_ended l (dm_registries (ru_daemon (fold (daemon_step hash) ops s)))"
  using assms
proof (induction ops arbitrary: s)
  case (Cons op ops)
  define s1 where "s1 = daemon_step hash op s"
  have grown: "set (rg_ended (dm_registries (ru_daemon s))) \<subseteq> set (rg_ended (dm_registries (ru_daemon s1)))"
    "length (rg_ended (dm_registries (ru_daemon s1))) \<le> length (rg_ended (dm_registries (ru_daemon s))) + ends op s"
    "set (rg_peer_ended (dm_registries (ru_daemon s))) \<subseteq> set (rg_peer_ended (dm_registries (ru_daemon s1)))"
    "length (rg_peer_ended (dm_registries (ru_daemon s1))) \<le> length (rg_peer_ended (dm_registries (ru_daemon s))) + peer_ends op"
    using grown_step [of op s hash] Cons.prems(3,4) by (simp_all add: grown_def grows_def s1_def)
  have "unlisted l (dm_links (ru_daemon s1))" unfolding s1_def by (rule unlisted_step [OF Cons.prems(1,2)])
  moreover have "link_ended l (dm_registries (ru_daemon s1))"
    using Cons.prems(2) grown(1,3) by (auto simp: link_ended_def peer_link_ended_def)
  moreover have "length (rg_ended (dm_registries (ru_daemon s1))) + ends_over hash ops s1 \<le> 32"
    "length (rg_peer_ended (dm_registries (ru_daemon s1))) + sum_list (map peer_ends ops) \<le> 32"
    using Cons.prems(3,4) grown(2,4) by (simp_all add: s1_def)
  ultimately have "unlisted l (dm_links (ru_daemon (fold (daemon_step hash) ops s1)))
    \<and> link_ended l (dm_registries (ru_daemon (fold (daemon_step hash) ops s1)))" by (rule Cons.IH)
  then show ?case by (simp add: s1_def)
qed simp

lemma teardown_ends: "link_ended l (dm_registries (teardown_link fp0 (Some l) d))"
  by (cases fp0) (auto simp: teardown_link_def Let_def link_ended_def end_link_def ban_def)

lemma teardown_links: "\<exists>a. dm_links (teardown_link fp0 (Some l) d) = revoke_epoch l a"
  by (cases fp0) (auto simp: teardown_link_def Let_def)

text \<open>
  C19: a link that was disconnected stays down. After the local user disconnects an epoch, and after
  any calls the daemon serves from then on, every \<open>Hello\<close> with that epoch is refused without a
  prompt, whoever sends it, at any time and under any settings, and nothing is listed for it that
  the user could still allow by mistake. This holds as long as the calls do not end so many further
  epochs that one of the two sets passes 32, where the daemon empties it.
\<close>

theorem disconnected_epoch_refused:
  assumes "daemon_step hash (Disconnect fp0 address (Some l)) s = s1"
    and "length (rg_ended (dm_registries (ru_daemon s1))) + ends_over hash ops s1 \<le> 32"
    and "length (rg_peer_ended (dm_registries (ru_daemon s1))) + sum_list (map peer_ends ops) \<le> 32"
    and "ru_daemon (fold (daemon_step hash) ops s1) = d2"
  shows "(he_link_id h = Some l \<longrightarrow> fst (hello_gate now c fp dialable h d2) = d2
      \<and> (\<exists>reason. snd (hello_gate now c fp dialable h d2) = Refused reason))
    \<and> (\<forall>f. snd (approve_link now f (Some l) d2) \<noteq> LinkApproved (to_ascii_lowercase f) (Some l))"
proof -
  from assms(1) obtain f d1 where s1: "ru_daemon s1 = teardown_link f (Some l) d1"
    by (auto simp: disconnect_link_def Let_def split: prod.splits)
  obtain a where a: "dm_links (ru_daemon s1) = revoke_epoch l a"
    using teardown_links unfolding s1 by blast
  have "unlisted l (dm_links (ru_daemon s1))" unfolding a by (rule revoked_unlisted)
  moreover have "link_ended l (dm_registries (ru_daemon s1))" unfolding s1 by (rule teardown_ends)
  ultimately have d2: "unlisted l (dm_links d2)" "link_ended l (dm_registries d2)"
    using stays_ended [of l s1 hash ops] assms(2-4) by auto
  have "map_of (qu_pending (la_queue (dm_links d2))) (f, l) = None" for f
    using d2(1) by (force simp: unlisted_def map_of_eq_None_iff)
  then have "snd (approve_link now f (Some l) d2) \<noteq> LinkApproved (to_ascii_lowercase f) (Some l)" for f
    by (auto simp: approve_link_def Let_def decide_link_def settle_def bad_fingerprint_def
        simp del: map_of_eq_None_iff split: prod.splits option.splits)
  with d2(2) show ?thesis by (auto simp: hello_gate_def)
qed

text \<open>The laptop's epoch is disconnected, the laptop paired anew, and another epoch ended.\<close>

lemma disconnected_epoch_refused_witness:
  "\<exists>s1. daemon_step id (Disconnect (Some laptop_fp) None (Some 7)) (daemon_start laptop_book [] []) = s1
     \<and> (\<exists>reason. snd (hello_gate 1 desk_config laptop_fp ''10.0.0.7'' laptop_hello
          (ru_daemon (fold (daemon_step id) [PinPeer None ''laptop'' laptop_fp None, EndEpoch 8] s1))) = Refused reason)"
proof -
  obtain s1 where s1: "daemon_step id (Disconnect (Some laptop_fp) None (Some 7)) (daemon_start laptop_book [] []) = s1"
    by blast
  have "dm_registries (ru_daemon (daemon_start laptop_book [] [])) = start_registries"
    by (simp add: daemon_start_def load_ended_links_def)
  then have few: "length (rg_ended (dm_registries (ru_daemon s1))) \<le> 1" "rg_peer_ended (dm_registries (ru_daemon s1)) = []"
    using grown_step [of "Disconnect (Some laptop_fp) None (Some 7)" "daemon_start laptop_book [] []" id] unfolding s1
    by (simp_all add: grown_def grows_def start_registries_def)
  let ?ops = "[PinPeer None ''laptop'' laptop_fp None, EndEpoch 8]"
  have bounds: "length (rg_ended (dm_registries (ru_daemon s1))) + ends_over id ?ops s1 \<le> 32"
    "length (rg_peer_ended (dm_registries (ru_daemon s1))) + sum_list (map peer_ends ?ops) \<le> 32"
    using few by simp_all
  from disconnected_epoch_refused [OF s1 bounds refl, of laptop_hello 1 desk_config laptop_fp "''10.0.0.7''"] s1
  show ?thesis using laptop_facts(5) by blast
qed

text \<open>
  A hung-up link can reopen without a prompt. Dropping a session forgets the peer's
  approvals so that its next dial prompts again; the note that lets the first link after a
  pairing pass is not forgotten. Within two minutes of the pairing, a peer whose session was
  just dropped gets in again with a fresh epoch, unasked.
\<close>

theorem hang_up_reopens_silently:
  assumes "drop_session fp d = (d2, SessionDropped f)"
    and "recently_paired now fp (dm_links d)" and "is_pinned fp (dm_book d)"
    and "he_link_id h = Some epoch" and "\<not> link_ended epoch (dm_registries d)"
    and "mode_allows_incoming (cfg_mode c)" and "mode_allows_outgoing (he_mode h)"
    and "ui_present now (dm_registries d)"
  shows "snd (hello_gate now c fp dialable h d2) = Passed"
proof -
  from assms(1) have d2: "dm_book d2 = dm_book d" "dm_links d2 = revoke_peer (to_ascii_lowercase fp) (dm_links d)"
    "\<exists>g. dm_registries d2 = fst (drop_inbound_link g (dm_registries d))"
    by (auto simp: drop_session_def Let_def bad_fingerprint_def split: if_splits prod.splits intro: exI [of _ "to_ascii_lowercase fp"])
  have kept: "link_ended epoch (fst (drop_inbound_link g r)) = link_ended epoch r"
    "ui_present now (fst (drop_inbound_link g r)) = ui_present now r" for g r
    by (auto simp: drop_inbound_link_def Let_def link_ended_def peer_link_ended_def ui_present_def
        split: option.splits)
  have "link_ended epoch (dm_registries d2) = link_ended epoch (dm_registries d)"
    "ui_present now (dm_registries d2) = ui_present now (dm_registries d)"
    using d2(3) kept by auto
  moreover have "recently_paired now fp (fst (is_approved now fp epoch (dm_links d2)))"
    using assms(2) by (simp add: recently_paired_def d2)
  ultimately show ?thesis
    using assms by (auto simp: hello_gate_def d2(1) Let_def split: prod.splits
        simp del: mode_allows_incoming.simps mode_allows_outgoing.simps)
qed

lemma hang_up_reopens_silently_witness:
  "\<exists>d d2 f. drop_session laptop_fp d = (d2, SessionDropped f)
     \<and> snd (hello_gate 6 desk_config laptop_fp ''10.0.0.7'' laptop_hello d2) = Passed"
proof -
  let ?g = "fst (register_inbound_link 1 laptop_fp ''laptop'' ''10.0.0.7'' (Some 3)
    (fst (presence_begin 0 start_registries)))"
  let ?d = "(ru_daemon (daemon_start laptop_book [] []))\<lparr>dm_registries := ?g,
    dm_links := note_paired 0 laptop_fp default_link_approvals\<rparr>"
  have "snd (drop_session laptop_fp ?d) = SessionDropped laptop_fp"
    by (simp add: drop_session_def drop_inbound_link_def register_inbound_link_def Let_def fresh_activity_def
        map_of_update note_inbound_seen_def presence_begin_def start_registries_def)
  then obtain d2 where drop: "drop_session laptop_fp ?d = (d2, SessionDropped laptop_fp)"
    by (metis prod.collapse)
  have "recently_paired 6 laptop_fp (dm_links ?d)"
    by (simp add: recently_paired_def note_paired_def default_link_approvals_def PAIRING_LINK_GRACE_def
        elapsed_def from_secs_def)
  moreover have "\<not> link_ended 7 ?g" "ui_present 6 ?g" "is_pinned laptop_fp (dm_book ?d)"
    by (simp_all add: register_inbound_link_def Let_def note_inbound_seen_def presence_begin_def
        start_registries_def link_ended_def peer_link_ended_def ui_present_def presence_fresh_def
        PRESENCE_TTL_def elapsed_def from_secs_def daemon_start_def)
  ultimately show ?thesis
    using hang_up_reopens_silently [OF drop, of 6 laptop_hello 7 desk_config "''10.0.0.7''"] drop by auto
qed

end
