(* ===== verification/Utf8.thy ===== *)
theory Utf8
  imports KvmPrelude
begin

text \<open>
  Rust strings as the bytes of their UTF-8 encoding: validity, character boundaries and
  \<open>String::from_utf8_lossy\<close> of the standard library. The components that cut strings at byte
  positions (\<^verbatim>\<open>kvm-daemon/src/service.rs\<close>, \<^verbatim>\<open>kvm-ui/src/main.rs\<close>) rest on them.
\<close>

definition byte :: "char \<Rightarrow> nat" where "byte c = of_char c"

text \<open>A byte that continues a sequence: slicing a \<open>str\<close> there panics.\<close>

definition continues :: "char \<Rightarrow> bool" where
  "continues c \<longleftrightarrow> 0x80 \<le> byte c \<and> byte c < 0xC0"

text \<open>How many bytes the first byte of a sequence announces; 0 for none.\<close>

definition utf8_width :: "nat \<Rightarrow> nat" where
  "utf8_width b =
     (if b < 0x80 then 1 else if 0xC2 \<le> b \<and> b \<le> 0xDF then 2
      else if 0xE0 \<le> b \<and> b \<le> 0xEF then 3 else if 0xF0 \<le> b \<and> b \<le> 0xF4 then 4 else 0)"

text \<open>Which second bytes a longer sequence allows.\<close>

definition second_ok :: "nat \<Rightarrow> nat \<Rightarrow> bool" where
  "second_ok b s \<longleftrightarrow>
     (if b = 0xE0 then 0xA0 \<le> s \<and> s \<le> 0xBF else if b = 0xED then 0x80 \<le> s \<and> s \<le> 0x9F
      else if b = 0xF0 then 0x90 \<le> s \<and> s \<le> 0xBF else if b = 0xF4 then 0x80 \<le> s \<and> s \<le> 0x8F
      else 0x80 \<le> s \<and> s \<le> 0xBF)"

text \<open>The next sequence of a text: its length and whether it is valid.\<close>

definition utf8_scan :: "string \<Rightarrow> nat \<times> bool" where
  "utf8_scan s =
     (let b = byte (hd s); w = utf8_width b;
          cont = (\<lambda>i. i < length s \<and> continues (s ! i))
      in if w = 1 then (1, True)
         else if w = 2 then (if cont 1 then (2, True) else (1, False))
         else if w = 3 \<or> w = 4 then
           (if \<not> (1 < length s \<and> second_ok b (byte (s ! 1))) then (1, False)
            else if \<not> cont 2 then (2, False)
            else if w = 3 then (3, True)
            else if \<not> cont 3 then (3, False) else (4, True))
         else (1, False))"

lemma utf8_scan_bounds:
  assumes "s \<noteq> []"
  shows "1 \<le> fst (utf8_scan s)" "fst (utf8_scan s) \<le> 4" "fst (utf8_scan s) \<le> length s"
  using assms by (auto simp: utf8_scan_def Let_def Suc_le_eq)

lemma scan_shrinks: "s \<noteq> [] \<Longrightarrow> length s - fst (utf8_scan s) < length s"
  using utf8_scan_bounds(1) [of s] by (cases s) auto

lemma second_ok_continues: "second_ok b (byte c) \<Longrightarrow> continues c"
  by (auto simp: second_ok_def continues_def split: if_splits)

lemma utf8_scan_valid:
  assumes "s \<noteq> []" and "utf8_scan s = (n, True)"
  shows "\<not> continues (s ! 0)" "0 < i \<Longrightarrow> i < n \<Longrightarrow> continues (s ! i)"
proof -
  show "\<not> continues (s ! 0)"
    using assms by (auto simp: utf8_scan_def Let_def utf8_width_def continues_def hd_conv_nth split: if_splits)
  show "continues (s ! i)" if "0 < i" "i < n"
  proof -
    have "n \<le> 4" using assms utf8_scan_bounds(2) [OF assms(1)] by simp
    with that consider "i = 1" | "i = 2" | "i = 3" by linarith
    then show ?thesis
      using that assms
      by cases (auto simp: utf8_scan_def Let_def dest: second_ok_continues split: if_splits)
  qed
qed

function is_utf8 :: "string \<Rightarrow> bool" where
  "is_utf8 s = (if s = [] then True else snd (utf8_scan s) \<and> is_utf8 (drop (fst (utf8_scan s)) s))"
  by auto
termination
  by (relation "measure length") (auto simp: scan_shrinks)

declare is_utf8.simps [simp del]

text \<open>Invalid sequences become the replacement character.\<close>

definition REPLACEMENT :: string where
  "REPLACEMENT = [char_of (0xEF :: nat), char_of (0xBF :: nat), char_of (0xBD :: nat)]"

function from_utf8_lossy :: "string \<Rightarrow> string" where
  "from_utf8_lossy s =
     (if s = [] then []
      else (if snd (utf8_scan s) then take (fst (utf8_scan s)) s else REPLACEMENT)
        @ from_utf8_lossy (drop (fst (utf8_scan s)) s))"
  by auto
termination
  by (relation "measure length") (auto simp: scan_shrinks)

declare from_utf8_lossy.simps [simp del]

text \<open>\<open>str::is_char_boundary\<close>.\<close>

definition is_char_boundary :: "string \<Rightarrow> nat \<Rightarrow> bool" where
  "is_char_boundary s i \<longleftrightarrow>
     i = 0 \<or> (if length s \<le> i then i = length s else \<not> continues (s ! i))"

section \<open>Facts\<close>

lemma is_utf8_Nil [simp]: "is_utf8 []"
  by (subst is_utf8.simps) simp

lemma is_utf8_ascii: "list_all (\<lambda>c. byte c < 0x80) s \<Longrightarrow> is_utf8 s"
proof (induction s)
  case (Cons c s)
  then show ?case
    by (subst is_utf8.simps) (simp add: utf8_scan_def utf8_width_def)
qed simp

lemma from_utf8_lossy_valid: "is_utf8 s \<Longrightarrow> from_utf8_lossy s = s"
proof (induction s rule: is_utf8.induct)
  case (1 s)
  show ?case
  proof (cases "s = []")
    case True
    then show ?thesis by (subst from_utf8_lossy.simps) simp
  next
    case False
    with "1.prems" have "snd (utf8_scan s)" "is_utf8 (drop (fst (utf8_scan s)) s)"
      by (simp_all add: is_utf8.simps [of s])
    with False "1.IH" show ?thesis
      by (subst from_utf8_lossy.simps) (simp add: append_take_drop_id)
  qed
qed

lemma utf8_first:
  assumes "is_utf8 s" and "s \<noteq> []"
  obtains n where "1 \<le> n" "n \<le> 4" "n \<le> length s" "\<not> continues (s ! 0)"
    "\<And>i. 0 < i \<Longrightarrow> i < n \<Longrightarrow> continues (s ! i)" "is_utf8 (drop n s)" "utf8_scan s = (n, True)"
proof -
  have scan: "utf8_scan s = (fst (utf8_scan s), True)" and rest: "is_utf8 (drop (fst (utf8_scan s)) s)"
    using assms by (simp_all add: is_utf8.simps [of s] prod_eq_iff)
  show thesis
    by (rule that [OF utf8_scan_bounds [OF assms(2)] utf8_scan_valid [OF assms(2) scan] rest scan])
qed

lemma boundary_ends [simp]: "is_char_boundary s 0" "is_char_boundary s (length s)"
  by (simp_all add: is_char_boundary_def)

lemma boundary_le: "is_char_boundary s i \<Longrightarrow> i \<le> length s"
  by (auto simp: is_char_boundary_def split: if_splits)

text \<open>Valid text starts with a boundary character, so a boundary of a suffix is one of the text.\<close>

lemma boundary_drop:
  assumes "is_utf8 (drop n s)" and "n \<le> length s"
  shows "is_char_boundary s (n + i) \<longleftrightarrow> is_char_boundary (drop n s) i \<or> n + i = 0"
proof (cases "i = 0 \<and> n < length s")
  case True
  then have "drop n s \<noteq> []" by simp
  with assms(1) obtain m where "\<not> continues (drop n s ! 0)" by (rule utf8_first) blast
  with True show ?thesis by (simp add: is_char_boundary_def)
next
  case False
  with assms(2) show ?thesis
    by (auto simp: is_char_boundary_def)
qed

text \<open>Cutting at a boundary leaves valid text on both sides.\<close>

lemma utf8_cut:
  assumes "is_utf8 s" and "is_char_boundary s i"
  shows "is_utf8 (take i s) \<and> is_utf8 (drop i s)"
  using assms
proof (induction s arbitrary: i rule: is_utf8.induct)
  case (1 s)
  show ?case
  proof (cases "s = [] \<or> i = 0")
    case True
    with "1.prems" show ?thesis by (auto simp: is_char_boundary_def)
  next
    case False
    then have ne: "s \<noteq> []" by simp
    obtain n where n: "1 \<le> n" "n \<le> 4" "n \<le> length s" "\<not> continues (s ! 0)"
      "\<And>i. 0 < i \<Longrightarrow> i < n \<Longrightarrow> continues (s ! i)" "is_utf8 (drop n s)" "utf8_scan s = (n, True)"
      by (rule utf8_first [OF "1.prems"(1) ne]) (rule that)
    have ni: "n \<le> i"
    proof (rule ccontr)
      assume "\<not> n \<le> i"
      with False n(3,5) have "continues (s ! i)" "i < length s" by auto
      with "1.prems"(2) False show False by (simp add: is_char_boundary_def)
    qed
    have "is_char_boundary (drop n s) (i - n)"
      using boundary_drop [OF n(6,3), of "i - n"] "1.prems"(2) ni n(1) by simp
    with "1.IH" [of "i - n"] False n(6,7) have rest: "is_utf8 (take (i - n) (drop n s))" "is_utf8 (drop (i - n) (drop n s))"
      by simp_all
    have il: "i \<le> length s" by (rule boundary_le [OF "1.prems"(2)])
    have "utf8_scan (take i s) = (n, True)"
      using n(7) ni il False
      by (auto simp: utf8_scan_def Let_def hd_take split: if_splits)
    moreover have "take i s \<noteq> []" using False by simp
    ultimately have "is_utf8 (take i s)"
      using rest(1) ni by (subst is_utf8.simps) (simp add: drop_take)
    with rest(2) ni show ?thesis by simp
  qed
qed

text \<open>A boundary is never more than three bytes back.\<close>

lemma boundary_near:
  assumes "is_utf8 s" and "i \<le> length s"
  shows "\<exists>j. is_char_boundary s j \<and> j \<le> i \<and> i \<le> j + 3"
  using assms
proof (induction s arbitrary: i rule: is_utf8.induct)
  case (1 s)
  show ?case
  proof (cases "s = []")
    case True
    with "1.prems" show ?thesis by (intro exI [of _ 0]) simp
  next
    case False
    then have ne: "s \<noteq> []" by simp
    obtain n where n: "1 \<le> n" "n \<le> 4" "n \<le> length s" "\<not> continues (s ! 0)"
      "\<And>i. 0 < i \<Longrightarrow> i < n \<Longrightarrow> continues (s ! i)" "is_utf8 (drop n s)" "utf8_scan s = (n, True)"
      by (rule utf8_first [OF "1.prems"(1) ne]) (rule that)
    show ?thesis
    proof (cases "i < n")
      case True
      with n(2) show ?thesis by (intro exI [of _ 0]) simp
    next
      case ge: False
      have "i - n \<le> length (drop n s)" using "1.prems"(2) by simp
      with "1.IH" [of "i - n"] False n(6,7)
      obtain j where "is_char_boundary (drop n s) j" "j \<le> i - n" "i - n \<le> j + 3"
        by auto
      with boundary_drop [OF n(6,3), of j] ge show ?thesis
        by (intro exI [of _ "n + j"]) auto
    qed
  qed
qed

text \<open>The last boundary at or before a position, as the cutting loops find it.\<close>

fun char_floor :: "string \<Rightarrow> nat \<Rightarrow> nat" where
  "char_floor s 0 = 0"
| "char_floor s (Suc i) = (if is_char_boundary s (Suc i) then Suc i else char_floor s i)"

lemma char_floor_boundary [simp]: "is_char_boundary s (char_floor s i)"
  by (induction i) auto

lemma char_floor_le: "char_floor s i \<le> i"
  by (induction i) (auto intro: le_SucI)

lemma char_floor_greatest: "is_char_boundary s j \<Longrightarrow> j \<le> i \<Longrightarrow> j \<le> char_floor s i"
  by (induction i) (auto simp: le_Suc_eq)

lemma char_floor_near: "is_utf8 s \<Longrightarrow> i \<le> length s \<Longrightarrow> i \<le> char_floor s i + 3"
  by (meson boundary_near char_floor_greatest add_le_mono1 le_trans)

end
