(* ===== verification/Clipboard.thy ===== *)
theory Clipboard
  imports Utf8 Wire Udp "HOL-Library.Monad_Syntax"
begin

text \<open>
  The shared clipboard: how a copy is cut into messages and put together again, the slot that
  keeps a peer's paste for the desktop application and the assembly of the copies the
  application offers: \<^verbatim>\<open>kvm-daemon/src/service.rs\<close>, with the application's side of the two
  exchanges from \<^verbatim>\<open>kvm-ui/src/main.rs\<close>. The session's clipboard agent (the operating
  system's clipboard), the waiting of the long poll and the time-outs of the streams are not
  modelled. A string is the list of its bytes; a loop that cuts one at character boundaries is
  an option, \<open>None\<close> where it would go on forever.
\<close>

section \<open>Cutting a copy into pieces\<close>

definition CLIPBOARD_CHUNK_BYTES :: nat where "CLIPBOARD_CHUNK_BYTES = 48 * 1024"

text \<open>The loop from \<open>start\<close> on: back from the full length to a character boundary.\<close>

partial_function (option) cut_from :: "nat \<Rightarrow> string \<Rightarrow> nat \<Rightarrow> string list option" where
  "cut_from n text start =
     (if start < length text
      then
        (let end = char_floor text (min (start + n) (length text))
         in do { rest \<leftarrow> cut_from n text end;
                 Some (take (end - start) (drop start text) # rest) })
      else Some [])"

definition split_clipboard_chunks :: "string \<Rightarrow> string list option" where
  "split_clipboard_chunks text =
     (if length text \<le> CLIPBOARD_CHUNK_BYTES then Some [text]
      else cut_from CLIPBOARD_CHUNK_BYTES text 0)"

definition split_base64_chunks :: "string \<Rightarrow> string list" where
  "split_base64_chunks encoded =
     (if length encoded \<le> CLIPBOARD_CHUNK_BYTES then [encoded]
      else chunks_of CLIPBOARD_CHUNK_BYTES encoded)"

definition split_relay_payload :: "string \<Rightarrow> bool \<Rightarrow> string list option" where
  "split_relay_payload payload is_text =
     (if length payload \<le> CLIPBOARD_CHUNK_BYTES then Some [payload]
      else if \<not> is_text then Some (map from_utf8_lossy (chunks_of CLIPBOARD_CHUNK_BYTES payload))
      else cut_from CLIPBOARD_CHUNK_BYTES payload 0)"

section \<open>Sending\<close>

record image_paste =
  im_png_base64 :: string
  im_width :: u32
  im_height :: u32

datatype clipboard_changed = TextChanged string | ImageChanged image_paste

text \<open>The messages of one update; they are written one after another.\<close>

definition send_clipboard_text :: "u64 \<Rightarrow> string \<Rightarrow> wire_message list option" where
  "send_clipboard_text revision text =
     (if length text \<le> MAX_CLIPBOARD_TEXT_BYTES then Some [ClipboardText revision text]
      else do {
        chunks \<leftarrow> split_clipboard_chunks text;
        Some (ClipboardStart revision (of_nat (length text)) (of_nat (length chunks))
          # map (\<lambda>(index, data). ClipboardChunk revision (of_nat index) data) (enumerate 0 chunks)
          @ [ClipboardEnd revision]) })"

definition send_clipboard_image :: "u64 \<Rightarrow> image_paste \<Rightarrow> wire_message list" where
  "send_clipboard_image revision paste =
     (let encoded = im_png_base64 paste; chunks = split_base64_chunks encoded
      in if length encoded \<le> MAX_CLIPBOARD_TEXT_BYTES
         then [ClipboardImage revision (im_width paste) (im_height paste) encoded]
         else ClipboardImageStart revision (of_nat (length encoded)) (of_nat (length chunks))
             (im_width paste) (im_height paste)
           # map (\<lambda>(index, data). ClipboardImageChunk revision (of_nat index) data) (enumerate 0 chunks)
           @ [ClipboardImageEnd revision])"

text \<open>A change over the cap stays local. The inner option is the code's.\<close>

definition send_clipboard_change ::
  "u64 \<Rightarrow> clipboard_changed \<Rightarrow> nat \<Rightarrow> (u64 \<times> wire_message list) option option" where
  "send_clipboard_change revision0 change max_bytes =
     (let bytes = (case change of TextChanged text \<Rightarrow> length text
          | ImageChanged paste \<Rightarrow> length (im_png_base64 paste));
          revision = revision0 + 1
      in if bytes > max_bytes then Some None
         else case change of
           TextChanged text \<Rightarrow> map_option (\<lambda>ms. Some (revision, ms)) (send_clipboard_text revision text)
         | ImageChanged paste \<Rightarrow> Some (Some (revision, send_clipboard_image revision paste)))"

text \<open>What a fresh episode starts with: the text, then the image.\<close>

definition send_initial_clipboard ::
  "string option \<Rightarrow> image_paste option \<Rightarrow> u64 \<Rightarrow> nat \<Rightarrow> (u64 \<times> wire_message list) option" where
  "send_initial_clipboard text picture revision max_bytes =
     do {
       (r1, m1) \<leftarrow> (case text of
           Some t \<Rightarrow> if length t \<le> max_bytes
             then map_option (Pair (revision + 1)) (send_clipboard_text (revision + 1) t)
             else Some (revision, [])
         | None \<Rightarrow> Some (revision, []));
       (case picture of
          Some paste \<Rightarrow> if length (im_png_base64 paste) \<le> max_bytes
            then Some (r1 + 1, m1 @ send_clipboard_image (r1 + 1) paste)
            else Some (r1, m1)
        | None \<Rightarrow> Some (r1, m1)) }"

section \<open>Putting a paste together\<close>

record clipboard_assembly =
  cb_revision :: u64
  cb_total_bytes :: u64
  cb_expected_chunks :: u32
  cb_next_index :: u32
  cb_received_bytes :: u64
  cb_buffer :: string

record image_assembly = clipboard_assembly +
  cb_width :: u32
  cb_height :: u32

definition no_assembly :: clipboard_assembly where
  "no_assembly = \<lparr>cb_revision = 0, cb_total_bytes = 0, cb_expected_chunks = 0, cb_next_index = 0,
     cb_received_bytes = 0, cb_buffer = []\<rparr>"

definition no_image :: image_assembly where
  "no_image = clipboard_assembly.extend no_assembly (image_assembly.fields 0 0)"

datatype 'a feed_result = Dropped | Pending | Ready 'a

text \<open>The tests and the step the text and the image assembly share.\<close>

definition chunk_fits :: "u64 \<Rightarrow> u32 \<Rightarrow> string \<Rightarrow> 'x clipboard_assembly_scheme \<Rightarrow> bool" where
  "chunk_fits revision index data a \<longleftrightarrow>
     \<not> (revision \<noteq> cb_revision a \<or> cb_expected_chunks a = 0 \<or> index \<noteq> cb_next_index a
        \<or> cb_received_bytes a + of_nat (length data) > cb_total_bytes a)"

definition add_chunk :: "string \<Rightarrow> 'x clipboard_assembly_scheme \<Rightarrow> 'x clipboard_assembly_scheme" where
  "add_chunk data a = a\<lparr>cb_buffer := cb_buffer a @ data,
     cb_received_bytes := cb_received_bytes a + of_nat (length data),
     cb_next_index := cb_next_index a + 1\<rparr>"

definition is_complete :: "u64 \<Rightarrow> 'x clipboard_assembly_scheme \<Rightarrow> bool" where
  "is_complete revision a \<longleftrightarrow>
     \<not> (revision \<noteq> cb_revision a \<or> cb_expected_chunks a = 0 \<or> cb_next_index a \<noteq> cb_expected_chunks a
        \<or> cb_received_bytes a \<noteq> cb_total_bytes a)"

definition feed_start ::
  "u64 \<Rightarrow> u64 \<Rightarrow> u32 \<Rightarrow> u64 \<Rightarrow> clipboard_assembly \<times> string feed_result" where
  "feed_start revision total_bytes chunks max_bytes =
     (if total_bytes = 0 \<or> total_bytes > max_bytes \<or> chunks = 0 then (no_assembly, Dropped)
      else (no_assembly\<lparr>cb_revision := revision, cb_total_bytes := total_bytes,
              cb_expected_chunks := chunks\<rparr>, Pending))"

definition feed_text_chunk ::
  "u64 \<Rightarrow> u32 \<Rightarrow> string \<Rightarrow> clipboard_assembly \<Rightarrow> clipboard_assembly \<times> string feed_result" where
  "feed_text_chunk revision index data a =
     (if chunk_fits revision index data a then (add_chunk data a, Pending) else (no_assembly, Dropped))"

definition feed_end :: "u64 \<Rightarrow> clipboard_assembly \<Rightarrow> clipboard_assembly \<times> string feed_result" where
  "feed_end revision a =
     (no_assembly, if is_complete revision a then Ready (cb_buffer a) else Dropped)"

definition feed_image_start ::
  "u64 \<Rightarrow> u64 \<Rightarrow> u32 \<Rightarrow> u32 \<Rightarrow> u32 \<Rightarrow> u64 \<Rightarrow> image_assembly \<times> image_paste feed_result" where
  "feed_image_start revision total_bytes chunks width height max_bytes =
     (if total_bytes = 0 \<or> total_bytes > max_bytes \<or> chunks = 0 \<or> width = 0 \<or> height = 0
         \<or> width > 16384 \<or> height > 16384
      then (no_image, Dropped)
      else (no_image\<lparr>cb_revision := revision, cb_total_bytes := total_bytes,
              cb_expected_chunks := chunks, cb_width := width, cb_height := height\<rparr>, Pending))"

definition feed_image_chunk ::
  "u64 \<Rightarrow> u32 \<Rightarrow> string \<Rightarrow> image_assembly \<Rightarrow> image_assembly \<times> image_paste feed_result" where
  "feed_image_chunk revision index data a =
     (if chunk_fits revision index data a then (add_chunk data a, Pending) else (no_image, Dropped))"

definition feed_image_end :: "u64 \<Rightarrow> image_assembly \<Rightarrow> image_assembly \<times> image_paste feed_result" where
  "feed_image_end revision a =
     (no_image, if is_complete revision a
        then Ready \<lparr>im_png_base64 = cb_buffer a, im_width = cb_width a, im_height = cb_height a\<rparr>
        else Dropped)"


section \<open>The slot for the application\<close>

datatype clipboard_kind = TextKind | ImagePng

record relay_paste =
  rp_revision :: u64
  rp_kind :: clipboard_kind
  rp_chunks :: "string list"
  rp_total_bytes :: u64
  rp_width :: u32
  rp_height :: u32

definition stash_inbound_clipboard ::
  "u64 \<Rightarrow> clipboard_kind \<Rightarrow> string \<Rightarrow> u32 \<Rightarrow> u32 \<Rightarrow> relay_paste option" where
  "stash_inbound_clipboard revision kind payload width height =
     do { chunks \<leftarrow> split_relay_payload payload (kind = TextKind);
          Some \<lparr>rp_revision = revision, rp_kind = kind, rp_chunks = chunks,
            rp_total_bytes = of_nat (length payload), rp_width = width, rp_height = height\<rparr> }"

record clipboard_update =
  cu_revision :: u64
  cu_kind :: clipboard_kind
  cu_total_bytes :: u64
  cu_total_chunks :: u32
  cu_index :: u32
  cu_data :: string
  cu_width :: u32
  cu_height :: u32
  cu_enabled :: "bool option"

definition nothing_new :: "bool \<Rightarrow> clipboard_update" where
  "nothing_new enabled = \<lparr>cu_revision = 0, cu_kind = TextKind, cu_total_bytes = 0, cu_total_chunks = 0,
     cu_index = 0, cu_data = [], cu_width = 0, cu_height = 0, cu_enabled = Some enabled\<rparr>"

definition poll_inbound_clipboard ::
  "u64 \<Rightarrow> u32 \<Rightarrow> bool \<Rightarrow> relay_paste option \<Rightarrow> clipboard_update" where
  "poll_inbound_clipboard last_seen next_index enabled slot =
     (case slot of
        None \<Rightarrow> nothing_new enabled
      | Some paste \<Rightarrow>
          if rp_revision paste = 0 \<or> rp_revision paste = last_seen then nothing_new enabled
          else if unat next_index < length (rp_chunks paste)
          then \<lparr>cu_revision = rp_revision paste, cu_kind = rp_kind paste,
                 cu_total_bytes = rp_total_bytes paste,
                 cu_total_chunks = of_nat (length (rp_chunks paste)), cu_index = next_index,
                 cu_data = rp_chunks paste ! unat next_index, cu_width = rp_width paste,
                 cu_height = rp_height paste, cu_enabled = Some enabled\<rparr>
          else nothing_new enabled)"

section \<open>The receiving loop\<close>

text \<open>What one session keeps, with the slot it fills.\<close>

record clipboard_session =
  cs_enabled :: bool
  cs_max_bytes :: u64
  cs_remote_revision :: u64
  cs_text :: clipboard_assembly
  cs_image :: image_assembly
  cs_latest_text :: "string option"
  cs_latest_image :: "image_paste option"
  cs_relay :: "relay_paste option"

definition clipboard_frame_current :: "bool \<Rightarrow> u64 \<Rightarrow> u64 \<Rightarrow> bool" where
  "clipboard_frame_current enabled revision remote \<longleftrightarrow> enabled \<and> \<not> revision \<le> remote"

definition apply_inbound_clipboard ::
  "u64 \<Rightarrow> string \<Rightarrow> clipboard_session \<Rightarrow> clipboard_session option" where
  "apply_inbound_clipboard revision text s =
     do { paste \<leftarrow> stash_inbound_clipboard revision TextKind text 0 0;
          Some (s\<lparr>cs_remote_revision := revision, cs_relay := Some paste, cs_latest_text := Some text\<rparr>) }"

definition apply_inbound_clipboard_image ::
  "u64 \<Rightarrow> image_paste \<Rightarrow> clipboard_session \<Rightarrow> clipboard_session option" where
  "apply_inbound_clipboard_image revision picture s =
     do { paste \<leftarrow> stash_inbound_clipboard revision ImagePng (im_png_base64 picture)
            (im_width picture) (im_height picture);
          Some (s\<lparr>cs_remote_revision := revision, cs_relay := Some paste,
                  cs_latest_image := Some picture\<rparr>) }"

fun handle_clipboard :: "wire_message \<Rightarrow> clipboard_session \<Rightarrow> clipboard_session option" where
  "handle_clipboard (ClipboardText revision text) s =
     (if \<not> clipboard_frame_current (cs_enabled s) revision (cs_remote_revision s) then Some s
      else if of_nat (length text) > cs_max_bytes s then Some s
      else apply_inbound_clipboard revision text s)"
| "handle_clipboard (ClipboardStart revision total_bytes chunks) s =
     (if \<not> clipboard_frame_current (cs_enabled s) revision (cs_remote_revision s) then Some s
      else Some (s\<lparr>cs_text := fst (feed_start revision total_bytes chunks (cs_max_bytes s))\<rparr>))"
| "handle_clipboard (ClipboardChunk revision index data) s =
     (if \<not> clipboard_frame_current (cs_enabled s) revision (cs_remote_revision s) then Some s
      else Some (s\<lparr>cs_text := fst (feed_text_chunk revision index data (cs_text s))\<rparr>))"
| "handle_clipboard (ClipboardEnd revision) s =
     (if \<not> clipboard_frame_current (cs_enabled s) revision (cs_remote_revision s) then Some s
      else
        (case feed_end revision (cs_text s) of
           (a, Ready text) \<Rightarrow> apply_inbound_clipboard revision text (s\<lparr>cs_text := a\<rparr>)
         | (a, _) \<Rightarrow> Some (s\<lparr>cs_text := a\<rparr>)))"
| "handle_clipboard (ClipboardImage revision width height png_base64) s =
     (if \<not> clipboard_frame_current (cs_enabled s) revision (cs_remote_revision s) then Some s
      else if of_nat (length png_base64) > cs_max_bytes s then Some s
      else apply_inbound_clipboard_image revision
             \<lparr>im_png_base64 = png_base64, im_width = width, im_height = height\<rparr> s)"
| "handle_clipboard (ClipboardImageStart revision total_bytes chunks width height) s =
     (if \<not> clipboard_frame_current (cs_enabled s) revision (cs_remote_revision s) then Some s
      else Some (s\<lparr>cs_image :=
             fst (feed_image_start revision total_bytes chunks width height (cs_max_bytes s))\<rparr>))"
| "handle_clipboard (ClipboardImageChunk revision index data) s =
     (if \<not> clipboard_frame_current (cs_enabled s) revision (cs_remote_revision s) then Some s
      else Some (s\<lparr>cs_image := fst (feed_image_chunk revision index data (cs_image s))\<rparr>))"
| "handle_clipboard (ClipboardImageEnd revision) s =
     (if \<not> clipboard_frame_current (cs_enabled s) revision (cs_remote_revision s) then Some s
      else
        (case feed_image_end revision (cs_image s) of
           (a, Ready picture) \<Rightarrow> apply_inbound_clipboard_image revision picture (s\<lparr>cs_image := a\<rparr>)
         | (a, _) \<Rightarrow> Some (s\<lparr>cs_image := a\<rparr>)))"
| "handle_clipboard _ s = Some s"

fun handle_all :: "wire_message list \<Rightarrow> clipboard_session \<Rightarrow> clipboard_session option" where
  "handle_all [] s = Some s"
| "handle_all (m # ms) s = do { s1 \<leftarrow> handle_clipboard m s; handle_all ms s1 }"

section \<open>Offers of the application\<close>

record local_offer =
  lo_generation :: u64
  lo_kind :: clipboard_kind
  lo_payload :: string
  lo_width :: u32
  lo_height :: u32

record offer_assembly =
  oa_generation :: u64
  oa_kind :: clipboard_kind
  oa_total_chunks :: u32
  oa_chunks :: "string option list"
  oa_width :: u32
  oa_height :: u32

definition no_offer :: offer_assembly where
  "no_offer = \<lparr>oa_generation = 0, oa_kind = TextKind, oa_total_chunks = 0, oa_chunks = [],
     oa_width = 0, oa_height = 0\<rparr>"

definition push_offer ::
  "u64 \<Rightarrow> clipboard_kind \<Rightarrow> u32 \<Rightarrow> u32 \<Rightarrow> string \<Rightarrow> u32 \<Rightarrow> u32 \<Rightarrow> offer_assembly
     \<Rightarrow> offer_assembly \<times> (string + local_offer option)" where
  "push_offer generation kind total_chunks index data width height a =
     (if generation = 0 \<or> total_chunks = 0 \<or> total_chunks > 512 \<or> index \<ge> total_chunks
      then (a, Inl ''clipboard offer is malformed'')
      else if length data > CLIPBOARD_CHUNK_BYTES
      then (a, Inl ''clipboard offer chunk is too large'')
      else
        (let b = (if oa_generation a \<noteq> generation \<or> oa_total_chunks a \<noteq> total_chunks
                  then \<lparr>oa_generation = generation, oa_kind = kind, oa_total_chunks = total_chunks,
                         oa_chunks = replicate (unat total_chunks) None, oa_width = width,
                         oa_height = height\<rparr>
                  else a)
         in if \<not> unat index < length (oa_chunks b)
            then (b, Inl ''clipboard offer chunk does not match the transfer'')
            else
              (let c = b\<lparr>oa_chunks := (oa_chunks b)[unat index := Some data]\<rparr>
               in if list_ex (\<lambda>chunk. chunk = None) (oa_chunks c) then (c, Inr None)
                  else (no_offer, Inr (Some \<lparr>lo_generation = generation, lo_kind = oa_kind c,
                    lo_payload = concat (map (\<lambda>chunk. case chunk of None \<Rightarrow> [] | Some d \<Rightarrow> d) (oa_chunks c)),
                    lo_width = oa_width c, lo_height = oa_height c\<rparr>)))))"

text \<open>A published offer on its way to the peer.\<close>

definition offered_change :: "local_offer \<Rightarrow> clipboard_changed" where
  "offered_change offer =
     (case lo_kind offer of
        TextKind \<Rightarrow> TextChanged (lo_payload offer)
      | ImagePng \<Rightarrow> ImageChanged \<lparr>im_png_base64 = lo_payload offer, im_width = lo_width offer,
          im_height = lo_height offer\<rparr>)"

definition forward_local_clipboard_offer ::
  "local_offer \<Rightarrow> u64 \<Rightarrow> nat \<Rightarrow> (u64 \<times> wire_message list \<times> bool) option" where
  "forward_local_clipboard_offer offer revision0 max_bytes =
     map_option (\<lambda>r. case r of
         Some (revision, ms) \<Rightarrow> (revision, ms, True)
       | None \<Rightarrow> (revision0, [], False))
       (send_clipboard_change revision0 (offered_change offer) max_bytes)"

section \<open>The application's side\<close>

definition OFFER_CHUNK_BYTES :: nat where "OFFER_CHUNK_BYTES = 48 * 1024"

text \<open>Back to a boundary, but not past \<open>start\<close>.\<close>

fun floor_above :: "nat \<Rightarrow> string \<Rightarrow> nat \<Rightarrow> nat" where
  "floor_above start s 0 = 0"
| "floor_above start s (Suc i) =
     (if Suc i > start \<and> \<not> is_char_boundary s (Suc i) then floor_above start s i else Suc i)"

lemma floor_above_ge: "start \<le> i \<Longrightarrow> start \<le> floor_above start s i"
  by (induction i) (auto simp: le_Suc_eq)

function offer_from :: "nat \<Rightarrow> string \<Rightarrow> nat \<Rightarrow> string list" where
  "offer_from n payload start =
     (if start < length payload
      then
        (let end = floor_above start payload (min (start + n) (length payload))
         in if end = start then []
            else take (end - start) (drop start payload) # offer_from n payload end)
      else [])"
  by auto
termination
proof (relation "measure (\<lambda>(n, payload, start). length payload - start)")
  fix n start x and payload :: string
  assume "start < length payload" "x = floor_above start payload (min (start + n) (length payload))" "x \<noteq> start"
  moreover from this have "start \<le> x" by (simp add: floor_above_ge)
  ultimately show "((n, payload, x), n, payload, start) \<in> measure (\<lambda>(n, payload, start). length payload - start)"
    by simp
qed simp

declare offer_from.simps [simp del]

definition split_offer_payload :: "string \<Rightarrow> bool \<Rightarrow> string list" where
  "split_offer_payload payload text =
     (if length payload \<le> OFFER_CHUNK_BYTES then [payload]
      else if \<not> text then map from_utf8_lossy (chunks_of OFFER_CHUNK_BYTES payload)
      else offer_from OFFER_CHUNK_BYTES payload 0)"

text \<open>The daemon's answers to the chunks, up to the first refusal.\<close>

fun offer_chunks ::
  "clipboard_kind \<Rightarrow> u64 \<Rightarrow> u32 \<Rightarrow> u32 \<Rightarrow> u32 \<Rightarrow> (nat \<times> string) list \<Rightarrow> offer_assembly
     \<Rightarrow> offer_assembly \<times> local_offer list \<times> string option" where
  "offer_chunks kind generation announced width height [] a = (a, [], None)"
| "offer_chunks kind generation announced width height ((index, data) # rest) a =
     (case push_offer generation kind announced (of_nat index) data width height a of
        (a1, Inl e) \<Rightarrow> (a1, [], Some e)
      | (a1, Inr offer) \<Rightarrow>
          (case offer_chunks kind generation announced width height rest a1 of
             (a2, offers, e) \<Rightarrow> (a2, (case offer of None \<Rightarrow> offers | Some o1 \<Rightarrow> o1 # offers), e)))"

definition offer_local_clipboard ::
  "clipboard_kind \<Rightarrow> u64 \<Rightarrow> string \<Rightarrow> u32 \<Rightarrow> u32 \<Rightarrow> offer_assembly
     \<Rightarrow> offer_assembly \<times> local_offer list \<times> string option" where
  "offer_local_clipboard kind generation payload width height a =
     (let chunks = split_offer_payload payload (kind = TextKind)
      in if chunks = [] then (a, [], Some ''clipboard offer was empty'')
         else offer_chunks kind generation (of_nat (length chunks)) width height (enumerate 0 chunks) a)"

text \<open>
  One round of the application's loop while sync is on. \<open>slots i\<close> is what the daemon's slot holds
  at the \<open>i\<close>th poll of the round; \<open>superseded\<close> says whether a local copy was offered meanwhile.
\<close>

fun collect_chunks ::
  "(nat \<Rightarrow> relay_paste option) \<Rightarrow> u64 \<Rightarrow> clipboard_update \<Rightarrow> nat list \<Rightarrow> string list option" where
  "collect_chunks slots last_seen head [] = Some []"
| "collect_chunks slots last_seen head (index # rest) =
     (let update = poll_inbound_clipboard last_seen (of_nat index) True (slots index)
      in if cu_revision update = cu_revision head \<and> cu_index update = of_nat index
         then do { ds \<leftarrow> collect_chunks slots last_seen head rest; Some (cu_data update # ds) }
         else None)"

definition clipboard_take ::
  "(nat \<Rightarrow> relay_paste option) \<Rightarrow> bool \<Rightarrow> u64 \<Rightarrow> u64 \<times> (clipboard_kind \<times> string) option" where
  "clipboard_take slots superseded last_seen =
     (let head = poll_inbound_clipboard last_seen 0 True (slots 0)
      in if cu_revision head = 0 \<or> cu_revision head \<le> last_seen \<or> cu_total_chunks head = 0
         then (last_seen, None)
         else case collect_chunks slots last_seen head [1..<unat (cu_total_chunks head)] of
           None \<Rightarrow> (last_seen, None)
         | Some rest \<Rightarrow>
             if superseded then (cu_revision head, None)
             else (cu_revision head, Some (cu_kind head, concat (cu_data head # rest))))"

text \<open>While sync is off a paste is consumed without being applied.\<close>

definition clipboard_skip :: "relay_paste option \<Rightarrow> u64 \<Rightarrow> u64" where
  "clipboard_skip slot last_seen =
     (let update = poll_inbound_clipboard last_seen 0 False slot
      in if cu_revision update > last_seen then cu_revision update else last_seen)"

end
