(* ===== verification/ClipboardRuns.thy ===== *)
theory ClipboardRuns
  imports Clipboard Reassembly
begin

text \<open>
  What the clipboard promises: a copy arrives whole at the other application, nothing but
  a complete transfer is ever applied; and where it falls short.
\<close>

section \<open>Cutting and joining\<close>

lemma floor_above_eq:
  "is_char_boundary s start \<Longrightarrow> start \<le> i \<Longrightarrow> floor_above start s i = char_floor s i"
proof (induction i)
  case (Suc i)
  show ?case
  proof (cases "start \<le> i")
    case True
    with Suc show ?thesis by simp
  next
    case False
    with Suc.prems have "start = Suc i" by simp
    with Suc.prems show ?thesis by simp
  qed
qed simp

lemma cut_step:
  assumes utf8: "is_utf8 text" and n: "4 \<le> n" and start: "is_char_boundary text start"
    and less: "start < length text"
  defines "e \<equiv> char_floor text (min (start + n) (length text))"
  shows "start < e" "e \<le> length text" "e - start \<le> n" "is_char_boundary text e"
    "is_utf8 (take (e - start) (drop start text))" "e < length text \<Longrightarrow> n - 3 \<le> e - start"
proof -
  let ?m = "min (start + n) (length text)"
  have near: "?m \<le> e + 3" unfolding e_def by (rule char_floor_near [OF utf8]) simp
  have le: "e \<le> ?m" unfolding e_def by (rule char_floor_le)
  have last: "e = length text" if "length text \<le> start + n"
  proof -
    from that have m: "?m = length text" by simp
    have "length text \<le> e" unfolding e_def m by (rule char_floor_greatest) simp_all
    with le show ?thesis by simp
  qed
  show "start < e" using near last less n by (cases "length text \<le> start + n") auto
  show "e \<le> length text" "e - start \<le> n" using le by auto
  show boundary: "is_char_boundary text e" by (simp add: e_def)
  show "n - 3 \<le> e - start" if "e < length text"
    using that near last by (cases "length text \<le> start + n") auto
  have "is_utf8 (drop start text)" using utf8_cut [OF utf8 start] ..
  moreover have "is_char_boundary (drop start text) (e - start)"
    using boundary_drop [OF calculation, of "e - start"] boundary \<open>start < e\<close> less by simp
  ultimately show "is_utf8 (take (e - start) (drop start text))"
    using utf8_cut by blast
qed

text \<open>On valid text both cutting loops end, with the same pieces.\<close>

lemma cut_from_ok:
  assumes utf8: "is_utf8 text" and n: "4 \<le> n" and start: "is_char_boundary text start"
  shows "cut_from n text start = Some (offer_from n text start)
    \<and> concat (offer_from n text start) = drop start text
    \<and> (\<forall>c \<in> set (offer_from n text start). c \<noteq> [] \<and> length c \<le> n \<and> is_utf8 c)
    \<and> length (offer_from n text start) * (n - 3) \<le> length text - start + (n - 3)"
  using start
proof (induction "length text - start" arbitrary: start rule: less_induct)
  case less
  show ?case
  proof (cases "start < length text")
    case False
    then show ?thesis
      by (subst cut_from.simps, subst (1 2 3 4) offer_from.simps) simp
  next
    case True
    let ?e = "char_floor text (min (start + n) (length text))"
    note step = cut_step [OF utf8 n less.prems True]
    have floor: "floor_above start text (min (start + n) (length text)) = ?e"
      using floor_above_eq [OF less.prems] True by simp
    let ?piece = "take (?e - start) (drop start text)"
    have offer: "offer_from n text start = ?piece # offer_from n text ?e"
      using step(1) True by (subst offer_from.simps) (simp add: floor Let_def)
    have cut: "cut_from n text start = do { rest \<leftarrow> cut_from n text ?e; Some (?piece # rest) }"
      using True by (subst cut_from.simps) (simp add: Let_def)
    have "length text - ?e < length text - start" using step(1) True by simp
    note IH = less.hyps [OF this step(4)]
    have joined: "?piece @ drop ?e text = drop start text"
      using step(1,2) by (metis append_take_drop_id drop_drop le_add_diff_inverse2 less_imp_le)
    have "Suc (length (offer_from n text ?e)) * (n - 3) \<le> length text - start + (n - 3)"
    proof (cases "?e < length text")
      case True
      with IH step(1,6) show ?thesis by (simp add: algebra_simps) linarith
    next
      case False
      then have "offer_from n text ?e = []" by (subst offer_from.simps) simp
      then show ?thesis by simp
    qed
    then have bound: "length (offer_from n text start) * (n - 3) \<le> length text - start + (n - 3)"
      unfolding offer list.size by simp
    have "?piece \<noteq> []" "length ?piece \<le> n" using step(1,3) True by auto
    with IH step(5) have "\<forall>c \<in> set (offer_from n text start). c \<noteq> [] \<and> length c \<le> n \<and> is_utf8 c"
      unfolding offer by (simp only: list.set insert_iff ball_simps) blast
    moreover have "cut_from n text start = Some (offer_from n text start)"
      "concat (offer_from n text start) = drop start text"
      using IH joined by (simp_all add: offer cut)
    ultimately show ?thesis using bound by blast
  qed
qed

lemma chunk_constants [simp]:
  "CLIPBOARD_CHUNK_BYTES = 49152" "OFFER_CHUNK_BYTES = 49152" "MAX_CLIPBOARD_TEXT_BYTES = 49152"
  by (simp_all add: CLIPBOARD_CHUNK_BYTES_def OFFER_CHUNK_BYTES_def MAX_CLIPBOARD_TEXT_BYTES_def)

definition text_pieces :: "string \<Rightarrow> string list" where
  "text_pieces text = (if length text \<le> 49152 then [text] else offer_from 49152 text 0)"

lemma text_pieces:
  assumes "is_utf8 text"
  shows "split_clipboard_chunks text = Some (text_pieces text)"
    "split_relay_payload text True = Some (text_pieces text)"
    "split_offer_payload text True = text_pieces text"
    "concat (text_pieces text) = text" "text_pieces text \<noteq> []"
    "\<And>c. c \<in> set (text_pieces text) \<Longrightarrow> length c \<le> 49152 \<and> is_utf8 c"
    "length (text_pieces text) * 49149 \<le> length text + 49149"
proof -
  have ok: "cut_from 49152 text 0 = Some (offer_from 49152 text 0)"
    "concat (offer_from 49152 text 0) = text"
    "\<forall>c \<in> set (offer_from 49152 text 0). c \<noteq> [] \<and> length c \<le> 49152 \<and> is_utf8 c"
    "length (offer_from 49152 text 0) * 49149 \<le> length text + 49149"
    using cut_from_ok [OF assms, of 49152 0] by simp_all
  show "split_clipboard_chunks text = Some (text_pieces text)"
    "split_relay_payload text True = Some (text_pieces text)"
    "split_offer_payload text True = text_pieces text"
    by (simp_all add: text_pieces_def split_clipboard_chunks_def split_relay_payload_def
        split_offer_payload_def ok(1))
  show "concat (text_pieces text) = text" by (simp add: text_pieces_def ok(2))
  show "length c \<le> 49152 \<and> is_utf8 c" if "c \<in> set (text_pieces text)" for c
    using that assms bspec [OF ok(3)] by (cases "length text \<le> 49152") (simp_all add: text_pieces_def)
  show "length (text_pieces text) * 49149 \<le> length text + 49149"
    using ok(4) by (simp add: text_pieces_def)
  show "text_pieces text \<noteq> []"
    using ok(2) by (auto simp: text_pieces_def)
qed

text \<open>Any cut of ASCII text is valid text again.\<close>

definition is_ascii :: "string \<Rightarrow> bool" where "is_ascii s = list_all (\<lambda>c. byte c < 0x80) s"

lemma ascii_pieces:
  assumes "is_ascii s" and "0 < n"
  shows "map from_utf8_lossy (chunks_of n s) = chunks_of n s"
proof -
  have "from_utf8_lossy c = c" if "c \<in> set (chunks_of n s)" for c
  proof (intro from_utf8_lossy_valid is_utf8_ascii)
    have "set c \<subseteq> set (concat (chunks_of n s))" using that by auto
    with assms show "list_all (\<lambda>c. byte c < 0x80) c"
      by (auto simp: is_ascii_def list_all_iff concat_chunks_of)
  qed
  then show ?thesis by (simp add: map_idI)
qed

definition base64_pieces :: "string \<Rightarrow> string list" where
  "base64_pieces s = (if length s \<le> 49152 then [s] else chunks_of 49152 s)"

lemma base64_pieces:
  assumes "is_ascii s"
  shows "split_base64_chunks s = base64_pieces s" "split_relay_payload s False = Some (base64_pieces s)"
    "split_offer_payload s False = base64_pieces s"
    "concat (base64_pieces s) = s" "base64_pieces s \<noteq> []"
    "\<And>c. c \<in> set (base64_pieces s) \<Longrightarrow> length c \<le> 49152"
    "length (base64_pieces s) * 49152 \<le> length s + 49152"
proof -
  show "split_base64_chunks s = base64_pieces s" "split_relay_payload s False = Some (base64_pieces s)"
    "split_offer_payload s False = base64_pieces s"
    using ascii_pieces [OF assms, of 49152]
    by (simp_all add: base64_pieces_def split_base64_chunks_def split_relay_payload_def split_offer_payload_def)
  show "concat (base64_pieces s) = s" by (simp add: base64_pieces_def concat_chunks_of)
  show "base64_pieces s \<noteq> []"
    using concat_chunks_of [of 49152 s] by (auto simp: base64_pieces_def)
  show "\<And>c. c \<in> set (base64_pieces s) \<Longrightarrow> length c \<le> 49152"
    by (auto simp: base64_pieces_def chunks_of_small split: if_splits)
  show "length (base64_pieces s) * 49152 \<le> length s + 49152"
    by (auto simp: base64_pieces_def length_chunks_of)
qed


section \<open>A transfer and its receiver\<close>

lemma handle_all_append:
  "handle_all (ms @ ns) s = do { s1 \<leftarrow> handle_all ms s; handle_all ns s1 }"
  by (induction ms arbitrary: s) (auto split: bind_split)

text \<open>An assembly that has the first pieces of a transfer.\<close>

definition holds :: "u64 \<Rightarrow> nat \<Rightarrow> nat \<Rightarrow> string list \<Rightarrow> 'x clipboard_assembly_scheme \<Rightarrow> bool" where
  "holds r sz count cs a \<longleftrightarrow>
     cb_revision a = r \<and> cb_total_bytes a = of_nat sz \<and> cb_expected_chunks a = of_nat count
     \<and> cb_next_index a = of_nat (length cs) \<and> cb_buffer a = concat cs
     \<and> cb_received_bytes a = of_nat (length (concat cs))"

lemma of_nat_u64_le: "a \<le> b \<Longrightarrow> b < 2 ^ 64 \<Longrightarrow> (of_nat a :: u64) \<le> of_nat b"
  by (simp add: word_le_nat_alt unat_of_nat take_bit_nat_eq_self_iff take_bit_nat_eq_self)

lemma of_nat_u32_eq_0: "0 < n \<Longrightarrow> n < 2 ^ 32 \<Longrightarrow> (of_nat n :: u32) \<noteq> 0"
  by (auto simp: word_of_nat_eq_0_iff dest: dvd_imp_le)

lemma holds_add:
  assumes "holds r sz count cs a" and "length (concat cs) + length c \<le> sz"
    and "sz < 2 ^ 64" and "0 < count" "count < 2 ^ 32"
  shows "chunk_fits r (of_nat (length cs)) c a" "holds r sz count (cs @ [c]) (add_chunk c a)"
proof -
  have "(of_nat (length (concat cs) + length c) :: u64) \<le> of_nat sz"
    using assms(2,3) by (rule of_nat_u64_le)
  moreover have "(of_nat count :: u32) \<noteq> 0" using assms(4,5) by (rule of_nat_u32_eq_0)
  ultimately show "chunk_fits r (of_nat (length cs)) c a"
    using assms(1) by (simp add: chunk_fits_def holds_def not_less)
  show "holds r sz count (cs @ [c]) (add_chunk c a)"
    using assms(1) by (simp add: holds_def add_chunk_def)
qed

lemma handle_text_chunks:
  assumes "clipboard_frame_current (cs_enabled s) r (cs_remote_revision s)"
    and "holds r sz count got (cs_text s)"
    and "length (concat (got @ cs)) \<le> sz" and "sz < 2 ^ 64" and "0 < count" "count < 2 ^ 32"
  shows "\<exists>a. handle_all (map (\<lambda>(i, d). ClipboardChunk r (of_nat i) d) (enumerate (length got) cs)) s
      = Some (s\<lparr>cs_text := a\<rparr>) \<and> holds r sz count (got @ cs) a"
  using assms(1-3)
proof (induction cs arbitrary: got s)
  case Nil
  then show ?case by (intro exI [of _ "cs_text s"]) simp
next
  case (Cons c cs)
  have "length (concat got) + length c \<le> sz" using Cons.prems(3) by simp
  note add = holds_add [OF Cons.prems(2) this assms(4-6)]
  let ?s = "s\<lparr>cs_text := add_chunk c (cs_text s)\<rparr>"
  have "handle_clipboard (ClipboardChunk r (of_nat (length got)) c) s = Some ?s"
    using Cons.prems(1) add(1) by (simp add: feed_text_chunk_def)
  then show ?case
    using Cons.IH [of ?s "got @ [c]"] Cons.prems(1,3) add(2) by (auto simp: enumerate_simps)
qed

lemma handle_image_chunks:
  assumes "clipboard_frame_current (cs_enabled s) r (cs_remote_revision s)"
    and "holds r sz count got (cs_image s)" "cb_width (cs_image s) = w" "cb_height (cs_image s) = h"
    and "length (concat (got @ cs)) \<le> sz" and "sz < 2 ^ 64" and "0 < count" "count < 2 ^ 32"
  shows "\<exists>a. handle_all (map (\<lambda>(i, d). ClipboardImageChunk r (of_nat i) d) (enumerate (length got) cs)) s
      = Some (s\<lparr>cs_image := a\<rparr>) \<and> holds r sz count (got @ cs) a \<and> cb_width a = w \<and> cb_height a = h"
  using assms(1-5)
proof (induction cs arbitrary: got s)
  case Nil
  then show ?case by (intro exI [of _ "cs_image s"]) simp
next
  case (Cons c cs)
  have "length (concat got) + length c \<le> sz" using Cons.prems(5) by simp
  note add = holds_add [OF Cons.prems(2) this assms(6-8)]
  let ?s = "s\<lparr>cs_image := add_chunk c (cs_image s)\<rparr>"
  have "handle_clipboard (ClipboardImageChunk r (of_nat (length got)) c) s = Some ?s"
    using Cons.prems(1) add(1) by (simp add: feed_image_chunk_def)
  moreover have "cb_width (add_chunk c (cs_image s)) = w" "cb_height (add_chunk c (cs_image s)) = h"
    using Cons.prems(3,4) by (simp_all add: add_chunk_def)
  ultimately show ?case
    using Cons.IH [of ?s "got @ [c]"] Cons.prems(1,5) add(2) by (auto simp: enumerate_simps)
qed

lemma holds_complete:
  assumes "holds r sz count cs a" and "concat cs = payload" "length payload = sz" "length cs = count"
    and "0 < count" "count < 2 ^ 32"
  shows "is_complete r a" "cb_buffer a = payload"
  using assms of_nat_u32_eq_0 [OF assms(5,6)] by (auto simp: holds_def is_complete_def)

text \<open>A change a user can make: valid text, or an image in base64 of a sane size.\<close>

fun change_ok :: "clipboard_changed \<Rightarrow> bool" where
  "change_ok (TextChanged text) = is_utf8 text"
| "change_ok (ImageChanged picture) = (is_ascii (im_png_base64 picture)
     \<and> dims_ok (im_width picture) (im_height picture))"

fun payload_of :: "clipboard_changed \<Rightarrow> string" where
  "payload_of (TextChanged text) = text"
| "payload_of (ImageChanged picture) = im_png_base64 picture"

fun kind_of :: "clipboard_changed \<Rightarrow> clipboard_kind" where
  "kind_of (TextChanged text) = TextKind"
| "kind_of (ImageChanged picture) = ImagePng"

fun pieces_of :: "clipboard_changed \<Rightarrow> string list" where
  "pieces_of (TextChanged text) = text_pieces text"
| "pieces_of (ImageChanged picture) = base64_pieces (im_png_base64 picture)"

lemma pieces_of:
  assumes "change_ok change"
  shows "concat (pieces_of change) = payload_of change" "pieces_of change \<noteq> []"
    "\<And>c. c \<in> set (pieces_of change) \<Longrightarrow> length c \<le> 49152"
    "length (pieces_of change) * 49149 \<le> length (payload_of change) + 49152"
    "split_relay_payload (payload_of change) (kind_of change = TextKind) = Some (pieces_of change)"
    "split_offer_payload (payload_of change) (kind_of change = TextKind) = pieces_of change"
proof -
  show "concat (pieces_of change) = payload_of change"
    using assms text_pieces base64_pieces by (cases change) auto
  show "pieces_of change \<noteq> []"
    using assms text_pieces base64_pieces by (cases change) auto
  show "\<And>c. c \<in> set (pieces_of change) \<Longrightarrow> length c \<le> 49152"
    using assms text_pieces base64_pieces by (cases change) auto
  show "split_relay_payload (payload_of change) (kind_of change = TextKind) = Some (pieces_of change)"
    using assms text_pieces base64_pieces by (cases change) auto
  show "split_offer_payload (payload_of change) (kind_of change = TextKind) = pieces_of change"
    using assms text_pieces base64_pieces by (cases change) auto
  show "length (pieces_of change) * 49149 \<le> length (payload_of change) + 49152"
  proof (cases change)
    case (TextChanged t)
    with assms text_pieces(7) [of t] show ?thesis by simp
  next
    case (ImageChanged picture)
    with assms base64_pieces(7) [of "im_png_base64 picture"] show ?thesis by simp
  qed
qed


fun relay_of :: "u64 \<Rightarrow> clipboard_changed \<Rightarrow> relay_paste" where
  "relay_of r (TextChanged t) = \<lparr>rp_revision = r, rp_kind = TextKind, rp_chunks = text_pieces t,
     rp_total_bytes = of_nat (length t), rp_width = 0, rp_height = 0\<rparr>"
| "relay_of r (ImageChanged picture) = \<lparr>rp_revision = r, rp_kind = ImagePng,
     rp_chunks = base64_pieces (im_png_base64 picture),
     rp_total_bytes = of_nat (length (im_png_base64 picture)),
     rp_width = im_width picture, rp_height = im_height picture\<rparr>"

lemma stash_text:
  "is_utf8 t \<Longrightarrow> stash_inbound_clipboard r TextKind t 0 0 = Some (relay_of r (TextChanged t))"
  by (simp add: stash_inbound_clipboard_def text_pieces(2))

lemma stash_image:
  "is_ascii (im_png_base64 p) \<Longrightarrow>
     stash_inbound_clipboard r ImagePng (im_png_base64 p) (im_width p) (im_height p)
       = Some (relay_of r (ImageChanged p))"
  by (simp add: stash_inbound_clipboard_def base64_pieces(2))

lemma length_concat_bound: "\<forall>c \<in> set cs. length c \<le> n \<Longrightarrow> length (concat cs) \<le> length cs * n"
  by (induction cs) auto

lemma transfer_header_ok:
  assumes "length (concat cs) \<le> 16777216" and "\<forall>c \<in> set cs. length c \<le> 49152"
    and "cs \<noteq> []" and "length cs < 2 ^ 32"
  shows "transfer_ok (of_nat (length (concat cs))) (of_nat (length cs))"
  using assms length_concat_bound [OF assms(2)]
  by (simp add: transfer_ok_def unat_of_nat take_bit_nat_eq_self)

lemma list_all_enumerate:
  "list_all (\<lambda>m. validate_message m = Inr ()) (map (\<lambda>(i, d). f i d) (enumerate k cs))"
  if "\<And>i d. d \<in> set cs \<Longrightarrow> message_ok (f i d)"
  using that by (auto simp: list_all_iff validate_message_iff enumerate_eq_zip dest: set_zip_rightD)

lemma text_delivered:
  assumes t: "is_utf8 t" "length t \<le> 16777216" and current: "clipboard_frame_current (cs_enabled s) r (cs_remote_revision s)"
    and cap: "of_nat (length t) \<le> cs_max_bytes s"
  shows "\<exists>ms s2. send_clipboard_text r t = Some ms \<and> list_all (\<lambda>m. validate_message m = Inr ()) ms
    \<and> handle_all ms s = Some s2 \<and> cs_remote_revision s2 = r
    \<and> cs_relay s2 = Some (relay_of r (TextChanged t)) \<and> cs_latest_text s2 = Some t"
proof (cases "length t \<le> 49152")
  case True
  then show ?thesis
    using current cap stash_text [OF t(1), of r]
    by (auto simp: send_clipboard_text_def validate_message_iff not_less apply_inbound_clipboard_def
        simp del: relay_of.simps)
next
  case False
  let ?cs = "text_pieces t" and ?n = "of_nat (length (text_pieces t)) :: u32"
  note cs = text_pieces [OF t(1)]
  have few: "length ?cs < 2 ^ 32" "0 < length ?cs" using cs(5,7) t(2) by auto
  let ?start = "ClipboardStart r (of_nat (length t)) ?n"
  let ?body = "map (\<lambda>(i, d). ClipboardChunk r (of_nat i) d) (enumerate 0 ?cs)"
  have send: "send_clipboard_text r t = Some (?start # ?body @ [ClipboardEnd r])"
    using False by (simp add: send_clipboard_text_def cs(1))
  have "transfer_ok (of_nat (length t)) ?n"
    using transfer_header_ok [of ?cs] cs(4-6) few t(2) by simp
  moreover have "list_all (\<lambda>m. validate_message m = Inr ()) ?body"
    by (rule list_all_enumerate) (use cs(6) in simp)
  ultimately have valid: "list_all (\<lambda>m. validate_message m = Inr ()) (?start # ?body @ [ClipboardEnd r])"
    by (simp add: validate_message_iff)
  let ?a = "no_assembly\<lparr>cb_revision := r, cb_total_bytes := of_nat (length t), cb_expected_chunks := ?n\<rparr>"
  let ?s1 = "s\<lparr>cs_text := ?a\<rparr>"
  have "(of_nat (length t) :: u64) \<noteq> 0"
    using False t(2) by (auto simp: word_of_nat_eq_0_iff dest: dvd_imp_le)
  then have start: "handle_clipboard ?start s = Some ?s1"
    using current cap of_nat_u32_eq_0 [OF few(2,1)] by (simp add: feed_start_def not_less)
  have "holds r (length t) (length ?cs) [] ?a" by (simp add: holds_def no_assembly_def)
  then obtain a where body: "handle_all ?body ?s1 = Some (?s1\<lparr>cs_text := a\<rparr>)"
    and a: "holds r (length t) (length ?cs) ?cs a"
    using handle_text_chunks [of ?s1 r "length t" "length ?cs" "[]" ?cs] current cs(4) t(2) few by auto
  have "handle_clipboard (ClipboardEnd r) (?s1\<lparr>cs_text := a\<rparr>)
    = Some (?s1\<lparr>cs_text := no_assembly, cs_remote_revision := r, cs_relay := Some (relay_of r (TextChanged t)),
        cs_latest_text := Some t\<rparr>)"
    using current holds_complete [OF a cs(4) _ _ few(2,1)] stash_text [OF t(1), of r]
    by (simp add: feed_end_def apply_inbound_clipboard_def del: relay_of.simps)
  with start body send valid show ?thesis
    by (auto simp: handle_all_append simp del: relay_of.simps)
qed

lemma image_delivered:
  assumes p: "is_ascii (im_png_base64 p)" "dims_ok (im_width p) (im_height p)" "length (im_png_base64 p) \<le> 16777216"
    and current: "clipboard_frame_current (cs_enabled s) r (cs_remote_revision s)"
    and cap: "of_nat (length (im_png_base64 p)) \<le> cs_max_bytes s"
  shows "\<exists>s2. list_all (\<lambda>m. validate_message m = Inr ()) (send_clipboard_image r p)
    \<and> handle_all (send_clipboard_image r p) s = Some s2 \<and> cs_remote_revision s2 = r
    \<and> cs_relay s2 = Some (relay_of r (ImageChanged p)) \<and> cs_latest_image s2 = Some p"
proof (cases "length (im_png_base64 p) \<le> 49152")
  case True
  then show ?thesis
    using current cap stash_image [OF p(1), of r] p(2)
    by (auto simp: send_clipboard_image_def Let_def validate_message_iff not_less
        apply_inbound_clipboard_image_def simp del: relay_of.simps)
next
  case False
  let ?e = "im_png_base64 p" and ?cs = "base64_pieces (im_png_base64 p)"
  let ?n = "of_nat (length ?cs) :: u32"
  note cs = base64_pieces [OF p(1)]
  have few: "length ?cs < 2 ^ 32" "0 < length ?cs" using cs(5,7) p(3) by auto
  let ?start = "ClipboardImageStart r (of_nat (length ?e)) ?n (im_width p) (im_height p)"
  let ?body = "map (\<lambda>(i, d). ClipboardImageChunk r (of_nat i) d) (enumerate 0 ?cs)"
  have send: "send_clipboard_image r p = ?start # ?body @ [ClipboardImageEnd r]"
    using False by (simp add: send_clipboard_image_def Let_def cs(1))
  have "transfer_ok (of_nat (length ?e)) ?n"
    using transfer_header_ok [of ?cs] cs(4-6) few p(3) by simp
  moreover have "list_all (\<lambda>m. validate_message m = Inr ()) ?body"
    by (rule list_all_enumerate) (use cs(6) in simp)
  ultimately have valid: "list_all (\<lambda>m. validate_message m = Inr ()) (send_clipboard_image r p)"
    using p(2) by (simp add: send validate_message_iff)
  let ?a = "no_image\<lparr>cb_revision := r, cb_total_bytes := of_nat (length ?e), cb_expected_chunks := ?n,
    cb_width := im_width p, cb_height := im_height p\<rparr>"
  let ?s1 = "s\<lparr>cs_image := ?a\<rparr>"
  have "(of_nat (length ?e) :: u64) \<noteq> 0"
    using False p(3) by (auto simp: word_of_nat_eq_0_iff dest: dvd_imp_le)
  moreover have "im_width p \<noteq> 0" "im_height p \<noteq> 0" "\<not> im_width p > 16384" "\<not> im_height p > 16384"
    using p(2) by (auto simp: dims_ok_def)
  ultimately have start: "handle_clipboard ?start s = Some ?s1"
    using current cap of_nat_u32_eq_0 [OF few(2,1)] by (simp add: feed_image_start_def not_less)
  have "holds r (length ?e) (length ?cs) [] ?a"
    by (simp add: holds_def no_image_def no_assembly_def clipboard_assembly.extend_def image_assembly.fields_def)
  then obtain a where body: "handle_all ?body ?s1 = Some (?s1\<lparr>cs_image := a\<rparr>)"
    and a: "holds r (length ?e) (length ?cs) ?cs a" "cb_width a = im_width p" "cb_height a = im_height p"
    using handle_image_chunks [of ?s1 r "length ?e" "length ?cs" "[]" "im_width p" "im_height p" ?cs]
      current cs(4) p(3) few by auto
  have "handle_clipboard (ClipboardImageEnd r) (?s1\<lparr>cs_image := a\<rparr>)
    = Some (?s1\<lparr>cs_image := no_image, cs_remote_revision := r, cs_relay := Some (relay_of r (ImageChanged p)),
        cs_latest_image := Some p\<rparr>)"
    using current holds_complete [OF a(1) cs(4) _ _ few(2,1)] stash_image [OF p(1), of r] a(2,3)
    by (simp add: feed_image_end_def apply_inbound_clipboard_image_def del: relay_of.simps)
  with start body valid show ?thesis
    by (auto simp: send handle_all_append simp del: relay_of.simps)
qed


section \<open>The application takes a paste\<close>

lemma poll_of_nat:
  assumes "rp_revision paste \<noteq> 0" "rp_revision paste \<noteq> last_seen" "i < length (rp_chunks paste)"
    and "length (rp_chunks paste) < 2 ^ 32"
  shows "cu_revision (poll_inbound_clipboard last_seen (of_nat i) e (Some paste)) = rp_revision paste"
    "cu_index (poll_inbound_clipboard last_seen (of_nat i) e (Some paste)) = of_nat i"
    "cu_kind (poll_inbound_clipboard last_seen (of_nat i) e (Some paste)) = rp_kind paste"
    "cu_data (poll_inbound_clipboard last_seen (of_nat i) e (Some paste)) = rp_chunks paste ! i"
    "cu_total_chunks (poll_inbound_clipboard last_seen (of_nat i) e (Some paste))
      = of_nat (length (rp_chunks paste))"
  using assms by (simp_all add: poll_inbound_clipboard_def unat_of_nat take_bit_nat_eq_self)

lemma poll_revision:
  assumes "cu_revision (poll_inbound_clipboard last_seen i e slot) \<noteq> 0"
  obtains paste where "slot = Some paste" "rp_revision paste = cu_revision (poll_inbound_clipboard last_seen i e slot)"
    "rp_revision paste \<noteq> last_seen" "unat i < length (rp_chunks paste)"
  using assms by (auto simp: poll_inbound_clipboard_def nothing_new_def split: option.splits if_splits)

lemma collect_whole:
  assumes "collect_chunks slots last_seen head is = Some ds"
    and "cu_revision head = rp_revision paste" "rp_revision paste \<noteq> 0" "rp_revision paste \<noteq> last_seen"
    and "\<And>i q. slots i = Some q \<Longrightarrow> rp_revision q = rp_revision paste \<Longrightarrow> q = paste"
    and "list_all (\<lambda>i. i < length (rp_chunks paste)) is" "length (rp_chunks paste) < 2 ^ 32"
  shows "ds = map ((!) (rp_chunks paste)) is"
  using assms(1,6)
proof (induction "is" arbitrary: ds)
  case (Cons i "is")
  let ?u = "poll_inbound_clipboard last_seen (of_nat i) True (slots i)"
  from Cons.prems(1) have u: "cu_revision ?u = cu_revision head"
    by (auto simp: Let_def split: if_splits)
  with assms(2,3) obtain q where "slots i = Some q" "rp_revision q = rp_revision paste"
    by (metis poll_revision)
  with assms(5) have "slots i = Some paste" by blast
  then have "cu_data ?u = rp_chunks paste ! i"
    using poll_of_nat(4) [of paste last_seen i True] assms(3,4,7) Cons.prems(2) by simp
  with Cons u show ?case
    by (auto simp: Let_def split: if_splits bind_splits)
qed simp

lemma map_nth_upt: "cs \<noteq> [] \<Longrightarrow> cs ! 0 # map ((!) cs) [1..<length cs] = cs"
  by (metis map_nth length_greater_0_conv list.simps(9) upt_conv_Cons One_nat_def)

text \<open>
  The application never pastes a mixture. Whatever the daemon's slot holds from poll to
  poll, a paste that the application applies is one that was in the slot, whole, newer than
  the last one, provided a revision number stands for one paste only; and it is remembered.
\<close>

theorem taken_paste_is_whole:
  assumes "clipboard_take slots superseded last_seen = (seen, Some (kind, payload))"
    and "\<And>i j p q. slots i = Some p \<Longrightarrow> slots j = Some q \<Longrightarrow> rp_revision p = rp_revision q \<Longrightarrow> p = q"
    and "\<And>i p. slots i = Some p \<Longrightarrow> length (rp_chunks p) < 2 ^ 32"
  shows "\<exists>paste. slots 0 = Some paste \<and> rp_revision paste = seen \<and> last_seen < seen
    \<and> kind = rp_kind paste \<and> payload = concat (rp_chunks paste) \<and> \<not> superseded"
proof -
  let ?head = "poll_inbound_clipboard last_seen 0 True (slots 0)"
  from assms(1) have head: "cu_revision ?head \<noteq> 0" "last_seen < cu_revision ?head" "seen = cu_revision ?head"
    "\<not> superseded" "kind = cu_kind ?head"
    by (auto simp: clipboard_take_def Let_def not_le split: if_splits option.splits)
  from assms(1) obtain rest where rest:
    "collect_chunks slots last_seen ?head [1..<unat (cu_total_chunks ?head)] = Some rest"
    "payload = concat (cu_data ?head # rest)"
    by (auto simp: clipboard_take_def Let_def split: if_splits option.splits)
  obtain paste where paste: "slots 0 = Some paste" "rp_revision paste = cu_revision ?head"
    "rp_revision paste \<noteq> last_seen" "unat (0 :: u32) < length (rp_chunks paste)"
    by (rule poll_revision [OF head(1)])
  have few: "length (rp_chunks paste) < 2 ^ 32" using assms(3) paste(1) by blast
  have zero: "cu_kind ?head = rp_kind paste" "cu_data ?head = rp_chunks paste ! 0"
    "unat (cu_total_chunks ?head) = length (rp_chunks paste)"
    using poll_of_nat(3-5) [of paste last_seen 0 True] paste head(1) few
    by (simp_all add: unat_of_nat take_bit_nat_eq_self)
  have "rest = map ((!) (rp_chunks paste)) [1..<length (rp_chunks paste)]"
  proof (rule collect_whole [of slots last_seen ?head])
    show "collect_chunks slots last_seen ?head [1..<length (rp_chunks paste)] = Some rest"
      using rest(1) by (simp add: zero)
    show "q = paste" if "slots i = Some q" "rp_revision q = rp_revision paste" for i q
      using assms(2) that paste(1) by blast
  qed (use paste head few in \<open>auto simp: list_all_iff\<close>)
  then have "cu_data ?head # rest = rp_chunks paste"
    using map_nth_upt [of "rp_chunks paste"] paste(4) by (auto simp: zero)
  then have "payload = concat (rp_chunks paste)" using rest(2) by (simp only:)
  with head paste zero show ?thesis by auto
qed

lemma collect_steady:
  assumes "rp_revision paste \<noteq> 0" "rp_revision paste \<noteq> last_seen" "cu_revision head = rp_revision paste"
    and "length (rp_chunks paste) < 2 ^ 32" and "list_all (\<lambda>i. i < length (rp_chunks paste)) is"
  shows "collect_chunks (\<lambda>_. Some paste) last_seen head is = Some (map ((!) (rp_chunks paste)) is)"
  using assms(5)
proof (induction "is")
  case (Cons i "is")
  have i: "i < length (rp_chunks paste)" and rest: "list_all (\<lambda>i. i < length (rp_chunks paste)) is"
    using Cons.prems by auto
  show ?case
    using poll_of_nat(1,2,4) [OF assms(1,2) i assms(4)] Cons.IH [OF rest] assms(3)
    by (simp add: Let_def)
qed simp

text \<open>A paste that stays in the slot is taken, if its revision is newer than the last one.\<close>

lemma take_steady:
  assumes "last_seen < rp_revision paste" and "rp_chunks paste \<noteq> []" "length (rp_chunks paste) < 2 ^ 32"
  shows "clipboard_take (\<lambda>_. Some paste) False last_seen
    = (rp_revision paste, Some (rp_kind paste, concat (rp_chunks paste)))"
proof -
  have r: "rp_revision paste \<noteq> 0" "rp_revision paste \<noteq> last_seen" "\<not> rp_revision paste \<le> last_seen"
    using assms(1) by auto
  have n: "(of_nat (length (rp_chunks paste)) :: u32) \<noteq> 0"
    using assms(2,3) by (intro of_nat_u32_eq_0) auto
  have poll: "cu_revision (poll_inbound_clipboard last_seen 0 True (Some paste)) = rp_revision paste"
    "cu_kind (poll_inbound_clipboard last_seen 0 True (Some paste)) = rp_kind paste"
    "cu_data (poll_inbound_clipboard last_seen 0 True (Some paste)) = rp_chunks paste ! 0"
    "cu_total_chunks (poll_inbound_clipboard last_seen 0 True (Some paste)) = of_nat (length (rp_chunks paste))"
    using poll_of_nat [of paste last_seen 0 True] r assms(2,3) by simp_all
  have "collect_chunks (\<lambda>_. Some paste) last_seen (poll_inbound_clipboard last_seen 0 True (Some paste))
      [1..<length (rp_chunks paste)] = Some (map ((!) (rp_chunks paste)) [1..<length (rp_chunks paste)])"
    by (rule collect_steady) (use r assms poll in \<open>auto simp: list_all_iff\<close>)
  then show ?thesis
    using r n map_nth_upt [OF assms(2)] assms(3)
    by (simp add: clipboard_take_def Let_def poll unat_of_nat take_bit_nat_eq_self
        flip: concat.simps(2))
qed

lemma taken_paste_is_whole_witness:
  "\<exists>paste. rp_revision paste = 4 \<and> rp_kind paste = TextKind \<and> concat (rp_chunks paste) = ''hi''
    \<and> clipboard_take (\<lambda>_. Some paste) False 2 = (4, Some (TextKind, ''hi''))"
proof -
  let ?p = "\<lparr>rp_revision = 4, rp_kind = TextKind, rp_chunks = [''h'', ''i''], rp_total_bytes = 2,
    rp_width = 0, rp_height = 0\<rparr>"
  have taken: "clipboard_take (\<lambda>_. Some ?p) False 2 = (4, Some (TextKind, ''hi''))"
    using take_steady [of 2 ?p] by simp
  have "\<exists>paste. Some ?p = Some paste \<and> rp_revision paste = 4 \<and> (2 :: u64) < 4 \<and> TextKind = rp_kind paste
      \<and> ''hi'' = concat (rp_chunks paste) \<and> \<not> False"
  proof (rule taken_paste_is_whole [OF taken])
    show "p = q" if "Some ?p = Some p" "Some ?p = Some q" for p q using that by simp
    show "length (rp_chunks p) < 2 ^ 32" if "Some ?p = Some p" for p
    proof -
      from that have "p = ?p" by (simp only: option.inject)
      then have "length (rp_chunks p) = 2" by simp
      then show ?thesis by simp
    qed
  qed
  then obtain paste where "Some ?p = Some paste" "rp_revision paste = 4" "rp_kind paste = TextKind"
    "concat (rp_chunks paste) = ''hi''" by metis
  with taken show ?thesis by metis
qed

text \<open>
  C40: the cutting loops end, and lose nothing. On any valid text both of the daemon's loops,
  which step back to a character boundary, come to the end, with the same pieces: each valid
  text of at most a message's size, none lost, and never many more than the size calls for.
\<close>

theorem cutting_ends:
  assumes "is_utf8 text"
  shows "\<exists>cs. split_clipboard_chunks text = Some cs \<and> split_relay_payload text True = Some cs
    \<and> split_offer_payload text True = cs \<and> concat cs = text \<and> cs \<noteq> []
    \<and> list_all (\<lambda>c. is_utf8 c \<and> length c \<le> CLIPBOARD_CHUNK_BYTES) cs
    \<and> length cs \<le> length text div (CLIPBOARD_CHUNK_BYTES - 3) + 1"
proof -
  have "length (text_pieces text) * 49149 \<le> length text + 49149"
    by (rule text_pieces(7) [OF assms])
  then have "length (text_pieces text) \<le> (length text + 49149) div 49149"
    by (simp add: less_eq_div_iff_mult_less_eq)
  then have "length (text_pieces text) \<le> length text div 49149 + 1" by simp
  with text_pieces [OF assms] show ?thesis
    by (intro exI [of _ "text_pieces text"]) (simp add: list_all_iff)
qed

lemma cutting_ends_witness: "\<exists>cs. split_clipboard_chunks ''hi'' = Some cs \<and> concat cs = ''hi''"
proof -
  have "is_utf8 ''hi''" by code_simp
  from cutting_ends [OF this] show ?thesis by blast
qed

end
