(* ===== verification/ClipboardExchange.thy ===== *)
theory ClipboardExchange
  imports ClipboardRuns
begin

text \<open>
  A copy from application to application: the offer's pieces in any order, the transfer to the
  peer, its slot and the take. Then the receiving side alone, whatever the peer sends.
\<close>

section \<open>Assembling an offer\<close>

text \<open>The assembly that holds the pieces at the indices in \<open>D\<close>.\<close>

definition offered ::
  "u64 \<Rightarrow> clipboard_kind \<Rightarrow> string list \<Rightarrow> u32 \<Rightarrow> u32 \<Rightarrow> nat set \<Rightarrow> offer_assembly" where
  "offered g k cs w h D = \<lparr>oa_generation = g, oa_kind = k, oa_total_chunks = of_nat (length cs),
     oa_chunks = map (\<lambda>i. if i \<in> D then Some (cs ! i) else None) [0..<length cs],
     oa_width = w, oa_height = h\<rparr>"

definition the_offer :: "u64 \<Rightarrow> clipboard_kind \<Rightarrow> string list \<Rightarrow> u32 \<Rightarrow> u32 \<Rightarrow> local_offer" where
  "the_offer g k cs w h = \<lparr>lo_generation = g, lo_kind = k, lo_payload = concat cs,
     lo_width = w, lo_height = h\<rparr>"

text \<open>A transfer the daemon accepts: a generation, one to 512 pieces that fit.\<close>

definition offer_fits :: "u64 \<Rightarrow> string list \<Rightarrow> bool" where
  "offer_fits g cs \<longleftrightarrow> g \<noteq> 0 \<and> cs \<noteq> [] \<and> length cs \<le> 512 \<and> list_all (\<lambda>c. length c \<le> 49152) cs"

lemma offered_chunks:
  "i < length cs \<Longrightarrow> (oa_chunks (offered g k cs w h D))[i := Some (cs ! i)]
     = oa_chunks (offered g k cs w h (insert i D))"
  by (rule nth_equalityI) (auto simp: offered_def nth_list_update)

lemma offered_full:
  "{..<length cs} \<subseteq> D \<Longrightarrow> oa_chunks (offered g k cs w h D) = map Some cs"
  by (rule nth_equalityI) (auto simp: offered_def)

lemma offered_missing:
  "list_ex (\<lambda>chunk. chunk = None) (oa_chunks (offered g k cs w h D)) \<longleftrightarrow> \<not> {..<length cs} \<subseteq> D"
  by (auto simp: offered_def list_ex_iff)

lemma concat_present: "concat (map (\<lambda>chunk. case chunk of None \<Rightarrow> [] | Some d \<Rightarrow> d) (map Some cs)) = concat cs"
  by (simp add: comp_def)

lemma offer_words:
  assumes "offer_fits g cs" "i < length cs"
  shows "unat (of_nat i :: u32) = i" "unat (of_nat (length cs) :: u32) = length cs"
    "\<not> (of_nat (length cs) :: u32) \<le> of_nat i" "\<not> (512 :: u32) < of_nat (length cs)"
    "(of_nat (length cs) :: u32) \<noteq> 0" "length (cs ! i) \<le> 49152" "g \<noteq> 0"
  using assms
  by (auto simp: offer_fits_def list_all_iff word_le_nat_alt word_less_nat_alt unat_of_nat
      take_bit_nat_eq_self of_nat_u32_eq_0)

lemma push_offered:
  assumes fits: "offer_fits g cs" and i: "i < length cs"
  shows "push_offer g k (of_nat (length cs)) (of_nat i) (cs ! i) w h (offered g k cs w h D)
    = (if {..<length cs} \<subseteq> insert i D then (no_offer, Inr (Some (the_offer g k cs w h)))
       else (offered g k cs w h (insert i D), Inr None))"
proof -
  note words = offer_words [OF assms]
  have "offered g k cs w h D\<lparr>oa_chunks := (oa_chunks (offered g k cs w h D))[i := Some (cs ! i)]\<rparr>
      = offered g k cs w h (insert i D)"
    unfolding offered_chunks [OF i] by (simp add: offered_def)
  moreover have "length (oa_chunks (offered g k cs w h D)) = length cs"
      "oa_generation (offered g k cs w h D) = g" "oa_kind (offered g k cs w h (insert i D)) = k"
      "oa_width (offered g k cs w h (insert i D)) = w" "oa_height (offered g k cs w h (insert i D)) = h"
      "oa_total_chunks (offered g k cs w h D) = of_nat (length cs)"
    by (simp_all add: offered_def)
  ultimately have push: "push_offer g k (of_nat (length cs)) (of_nat i) (cs ! i) w h (offered g k cs w h D)
    = (let c = offered g k cs w h (insert i D)
       in if list_ex (\<lambda>chunk. chunk = None) (oa_chunks c) then (c, Inr None)
          else (no_offer, Inr (Some \<lparr>lo_generation = g, lo_kind = k,
            lo_payload = concat (map (\<lambda>chunk. case chunk of None \<Rightarrow> [] | Some d \<Rightarrow> d) (oa_chunks c)),
            lo_width = w, lo_height = h\<rparr>)))"
    using i words by (simp add: push_offer_def CLIPBOARD_CHUNK_BYTES_def Let_def)
  show ?thesis
  proof (cases "{..<length cs} \<subseteq> insert i D")
    case True
    then show ?thesis
      unfolding push Let_def offered_missing offered_full [OF True] concat_present
      by (auto simp: the_offer_def list_ex_iff)
  next
    case False
    then show ?thesis unfolding push Let_def offered_missing by simp
  qed
qed

text \<open>The first piece of a transfer the assembly does not hold starts it over.\<close>

definition unknown_offer :: "u64 \<Rightarrow> string list \<Rightarrow> offer_assembly \<Rightarrow> bool" where
  "unknown_offer g cs a \<longleftrightarrow> oa_generation a \<noteq> g \<or> oa_total_chunks a \<noteq> of_nat (length cs)"

lemma push_unknown:
  assumes fits: "offer_fits g cs" and i: "i < length cs" and a: "unknown_offer g cs a"
  shows "push_offer g k (of_nat (length cs)) (of_nat i) (cs ! i) w h a
    = push_offer g k (of_nat (length cs)) (of_nat i) (cs ! i) w h (offered g k cs w h {})"
proof -
  have "offered g k cs w h {} = \<lparr>oa_generation = g, oa_kind = k,
      oa_total_chunks = of_nat (length cs), oa_chunks = replicate (length cs) None, oa_width = w, oa_height = h\<rparr>"
    by (simp add: offered_def map_replicate_const)
  then show ?thesis
    using a i offer_words [OF fits i]
    by (simp add: push_offer_def CLIPBOARD_CHUNK_BYTES_def Let_def unknown_offer_def)
qed

definition pieces :: "string list \<Rightarrow> nat list \<Rightarrow> (nat \<times> string) list" where
  "pieces cs order = map (\<lambda>i. (i, cs ! i)) order"

lemma offer_some:
  assumes "offer_fits g cs" and "list_all (\<lambda>i. i < length cs) order" "\<not> {..<length cs} \<subseteq> D \<union> set order"
  shows "offer_chunks k g (of_nat (length cs)) w h (pieces cs order @ later) (offered g k cs w h D)
    = offer_chunks k g (of_nat (length cs)) w h later (offered g k cs w h (D \<union> set order))"
  using assms(2,3)
proof (induction order arbitrary: D)
  case (Cons i order)
  have "\<not> {..<length cs} \<subseteq> insert i D" using Cons.prems(2) by auto
  moreover have "offer_chunks k g (of_nat (length cs)) w h (pieces cs order @ later) (offered g k cs w h (insert i D))
    = offer_chunks k g (of_nat (length cs)) w h later (offered g k cs w h (insert i D \<union> set order))"
    using Cons by (intro Cons.IH) auto
  ultimately show ?case
    using push_offered [OF assms(1), of i] Cons.prems(1)
    by (auto simp: pieces_def split: prod.splits)
qed (simp add: pieces_def)

text \<open>
  A copy is published whole, in whatever order its pieces come and however often: as long
  as one is missing nothing is published, the last one publishes all of them in their order,
  and the assembly is then empty.
\<close>

theorem offer_published_whole:
  assumes "offer_fits g cs" "unknown_offer g cs a"
    and "list_all (\<lambda>i. i < length cs) (order @ [i])" "{..<length cs} \<subseteq> set (order @ [i])"
    and "\<not> {..<length cs} \<subseteq> set order"
  shows "offer_chunks k g (of_nat (length cs)) w h (pieces cs order) a
      = (if order = [] then a else offered g k cs w h (set order), [], None)
    \<and> offer_chunks k g (of_nat (length cs)) w h (pieces cs (order @ [i])) a
      = (no_offer, [\<lparr>lo_generation = g, lo_kind = k, lo_payload = concat cs, lo_width = w, lo_height = h\<rparr>], None)"
proof -
  have start: "offer_chunks k g (of_nat (length cs)) w h (pieces cs js) a
      = offer_chunks k g (of_nat (length cs)) w h (pieces cs js) (offered g k cs w h {})"
    if js: "js \<noteq> []" "list_all (\<lambda>i. i < length cs) js" for js
    using js push_unknown [OF assms(1) _ assms(2)] by (cases js) (simp_all add: pieces_def)
  have "offer_chunks k g (of_nat (length cs)) w h (pieces cs order) (offered g k cs w h {})
      = (offered g k cs w h (set order), [], None)"
    using offer_some [OF assms(1), of order "{}" k w h "[]"] assms(3,5) by simp
  moreover have "offer_chunks k g (of_nat (length cs)) w h (pieces cs (order @ [i])) (offered g k cs w h {})
      = (no_offer, [the_offer g k cs w h], None)"
    using offer_some [OF assms(1), of order "{}" k w h "pieces cs [i]"] assms(3-5)
      push_offered [OF assms(1), of i k w h "set order"]
    by (simp add: pieces_def)
  ultimately show ?thesis
    using start [of order] start [of "order @ [i]"] assms(3)
    by (auto simp: pieces_def the_offer_def)
qed


section \<open>From one application to the other\<close>

lemma enumerate_pieces: "enumerate 0 cs = pieces cs [0..<length cs]"
  by (rule nth_equalityI) (simp_all add: pieces_def nth_enumerate_eq)

lemma offer_in_turn:
  assumes "offer_fits g cs" "unknown_offer g cs a"
  shows "offer_chunks k g (of_nat (length cs)) w h (enumerate 0 cs) a
    = (no_offer, [the_offer g k cs w h], None)"
proof -
  let ?last = "length cs - 1"
  have n: "length cs \<noteq> 0" using assms(1) by (simp add: offer_fits_def)
  then have turn: "[0..<length cs] = [0..<?last] @ [?last]"
    by (cases cs) simp_all
  have "list_all (\<lambda>i. i < length cs) ([0..<?last] @ [?last])"
    "{..<length cs} \<subseteq> set ([0..<?last] @ [?last])"
    unfolding turn [symmetric] by (auto simp: list_all_iff)
  moreover have "\<not> {..<length cs} \<subseteq> set [0..<?last]"
    using n by (auto simp: subset_iff intro: exI [of _ ?last])
  ultimately show ?thesis
    unfolding enumerate_pieces turn the_offer_def
    by (rule offer_published_whole [OF assms, THEN conjunct2])
qed

text \<open>The size of an image goes with it; the application gives none for a text.\<close>

fun dims_of :: "clipboard_changed \<Rightarrow> u32 \<times> u32" where
  "dims_of (TextChanged text) = (0, 0)"
| "dims_of (ImageChanged picture) = (im_width picture, im_height picture)"

lemma change_delivered:
  assumes "change_ok change" "length (payload_of change) \<le> 16777216"
    and "length (payload_of change) \<le> max_bytes"
    and "clipboard_frame_current (cs_enabled s) (r0 + 1) (cs_remote_revision s)"
    and "of_nat (length (payload_of change)) \<le> cs_max_bytes s"
  shows "\<exists>ms s2. send_clipboard_change r0 change max_bytes = Some (Some (r0 + 1, ms))
    \<and> list_all (\<lambda>m. validate_message m = Inr ()) ms \<and> handle_all ms s = Some s2
    \<and> cs_relay s2 = Some (relay_of (r0 + 1) change)"
proof (cases change)
  case (TextChanged t)
  with assms text_delivered [of t s "r0 + 1"] show ?thesis
    by (auto simp: send_clipboard_change_def Let_def simp del: relay_of.simps)
next
  case (ImageChanged p)
  with assms image_delivered [of p s "r0 + 1"] show ?thesis
    by (auto simp: send_clipboard_change_def Let_def simp del: relay_of.simps)
qed

lemma relay_of_fields:
  "rp_revision (relay_of r change) = r" "rp_kind (relay_of r change) = kind_of change"
  "rp_chunks (relay_of r change) = pieces_of change"
  by (cases change; simp)+

text \<open>A message whose JSON, with all its escapes, fits one frame.\<close>

definition frame_fits :: "(wire_message \<Rightarrow> string + bytes) \<Rightarrow> wire_message \<Rightarrow> bool" where
  "frame_fits to_json m \<longleftrightarrow>
     (case to_json m of Inl e \<Rightarrow> False | Inr payload \<Rightarrow> length payload \<le> MAX_FRAME_SIZE)"

lemma write_frames_fit:
  "list_all (\<lambda>m. validate_message m = Inr ()) ms \<Longrightarrow> list_all (frame_fits to_json) ms
     \<Longrightarrow> \<exists>stream. write_frames to_json w ms = Inr stream"
  by (induction ms arbitrary: w) (auto simp: write_frame_def frame_fits_def split: sum.splits)

text \<open>
  C20: a copy reaches the other application. The user copies a valid text or an image that is
  under both ends' caps; its number on this link is above the last number the peer's session
  handled and above the highest one the peer's application has taken on any link. Then the daemon
  publishes the application's offer and sends valid messages for it. Where each of them fits a
  frame with its JSON escapes, the bytes written are read back as these messages; and when they
  arrive the peer's slot holds the paste, and the peer's application takes exactly what was copied.
\<close>

theorem copy_reaches_other_application:
  assumes change: "change_ok change" and size: "length (payload_of change) \<le> max_bytes" "max_bytes \<le> 16777216"
    and offer: "g \<noteq> 0" "unknown_offer g (pieces_of change) a"
    and peer: "cs_enabled s" "cs_remote_revision s < r0 + 1" "of_nat (length (payload_of change)) \<le> cs_max_bytes s"
    and seen: "last_seen < r0 + 1"
  shows "\<exists>offer ms s2.
    offer_local_clipboard (kind_of change) g (payload_of change) (fst (dims_of change)) (snd (dims_of change)) a
      = (no_offer, [offer], None)
    \<and> forward_local_clipboard_offer offer r0 max_bytes = Some (r0 + 1, ms, True)
    \<and> list_all (\<lambda>m. validate_message m = Inr ()) ms
    \<and> (\<forall>to_json from_json. json_ok to_json from_json \<and> list_all (frame_fits to_json) ms \<longrightarrow>
         (\<exists>stream. write_frames to_json [] ms = Inr stream \<and> read_frames from_json stream = (ms, None)))
    \<and> handle_all ms s = Some s2
    \<and> clipboard_take (\<lambda>_. cs_relay s2) False last_seen
        = (r0 + 1, Some (kind_of change, payload_of change))"
proof -
  note pieces = pieces_of [OF change]
  have count: "length (pieces_of change) \<le> 512" using pieces(4) size by linarith
  with pieces(2,3) offer(1) have fits: "offer_fits g (pieces_of change)"
    by (simp add: offer_fits_def list_all_iff)
  let ?offer = "the_offer g (kind_of change) (pieces_of change) (fst (dims_of change)) (snd (dims_of change))"
  have offered: "offer_local_clipboard (kind_of change) g (payload_of change)
      (fst (dims_of change)) (snd (dims_of change)) a = (no_offer, [?offer], None)"
    using offer_in_turn [OF fits offer(2)] pieces(2,6) by (simp add: offer_local_clipboard_def Let_def)
  have same: "offered_change ?offer = change"
    using pieces(1) by (cases change) (simp_all add: offered_change_def the_offer_def)
  have whole: "length (payload_of change) \<le> 16777216" using size by simp
  have current: "clipboard_frame_current (cs_enabled s) (r0 + 1) (cs_remote_revision s)"
    using peer by (simp add: clipboard_frame_current_def not_le)
  obtain ms s2 where sent: "send_clipboard_change r0 change max_bytes = Some (Some (r0 + 1, ms))"
    "list_all (\<lambda>m. validate_message m = Inr ()) ms" "handle_all ms s = Some s2"
    "cs_relay s2 = Some (relay_of (r0 + 1) change)"
    using change_delivered [OF change whole size(1) current peer(3)] by blast
  have "clipboard_take (\<lambda>_. cs_relay s2) False last_seen = (r0 + 1, Some (kind_of change, payload_of change))"
    unfolding sent(4)
    using take_steady [of last_seen "relay_of (r0 + 1) change"] seen pieces(1,2) count
    by (simp add: relay_of_fields)
  moreover have "forward_local_clipboard_offer ?offer r0 max_bytes = Some (r0 + 1, ms, True)"
    unfolding forward_local_clipboard_offer_def same sent(1) by simp
  moreover have "\<exists>stream. write_frames to_json [] ms = Inr stream \<and> read_frames from_json stream = (ms, None)"
    if "json_ok to_json from_json \<and> list_all (frame_fits to_json) ms" for to_json from_json
    using write_frames_fit [OF sent(2)] write_frames_prefix [of to_json from_json "[]" ms] that by force
  ultimately show ?thesis using offered sent(2,3) by blast
qed


definition probe_session :: "u64 \<Rightarrow> clipboard_session" where
  "probe_session revision = \<lparr>cs_enabled = True, cs_max_bytes = 1024, cs_remote_revision = revision,
     cs_text = no_assembly, cs_image = no_image, cs_latest_text = None, cs_latest_image = None, cs_relay = None\<rparr>"

lemma copy_reaches_other_application_witness:
  "\<exists>offer ms s2.
    offer_local_clipboard TextKind 7 ''hi'' 0 0 no_offer = (no_offer, [offer], None)
    \<and> forward_local_clipboard_offer offer 3 1024 = Some (4, ms, True)
    \<and> handle_all ms (probe_session 3) = Some s2
    \<and> clipboard_take (\<lambda>_. cs_relay s2) False 2 = (4, Some (TextKind, ''hi''))"
proof -
  have "is_utf8 ''hi''" by code_simp
  then show ?thesis
    using copy_reaches_other_application [of "TextChanged ''hi''" 1024 7 no_offer
        "(probe_session 3)" 3 2]
    by (simp add: unknown_offer_def no_offer_def probe_session_def) blast
qed

lemma offer_published_whole_witness:
  "offer_chunks TextKind 5 2 0 0 [(1, ''b''), (1, ''b'')] no_offer
     = (offered 5 TextKind [''a'', ''b''] 0 0 {1}, [], None)
   \<and> offer_chunks TextKind 5 2 0 0 [(1, ''b''), (1, ''b''), (0, ''a'')] no_offer
     = (no_offer, [\<lparr>lo_generation = 5, lo_kind = TextKind, lo_payload = ''ab'', lo_width = 0, lo_height = 0\<rparr>], None)"
proof -
  have "offer_fits 5 [''a'', ''b'']" "unknown_offer 5 [''a'', ''b''] no_offer"
    by (simp_all add: offer_fits_def unknown_offer_def no_offer_def)
  moreover have "list_all (\<lambda>i. i < length [''a'', ''b'']) ([1, 1] @ [0])"
    "{..<length [''a'', ''b'']} \<subseteq> set ([1, 1] @ [0])" "\<not> {..<length [''a'', ''b'']} \<subseteq> set [1, 1]"
    by (auto dest: subsetD [of _ _ 0])
  ultimately show ?thesis
    using offer_published_whole [of 5 "[''a'', ''b'']" no_offer "[1, 1]" 0 TextKind 0 0]
    by (simp del: offer_chunks.simps add: pieces_def)
qed

section \<open>Where the exchange falls short\<close>

lemma take_old:
  assumes "rp_revision paste \<le> last_seen"
  shows "clipboard_take (\<lambda>_. Some paste) superseded last_seen = (last_seen, None)"
proof -
  have "cu_revision (poll_inbound_clipboard last_seen 0 True (Some paste)) \<in> {0, rp_revision paste}"
    by (auto simp: poll_inbound_clipboard_def nothing_new_def)
  with assms show ?thesis by (auto simp: clipboard_take_def Let_def)
qed

text \<open>
  A copy made on a new link can be lost. A link starts counting its copies at zero, the
  application keeps the highest number it has seen on any link: its poll is answered with the
  paste at once, and it takes nothing.
\<close>

theorem fresh_link_pastes_ignored:
  assumes change: "change_ok change" and size: "length (payload_of change) \<le> max_bytes" "max_bytes \<le> 16777216"
    and peer: "cs_enabled s" "cs_remote_revision s = 0" "of_nat (length (payload_of change)) \<le> cs_max_bytes s"
    and seen: "2 \<le> last_seen"
  shows "\<exists>ms s2. send_clipboard_change 0 change max_bytes = Some (Some (1, ms)) \<and> handle_all ms s = Some s2
    \<and> cu_revision (poll_inbound_clipboard last_seen 0 True (cs_relay s2)) = 1
    \<and> clipboard_take (\<lambda>_. cs_relay s2) False last_seen = (last_seen, None)"
proof -
  have current: "clipboard_frame_current (cs_enabled s) (0 + 1) (cs_remote_revision s)"
    using peer by (simp add: clipboard_frame_current_def)
  have whole: "length (payload_of change) \<le> 16777216" using size by simp
  have seen1: "1 \<le> last_seen" "last_seen \<noteq> 1" using seen by (auto simp: word_le_nat_alt)
  obtain ms s2 where sent: "send_clipboard_change 0 change max_bytes = Some (Some (0 + 1, ms))"
    "handle_all ms s = Some s2" "cs_relay s2 = Some (relay_of (0 + 1) change)"
    using change_delivered [OF change whole size(1) current peer(3)] by blast
  have "cu_revision (poll_inbound_clipboard last_seen 0 True (cs_relay s2)) = 1"
    using seen1 pieces_of(2) [OF change] sent(3)
    by (simp add: poll_inbound_clipboard_def relay_of_fields)
  moreover have "clipboard_take (\<lambda>_. cs_relay s2) False last_seen = (last_seen, None)"
    unfolding sent(3) by (rule take_old) (simp add: relay_of_fields seen1)
  ultimately show ?thesis using sent(1,2) by auto
qed

lemma fresh_link_pastes_ignored_witness:
  "\<exists>ms s2. send_clipboard_change 0 (TextChanged ''hi'') 1024 = Some (Some (1, ms)) \<and> handle_all ms (probe_session 0) = Some s2
    \<and> clipboard_take (\<lambda>_. cs_relay s2) False 5 = (5, None)"
proof -
  have "is_utf8 ''hi''" by code_simp
  then show ?thesis
    using fresh_link_pastes_ignored [of "TextChanged ''hi''" 1024
        "(probe_session 0)" 5]
    by (simp add: probe_session_def) blast
qed

text \<open>
  A JSON encoder writes a backslash before each quotation mark, so the payload of a text is
  at least as long as the text and its quotation marks.
\<close>

definition escapes_quotes :: "(wire_message \<Rightarrow> string + bytes) \<Rightarrow> bool" where
  "escapes_quotes to_json \<longleftrightarrow> (\<forall>r t payload. to_json (ClipboardText r t) = Inr payload
     \<longrightarrow> length t + count_list t (CHR 0x22) \<le> length payload)"

lemma count_list_replicate: "count_list (replicate n x) x = n"
  by (induction n) simp_all

lemma quotes_utf8: "is_utf8 (replicate n (CHR 0x22))"
  by (rule is_utf8_ascii) (simp add: list_all_iff byte_def)

text \<open>
  A text can be small enough for one message and yet not fit a frame. Its one message is
  valid, but writing it fails, which ends the episode: 40,000 quotation marks are such a text.
\<close>

theorem escaped_text_unsendable:
  assumes "escapes_quotes to_json"
  shows "\<exists>text ms e. is_utf8 text \<and> length text \<le> CLIPBOARD_CHUNK_BYTES
    \<and> send_clipboard_text 1 text = Some ms \<and> list_all (\<lambda>m. validate_message m = Inr ()) ms
    \<and> write_frames to_json [] ms = Inl e"
proof -
  define n :: nat where "n = 40000"
  let ?t = "replicate n (CHR 0x22)"
  have sent: "send_clipboard_text 1 ?t = Some [ClipboardText 1 ?t]"
    by (simp add: send_clipboard_text_def MAX_CLIPBOARD_TEXT_BYTES_def n_def)
  have "\<exists>e. write_frame to_json [] (ClipboardText 1 ?t) = Inl e"
  proof (cases "write_frame to_json [] (ClipboardText 1 ?t)")
    case (Inr w)
    then obtain payload where "to_json (ClipboardText 1 ?t) = Inr payload" "length payload \<le> 65536"
      unfolding write_frame_Inr by blast
    with assms have "length ?t + count_list ?t (CHR 0x22) \<le> 65536"
      unfolding escapes_quotes_def by (meson order_trans)
    then show ?thesis by (simp add: count_list_replicate n_def)
  qed blast
  then obtain e where "write_frames to_json [] [ClipboardText 1 ?t] = Inl e" by auto
  moreover have "list_all (\<lambda>m. validate_message m = Inr ()) [ClipboardText 1 ?t]"
    by (simp add: validate_message_iff n_def)
  moreover have "length ?t \<le> CLIPBOARD_CHUNK_BYTES"
    by (simp add: CLIPBOARD_CHUNK_BYTES_def n_def)
  ultimately show ?thesis using sent quotes_utf8 [of n] by blast
qed

text \<open>An encoder that escapes and nothing more.\<close>

fun quoting_json :: "wire_message \<Rightarrow> string + bytes" where
  "quoting_json (ClipboardText r t) =
     Inr (concat (map (\<lambda>c. if c = CHR 0x22 then [92, 34] else [of_char c]) t))"
| "quoting_json m = Inl ''not a text''"

lemma escaped_text_unsendable_witness:
  "\<exists>text ms e. send_clipboard_text 1 text = Some ms \<and> write_frames quoting_json [] ms = Inl e"
proof -
  have "length t + count_list t (CHR 0x22)
      \<le> length (concat (map (\<lambda>c. if c = CHR 0x22 then [92, 34] else [of_char c :: u8]) t))" for t
    by (induction t) simp_all
  then have "escapes_quotes quoting_json" by (auto simp: escapes_quotes_def)
  from escaped_text_unsendable [OF this] show ?thesis by blast
qed

end
