(* ===== verification/ClipboardReceive.thy ===== *)
theory ClipboardReceive
  imports ClipboardRuns "HOL-Library.Sublist"
begin

text \<open>
  The receiving side of the clipboard, whatever the peer sends: what is applied is a message
  or the pieces of one transfer, complete and in order, under the cap; what is buffered is
  bounded by the cap.
\<close>

section \<open>What an assembly was built from\<close>

definition chunk_messages :: "(u64 \<Rightarrow> u32 \<Rightarrow> string \<Rightarrow> wire_message) \<Rightarrow> u64 \<Rightarrow> string list \<Rightarrow> wire_message list" where
  "chunk_messages chunk r ds = map (\<lambda>(i, d). chunk r (of_nat i) d) (enumerate 0 ds)"

lemma chunk_messages_snoc: "chunk_messages chunk r (ds @ [d]) = chunk_messages chunk r ds @ [chunk r (of_nat (length ds)) d]"
  by (simp add: chunk_messages_def enumerate_append_eq)

definition built_from ::
  "(u64 \<Rightarrow> u64 \<Rightarrow> u32 \<Rightarrow> wire_message) \<Rightarrow> (u64 \<Rightarrow> u32 \<Rightarrow> string \<Rightarrow> wire_message) \<Rightarrow> nat
     \<Rightarrow> wire_message list \<Rightarrow> 'x clipboard_assembly_scheme \<Rightarrow> bool" where
  "built_from start chunk cap ms a \<longleftrightarrow> length (cb_buffer a) \<le> cap \<and>
     (cb_expected_chunks a = 0 \<or>
      (\<exists>ds. cb_buffer a = concat ds \<and> cb_next_index a = of_nat (length ds)
         \<and> unat (cb_received_bytes a) = length (cb_buffer a) \<and> unat (cb_total_bytes a) \<le> cap
         \<and> subseq (start (cb_revision a) (cb_total_bytes a) (cb_expected_chunks a)
             # chunk_messages chunk (cb_revision a) ds) ms))"

lemma built_later: "built_from start chunk cap ms a \<Longrightarrow> built_from start chunk cap (ms @ [m]) a"
  unfolding built_from_def by (blast intro: list_emb_append2)

lemma built_none: "cb_expected_chunks a = 0 \<Longrightarrow> cb_buffer a = [] \<Longrightarrow> built_from start chunk cap ms a"
  by (simp add: built_from_def)

lemma built_start:
  assumes "cb_buffer a = []" "cb_next_index a = 0" "cb_received_bytes a = 0" "unat (cb_total_bytes a) \<le> cap"
  shows "built_from start chunk cap (ms @ [start (cb_revision a) (cb_total_bytes a) (cb_expected_chunks a)]) a"
  using assms by (auto simp: built_from_def chunk_messages_def intro!: exI [of _ "[]"] list_emb_append2)

lemma chunk_adds:
  assumes "chunk_fits r i d a" "unat (cb_received_bytes a) + length d < 2 ^ 64"
  shows "unat (cb_received_bytes a + of_nat (length d)) = unat (cb_received_bytes a) + length d"
    "unat (cb_received_bytes a) + length d \<le> unat (cb_total_bytes a)"
proof -
  show sum: "unat (cb_received_bytes a + of_nat (length d)) = unat (cb_received_bytes a) + length d"
    using assms(2) by (simp add: unat_word_ariths unat_of_nat mod_simps)
  show "unat (cb_received_bytes a) + length d \<le> unat (cb_total_bytes a)"
    using assms(1) unfolding chunk_fits_def sum [symmetric] by (simp add: word_less_nat_alt not_less)
qed

lemma built_add:
  assumes built: "built_from start chunk cap ms a" and fits: "chunk_fits r i d a"
    and small: "cap \<le> 16777216" "length d \<le> 65536"
  shows "built_from start chunk cap (ms @ [chunk r i d]) (add_chunk d a)"
proof -
  from fits have a: "cb_expected_chunks a \<noteq> 0" "r = cb_revision a" "i = cb_next_index a"
    by (auto simp: chunk_fits_def)
  with built obtain ds where ds: "cb_buffer a = concat ds" "cb_next_index a = of_nat (length ds)"
    "unat (cb_received_bytes a) = length (cb_buffer a)" "unat (cb_total_bytes a) \<le> cap"
    "subseq (start (cb_revision a) (cb_total_bytes a) (cb_expected_chunks a)
       # chunk_messages chunk (cb_revision a) ds) ms" "length (cb_buffer a) \<le> cap"
    by (auto simp: built_from_def)
  note more = chunk_adds [OF fits, unfolded ds(3)]
  have "subseq (start (cb_revision a) (cb_total_bytes a) (cb_expected_chunks a)
       # chunk_messages chunk (cb_revision a) (ds @ [d])) (ms @ [chunk r i d])"
    using list_emb_append_mono [OF ds(5), of "[chunk r i d]" "[chunk r i d]"] a(2,3) ds(2)
    by (simp add: chunk_messages_snoc)
  moreover have "length (cb_buffer a) + length d < 2 ^ 64" using ds(6) small by simp
  ultimately show ?thesis
    using more ds(1,2,4,6) by (auto simp: built_from_def add_chunk_def intro!: exI [of _ "ds @ [d]"])
qed

lemma built_complete:
  assumes "built_from start chunk cap ms a" "is_complete r a"
  shows "\<exists>ds. cb_buffer a = concat ds \<and> length (concat ds) \<le> cap
    \<and> subseq (start r (of_nat (length (concat ds))) (of_nat (length ds)) # chunk_messages chunk r ds) ms"
proof -
  from assms(2) have a: "cb_expected_chunks a \<noteq> 0" "r = cb_revision a" "cb_next_index a = cb_expected_chunks a"
    "cb_received_bytes a = cb_total_bytes a"
    by (auto simp: is_complete_def)
  with assms(1) obtain ds where ds: "cb_buffer a = concat ds" "cb_next_index a = of_nat (length ds)"
    "unat (cb_received_bytes a) = length (cb_buffer a)" "length (cb_buffer a) \<le> cap"
    "subseq (start (cb_revision a) (cb_total_bytes a) (cb_expected_chunks a)
       # chunk_messages chunk (cb_revision a) ds) ms"
    by (auto simp: built_from_def)
  have "of_nat (length (cb_buffer a)) = cb_total_bytes a"
    unfolding ds(3) [symmetric] a(4) by simp
  with ds a show ?thesis by (metis (no_types, lifting))
qed


section \<open>What a session holds\<close>

definition text_transfer :: "u64 \<Rightarrow> string list \<Rightarrow> wire_message list" where
  "text_transfer r ds = ClipboardStart r (of_nat (length (concat ds))) (of_nat (length ds))
     # chunk_messages ClipboardChunk r ds @ [ClipboardEnd r]"

definition image_transfer :: "u64 \<Rightarrow> u32 \<Rightarrow> u32 \<Rightarrow> string list \<Rightarrow> wire_message list" where
  "image_transfer r w h ds = ClipboardImageStart r (of_nat (length (concat ds))) (of_nat (length ds)) w h
     # chunk_messages ClipboardImageChunk r ds @ [ClipboardImageEnd r]"

text \<open>The paste is one that was sent: in one message, or in the pieces of one transfer.\<close>

definition sent_text :: "wire_message list \<Rightarrow> u64 \<Rightarrow> string \<Rightarrow> bool" where
  "sent_text ms r t \<longleftrightarrow> ClipboardText r t \<in> set ms \<or> (\<exists>ds. t = concat ds \<and> subseq (text_transfer r ds) ms)"

definition sent_image :: "wire_message list \<Rightarrow> u64 \<Rightarrow> image_paste \<Rightarrow> bool" where
  "sent_image ms r p \<longleftrightarrow> ClipboardImage r (im_width p) (im_height p) (im_png_base64 p) \<in> set ms
     \<or> (\<exists>ds. im_png_base64 p = concat ds \<and> subseq (image_transfer r (im_width p) (im_height p) ds) ms)"

definition sent_paste :: "nat \<Rightarrow> wire_message list \<Rightarrow> relay_paste \<Rightarrow> bool" where
  "sent_paste cap ms p \<longleftrightarrow>
     (\<exists>t. sent_text ms (rp_revision p) t \<and> length t \<le> cap
        \<and> stash_inbound_clipboard (rp_revision p) TextKind t 0 0 = Some p)
   \<or> (\<exists>i. sent_image ms (rp_revision p) i \<and> length (im_png_base64 i) \<le> cap
        \<and> stash_inbound_clipboard (rp_revision p) ImagePng (im_png_base64 i) (im_width i) (im_height i) = Some p)"

lemma sent_text_later: "sent_text ms r t \<Longrightarrow> sent_text (ms @ [m]) r t"
  unfolding sent_text_def by (auto intro: subseq_rev_drop_many)

lemma sent_image_later: "sent_image ms r i \<Longrightarrow> sent_image (ms @ [m]) r i"
  unfolding sent_image_def by (auto intro: subseq_rev_drop_many)

lemma sent_later: "sent_paste cap ms p \<Longrightarrow> sent_paste cap (ms @ [m]) p"
  unfolding sent_paste_def by (blast intro: sent_text_later sent_image_later)

definition clip_inv :: "u64 \<Rightarrow> u64 \<Rightarrow> wire_message list \<Rightarrow> clipboard_session \<Rightarrow> bool" where
  "clip_inv r0 cap ms s \<longleftrightarrow> cs_max_bytes s = cap
     \<and> built_from ClipboardStart ClipboardChunk (unat cap) ms (cs_text s)
     \<and> built_from (\<lambda>r t n. ClipboardImageStart r t n (cb_width (cs_image s)) (cb_height (cs_image s)))
         ClipboardImageChunk (unat cap) ms (cs_image s)
     \<and> r0 \<le> cs_remote_revision s
     \<and> (\<forall>p. cs_relay s = Some p \<longrightarrow> sent_paste (unat cap) ms p \<and> rp_revision p = cs_remote_revision s
          \<and> r0 < rp_revision p)"

lemma no_assembly_built: "built_from start chunk cap ms no_assembly" "built_from start chunk cap ms no_image"
  by (rule built_none; simp add: no_image_def no_assembly_def clipboard_assembly.extend_def image_assembly.fields_def)+

lemma stash_revision: "stash_inbound_clipboard r k t w h = Some p \<Longrightarrow> rp_revision p = r"
  by (auto simp: stash_inbound_clipboard_def split: bind_splits)

lemma clip_inv_text:
  assumes inv: "clip_inv r0 cap ms s" and now: "cs_remote_revision s < r"
    and t: "sent_text ms r t" "length t \<le> unat cap"
    and step: "apply_inbound_clipboard r t s = Some s'"
  shows "clip_inv r0 cap ms s'"
proof -
  from step obtain p where "stash_inbound_clipboard r TextKind t 0 0 = Some p"
    "s' = s\<lparr>cs_remote_revision := r, cs_relay := Some p, cs_latest_text := Some t\<rparr>"
    by (auto simp: apply_inbound_clipboard_def split: bind_splits)
  with inv now t stash_revision [of r TextKind t 0 0 p] show ?thesis
    by (auto simp: clip_inv_def sent_paste_def)
qed

lemma clip_inv_image:
  assumes inv: "clip_inv r0 cap ms s" and now: "cs_remote_revision s < r"
    and i: "sent_image ms r i" "length (im_png_base64 i) \<le> unat cap"
    and step: "apply_inbound_clipboard_image r i s = Some s'"
  shows "clip_inv r0 cap ms s'"
proof -
  from step obtain p where "stash_inbound_clipboard r ImagePng (im_png_base64 i) (im_width i) (im_height i) = Some p"
    "s' = s\<lparr>cs_remote_revision := r, cs_relay := Some p, cs_latest_image := Some i\<rparr>"
    by (auto simp: apply_inbound_clipboard_image_def split: bind_splits)
  with inv now i stash_revision [of r ImagePng "im_png_base64 i" "im_width i" "im_height i" p] show ?thesis
    by (auto simp: clip_inv_def sent_paste_def)
qed

lemma clip_inv_later: "clip_inv r0 cap ms s \<Longrightarrow> clip_inv r0 cap (ms @ [m]) s"
  unfolding clip_inv_def by (blast intro: built_later sent_later)

lemma clip_inv_set_text:
  "clip_inv r0 cap ms s \<Longrightarrow> built_from ClipboardStart ClipboardChunk (unat cap) ms a \<Longrightarrow> clip_inv r0 cap ms (s\<lparr>cs_text := a\<rparr>)"
  by (auto simp: clip_inv_def)

lemma clip_inv_set_image:
  "clip_inv r0 cap ms s \<Longrightarrow>
     built_from (\<lambda>r t n. ClipboardImageStart r t n (cb_width a) (cb_height a)) ClipboardImageChunk (unat cap) ms a \<Longrightarrow>
     clip_inv r0 cap ms (s\<lparr>cs_image := a\<rparr>)"
  by (auto simp: clip_inv_def)

lemma small_text: "length t \<le> 65536 \<Longrightarrow> \<not> of_nat (length t) > (cap :: u64) \<Longrightarrow> length t \<le> unat cap"
  by (simp add: word_less_nat_alt unat_of_nat not_less)


lemma text_end_inv:
  assumes inv: "clip_inv r0 cap ms s" and now: "cs_remote_revision s < r"
    and step: "(case feed_end r (cs_text s) of (a, Ready text) \<Rightarrow> apply_inbound_clipboard r text (s\<lparr>cs_text := a\<rparr>)
         | (a, _) \<Rightarrow> Some (s\<lparr>cs_text := a\<rparr>)) = Some s'"
  shows "clip_inv r0 cap (ms @ [ClipboardEnd r]) s'"
proof -
  have cleared: "clip_inv r0 cap (ms @ [ClipboardEnd r]) (s\<lparr>cs_text := no_assembly\<rparr>)"
    by (intro clip_inv_set_text clip_inv_later inv no_assembly_built)
  show ?thesis
  proof (cases "is_complete r (cs_text s)")
    case True
    with inv obtain ds where ds: "cb_buffer (cs_text s) = concat ds" "length (concat ds) \<le> unat cap"
      "subseq (ClipboardStart r (of_nat (length (concat ds))) (of_nat (length ds)) # chunk_messages ClipboardChunk r ds) ms"
      using built_complete by (fastforce simp: clip_inv_def)
    have "subseq (text_transfer r ds) (ms @ [ClipboardEnd r])"
      using list_emb_append_mono [OF ds(3), of "[ClipboardEnd r]" "[ClipboardEnd r]"] by (simp add: text_transfer_def)
    then have "sent_text (ms @ [ClipboardEnd r]) r (concat ds)" by (auto simp: sent_text_def)
    with True step ds(1,2) now show ?thesis
      by (intro clip_inv_text [OF cleared]) (simp_all add: feed_end_def)
  next
    case False
    with step cleared show ?thesis by (simp add: feed_end_def)
  qed
qed

lemma image_end_inv:
  assumes inv: "clip_inv r0 cap ms s" and now: "cs_remote_revision s < r"
    and step: "(case feed_image_end r (cs_image s) of
         (a, Ready picture) \<Rightarrow> apply_inbound_clipboard_image r picture (s\<lparr>cs_image := a\<rparr>)
       | (a, _) \<Rightarrow> Some (s\<lparr>cs_image := a\<rparr>)) = Some s'"
  shows "clip_inv r0 cap (ms @ [ClipboardImageEnd r]) s'"
proof -
  let ?i = "\<lparr>im_png_base64 = cb_buffer (cs_image s), im_width = cb_width (cs_image s),
    im_height = cb_height (cs_image s)\<rparr>"
  have cleared: "clip_inv r0 cap (ms @ [ClipboardImageEnd r]) (s\<lparr>cs_image := no_image\<rparr>)"
    by (intro clip_inv_set_image clip_inv_later inv no_assembly_built)
  show ?thesis
  proof (cases "is_complete r (cs_image s)")
    case True
    with inv obtain ds where ds: "cb_buffer (cs_image s) = concat ds" "length (concat ds) \<le> unat cap"
      "subseq (ClipboardImageStart r (of_nat (length (concat ds))) (of_nat (length ds)) (im_width ?i) (im_height ?i)
         # chunk_messages ClipboardImageChunk r ds) ms"
      using built_complete by (fastforce simp: clip_inv_def)
    have "subseq (image_transfer r (im_width ?i) (im_height ?i) ds) (ms @ [ClipboardImageEnd r])"
      using list_emb_append_mono [OF ds(3), of "[ClipboardImageEnd r]" "[ClipboardImageEnd r]"]
      by (simp add: image_transfer_def)
    then have "sent_image (ms @ [ClipboardImageEnd r]) r ?i" using ds(1) by (auto simp: sent_image_def)
    with True step ds(1,2) now show ?thesis
      by (intro clip_inv_image [OF cleared]) (simp_all add: feed_image_end_def)
  next
    case False
    with step cleared show ?thesis by (simp add: feed_image_end_def)
  qed
qed


lemma text_start_inv:
  assumes "clip_inv r0 cap ms s"
  shows "clip_inv r0 cap (ms @ [ClipboardStart r n c]) (s\<lparr>cs_text := fst (feed_start r n c (cs_max_bytes s))\<rparr>)"
proof (rule clip_inv_set_text [OF clip_inv_later [OF assms]])
  have cap: "cs_max_bytes s = cap" using assms by (simp add: clip_inv_def)
  show "built_from ClipboardStart ClipboardChunk (unat cap) (ms @ [ClipboardStart r n c])
      (fst (feed_start r n c (cs_max_bytes s)))"
    using built_start [of "fst (feed_start r n c (cs_max_bytes s))" "unat cap" ClipboardStart ClipboardChunk ms]
    by (cases "n = 0 \<or> n > cap \<or> c = 0")
      (auto simp: feed_start_def cap built_none no_assembly_def word_less_nat_alt)
qed

lemma image_start_inv:
  assumes "clip_inv r0 cap ms s"
  shows "clip_inv r0 cap (ms @ [ClipboardImageStart r n c w h])
    (s\<lparr>cs_image := fst (feed_image_start r n c w h (cs_max_bytes s))\<rparr>)"
proof (rule clip_inv_set_image [OF clip_inv_later [OF assms]])
  have cap: "cs_max_bytes s = cap" using assms by (simp add: clip_inv_def)
  let ?a = "fst (feed_image_start r n c w h (cs_max_bytes s))"
  show "built_from (\<lambda>r t n. ClipboardImageStart r t n (cb_width ?a) (cb_height ?a)) ClipboardImageChunk
      (unat cap) (ms @ [ClipboardImageStart r n c w h]) ?a"
    using built_start [of ?a "unat cap"
        "\<lambda>r t n. ClipboardImageStart r t n (cb_width ?a) (cb_height ?a)" ClipboardImageChunk ms]
    by (cases "n = 0 \<or> n > cap \<or> c = 0 \<or> w = 0 \<or> h = 0 \<or> w > 16384 \<or> h > 16384")
      (auto simp: feed_image_start_def cap built_none no_image_def no_assembly_def
        clipboard_assembly.extend_def image_assembly.fields_def word_less_nat_alt)
qed

lemma text_chunk_inv:
  assumes "clip_inv r0 cap ms s" and "unat cap \<le> 16777216" "length d \<le> 65536"
  shows "clip_inv r0 cap (ms @ [ClipboardChunk r i d]) (s\<lparr>cs_text := fst (feed_text_chunk r i d (cs_text s))\<rparr>)"
proof (rule clip_inv_set_text [OF clip_inv_later [OF assms(1)]])
  show "built_from ClipboardStart ClipboardChunk (unat cap) (ms @ [ClipboardChunk r i d])
      (fst (feed_text_chunk r i d (cs_text s)))"
    using assms built_add [of ClipboardStart ClipboardChunk "unat cap" ms "cs_text s" r i d]
    by (simp add: feed_text_chunk_def clip_inv_def no_assembly_built)
qed

lemma image_chunk_inv:
  assumes "clip_inv r0 cap ms s" and "unat cap \<le> 16777216" "length d \<le> 65536"
  shows "clip_inv r0 cap (ms @ [ClipboardImageChunk r i d]) (s\<lparr>cs_image := fst (feed_image_chunk r i d (cs_image s))\<rparr>)"
proof (rule clip_inv_set_image [OF clip_inv_later [OF assms(1)]])
  let ?a = "fst (feed_image_chunk r i d (cs_image s))"
  have kept: "cb_width (add_chunk d (cs_image s)) = cb_width (cs_image s)"
    "cb_height (add_chunk d (cs_image s)) = cb_height (cs_image s)"
    by (simp_all add: add_chunk_def)
  show "built_from (\<lambda>r t n. ClipboardImageStart r t n (cb_width ?a) (cb_height ?a)) ClipboardImageChunk
      (unat cap) (ms @ [ClipboardImageChunk r i d]) ?a"
    using assms built_add [of "\<lambda>r t n. ClipboardImageStart r t n (cb_width (cs_image s)) (cb_height (cs_image s))"
        ClipboardImageChunk "unat cap" ms "cs_image s" r i d]
    by (simp add: feed_image_chunk_def clip_inv_def no_assembly_built kept)
qed

lemma clip_step:
  assumes inv: "clip_inv r0 cap ms s" and cap: "unat cap \<le> 16777216" and m: "message_ok m"
    and step: "handle_clipboard m s = Some s'"
  shows "clip_inv r0 cap (ms @ [m]) s'"
proof -
  have stay: "clip_inv r0 cap (ms @ [m]) s" by (rule clip_inv_later [OF inv])
  have max: "cs_max_bytes s = cap" using inv by (simp add: clip_inv_def)
  show ?thesis
  proof (cases m)
    case (ClipboardText r t)
    have "sent_text (ms @ [m]) r t" by (simp add: ClipboardText sent_text_def)
    with step stay m small_text [of t cap] show ?thesis
      by (auto simp: ClipboardText clipboard_frame_current_def max not_le split: if_splits
          intro: clip_inv_text [OF stay [unfolded ClipboardText]])
  next
    case (ClipboardImage r w h e)
    have "sent_image (ms @ [m]) r \<lparr>im_png_base64 = e, im_width = w, im_height = h\<rparr>"
      by (simp add: ClipboardImage sent_image_def)
    with step stay m small_text [of e cap] show ?thesis
      by (auto simp: ClipboardImage clipboard_frame_current_def max not_le split: if_splits
          intro: clip_inv_image [OF stay [unfolded ClipboardImage]])
  next
    case (ClipboardEnd r)
    with step stay text_end_inv [OF inv, of r s'] show ?thesis
      by (auto simp: clipboard_frame_current_def not_le split: if_splits)
  next
    case (ClipboardImageEnd r)
    with step stay image_end_inv [OF inv, of r s'] show ?thesis
      by (auto simp: clipboard_frame_current_def not_le split: if_splits)
  next
    case (ClipboardStart r n c)
    with step stay text_start_inv [OF inv] show ?thesis by (auto split: if_splits)
  next
    case (ClipboardImageStart r n c w h)
    with step stay image_start_inv [OF inv] show ?thesis by (auto split: if_splits)
  next
    case (ClipboardChunk r i d)
    with step stay m text_chunk_inv [OF inv cap, of d] show ?thesis by (auto split: if_splits)
  next
    case (ClipboardImageChunk r i d)
    with step stay m image_chunk_inv [OF inv cap, of d] show ?thesis by (auto split: if_splits)
  qed (use step stay in auto)
qed

lemma clip_run:
  assumes "clip_inv r0 cap before s" "unat cap \<le> 16777216" "list_all message_ok ms" "handle_all ms s = Some s'"
  shows "clip_inv r0 cap (before @ ms) s'"
  using assms(1,3,4)
proof (induction ms arbitrary: before s)
  case (Cons m ms)
  then obtain s1 where "handle_clipboard m s = Some s1" "handle_all ms s1 = Some s'"
    by (auto split: bind_splits)
  with Cons clip_step [OF Cons.prems(1) assms(2)] Cons.IH [of "before @ [m]" s1] show ?case by simp
qed simp

text \<open>An episode begins with no transfer under way and a slot it has not filled.\<close>

definition fresh_clipboard :: "clipboard_session \<Rightarrow> bool" where
  "fresh_clipboard s \<longleftrightarrow> cs_text s = no_assembly \<and> cs_image s = no_image \<and> cs_relay s = None"

text \<open>
  C21: only a paste that was sent whole is applied. After any sequence of valid messages, in any
  order and mixture, what the slot holds is the text or the image of one message, or all the
  pieces of one announced transfer, in order, exactly as many bytes as announced and under the
  cap, with a revision newer than any before; and no assembly has buffered more than the cap.
\<close>

theorem only_whole_pastes_apply:
  assumes "fresh_clipboard s" "unat (cs_max_bytes s) \<le> 16777216"
    and "list_all (\<lambda>m. validate_message m = Inr ()) ms" "handle_all ms s = Some s'"
  shows "length (cb_buffer (cs_text s')) \<le> unat (cs_max_bytes s)
    \<and> length (cb_buffer (cs_image s')) \<le> unat (cs_max_bytes s)
    \<and> (\<forall>p. cs_relay s' = Some p \<longrightarrow> sent_paste (unat (cs_max_bytes s)) ms p
        \<and> cs_remote_revision s < rp_revision p \<and> rp_revision p = cs_remote_revision s')"
proof -
  have "clip_inv (cs_remote_revision s) (cs_max_bytes s) [] s"
    using assms(1) by (auto simp: clip_inv_def fresh_clipboard_def no_assembly_built)
  from clip_run [OF this assms(2) _ assms(4)] assms(3) show ?thesis
    by (auto simp: clip_inv_def built_from_def validate_message_iff)
qed


lemma only_whole_pastes_apply_witness:
  "\<exists>s'. handle_all [ClipboardStart 4 2 2, ClipboardChunk 4 0 ''h'', ClipboardText 3 ''x'', ClipboardChunk 4 1 ''i'',
      ClipboardEnd 4] \<lparr>cs_enabled = True, cs_max_bytes = 1024, cs_remote_revision = 0, cs_text = no_assembly,
      cs_image = no_image, cs_latest_text = None, cs_latest_image = None, cs_relay = None\<rparr> = Some s'
    \<and> cs_latest_text s' = Some ''hi''
    \<and> (\<exists>p. cs_relay s' = Some p \<and> rp_revision p = 4 \<and> sent_paste 1024 [ClipboardStart 4 2 2, ClipboardChunk 4 0 ''h'',
      ClipboardText 3 ''x'', ClipboardChunk 4 1 ''i'', ClipboardEnd 4] p)"
proof -
  let ?ms = "[ClipboardStart 4 2 2, ClipboardChunk 4 0 ''h'', ClipboardText 3 ''x'', ClipboardChunk 4 1 ''i'', ClipboardEnd 4]"
  let ?s = "\<lparr>cs_enabled = True, cs_max_bytes = 1024, cs_remote_revision = 0, cs_text = no_assembly,
      cs_image = no_image, cs_latest_text = None, cs_latest_image = None, cs_relay = None\<rparr>"
  obtain s' where s': "handle_all ?ms ?s = Some s'" "cs_latest_text s' = Some ''hi''"
    "\<exists>p. cs_relay s' = Some p \<and> rp_revision p = 4"
    by (simp add: clipboard_frame_current_def feed_start_def feed_text_chunk_def feed_end_def chunk_fits_def
        add_chunk_def is_complete_def no_assembly_def apply_inbound_clipboard_def stash_inbound_clipboard_def
        split_relay_payload_def CLIPBOARD_CHUNK_BYTES_def)
  have ok: "list_all (\<lambda>m. validate_message m = Inr ()) ?ms" by (simp add: validate_message_iff transfer_ok_def)
  show ?thesis
    using only_whole_pastes_apply [OF _ _ ok s'(1)] s'(2,3) s'(1)
    by (auto simp: fresh_clipboard_def)
qed

end
