(* ===== verification/KeyTables.thy ===== *)
theory KeyTables
  imports Events
begin

text \<open>
  Keys on their way from one keyboard to the other machine: the tables from native codes to
  HID usages, which cross the wire, and back, of \<^verbatim>\<open>kvm-platform/src/evdev_capture.rs\<close>,
  \<^verbatim>\<open>capture.rs\<close> and \<^verbatim>\<open>inject.rs\<close>. The arms of a \<open>match\<close> exclude each other; they are a
  function of the integer value: a test for each arm over a range, a table for the others.
\<close>

section \<open>Linux: event codes of the kernel\<close>

definition from_evdev_arms :: "int \<Rightarrow> int option" where
  "from_evdev_arms x =
    (if 2 \<le> x \<and> x \<le> 11 then Some (0x1e + (x - 2))
     else if 59 \<le> x \<and> x \<le> 68 then Some (0x3a + (x - 59))
     else if 71 \<le> x \<and> x \<le> 73 then Some (0x5f + (x - 71))
     else if 75 \<le> x \<and> x \<le> 77 then Some (0x5c + (x - 75))
     else if 79 \<le> x \<and> x \<le> 81 then Some (0x59 + (x - 79))
     else if 183 \<le> x \<and> x \<le> 194 then Some (0x68 + (x - 183))
     else map_of
    [(1, 0x29), (12, 0x2d), (13, 0x2e), (14, 0x2a), (15, 0x2b), (16, 0x14), (17, 0x1a), (18, 0x08),
     (19, 0x15), (20, 0x17), (21, 0x1c), (22, 0x18), (23, 0x0c), (24, 0x12), (25, 0x13),
     (26, 0x2f), (27, 0x30), (28, 0x28), (29, 0xe0), (30, 0x04), (31, 0x16), (32, 0x07),
     (33, 0x09), (34, 0x0a), (35, 0x0b), (36, 0x0d), (37, 0x0e), (38, 0x0f), (39, 0x33),
     (40, 0x34), (41, 0x35), (42, 0xe1), (43, 0x31), (44, 0x1d), (45, 0x1b), (46, 0x06),
     (47, 0x19), (48, 0x05), (49, 0x11), (50, 0x10), (51, 0x36), (52, 0x37), (53, 0x38),
     (54, 0xe5), (55, 0x55), (56, 0xe2), (57, 0x2c), (58, 0x39), (69, 0x53), (70, 0x47),
     (74, 0x56), (78, 0x57), (82, 0x62), (83, 0x63), (86, 0x64), (87, 0x44), (88, 0x45),
     (96, 0x58), (98, 0x54), (99, 0x46), (97, 0xe4), (100, 0xe6), (102, 0x4a), (103, 0x52),
     (104, 0x4b), (105, 0x50), (106, 0x4f), (107, 0x4d), (108, 0x51), (109, 0x4e), (110, 0x49),
     (111, 0x4c), (113, 0x7f), (114, 0x81), (115, 0x80), (116, 0x66), (117, 0x67), (128, 0x78),
     (129, 0x79), (131, 0x7a), (133, 0x7c), (135, 0x7d), (136, 0x7e), (137, 0x7b), (138, 0x75),
     (139, 0x76), (121, 0x85), (122, 0x90), (123, 0x91), (124, 0x89), (119, 0x48), (125, 0xe3),
     (126, 0xe7)] x)"

definition hid_from_evdev :: "u16 \<Rightarrow> hid_usage option" where
  "hid_from_evdev code = map_option word_of_int (from_evdev_arms (uint code))"

definition to_evdev_arms :: "int \<Rightarrow> int option" where
  "to_evdev_arms x =
    (if 0x1e \<le> x \<and> x \<le> 0x27 then Some (x - 0x1e + 2)
     else if 0x3a \<le> x \<and> x \<le> 0x43 then Some (x - 0x3a + 59)
     else if 0x59 \<le> x \<and> x \<le> 0x5b then Some (x - 0x59 + 79)
     else if 0x5c \<le> x \<and> x \<le> 0x5e then Some (x - 0x5c + 75)
     else if 0x5f \<le> x \<and> x \<le> 0x61 then Some (x - 0x5f + 71)
     else if 0x68 \<le> x \<and> x \<le> 0x73 then Some (x - 0x68 + 183)
     else map_of
    [(0x04, 30), (0x05, 48), (0x06, 46), (0x07, 32), (0x08, 18), (0x09, 33), (0x0a, 34),
     (0x0b, 35), (0x0c, 23), (0x0d, 36), (0x0e, 37), (0x0f, 38), (0x10, 50), (0x11, 49),
     (0x12, 24), (0x13, 25), (0x14, 16), (0x15, 19), (0x16, 31), (0x17, 20), (0x18, 22),
     (0x19, 47), (0x1a, 17), (0x1b, 45), (0x1c, 21), (0x1d, 44), (0x28, 28), (0x29, 1), (0x2a, 14),
     (0x2b, 15), (0x2c, 57), (0x2d, 12), (0x2e, 13), (0x2f, 26), (0x30, 27), (0x31, 43),
     (0x33, 39), (0x34, 40), (0x35, 41), (0x36, 51), (0x37, 52), (0x38, 53), (0x39, 58),
     (0x44, 87), (0x45, 88), (0x46, 99), (0x47, 70), (0x48, 119), (0x49, 110), (0x4a, 102),
     (0x4b, 104), (0x4c, 111), (0x4d, 107), (0x4e, 109), (0x4f, 106), (0x50, 105), (0x51, 108),
     (0x52, 103), (0x53, 69), (0x54, 98), (0x55, 55), (0x56, 74), (0x57, 78), (0x58, 96),
     (0x62, 82), (0x63, 83), (0x64, 86), (0x65, 127), (0x66, 116), (0x67, 117), (0x75, 138),
     (0x76, 139), (0x77, 353), (0x78, 128), (0x79, 129), (0x7a, 131), (0x7b, 137), (0x7c, 133),
     (0x7d, 135), (0x7e, 136), (0x7f, 113), (0x80, 115), (0x81, 114), (0x82, 58), (0x83, 69),
     (0x84, 70), (0x85, 121), (0x86, 117), (0xe0, 29), (0xe1, 42), (0xe2, 56), (0xe3, 125),
     (0xe4, 97), (0xe5, 54), (0xe6, 100), (0xe7, 126)] x)"

definition hid_to_evdev :: "hid_usage \<Rightarrow> u16 option" where
  "hid_to_evdev usage = map_option word_of_int (to_evdev_arms (uint usage))"

section \<open>Windows: virtual keys, set 1 scan codes, consumer usages\<close>

definition from_vk_arms :: "int \<Rightarrow> int option" where
  "from_vk_arms x =
    (if 0x41 \<le> x \<and> x \<le> 0x5a then Some (0x04 + (x - 0x41))
     else if 0x31 \<le> x \<and> x \<le> 0x39 then Some (0x1e + (x - 0x31))
     else if 0x61 \<le> x \<and> x \<le> 0x69 then Some (0x59 + (x - 0x61))
     else if 0x70 \<le> x \<and> x \<le> 0x7b then Some (0x3a + (x - 0x70))
     else if 0x7c \<le> x \<and> x \<le> 0x87 then Some (0x68 + (x - 0x7c))
     else map_of
    [(0x30, 0x27), (0x0d, 0x28), (0x1b, 0x29), (0x08, 0x2a), (0x09, 0x2b), (0x20, 0x2c),
     (0xba, 0x33), (0xde, 0x34), (0xc0, 0x35), (0xdc, 0x31), (0xbb, 0x2e), (0xbd, 0x2d),
     (0xbc, 0x36), (0xbe, 0x37), (0xbf, 0x38), (0x14, 0x39), (0x13, 0x48), (0x90, 0x53),
     (0x2c, 0x46), (0x60, 0x62), (0x6a, 0x55), (0x6b, 0x57), (0x6d, 0x56), (0x6e, 0x63),
     (0x6f, 0x54), (0x25, 0x50), (0x26, 0x52), (0x27, 0x4f), (0x28, 0x51), (0xa0, 0xe1),
     (0xa1, 0xe5), (0xa2, 0xe0), (0xa3, 0xe4), (0xa4, 0xe2), (0xa5, 0xe6), (0x5b, 0xe3),
     (0x5c, 0xe7), (0x5d, 0x65), (0xad, 0x7f), (0xae, 0x81), (0xaf, 0x80)] x)"

definition hid_from_vk :: "u16 \<Rightarrow> hid_usage option" where
  "hid_from_vk vk = map_option word_of_int (from_vk_arms (uint vk))"

definition extended_scan_arms :: "int \<Rightarrow> int option" where
  "extended_scan_arms x =
    map_of
    [(0x1c, 0x58), (0x1d, 0xe4), (0x35, 0x54), (0x37, 0x46), (0x38, 0xe6), (0x47, 0x4a),
     (0x48, 0x52), (0x49, 0x4b), (0x4b, 0x50), (0x4d, 0x4f), (0x4f, 0x4d), (0x50, 0x51),
     (0x51, 0x4e), (0x52, 0x49), (0x53, 0x4c), (0x5b, 0xe3), (0x5c, 0xe7), (0x5d, 0x65)] x"

definition plain_scan_arms :: "int \<Rightarrow> int option" where
  "plain_scan_arms x =
    (if 0x3b \<le> x \<and> x \<le> 0x44 then Some (0x3a + (x - 0x3b))
     else map_of
    [(0x02, 0x1e), (0x03, 0x1f), (0x04, 0x20), (0x05, 0x21), (0x06, 0x22), (0x07, 0x23),
     (0x08, 0x24), (0x09, 0x25), (0x0a, 0x26), (0x0b, 0x27), (0x0c, 0x2d), (0x0d, 0x2e),
     (0x0e, 0x2a), (0x0f, 0x2b), (0x10, 0x14), (0x11, 0x1a), (0x12, 0x08), (0x13, 0x15),
     (0x14, 0x17), (0x15, 0x1c), (0x16, 0x18), (0x17, 0x0c), (0x18, 0x12), (0x19, 0x13),
     (0x1a, 0x2f), (0x1b, 0x30), (0x1c, 0x28), (0x1d, 0xe0), (0x1e, 0x04), (0x1f, 0x16),
     (0x20, 0x07), (0x21, 0x09), (0x22, 0x0a), (0x23, 0x0b), (0x24, 0x0d), (0x25, 0x0e),
     (0x26, 0x0f), (0x27, 0x33), (0x28, 0x34), (0x29, 0x35), (0x2a, 0xe1), (0x2b, 0x31),
     (0x2c, 0x1d), (0x2d, 0x1b), (0x2e, 0x06), (0x2f, 0x19), (0x30, 0x05), (0x31, 0x11),
     (0x32, 0x10), (0x33, 0x36), (0x34, 0x37), (0x35, 0x38), (0x36, 0xe5), (0x37, 0x46),
     (0x38, 0xe2), (0x39, 0x2c), (0x3a, 0x39), (0x45, 0x53), (0x46, 0x47), (0x57, 0x44),
     (0x58, 0x45)] x)"

definition hid_from_scan_code :: "u16 \<Rightarrow> bool \<Rightarrow> hid_usage option" where
  "hid_from_scan_code scan_code extended = map_option word_of_int
     (if extended then extended_scan_arms (uint scan_code) else plain_scan_arms (uint scan_code))"

definition consumer_to_hid :: "u16 \<Rightarrow> hid_usage option" where
  "consumer_to_hid usage = map_option word_of_int
     (map_of [(0xe2, 0x7f), (0xe9, 0x80), (0xea, 0x81)] (uint usage))"

definition to_scan_arms :: "int \<Rightarrow> (int \<times> bool) option" where
  "to_scan_arms x =
    (if 0x3a \<le> x \<and> x \<le> 0x44 then Some (0x3b + (x - 0x3a), False)
     else if 0x68 \<le> x \<and> x \<le> 0x72 then Some (0x64 + (x - 0x68), False)
     else map_of
    [(0x04, 0x1e, False), (0x05, 0x30, False), (0x06, 0x2e, False), (0x07, 0x20, False),
     (0x08, 0x12, False), (0x09, 0x21, False), (0x0a, 0x22, False), (0x0b, 0x23, False),
     (0x0c, 0x17, False), (0x0d, 0x24, False), (0x0e, 0x25, False), (0x0f, 0x26, False),
     (0x10, 0x32, False), (0x11, 0x31, False), (0x12, 0x18, False), (0x13, 0x19, False),
     (0x14, 0x10, False), (0x15, 0x13, False), (0x16, 0x1f, False), (0x17, 0x14, False),
     (0x18, 0x16, False), (0x19, 0x2f, False), (0x1a, 0x11, False), (0x1b, 0x2d, False),
     (0x1c, 0x15, False), (0x1d, 0x2c, False), (0x1e, 0x02, False), (0x1f, 0x03, False),
     (0x20, 0x04, False), (0x21, 0x05, False), (0x22, 0x06, False), (0x23, 0x07, False),
     (0x24, 0x08, False), (0x25, 0x09, False), (0x26, 0x0a, False), (0x27, 0x0b, False),
     (0x28, 0x1c, False), (0x29, 0x01, False), (0x2a, 0x0e, False), (0x2b, 0x0f, False),
     (0x2c, 0x39, False), (0x2d, 0x0c, False), (0x2e, 0x0d, False), (0x2f, 0x1a, False),
     (0x30, 0x1b, False), (0x31, 0x2b, False), (0x33, 0x27, False), (0x34, 0x28, False),
     (0x35, 0x29, False), (0x36, 0x33, False), (0x37, 0x34, False), (0x38, 0x35, False),
     (0x39, 0x3a, False), (0x45, 0x58, False), (0x46, 0x37, True), (0x47, 0x46, False),
     (0x49, 0x52, True), (0x4a, 0x47, True), (0x4b, 0x4b, True), (0x4c, 0x53, True),
     (0x4d, 0x4d, True), (0x4e, 0x51, True), (0x4f, 0x4d, True), (0x50, 0x4b, True),
     (0x51, 0x50, True), (0x52, 0x48, True), (0x53, 0x45, False), (0x54, 0x35, True),
     (0x55, 0x37, False), (0x56, 0x4a, False), (0x57, 0x4e, False), (0x58, 0x1c, True),
     (0x59, 0x4f, False), (0x5a, 0x50, False), (0x5b, 0x51, False), (0x5c, 0x4b, False),
     (0x5d, 0x4c, False), (0x5e, 0x4d, False), (0x5f, 0x47, False), (0x60, 0x48, False),
     (0x61, 0x49, False), (0x62, 0x52, False), (0x63, 0x53, False), (0x64, 0x56, False),
     (0x65, 0x5d, True), (0x73, 0x76, False), (0xe0, 0x1d, False), (0xe1, 0x2a, False),
     (0xe2, 0x38, False), (0xe3, 0x5b, True), (0xe4, 0x1d, True), (0xe5, 0x36, False),
     (0xe6, 0x38, True), (0xe7, 0x5c, True)] x)"

definition hid_to_scan_code :: "hid_usage \<Rightarrow> (u16 \<times> bool) option" where
  "hid_to_scan_code usage =
     map_option (\<lambda>(scan, extended). (word_of_int scan, extended)) (to_scan_arms (uint usage))"

definition virtual_key_arms :: "int \<Rightarrow> (int \<times> int \<times> bool) option" where
  "virtual_key_arms x =
    map_of
    [(0x48, 0x13, 0, False), (0x7f, 0xad, 0, False), (0x80, 0xaf, 0, False), (0x81, 0xae, 0, False)] x"

definition key_virtual_key :: "hid_usage \<Rightarrow> (u16 \<times> u16 \<times> bool) option" where
  "key_virtual_key usage = map_option (\<lambda>(vk, scan, extended). (word_of_int vk, word_of_int scan, extended))
     (virtual_key_arms (uint usage))"

section \<open>Captured and injected keys\<close>

text \<open>The keyboard hook: the scan code, or else the virtual key.\<close>

definition hooked_usage :: "u16 \<Rightarrow> bool \<Rightarrow> u16 \<Rightarrow> hid_usage option" where
  "hooked_usage scan extended vk =
     (case hid_from_scan_code scan extended of Some usage \<Rightarrow> Some usage | None \<Rightarrow> hid_from_vk vk)"

text \<open>What the Windows injector sends for a usage: virtual key, scan code, extended bit.\<close>

definition windows_key :: "hid_usage \<Rightarrow> (u16 \<times> u16 \<times> bool) option" where
  "windows_key usage =
     (case key_virtual_key usage of
        Some virtual_path \<Rightarrow> Some virtual_path
      | None \<Rightarrow> map_option (\<lambda>(scan, extended). (0, scan, extended)) (hid_to_scan_code usage))"

end
