(* ===== verification/KeyRuns.thy ===== *)
theory KeyRuns
  imports KeyTables
begin

text \<open>
  Which keys arrive as the keys they were: the tables composed, from one machine's keyboard to
  the other machine's input. A fact about every key is computed for the values from 0 to 255.
\<close>

section \<open>Every captured value is a small one\<close>

lemma from_evdev_small: "from_evdev_arms x = Some y \<Longrightarrow> x \<in> set [0..255]"
  by (auto simp: from_evdev_arms_def dest!: map_of_SomeD split: if_splits)

lemma from_vk_small: "from_vk_arms x = Some y \<Longrightarrow> x \<in> set [0..255]"
  by (auto simp: from_vk_arms_def dest!: map_of_SomeD split: if_splits)

lemma extended_scan_small: "extended_scan_arms x = Some y \<Longrightarrow> x \<in> set [0..255]"
  by (auto simp: extended_scan_arms_def dest!: map_of_SomeD split: if_splits)

lemma plain_scan_small: "plain_scan_arms x = Some y \<Longrightarrow> x \<in> set [0..255]"
  by (auto simp: plain_scan_arms_def dest!: map_of_SomeD split: if_splits)

lemma by_table: "list_all P xs \<Longrightarrow> x \<in> set xs \<Longrightarrow> P x"
  by (simp add: list_all_iff)

lemma uint_back: "0 \<le> u \<Longrightarrow> u \<le> 255 \<Longrightarrow> uint (word_of_int u :: u16) = u"
  by (simp add: uint_word_of_int)

section \<open>Between machines of one kind\<close>

text \<open>The value \<open>x\<close> is captured as a small usage, if at all, and injected as \<open>f x\<close>.\<close>

definition arrives :: "(int \<Rightarrow> int option) \<Rightarrow> (int \<Rightarrow> 'a option) \<Rightarrow> (int \<Rightarrow> 'a option) \<Rightarrow> int \<Rightarrow> bool" where
  "arrives capture inject f x = (case capture x of None \<Rightarrow> True
     | Some u \<Rightarrow> 0 \<le> u \<and> u \<le> 255 \<and> inject u = f x)"

lemma arrivesD:
  assumes "arrives capture inject f x" "capture x = Some u"
  shows "uint (word_of_int u :: u16) = u \<and> inject u = f x"
  using assms by (simp add: arrives_def uint_back)

lemma evdev_table:
  "list_all (arrives from_evdev_arms to_evdev_arms
     (\<lambda>x. if x = 122 \<or> x = 123 \<or> x = 124 then None else Some x)) [0..255]"
  by code_simp

text \<open>
  Between Linux machines a key arrives as the key it was. Every code the capture reports
  is injected as the same code, but for three keys of Korean and Japanese keyboards, which the
  injector refuses.
\<close>

theorem linux_keys_arrive:
  assumes "hid_from_evdev code = Some usage"
  shows "hid_to_evdev usage = (if code \<in> {122, 123, 124} then None else Some code)"
proof -
  from assms obtain u where u: "from_evdev_arms (uint code) = Some u" "usage = word_of_int u"
    by (auto simp: hid_from_evdev_def)
  with arrivesD [OF by_table [OF evdev_table from_evdev_small [OF u(1)]] u(1)] u(2) show ?thesis
    by (simp add: hid_to_evdev_def word_uint_eq_iff [of code])
qed


lemma linux_keys_arrive_witness: "hid_from_evdev 30 = Some 0x04 \<and> hid_to_evdev 0x04 = Some 30"
proof -
  have "hid_from_evdev 30 = Some 0x04" by code_simp
  with linux_keys_arrive [OF this] show ?thesis by simp
qed

text \<open>The injector's choice between a virtual key and a scan code, on integers.\<close>

definition windows_arms :: "int \<Rightarrow> (int \<times> int \<times> bool) option" where
  "windows_arms u = (case virtual_key_arms u of Some v \<Rightarrow> Some v
     | None \<Rightarrow> map_option (\<lambda>(scan, extended). (0, scan, extended)) (to_scan_arms u))"

lemma windows_key_arms:
  "windows_key usage = map_option (\<lambda>(v, s, e). (word_of_int v, word_of_int s, e)) (windows_arms (uint usage))"
  by (cases "to_scan_arms (uint usage)")
    (auto simp: windows_key_def windows_arms_def key_virtual_key_def hid_to_scan_code_def
      split: option.splits)

lemma scan_tables:
  "list_all (arrives extended_scan_arms windows_arms
     (\<lambda>x. Some (0, if x = 0x49 then 0x4b else if x = 0x4f then 0x4d else x, True))) [0..255]"
  "list_all (arrives plain_scan_arms windows_arms
     (\<lambda>x. Some (0, if x = 0x57 then 0x45 else x, x = 0x37))) [0..255]"
  by code_simp+

text \<open>
  Between Windows machines all but four keys arrive as the keys they were. Page Up arrives
  as the left arrow, End as the right arrow, F11 as Num Lock and the keypad's asterisk as
  Print Screen; every other scan code is injected as it was captured.
\<close>

theorem windows_keys_arrive:
  assumes "hid_from_scan_code scan extended = Some usage"
  shows "windows_key usage = Some (0,
     if extended
     then (if scan = 0x49 then 0x4b else if scan = 0x4f then 0x4d else scan, True)
     else (if scan = 0x57 then 0x45 else scan, scan = 0x37))"
proof (cases extended)
  case True
  with assms obtain u where u: "extended_scan_arms (uint scan) = Some u" "usage = word_of_int u"
    by (auto simp: hid_from_scan_code_def)
  with arrivesD [OF by_table [OF scan_tables(1) extended_scan_small [OF u(1)]] u(1)] True show ?thesis
    by (simp add: windows_key_arms word_uint_eq_iff [of scan])
next
  case False
  with assms obtain u where u: "plain_scan_arms (uint scan) = Some u" "usage = word_of_int u"
    by (auto simp: hid_from_scan_code_def)
  with arrivesD [OF by_table [OF scan_tables(2) plain_scan_small [OF u(1)]] u(1)] False show ?thesis
    by (simp add: windows_key_arms word_uint_eq_iff [of scan])
qed

lemma windows_keys_arrive_witness:
  "hid_from_scan_code 0x1e False = Some 0x04 \<and> windows_key 0x04 = Some (0, 0x1e, False)"
proof -
  have "hid_from_scan_code 0x1e False = Some 0x04" by code_simp
  with windows_keys_arrive [OF this] show ?thesis by simp
qed

section \<open>Between machines of different kinds\<close>

definition lands :: "(int \<Rightarrow> int option) \<Rightarrow> (int \<Rightarrow> 'a option) \<Rightarrow> int \<Rightarrow> bool" where
  "lands capture inject x = (case capture x of None \<Rightarrow> True
     | Some u \<Rightarrow> 0 \<le> u \<and> u \<le> 255 \<and> inject u \<noteq> None)"

lemma landsD: "lands capture inject x \<Longrightarrow> capture x = Some u \<Longrightarrow> inject (uint (word_of_int u :: u16)) \<noteq> None"
  by (simp add: lands_def uint_back)

lemma windows_tables:
  "list_all (lands from_vk_arms to_evdev_arms) [0..255]"
  "list_all (lands extended_scan_arms to_evdev_arms) [0..255]"
  "list_all (lands plain_scan_arms to_evdev_arms) [0..255]"
  by code_simp+

text \<open>
  Every key a Windows machine captures, by its hook or as a consumer key, can be injected
  on Linux.
\<close>

theorem windows_keys_land_on_linux:
  assumes "hooked_usage scan extended vk = Some usage \<or> consumer_to_hid key = Some usage"
  shows "hid_to_evdev usage \<noteq> None"
proof -
  have vk: "hid_to_evdev usage \<noteq> None" if "hid_from_vk vk = Some usage"
    using that landsD [OF by_table [OF windows_tables(1) from_vk_small]]
    by (fastforce simp: hid_from_vk_def hid_to_evdev_def)
  have scan: "hid_to_evdev usage \<noteq> None" if "hid_from_scan_code scan extended = Some usage"
    using that landsD [OF by_table [OF windows_tables(2) extended_scan_small]]
      landsD [OF by_table [OF windows_tables(3) plain_scan_small]]
    by (cases extended) (fastforce simp: hid_from_scan_code_def hid_to_evdev_def)+
  have consumer: "hid_to_evdev usage \<noteq> None" if "consumer_to_hid key = Some usage"
  proof -
    from that have "usage \<in> {0x7f, 0x80, 0x81}" by (auto simp: consumer_to_hid_def split: if_splits)
    moreover have "hid_to_evdev 0x7f \<noteq> None" "hid_to_evdev 0x80 \<noteq> None" "hid_to_evdev 0x81 \<noteq> None"
      by (simp_all add: hid_to_evdev_def to_evdev_arms_def)
    ultimately show ?thesis by auto
  qed
  from assms scan vk consumer show ?thesis
    by (auto simp: hooked_usage_def split: option.splits)
qed

lemma windows_keys_land_on_linux_witness: "hid_from_vk 0xad = Some 0x7f \<and> hid_to_evdev 0x7f \<noteq> None"
proof -
  have "hooked_usage 0 False 0xad = Some 0x7f" "hid_from_vk 0xad = Some 0x7f" by code_simp+
  with windows_keys_land_on_linux [OF disjI1] show ?thesis by blast
qed

text \<open>The keys of a Linux machine that the Windows injector refuses.\<close>

definition unknown_to_windows :: "int list" where
  "unknown_to_windows = [116, 117, 121, 122, 123, 124, 128, 129, 131, 133, 135, 136, 137, 138, 139]"

definition lands_on_windows :: "int \<Rightarrow> bool" where
  "lands_on_windows x = (case from_evdev_arms x of None \<Rightarrow> True
     | Some u \<Rightarrow> 0 \<le> u \<and> u \<le> 255 \<and>
        (if list_ex ((=) x) unknown_to_windows then windows_arms u = None
         else if x \<le> 88 \<and> x \<noteq> 87 then windows_arms u = Some (0, x, False)
         else windows_arms u \<noteq> None))"

lemma linux_table: "list_all lands_on_windows [0..255]"
  by code_simp

text \<open>
  A Linux key on a Windows machine. The main block, where the kernel's codes are those of
  scan code set 1, arrives unchanged but for F11; exactly fifteen keys, power, the keypad's
  equals sign and comma, the editing keys of a Sun keyboard and the Korean and Japanese ones,
  are refused by the injector.
\<close>

theorem linux_keys_land_on_windows:
  assumes "hid_from_evdev code = Some usage"
  shows "(windows_key usage = None \<longleftrightarrow> uint code \<in> set unknown_to_windows)
    \<and> (code \<le> 88 \<longrightarrow> code \<noteq> 87 \<longrightarrow> windows_key usage = Some (0, code, False))"
proof -
  from assms obtain u where u: "from_evdev_arms (uint code) = Some u" "usage = word_of_int u"
    by (auto simp: hid_from_evdev_def)
  from by_table [OF linux_table from_evdev_small [OF u(1)]] u(1)
  have lands: "0 \<le> u" "u \<le> 255" "if list_ex ((=) (uint code)) unknown_to_windows then windows_arms u = None
         else if uint code \<le> 88 \<and> uint code \<noteq> 87 then windows_arms u = Some (0, uint code, False)
         else windows_arms u \<noteq> None"
    by (simp_all add: lands_on_windows_def)
  have key: "windows_key usage = map_option (\<lambda>(v, s, e). (word_of_int v, word_of_int s, e)) (windows_arms u)"
    unfolding windows_key_arms u(2) uint_back [OF lands(1,2)] ..
  have large: "88 < i" if "i \<in> set unknown_to_windows" for i
    using that by (auto simp: unknown_to_windows_def)
  have "windows_key usage = None \<longleftrightarrow> uint code \<in> set unknown_to_windows"
    using lands(3) by (auto simp: key list_ex_iff split: if_splits)
  moreover have "windows_key usage = Some (0, code, False)" if "uint code \<le> 88" "uint code \<noteq> 87"
    using that lands(3) large [of "uint code"] by (auto simp: key list_ex_iff split: if_splits)
  ultimately show ?thesis
    by (simp add: word_le_def word_uint_eq_iff [of code])
qed

lemma linux_keys_land_on_windows_witness:
  "hid_from_evdev 30 = Some 0x04 \<and> windows_key 0x04 = Some (0, 30, False)"
proof -
  have "hid_from_evdev 30 = Some 0x04" by code_simp
  with linux_keys_land_on_windows [OF this] show ?thesis by (simp add: word_le_def)
qed

end
