(* ===== verification/Capture.thy ===== *)
theory Capture
  imports Events
begin

text \<open>
  What a controller does with an event between the keyboard and the wire, from
  \<^verbatim>\<open>kvm-daemon/src/service.rs\<close>: the record of the held controls with its event numbers, the
  barrier a new drive puts before old events, the rendering of pinches and of smooth scrolling
  for peers that do not know them, and reversed scrolling.
\<close>

section \<open>Held controls\<close>

record captured_event =
  ce_event :: input_event
  ce_event_id :: u64

record capture_snapshot =
  sn_state :: input_state
  sn_last_event_id :: u64

record captured_state =
  cp_last_event_id :: u64
  cp_keys :: "hid_usage set"
  cp_buttons :: "mouse_button set"
  cp_last_repeat :: "hid_usage \<rightharpoonup> instant"

definition nothing_held :: captured_state where
  "nothing_held = \<lparr>cp_last_event_id = 0, cp_keys = {}, cp_buttons = {}, cp_last_repeat = Map.empty\<rparr>"

definition REPEAT_THROTTLE_WINDOW :: duration where
  "REPEAT_THROTTLE_WINDOW = from_millis 33"

definition next_event_id :: "captured_state \<Rightarrow> captured_state \<times> u64" where
  "next_event_id s = (s\<lparr>cp_last_event_id := cp_last_event_id s + 1\<rparr>, cp_last_event_id s + 1)"

text \<open>A key: what is left of the event, and the state.\<close>

definition record_key :: "instant \<Rightarrow> key_event \<Rightarrow> captured_state \<Rightarrow> captured_state \<times> key_event option" where
  "record_key now key s =
     (if ke_pressed key then
        if ke_usage key \<in> cp_keys s then
          (case cp_last_repeat s (ke_usage key) of
             Some at \<Rightarrow>
               if elapsed now at < REPEAT_THROTTLE_WINDOW then (s, None)
               else (s\<lparr>cp_last_repeat := (cp_last_repeat s)(ke_usage key \<mapsto> now),
                       cp_keys := insert (ke_usage key) (cp_keys s)\<rparr>, Some (key\<lparr>ke_repeat := True\<rparr>))
           | None \<Rightarrow>
               (s\<lparr>cp_last_repeat := (cp_last_repeat s)(ke_usage key \<mapsto> now),
                  cp_keys := insert (ke_usage key) (cp_keys s)\<rparr>, Some (key\<lparr>ke_repeat := True\<rparr>)))
        else
          (s\<lparr>cp_last_repeat := (cp_last_repeat s)(ke_usage key := None),
             cp_keys := insert (ke_usage key) (cp_keys s)\<rparr>, Some (key\<lparr>ke_repeat := False\<rparr>))
      else
        (let s1 = s\<lparr>cp_last_repeat := (cp_last_repeat s)(ke_usage key := None)\<rparr>
         in if ke_usage key \<notin> cp_keys s then (s1, None)
            else (s1\<lparr>cp_keys := cp_keys s - {ke_usage key}\<rparr>, Some (key\<lparr>ke_repeat := False\<rparr>))))"

definition record_button :: "mouse_button \<Rightarrow> bool \<Rightarrow> captured_state \<Rightarrow> captured_state" where
  "record_button button pressed s =
     (if pressed then s\<lparr>cp_buttons := insert button (cp_buttons s)\<rparr>
      else s\<lparr>cp_buttons := cp_buttons s - {button}\<rparr>)"

text \<open>\<open>CapturedState::record\<close>.\<close>

definition numbered :: "input_event \<Rightarrow> captured_state \<Rightarrow> captured_state \<times> captured_event option" where
  "numbered event s =
     (case next_event_id s of (s1, n) \<Rightarrow> (s1, Some \<lparr>ce_event = event, ce_event_id = n\<rparr>))"

definition record_event ::
  "instant \<Rightarrow> input_event \<Rightarrow> captured_state \<Rightarrow> captured_state \<times> captured_event option" where
  "record_event now event s =
     (case event of
        Key key \<Rightarrow>
          (case record_key now key s of
             (s1, None) \<Rightarrow> (s1, None)
           | (s1, Some key1) \<Rightarrow> numbered (Key key1) s1)
      | MouseButton button pressed \<Rightarrow> numbered event (record_button button pressed s)
      | MouseMove dx dy \<Rightarrow> numbered event s
      | Wheel delta \<Rightarrow> numbered event s
      | SmoothWheel x y \<Rightarrow> numbered event s
      | Pinch delta \<Rightarrow> (s, None)
      | PinchEnd \<Rightarrow> (s, None))"

definition snapshot :: "captured_state \<Rightarrow> capture_snapshot" where
  "snapshot s = \<lparr>sn_state = \<lparr>st_pressed_keys = sorted_list_of_set (cp_keys s),
       st_pressed_buttons = sorted_list_of_set (cp_buttons s)\<rparr>,
     sn_last_event_id = cp_last_event_id s\<rparr>"

definition event_passes_barrier :: "u64 \<Rightarrow> u64 \<Rightarrow> u64 option \<Rightarrow> bool \<Rightarrow> bool" where
  "event_passes_barrier event_id discarded session_barrier release \<longleftrightarrow>
     release \<or> (event_id > discarded
       \<and> (case session_barrier of None \<Rightarrow> True | Some barrier \<Rightarrow> event_id > barrier))"

section \<open>Pinches\<close>

definition HID_LEFT_CTRL :: hid_usage where "HID_LEFT_CTRL = 0xe0"

definition ctrl_event :: "bool \<Rightarrow> input_event" where
  "ctrl_event pressed = Key \<lparr>ke_usage = HID_LEFT_CTRL, ke_pressed = pressed, ke_repeat = False\<rparr>"

text \<open>The events for the wire, and whether our own Ctrl is held after them.\<close>

fun pinch_expansion :: "input_event \<Rightarrow> bool \<Rightarrow> bool \<Rightarrow> input_event list \<times> bool" where
  "pinch_expansion (Pinch delta) physical_ctrl_held pinch_held =
     (let press = \<not> pinch_held \<and> \<not> physical_ctrl_held
      in ((if press then [ctrl_event True] else []) @ (if delta \<noteq> 0 then [SmoothWheel 0 delta] else []),
          pinch_held \<or> press))"
| "pinch_expansion PinchEnd physical_ctrl_held pinch_held =
     (if pinch_held then ([ctrl_event False], False) else ([], pinch_held))"
| "pinch_expansion other physical_ctrl_held pinch_held = ([other], pinch_held)"

definition pinch_for_send :: "input_event \<Rightarrow> bool \<Rightarrow> bool \<Rightarrow> bool \<Rightarrow> input_event list \<times> bool" where
  "pinch_for_send event peer_handles_pinch physical_ctrl_held pinch_held =
     (if peer_handles_pinch \<and> (case event of Pinch delta \<Rightarrow> True | PinchEnd \<Rightarrow> True | _ \<Rightarrow> False)
      then ([event], pinch_held)
      else pinch_expansion event physical_ctrl_held pinch_held)"

section \<open>Scrolling\<close>

text \<open>Saturating arithmetic of signed words.\<close>

definition clamp_sint :: "int \<Rightarrow> 'a :: len word" where
  "clamp_sint i = word_of_int (max (- (2 ^ (LENGTH('a) - 1))) (min i (2 ^ (LENGTH('a) - 1) - 1)))"

definition sat_neg :: "'a :: len word \<Rightarrow> 'a word" where
  "sat_neg w = clamp_sint (- sint w)"

definition sat_add :: "'a :: len word \<Rightarrow> 'a word \<Rightarrow> 'a word" where
  "sat_add a b = clamp_sint (sint a + sint b)"

definition apply_reverse_scroll :: "input_event \<Rightarrow> bool \<Rightarrow> input_event" where
  "apply_reverse_scroll event rev_scroll =
     (if \<not> rev_scroll then event
      else case event of
        SmoothWheel x y \<Rightarrow> SmoothWheel (sat_neg x) (sat_neg y)
      | Wheel delta \<Rightarrow> Wheel \<lparr>wd_x = sat_neg (wd_x delta), wd_y = sat_neg (wd_y delta)\<rparr>
      | other \<Rightarrow> other)"

record wheel_downgrade =
  wg_x :: i32
  wg_y :: i32

text \<open>Division of machine integers truncates toward zero.\<close>

definition trunc_div :: "int \<Rightarrow> int \<Rightarrow> int" where
  "trunc_div a b = sgn a * sgn b * (\<bar>a\<bar> div \<bar>b\<bar>)"

definition detents :: "i32 \<Rightarrow> i16" where
  "detents debt = clamp_sint (trunc_div (sint debt) 120)"

definition spend :: "i32 \<Rightarrow> i16 \<Rightarrow> i32" where
  "spend debt d = debt - word_of_int (sint d) * 120"

definition outgoing_wheel_event ::
  "input_event \<Rightarrow> bool \<Rightarrow> wheel_downgrade \<Rightarrow> wheel_downgrade \<times> input_event option" where
  "outgoing_wheel_event event peer_smooth debt =
     (if peer_smooth then (debt, Some event)
      else case event of
        SmoothWheel x y \<Rightarrow>
          (let dx = sat_add (wg_x debt) x;
               dy = sat_add (wg_y debt) y;
               delta = \<lparr>wd_x = detents dx, wd_y = detents dy\<rparr>
           in (\<lparr>wg_x = spend dx (wd_x delta), wg_y = spend dy (wd_y delta)\<rparr>,
               if wd_x delta \<noteq> 0 \<or> wd_y delta \<noteq> 0 then Some (Wheel delta) else None))
      | other \<Rightarrow> (debt, Some other))"

definition wheel_use_lane :: "bool \<Rightarrow> bool \<Rightarrow> bool \<Rightarrow> bool" where
  "wheel_use_lane lane_open keys_held pinch_held \<longleftrightarrow> lane_open \<and> \<not> keys_held \<and> \<not> pinch_held"

end
