(* ===== verification/GestureRuns.thy ===== *)
theory GestureRuns
  imports CaptureRuns
begin

text \<open>
  How gestures and smooth scrolling reach a peer that does not know them: a pinch becomes
  scrolling with Ctrl held, and fine scroll steps become whole notches, without loss.
\<close>

section \<open>Pinches become Ctrl and wheel\<close>

text \<open>A stretch of events at the sender, each with whether Ctrl was seen held.\<close>

fun send_all ::
  "bool \<Rightarrow> (bool \<times> input_event) list \<Rightarrow> bool \<Rightarrow> input_event list \<times> bool" where
  "send_all peer [] pinch_held = ([], pinch_held)"
| "send_all peer ((ctrl, event) # rest) pinch_held =
     (case pinch_for_send event peer ctrl pinch_held of
        (out, pinch_held1) \<Rightarrow>
          (case send_all peer rest pinch_held1 of
             (outs, pinch_held2) \<Rightarrow> (out @ outs, pinch_held2)))"

text \<open>What the receiver zooms by: the wheel steps that arrive while its Ctrl is held.\<close>

fun zoomed :: "hid_usage set \<Rightarrow> input_event list \<Rightarrow> i32 list" where
  "zoomed held [] = []"
| "zoomed held (SmoothWheel x y # rest) = (if HID_LEFT_CTRL \<in> held then y # zoomed held rest else zoomed held rest)"
| "zoomed held (event # rest) = zoomed (replay_key event held) rest"

lemma zoomed_append:
  "zoomed held (es @ ds) = zoomed held es @ zoomed (fold replay_key es held) ds"
  by (induction es arbitrary: held rule: zoomed.induct) auto

definition touches_ctrl :: "input_event \<Rightarrow> bool" where
  "touches_ctrl event = (case event of Key key \<Rightarrow> ke_usage key = HID_LEFT_CTRL | _ \<Rightarrow> False)"

definition is_gesture :: "input_event \<Rightarrow> bool" where
  "is_gesture event = (case event of Pinch delta \<Rightarrow> True | PinchEnd \<Rightarrow> True | _ \<Rightarrow> False)"

definition spread :: "input_event \<Rightarrow> i32 list" where
  "spread event = (case event of Pinch delta \<Rightarrow> if delta \<noteq> 0 then [delta] else [] | _ \<Rightarrow> [])"

lemma replay_leaves_ctrl:
  assumes "\<not> touches_ctrl e"
  shows "HID_LEFT_CTRL \<in> replay_key e K \<longleftrightarrow> HID_LEFT_CTRL \<in> K"
    and "replay_key e K - {HID_LEFT_CTRL} = replay_key e (K - {HID_LEFT_CTRL})"
proof -
  show "HID_LEFT_CTRL \<in> replay_key e K \<longleftrightarrow> HID_LEFT_CTRL \<in> K"
    using assms by (cases e) (auto simp: touches_ctrl_def split: if_splits)
  show "replay_key e K - {HID_LEFT_CTRL} = replay_key e (K - {HID_LEFT_CTRL})"
    using assms by (cases e) (auto simp: touches_ctrl_def split: if_splits)
qed

lemma plain_step:
  assumes "pinch_for_send event False ctrl pinch_held = (out, pinch_held1)" "\<not> is_gesture event"
  shows "out = [event]" and "pinch_held1 = pinch_held"
  using assms by (cases event; simp add: pinch_for_send_def is_gesture_def)+

text \<open>One event: Ctrl at the receiver is the user's own or ours, never both.\<close>

lemma pinch_step:
  assumes "pinch_for_send event False ctrl pinch_held = (out, pinch_held1)" "\<not> touches_ctrl event"
    and "HID_LEFT_CTRL \<in> held \<longleftrightarrow> ctrl \<or> pinch_held" "\<not> (ctrl \<and> pinch_held)"
  shows "HID_LEFT_CTRL \<in> fold replay_key out held \<longleftrightarrow> ctrl \<or> pinch_held1"
    and "\<not> (ctrl \<and> pinch_held1)"
    and "fold replay_key out held - {HID_LEFT_CTRL} = replay_key event (held - {HID_LEFT_CTRL})"
    and "list_all (\<lambda>e. \<not> is_gesture e) out"
    and "is_gesture event \<Longrightarrow> zoomed held out = spread event"
    and "pinch_held1 = (case event of Pinch delta \<Rightarrow> pinch_held \<or> \<not> ctrl | PinchEnd \<Rightarrow> False | _ \<Rightarrow> pinch_held)"
proof -
  show "HID_LEFT_CTRL \<in> fold replay_key out held \<longleftrightarrow> ctrl \<or> pinch_held1"
  proof (cases "is_gesture event")
    case True
    with assms(1,3,4) show ?thesis
      by (cases event) (auto simp: pinch_for_send_def Let_def ctrl_event_def is_gesture_def split: if_splits)
  next
    case False
    from plain_step [OF assms(1) this] assms(3) replay_leaves_ctrl(1) [OF assms(2)] show ?thesis by simp
  qed
  show "\<not> (ctrl \<and> pinch_held1)"
    using assms by (cases event) (auto simp: pinch_for_send_def Let_def)
  show "fold replay_key out held - {HID_LEFT_CTRL} = replay_key event (held - {HID_LEFT_CTRL})"
  proof (cases "is_gesture event")
    case True
    with assms(1,3,4) show ?thesis
      by (cases event) (auto simp: pinch_for_send_def Let_def ctrl_event_def is_gesture_def split: if_splits)
  next
    case False
    from plain_step [OF assms(1) this] replay_leaves_ctrl(2) [OF assms(2)] show ?thesis by simp
  qed
  show "list_all (\<lambda>e. \<not> is_gesture e) out"
    using assms by (cases event) (auto simp: pinch_for_send_def Let_def ctrl_event_def is_gesture_def split: if_splits)
  show "zoomed held out = spread event" if "is_gesture event"
    using assms that by (cases event) (auto simp: pinch_for_send_def Let_def ctrl_event_def is_gesture_def spread_def)
  show "pinch_held1 = (case event of Pinch delta \<Rightarrow> pinch_held \<or> \<not> ctrl | PinchEnd \<Rightarrow> False | _ \<Rightarrow> pinch_held)"
    using assms by (cases event) (auto simp: pinch_for_send_def Let_def)
qed

text \<open>
  A pinch arrives as a zoom. Whatever else is typed, clicked or moved meanwhile, as long as
  the user's Ctrl is left alone and no fine scrolling is mixed in, a peer without gestures gets
  no gesture event; what it zooms by are exactly the pinch's steps, in order; and once the gesture
  is over its keys are held as they would be had there been no gesture.
\<close>

theorem pinch_arrives_as_zoom:
  assumes "send_all False (map (Pair ctrl) events) False = (outs, pinch_held)"
    and "list_all (\<lambda>event. \<not> touches_ctrl event \<and> \<not> (\<exists>x y. event = SmoothWheel x y)) events"
    and "HID_LEFT_CTRL \<in> held \<longleftrightarrow> ctrl"
  shows "zoomed held outs = concat (map spread events)
    \<and> list_all (\<lambda>e. \<not> is_gesture e) outs
    \<and> fold replay_key outs held - {HID_LEFT_CTRL} = fold replay_key events held - {HID_LEFT_CTRL}
    \<and> (\<not> pinch_held \<longrightarrow> fold replay_key outs held = fold replay_key events held)"
proof -
  define quiet where "quiet event \<longleftrightarrow> \<not> touches_ctrl event \<and> \<not> (\<exists>x y. event = SmoothWheel x y)" for event
  have ctrl_kept: "HID_LEFT_CTRL \<in> fold replay_key es K \<longleftrightarrow> HID_LEFT_CTRL \<in> K" if "list_all quiet es" for es K
    using that by (induction es arbitrary: K) (simp_all add: quiet_def replay_leaves_ctrl)
  have minus: "replay_key e K - {HID_LEFT_CTRL} = replay_key e (K - {HID_LEFT_CTRL})" if "quiet e" for e K
    using that by (simp add: quiet_def replay_leaves_ctrl)
  have minus_all: "fold replay_key es K - {HID_LEFT_CTRL} = fold replay_key es (K - {HID_LEFT_CTRL})"
    if "list_all quiet es" for es K using that by (induction es arbitrary: K) (simp_all add: minus)
  have main: "zoomed K outs = concat (map spread events) \<and> list_all (\<lambda>e. \<not> is_gesture e) outs
      \<and> fold replay_key outs K - {HID_LEFT_CTRL} = fold replay_key events (K - {HID_LEFT_CTRL})
      \<and> (HID_LEFT_CTRL \<in> fold replay_key outs K \<longleftrightarrow> ctrl \<or> pinch_held)"
    if "send_all False (map (Pair ctrl) events) p = (outs, pinch_held)" "list_all quiet events"
      "HID_LEFT_CTRL \<in> K \<longleftrightarrow> ctrl \<or> p" "\<not> (ctrl \<and> p)" for K p events outs
    using that
  proof (induction events arbitrary: K p outs)
    case (Cons event events)
    obtain out p1 where step: "pinch_for_send event False ctrl p = (out, p1)" by force
    obtain outs1 where rest: "send_all False (map (Pair ctrl) events) p1 = (outs1, pinch_held)" "outs = out @ outs1"
      using Cons.prems(1) step by (auto split: prod.splits)
    have q: "quiet event" "\<not> touches_ctrl event" "list_all quiet events"
      using Cons.prems(2) by (auto simp: quiet_def list_all_iff)
    note one = pinch_step [OF step q(2) Cons.prems(3,4)]
    have zoom: "zoomed K out = spread event"
    proof (cases "is_gesture event")
      case True then show ?thesis by (rule one(5))
    next
      case False
      with plain_step(1) [OF step] q(1) show ?thesis
        by (cases event) (auto simp: is_gesture_def spread_def quiet_def)
    qed
    from Cons.IH [OF rest(1) q(3) one(1,2)] one(3,4) zoom rest(2) show ?case
      by (simp add: zoomed_append)
  qed simp
  have quiet: "list_all quiet events" using assms(2) by (auto simp: quiet_def list_all_iff)
  note all = main [OF assms(1) quiet, of held]
  have ends: "fold replay_key outs held = fold replay_key events held" if "\<not> pinch_held"
  proof -
    from all that assms(3) have "HID_LEFT_CTRL \<in> fold replay_key outs held \<longleftrightarrow> HID_LEFT_CTRL \<in> fold replay_key events held"
      by (simp add: ctrl_kept [OF quiet])
    moreover have "fold replay_key outs held - {HID_LEFT_CTRL} = fold replay_key events held - {HID_LEFT_CTRL}"
      using all assms(3) by (simp add: minus_all [OF quiet])
    ultimately show ?thesis by blast
  qed
  with all assms(3) show ?thesis by (simp add: minus_all [OF quiet])
qed

lemma pinch_arrives_as_zoom_witness:
  "\<exists>outs pinch_held. send_all False (map (Pair False) [Pinch 240, MouseMove 3 4, Pinch (- 120), Pinch 0, PinchEnd]) False
      = (outs, pinch_held)
    \<and> zoomed {} outs = [240, - 120] \<and> fold replay_key outs {} = {}"
proof -
  define events where "events = [Pinch 240, MouseMove 3 4, Pinch (- 120), Pinch 0, PinchEnd]"
  obtain outs pinch_held where run: "send_all False (map (Pair False) events) False = (outs, pinch_held)" by force
  moreover from run have "\<not> pinch_held"
    by (auto simp: events_def pinch_for_send_def Let_def split: prod.splits)
  moreover have "list_all (\<lambda>event. \<not> touches_ctrl event \<and> \<not> (\<exists>x y. event = SmoothWheel x y)) events"
    by (simp add: events_def touches_ctrl_def)
  ultimately have "zoomed {} outs = concat (map spread events) \<and> fold replay_key outs {} = fold replay_key events {}"
    using pinch_arrives_as_zoom [OF run, of "{}"] by simp
  then have "zoomed {} outs = [240, - 120] \<and> fold replay_key outs {} = {}"
    by (simp add: events_def spread_def)
  with run show ?thesis unfolding events_def by blast
qed

text \<open>
  A Ctrl the user presses during a pinch is let go with the gesture: the receiver ends with
  Ctrl up although the user still holds it, though the code means never to release a Ctrl
  that is really held.
\<close>

theorem pinch_steals_ctrl:
  "case send_all False [(False, Pinch 240), (True, ctrl_event True), (True, PinchEnd)] False of
     (outs, pinch_held) \<Rightarrow>
       HID_LEFT_CTRL \<notin> fold replay_key outs {}
       \<and> HID_LEFT_CTRL \<in> fold replay_key [ctrl_event True] {} \<and> \<not> pinch_held"
  by (simp add: pinch_for_send_def Let_def ctrl_event_def)

section \<open>Fine scrolling becomes whole notches\<close>

fun downgrade_all :: "input_event list \<Rightarrow> wheel_downgrade \<Rightarrow> wheel_downgrade \<times> input_event list" where
  "downgrade_all [] debt = (debt, [])"
| "downgrade_all (event # rest) debt =
     (case outgoing_wheel_event event False debt of
        (debt1, out) \<Rightarrow>
          (case downgrade_all rest debt1 of
             (debt2, outs) \<Rightarrow> (debt2, (case out of None \<Rightarrow> outs | Some e \<Rightarrow> e # outs))))"

fun fine_x :: "input_event \<Rightarrow> int" where
  "fine_x (SmoothWheel x y) = sint x" | "fine_x _ = 0"

fun fine_y :: "input_event \<Rightarrow> int" where
  "fine_y (SmoothWheel x y) = sint y" | "fine_y _ = 0"

fun notches_x :: "input_event \<Rightarrow> int" where
  "notches_x (Wheel delta) = sint (wd_x delta)" | "notches_x _ = 0"

fun notches_y :: "input_event \<Rightarrow> int" where
  "notches_y (Wheel delta) = sint (wd_y delta)" | "notches_y _ = 0"

definition is_scroll :: "input_event \<Rightarrow> bool" where
  "is_scroll event = (case event of SmoothWheel x y \<Rightarrow> True | Wheel delta \<Rightarrow> True | _ \<Rightarrow> False)"

lemma sint_clamp:
  "sint (clamp_sint i :: 'a :: len word) = max (- (2 ^ (LENGTH('a) - 1))) (min i (2 ^ (LENGTH('a) - 1) - 1))"
  unfolding clamp_sint_def
  by (rule signed_take_bit_int_eq_self [THEN trans [OF sint_sbintrunc', THEN trans]]) auto

lemma sat_add_exact:
  "\<bar>sint a\<bar> + \<bar>sint b\<bar> < 2 ^ 31 \<Longrightarrow> sint (sat_add a b :: i32) = sint a + sint b"
  by (simp add: sat_add_def sint_clamp)

text \<open>One axis: the notches and what is left.\<close>

lemma detents_value:
  "sint (detents debt) = max (- 32768) (min (trunc_div (sint debt) 120) 32767)"
  by (simp add: detents_def sint_clamp)

lemma trunc_div_120:
  "trunc_div d 120 = (if 0 \<le> d then d div 120 else - ((- d) div 120))"
  by (auto simp: trunc_div_def sgn_if)

lemma axis_value:
  assumes "d = sint (debt :: i32)" "n = sint (detents debt)"
  shows "\<bar>d - n * 120\<bar> \<le> \<bar>d\<bar>" and "\<bar>d\<bar> \<le> 3932000 \<Longrightarrow> \<bar>d - n * 120\<bar> < 120" and "\<bar>d\<bar> < 2 ^ 31 + 1"
proof -
  have n: "n = max (- 32768) (min (if 0 \<le> d then d div 120 else - ((- d) div 120)) 32767)"
    using assms by (simp add: detents_value trunc_div_120)
  show "\<bar>d - n * 120\<bar> \<le> \<bar>d\<bar>" unfolding n by (cases "0 \<le> d") (auto simp: max_def min_def)
  show "\<bar>d - n * 120\<bar> < 120" if "\<bar>d\<bar> \<le> 3932000"
    using that unfolding n by (cases "0 \<le> d") (auto simp: max_def min_def)
  show "\<bar>d\<bar> < 2 ^ 31 + 1"
    using sint_lt [of debt] sint_ge [of debt] by (simp add: assms(1))
qed

lemma sint_small: "- (2 ^ 31) \<le> i \<Longrightarrow> i < 2 ^ 31 \<Longrightarrow> sint (word_of_int i :: i32) = i"
  by (simp add: sint_sbintrunc' signed_take_bit_int_eq_self)

lemma axis_step:
  assumes room: "\<bar>sint debt\<bar> + \<bar>sint x\<bar> < 2 ^ 31" and d: "d = sat_add debt (x :: i32)"
  shows "sint (spend d (detents d)) + 120 * sint (detents d) = sint debt + sint x"
    and "\<bar>sint (spend d (detents d))\<bar> \<le> \<bar>sint debt\<bar> + \<bar>sint x\<bar>"
    and "\<bar>sint debt\<bar> < 120 \<Longrightarrow> \<bar>sint x\<bar> \<le> 3931880 \<Longrightarrow> \<bar>sint (spend d (detents d))\<bar> < 120"
proof -
  have summed: "sint d = sint debt + sint x" using sat_add_exact [OF room] by (simp add: d)
  note axis = axis_value [of "sint d" d "sint (detents d)", OF refl refl]
  have "spend d (detents d) = word_of_int (sint d - sint (detents d) * 120)"
    by (simp add: spend_def)
  moreover have "\<bar>sint d - sint (detents d) * 120\<bar> < 2 ^ 31"
    using axis(1) summed room by linarith
  ultimately have left: "sint (spend d (detents d)) = sint d - sint (detents d) * 120"
    by (simp add: sint_small abs_less_iff del: of_int_diff of_int_mult)
  show "sint (spend d (detents d)) + 120 * sint (detents d) = sint debt + sint x"
    using left summed by simp
  show "\<bar>sint (spend d (detents d))\<bar> \<le> \<bar>sint debt\<bar> + \<bar>sint x\<bar>"
    using left summed axis(1) by linarith
  show "\<bar>sint (spend d (detents d))\<bar> < 120" if "\<bar>sint debt\<bar> < 120" "\<bar>sint x\<bar> \<le> 3931880"
    using left axis(2) summed that by linarith
qed

text \<open>One event: what is scrolled and what is owed.\<close>

definition room_for :: "input_event \<Rightarrow> wheel_downgrade \<Rightarrow> bool" where
  "room_for event debt \<longleftrightarrow> \<bar>sint (wg_x debt)\<bar> + \<bar>fine_x event\<bar> < 2 ^ 31 \<and> \<bar>sint (wg_y debt)\<bar> + \<bar>fine_y event\<bar> < 2 ^ 31"

definition notches_of :: "input_event option \<Rightarrow> int \<times> int" where
  "notches_of out = (case out of None \<Rightarrow> (0, 0) | Some e \<Rightarrow> (notches_x e, notches_y e))"

definition small_step :: "input_event \<Rightarrow> bool" where
  "small_step event \<longleftrightarrow> \<bar>fine_x event\<bar> \<le> 3931880 \<and> \<bar>fine_y event\<bar> \<le> 3931880"

definition owes_little :: "wheel_downgrade \<Rightarrow> bool" where
  "owes_little debt \<longleftrightarrow> \<bar>sint (wg_x debt)\<bar> < 120 \<and> \<bar>sint (wg_y debt)\<bar> < 120"

lemma outgoing_smooth:
  assumes "outgoing_wheel_event (SmoothWheel x y) False debt = (debt1, out)"
  defines "dx \<equiv> sat_add (wg_x debt) x" and "dy \<equiv> sat_add (wg_y debt) y"
  shows "wg_x debt1 = spend dx (detents dx)" "wg_y debt1 = spend dy (detents dy)"
    and "notches_of out = (sint (detents dx), sint (detents dy))"
    and "case out of None \<Rightarrow> True | Some e \<Rightarrow> \<exists>delta. e = Wheel delta"
  using assms by (auto simp: outgoing_wheel_event_def Let_def notches_of_def split: if_splits)

lemma downgrade_step:
  assumes "outgoing_wheel_event event False debt = (debt1, out)" "room_for event debt"
    and "\<not> (\<exists>delta. event = Wheel delta)"
  shows "120 * fst (notches_of out) + sint (wg_x debt1) = fine_x event + sint (wg_x debt)"
    and "120 * snd (notches_of out) + sint (wg_y debt1) = fine_y event + sint (wg_y debt)"
    and "\<bar>sint (wg_x debt1)\<bar> \<le> \<bar>sint (wg_x debt)\<bar> + \<bar>fine_x event\<bar>"
    and "\<bar>sint (wg_y debt1)\<bar> \<le> \<bar>sint (wg_y debt)\<bar> + \<bar>fine_y event\<bar>"
    and "owes_little debt \<Longrightarrow> small_step event \<Longrightarrow> owes_little debt1"
    and "if is_scroll event then (case out of None \<Rightarrow> True | Some e \<Rightarrow> \<exists>delta. e = Wheel delta) else out = Some event"
proof -
  consider (smooth) x y where "event = SmoothWheel x y"
    | (plain) "\<not> is_scroll event" "debt1 = debt" "out = Some event" "fine_x event = 0" "fine_y event = 0"
      "notches_x event = 0" "notches_y event = 0"
    using assms(1,3) by (cases event) (auto simp: outgoing_wheel_event_def is_scroll_def)
  note cases = this
  have all: "120 * fst (notches_of out) + sint (wg_x debt1) = fine_x event + sint (wg_x debt)
    \<and> 120 * snd (notches_of out) + sint (wg_y debt1) = fine_y event + sint (wg_y debt)
    \<and> \<bar>sint (wg_x debt1)\<bar> \<le> \<bar>sint (wg_x debt)\<bar> + \<bar>fine_x event\<bar>
    \<and> \<bar>sint (wg_y debt1)\<bar> \<le> \<bar>sint (wg_y debt)\<bar> + \<bar>fine_y event\<bar>
    \<and> (owes_little debt \<longrightarrow> small_step event \<longrightarrow> owes_little debt1)
    \<and> (if is_scroll event then (case out of None \<Rightarrow> True | Some e \<Rightarrow> \<exists>delta. e = Wheel delta) else out = Some event)"
    using cases
  proof cases
    case (smooth x y)
    note out = outgoing_smooth [OF assms(1) [unfolded smooth]]
    have "\<bar>sint (wg_x debt)\<bar> + \<bar>sint x\<bar> < 2 ^ 31" "\<bar>sint (wg_y debt)\<bar> + \<bar>sint y\<bar> < 2 ^ 31"
      using assms(2) by (simp_all add: room_for_def smooth)
    note x = axis_step [OF this(1) refl] and y = axis_step [OF this(2) refl]
    show ?thesis
      using x y out(4)
      by (simp add: out(1-3) smooth is_scroll_def owes_little_def small_step_def)
  next
    case plain
    then show ?thesis by (simp add: notches_of_def)
  qed
  then show "120 * fst (notches_of out) + sint (wg_x debt1) = fine_x event + sint (wg_x debt)"
    and "120 * snd (notches_of out) + sint (wg_y debt1) = fine_y event + sint (wg_y debt)"
    and "\<bar>sint (wg_x debt1)\<bar> \<le> \<bar>sint (wg_x debt)\<bar> + \<bar>fine_x event\<bar>"
    and "\<bar>sint (wg_y debt1)\<bar> \<le> \<bar>sint (wg_y debt)\<bar> + \<bar>fine_y event\<bar>"
    and "owes_little debt \<Longrightarrow> small_step event \<Longrightarrow> owes_little debt1"
    and "if is_scroll event then (case out of None \<Rightarrow> True | Some e \<Rightarrow> \<exists>delta. e = Wheel delta) else out = Some event"
    by blast+
qed

text \<open>
  Scrolling loses nothing. A peer without fine scrolling gets whole notches whose sum, with
  what is still owed, is the scrolled distance on both axes; less than a notch is owed when no
  single step is enormous; every other event passes unchanged and in order, and no fine scroll
  event is sent.
\<close>

theorem scrolling_loses_nothing:
  assumes "downgrade_all events debt = (debt', outs)"
    and "list_all (\<lambda>event. \<not> (\<exists>delta. event = Wheel delta)) events"
    and "(\<Sum>event\<leftarrow>events. \<bar>fine_x event\<bar>) + \<bar>sint (wg_x debt)\<bar> < 2 ^ 31"
    and "(\<Sum>event\<leftarrow>events. \<bar>fine_y event\<bar>) + \<bar>sint (wg_y debt)\<bar> < 2 ^ 31"
  shows "120 * (\<Sum>e\<leftarrow>outs. notches_x e) + sint (wg_x debt') = (\<Sum>event\<leftarrow>events. fine_x event) + sint (wg_x debt)
    \<and> 120 * (\<Sum>e\<leftarrow>outs. notches_y e) + sint (wg_y debt') = (\<Sum>event\<leftarrow>events. fine_y event) + sint (wg_y debt)
    \<and> (owes_little debt \<and> list_all small_step events \<longrightarrow> owes_little debt')
    \<and> filter (\<lambda>e. \<not> is_scroll e) outs = filter (\<lambda>e. \<not> is_scroll e) events
    \<and> list_all (\<lambda>e. fine_x e = 0 \<and> fine_y e = 0) outs"
  using assms
proof (induction events arbitrary: debt outs)
  case (Cons event events)
  obtain debt1 out where step: "outgoing_wheel_event event False debt = (debt1, out)" by force
  obtain outs1 where rest: "downgrade_all events debt1 = (debt', outs1)"
      "outs = (case out of None \<Rightarrow> outs1 | Some e \<Rightarrow> e # outs1)"
    using Cons.prems(1) step by (auto split: prod.splits)
  have sums: "0 \<le> (\<Sum>event\<leftarrow>events. \<bar>fine_x event\<bar>)" "0 \<le> (\<Sum>event\<leftarrow>events. \<bar>fine_y event\<bar>)"
    by (auto intro!: sum_list_nonneg)
  have room: "room_for event debt"
    using Cons.prems(3,4) sums unfolding room_for_def list.map sum_list.Cons by linarith
  have plain: "\<not> (\<exists>delta. event = Wheel delta)" "list_all (\<lambda>event. \<not> (\<exists>delta. event = Wheel delta)) events"
    using Cons.prems(2) by simp_all
  note one = downgrade_step [OF step room plain(1)]
  have later: "(\<Sum>event\<leftarrow>events. \<bar>fine_x event\<bar>) + \<bar>sint (wg_x debt1)\<bar> < 2 ^ 31"
      "(\<Sum>event\<leftarrow>events. \<bar>fine_y event\<bar>) + \<bar>sint (wg_y debt1)\<bar> < 2 ^ 31"
    using Cons.prems(3,4) one(3,4) unfolding list.map sum_list.Cons by linarith+
  have out: "(\<Sum>e\<leftarrow>outs. notches_x e) = fst (notches_of out) + (\<Sum>e\<leftarrow>outs1. notches_x e)"
      "(\<Sum>e\<leftarrow>outs. notches_y e) = snd (notches_of out) + (\<Sum>e\<leftarrow>outs1. notches_y e)"
    by (simp_all add: rest(2) notches_of_def split: option.split)
  have kept: "filter (\<lambda>e. \<not> is_scroll e) outs = filter (\<lambda>e. \<not> is_scroll e) [event] @ filter (\<lambda>e. \<not> is_scroll e) outs1"
    using one(6) by (auto simp: rest(2) is_scroll_def split: option.splits if_splits)
  have coarse: "list_all (\<lambda>e. fine_x e = 0 \<and> fine_y e = 0) (case out of None \<Rightarrow> [] | Some e \<Rightarrow> [e])"
    using one(6) by (cases event) (auto simp: is_scroll_def split: option.splits)
  note IH = Cons.IH [OF rest(1) plain(2) later]
  have "120 * (\<Sum>e\<leftarrow>outs. notches_x e) + sint (wg_x debt') = (\<Sum>event\<leftarrow>event # events. fine_x event) + sint (wg_x debt)"
    using conjunct1 [OF IH] one(1) unfolding out list.map sum_list.Cons distrib_left by linarith
  moreover have "120 * (\<Sum>e\<leftarrow>outs. notches_y e) + sint (wg_y debt') = (\<Sum>event\<leftarrow>event # events. fine_y event) + sint (wg_y debt)"
    using conjunct1 [OF conjunct2 [OF IH]] one(2) unfolding out list.map sum_list.Cons distrib_left by linarith
  moreover have "owes_little debt \<and> list_all small_step (event # events) \<longrightarrow> owes_little debt'"
    using IH one(5) by simp
  moreover have "filter (\<lambda>e. \<not> is_scroll e) outs = filter (\<lambda>e. \<not> is_scroll e) (event # events)"
    using IH kept by simp
  moreover have "list_all (\<lambda>e. fine_x e = 0 \<and> fine_y e = 0) outs"
    using IH coarse by (simp add: rest(2) split: option.splits)
  ultimately show ?case by blast
qed simp

lemma scrolling_loses_nothing_witness:
  "\<exists>debt' outs. downgrade_all [SmoothWheel 0 100, MouseMove 1 1, SmoothWheel (- 50) 200] \<lparr>wg_x = 0, wg_y = 0\<rparr> = (debt', outs)
    \<and> 120 * (\<Sum>e\<leftarrow>outs. notches_y e) + sint (wg_y debt') = 300 \<and> owes_little debt'"
proof -
  define events where "events = [SmoothWheel 0 100, MouseMove 1 1, SmoothWheel (- 50) 200]"
  define debt where "debt = \<lparr>wg_x = 0 :: i32, wg_y = 0\<rparr>"
  obtain debt' outs where run: "downgrade_all events debt = (debt', outs)" by force
  have "120 * (\<Sum>e\<leftarrow>outs. notches_y e) + sint (wg_y debt') = (\<Sum>event\<leftarrow>events. fine_y event) + sint (wg_y debt)
    \<and> (owes_little debt \<and> list_all small_step events \<longrightarrow> owes_little debt')"
    using scrolling_loses_nothing [OF run] by (simp add: events_def debt_def)
  then have "120 * (\<Sum>e\<leftarrow>outs. notches_y e) + sint (wg_y debt') = 300 \<and> owes_little debt'"
    by (simp add: events_def debt_def owes_little_def small_step_def)
  with run show ?thesis unfolding events_def debt_def by blast
qed

end
