(* ===== verification/CaptureQueues.thy ===== *)
theory CaptureQueues
  imports GestureRuns
begin

text \<open>
  The two queues between the capture thread and the drive task, from \<^verbatim>\<open>start_capture\<close>,
  \<^verbatim>\<open>capture_send_bounded\<close> and the receiving arms of \<^verbatim>\<open>connect_topology\<close> of
  \<^verbatim>\<open>kvm-daemon/src/service.rs\<close>: keys, buttons and gestures wait for room, motion is dropped
  when its queue is full, scrolling changes over to the other queue, and the drive task folds runs
  of moves.
\<close>

definition QUEUE_CAPACITY :: nat where "QUEUE_CAPACITY = 256"
definition MOVE_FOLDS :: nat where "MOVE_FOLDS = 4"
definition SCROLL_FOLDS :: nat where "SCROLL_FOLDS = 8"

text \<open>\<open>cq_blocked\<close> is the event the capture thread waits with for room in the priority queue.\<close>

record capture_queues =
  cq_state :: captured_state
  cq_priority :: "captured_event list"
  cq_motion :: "captured_event list"
  cq_blocked :: "captured_event option"
  cq_stash :: "captured_event option"

definition empty_queues :: capture_queues where
  "empty_queues = \<lparr>cq_state = nothing_held, cq_priority = [], cq_motion = [], cq_blocked = None, cq_stash = None\<rparr>"

section \<open>The capture thread\<close>

text \<open>\<open>capture_send_bounded\<close>: an attempt, repeated until there is room.\<close>

definition send_priority :: "captured_event \<Rightarrow> capture_queues \<Rightarrow> capture_queues" where
  "send_priority e q =
     (if length (cq_priority q) < QUEUE_CAPACITY
      then q\<lparr>cq_priority := cq_priority q @ [e], cq_blocked := None\<rparr>
      else q\<lparr>cq_blocked := Some e\<rparr>)"

definition send_motion :: "captured_event \<Rightarrow> capture_queues \<Rightarrow> capture_queues option" where
  "send_motion e q =
     (if length (cq_motion q) < QUEUE_CAPACITY then Some (q\<lparr>cq_motion := cq_motion q @ [e]\<rparr>) else None)"

definition is_wheel :: "input_event \<Rightarrow> bool" where
  "is_wheel event = (case event of Wheel delta \<Rightarrow> True | SmoothWheel x y \<Rightarrow> True | _ \<Rightarrow> False)"

definition is_priority :: "input_event \<Rightarrow> bool" where
  "is_priority event = (case event of Key key \<Rightarrow> True | MouseButton button pressed \<Rightarrow> True
     | Pinch delta \<Rightarrow> True | PinchEnd \<Rightarrow> True | _ \<Rightarrow> False)"

text \<open>One event of the backend, when the thread is not waiting.\<close>

definition capture_one :: "instant \<Rightarrow> input_event \<Rightarrow> capture_queues \<Rightarrow> capture_queues" where
  "capture_one now event q =
     (if (case event of Pinch delta \<Rightarrow> True | PinchEnd \<Rightarrow> True | _ \<Rightarrow> False) then
        (case next_event_id (cq_state q) of
           (s, n) \<Rightarrow> send_priority \<lparr>ce_event = event, ce_event_id = n\<rparr> (q\<lparr>cq_state := s\<rparr>))
      else
        (case record_event now event (cq_state q) of
           (s, None) \<Rightarrow> q\<lparr>cq_state := s\<rparr>
         | (s, Some captured) \<Rightarrow>
             (let q1 = q\<lparr>cq_state := s\<rparr>
              in case event of
                   Key key \<Rightarrow> send_priority captured q1
                 | MouseButton button pressed \<Rightarrow> send_priority captured q1
                 | _ \<Rightarrow>
                     (case send_motion captured q1 of
                        Some q2 \<Rightarrow> q2
                      | None \<Rightarrow>
                          if is_wheel event \<and> length (cq_priority q1) < QUEUE_CAPACITY
                          then q1\<lparr>cq_priority := cq_priority q1 @ [captured]\<rparr> else q1))))"

section \<open>The drive task\<close>

text \<open>Folding the moves, or the scroll steps, that wait next; another event is put aside.\<close>

fun fold_moves :: "nat \<Rightarrow> i32 \<Rightarrow> i32 \<Rightarrow> captured_event list
    \<Rightarrow> i32 \<times> i32 \<times> captured_event list \<times> captured_event option" where
  "fold_moves 0 dx dy es = (dx, dy, es, None)"
| "fold_moves (Suc n) dx dy [] = (dx, dy, [], None)"
| "fold_moves (Suc n) dx dy (e # es) =
     (case ce_event e of
        MouseMove mx my \<Rightarrow> fold_moves n (sat_add dx mx) (sat_add dy my) es
      | _ \<Rightarrow> (dx, dy, es, Some e))"

fun fold_scrolls :: "nat \<Rightarrow> i32 \<Rightarrow> i32 \<Rightarrow> captured_event list
    \<Rightarrow> i32 \<times> i32 \<times> captured_event list \<times> captured_event option" where
  "fold_scrolls 0 x y es = (x, y, es, None)"
| "fold_scrolls (Suc n) x y [] = (x, y, [], None)"
| "fold_scrolls (Suc n) x y (e # es) =
     (case ce_event e of
        SmoothWheel nx ny \<Rightarrow> fold_scrolls n (sat_add x nx) (sat_add y ny) es
      | _ \<Rightarrow> (x, y, es, Some e))"

definition folded :: "captured_event \<Rightarrow> captured_event list
    \<Rightarrow> captured_event \<times> captured_event list \<times> captured_event option" where
  "folded first es =
     (case ce_event first of
        MouseMove dx dy \<Rightarrow>
          (case fold_moves MOVE_FOLDS dx dy es of
             (dx1, dy1, rest, stash) \<Rightarrow> (first\<lparr>ce_event := MouseMove dx1 dy1\<rparr>, rest, stash))
      | SmoothWheel x y \<Rightarrow>
          (case fold_scrolls SCROLL_FOLDS x y es of
             (x1, y1, rest, stash) \<Rightarrow> (first\<lparr>ce_event := SmoothWheel x1 y1\<rparr>, rest, stash))
      | _ \<Rightarrow> (first, es, None))"

text \<open>What the task handles next: the priority queue is asked first.\<close>

definition take_one :: "capture_queues \<Rightarrow> (captured_event \<times> capture_queues) option" where
  "take_one q =
     (case cq_priority q of
        e # rest \<Rightarrow> Some (e, q\<lparr>cq_priority := rest\<rparr>)
      | [] \<Rightarrow>
          (case cq_stash q of
             Some first \<Rightarrow>
               (case folded first (cq_motion q) of
                  (e, rest, stash) \<Rightarrow> Some (e, q\<lparr>cq_motion := rest, cq_stash := stash\<rparr>))
           | None \<Rightarrow>
               (case cq_motion q of
                  [] \<Rightarrow> None
                | first # es \<Rightarrow>
                    (case folded first es of
                       (e, rest, stash) \<Rightarrow> Some (e, q\<lparr>cq_motion := rest, cq_stash := stash\<rparr>)))))"

section \<open>Any interleaving\<close>

datatype queue_step = Captures instant input_event | Retries | Takes

text \<open>A step, with what it recorded and what it handed over.\<close>

inductive queue_runs :: "queue_step \<Rightarrow> capture_queues \<Rightarrow> captured_event list \<Rightarrow> capture_queues \<Rightarrow> bool" where
  captures: "cq_blocked q = None \<Longrightarrow> queue_runs (Captures now event) q [] (capture_one now event q)"
| retries: "cq_blocked q = Some e \<Longrightarrow> queue_runs Retries q [] (send_priority e q)"
| takes: "take_one q = Some (e, q') \<Longrightarrow> queue_runs Takes q [e] q'"

inductive_cases captures_cases: "queue_runs (Captures now event) q out q'"
inductive_cases retries_cases: "queue_runs Retries q out q'"
inductive_cases takes_cases: "queue_runs Takes q out q'"

inductive queue_history :: "queue_step list \<Rightarrow> captured_event list \<Rightarrow> capture_queues \<Rightarrow> bool" where
  start: "queue_history [] [] empty_queues"
| step: "queue_history steps out q \<Longrightarrow> queue_runs s q new q' \<Longrightarrow> queue_history (steps @ [s]) (out @ new) q'"

text \<open>The priority events that were recorded, from the steps alone.\<close>

fun recorded :: "captured_state \<Rightarrow> queue_step list \<Rightarrow> captured_state \<times> captured_event list" where
  "recorded s [] = (s, [])"
| "recorded s (Captures now event # steps) =
     (if (case event of Pinch delta \<Rightarrow> True | PinchEnd \<Rightarrow> True | _ \<Rightarrow> False)
      then (case next_event_id s of (s1, n) \<Rightarrow>
              (case recorded s1 steps of (s2, es) \<Rightarrow> (s2, \<lparr>ce_event = event, ce_event_id = n\<rparr> # es)))
      else (case record_event now event s of
              (s1, captured) \<Rightarrow>
                (case recorded s1 steps of
                   (s2, es) \<Rightarrow> (s2, (case captured of None \<Rightarrow> es | Some e \<Rightarrow> e # es)))))"
| "recorded s (step # steps) = recorded s steps"

definition reliable :: "captured_event list \<Rightarrow> captured_event list" where
  "reliable es = filter (\<lambda>e. is_priority (ce_event e)) es"

definition waiting :: "capture_queues \<Rightarrow> captured_event list" where
  "waiting q = reliable (cq_priority q) @ (case cq_blocked q of None \<Rightarrow> [] | Some e \<Rightarrow> [e])"

lemma reliable_simps [simp]:
  "reliable [] = []" "reliable (es @ ds) = reliable es @ reliable ds"
  "reliable (e # es) = (if is_priority (ce_event e) then e # reliable es else reliable es)"
  by (simp_all add: reliable_def)

lemma recorded_append:
  "recorded s (steps @ steps2) =
     (case recorded s steps of (s1, es) \<Rightarrow> (case recorded s1 steps2 of (s2, ds) \<Rightarrow> (s2, es @ ds)))"
proof (induction steps arbitrary: s)
  case (Cons st steps)
  show ?case
  proof (cases st)
    case (Captures now event)
    then show ?thesis
      by (cases "case event of Pinch delta \<Rightarrow> True | PinchEnd \<Rightarrow> True | _ \<Rightarrow> False")
        (auto simp: Cons.IH split: prod.splits option.splits)
  qed (simp_all add: Cons.IH)
qed simp

text \<open>What folding hands over has no key in it, and the motion queue holds none.\<close>

definition only_motion :: "capture_queues \<Rightarrow> bool" where
  "only_motion q \<longleftrightarrow> reliable (cq_motion q) = [] \<and> (case cq_stash q of None \<Rightarrow> True | Some e \<Rightarrow> \<not> is_priority (ce_event e))
     \<and> (case cq_blocked q of None \<Rightarrow> True | Some e \<Rightarrow> is_priority (ce_event e))"

lemma fold_moves_motion:
  "fold_moves n dx dy es = (dx1, dy1, rest, stash) \<Longrightarrow> reliable es = []
     \<Longrightarrow> reliable rest = [] \<and> (case stash of None \<Rightarrow> True | Some e \<Rightarrow> \<not> is_priority (ce_event e))"
  by (induction n dx dy es rule: fold_moves.induct) (auto split: input_event.splits if_splits)

lemma fold_scrolls_motion:
  "fold_scrolls n x y es = (x1, y1, rest, stash) \<Longrightarrow> reliable es = []
     \<Longrightarrow> reliable rest = [] \<and> (case stash of None \<Rightarrow> True | Some e \<Rightarrow> \<not> is_priority (ce_event e))"
  by (induction n x y es rule: fold_scrolls.induct) (auto split: input_event.splits if_splits)

lemma folded_motion:
  assumes "folded first es = (e, rest, stash)" "\<not> is_priority (ce_event first)" "reliable es = []"
  shows "\<not> is_priority (ce_event e) \<and> reliable rest = []
    \<and> (case stash of None \<Rightarrow> True | Some e \<Rightarrow> \<not> is_priority (ce_event e))"
proof (cases "ce_event first")
  case (MouseMove dx dy)
  with assms(1,3) fold_moves_motion [of MOVE_FOLDS dx dy es] show ?thesis
    by (auto simp: folded_def is_priority_def split: prod.splits)
next
  case (SmoothWheel x y)
  with assms(1,3) fold_scrolls_motion [of SCROLL_FOLDS x y es] show ?thesis
    by (auto simp: folded_def is_priority_def split: prod.splits)
qed (use assms in \<open>auto simp: folded_def is_priority_def\<close>)

section \<open>Keys keep their order\<close>

text \<open>What one step of the capture thread records, and what it leaves in the queues.\<close>

lemma send_priority_keeps:
  assumes "is_priority (ce_event e)" "cq_blocked q = None \<or> cq_blocked q = Some e"
    "length (cq_priority q) \<le> QUEUE_CAPACITY" "only_motion q"
  shows "waiting (send_priority e q) = reliable (cq_priority q) @ [e] \<and> only_motion (send_priority e q)
    \<and> cq_state (send_priority e q) = cq_state q \<and> cq_motion (send_priority e q) = cq_motion q
    \<and> length (cq_priority (send_priority e q)) \<le> QUEUE_CAPACITY"
  using assms by (auto simp: send_priority_def waiting_def only_motion_def)

lemma record_event_kind:
  "record_event now event s = (s1, Some e) \<Longrightarrow> is_priority (ce_event e) = is_priority event"
  by (cases event) (auto simp: record_event_def numbered_def is_priority_def split: prod.splits option.splits)

lemma capture_one_gesture:
  assumes "case event of Pinch delta \<Rightarrow> True | PinchEnd \<Rightarrow> True | _ \<Rightarrow> False" "next_event_id (cq_state q) = (s1, n)"
  shows "capture_one now event q = send_priority \<lparr>ce_event = event, ce_event_id = n\<rparr> (q\<lparr>cq_state := s1\<rparr>)"
  using assms by (simp add: capture_one_def)

lemma capture_one_key:
  assumes "record_event now event (cq_state q) = (s1, Some e)" "case event of Key key \<Rightarrow> True | MouseButton b p \<Rightarrow> True | _ \<Rightarrow> False"
  shows "capture_one now event q = send_priority e (q\<lparr>cq_state := s1\<rparr>)"
  using assms by (cases event) (auto simp: capture_one_def)

lemma capture_one_motion:
  assumes "record_event now event (cq_state q) = (s1, Some e)" "\<not> is_priority event"
  shows "\<exists>ms ps. capture_one now event q = q\<lparr>cq_state := s1, cq_motion := ms, cq_priority := ps\<rparr>
    \<and> (ms = cq_motion q \<or> ms = cq_motion q @ [e] \<and> length (cq_motion q) < QUEUE_CAPACITY)
    \<and> (ps = cq_priority q \<or> ps = cq_priority q @ [e] \<and> length (cq_priority q) < QUEUE_CAPACITY)"
proof -
  have "capture_one now event q = (case send_motion e (q\<lparr>cq_state := s1\<rparr>) of Some q2 \<Rightarrow> q2
      | None \<Rightarrow> if is_wheel event \<and> length (cq_priority q) < QUEUE_CAPACITY
          then (q\<lparr>cq_state := s1\<rparr>)\<lparr>cq_priority := cq_priority q @ [e]\<rparr> else q\<lparr>cq_state := s1\<rparr>)"
    using assms by (cases event) (auto simp: capture_one_def is_priority_def Let_def split: option.splits)
  then consider "capture_one now event q = q\<lparr>cq_state := s1, cq_motion := cq_motion q @ [e]\<rparr>" "length (cq_motion q) < QUEUE_CAPACITY"
    | "capture_one now event q = q\<lparr>cq_state := s1, cq_priority := cq_priority q @ [e]\<rparr>" "length (cq_priority q) < QUEUE_CAPACITY"
    | "capture_one now event q = q\<lparr>cq_state := s1\<rparr>"
    by (auto simp: send_motion_def split: if_splits)
  then show ?thesis
  proof cases
    case 1
    then have "capture_one now event q = q\<lparr>cq_state := s1, cq_motion := cq_motion q @ [e], cq_priority := cq_priority q\<rparr>" by simp
    with 1(2) show ?thesis by blast
  next
    case 2
    then have "capture_one now event q = q\<lparr>cq_state := s1, cq_motion := cq_motion q, cq_priority := cq_priority q @ [e]\<rparr>" by simp
    with 2(2) show ?thesis by blast
  next
    case 3
    then have "capture_one now event q = q\<lparr>cq_state := s1, cq_motion := cq_motion q, cq_priority := cq_priority q\<rparr>" by simp
    then show ?thesis by blast
  qed
qed

definition sound_queues :: "capture_queues \<Rightarrow> bool" where
  "sound_queues q \<longleftrightarrow> only_motion q \<and> length (cq_priority q) \<le> QUEUE_CAPACITY \<and> length (cq_motion q) \<le> QUEUE_CAPACITY"

lemma capture_one_keeps:
  assumes "cq_blocked q = None" "sound_queues q"
  shows "recorded (cq_state q) [Captures now event] = (cq_state (capture_one now event q), es)
      \<Longrightarrow> waiting (capture_one now event q) = waiting q @ reliable es \<and> sound_queues (capture_one now event q)"
proof -
  assume rec: "recorded (cq_state q) [Captures now event] = (cq_state (capture_one now event q), es)"
  have bare: "waiting (q\<lparr>cq_state := s\<rparr>) = waiting q" "sound_queues (q\<lparr>cq_state := s\<rparr>)"
    "reliable (cq_priority q) = waiting q" for s
    using assms by (auto simp: waiting_def sound_queues_def only_motion_def)
  show ?thesis
  proof (cases "case event of Pinch delta \<Rightarrow> True | PinchEnd \<Rightarrow> True | _ \<Rightarrow> False")
    case True
    obtain s1 n where n: "next_event_id (cq_state q) = (s1, n)" by force
    have priority: "is_priority event" using True by (cases event) (auto simp: is_priority_def)
    have es: "es = [\<lparr>ce_event = event, ce_event_id = n\<rparr>]" using rec True n by simp
    show ?thesis
      using send_priority_keeps [of "\<lparr>ce_event = event, ce_event_id = n\<rparr>" "q\<lparr>cq_state := s1\<rparr>"] bare assms priority
      by (simp add: capture_one_gesture [OF True n] es sound_queues_def)
  next
    case False
    obtain s1 captured where r: "record_event now event (cq_state q) = (s1, captured)" by force
    show ?thesis
    proof (cases captured)
      case None
      with False r have "capture_one now event q = q\<lparr>cq_state := s1\<rparr>" by (simp add: capture_one_def)
      with rec False r None bare show ?thesis by simp
    next
      case (Some e)
      have es: "es = [e]" using rec False r Some by simp
      show ?thesis
      proof (cases "is_priority event")
        case True
        with False have "case event of Key key \<Rightarrow> True | MouseButton b p \<Rightarrow> True | _ \<Rightarrow> False"
          by (cases event) (auto simp: is_priority_def)
        from capture_one_key [OF r [unfolded Some] this]
          send_priority_keeps [of e "q\<lparr>cq_state := s1\<rparr>"] record_event_kind [OF r [unfolded Some]] True bare assms
        show ?thesis by (simp add: es sound_queues_def)
      next
        case False
        have plain: "\<not> is_priority (ce_event e)" using record_event_kind [OF r [unfolded Some]] False by simp
        from capture_one_motion [OF r [unfolded Some] False] obtain ms ps where
          q': "capture_one now event q = q\<lparr>cq_state := s1, cq_motion := ms, cq_priority := ps\<rparr>"
          and ms: "ms = cq_motion q \<or> ms = cq_motion q @ [e] \<and> length (cq_motion q) < QUEUE_CAPACITY"
          and ps: "ps = cq_priority q \<or> ps = cq_priority q @ [e] \<and> length (cq_priority q) < QUEUE_CAPACITY" by blast
        have "reliable ms = reliable (cq_motion q)" "length ms \<le> QUEUE_CAPACITY"
          "reliable ps = reliable (cq_priority q)" "length ps \<le> QUEUE_CAPACITY"
          using ms ps plain assms(2) by (auto simp: sound_queues_def)
        then show ?thesis using assms(2) plain
          by (auto simp: q' es waiting_def sound_queues_def only_motion_def)
      qed
    qed
  qed
qed

lemma capture_one_state:
  "\<exists>es. recorded (cq_state q) [Captures now event] = (cq_state (capture_one now event q), es)"
proof -
  have state: "cq_state (send_priority e q') = cq_state q'" for e q' by (simp add: send_priority_def)
  show ?thesis
    by (cases event)
      (auto simp: capture_one_def state Let_def send_motion_def is_wheel_def split: prod.splits option.splits if_splits)
qed

lemma take_one_keeps:
  assumes "take_one q = Some (e, q')" "sound_queues q"
  shows "reliable [e] @ waiting q' = waiting q \<and> sound_queues q' \<and> cq_state q' = cq_state q"
proof (cases "cq_priority q")
  case (Cons a rest)
  with assms show ?thesis by (auto simp: take_one_def waiting_def sound_queues_def only_motion_def)
next
  case Nil
  obtain first es where first: "\<not> is_priority (ce_event first)" "reliable es = []" "length es \<le> QUEUE_CAPACITY"
    and f: "case folded first es of (e1, rest, stash) \<Rightarrow> e = e1 \<and> q' = q\<lparr>cq_motion := rest, cq_stash := stash\<rparr>"
    using assms Nil
    by (auto simp: take_one_def sound_queues_def only_motion_def split: option.splits list.splits prod.splits if_splits)
  obtain rest stash where run: "folded first es = (e, rest, stash)" and q': "q' = q\<lparr>cq_motion := rest, cq_stash := stash\<rparr>"
    using f by (auto split: prod.splits)
  have shorter: "length rest \<le> length es"
  proof -
    have "fold_moves n dx dy ds = (a, b, r, st) \<Longrightarrow> length r \<le> length ds" for n dx dy ds a b r st
      by (induction n dx dy ds rule: fold_moves.induct) (auto split: input_event.splits)
    moreover have "fold_scrolls n dx dy ds = (a, b, r, st) \<Longrightarrow> length r \<le> length ds" for n dx dy ds a b r st
      by (induction n dx dy ds rule: fold_scrolls.induct) (auto split: input_event.splits)
    ultimately show ?thesis using run by (auto simp: folded_def split: input_event.splits prod.splits)
  qed
  from folded_motion [OF run first(1,2)] shorter first(3) assms(2) show ?thesis
    by (simp add: q' waiting_def sound_queues_def only_motion_def)
qed

lemma history_keeps:
  assumes "queue_history steps out q"
  shows "\<exists>es. recorded nothing_held steps = (cq_state q, es) \<and> reliable out @ waiting q = reliable es \<and> sound_queues q"
  using assms
proof (induction rule: queue_history.induct)
  case start
  show ?case by (simp add: empty_queues_def waiting_def sound_queues_def only_motion_def)
next
  case (step steps out q s new q')
  then obtain es where es: "recorded nothing_held steps = (cq_state q, es)" "reliable out @ waiting q = reliable es" "sound_queues q"
    by blast
  from step.hyps(2) show ?case
  proof cases
    case (captures now event)
    obtain ds where ds: "recorded (cq_state q) [Captures now event] = (cq_state q', ds)"
      using capture_one_state [of q now event] captures by auto
    with capture_one_keeps [OF captures(4) es(3), of now event ds] captures es show ?thesis
      by (auto simp: recorded_append)
  next
    case (retries e)
    with send_priority_keeps [of e q] es(3) have "waiting q' = waiting q" "sound_queues q'" "cq_state q' = cq_state q"
      by (auto simp: sound_queues_def only_motion_def waiting_def)
    with retries es show ?thesis by (auto simp: recorded_append)
  next
    case (takes e)
    with take_one_keeps [OF takes(3) es(3)] es show ?thesis
      by (auto simp: recorded_append)
  qed
qed

text \<open>
  C11: keys, clicks and gestures are never lost and never change places. However capture, waiting
  and handling interleave, what was handed over, followed by what waits in the priority queue
  and in the capture thread, is exactly what was recorded, in order; and the queues stay within
  their bounds.
\<close>

theorem keys_keep_their_order:
  assumes "queue_history steps out q"
  shows "reliable out @ waiting q = reliable (snd (recorded nothing_held steps))
    \<and> cq_state q = fst (recorded nothing_held steps)
    \<and> length (cq_priority q) \<le> 256 \<and> length (cq_motion q) \<le> 256"
  using history_keeps [OF assms] by (auto simp: sound_queues_def QUEUE_CAPACITY_def)

lemma keys_keep_their_order_witness:
  "\<exists>out q. queue_history [Captures 3 (MouseButton BtnLeft True), Takes] out q \<and> reliable out = [\<lparr>ce_event = MouseButton BtnLeft True, ce_event_id = 1\<rparr>]"
proof -
  define q1 where "q1 = capture_one 3 (MouseButton BtnLeft True) empty_queues"
  define e where "e = \<lparr>ce_event = MouseButton BtnLeft True, ce_event_id = (1 :: u64)\<rparr>"
  have q1: "cq_priority q1 = [e]" "cq_blocked q1 = None"
    by (simp_all add: q1_def e_def capture_one_def record_event_def numbered_def next_event_id_def record_button_def
        empty_queues_def nothing_held_def send_priority_def QUEUE_CAPACITY_def)
  have "queue_history ([] @ [Captures 3 (MouseButton BtnLeft True)]) ([] @ []) q1"
    unfolding q1_def
    by (rule queue_history.step [OF queue_history.start queue_runs.captures]) (simp add: empty_queues_def)
  moreover have "queue_runs Takes q1 [e] (q1\<lparr>cq_priority := []\<rparr>)"
    by (rule queue_runs.takes) (simp add: take_one_def q1)
  ultimately have "queue_history (([] @ [Captures 3 (MouseButton BtnLeft True)]) @ [Takes]) (([] @ []) @ [e]) (q1\<lparr>cq_priority := []\<rparr>)"
    by (rule queue_history.step)
  then have run: "queue_history [Captures 3 (MouseButton BtnLeft True), Takes] [e] (q1\<lparr>cq_priority := []\<rparr>)" by simp
  have "reliable [e] @ waiting (q1\<lparr>cq_priority := []\<rparr>) = reliable (snd (recorded nothing_held [Captures 3 (MouseButton BtnLeft True), Takes]))"
    using keys_keep_their_order [OF run] by blast
  then have "reliable [e] = [e]"
    by (simp add: record_event_def numbered_def next_event_id_def record_button_def nothing_held_def e_def is_priority_def)
  with run show ?thesis unfolding e_def by blast
qed

section \<open>Folding\<close>

fun moved_x :: "input_event \<Rightarrow> int" where
  "moved_x (MouseMove dx dy) = sint dx" | "moved_x _ = 0"

fun moved_y :: "input_event \<Rightarrow> int" where
  "moved_y (MouseMove dx dy) = sint dy" | "moved_y _ = 0"

definition total :: "(input_event \<Rightarrow> int) \<Rightarrow> captured_event list \<Rightarrow> int" where
  "total f es = (\<Sum>e\<leftarrow>es. f (ce_event e))"

definition reach :: "(input_event \<Rightarrow> int) \<Rightarrow> captured_event list \<Rightarrow> int" where
  "reach f es = (\<Sum>e\<leftarrow>es. \<bar>f (ce_event e)\<bar>)"

lemma reach_nonneg: "0 \<le> reach f es"
  by (auto simp: reach_def intro!: sum_list_nonneg)

lemma total_simps [simp]:
  "total f [] = 0" "total f (e # es) = f (ce_event e) + total f es"
  "reach f [] = 0" "reach f (e # es) = \<bar>f (ce_event e)\<bar> + reach f es"
  by (simp_all add: total_def reach_def)

lemma sat_add_within:
  assumes "\<bar>sint a\<bar> + (\<bar>sint b\<bar> + r) < 2 ^ 31" "0 \<le> r"
  shows "sint (sat_add a b :: i32) = sint a + sint b" "\<bar>sint (sat_add a b :: i32)\<bar> + r < 2 ^ 31"
proof -
  have "\<bar>sint a\<bar> + \<bar>sint b\<bar> < 2 ^ 31" using assms by linarith
  then show "sint (sat_add a b :: i32) = sint a + sint b" by (rule sat_add_exact)
  then show "\<bar>sint (sat_add a b :: i32)\<bar> + r < 2 ^ 31" using assms by linarith
qed

lemma fold_moves_exact:
  assumes "fold_moves n dx dy es = (dx1, dy1, rest, stash)"
    and "\<bar>sint dx\<bar> + reach moved_x es < 2 ^ 31" "\<bar>sint dy\<bar> + reach moved_y es < 2 ^ 31"
  shows "\<exists>folded. es = folded @ (case stash of None \<Rightarrow> [] | Some e \<Rightarrow> [e]) @ rest \<and> length folded \<le> n
    \<and> list_all (\<lambda>e. \<exists>mx my. ce_event e = MouseMove mx my) folded
    \<and> sint dx1 = sint dx + total moved_x folded \<and> sint dy1 = sint dy + total moved_y folded"
  using assms
proof (induction n dx dy es rule: fold_moves.induct)
  case (3 n dx dy e es)
  show ?case
  proof (cases "ce_event e")
    case (MouseMove mx my)
    have x: "\<bar>sint dx\<bar> + (\<bar>sint mx\<bar> + reach moved_x es) < 2 ^ 31" and y: "\<bar>sint dy\<bar> + (\<bar>sint my\<bar> + reach moved_y es) < 2 ^ 31"
      using "3.prems"(2,3) MouseMove by simp_all
    note x = sat_add_within [OF x reach_nonneg] and y = sat_add_within [OF y reach_nonneg]
    from "3.prems"(1) MouseMove have "fold_moves n (sat_add dx mx) (sat_add dy my) es = (dx1, dy1, rest, stash)" by simp
    from "3.IH" [OF MouseMove this x(2) y(2)] obtain folded where f: "es = folded @ (case stash of None \<Rightarrow> [] | Some e \<Rightarrow> [e]) @ rest"
      "length folded \<le> n" "list_all (\<lambda>e. \<exists>mx my. ce_event e = MouseMove mx my) folded"
      "sint dx1 = sint dx + sint mx + total moved_x folded" "sint dy1 = sint dy + sint my + total moved_y folded"
      using x(1) y(1) by auto
    have "e # es = (e # folded) @ (case stash of None \<Rightarrow> [] | Some e \<Rightarrow> [e]) @ rest" using f(1) by simp
    moreover have "length (e # folded) \<le> Suc n" "list_all (\<lambda>e. \<exists>mx my. ce_event e = MouseMove mx my) (e # folded)"
      "sint dx1 = sint dx + total moved_x (e # folded)" "sint dy1 = sint dy + total moved_y (e # folded)"
      using f(2-) MouseMove by simp_all
    ultimately show ?thesis by blast
  qed (use "3.prems" in auto)
qed auto

text \<open>
  Folding moves keeps the way. A run of up to five queued moves becomes one event with
  exactly their displacement, what follows stays in order, and nothing else is swallowed.
\<close>

theorem folding_keeps_the_way:
  assumes "folded first es = (e, rest, stash)" "ce_event first = MouseMove dx dy"
    and "reach moved_x (first # es) < 2 ^ 31" "reach moved_y (first # es) < 2 ^ 31"
  shows "\<exists>run. first # es = run @ (case stash of None \<Rightarrow> [] | Some s \<Rightarrow> [s]) @ rest \<and> run \<noteq> [] \<and> length run \<le> 5
    \<and> list_all (\<lambda>e. \<exists>mx my. ce_event e = MouseMove mx my) run
    \<and> moved_x (ce_event e) = total moved_x run \<and> moved_y (ce_event e) = total moved_y run
    \<and> ce_event_id e = ce_event_id first"
proof -
  obtain dx1 dy1 where run: "fold_moves MOVE_FOLDS dx dy es = (dx1, dy1, rest, stash)" and e: "e = first\<lparr>ce_event := MouseMove dx1 dy1\<rparr>"
    using assms(1,2) by (auto simp: folded_def split: prod.splits)
  have "\<bar>sint dx\<bar> + reach moved_x es < 2 ^ 31" "\<bar>sint dy\<bar> + reach moved_y es < 2 ^ 31"
    using assms(2-4) by simp_all
  from fold_moves_exact [OF run this] obtain fs where f: "es = fs @ (case stash of None \<Rightarrow> [] | Some s \<Rightarrow> [s]) @ rest" "length fs \<le> 4"
    "list_all (\<lambda>e. \<exists>mx my. ce_event e = MouseMove mx my) fs"
    "sint dx1 = sint dx + total moved_x fs" "sint dy1 = sint dy + total moved_y fs"
    by (auto simp: MOVE_FOLDS_def)
  show ?thesis
    by (rule exI [of _ "first # fs"]) (use f assms(2) in \<open>simp add: e\<close>)
qed

lemma folding_keeps_the_way_witness:
  "\<exists>e. folded \<lparr>ce_event = MouseMove 3 1, ce_event_id = 1\<rparr>
      [\<lparr>ce_event = MouseMove (- 5) 2, ce_event_id = 2\<rparr>, \<lparr>ce_event = SmoothWheel 0 7, ce_event_id = 3\<rparr>,
       \<lparr>ce_event = MouseMove 1 1, ce_event_id = 4\<rparr>]
    = (e, [\<lparr>ce_event = MouseMove 1 1, ce_event_id = 4\<rparr>], Some \<lparr>ce_event = SmoothWheel 0 7, ce_event_id = 3\<rparr>)
    \<and> moved_x (ce_event e) = - 2"
proof -
  define a b c d where "a = \<lparr>ce_event = MouseMove 3 1, ce_event_id = (1 :: u64)\<rparr>"
    and "b = \<lparr>ce_event = MouseMove (- 5) 2, ce_event_id = (2 :: u64)\<rparr>"
    and "c = \<lparr>ce_event = SmoothWheel 0 7, ce_event_id = (3 :: u64)\<rparr>"
    and "d = \<lparr>ce_event = MouseMove 1 1, ce_event_id = (4 :: u64)\<rparr>"
  have "fold_moves (Suc (Suc (Suc (Suc 0)))) 3 1 [b, c, d] = (sat_add 3 (- 5), sat_add 1 2, [d], Some c)"
    by (simp add: b_def c_def)
  then obtain e where run: "folded a [b, c, d] = (e, [d], Some c)"
    by (simp add: folded_def a_def MOVE_FOLDS_def numeral_eq_Suc)
  have "reach moved_x [a, b, c, d] < 2 ^ 31" "reach moved_y [a, b, c, d] < 2 ^ 31" "ce_event a = MouseMove 3 1"
    by (simp_all add: a_def b_def c_def d_def)
  from folding_keeps_the_way [OF run this(3,1,2)] obtain rs where rs: "[a, b, c, d] = rs @ [c, d]"
    "moved_x (ce_event e) = total moved_x rs" by auto
  from rs(1) have "rs = [a, b]" using append_same_eq [of "[a, b]" "[c, d]" rs] by simp
  with rs(2) have "moved_x (ce_event e) = - 2" by (simp add: a_def b_def)
  with run show ?thesis unfolding a_def b_def c_def d_def by blast
qed

section \<open>Between the queues\<close>

text \<open>What the task handles when it comes back after the given events.\<close>

definition captured_all :: "(instant \<times> input_event) list \<Rightarrow> capture_queues" where
  "captured_all events = fold (\<lambda>(now, event). capture_one now event) events empty_queues"

fun taken :: "nat \<Rightarrow> capture_queues \<Rightarrow> input_event list" where
  "taken 0 q = []"
| "taken (Suc n) q = (case take_one q of None \<Rightarrow> [] | Some (e, q') \<Rightarrow> ce_event e # taken n q')"

lemmas queue_eval = captured_all_def capture_one_def record_event_def record_key_def record_button_def numbered_def
  next_event_id_def empty_queues_def nothing_held_def send_priority_def send_motion_def QUEUE_CAPACITY_def
  take_one_def folded_def MOVE_FOLDS_def SCROLL_FOLDS_def

text \<open>
  Between the two queues the order is lost. When the task is busy, a click overtakes the
  motion that led to it, and Ctrl pressed and let go around a wheel step is sent before the step,
  which then scrolls instead of zooming.
\<close>

theorem clicks_overtake_motion:
  "taken 2 (captured_all [(0, MouseMove 40 0), (1, MouseButton BtnLeft True)])
      = [MouseButton BtnLeft True, MouseMove 40 0]
   \<and> taken 3 (captured_all [(0, ctrl_event True), (1, Wheel \<lparr>wd_x = 0, wd_y = 1\<rparr>), (2, ctrl_event False)])
      = [ctrl_event True, ctrl_event False, Wheel \<lparr>wd_x = 0, wd_y = 1\<rparr>]"
  by (simp add: queue_eval ctrl_event_def numeral_eq_Suc)

end
