(* ===== verification/Injector.thy ===== *)
theory Injector
  imports Capture KeyTables
begin

text \<open>
  The controlled machine's virtual devices: \<^verbatim>\<open>UinputDevice\<close> of \<^verbatim>\<open>kvm-platform/src/inject.rs\<close>
  on Linux, the rendering of a key on Windows, and \<^verbatim>\<open>sync_state\<close> of
  \<^verbatim>\<open>kvm-daemon/src/service.rs\<close>. An operation returns the event frames it writes to the device;
  whether a write succeeds is its argument \<open>io\<close>. Touch gestures are left out.
\<close>

section \<open>The devices\<close>

type_synonym evdev = "u16 \<times> u16 \<times> i32"

definition EV_KEY :: u16 where "EV_KEY = 1"
definition EV_REL :: u16 where "EV_REL = 2"
definition REL_X :: u16 where "REL_X = 0"
definition REL_Y :: u16 where "REL_Y = 1"
definition REL_HWHEEL :: u16 where "REL_HWHEEL = 6"
definition REL_WHEEL :: u16 where "REL_WHEEL = 8"
definition REL_WHEEL_HI_RES :: u16 where "REL_WHEEL_HI_RES = 0x0b"
definition REL_HWHEEL_HI_RES :: u16 where "REL_HWHEEL_HI_RES = 0x0c"

fun button_code :: "mouse_button \<Rightarrow> u16" where
  "button_code BtnLeft = 0x110"
| "button_code BtnRight = 0x111"
| "button_code BtnMiddle = 0x112"
| "button_code BtnBack = 0x113"
| "button_code BtnForward = 0x114"

text \<open>Which of the two virtual devices a frame goes to.\<close>

datatype device = Mouse | Keyboard

type_synonym report = "device \<times> evdev list"

record uinput_device =
  ui_pressed_keys :: "u16 set"
  ui_pressed_buttons :: "u16 set"
  ui_wheel_debt_x :: i32
  ui_wheel_debt_y :: i32

definition new_device :: uinput_device where
  "new_device = \<lparr>ui_pressed_keys = {}, ui_pressed_buttons = {}, ui_wheel_debt_x = 0, ui_wheel_debt_y = 0\<rparr>"

text \<open>\<open>emit\<close> and \<open>emit_batch\<close>: one report, if the write succeeds; nothing for an empty batch.\<close>

definition emit :: "bool \<Rightarrow> device \<Rightarrow> evdev list \<Rightarrow> string + report list" where
  "emit io device events =
     (if events = [] then Inr []
      else if io then Inr [(device, events)] else Inl ''write failed'')"

definition bank_smooth_debt :: "i32 \<Rightarrow> i32 \<Rightarrow> i32 \<times> i32" where
  "bank_smooth_debt debt delta =
     (if delta = 0 then (0, debt)
      else
        (let bank = sat_add debt delta;
             whole = word_of_int (trunc_div (sint bank) 120)
         in (whole, bank - clamp_sint (sint whole * 120))))"

text \<open>The reports of one scroll axis: whole detents, if there are any, and the fine motion.\<close>

definition wheel_axis :: "u16 \<Rightarrow> u16 \<Rightarrow> i32 \<Rightarrow> i32 \<Rightarrow> evdev list" where
  "wheel_axis coarse fine whole delta =
     (if delta = 0 then []
      else (if whole \<noteq> 0 then [(EV_REL, coarse, whole)] else []) @ [(EV_REL, fine, delta)])"

definition i16_to_i32 :: "i16 \<Rightarrow> i32" where
  "i16_to_i32 w = word_of_int (sint w)"

definition detent_axis :: "u16 \<Rightarrow> u16 \<Rightarrow> i16 \<Rightarrow> evdev list" where
  "detent_axis coarse fine d =
     (if d = 0 then []
      else [(EV_REL, coarse, i16_to_i32 d), (EV_REL, fine, clamp_sint (sint (i16_to_i32 d) * 120))])"

text \<open>\<open>UinputDevice::send\<close>.\<close>

definition inject_event ::
  "bool \<Rightarrow> input_event \<Rightarrow> uinput_device \<Rightarrow> uinput_device \<times> (string + report list)" where
  "inject_event io event u =
     (case event of
        MouseMove dx dy \<Rightarrow>
          (u, emit io Mouse ((if dx \<noteq> 0 then [(EV_REL, REL_X, dx)] else [])
             @ (if dy \<noteq> 0 then [(EV_REL, REL_Y, dy)] else [])))
      | MouseButton button pressed \<Rightarrow>
          (case emit io Mouse [(EV_KEY, button_code button, if pressed then 1 else 0)] of
             Inl e \<Rightarrow> (u, Inl e)
           | Inr out \<Rightarrow>
               (u\<lparr>ui_pressed_buttons := (if pressed then insert (button_code button) (ui_pressed_buttons u)
                    else ui_pressed_buttons u - {button_code button})\<rparr>, Inr out))
      | Wheel delta \<Rightarrow>
          (u, emit io Mouse (detent_axis REL_WHEEL REL_WHEEL_HI_RES (wd_y delta)
             @ detent_axis REL_HWHEEL REL_HWHEEL_HI_RES (wd_x delta)))
      | SmoothWheel x y \<Rightarrow>
          (case (bank_smooth_debt (ui_wheel_debt_y u) y, bank_smooth_debt (ui_wheel_debt_x u) x) of
             ((whole_y, debt_y), (whole_x, debt_x)) \<Rightarrow>
               (u\<lparr>ui_wheel_debt_y := debt_y, ui_wheel_debt_x := debt_x\<rparr>,
                emit io Mouse (wheel_axis REL_WHEEL REL_WHEEL_HI_RES whole_y y
                  @ wheel_axis REL_HWHEEL REL_HWHEEL_HI_RES whole_x x)))
      | Key key \<Rightarrow>
          (case hid_to_evdev (ke_usage key) of
             None \<Rightarrow> (u, Inl ''unsupported HID keyboard usage'')
           | Some code \<Rightarrow>
               if ke_pressed key \<and> code \<in> ui_pressed_keys u then (u, Inr [])
               else
                 (case emit io Keyboard [(EV_KEY, code, if ke_pressed key then 1 else 0)] of
                    Inl e \<Rightarrow> (u, Inl e)
                  | Inr out \<Rightarrow>
                      (u\<lparr>ui_pressed_keys := (if ke_pressed key then insert code (ui_pressed_keys u)
                           else ui_pressed_keys u - {code})\<rparr>, Inr out)))
      | Pinch delta \<Rightarrow> (u, Inr [])
      | PinchEnd \<Rightarrow> (u, Inr []))"

definition key_pressed :: "hid_usage \<Rightarrow> uinput_device \<Rightarrow> bool" where
  "key_pressed usage u =
     (case hid_to_evdev usage of None \<Rightarrow> False | Some code \<Rightarrow> code \<in> ui_pressed_keys u)"

text \<open>
  \<open>release_all\<close>: every release is tried, a failed one does not stop the others, and the first
  error is the result. \<open>io\<close> says which writes succeed. The state is cleared in any case.
\<close>

fun try_releases :: "(device \<times> u16 \<Rightarrow> bool) \<Rightarrow> (device \<times> u16) list \<Rightarrow> report list \<times> string option" where
  "try_releases io [] = ([], None)"
| "try_releases io ((device, code) # rest) =
     (case (emit (io (device, code)) device [(EV_KEY, code, 0)], try_releases io rest) of
        (Inl e, (out, _)) \<Rightarrow> (out, Some e)
      | (Inr out1, (out, e)) \<Rightarrow> (out1 @ out, e))"

definition release_all ::
  "(device \<times> u16 \<Rightarrow> bool) \<Rightarrow> uinput_device \<Rightarrow> uinput_device \<times> report list \<times> string option" where
  "release_all io u =
     (case try_releases io (map (Pair Keyboard) (sorted_list_of_set (ui_pressed_keys u))
             @ map (Pair Mouse) (sorted_list_of_set (ui_pressed_buttons u))) of
        (out, e) \<Rightarrow> (u\<lparr>ui_pressed_keys := {}, ui_pressed_buttons := {}\<rparr>, out, e))"

text \<open>\<open>ReceiverInjector::sync_state\<close>: release everything, then press what the state lists.\<close>

fun inject_all ::
  "bool \<Rightarrow> input_event list \<Rightarrow> uinput_device \<Rightarrow> uinput_device \<times> (string + report list)" where
  "inject_all io [] u = (u, Inr [])"
| "inject_all io (e # es) u =
     (case inject_event io e u of
        (u1, Inl err) \<Rightarrow> (u1, Inl err)
      | (u1, Inr out) \<Rightarrow>
          (case inject_all io es u1 of
             (u2, Inl err) \<Rightarrow> (u2, Inl err)
           | (u2, Inr out2) \<Rightarrow> (u2, Inr (out @ out2))))"

definition presses :: "input_state \<Rightarrow> input_event list" where
  "presses state = map (\<lambda>usage. Key \<lparr>ke_usage = usage, ke_pressed = True, ke_repeat = False\<rparr>) (st_pressed_keys state)
     @ map (\<lambda>button. MouseButton button True) (st_pressed_buttons state)"

definition restore_state ::
  "bool \<Rightarrow> input_state \<Rightarrow> uinput_device \<Rightarrow> uinput_device \<times> (string + report list)" where
  "restore_state io state u =
     (case release_all (\<lambda>_. io) u of
        (u1, out, Some e) \<Rightarrow> (u1, Inl e)
      | (u1, out, None) \<Rightarrow>
          (case inject_all io (presses state) u1 of
             (u2, Inl e) \<Rightarrow> (u2, Inl e)
           | (u2, Inr out2) \<Rightarrow> (u2, Inr (out @ out2))))"

text \<open>The checks of a received state, \<open>sync_state\<close>; \<open>None\<close> is acceptance.\<close>

definition MAX_SYNC_KEYS :: nat where "MAX_SYNC_KEYS = 256"
definition MAX_SYNC_BUTTONS :: nat where "MAX_SYNC_BUTTONS = 5"

definition check_state :: "input_state \<Rightarrow> string option" where
  "check_state state =
     (if length (st_pressed_keys state) > MAX_SYNC_KEYS then Some ''too many keys''
      else if length (st_pressed_buttons state) > MAX_SYNC_BUTTONS then Some ''too many buttons''
      else if card (set (st_pressed_keys state)) \<noteq> length (st_pressed_keys state)
      then Some ''state synchronization contains duplicate keys''
      else if card (set (st_pressed_buttons state)) \<noteq> length (st_pressed_buttons state)
      then Some ''state synchronization contains duplicate buttons''
      else None)"

section \<open>A key on Windows\<close>

record keybd_input =
  kb_key :: "u16 \<times> u16 \<times> bool"
  kb_pressed :: bool

definition key_inputs_for :: "u16 \<times> u16 \<times> bool \<Rightarrow> bool \<Rightarrow> bool \<Rightarrow> keybd_input list" where
  "key_inputs_for key pressed held =
     (if pressed \<and> held
      then [\<lparr>kb_key = key, kb_pressed = False\<rparr>, \<lparr>kb_key = key, kb_pressed = True\<rparr>]
      else [\<lparr>kb_key = key, kb_pressed = pressed\<rparr>])"

text \<open>The key arm of \<open>Win32Injector::send\<close>, with the keys it holds.\<close>

definition windows_send_key ::
  "bool \<Rightarrow> key_event \<Rightarrow> hid_usage set \<Rightarrow> hid_usage set \<times> (string + keybd_input list)" where
  "windows_send_key io key pressed_keys =
     (case windows_key (ke_usage key) of
        None \<Rightarrow> (pressed_keys, Inl ''unsupported USB HID keyboard usage'')
      | Some k \<Rightarrow>
          if io then
            (if ke_pressed key then insert (ke_usage key) pressed_keys else pressed_keys - {ke_usage key},
             Inr (key_inputs_for k (ke_pressed key) (ke_usage key \<in> pressed_keys)))
          else (pressed_keys, Inl ''SendInput failed''))"

end
