(* ===== verification/InjectorRuns.thy ===== *)
theory InjectorRuns
  imports Injector CaptureRuns KeyRuns
begin

text \<open>
  What the controlled machine's kernel sees of an injection: the keys and buttons its virtual
  devices hold down are always those the injector has on record, so a release of everything
  leaves none behind, and the keys the user holds are the keys that are held.
\<close>

section \<open>The kernel's view\<close>

text \<open>What a report does to the codes a device holds down.\<close>

fun kernel_event :: "device \<Rightarrow> evdev \<Rightarrow> (device \<times> u16) set \<Rightarrow> (device \<times> u16) set" where
  "kernel_event d (kind, code, v) down =
     (if kind = EV_KEY then if v \<noteq> 0 then insert (d, code) down else down - {(d, code)} else down)"

fun kernel_report :: "report \<Rightarrow> (device \<times> u16) set \<Rightarrow> (device \<times> u16) set" where
  "kernel_report (d, events) down = fold (kernel_event d) events down"

definition kernel_after :: "report list \<Rightarrow> (device \<times> u16) set \<Rightarrow> (device \<times> u16) set" where
  "kernel_after reports down = fold kernel_report reports down"

definition on_record :: "uinput_device \<Rightarrow> (device \<times> u16) set" where
  "on_record u = Pair Keyboard ` ui_pressed_keys u \<union> Pair Mouse ` ui_pressed_buttons u"

lemma kernel_after_simps [simp]:
  "kernel_after [] down = down"
  "kernel_after (r # rs) down = kernel_after rs (kernel_report r down)"
  "kernel_after (rs @ qs) down = kernel_after qs (kernel_after rs down)"
  by (simp_all add: kernel_after_def)

lemma key_kinds [simp]: "EV_REL \<noteq> EV_KEY"
  by (simp add: EV_REL_def EV_KEY_def)

text \<open>Motion and scrolling press nothing.\<close>

lemma rel_events:
  "list_all (\<lambda>(kind, code, v). kind = EV_REL) events \<Longrightarrow> kernel_report (d, events) down = down"
  by (induction events arbitrary: down) auto

lemma emit_rel:
  assumes "emit io d events = Inr out" "list_all (\<lambda>(kind, code, v). kind = EV_REL) events"
  shows "kernel_after out down = down"
proof -
  from assms(1) have "out = [] \<or> out = [(d, events)]" by (simp add: emit_def split: if_splits)
  with rel_events [OF assms(2), of d down] show ?thesis by (elim disjE) (simp_all del: kernel_report.simps)
qed

lemma wheel_events:
  "list_all (\<lambda>(kind, code, v). kind = EV_REL) (wheel_axis a b whole delta)"
  "list_all (\<lambda>(kind, code, v). kind = EV_REL) (detent_axis a b n)"
  by (simp_all add: wheel_axis_def detent_axis_def)

lemma emit_key:
  "emit io d [(EV_KEY, code, v)] = Inr out
     \<Longrightarrow> kernel_after out down = (if v \<noteq> 0 then insert (d, code) down else down - {(d, code)})"
  by (auto simp: emit_def split: if_splits)

lemma on_record_updates:
  "on_record (u\<lparr>ui_pressed_buttons := insert c (ui_pressed_buttons u)\<rparr>) = insert (Mouse, c) (on_record u)"
  "on_record (u\<lparr>ui_pressed_buttons := ui_pressed_buttons u - {c}\<rparr>) = on_record u - {(Mouse, c)}"
  "on_record (u\<lparr>ui_pressed_keys := insert c (ui_pressed_keys u)\<rparr>) = insert (Keyboard, c) (on_record u)"
  "on_record (u\<lparr>ui_pressed_keys := ui_pressed_keys u - {c}\<rparr>) = on_record u - {(Keyboard, c)}"
  "on_record (u\<lparr>ui_wheel_debt_y := a, ui_wheel_debt_x := b\<rparr>) = on_record u"
  by (auto simp: on_record_def)

lemma inject_event_kernel:
  assumes "inject_event io event u = (u', result)"
  shows "case result of Inl e \<Rightarrow> on_record u' = on_record u
    | Inr out \<Rightarrow> kernel_after out (on_record u) = on_record u'"
proof (cases event)
  case (MouseMove dx dy)
  have "list_all (\<lambda>(kind, code, v). kind = EV_REL) ((if dx \<noteq> 0 then [(EV_REL, REL_X, dx)] else [])
      @ (if dy \<noteq> 0 then [(EV_REL, REL_Y, dy)] else []))" by simp
  with assms emit_rel [OF _ this] show ?thesis
    by (auto simp: inject_event_def MouseMove split: sum.split)
next
  case (MouseButton button pressed)
  with assms emit_key [of io Mouse "button_code button"] show ?thesis
    by (auto simp: inject_event_def on_record_updates split: sum.splits if_splits)
next
  case (Wheel delta)
  have "list_all (\<lambda>(kind, code, v). kind = EV_REL) (detent_axis REL_WHEEL REL_WHEEL_HI_RES (wd_y delta)
      @ detent_axis REL_HWHEEL REL_HWHEEL_HI_RES (wd_x delta))" by (simp add: wheel_events)
  with assms emit_rel [OF _ this] show ?thesis
    by (auto simp: inject_event_def Wheel split: sum.split)
next
  case (SmoothWheel x y)
  have "list_all (\<lambda>(kind, code, v). kind = EV_REL) (wheel_axis REL_WHEEL REL_WHEEL_HI_RES a y
      @ wheel_axis REL_HWHEEL REL_HWHEEL_HI_RES b x)" for a b by (simp add: wheel_events)
  with assms emit_rel [OF _ this] show ?thesis
    by (auto simp: inject_event_def SmoothWheel on_record_updates split: sum.split prod.splits)
next
  case (Key key)
  show ?thesis
  proof (cases "hid_to_evdev (ke_usage key)")
    case None
    with assms Key show ?thesis by (auto simp: inject_event_def)
  next
    case (Some code)
    show ?thesis
    proof (cases "ke_pressed key \<and> code \<in> ui_pressed_keys u")
      case True
      with assms Key Some show ?thesis by (auto simp: inject_event_def)
    next
      case False
      with assms Key Some emit_key [of io Keyboard code] show ?thesis
        by (auto simp: inject_event_def on_record_updates split: sum.splits if_splits)
    qed
  qed
qed (use assms in \<open>auto simp: inject_event_def\<close>)

text \<open>
  The record is the truth. Whatever is injected, whether the writes succeed or not, the keys
  and buttons the kernel has down on the virtual devices are the ones the injector has on record.
\<close>

theorem record_is_what_the_kernel_holds:
  "case inject_event io event u of
     (u', Inl e) \<Rightarrow> on_record u' = on_record u
   | (u', Inr out) \<Rightarrow> kernel_after out (on_record u) = on_record u'"
  using inject_event_kernel [of io event u] by (auto split: prod.split sum.split)

section \<open>Releasing everything\<close>

lemma try_releases_kernel:
  assumes "try_releases io codes = (out, e)"
  shows "kernel_after out down = down - {c \<in> set codes. io c}" and "e = None \<longleftrightarrow> list_all io codes"
  using assms
proof (induction codes arbitrary: out e down)
  case (Cons c codes)
  obtain d code where c: "c = (d, code)" by force
  obtain out1 e1 where rest: "try_releases io codes = (out1, e1)" by force
  {
    case 1
    with Cons.IH(1) [OF rest] rest show ?case
      by (auto simp: c emit_def EV_KEY_def split: if_splits)
  next
    case 2
    with Cons.IH(2) [OF rest] rest show ?case
      by (auto simp: c emit_def split: if_splits)
  }
qed simp_all

text \<open>
  Releasing everything reaches every key. Each held key and button is released although an
  earlier release failed; exactly those whose write failed stay down, an error tells, and nothing
  stays on record.
\<close>

theorem release_reaches_every_key:
  assumes "finite (ui_pressed_keys u)" "finite (ui_pressed_buttons u)"
    and "release_all io u = (u', out, e)"
  shows "kernel_after out (on_record u) = {c \<in> on_record u. \<not> io c}
    \<and> (e = None \<longleftrightarrow> (\<forall>c \<in> on_record u. io c))
    \<and> on_record u' = {}"
proof -
  define codes where "codes = map (Pair Keyboard) (sorted_list_of_set (ui_pressed_keys u))
    @ map (Pair Mouse) (sorted_list_of_set (ui_pressed_buttons u))"
  have all: "set codes = on_record u" using assms(1,2) by (simp add: codes_def on_record_def)
  obtain out1 e1 where run: "try_releases io codes = (out1, e1)" by force
  with assms(3) have same: "u' = u\<lparr>ui_pressed_keys := {}, ui_pressed_buttons := {}\<rparr>" "out = out1" "e = e1"
    by (simp_all add: release_all_def codes_def)
  from try_releases_kernel [OF run] all show ?thesis
    unfolding same by (auto simp: on_record_def list_all_iff)
qed

lemma release_reaches_every_key_witness:
  "case release_all (\<lambda>c. c = (Mouse, 272)) \<lparr>ui_pressed_keys = {30}, ui_pressed_buttons = {272}, ui_wheel_debt_x = 0,
      ui_wheel_debt_y = 0\<rparr> of
     (u', out, e) \<Rightarrow> kernel_after out {(Keyboard, 30), (Mouse, 272)} = {(Keyboard, 30)} \<and> e \<noteq> None"
proof -
  define u where "u = \<lparr>ui_pressed_keys = {30 :: u16}, ui_pressed_buttons = {272}, ui_wheel_debt_x = 0, ui_wheel_debt_y = 0\<rparr>"
  define io where "io = (\<lambda>c. c = (Mouse, 272 :: u16))"
  obtain u' out e where run: "release_all io u = (u', out, e)" by (metis prod_cases3)
  have "on_record u = {(Keyboard, 30), (Mouse, 272)}" by (auto simp: u_def on_record_def)
  with release_reaches_every_key [OF _ _ run] run show ?thesis
    by (auto simp: u_def io_def)
qed

section \<open>Restoring a state\<close>

lemma inject_all_kernel:
  assumes "inject_all io events u = (u', Inr out)"
  shows "kernel_after out (on_record u) = on_record u'"
  using assms
proof (induction events arbitrary: u out)
  case (Cons event events)
  obtain u1 out1 where step: "inject_event io event u = (u1, Inr out1)"
    using Cons.prems by (auto split: prod.splits sum.splits)
  obtain out2 where rest: "inject_all io events u1 = (u', Inr out2)" "out = out1 @ out2"
    using Cons.prems step by (auto split: prod.splits sum.splits)
  from inject_event_kernel [OF step] Cons.IH [OF rest(1)] rest(2) show ?case by simp
qed simp

text \<open>The keys and buttons an event presses, as the devices know them.\<close>

definition codes_for :: "hid_usage set \<Rightarrow> mouse_button set \<Rightarrow> (device \<times> u16) set" where
  "codes_for keys buttons = {(Keyboard, code) | code. \<exists>usage \<in> keys. hid_to_evdev usage = Some code}
     \<union> {(Mouse, button_code button) | button. button \<in> buttons}"

definition supported :: "input_event \<Rightarrow> bool" where
  "supported event = (case event of Key key \<Rightarrow> hid_to_evdev (ke_usage key) \<noteq> None | _ \<Rightarrow> True)"

lemma emit_True: "emit True d events = Inr (if events = [] then [] else [(d, events)])"
  by (simp add: emit_def)

lemma inject_event_works:
  "supported event \<Longrightarrow> \<exists>u' out. inject_event True event u = (u', Inr out)"
  by (cases event) (auto simp: inject_event_def supported_def emit_True split: option.splits prod.splits if_splits)

lemma inject_all_works:
  "list_all supported events \<Longrightarrow> \<exists>u' out. inject_all True events u = (u', Inr out)"
proof (induction events arbitrary: u)
  case (Cons event events)
  obtain u1 out1 where "inject_event True event u = (u1, Inr out1)"
    using inject_event_works [of event u] Cons.prems by auto
  with Cons.IH [of u1] Cons.prems show ?case by auto
qed simp

text \<open>
  Four locking usages share a code with another key. No capture reports them; without them a
  code comes from one usage.
\<close>

definition locking :: "hid_usage set" where "locking = {0x82, 0x83, 0x84, 0x86}"

definition code_usage :: "int \<Rightarrow> int option" where
  "code_usage c = (if c = 127 then Some 0x65 else if c = 353 then Some 0x77 else from_evdev_arms c)"

definition one_code :: "int \<Rightarrow> bool" where
  "one_code x = (case to_evdev_arms x of None \<Rightarrow> True
     | Some c \<Rightarrow> 0 \<le> c \<and> c \<le> 400 \<and> (x \<in> {0x82, 0x83, 0x84, 0x86} \<or> code_usage c = Some x))"

lemma code_table: "list_all one_code [0..255]"
  by code_simp

lemma to_evdev_small: "to_evdev_arms x = Some c \<Longrightarrow> x \<in> set [0..255]"
  by (auto simp: to_evdev_arms_def dest!: map_of_SomeD split: if_splits)

lemma code_of_usage:
  assumes "hid_to_evdev usage = Some code" "usage \<notin> locking"
  shows "code_usage (uint code) = Some (uint usage)"
proof -
  from assms(1) obtain c where c: "to_evdev_arms (uint usage) = Some c" "code = word_of_int c"
    by (auto simp: hid_to_evdev_def)
  have "one_code (uint usage)" by (rule by_table [OF code_table to_evdev_small [OF c(1)]])
  moreover have "uint usage \<notin> {0x82, 0x83, 0x84, 0x86}"
    using assms(2) by (auto simp: locking_def word_uint_eq_iff)
  ultimately have "0 \<le> c" "c \<le> 400" "code_usage c = Some (uint usage)"
    using c(1) by (simp_all add: one_code_def)
  then show ?thesis by (simp add: c(2) uint_word_of_int)
qed

lemma one_usage:
  "hid_to_evdev a = Some code \<Longrightarrow> hid_to_evdev b = Some code \<Longrightarrow> a \<notin> locking \<Longrightarrow> b \<notin> locking \<Longrightarrow> a = b"
  using code_of_usage [of a code] code_of_usage [of b code] by (simp add: word_uint_eq_iff)

lemma button_code_inj: "button_code a = button_code b \<Longrightarrow> a = b"
  by (cases a; cases b; simp)

definition linux_event :: "input_event \<Rightarrow> bool" where
  "linux_event event = (case event of Key key \<Rightarrow> hid_to_evdev (ke_usage key) \<noteq> None \<and> ke_usage key \<notin> locking | _ \<Rightarrow> True)"

lemma linux_supported: "linux_event event \<Longrightarrow> supported event"
  by (auto simp: linux_event_def supported_def split: input_event.splits)

lemma codes_for_updates:
  "hid_to_evdev usage = Some code \<Longrightarrow> codes_for (insert usage K) B = insert (Keyboard, code) (codes_for K B)"
  "hid_to_evdev usage = Some code \<Longrightarrow> usage \<notin> locking \<Longrightarrow> K \<inter> locking = {}
     \<Longrightarrow> codes_for (K - {usage}) B = codes_for K B - {(Keyboard, code)}"
  "codes_for K (insert button B) = insert (Mouse, button_code button) (codes_for K B)"
  "codes_for K (B - {button}) = codes_for K B - {(Mouse, button_code button)}"
proof -
  show "hid_to_evdev usage = Some code \<Longrightarrow> codes_for (insert usage K) B = insert (Keyboard, code) (codes_for K B)"
    by (auto simp: codes_for_def)
  show "codes_for (K - {usage}) B = codes_for K B - {(Keyboard, code)}"
    if code: "hid_to_evdev usage = Some code" "usage \<notin> locking" "K \<inter> locking = {}"
  proof -
    have "a = usage" if "a \<in> K" "hid_to_evdev a = Some code" for a
      using one_usage [OF that(2) code(1)] that(1) code(2,3) by blast
    moreover have "(\<exists>a \<in> K - {usage}. hid_to_evdev a = Some c) \<longleftrightarrow> (\<exists>a \<in> K. hid_to_evdev a = Some c) \<and> c \<noteq> code" for c
      using calculation code(1) by (metis Diff_iff option.inject singletonD singletonI)
    ultimately show ?thesis by (auto simp: codes_for_def)
  qed
  show "codes_for K (insert button B) = insert (Mouse, button_code button) (codes_for K B)"
    "codes_for K (B - {button}) = codes_for K B - {(Mouse, button_code button)}"
    by (auto simp: codes_for_def dest: button_code_inj)
qed

text \<open>One event: the devices hold what the held keys and buttons are.\<close>

lemma inject_follows:
  assumes "inject_event True event u = (u', Inr out)" "linux_event event"
    and "on_record u = codes_for K B" "K \<inter> locking = {}"
  shows "on_record u' = codes_for (replay_key event K) (replay_button event B)"
    and "replay_key event K \<inter> locking = {}"
proof -
  show "replay_key event K \<inter> locking = {}"
    using assms(2,4) by (cases event) (auto simp: linux_event_def)
  show "on_record u' = codes_for (replay_key event K) (replay_button event B)"
  proof (cases event)
    case (Key key)
    with assms(2) obtain code where code: "hid_to_evdev (ke_usage key) = Some code" and plain: "ke_usage key \<notin> locking"
      by (auto simp: linux_event_def)
    have recorded: "code \<in> ui_pressed_keys u \<longleftrightarrow> (Keyboard, code) \<in> codes_for K B"
      using assms(3) by (auto simp: on_record_def set_eq_iff)
    show ?thesis
    proof (cases "ke_pressed key")
      case True
      have "u' = (if code \<in> ui_pressed_keys u then u else u\<lparr>ui_pressed_keys := insert code (ui_pressed_keys u)\<rparr>)"
        using assms(1) True code by (simp add: Key inject_event_def emit_True split: if_splits)
      then have "on_record u' = insert (Keyboard, code) (codes_for K B)"
        using recorded by (simp add: on_record_updates assms(3) insert_absorb)
      with True code show ?thesis by (simp add: Key codes_for_updates(1))
    next
      case False
      have "u' = u\<lparr>ui_pressed_keys := ui_pressed_keys u - {code}\<rparr>"
        using assms(1) False code by (simp add: Key inject_event_def emit_True)
      with False codes_for_updates(2) [OF code plain assms(4)] show ?thesis
        by (simp add: Key on_record_updates assms(3))
    qed
  next
    case (MouseButton button pressed)
    have "u' = u\<lparr>ui_pressed_buttons := (if pressed then insert (button_code button) (ui_pressed_buttons u)
        else ui_pressed_buttons u - {button_code button})\<rparr>"
      using assms(1) by (simp add: MouseButton inject_event_def emit_True split: if_splits)
    then show ?thesis
      by (simp add: MouseButton on_record_updates assms(3) codes_for_updates(3,4) split: if_split)
  next
    case (SmoothWheel x y)
    obtain a b where "u' = u\<lparr>ui_wheel_debt_y := a, ui_wheel_debt_x := b\<rparr>"
      using assms(1) by (auto simp: SmoothWheel inject_event_def split: prod.splits)
    then show ?thesis by (simp add: SmoothWheel on_record_updates assms(3))
  qed (use assms(1,3) in \<open>simp_all add: inject_event_def\<close>)
qed

lemma inject_all_follows:
  assumes "inject_all True events u = (u', Inr out)" "list_all linux_event events"
    and "on_record u = codes_for K B" "K \<inter> locking = {}"
  shows "on_record u' = codes_for (fold replay_key events K) (fold replay_button events B)"
  using assms
proof (induction events arbitrary: u out K B)
  case (Cons event events)
  obtain u1 out1 where step: "inject_event True event u = (u1, Inr out1)"
    using Cons.prems(1) by (auto split: prod.splits sum.splits)
  obtain out2 where rest: "inject_all True events u1 = (u', Inr out2)"
    using Cons.prems(1) step by (auto split: prod.splits sum.splits)
  have "linux_event event" "list_all linux_event events" using Cons.prems(2) by simp_all
  note one = inject_follows [OF step this(1) Cons.prems(3,4)] and later = this(2)
  from Cons.IH [OF rest later one] show ?case by simp
qed simp

text \<open>
  C9: the keys that are held are the keys the user holds. From the controller's keyboard to the
  kernel of the controlled Linux machine: whatever is pressed, repeated and released, at whatever
  times, every forwarded event is injected, and the codes down at the end are exactly those of
  the keys and buttons the controller has on record.
\<close>

theorem held_keys_are_held:
  fixes inputs :: "(instant \<times> input_event) list"
  assumes "record_all inputs nothing_held = (s, es)" and "list_all linux_event (map ce_event es)"
  shows "\<exists>u out. inject_all True (map ce_event es) new_device = (u, Inr out)
    \<and> kernel_after out {} = codes_for (cp_keys s) (cp_buttons s)"
proof -
  have "list_all supported (map ce_event es)"
    using assms(2) by (auto simp: list_all_iff linux_supported)
  from inject_all_works [OF this] obtain u out where run: "inject_all True (map ce_event es) new_device = (u, Inr out)"
    by blast
  have fresh: "on_record new_device = codes_for {} {}"
    by (simp add: new_device_def on_record_def codes_for_def)
  have "on_record u = codes_for (fold replay_key (map ce_event es) {}) (fold replay_button (map ce_event es) {})"
    by (rule inject_all_follows [OF run assms(2) fresh]) simp
  moreover have "kernel_after out {} = on_record u"
    using inject_all_kernel [OF run] by (simp add: fresh codes_for_def)
  moreover have "cp_keys s = fold replay_key (map ce_event es) {}" "cp_buttons s = fold replay_button (map ce_event es) {}"
    using record_all_replays [OF assms(1)] by (simp_all add: nothing_held_def)
  ultimately show ?thesis using run by auto
qed

lemma held_keys_are_held_witness:
  "\<exists>u out. inject_all True [Key \<lparr>ke_usage = 4, ke_pressed = True, ke_repeat = False\<rparr>, MouseButton BtnLeft True] new_device
      = (u, Inr out) \<and> kernel_after out {} = {(Keyboard, 30), (Mouse, 272)}"
proof -
  define inputs :: "(instant \<times> input_event) list" where
    "inputs = [(0, Key \<lparr>ke_usage = 4, ke_pressed = True, ke_repeat = False\<rparr>), (5, MouseButton BtnLeft True)]"
  have code: "hid_to_evdev 4 = Some 30" by code_simp
  obtain s es where run: "record_all inputs nothing_held = (s, es)" by force
  then have es: "map ce_event es = [Key \<lparr>ke_usage = 4, ke_pressed = True, ke_repeat = False\<rparr>, MouseButton BtnLeft True]"
    and held: "cp_keys s = {4}" "cp_buttons s = {BtnLeft}"
    by (auto simp: inputs_def nothing_held_def record_event_def record_key_def record_button_def numbered_def next_event_id_def)
  have "list_all linux_event (map ce_event es)"
    by (simp add: es linux_event_def code locking_def)
  from held_keys_are_held [OF run this] show ?thesis
    by (simp add: es held codes_for_def code insert_commute del: inject_all.simps)
qed

section \<open>Restoring a state\<close>

lemma presses_replayed:
  "fold replay_key (presses state) {} = set (st_pressed_keys state)"
  "fold replay_button (presses state) {} = set (st_pressed_buttons state)"
proof -
  have keys: "fold replay_key (map (\<lambda>usage. Key \<lparr>ke_usage = usage, ke_pressed = True, ke_repeat = False\<rparr>) xs) K = K \<union> set xs"
    and no_buttons: "fold replay_button (map (\<lambda>usage. Key \<lparr>ke_usage = usage, ke_pressed = True, ke_repeat = False\<rparr>) xs) B = B"
    for xs K B by (induction xs arbitrary: K) auto
  have buttons: "fold replay_button (map (\<lambda>button. MouseButton button True) bs) B = B \<union> set bs"
    and no_keys: "fold replay_key (map (\<lambda>button. MouseButton button True) bs) K = K"
    for bs B K by (induction bs arbitrary: B) auto
  show "fold replay_key (presses state) {} = set (st_pressed_keys state)"
    "fold replay_button (presses state) {} = set (st_pressed_buttons state)"
    by (simp_all add: presses_def keys no_buttons buttons no_keys)
qed

lemma restore_state_works:
  assumes "finite (ui_pressed_keys u)" "finite (ui_pressed_buttons u)" "list_all linux_event (presses state)"
  shows "\<exists>u' out. restore_state True state u = (u', Inr out)
    \<and> kernel_after out (on_record u) = on_record u'
    \<and> on_record u' = codes_for (set (st_pressed_keys state)) (set (st_pressed_buttons state))"
proof -
  define codes where "codes = map (Pair Keyboard) (sorted_list_of_set (ui_pressed_keys u))
    @ map (Pair Mouse) (sorted_list_of_set (ui_pressed_buttons u))"
  have all: "set codes = on_record u" using assms(1,2) by (simp add: codes_def on_record_def)
  obtain out e where run: "try_releases (\<lambda>_. True) codes = (out, e)" by force
  note released = try_releases_kernel [OF run]
  define u1 where "u1 = u\<lparr>ui_pressed_keys := {}, ui_pressed_buttons := {}\<rparr>"
  have first: "release_all (\<lambda>_. True) u = (u1, out, None)" using released(2) run
    by (simp add: release_all_def codes_def u1_def list_all_iff)
  have clear: "on_record u1 = codes_for {} {}" by (simp add: u1_def on_record_def codes_for_def)
  have "list_all supported (presses state)"
    using assms(3) by (auto simp: list_all_iff linux_supported)
  from inject_all_works [OF this, of u1] obtain u' out2 where second: "inject_all True (presses state) u1 = (u', Inr out2)"
    by blast
  have "on_record u' = codes_for (set (st_pressed_keys state)) (set (st_pressed_buttons state))"
    using inject_all_follows [OF second assms(3) clear] by (simp add: presses_replayed)
  moreover have "kernel_after (out @ out2) (on_record u) = on_record u'"
    using released(1) [of "on_record u"] inject_all_kernel [OF second] clear
    by (simp add: all codes_for_def)
  moreover have "restore_state True state u = (u', Inr (out @ out2))"
    by (simp add: restore_state_def first second)
  ultimately show ?thesis by blast
qed

text \<open>
  A synchronised state is exactly the state. Whatever was held before, afterwards the kernel
  has down exactly the keys and buttons the controller listed.
\<close>

theorem restored_exactly:
  assumes "finite (ui_pressed_keys u)" "finite (ui_pressed_buttons u)" "list_all linux_event (presses state)"
  shows "case restore_state True state u of
      (u', Inr out) \<Rightarrow> kernel_after out (on_record u)
          = codes_for (set (st_pressed_keys state)) (set (st_pressed_buttons state))
        \<and> on_record u' = codes_for (set (st_pressed_keys state)) (set (st_pressed_buttons state))
    | (u', Inl e) \<Rightarrow> False"
  using restore_state_works [OF assms] by auto

lemma restored_exactly_witness:
  "case restore_state True \<lparr>st_pressed_keys = [4], st_pressed_buttons = []\<rparr>
      \<lparr>ui_pressed_keys = {42}, ui_pressed_buttons = {272}, ui_wheel_debt_x = 0, ui_wheel_debt_y = 0\<rparr> of
     (u', Inr out) \<Rightarrow> kernel_after out {(Keyboard, 42), (Mouse, 272)} = {(Keyboard, 30)}
   | (u', Inl e) \<Rightarrow> False"
proof -
  define u where "u = \<lparr>ui_pressed_keys = {42 :: u16}, ui_pressed_buttons = {272}, ui_wheel_debt_x = 0, ui_wheel_debt_y = 0\<rparr>"
  define state where "state = \<lparr>st_pressed_keys = [4 :: hid_usage], st_pressed_buttons = []\<rparr>"
  have code: "hid_to_evdev 4 = Some 30" by code_simp
  have "list_all linux_event (presses state)" by (simp add: state_def presses_def linux_event_def code locking_def)
  moreover have "on_record u = {(Keyboard, 42), (Mouse, 272)}" by (auto simp: u_def on_record_def)
  moreover have "codes_for (set (st_pressed_keys state)) (set (st_pressed_buttons state)) = {(Keyboard, 30)}"
    by (simp add: state_def codes_for_def code)
  ultimately show ?thesis using restored_exactly [of u state]
    by (auto simp: u_def state_def split: prod.splits sum.splits)
qed

end
