(* ===== verification/KeyHandover.thy ===== *)
theory KeyHandover
  imports CaptureRuns
begin

text \<open>
  Held keys and buttons across the opening of a drive: the peer first gets the held state, then
  the captured events that pass the barrier. Replayed twice, dropped or late, they never leave
  the peer with a key down that the user does not hold.
\<close>

section \<open>Controls that events hold and let go\<close>

text \<open>
  A kind of control: an event sets some and clears some, and a release sets none. Replaying is
  then monotone, and replaying the same events once more changes nothing.
\<close>

locale held_controls =
  fixes replay :: "input_event \<Rightarrow> 'a set \<Rightarrow> 'a set"
    and sets :: "input_event \<Rightarrow> 'a set"
    and clears :: "input_event \<Rightarrow> 'a set"
  assumes replay_step: "replay e K = (K - clears e) \<union> sets e"
    and release_sets_none: "is_release e \<Longrightarrow> sets e = {}"
begin

lemma replay_form: "\<exists>A B. \<forall>K. fold replay es K = (K \<inter> B) \<union> A"
proof (induction es)
  case Nil
  have "\<forall>K. fold replay [] K = (K \<inter> UNIV) \<union> {}" by simp
  then show ?case by blast
next
  case (Cons e es)
  then obtain A B where "fold replay es K = (K \<inter> B) \<union> A" for K by blast
  then have "fold replay (e # es) K = (K \<inter> (B - clears e)) \<union> ((sets e \<inter> B) \<union> A)" for K
    by (auto simp: replay_step)
  then show ?case by blast
qed

lemma replay_mono: "K \<subseteq> L \<Longrightarrow> fold replay es K \<subseteq> fold replay es L"
  using replay_form [of es] by auto

lemma replay_again: "fold replay es (fold replay es K) = fold replay es K"
  using replay_form [of es] by auto

lemma releases_shrink: "list_all is_release es \<Longrightarrow> fold replay es K \<subseteq> K"
  by (induction es arbitrary: K) (fastforce simp: replay_step release_sets_none)+

lemma releases_of_others:
  "list_all (\<lambda>e. is_release e \<and> clears e \<inter> K = {}) es \<Longrightarrow> fold replay es K = K"
  by (induction es) (auto simp: replay_step release_sets_none Diff_triv Int_commute)

text \<open>
  \<open>mid\<close> is replayed twice, once in the state the peer starts from and once after it, and of the
  events before it only some releases come late.
\<close>

lemma late_replay:
  assumes "list_all is_release late"
  shows "fold replay (late @ mid @ later) (fold replay (before @ mid) K) \<subseteq> fold replay (before @ mid @ later) K"
proof -
  have "fold replay late (fold replay (before @ mid) K) \<subseteq> fold replay (before @ mid) K"
    by (rule releases_shrink [OF assms])
  then have "fold replay (mid @ later) (fold replay late (fold replay (before @ mid) K))
      \<subseteq> fold replay (mid @ later) (fold replay (before @ mid) K)" by (rule replay_mono)
  also have "\<dots> = fold replay (before @ mid @ later) K"
    by (simp add: replay_again)
  finally show ?thesis by simp
qed

lemma harmless_replay:
  assumes "list_all (\<lambda>e. is_release e \<and> clears e \<inter> fold replay (before @ mid) K = {}) late"
  shows "fold replay (late @ mid @ later) (fold replay (before @ mid) K) = fold replay (before @ mid @ later) K"
proof -
  have "fold replay late (fold replay (before @ mid) K) = fold replay (before @ mid) K"
    by (rule releases_of_others [OF assms])
  then show ?thesis by (simp add: replay_again)
qed

end

definition keys_set :: "input_event \<Rightarrow> hid_usage set" where
  "keys_set event = (case event of Key key \<Rightarrow> if ke_pressed key then {ke_usage key} else {} | _ \<Rightarrow> {})"

definition keys_cleared :: "input_event \<Rightarrow> hid_usage set" where
  "keys_cleared event = (case event of Key key \<Rightarrow> if ke_pressed key then {} else {ke_usage key} | _ \<Rightarrow> {})"

definition buttons_set :: "input_event \<Rightarrow> mouse_button set" where
  "buttons_set event = (case event of MouseButton button pressed \<Rightarrow> if pressed then {button} else {} | _ \<Rightarrow> {})"

definition buttons_cleared :: "input_event \<Rightarrow> mouse_button set" where
  "buttons_cleared event = (case event of MouseButton button pressed \<Rightarrow> if pressed then {} else {button} | _ \<Rightarrow> {})"

interpretation keys: held_controls replay_key keys_set keys_cleared
proof
  show "replay_key e K = K - keys_cleared e \<union> keys_set e" for e K
    by (cases e) (auto simp: keys_set_def keys_cleared_def)
  show "keys_set e = {}" if "is_release e" for e
    using that by (cases e) (auto simp: keys_set_def)
qed

interpretation buttons: held_controls replay_button buttons_set buttons_cleared
proof
  show "replay_button e K = K - buttons_cleared e \<union> buttons_set e" for e K
    by (cases e) (auto simp: buttons_set_def buttons_cleared_def)
  show "buttons_set e = {}" if "is_release e" for e
    using that by (cases e) (auto simp: buttons_set_def)
qed

section \<open>Opening a drive\<close>

text \<open>What of the queued events passes the barrier of the drive.\<close>

definition passing :: "u64 \<Rightarrow> u64 \<Rightarrow> captured_event list \<Rightarrow> captured_event list" where
  "passing discarded barrier es =
     filter (\<lambda>e. event_passes_barrier (ce_event_id e) discarded (Some barrier) (is_release (ce_event e))) es"

lemma passing_append [simp]:
  "passing discarded barrier (es @ ds) = passing discarded barrier es @ passing discarded barrier ds"
  by (simp add: passing_def)

lemma passing_old:
  "list_all (\<lambda>e. ce_event_id e \<le> barrier) es
     \<Longrightarrow> map ce_event (passing discarded barrier es) = filter is_release (map ce_event es)"
  by (induction es) (auto simp: passing_def event_passes_barrier_def)

lemma passing_new:
  "list_all (\<lambda>e. barrier < ce_event_id e) es \<Longrightarrow> discarded \<le> barrier \<Longrightarrow> passing discarded barrier es = es"
  by (induction es) (auto simp: passing_def event_passes_barrier_def)

text \<open>
  C10: no key sticks. The peer starts with what is held when the drive opens; \<open>handled\<close> was routed
  before, \<open>old\<close> was captured before the event that opened the drive but is still queued, \<open>mid\<close>
  was captured while it opened, \<open>later\<close> afterwards. Whatever of it passes the barrier, at the
  end the peer holds no key and no button that the user does not hold; and it holds
  them all, unless a release among \<open>old\<close> is for a control that is down again.
\<close>

theorem no_key_sticks:
  fixes inputs more_inputs :: "(instant \<times> input_event) list"
  assumes "record_all inputs nothing_held = (s1, handled @ old @ mid)"
    and "record_all more_inputs s1 = (s2, later)"
    and "list_all (\<lambda>e. ce_event_id e \<le> barrier) old"
    and "list_all (\<lambda>e. barrier < ce_event_id e) (mid @ later)" "discarded \<le> barrier"
  shows "fold replay_key (map ce_event (passing discarded barrier (old @ mid @ later))) (cp_keys s1) \<subseteq> cp_keys s2
    \<and> fold replay_button (map ce_event (passing discarded barrier (old @ mid @ later))) (cp_buttons s1) \<subseteq> cp_buttons s2
    \<and> (list_all (\<lambda>e. is_release (ce_event e) \<longrightarrow>
           keys_cleared (ce_event e) \<inter> cp_keys s1 = {} \<and> buttons_cleared (ce_event e) \<inter> cp_buttons s1 = {}) old
       \<longrightarrow> fold replay_key (map ce_event (passing discarded barrier (old @ mid @ later))) (cp_keys s1) = cp_keys s2
         \<and> fold replay_button (map ce_event (passing discarded barrier (old @ mid @ later))) (cp_buttons s1) = cp_buttons s2)"
proof -
  define late where "late = filter is_release (map ce_event old)"
  define m l b where "m = map ce_event mid" and "l = map ce_event later" and "b = map ce_event (handled @ old)"
  have arrived: "map ce_event (passing discarded barrier (old @ mid @ later)) = late @ m @ l"
    using assms(4,5) passing_new [of barrier mid] passing_new [of barrier later]
    by (simp add: passing_old [OF assms(3)] late_def m_def l_def)
  have s1: "cp_keys s1 = fold replay_key (b @ m) {}" "cp_buttons s1 = fold replay_button (b @ m) {}"
    using record_all_replays [OF assms(1)] by (simp_all add: b_def m_def nothing_held_def)
  have s2: "cp_keys s2 = fold replay_key (b @ m @ l) {}" "cp_buttons s2 = fold replay_button (b @ m @ l) {}"
    using record_all_replays [OF assms(2)] s1 by (simp_all add: l_def)
  have releases: "list_all is_release late" by (simp add: late_def list_all_iff)
  have harmless: "list_all (\<lambda>e. is_release e \<and> keys_cleared e \<inter> cp_keys s1 = {}) late
      \<and> list_all (\<lambda>e. is_release e \<and> buttons_cleared e \<inter> cp_buttons s1 = {}) late"
    if "list_all (\<lambda>e. is_release (ce_event e) \<longrightarrow> keys_cleared (ce_event e) \<inter> cp_keys s1 = {}
        \<and> buttons_cleared (ce_event e) \<inter> cp_buttons s1 = {}) old"
    using that by (auto simp: late_def list_all_iff)
  show ?thesis
    unfolding arrived
    using keys.late_replay [OF releases, of m l b "{}"] buttons.late_replay [OF releases, of m l b "{}"]
      keys.harmless_replay [of b m "{}" late l] buttons.harmless_replay [of b m "{}" late l] harmless
    unfolding s1 [symmetric] s2 [symmetric] by blast
qed

lemma no_key_sticks_witness:
  "\<exists>s2 later. record_all [(9, Key \<lparr>ke_usage = 5, ke_pressed = True, ke_repeat = False\<rparr>)]
      (fst (record_all [(0, Key \<lparr>ke_usage = 4, ke_pressed = True, ke_repeat = False\<rparr>), (5, MouseMove 3 0)] nothing_held))
    = (s2, later)
    \<and> cp_keys s2 = {4, 5}
    \<and> fold replay_key (map ce_event (passing 0 2 later)) {4} = cp_keys s2"
proof -
  define inputs more_inputs :: "(instant \<times> input_event) list" where
    "inputs = [(0, Key \<lparr>ke_usage = 4, ke_pressed = True, ke_repeat = False\<rparr>), (5, MouseMove 3 0)]"
    and "more_inputs = [(9, Key \<lparr>ke_usage = 5, ke_pressed = True, ke_repeat = False\<rparr>)]"
  obtain s1 es where run1: "record_all inputs nothing_held = (s1, es)" by force
  then have s1: "cp_keys s1 = {4}" "cp_last_event_id s1 = 2"
    by (auto simp: inputs_def nothing_held_def record_event_def record_key_def numbered_def next_event_id_def)
  obtain s2 later where run2: "record_all more_inputs s1 = (s2, later)" by force
  have fresh: "\<not> (5 :: hid_usage) \<in> cp_keys s1" by (simp add: s1)
  from run2 have "later = [\<lparr>ce_event = Key \<lparr>ke_usage = 5, ke_pressed = True, ke_repeat = False\<rparr>, ce_event_id = 3\<rparr>]"
    "cp_keys s2 = insert 5 {4}"
    by (auto simp: more_inputs_def record_event_def record_key_def numbered_def next_event_id_def fresh s1)
  then have later: "map ce_event_id later = [3]" "cp_keys s2 = {4, 5}"
    by (simp_all add: insert_commute)
  then have "list_all (\<lambda>e. 2 < ce_event_id e) later" by (cases later) auto
  then have barred: "list_all (\<lambda>e. 2 < ce_event_id e) ([] @ later)" by simp
  have "fold replay_key (map ce_event (passing 0 2 ([] @ [] @ later))) (cp_keys s1) = cp_keys s2"
    using no_key_sticks [OF _ run2 _ barred, of inputs es "[]" 0] run1 by simp
  then have "fold replay_key (map ce_event (passing 0 2 later)) {4} = cp_keys s2" using s1 by simp
  with run1 run2 later show ?thesis by (simp add: inputs_def more_inputs_def)
qed

end
