(* ===== verification/WireGeometry.thy ===== *)
theory WireGeometry
  imports RouterSafety Config Wire
begin

text \<open>
  How a position on one machine's screen becomes a position on another's, from
  \<^verbatim>\<open>kvm-daemon/src/service.rs\<close>: which size of the own screen is believed, and the mapping of an
  entry point into the geometry the peer reports. What the platform measures is an argument.
\<close>

section \<open>The size of the own screen\<close>

definition screen_geometry_for :: "layout \<Rightarrow> screen_id \<Rightarrow> screen_geometry option" where
  "screen_geometry_for l sid =
     map_option (\<lambda>scr. \<lparr>sg_screen_id = screen_number sid, sg_width = scr_width scr, sg_height = scr_height scr\<rparr>)
       (screen_by_id l sid)"

definition local_screen_geometry :: "layout \<Rightarrow> screen_geometry option" where
  "local_screen_geometry l = Option.bind (ly_self l) (screen_geometry_for l)"

text \<open>Evidence from best to worst: the session's, the platform's, the configuration's.\<close>

definition pick_geometry ::
  "u32 \<Rightarrow> (u32 \<times> u32) option \<Rightarrow> (u32 \<times> u32) option \<Rightarrow> screen_geometry option \<Rightarrow> screen_geometry option" where
  "pick_geometry sid sidecar measured configured =
     (case sidecar of
        Some (width, height) \<Rightarrow> Some \<lparr>sg_screen_id = sid, sg_width = width, sg_height = height\<rparr>
      | None \<Rightarrow>
          (case measured of
             Some (width, height) \<Rightarrow>
               if width \<noteq> 0 \<and> height \<noteq> 0
               then Some \<lparr>sg_screen_id = sid, sg_width = width, sg_height = height\<rparr> else configured
           | None \<Rightarrow> configured))"

text \<open>Not on Windows, where a helper's answer comes first.\<close>

definition truthful_local_geometry ::
  "(u32 \<times> u32) option \<Rightarrow> (u32 \<times> u32) option \<Rightarrow> layout \<Rightarrow> screen_geometry option" where
  "truthful_local_geometry sidecar measured l =
     (case (case ly_self l of Some sid \<Rightarrow> Some sid
            | None \<Rightarrow> (case ly_screens l of [] \<Rightarrow> None | scr # _ \<Rightarrow> Some (scr_id scr))) of
        None \<Rightarrow> None
      | Some sid \<Rightarrow>
          pick_geometry (screen_number sid) sidecar
            (case measured of
               Some (width, height) \<Rightarrow> if width \<noteq> 0 \<and> height \<noteq> 0 then Some (width, height) else None
             | None \<Rightarrow> None)
            (local_screen_geometry l))"

definition apply_truthful_self_geometry :: "screen_geometry option \<Rightarrow> layout \<Rightarrow> layout" where
  "apply_truthful_self_geometry truth_geometry l =
     (case truth_geometry of
        None \<Rightarrow> l
      | Some g \<Rightarrow>
          if sg_width g < 2 \<or> sg_height g < 2 then l
          else l\<lparr>ly_screens := update_first (\<lambda>scr. screen_number (scr_id scr) = sg_screen_id g)
                 (\<lambda>scr. scr\<lparr>scr_width := sg_width g, scr_height := sg_height g\<rparr>) (ly_screens l)\<rparr>)"

section \<open>Positions on the wire\<close>

definition scale_coordinate :: "u32 \<Rightarrow> u32 \<Rightarrow> u32 \<Rightarrow> u32" where
  "scale_coordinate value source_span target_span =
     (if source_span \<le> 1 \<or> target_span \<le> 1 then 0
      else ucast ((ucast (min value (source_span - 1)) :: u64) * ucast (target_span - 1)
                  div ucast (source_span - 1)))"

definition remap_position ::
  "u32 \<Rightarrow> u32 \<Rightarrow> screen_geometry option \<Rightarrow> screen_geometry \<Rightarrow> u32 \<times> u32" where
  "remap_position x y source target =
     (case source of
        Some g \<Rightarrow>
          if sg_width g > 0 \<and> sg_height g > 0
          then (scale_coordinate x (sg_width g) (sg_width target),
                scale_coordinate y (sg_height g) (sg_height target))
          else (min x (sat_sub (sg_width target) 1), min y (sat_sub (sg_height target) 1))
      | None \<Rightarrow> (min x (sat_sub (sg_width target) 1), min y (sat_sub (sg_height target) 1)))"

text \<open>\<open>handoff_wire_target\<close>: the name, the position and the geometry of a pointer handoff.\<close>

definition handoff_wire_target ::
  "layout \<Rightarrow> screen_id \<Rightarrow> u32 \<Rightarrow> u32 \<Rightarrow> screen_geometry option
     \<Rightarrow> string + (string \<times> u32 \<times> u32 \<times> screen_geometry option)" where
  "handoff_wire_target l target target_x target_y peer_geometry =
     (case screen_by_id l target of
        None \<Rightarrow> Inl ''topology target screen disappeared''
      | Some scr \<Rightarrow>
          (case peer_geometry of
             Some g \<Rightarrow>
               (case remap_position target_x target_y
                   (Some \<lparr>sg_screen_id = screen_number target, sg_width = scr_width scr, sg_height = scr_height scr\<rparr>) g of
                  (x, y) \<Rightarrow> Inr (scr_name scr, x, y, Some g))
           | None \<Rightarrow>
               Inr (scr_name scr, min target_x (sat_sub (scr_width scr) 1), min target_y (sat_sub (scr_height scr) 1),
                 None)))"

section \<open>The mapping is the router's\<close>

lemma scale_coordinate_eq: "scale_coordinate v s t = map_coordinate v s t"
  by (simp add: scale_coordinate_def map_coordinate_def)

lemma scale_coordinate_less: "t \<noteq> 0 \<Longrightarrow> scale_coordinate v s t < t"
  using map_coordinate_less [of t v s] by (simp add: scale_coordinate_eq word_less_def)

lemma remap_position_inside:
  assumes "remap_position x y source target = (x', y')" "sg_width target \<noteq> 0" "sg_height target \<noteq> 0"
  shows "x' < sg_width target \<and> y' < sg_height target"
  using assms
  by (auto simp: remap_position_def scale_coordinate_less min_pred split: option.splits if_splits)

lemma map_coordinate_same:
  assumes "1 < s" "v < s"
  shows "map_coordinate v s s = v"
proof -
  have "1 < uint s" "uint v \<le> uint s - 1" using assms by (auto simp: uint_gt_1 word_less_def)
  with uint_map_coordinate [OF assms(1,1), of v] show ?thesis by (simp add: word_uint_eq_iff)
qed

text \<open>
  C35: a pointer enters inside the peer's screen, at the proportional point. Where the peer
  reports its size the handoff names a position inside it, in which a corner of the arranged
  screen is a corner, equal sizes change nothing, and going further never comes back; without a report the
  position is inside the arranged screen.
\<close>

theorem entry_inside_the_peer_screen:
  assumes "handoff_wire_target l target tx ty peer = Inr (name, x, y, geometry)"
    and "screen_by_id l target = Some scr" "1 < scr_width scr" "1 < scr_height scr"
    and "\<And>g. peer = Some g \<Longrightarrow> 1 < sg_width g \<and> 1 < sg_height g"
  shows "geometry = peer
    \<and> (case peer of
         Some g \<Rightarrow> x < sg_width g \<and> y < sg_height g
           \<and> (tx = 0 \<longrightarrow> x = 0) \<and> (tx = scr_width scr - 1 \<longrightarrow> x = sg_width g - 1)
           \<and> (ty = 0 \<longrightarrow> y = 0) \<and> (ty = scr_height scr - 1 \<longrightarrow> y = sg_height g - 1)
           \<and> (sg_width g = scr_width scr \<and> tx < scr_width scr \<longrightarrow> x = tx)
           \<and> (sg_height g = scr_height scr \<and> ty < scr_height scr \<longrightarrow> y = ty)
           \<and> (\<forall>tx2 ty2 x2 y2. handoff_wire_target l target tx2 ty2 peer = Inr (name, x2, y2, geometry)
                \<longrightarrow> (tx \<le> tx2 \<longrightarrow> x \<le> x2) \<and> (ty \<le> ty2 \<longrightarrow> y \<le> y2))
       | None \<Rightarrow> x < scr_width scr \<and> y < scr_height scr)"
proof (cases peer)
  case None
  have "scr_width scr \<noteq> 0" "scr_height scr \<noteq> 0" using assms(3,4) by auto
  with assms(1,2) None show ?thesis by (auto simp: handoff_wire_target_def min_pred)
next
  case (Some g)
  have dims: "1 < sg_width g" "1 < sg_height g" using assms(5) Some by simp_all
  then have nz: "sg_width g \<noteq> 0" "sg_height g \<noteq> 0" and pos: "0 < scr_width scr" "0 < scr_height scr"
    using assms(3,4) by (auto intro: order.strict_trans [OF _ assms(3)] order.strict_trans [OF _ assms(4)])
  have sent: "handoff_wire_target l target a b (Some g)
      = Inr (scr_name scr, scale_coordinate a (scr_width scr) (sg_width g), scale_coordinate b (scr_height scr) (sg_height g), Some g)"
    for a b using pos by (simp add: handoff_wire_target_def assms(2) Some remap_position_def)
  have x: "x = map_coordinate tx (scr_width scr) (sg_width g)" and y: "y = map_coordinate ty (scr_height scr) (sg_height g)"
    and geometry: "geometry = Some g"
    using assms(1) by (simp_all add: Some sent scale_coordinate_eq)
  have less: "map_coordinate a S (sg_width g) < sg_width g" "map_coordinate a S (sg_height g) < sg_height g" for a S
    using map_coordinate_less [OF nz(1)] map_coordinate_less [OF nz(2)] by (simp_all add: word_less_def)
  have mono: "a \<le> b \<Longrightarrow> map_coordinate a S T \<le> map_coordinate b S T" for a b S T
    using map_coordinate_mono [of a b S T] by (simp add: word_le_def)
  show ?thesis
    unfolding Some geometry x y option.case sent
    by (intro conjI allI impI)
      (simp_all add: less mono map_coordinate_same [OF assms(3)] map_coordinate_same [OF assms(4)] map_coordinate_ends [OF assms(3) dims(1)] map_coordinate_ends [OF assms(4) dims(2)]
        scale_coordinate_eq)
qed

lemma entry_inside_the_peer_screen_witness:
  "\<exists>x y. handoff_wire_target \<lparr>ly_screens = [\<lparr>scr_id = ScreenId 2, scr_name = ''desk'', scr_x = 0, scr_y = 0, scr_width = 1920,
        scr_height = 1080, scr_peer = None\<rparr>], ly_self = None\<rparr> (ScreenId 2) 1919 0 (Some \<lparr>sg_screen_id = 1, sg_width = 800, sg_height = 600\<rparr>)
      = Inr (''desk'', x, y, Some \<lparr>sg_screen_id = 1, sg_width = 800, sg_height = 600\<rparr>)
    \<and> x = 799 \<and> y = 0"
proof -
  define scr where "scr = \<lparr>scr_id = ScreenId 2, scr_name = ''desk'', scr_x = 0, scr_y = 0, scr_width = 1920, scr_height = 1080, scr_peer = None\<rparr>"
  define l where "l = \<lparr>ly_screens = [scr], ly_self = None\<rparr>"
  define g where "g = \<lparr>sg_screen_id = 1, sg_width = 800, sg_height = (600 :: u32)\<rparr>"
  have found: "screen_by_id l (ScreenId 2) = Some scr" by (simp add: l_def scr_def screen_by_id_def)
  obtain x y where run: "handoff_wire_target l (ScreenId 2) 1919 0 (Some g) = Inr (''desk'', x, y, Some g)"
    by (cases "remap_position 1919 0 (Some \<lparr>sg_screen_id = 2, sg_width = 1920, sg_height = 1080\<rparr>) g")
      (simp add: handoff_wire_target_def found, simp add: scr_def)
  have "1 < scr_width scr" "1 < scr_height scr" by (simp_all add: scr_def)
  moreover have "1 < sg_width h \<and> 1 < sg_height h" if "Some g = Some h" for h using that by (auto simp: g_def)
  ultimately have "x = 799 \<and> y = 0"
    using entry_inside_the_peer_screen [OF run found] by (simp add: scr_def g_def)
  with run show ?thesis unfolding l_def scr_def g_def by blast
qed

text \<open>How far a pointer is from an edge.\<close>

definition truth_gap :: "edge \<Rightarrow> screen \<Rightarrow> u32 \<Rightarrow> u32 \<Rightarrow> int" where
  "truth_gap e scr x y =
     (case e of
        Left \<Rightarrow> uint x
      | Right \<Rightarrow> uint (sat_sub (scr_width scr) 1) - uint x
      | Top \<Rightarrow> uint y
      | Bottom \<Rightarrow> uint (sat_sub (scr_height scr) 1) - uint y)"

end
