(* ===== verification/Sending.thy ===== *)
theory Sending
  imports CaptureQueues WireGeometry
begin

text \<open>
  What a controller sends to the screen it drives, from the \<^verbatim>\<open>Forward\<close> arm of
  \<^verbatim>\<open>handle_topology_event\<close> in \<^verbatim>\<open>kvm-daemon/src/service.rs\<close>: the session with its census, the path
  an event takes (UDP, the motion lane, the episode stream), and what a stalled or broken write
  leads to. The answers of the network are arguments.
\<close>

section \<open>A session\<close>

record drive_session =
  ts_target :: screen_id
  ts_motion_send :: bool
  ts_event_barrier :: u64
  ts_peer_smooth :: bool
  ts_peer_pinch :: bool
  ts_pinch_held :: bool
  ts_wheel_debt :: wheel_downgrade
  ts_wheel_captured :: u64
  ts_smooth_captured :: u64
  ts_wheel_forwarded :: u64
  ts_wheel_sum_x :: int
  ts_wheel_sum_y :: int
  ts_motion_captured :: u64
  ts_motion_forwarded :: u64
  ts_motion_dropped_stall :: u64
  ts_wheel_dropped_stall :: u64
  ts_input_dropped_stall :: u64
  ts_motion_first :: "(i32 \<times> i32) option"
  ts_motion_zero_deltas :: u64
  ts_motion_sum_dx :: int
  ts_motion_sum_dy :: int
  ts_datagrams_sent :: u64
  ts_udp_motion :: bool
  ts_udp_packets_sent :: u64
  ts_peer_geometry :: "screen_geometry option"
  ts_handed_off :: bool

text \<open>What the peer's greeting tells: \<open>SessionCapabilities\<close>, and whether a motion lane was opened.\<close>

record capabilities =
  cb_smooth_scroll :: bool
  cb_pinch_zoom :: bool
  cb_udp_motion :: bool
  cb_motion_lane :: bool
  cb_screen_geometry :: "screen_geometry option"

definition spawn_episode_driver :: "capabilities \<Rightarrow> screen_id \<Rightarrow> u64 \<Rightarrow> drive_session" where
  "spawn_episode_driver c target barrier = \<lparr>ts_target = target, ts_motion_send = cb_motion_lane c,
     ts_event_barrier = barrier, ts_peer_smooth = cb_smooth_scroll c, ts_peer_pinch = cb_pinch_zoom c,
     ts_pinch_held = False, ts_wheel_debt = \<lparr>wg_x = 0, wg_y = 0\<rparr>,
     ts_wheel_captured = 0, ts_smooth_captured = 0, ts_wheel_forwarded = 0, ts_wheel_sum_x = 0, ts_wheel_sum_y = 0,
     ts_motion_captured = 0, ts_motion_forwarded = 0, ts_motion_dropped_stall = 0, ts_wheel_dropped_stall = 0,
     ts_input_dropped_stall = 0, ts_motion_first = None, ts_motion_zero_deltas = 0, ts_motion_sum_dx = 0,
     ts_motion_sum_dy = 0, ts_datagrams_sent = 0, ts_udp_motion = cb_udp_motion c, ts_udp_packets_sent = 0,
     ts_peer_geometry = cb_screen_geometry c, ts_handed_off = False\<rparr>"

section \<open>Sending one event\<close>

datatype path = Udp | Lane | Episode

datatype write_result = Written | Stalled | Broken

text \<open>The answers to one send: of the UDP socket, of the stream, and of the reconciling state.\<close>

record delivery =
  dl_at :: instant
  dl_udp :: bool
  dl_write :: write_result
  dl_sync :: bool

datatype drive_act =
    Sent path u64 input_event
  | Lost path u64 input_event
  | StateSynced input_state
  | ReleasedAll
  | HandedOff screen_id string u32 u32 "screen_geometry option" input_state
  | Warped u32 u32
  | Suppressed bool

record sender =
  sd_session :: drive_session
  sd_sequence :: u64
  sd_strikes :: u32
  sd_stall_since :: "instant option"

definition SEND_STALL_BREAKER :: u32 where "SEND_STALL_BREAKER = 30"
definition SEND_STALL_BREAKER_MS :: nat where "SEND_STALL_BREAKER_MS = 2000"

definition as_millis :: "duration \<Rightarrow> nat" where "as_millis d = d div 1000000"

definition stall_breaker_tripped :: "u32 \<Rightarrow> nat \<Rightarrow> bool" where
  "stall_breaker_tripped strikes stalled_ms \<longleftrightarrow>
     strikes \<ge> SEND_STALL_BREAKER \<and> stalled_ms \<ge> SEND_STALL_BREAKER_MS"

definition is_motion :: "input_event \<Rightarrow> bool" where
  "is_motion event = (case event of MouseMove dx dy \<Rightarrow> True | _ \<Rightarrow> False)"

text \<open>The census of what was captured.\<close>

definition census :: "input_event \<Rightarrow> drive_session \<Rightarrow> drive_session" where
  "census event s =
     (case event of
        Wheel delta \<Rightarrow> s\<lparr>ts_wheel_captured := ts_wheel_captured s + 1\<rparr>
      | SmoothWheel x y \<Rightarrow>
          s\<lparr>ts_smooth_captured := ts_smooth_captured s + 1,
            ts_wheel_sum_x := i64_add (ts_wheel_sum_x s) (sint x),
            ts_wheel_sum_y := i64_add (ts_wheel_sum_y s) (sint y)\<rparr>
      | MouseMove dx dy \<Rightarrow>
          s\<lparr>ts_motion_captured := ts_motion_captured s + 1,
            ts_motion_first := (case ts_motion_first s of None \<Rightarrow> Some (dx, dy) | Some d \<Rightarrow> Some d),
            ts_motion_zero_deltas := (if dx = 0 \<and> dy = 0 then ts_motion_zero_deltas s + 1 else ts_motion_zero_deltas s),
            ts_motion_sum_dx := i64_add (ts_motion_sum_dx s) (sint dx),
            ts_motion_sum_dy := i64_add (ts_motion_sum_dy s) (sint dy)\<rparr>
      | _ \<Rightarrow> s)"

text \<open>The stream an event takes that does not go by UDP.\<close>

definition stream_for :: "bool \<Rightarrow> input_event \<Rightarrow> drive_session \<Rightarrow> path" where
  "stream_for keys_held outgoing s =
     (if is_motion outgoing then if ts_motion_send s then Lane else Episode
      else if is_wheel outgoing
      then if wheel_use_lane (ts_motion_send s) keys_held (ts_pinch_held s) then Lane else Episode
      else Episode)"

definition mark_sent :: "input_event \<Rightarrow> sender \<Rightarrow> sender" where
  "mark_sent outgoing d =
     (let s = sd_session d
      in d\<lparr>sd_session := s\<lparr>
             ts_motion_forwarded := (if is_motion outgoing then ts_motion_forwarded s + 1 else ts_motion_forwarded s),
             ts_datagrams_sent := (if is_motion outgoing \<or> is_wheel outgoing then ts_datagrams_sent s + 1
               else ts_datagrams_sent s)\<rparr>,
           sd_strikes := 0, sd_stall_since := None\<rparr>)"

definition mark_stalled :: "instant \<Rightarrow> input_event \<Rightarrow> sender \<Rightarrow> sender" where
  "mark_stalled now outgoing d =
     (let s = sd_session d
      in d\<lparr>sd_session :=
             (if is_release outgoing then s\<lparr>ts_input_dropped_stall := ts_input_dropped_stall s + 1\<rparr>
              else if is_motion outgoing then s\<lparr>ts_motion_dropped_stall := ts_motion_dropped_stall s + 1\<rparr>
              else if is_wheel outgoing then s\<lparr>ts_wheel_dropped_stall := ts_wheel_dropped_stall s + 1\<rparr>
              else s\<lparr>ts_input_dropped_stall := ts_input_dropped_stall s + 1\<rparr>),
           sd_strikes := sd_strikes d + 1,
           sd_stall_since := (case sd_stall_since d of None \<Rightarrow> Some now | Some since \<Rightarrow> Some since)\<rparr>)"

definition breaker :: "instant \<Rightarrow> sender \<Rightarrow> bool" where
  "breaker now d =
     (case sd_stall_since d of
        None \<Rightarrow> False
      | Some since \<Rightarrow> stall_breaker_tripped (sd_strikes d) (min (as_millis (elapsed now since)) (2 ^ 64 - 1)))"

text \<open>An outgoing event on its stream: \<open>True\<close> ends the episode.\<close>

definition send_stream ::
  "bool \<Rightarrow> input_state \<Rightarrow> delivery \<Rightarrow> input_event \<Rightarrow> sender \<Rightarrow> sender \<times> drive_act list \<times> bool" where
  "send_stream keys_held state dl outgoing d =
     (let path = stream_for keys_held outgoing (sd_session d)
      in case dl_write dl of
           Written \<Rightarrow> (mark_sent outgoing d, [Sent path (sd_sequence d) outgoing], False)
         | Stalled \<Rightarrow>
             (let d1 = mark_stalled (dl_at dl) outgoing d
              in (d1, Lost path (sd_sequence d) outgoing
                    # (if is_release outgoing \<and> dl_sync dl then [StateSynced state] else []), breaker (dl_at dl) d1))
         | Broken \<Rightarrow> (d, [Lost path (sd_sequence d) outgoing], True))"

definition send_one ::
  "bool \<Rightarrow> input_state \<Rightarrow> delivery \<Rightarrow> input_event \<Rightarrow> sender \<Rightarrow> sender \<times> drive_act list \<times> bool" where
  "send_one keys_held state dl event d =
     (let s = census event (sd_session d)
      in case outgoing_wheel_event event (ts_peer_smooth s) (ts_wheel_debt s) of
           (debt, None) \<Rightarrow> (d\<lparr>sd_session := s\<lparr>ts_wheel_debt := debt\<rparr>\<rparr>, [], False)
         | (debt, Some outgoing) \<Rightarrow>
             (let s1 = s\<lparr>ts_wheel_debt := debt,
                    ts_wheel_forwarded := (if is_wheel outgoing then ts_wheel_forwarded s + 1 else ts_wheel_forwarded s)\<rparr>;
                  d1 = d\<lparr>sd_session := s1, sd_sequence := sd_sequence d + 1\<rparr>
              in if ts_udp_motion s1 \<and> is_motion outgoing \<and> dl_udp dl
                 then (d1\<lparr>sd_session := s1\<lparr>ts_udp_packets_sent := ts_udp_packets_sent s1 + 1,
                         ts_motion_forwarded := ts_motion_forwarded s1 + 1\<rparr>,
                         sd_strikes := 0, sd_stall_since := None\<rparr>,
                       [Sent Udp (sd_sequence d1) outgoing], False)
                 else send_stream keys_held state dl outgoing d1))"

text \<open>The events a captured one expands to; the first that ends the episode is the last.\<close>

fun send_each ::
  "bool \<Rightarrow> input_state \<Rightarrow> (nat \<Rightarrow> delivery) \<Rightarrow> input_event list \<Rightarrow> sender \<Rightarrow> sender \<times> drive_act list \<times> bool" where
  "send_each keys_held state dl [] d = (d, [], False)"
| "send_each keys_held state dl (event # events) d =
     (case send_one keys_held state (dl 0) event d of
        (d1, acts, True) \<Rightarrow> (d1, acts, True)
      | (d1, acts, False) \<Rightarrow>
          (case send_each keys_held state (\<lambda>n. dl (Suc n)) events d1 of
             (d2, acts2, ended) \<Rightarrow> (d2, acts @ acts2, ended)))"

end
