(* ===== verification/SendingRuns.thy ===== *)
theory SendingRuns
  imports Sending
begin

text \<open>
  What a controller's writes guarantee over any sequence of events and answers of the network:
  consecutive numbers over all paths, keys and buttons on the one ordered stream, and a drive that
  only a broken stream or long silence ends.
\<close>

section \<open>Numbers and paths\<close>

fun numbered_act :: "drive_act \<Rightarrow> (path \<times> u64 \<times> input_event) option" where
  "numbered_act (Sent p n e) = Some (p, n, e)"
| "numbered_act (Lost p n e) = Some (p, n, e)"
| "numbered_act _ = None"

definition numbered_acts :: "drive_act list \<Rightarrow> (path \<times> u64 \<times> input_event) list" where
  "numbered_acts acts = List.map_filter numbered_act acts"

lemma numbered_acts_simps [simp]:
  "numbered_acts [] = []" "numbered_acts (a @ b) = numbered_acts a @ numbered_acts b"
  "numbered_acts (x # a) = (case numbered_act x of None \<Rightarrow> numbered_acts a | Some n \<Rightarrow> n # numbered_acts a)"
  by (auto simp: numbered_acts_def List.map_filter_def split: option.splits)

text \<open>Discrete input: neither motion nor scrolling.\<close>

definition discrete :: "input_event \<Rightarrow> bool" where
  "discrete e \<longleftrightarrow> \<not> is_motion e \<and> \<not> is_wheel e"

definition well_sent :: "path \<times> u64 \<times> input_event \<Rightarrow> bool" where
  "well_sent x = (case x of (p, n, e) \<Rightarrow> (discrete e \<longrightarrow> p = Episode) \<and> (p = Udp \<longrightarrow> is_motion e))"

lemma mark_fields [simp]:
  "sd_sequence (mark_sent e d) = sd_sequence d" "sd_sequence (mark_stalled now e d) = sd_sequence d"
  by (simp_all add: mark_sent_def mark_stalled_def Let_def)

lemma stream_for_discrete: "discrete e \<Longrightarrow> stream_for held e s = Episode"
  by (simp add: discrete_def stream_for_def)

lemma stream_for_not_udp: "stream_for held e s \<noteq> Udp"
  by (simp add: stream_for_def)

lemma send_one_numbers:
  assumes "send_one held state dl event d = (d', acts, ended)"
  shows "(sd_sequence d' = sd_sequence d \<and> numbered_acts acts = [])
    \<or> (\<exists>x. sd_sequence d' = sd_sequence d + 1 \<and> numbered_acts acts = [x] \<and> fst (snd x) = sd_sequence d + 1 \<and> well_sent x)"
proof -
  obtain debt out where w: "outgoing_wheel_event event (ts_peer_smooth (census event (sd_session d)))
      (ts_wheel_debt (census event (sd_session d))) = (debt, out)" by force
  show ?thesis
  proof (cases out)
    case None
    with assms w show ?thesis by (auto simp: send_one_def Let_def)
  next
    case (Some e)
    define s where "s = census event (sd_session d)"
    define s1 where "s1 = s\<lparr>ts_wheel_debt := debt,
      ts_wheel_forwarded := (if is_wheel e then ts_wheel_forwarded s + 1 else ts_wheel_forwarded s)\<rparr>"
    define d1 where "d1 = d\<lparr>sd_session := s1, sd_sequence := sd_sequence d + 1\<rparr>"
    have seq: "sd_sequence d1 = sd_sequence d + 1" by (simp add: d1_def)
    show ?thesis
    proof (cases "ts_udp_motion s1 \<and> is_motion e \<and> dl_udp dl")
      case True
      then have "acts = [Sent Udp (sd_sequence d + 1) e] \<and> sd_sequence d' = sd_sequence d + 1"
        using assms w Some by (auto simp: send_one_def Let_def s_def s1_def d1_def split: if_splits)
      with True show ?thesis by (auto simp: well_sent_def discrete_def)
    next
      case False
      then have "send_stream held state dl e d1 = (d', acts, ended)"
        using assms w Some by (auto simp: send_one_def Let_def s_def s1_def d1_def split: if_splits)
      then have "sd_sequence d' = sd_sequence d1 \<and> numbered_acts acts = [(stream_for held e (sd_session d1), sd_sequence d1, e)]"
        by (auto simp: send_stream_def Let_def split: write_result.splits if_splits)
      then show ?thesis
        by (auto simp: seq well_sent_def stream_for_discrete stream_for_not_udp)
    qed
  qed
qed

lemma send_each_numbers:
  "send_each held state dl events d = (d', acts, ended) \<Longrightarrow>
     sd_sequence d' = sd_sequence d + of_nat (length (numbered_acts acts))
     \<and> map (fst \<circ> snd) (numbered_acts acts) = map (\<lambda>i. sd_sequence d + of_nat (Suc i)) [0..<length (numbered_acts acts)]
     \<and> list_all well_sent (numbered_acts acts)"
proof (induction events arbitrary: dl d d' acts ended)
  case (Cons event events)
  obtain d1 acts1 ended1 where one: "send_one held state (dl 0) event d = (d1, acts1, ended1)" by (metis prod_cases3)
  note n = send_one_numbers [OF one]
  show ?case
  proof (cases ended1)
    case True
    with Cons.prems one have "d' = d1" "acts = acts1" by simp_all
    with n show ?thesis by auto
  next
    case False
    obtain d2 acts2 ended2 where rest: "send_each held state (\<lambda>n. dl (Suc n)) events d1 = (d2, acts2, ended2)" by (metis prod_cases3)
    with Cons.prems one False have same: "d' = d2" "acts = acts1 @ acts2" by simp_all
    note IH = Cons.IH [OF rest]
    from n show ?thesis
    proof
      assume "sd_sequence d1 = sd_sequence d \<and> numbered_acts acts1 = []"
      with IH same show ?thesis by simp
    next
      assume "\<exists>x. sd_sequence d1 = sd_sequence d + 1 \<and> numbered_acts acts1 = [x]
        \<and> fst (snd x) = sd_sequence d + 1 \<and> well_sent x"
      then obtain x where x: "sd_sequence d1 = sd_sequence d + 1" "numbered_acts acts1 = [x]"
        "fst (snd x) = sd_sequence d + 1" "well_sent x" by blast
      have "[0..<Suc (length (numbered_acts acts2))] = 0 # map Suc [0..<length (numbered_acts acts2)]"
        by (simp add: upt_conv_Cons map_Suc_upt del: upt_Suc)
      with IH same x show ?thesis by (simp add: comp_def algebra_simps)
    qed
  qed
qed simp

text \<open>
  C18: what is sent stays in order. Whatever events are sent and however the network answers,
  the packets carry consecutive numbers over all paths together, the lost ones included; keys,
  buttons and all that is neither motion nor scrolling take the episode stream, which keeps their
  order, and only motion goes by UDP.
\<close>

theorem sent_in_order:
  assumes "send_each held state dl events d = (d', acts, ended)"
  shows "sd_sequence d' = sd_sequence d + of_nat (length (numbered_acts acts))
     \<and> map (fst \<circ> snd) (numbered_acts acts) = map (\<lambda>i. sd_sequence d + of_nat (Suc i)) [0..<length (numbered_acts acts)]
     \<and> (\<forall>(p, n, e) \<in> set (numbered_acts acts). (discrete e \<longrightarrow> p = Episode) \<and> (p = Udp \<longrightarrow> is_motion e))"
  using send_each_numbers [OF assms] by (fastforce simp: list_all_iff well_sent_def)

text \<open>Three moves and a key, of which the second move is lost.\<close>

definition flaky :: "nat \<Rightarrow> delivery" where
  "flaky n = \<lparr>dl_at = 0, dl_udp = False, dl_write = (if n = 1 then Stalled else Written), dl_sync = True\<rparr>"

definition fresh_sender :: sender where
  "fresh_sender = \<lparr>sd_session = spawn_episode_driver \<lparr>cb_smooth_scroll = True, cb_pinch_zoom = True, cb_udp_motion = False,
       cb_motion_lane = True, cb_screen_geometry = None\<rparr> (ScreenId 2) 0,
     sd_sequence = 5, sd_strikes = 0, sd_stall_since = None\<rparr>"

definition no_keys :: input_state where
  "no_keys = \<lparr>st_pressed_keys = [], st_pressed_buttons = []\<rparr>"

lemma sent_in_order_witness:
  "map (fst \<circ> snd) (numbered_acts (fst (snd (send_each False no_keys flaky
      [MouseMove 1 0, MouseMove 2 0, MouseButton BtnLeft True] fresh_sender)))) = [6, 7, 8]"
proof -
  obtain d' acts ended where run: "send_each False no_keys flaky
      [MouseMove 1 0, MouseMove 2 0, MouseButton BtnLeft True] fresh_sender = (d', acts, ended)" by (metis prod_cases3)
  moreover have "length (numbered_acts acts) = 3"
    using run by (auto simp: send_one_def send_stream_def flaky_def fresh_sender_def spawn_episode_driver_def Let_def
        outgoing_wheel_event_def census_def mark_sent_def mark_stalled_def breaker_def stall_breaker_tripped_def elapsed_def
        as_millis_def SEND_STALL_BREAKER_MS_def stream_for_def is_motion_def is_wheel_def
        split: prod.splits)
  ultimately show ?thesis
    using sent_in_order [OF run] by (simp add: fresh_sender_def upt_rec)
qed

section \<open>What ends a drive\<close>

text \<open>The losses since the last packet that went out, of which there were \<open>k\<close> before.\<close>

definition strike :: "nat \<Rightarrow> drive_act \<Rightarrow> nat" where
  "strike n a = (case a of Sent _ _ _ \<Rightarrow> 0 | Lost _ _ _ \<Rightarrow> Suc n | _ \<Rightarrow> n)"

definition losses_in_a_row :: "nat \<Rightarrow> drive_act list \<Rightarrow> nat" where
  "losses_in_a_row k acts = foldl strike k acts"

lemma losses_in_a_row_simps [simp]:
  "losses_in_a_row k [] = k" "losses_in_a_row k (a @ b) = losses_in_a_row (losses_in_a_row k a) b"
  "losses_in_a_row k (Sent p n e # a) = losses_in_a_row 0 a" "losses_in_a_row k (Lost p n e # a) = losses_in_a_row (Suc k) a"
  "losses_in_a_row k (StateSynced st # a) = losses_in_a_row k a"
  by (simp_all add: losses_in_a_row_def strike_def)

lemma unat_add_one: "unat (x + 1 :: u32) \<le> unat x + 1"
  by (simp add: unat_word_ariths(1))

text \<open>A packet in it went out; one was lost.\<close>

definition goes_out :: "drive_act list \<Rightarrow> bool" where
  "goes_out acts \<longleftrightarrow> list_ex (\<lambda>a. case a of Sent _ _ _ \<Rightarrow> True | _ \<Rightarrow> False) acts"

definition loses :: "drive_act list \<Rightarrow> bool" where
  "loses acts \<longleftrightarrow> list_ex (\<lambda>a. case a of Lost _ _ _ \<Rightarrow> True | _ \<Rightarrow> False) acts"

lemma goes_out_simps [simp]:
  "\<not> goes_out []" "goes_out (Sent p n e # acts)" "goes_out (Lost p n e # acts) = goes_out acts"
  "goes_out (StateSynced st # acts) = goes_out acts" "loses (Lost p n e # acts)"
  by (simp_all add: goes_out_def loses_def)

text \<open>When each event was answered, and what became of it, up to the one that ends the drive.\<close>

fun send_log ::
  "bool \<Rightarrow> input_state \<Rightarrow> (nat \<Rightarrow> delivery) \<Rightarrow> input_event list \<Rightarrow> sender \<Rightarrow> (instant \<times> drive_act list) list" where
  "send_log keys_held state dl [] d = []"
| "send_log keys_held state dl (event # events) d =
     (case send_one keys_held state (dl 0) event d of
        (d1, acts, ended) \<Rightarrow>
          (dl_at (dl 0), acts) # (if ended then [] else send_log keys_held state (\<lambda>n. dl (Suc n)) events d1))"

lemma send_log_acts: "send_each held state dl events d = (d', acts, ended) \<Longrightarrow> acts = concat (map snd (send_log held state dl events d))"
  by (induction events arbitrary: dl d d' acts ended) (auto split: prod.splits bool.splits)

lemma send_one_strikes:
  assumes "send_one held state dl event d = (d', acts, ended)" "unat (sd_strikes d) \<le> k"
  shows "unat (sd_strikes d') \<le> losses_in_a_row k acts
     \<and> (\<forall>since. sd_stall_since d' = Some since \<longrightarrow> \<not> goes_out acts
          \<and> (sd_stall_since d = Some since \<or> since = dl_at dl \<and> loses acts))
     \<and> (ended \<and> dl_write dl \<noteq> Broken \<longrightarrow> 30 \<le> losses_in_a_row k acts
        \<and> (\<exists>since. sd_stall_since d' = Some since \<and> 2000 \<le> as_millis (elapsed (dl_at dl) since)))"
proof -
  obtain debt out where w: "outgoing_wheel_event event (ts_peer_smooth (census event (sd_session d)))
      (ts_wheel_debt (census event (sd_session d))) = (debt, out)" by force
  show ?thesis
  proof (cases out)
    case None
    with assms w show ?thesis by (auto simp: send_one_def Let_def)
  next
    case (Some e)
    define s where "s = census event (sd_session d)"
    define s1 where "s1 = s\<lparr>ts_wheel_debt := debt,
      ts_wheel_forwarded := (if is_wheel e then ts_wheel_forwarded s + 1 else ts_wheel_forwarded s)\<rparr>"
    define d1 where "d1 = d\<lparr>sd_session := s1, sd_sequence := sd_sequence d + 1\<rparr>"
    have d1: "sd_strikes d1 = sd_strikes d" "sd_stall_since d1 = sd_stall_since d" by (simp_all add: d1_def)
    show ?thesis
    proof (cases "ts_udp_motion s1 \<and> is_motion e \<and> dl_udp dl")
      case True
      then have "acts = [Sent Udp (sd_sequence d + 1) e] \<and> sd_strikes d' = 0 \<and> sd_stall_since d' = None \<and> \<not> ended"
        using assms w Some by (auto simp: send_one_def Let_def s_def s1_def d1_def split: if_splits)
      then show ?thesis by simp
    next
      case False
      then have step: "send_stream held state dl e d1 = (d', acts, ended)"
        using assms w Some by (auto simp: send_one_def Let_def s_def s1_def d1_def split: if_splits)
      show ?thesis
      proof (cases "dl_write dl")
        case Written
        with step show ?thesis by (auto simp: send_stream_def Let_def mark_sent_def)
      next
        case Broken
        with step d1 assms(2) show ?thesis by (auto simp: send_stream_def Let_def)
      next
        case Stalled
        define d2 where "d2 = mark_stalled (dl_at dl) e d1"
        have d2: "sd_strikes d2 = sd_strikes d + 1"
          "sd_stall_since d2 = (case sd_stall_since d of None \<Rightarrow> Some (dl_at dl) | Some since \<Rightarrow> Some since)"
          by (simp_all add: d2_def mark_stalled_def Let_def d1)
        have strikes: "unat (sd_strikes d + 1) \<le> Suc k" using unat_add_one [of "sd_strikes d"] assms(2) by linarith
        have run: "d' = d2" "ended = breaker (dl_at dl) d2" "losses_in_a_row k acts = Suc k" "\<not> goes_out acts" "loses acts"
          using step Stalled by (auto simp: send_stream_def Let_def d2_def split: if_splits)
        have "30 \<le> Suc k \<and> (\<exists>since. sd_stall_since d2 = Some since
            \<and> 2000 \<le> as_millis (elapsed (dl_at dl) since))" if halt: "breaker (dl_at dl) d2"
        proof -
          obtain since where since: "sd_stall_since d2 = Some since" using d2 by (simp split: option.splits)
          with halt strikes have "30 \<le> Suc k" "2000 \<le> as_millis (elapsed (dl_at dl) since)"
            by (auto simp: breaker_def stall_breaker_tripped_def SEND_STALL_BREAKER_def SEND_STALL_BREAKER_MS_def
                word_le_nat_alt d2)
          with since show ?thesis by blast
        qed
        with run d2 strikes show ?thesis by (auto split: option.splits)
      qed
    qed
  qed
qed

text \<open>
  \<open>silent_from k since log\<close>: nothing went out from entry \<open>k\<close> on, and \<open>since\<close> is when that entry
  was lost, or, with nothing sent at all, the loss \<open>before\<close> is from earlier.
\<close>

definition silent_from :: "nat \<Rightarrow> instant \<Rightarrow> instant option \<Rightarrow> (instant \<times> drive_act list) list \<Rightarrow> bool" where
  "silent_from k since before log \<longleftrightarrow> (\<forall>(at, acts) \<in> set (drop k log). \<not> goes_out acts)
     \<and> (k < length log \<and> fst (log ! k) = since \<and> loses (snd (log ! k)) \<or> k = 0 \<and> before = Some since)"

lemma send_each_strikes:
  assumes "send_each held state dl events d = (d', acts, ended)" "unat (sd_strikes d) \<le> k"
    and "\<forall>n < length events. dl_write (dl n) \<noteq> Broken" "send_log held state dl events d = log"
  shows "ended \<longrightarrow> 30 \<le> losses_in_a_row k acts
     \<and> (\<exists>since n. log \<noteq> [] \<and> silent_from n since (sd_stall_since d) log \<and> 2000 \<le> as_millis (elapsed (fst (last log)) since))"
  using assms
proof (induction events arbitrary: dl d d' acts ended k log)
  case (Cons event events)
  obtain d1 acts1 ended1 where one: "send_one held state (dl 0) event d = (d1, acts1, ended1)" by (metis prod_cases3)
  note n = send_one_strikes [OF one Cons.prems(2)]
  have stall: "\<not> goes_out acts1" "sd_stall_since d = Some since \<or> since = dl_at (dl 0) \<and> loses acts1"
    if "sd_stall_since d1 = Some since" for since using n that by blast+
  show ?case
  proof (cases ended1)
    case True
    with Cons.prems(1,4) one have same: "acts = acts1" "ended" "log = [(dl_at (dl 0), acts1)]" by simp_all
    have "dl_write (dl 0) \<noteq> Broken" using Cons.prems(3) by simp
    with n True same obtain since where since: "30 \<le> losses_in_a_row k acts"
      "sd_stall_since d1 = Some since" "2000 \<le> as_millis (elapsed (dl_at (dl 0)) since)" by blast
    have "silent_from 0 since (sd_stall_since d) log"
      using stall [OF since(2)] by (auto simp: silent_from_def same)
    with since same show ?thesis by (intro impI conjI exI [of _ since] exI [of _ 0]) simp_all
  next
    case False
    obtain d2 acts2 ended2 where rest: "send_each held state (\<lambda>n. dl (Suc n)) events d1 = (d2, acts2, ended2)" by (metis prod_cases3)
    define log1 where "log1 = send_log held state (\<lambda>n. dl (Suc n)) events d1"
    from Cons.prems(1,4) one False rest have same: "acts = acts1 @ acts2" "ended = ended2" "log = (dl_at (dl 0), acts1) # log1"
      by (simp_all add: log1_def)
    have unbroken: "\<forall>n < length events. dl_write (dl (Suc n)) \<noteq> Broken" using Cons.prems(3) by simp
    have "unat (sd_strikes d1) \<le> losses_in_a_row k acts1" using n by simp
    note IH = Cons.IH [OF rest this unbroken log1_def [symmetric]]
    show ?thesis
    proof
      assume ended
      with IH same obtain since i where i: "30 \<le> losses_in_a_row k acts" "log1 \<noteq> []"
        "silent_from i since (sd_stall_since d1) log1" "2000 \<le> as_millis (elapsed (fst (last log1)) since)" by auto
      have "\<exists>n. silent_from n since (sd_stall_since d) log"
      proof (cases "i < length log1 \<and> fst (log1 ! i) = since \<and> loses (snd (log1 ! i))")
        case True
        with i(3) have "silent_from (Suc i) since (sd_stall_since d) log" by (simp add: silent_from_def same)
        then show ?thesis by blast
      next
        case older: False
        with i(3) have at: "i = 0" "sd_stall_since d1 = Some since" by (auto simp: silent_from_def)
        from stall [OF at(2)] i(3) at(1) have "silent_from 0 since (sd_stall_since d) log"
          by (auto simp: silent_from_def same)
        then show ?thesis by blast
      qed
      with i same show "30 \<le> losses_in_a_row k acts
        \<and> (\<exists>since n. log \<noteq> [] \<and> silent_from n since (sd_stall_since d) log \<and> 2000 \<le> as_millis (elapsed (fst (last log)) since))"
        by auto
    qed
  qed
qed simp

text \<open>
  C34: only a broken stream or long silence ends a drive. Whatever is sent, a network that breaks no
  stream ends the drive only after 30 packets lost in a row, counted with those lost before, and
  when the last of them is lost two seconds or more after a loss since which no packet went out:
  one of this run, or the one the sender remembers if nothing went out in this run at all.
\<close>

theorem drive_survives_short_stalls:
  assumes "send_each held state dl events d = (d', acts, True)" "\<forall>n < length events. dl_write (dl n) \<noteq> Broken"
    and "send_log held state dl events d = log"
  shows "acts = concat (map snd log) \<and> 30 \<le> losses_in_a_row (unat (sd_strikes d)) acts
     \<and> (\<exists>since k. log \<noteq> [] \<and> 2000 \<le> as_millis (elapsed (fst (last log)) since)
          \<and> (\<forall>(at, sent) \<in> set (drop k log). \<not> goes_out sent)
          \<and> (k < length log \<and> fst (log ! k) = since \<and> loses (snd (log ! k)) \<or> k = 0 \<and> sd_stall_since d = Some since))"
  using send_each_strikes [OF assms(1) order_refl assms(2,3)] send_log_acts [OF assms(1)] assms(3)
  unfolding silent_from_def by blast

text \<open>After 29 losses since the start, a move is lost at three seconds.\<close>

definition last_loss :: "nat \<Rightarrow> delivery" where
  "last_loss n = \<lparr>dl_at = from_secs 3, dl_udp = False, dl_write = Stalled, dl_sync = True\<rparr>"

lemma drive_survives_short_stalls_witness:
  "\<exists>d' acts. send_each False no_keys last_loss [MouseMove 1 0] (fresh_sender\<lparr>sd_strikes := 29, sd_stall_since := Some 0\<rparr>)
       = (d', acts, True) \<and> 30 \<le> losses_in_a_row 29 acts"
proof -
  obtain d' acts where run: "send_each False no_keys last_loss [MouseMove 1 0]
      (fresh_sender\<lparr>sd_strikes := 29, sd_stall_since := Some 0\<rparr>) = (d', acts, True)"
    by (simp add: send_one_def send_stream_def last_loss_def fresh_sender_def spawn_episode_driver_def Let_def
        outgoing_wheel_event_def census_def mark_stalled_def breaker_def stall_breaker_tripped_def elapsed_def
        as_millis_def SEND_STALL_BREAKER_MS_def SEND_STALL_BREAKER_def from_secs_def is_motion_def is_wheel_def)
  have "\<forall>n < length [MouseMove 1 0]. dl_write (last_loss n) \<noteq> Broken" by (simp add: last_loss_def)
  from drive_survives_short_stalls [OF run this refl] have "30 \<le> losses_in_a_row (unat (sd_strikes
      (fresh_sender\<lparr>sd_strikes := 29, sd_stall_since := Some 0\<rparr>))) acts" by (elim conjE)
  with run show ?thesis by simp
qed

section \<open>A write that is given up half way\<close>

text \<open>
  The bounded writes give up a frame when time is out, with whatever part of it has gone, and the
  drive goes on. Once the length of the given-up frame has gone, the peer takes the next bytes that
  arrive, the header of the next frame first, for the rest of it.
\<close>

theorem torn_write_swallows_the_next_frame:
  assumes "write_frame to_json [] m1 = Inr f1" "4 \<le> k" "k < length f1" "length f1 \<le> k + length following"
  shows "read_frame from_json (take k f1 @ following)
    = (case from_json (drop 4 (take k f1) @ take (length f1 - k) following) of
         Inl e \<Rightarrow> Inl (InvalidData e)
       | Inr m \<Rightarrow> (case validate_message m of
           Inl e \<Rightarrow> Inl (InvalidData (error_text e)) | Inr _ \<Rightarrow> Inr (Some (m, drop (length f1 - k) following))))"
proof -
  obtain payload where payload: "to_json m1 = Inr payload" "length payload \<le> MAX_FRAME_SIZE"
      "f1 = be_encode 4 (of_nat (length payload) :: u32) @ payload"
    using assms(1) by (auto simp: write_frame_def split: sum.splits if_splits)
  have len: "length f1 = 4 + length payload" by (simp add: payload(3))
  have size: "unat (of_nat (length payload) :: u32) = length payload"
    using payload(2) by (simp add: MAX_FRAME_SIZE_def unsigned_of_nat take_bit_nat_eq_self)
  have header: "take 4 (take k f1) = be_encode 4 (of_nat (length payload) :: u32)"
    using assms(2) by (simp add: payload(3) min_absorb1)
  have start: "take 4 (take k f1 @ following) = be_encode 4 (of_nat (length payload) :: u32)"
    using assms(2,3) header by simp
  have tail: "drop 4 (take k f1 @ following) = drop 4 (take k f1) @ following"
    using assms(2,3) by simp
  have taken: "take (length payload) (drop 4 (take k f1) @ following) = drop 4 (take k f1) @ take (length f1 - k) following"
    and left: "drop (length payload) (drop 4 (take k f1) @ following) = drop (length f1 - k) following"
    using assms(2,3) len by (auto simp: add.commute)
  define reader where "reader = take k f1 @ following"
  have rest: "take (length payload) (drop 4 reader) = drop 4 (take k f1) @ take (length f1 - k) following"
    "drop (length payload) (drop 4 reader) = drop (length f1 - k) following"
    unfolding reader_def tail by (fact taken left)+
  have "unat (be_decode (take 4 reader) :: u32) = length payload"
    unfolding reader_def start by (simp add: size)
  moreover have "\<not> length reader < 4" "length payload \<noteq> 0" "\<not> length (drop 4 reader) < length payload"
    using assms(2-4) len by (auto simp: reader_def)
  ultimately have "read_frame from_json reader = (case from_json (take (length payload) (drop 4 reader)) of
       Inl e \<Rightarrow> Inl (InvalidData e)
     | Inr m \<Rightarrow> (case validate_message m of
         Inl e \<Rightarrow> Inl (InvalidData (error_text e)) | Inr _ \<Rightarrow> Inr (Some (m, drop (length payload) (drop 4 reader)))))"
    using payload(2) unfolding read_frame_def Let_def by (simp only: if_False not_le [symmetric] not_less simp_thms)
  then show ?thesis unfolding rest unfolding reader_def .
qed

end
