(* ===== verification/Driving.thy ===== *)
theory Driving
  imports Sending RouterRuns RouterOutcomes
begin

text \<open>
  The drive task of a controller, from \<^verbatim>\<open>kvm-daemon/src/service.rs\<close>: one captured event through
  \<^verbatim>\<open>handle_topology_event\<close>, with the session it sends to, the parked session, the grab of the
  local input and the router. What the platform and the network answer within the step is the
  record \<open>moment\<close>; the clock stands still within it. A step gives the new state, what it did
  in order, and whether the task goes on.
\<close>

section \<open>State and surroundings\<close>

text \<open>
  The grab of the local input is kept in three places. \<open>dv_exclusive\<close> is the wish, the flag
  \<open>exclusive\<close> of \<open>CaptureGuard\<close>, which the capture thread shares; \<open>dv_suppressed\<close> is what the
  task believes, its variable \<open>suppression_requested\<close>; \<open>dv_hold\<close> is what the platform holds.
  The task reads only its belief.
\<close>

record drive =
  dv_router :: edge_router
  dv_active :: "drive_session option"
  dv_parked :: "drive_session option"
  dv_exclusive :: bool
  dv_suppressed :: bool
  dv_hold :: bool
  dv_sequence :: u64
  dv_strikes :: u32
  dv_stall_since :: "instant option"
  dv_discarded :: u64
  dv_last_transfer :: "instant option"
  dv_last_yield :: "instant option"
  dv_last_failed :: "instant option"
  dv_last_outbound :: "instant option"
  dv_local_wheel :: u64
  dv_last_resync :: "instant option"
  dv_last_dims :: "instant option"
  dv_last_progress :: "instant option"
  dv_unacked_pings :: u32
  dv_divert_baseline :: u64
  dv_baselines_fresh :: bool

text \<open>
  What became of a parked stream when it is asked for, and of a new one; a failed opening may
  have numbered its first event.
\<close>

datatype park_state = ParkDead | ParkClosed | ParkFresh | ParkSilent bool

datatype open_result = Opened capabilities | LinkBanned | OpenFailed bool

record moment =
  mo_now :: instant
  mo_pointer :: "(u32 \<times> u32) option"
  mo_display :: "(u32 \<times> u32) option"
  mo_polls :: "(instant \<times> (u32 \<times> u32) option) list"
  mo_diverted :: u64
  mo_snapshot :: capture_snapshot
  mo_takes :: "bool \<Rightarrow> bool"
  mo_capture_released :: bool
  mo_delivery :: "nat \<Rightarrow> delivery"
  mo_release_written :: bool
  mo_park :: park_state
  mo_resumes :: bool
  mo_resume_numbered :: bool
  mo_opens :: open_result
  mo_warps :: bool
  mo_ping :: bool
  mo_parked_ping :: bool

record drive_params =
  dp_link :: "string option"
  dp_reverse_scroll :: bool

datatype verdict = GoesOn | Stops string

section \<open>Guards\<close>

definition INBOUND_YIELD_MIN_GROWTH :: u64 where "INBOUND_YIELD_MIN_GROWTH = 5"
definition DIVERT_SETTLE :: duration where "DIVERT_SETTLE = from_millis 600"
definition SCROLL_LOCK_USAGE :: hid_usage where "SCROLL_LOCK_USAGE = 0x47"

definition transfer_debounced :: "instant \<Rightarrow> instant option \<Rightarrow> bool" where
  "transfer_debounced now last_transfer =
     (case last_transfer of None \<Rightarrow> False | Some at \<Rightarrow> elapsed now at < from_millis 25)"

definition yield_cooling_down :: "instant \<Rightarrow> instant option \<Rightarrow> bool" where
  "yield_cooling_down now last_yield =
     (case last_yield of None \<Rightarrow> False | Some at \<Rightarrow> elapsed now at < from_millis 200)"

definition episode_cooling_down :: "instant \<Rightarrow> instant option \<Rightarrow> bool" where
  "episode_cooling_down now last_failed =
     (case last_failed of None \<Rightarrow> False | Some at \<Rightarrow> elapsed now at < from_secs 1)"

definition stale_hold_needs_release :: "bool \<Rightarrow> bool \<Rightarrow> bool" where
  "stale_hold_needs_release drive_active suppression_requested \<longleftrightarrow> suppression_requested \<and> \<not> drive_active"

definition is_scroll_lock_press :: "input_event \<Rightarrow> bool" where
  "is_scroll_lock_press event =
     (case event of Key key \<Rightarrow> ke_usage key = SCROLL_LOCK_USAGE \<and> ke_pressed key | _ \<Rightarrow> False)"

definition handoff_is_single_fling :: "input_event \<Rightarrow> bool" where
  "handoff_is_single_fling event =
     (case event of MouseMove dx dy \<Rightarrow> \<bar>sint dx\<bar> + \<bar>sint dy\<bar> \<ge> EDGE_PUSH_PX | _ \<Rightarrow> True)"

text \<open>
  \<open>handoff_truth_veto\<close>. The readings of the pointer go up to the one that decides; a fling has
  120 ms to settle.
\<close>

fun settle_truth ::
  "instant \<Rightarrow> int \<Rightarrow> edge \<Rightarrow> screen \<Rightarrow> (instant \<times> (u32 \<times> u32) option) list \<Rightarrow> (u32 \<times> u32) option" where
  "settle_truth deadline slack e scr [] = None"
| "settle_truth deadline slack e scr ((now, pointer) # polls) =
     (case pointer of
        None \<Rightarrow> None
      | Some (x, y) \<Rightarrow>
          if truth_gap e scr x y \<le> slack then None
          else if now \<ge> deadline then Some (x, y)
          else settle_truth deadline slack e scr polls)"

definition handoff_truth_veto :: "moment \<Rightarrow> edge_router \<Rightarrow> screen_id \<Rightarrow> edge \<Rightarrow> bool \<Rightarrow> (u32 \<times> u32) option" where
  "handoff_truth_veto mo r from e single_fling =
     (case screen_by_id (r_layout r) from of
        None \<Rightarrow> None
      | Some scr \<Rightarrow>
          settle_truth (mo_now mo + (if single_fling then from_millis 120 else 0))
            (if single_fling then 24 else EDGE_PUSH_PX) e scr (mo_polls mo))"

section \<open>Coming home\<close>

definition resync_home_to_truth :: "moment \<Rightarrow> edge_router \<Rightarrow> edge_router" where
  "resync_home_to_truth mo r = (case mo_pointer mo of None \<Rightarrow> r | Some (x, y) \<Rightarrow> resync_if_local x y r)"

text \<open>\<open>restore_local\<close>, whose result is discarded, and the measured pointer.\<close>

definition restore_home :: "moment \<Rightarrow> screen_id \<Rightarrow> edge_router \<Rightarrow> edge_router" where
  "restore_home mo target r = resync_home_to_truth mo (kept_at r (restore_local target r))"

definition warp_home :: "edge_router \<Rightarrow> drive_act" where
  "warp_home r = Warped (r_cursor_x r) (r_cursor_y r)"

definition sat_plus :: "'a :: len word \<Rightarrow> 'a word \<Rightarrow> 'a word" where
  "sat_plus a b = (if a + b < a then - 1 else a + b)"

definition park_inside :: "edge \<Rightarrow> edge_router \<Rightarrow> edge_router" where
  "park_inside e r =
     (let x = r_cursor_x r; y = r_cursor_y r;
          (px, py) = (case e of
              Left \<Rightarrow> (sat_plus x 8, y) | Right \<Rightarrow> (sat_sub x 8, y)
            | Top \<Rightarrow> (x, sat_plus y 8) | Bottom \<Rightarrow> (x, sat_sub y 8))
      in kept r (place_local_cursor px py r))"

text \<open>
  \<open>CaptureGuard::set_exclusive\<close> stores the wish and calls the platform. It cannot fail, and does
  not tell whether the platform took the call: a lost message leaves the hold as it was.
\<close>

definition set_exclusive :: "moment \<Rightarrow> bool \<Rightarrow> drive \<Rightarrow> drive" where
  "set_exclusive mo enabled d =
     d\<lparr>dv_exclusive := enabled, dv_hold := (if mo_takes mo enabled then enabled else dv_hold d)\<rparr>"

definition release_suppression :: "moment \<Rightarrow> drive \<Rightarrow> drive" where
  "release_suppression mo d = (set_exclusive mo False d)\<lparr>dv_suppressed := False\<rparr>"

definition raise_barrier :: "moment \<Rightarrow> drive \<Rightarrow> drive" where
  "raise_barrier mo d = d\<lparr>dv_discarded := max (dv_discarded d) (sn_last_event_id (mo_snapshot mo))\<rparr>"

definition release_acts :: "drive_act list" where
  "release_acts = [Suppressed False]"

section \<open>Before the event is routed\<close>

text \<open>The local cursor follows the visible one, and the screen its measured size.\<close>

definition follow_truth :: "moment \<Rightarrow> drive \<Rightarrow> drive" where
  "follow_truth mo d =
     (let r = dv_router d;
          throttle = from_millis (if near_crossing_edge r 64 then 20 else 50);
          due = (case dv_last_resync d of None \<Rightarrow> True | Some at \<Rightarrow> throttle \<le> elapsed (mo_now mo) at)
      in if due then d\<lparr>dv_last_resync := Some (mo_now mo), dv_router := resync_home_to_truth mo r\<rparr> else d)"

definition follow_display :: "moment \<Rightarrow> drive \<Rightarrow> drive option" where
  "follow_display mo d =
     (let due = (case dv_last_dims d of None \<Rightarrow> True | Some at \<Rightarrow> from_secs 5 \<le> elapsed (mo_now mo) at)
      in if \<not> due then Some d
         else
           (let r = dv_router d; d1 = d\<lparr>dv_last_dims := Some (mo_now mo)\<rparr>
            in case mo_display mo of
                 None \<Rightarrow> Some d1
               | Some (width, height) \<Rightarrow>
                   (case screen_by_id (r_layout r) (r_local_screen r) of
                      None \<Rightarrow> Some d1
                    | Some scr \<Rightarrow>
                        if (scr_width scr, scr_height scr) = (width, height) then Some d1
                        else map_option (\<lambda>(r1, _). d1\<lparr>dv_router := r1\<rparr>) (adopt_local_screen_size width height r))))"

definition before_routing :: "moment \<Rightarrow> input_event \<Rightarrow> drive \<Rightarrow> drive option" where
  "before_routing mo event d =
     (if is_motion event \<and> r_current_screen (dv_router d) = r_local_screen (dv_router d)
         \<and> r_active_remote (dv_router d) = None
      then follow_display mo (follow_truth mo d) else Some d)"

text \<open>Scroll Lock locks control to this computer, and unlocks it.\<close>

definition toggle_lock :: "moment \<Rightarrow> drive \<Rightarrow> drive \<times> drive_act list" where
  "toggle_lock mo d =
     (if r_locked (dv_router d) then (d\<lparr>dv_router := set_locked False (dv_router d)\<rparr>, [])
      else
        (let (d1, acts) = (case dv_active d of
               None \<Rightarrow> (d, [])
             | Some s \<Rightarrow>
                 (let d2 = raise_barrier mo (release_suppression mo (d\<lparr>dv_active := None\<rparr>));
                      r = restore_home mo (ts_target s) (dv_router d)
                  in (d2\<lparr>dv_router := r\<rparr>, release_acts @ [warp_home r])))
         in (d1\<lparr>dv_parked := None, dv_router := set_locked True (dv_router d1)\<rparr>, acts)))"

section \<open>Yielding to the peer\<close>

definition yields :: "moment \<Rightarrow> drive \<Rightarrow> bool" where
  "yields mo d \<longleftrightarrow>
     dv_active d \<noteq> None
     \<and> uint (mo_diverted mo) > min (uint (dv_divert_baseline d) + (uint INBOUND_YIELD_MIN_GROWTH - 1)) (2 ^ 64 - 1)
     \<and> DIVERT_SETTLE \<le> (case dv_last_transfer d of None \<Rightarrow> 0 | Some at \<Rightarrow> elapsed (mo_now mo) at)"

definition yield_drive_to_inbound :: "moment \<Rightarrow> drive \<Rightarrow> drive \<times> drive_act list" where
  "yield_drive_to_inbound mo d =
     (case dv_active d of
        None \<Rightarrow> (d, [])
      | Some s \<Rightarrow>
          (let d1 = raise_barrier mo (release_suppression mo (d\<lparr>dv_active := None\<rparr>));
               r = restore_home mo (ts_target s) (dv_router d);
               gated = kept r (set_local_cursor_position (r_cursor_x r) (r_cursor_y r) r)
           in (d1\<lparr>dv_parked := Some s, dv_last_transfer := Some (mo_now mo), dv_last_yield := Some (mo_now mo),
                 dv_router := gated\<rparr>,
               release_acts @ (if mo_release_written mo then [ReleasedAll] else []) @ [warp_home r])))"

section \<open>The arms\<close>

definition with_sender :: "sender \<Rightarrow> drive \<Rightarrow> drive" where
  "with_sender sd d = d\<lparr>dv_active := Some (sd_session sd), dv_sequence := sd_sequence sd,
     dv_strikes := sd_strikes sd, dv_stall_since := sd_stall_since sd\<rparr>"

definition end_episode :: "moment \<Rightarrow> screen_id \<Rightarrow> drive \<Rightarrow> drive \<times> drive_act list" where
  "end_episode mo target d =
     (let d1 = raise_barrier mo (release_suppression mo (d\<lparr>dv_active := None, dv_parked := None\<rparr>));
          r = restore_home mo target (dv_router d)
      in (d1\<lparr>dv_router := r, dv_last_failed := Some (mo_now mo)\<rparr>, release_acts @ [warp_home r]))"

definition forward_event ::
  "drive_params \<Rightarrow> moment \<Rightarrow> screen_id \<Rightarrow> input_event \<Rightarrow> drive \<Rightarrow> drive \<times> drive_act list \<times> verdict" where
  "forward_event dp mo target event d =
     (case dv_active d of
        None \<Rightarrow>
          (let r = restore_home mo target (dv_router d)
           in (d\<lparr>dv_router := r\<rparr>, [warp_home r], GoesOn))
      | Some s \<Rightarrow>
          if ts_target s \<noteq> target then (d, [], Stops ''topology router/session target mismatch'')
          else
            (let state = sn_state (mo_snapshot mo);
                 (events, pinch_held) =
                   pinch_for_send (apply_reverse_scroll event (dp_reverse_scroll dp)) (ts_peer_pinch s)
                     (HID_LEFT_CTRL \<in> set (st_pressed_keys state)) (ts_pinch_held s);
                 (sd, acts, ended) =
                   send_each (st_pressed_keys state \<noteq> []) state (mo_delivery mo) events
                     \<lparr>sd_session = s\<lparr>ts_pinch_held := pinch_held\<rparr>, sd_sequence = dv_sequence d,
                       sd_strikes = dv_strikes d, sd_stall_since = dv_stall_since d\<rparr>;
                 d1 = (with_sender sd d)\<lparr>dv_last_outbound := Some (mo_now mo)\<rparr>
             in if ended
                then (case end_episode mo (ts_target s) d1 of (d2, acts2) \<Rightarrow> (d2, acts @ acts2, GoesOn))
                else (d1, acts, GoesOn)))"

definition return_from_drive :: "moment \<Rightarrow> drive \<Rightarrow> drive \<times> drive_act list" where
  "return_from_drive mo d =
     (let d1 = release_suppression mo d;
          acts = release_acts @ (if dv_active d \<noteq> None \<and> mo_release_written mo then [ReleasedAll] else []);
          d2 = (case dv_active d1 of None \<Rightarrow> d1 | Some s \<Rightarrow> d1\<lparr>dv_active := None, dv_parked := Some s\<rparr>)
      in ((raise_barrier mo d2)\<lparr>dv_last_transfer := Some (mo_now mo)\<rparr>, acts @ [warp_home (dv_router d)]))"

text \<open>A crossing that is refused: home again, and a step inside.\<close>

definition refuse :: "moment \<Rightarrow> screen_id \<Rightarrow> edge \<Rightarrow> drive \<Rightarrow> drive" where
  "refuse mo target e d = d\<lparr>dv_router := park_inside e (restore_home mo target (dv_router d))\<rparr>"

definition refuse_for_truth :: "moment \<Rightarrow> screen_id \<Rightarrow> edge \<Rightarrow> bool \<Rightarrow> u32 \<times> u32 \<Rightarrow> drive \<Rightarrow> drive" where
  "refuse_for_truth mo target e single_fling at d =
     (let r = resync_if_local (fst at) (snd at) (restore_home mo target (dv_router d))
      in d\<lparr>dv_router := (if single_fling then park_inside e r else r)\<rparr>)"

text \<open>The first event of a drive goes out on the episode stream.\<close>

definition first_event ::
  "input_event option \<Rightarrow> drive_session \<Rightarrow> u64 \<Rightarrow> drive_session \<times> u64 \<times> drive_act list" where
  "first_event first s sequence =
     (case first of
        None \<Rightarrow> (s, sequence, [])
      | Some event \<Rightarrow>
          (case outgoing_wheel_event event (ts_peer_smooth s) (ts_wheel_debt s) of
             (debt, None) \<Rightarrow> (s\<lparr>ts_wheel_debt := debt\<rparr>, sequence, [])
           | (debt, Some outgoing) \<Rightarrow>
               (s\<lparr>ts_wheel_debt := debt\<rparr>, sequence + 1, [Sent Episode (sequence + 1) outgoing])))"

definition take_parked_for :: "moment \<Rightarrow> screen_id \<Rightarrow> drive_session option \<Rightarrow> drive_session option" where
  "take_parked_for mo target parked =
     (case parked of
        None \<Rightarrow> None
      | Some s \<Rightarrow>
          if ts_target s \<noteq> target then None
          else (case mo_park mo of ParkFresh \<Rightarrow> Some s | ParkSilent ponged \<Rightarrow> if ponged then Some s else None
                | _ \<Rightarrow> None))"

text \<open>
  The greeting of a drive, for a resumed and for a new stream. A handoff that cannot be named
  fails before anything is written.
\<close>

definition greet ::
  "moment \<Rightarrow> edge_router \<Rightarrow> screen_id \<Rightarrow> u32 \<Rightarrow> u32 \<Rightarrow> input_event option \<Rightarrow> drive_session \<Rightarrow> u64
     \<Rightarrow> (drive_session \<times> u64 \<times> drive_act list) option" where
  "greet mo r target tx ty first s sequence =
     (case handoff_wire_target (r_layout r) target tx ty (ts_peer_geometry s) of
        Inl _ \<Rightarrow> None
      | Inr (name, x, y, geometry) \<Rightarrow>
          (case first_event first s sequence of
             (s1, sequence1, acts) \<Rightarrow>
               Some (s1\<lparr>ts_handed_off := True\<rparr>, sequence1,
                 HandedOff target name x y geometry (sn_state (mo_snapshot mo)) # acts)))"

definition resume_parked ::
  "moment \<Rightarrow> edge_router \<Rightarrow> screen_id \<Rightarrow> u32 \<Rightarrow> u32 \<Rightarrow> input_event option \<Rightarrow> u64 \<Rightarrow> drive_session option \<Rightarrow> u64
     \<Rightarrow> (drive_session \<times> drive_act list) option \<times> u64" where
  "resume_parked mo r target tx ty first barrier parked sequence =
     (case take_parked_for mo target parked of
        None \<Rightarrow> (None, sequence)
      | Some s \<Rightarrow>
          (case greet mo r target tx ty first (s\<lparr>ts_event_barrier := barrier\<rparr>) sequence of
             None \<Rightarrow> (None, sequence)
           | Some (s1, sequence1, acts) \<Rightarrow>
               if mo_resumes mo then (Some (s1, acts), sequence1)
               else (None, if mo_resume_numbered mo then sequence1 else sequence)))"

text \<open>The exit border the local cursor is put on.\<close>

definition exit_border :: "edge \<Rightarrow> edge_router \<Rightarrow> drive_act list" where
  "exit_border e r =
     (case screen_by_id (r_layout r) (r_local_screen r) of
        None \<Rightarrow> []
      | Some scr \<Rightarrow>
          (let lx = r_local_cursor_x r; ly = r_local_cursor_y r;
               mx = sat_sub (scr_width scr) 1; my = sat_sub (scr_height scr) 1
           in [case e of
                 Left \<Rightarrow> Warped 0 (min ly my) | Right \<Rightarrow> Warped mx (min ly my)
               | Top \<Rightarrow> Warped (min lx mx) 0 | Bottom \<Rightarrow> Warped (min lx mx) my]))"

definition adopt_peer_geometry :: "string option \<Rightarrow> screen_geometry option \<Rightarrow> edge_router \<Rightarrow> edge_router option" where
  "adopt_peer_geometry fingerprint geometry r =
     (case (fingerprint, geometry) of
        (Some fp, Some g) \<Rightarrow>
          if sg_width g < 2 \<or> sg_height g < 2 then Some r
          else map_option fst (adopt_peer_screen_size fp (sg_width g) (sg_height g) r)
      | _ \<Rightarrow> Some r)"

definition activate ::
  "drive_params \<Rightarrow> moment \<Rightarrow> edge \<Rightarrow> drive_session \<Rightarrow> drive \<Rightarrow> (drive \<times> drive_act list \<times> verdict) option" where
  "activate dp mo e s d =
     map_option (\<lambda>r. ((set_exclusive mo True d)\<lparr>dv_suppressed := True, dv_last_progress := None,
          dv_unacked_pings := 0, dv_last_transfer := Some (mo_now mo), dv_strikes := 0, dv_stall_since := None,
          dv_router := r, dv_active := Some s, dv_divert_baseline := mo_diverted mo,
          dv_baselines_fresh := False\<rparr>, exit_border e (dv_router d) @ [Suppressed True], GoesOn))
       (adopt_peer_geometry (dp_link dp) (ts_peer_geometry s) (dv_router d))"

text \<open>A stream that had to be opened, when no parked one could be resumed.\<close>

definition open_cold ::
  "drive_params \<Rightarrow> moment \<Rightarrow> screen_id \<Rightarrow> u32 \<Rightarrow> u32 \<Rightarrow> input_event \<Rightarrow> u64 \<Rightarrow> edge \<Rightarrow> drive
     \<Rightarrow> (drive \<times> drive_act list \<times> verdict) option" where
  "open_cold dp mo target tx ty event barrier e d =
     (let failed = (\<lambda>sent. (refuse mo target e (release_suppression mo
              (d\<lparr>dv_last_failed := Some (mo_now mo),
                 dv_sequence := (if sent then dv_sequence d + 1 else dv_sequence d)\<rparr>)),
            release_acts, GoesOn))
      in if episode_cooling_down (mo_now mo) (dv_last_failed d) then Some (refuse mo target e d, [], GoesOn)
         else case mo_opens mo of
           LinkBanned \<Rightarrow> Some (d, [], Stops ''link ended'')
         | OpenFailed sent \<Rightarrow> Some (failed sent)
         | Opened c \<Rightarrow>
             (case greet mo (dv_router d) target tx ty (Some event) (spawn_episode_driver c target barrier) (dv_sequence d) of
                None \<Rightarrow> Some (failed False)
              | Some (s, sequence, acts) \<Rightarrow>
                  map_option (\<lambda>(d1, acts1, v). (d1, acts @ acts1, v))
                    (activate dp mo e s (d\<lparr>dv_sequence := sequence\<rparr>))))"

definition linked_screen :: "drive_params \<Rightarrow> screen_id \<Rightarrow> edge_router \<Rightarrow> bool" where
  "linked_screen dp target r =
     (case dp_link dp of
        None \<Rightarrow> True
      | Some fp \<Rightarrow> (case screen_by_id (r_layout r) target of None \<Rightarrow> False | Some scr \<Rightarrow> scr_peer scr = Some fp))"

definition open_drive ::
  "drive_params \<Rightarrow> moment \<Rightarrow> u64 \<Rightarrow> screen_id \<Rightarrow> screen_id \<Rightarrow> edge \<Rightarrow> u32 \<Rightarrow> u32 \<Rightarrow> input_event \<Rightarrow> drive
     \<Rightarrow> (drive \<times> drive_act list \<times> verdict) option" where
  "open_drive dp mo event_id from target e tx ty event d =
     (if dv_active d \<noteq> None then Some (d, [], Stops ''topology router attempted a second active handoff'')
      else if \<not> linked_screen dp target (dv_router d) then Some (refuse mo target e d, [], GoesOn)
      else if transfer_debounced (mo_now mo) (dv_last_transfer d) then Some (refuse mo target e d, [], GoesOn)
      else if yield_cooling_down (mo_now mo) (dv_last_yield d) then Some (refuse mo target e d, [], GoesOn)
      else
        (let single = handoff_is_single_fling event
         in case handoff_truth_veto mo (dv_router d) from e single of
              Some at \<Rightarrow> Some (refuse_for_truth mo target e single at d, [], GoesOn)
            | None \<Rightarrow>
                (case resume_parked mo (dv_router d) target tx ty (Some event) event_id (dv_parked d) (dv_sequence d) of
                   (Some (s, acts), sequence) \<Rightarrow>
                     map_option (\<lambda>(d1, acts1, v). (d1, acts @ acts1, v))
                       (activate dp mo e s (d\<lparr>dv_parked := None, dv_sequence := sequence\<rparr>))
                 | (None, sequence) \<Rightarrow>
                     open_cold dp mo target tx ty event event_id e (d\<lparr>dv_parked := None, dv_sequence := sequence\<rparr>))))"

section \<open>One event\<close>

text \<open>\<open>None\<close> is a panic.\<close>

definition dispatch ::
  "drive_params \<Rightarrow> moment \<Rightarrow> u64 \<Rightarrow> routed_event \<Rightarrow> drive \<Rightarrow> (drive \<times> drive_act list \<times> verdict) option" where
  "dispatch dp mo event_id routed d =
     (case routed of
        Local event \<Rightarrow>
          Some (if is_wheel event then d\<lparr>dv_local_wheel := dv_local_wheel d + 1\<rparr> else d, [],
            if mo_capture_released mo then GoesOn else Stops ''release of the capture failed'')
      | Forward target event \<Rightarrow> Some (forward_event dp mo target event d)
      | ReturnHome from e entry armed \<Rightarrow> (case return_from_drive mo d of (d1, acts) \<Rightarrow> Some (d1, acts, GoesOn))
      | Handoff from target e tx ty event \<Rightarrow> open_drive dp mo event_id from target e tx ty event d)"

definition handle_topology_event ::
  "drive_params \<Rightarrow> moment \<Rightarrow> captured_event \<Rightarrow> drive \<Rightarrow> (drive \<times> drive_act list \<times> verdict) option" where
  "handle_topology_event dp mo captured d0 =
     (case before_routing mo (ce_event captured) d0 of
        None \<Rightarrow> None
      | Some d \<Rightarrow>
          if is_scroll_lock_press (ce_event captured)
          then (case toggle_lock mo d of (d1, acts) \<Rightarrow> Some (d1, acts, GoesOn))
          else if yields mo d
          then (case yield_drive_to_inbound mo d of (d1, acts) \<Rightarrow> Some (d1, acts, GoesOn))
          else
            (case route (mo_now mo) (ce_event captured) (dv_router d) of
               None \<Rightarrow> None
             | Some (r, routed) \<Rightarrow> dispatch dp mo (ce_event_id captured) routed (d\<lparr>dv_router := r\<rparr>)))"

text \<open>The arms of the task that lead to it: the barrier, and a peer that closes its stream.\<close>

definition handle_captured ::
  "drive_params \<Rightarrow> moment \<Rightarrow> captured_event \<Rightarrow> drive \<Rightarrow> (drive \<times> drive_act list \<times> verdict) option" where
  "handle_captured dp mo captured d =
     (if event_passes_barrier (ce_event_id captured) (dv_discarded d) (map_option ts_event_barrier (dv_active d))
           (is_release (ce_event captured))
      then handle_topology_event dp mo captured d else Some (d, [], GoesOn))"

definition peer_closed :: "moment \<Rightarrow> drive \<Rightarrow> drive \<times> drive_act list" where
  "peer_closed mo d =
     (case dv_active d of
        None \<Rightarrow> (d, [])
      | Some s \<Rightarrow>
          (let d1 = raise_barrier mo (release_suppression mo (d\<lparr>dv_active := None\<rparr>));
               r = restore_home mo (ts_target s) (dv_router d)
           in (d1\<lparr>dv_router := r\<rparr>, release_acts @ [warp_home r])))"

end
