(* ===== verification/DrivingRuns.thy ===== *)
theory DrivingRuns
  imports Driving
begin

text \<open>
  What any sequence of captured events and closing peers keeps: the router and the session
  agree on the driven screen, local input is grabbed exactly while a screen is driven, and a lock
  is total.
\<close>

section \<open>The router's answers\<close>

lemma resync_if_local_remote [simp]:
  "r_active_remote (resync_if_local x y r) = r_active_remote r"
  "r_locked (resync_if_local x y r) = r_locked r"
  by (auto simp: resync_if_local_def Let_def correct_push_run_def split: option.splits)

lemma clamp_to_edge_local: "\<exists>ev. snd (clamp_to_edge nx ny w h why r) = Local ev"
  by (simp add: clamp_to_edge_def Let_def)

lemma route_local_result:
  assumes ok: "router_ok r" and act: "r_active_remote r = None" and h: "route now ev r = Some (r', out)"
  shows "case out of Local _ \<Rightarrow> r_active_remote r' = None
    | Handoff _ target _ _ _ _ \<Rightarrow> r_active_remote r' = Some target \<and> \<not> r_locked r
    | _ \<Rightarrow> False"
proof (cases "\<exists>dx dy. ev = MouseMove dx dy")
  case False
  with h act show ?thesis by (cases ev) (auto simp: route_def)
next
  case True
  then obtain dx dy where ev: "ev = MouseMove dx dy" by blast
  obtain s where s: "screen_by_id (r_layout r) (r_current_screen r) = Some s" "scr_width s \<noteq> 0" "scr_height s \<noteq> 0"
    using ok by (rule router_ok_current_screen)
  let ?nx = "uint (r_cursor_x r) + sint dx" and ?ny = "uint (r_cursor_y r) + sint dy"
  have clamped: ?thesis
    if "Some (clamp_to_edge ?nx ?ny (scr_width s) (scr_height s) why r1) = Some (r', out)" "r_active_remote r1 = None" for why r1
    using that clamp_to_edge_fields(4) [of ?nx ?ny "scr_width s" "scr_height s" why r1]
      clamp_to_edge_local [of ?nx ?ny "scr_width s" "scr_height s" why r1] by auto
  show ?thesis
  proof (cases "edge_for_overflow ?nx ?ny (scr_width s) (scr_height s)")
    case None
    with h act s ev show ?thesis by (auto simp: route_def Let_def)
  next
    case (Some e)
    have over: "local_overflow now s e ?nx ?ny r = Some (r', out)"
      using h act s Some ev by (simp add: route_def Let_def)
    show ?thesis
      using ok s(1) Some overflow_px_bound
    proof (cases rule: local_overflow_cases [where now = now])
      case (gated why)
      with over clamped [of why "clear_push r"] act show ?thesis by simp
    next
      case (budget r1)
      with over clamped [of PushBudget r1] act show ?thesis by simp
    next
      case (cross r1 target)
      have "target \<in> set (screen_ids (r_layout r))"
        using cross(4) crossing_target_in_layout router_okD(1) [OF ok] by (auto simp: crossing_target_def)
      then obtain t where t: "screen_by_id (r_layout r1) target = Some t"
        using screen_by_id_ex cross(2) by fastforce
      obtain r2 x y where commit: "commit_handoff now s e target (overflow_px e ?nx ?ny (scr_width s) (scr_height s)) r1
          = Some (r2, Handoff (r_current_screen r1) target e x y
              (handoff_remainder e (overflow_px e ?nx ?ny (scr_width s) (scr_height s))))" "r_active_remote r2 = Some target"
        by (rule commit_handoff_Some [OF t]) blast
      have "\<not> r_locked r" using cross(1) by (auto simp: gate_reason_def split: if_splits)
      with commit over cross(5) show ?thesis by auto
    qed
  qed
qed

text \<open>One routed event: who is driven before and after it.\<close>

lemma route_result:
  assumes ok: "router_ok r" and h: "route now ev r = Some (r', out)"
  shows "router_ok r'" "r_locked r' = r_locked r" "r_layout r' = r_layout r" "r_local_screen r' = r_local_screen r"
    and "case out of
        Local _ \<Rightarrow> r_active_remote r = None \<and> r_active_remote r' = None
      | Forward target _ \<Rightarrow> r_active_remote r = Some target \<and> r_active_remote r' = Some target
      | ReturnHome from _ _ _ \<Rightarrow> r_active_remote r = Some from \<and> r_active_remote r' = None
      | Handoff _ target _ _ _ _ \<Rightarrow> r_active_remote r = None \<and> r_active_remote r' = Some target \<and> \<not> r_locked r"
proof -
  obtain r2 ev2 where "route now ev r = Some (r2, ev2)" "router_ok r2" using ok by (rule route_ok)
  with h show ok': "router_ok r'" by simp
  show "r_locked r' = r_locked r" "r_layout r' = r_layout r" "r_local_screen r' = r_local_screen r"
    using settings_route [OF h] by (simp_all add: settings_def)
  show "case out of
        Local _ \<Rightarrow> r_active_remote r = None \<and> r_active_remote r' = None
      | Forward target _ \<Rightarrow> r_active_remote r = Some target \<and> r_active_remote r' = Some target
      | ReturnHome from _ _ _ \<Rightarrow> r_active_remote r = Some from \<and> r_active_remote r' = None
      | Handoff _ target _ _ _ _ \<Rightarrow> r_active_remote r = None \<and> r_active_remote r' = Some target \<and> \<not> r_locked r"
  proof (cases "r_active_remote r")
    case None
    with route_local_result [OF ok None h] show ?thesis by (cases out) auto
  next
    case (Some target)
    note remote = route_remote_not_handoff [OF ok Some h]
    show ?thesis
    proof (cases out)
      case (Forward t e)
      then have "t = target" using remote by auto
      moreover have "r_active_remote r' = Some target"
      proof (cases "\<exists>dx dy. ev = MouseMove dx dy")
        case False
        with h Some show ?thesis by (cases ev) (auto simp: route_def)
      next
        case True
        then obtain dx dy where ev: "ev = MouseMove dx dy" by blast
        obtain s where s: "screen_by_id (r_layout r) (r_current_screen r) = Some s"
          using ok by (rule router_ok_current_screen)
        let ?nx = "uint (r_cursor_x r) + sint dx" and ?ny = "uint (r_cursor_y r) + sint dy"
        show ?thesis
        proof (cases "edge_for_overflow ?nx ?ny (scr_width s) (scr_height s)")
          case None
          with h Some s ev show ?thesis by (auto simp: route_def Let_def)
        next
          case edge: (Some e)
          have over: "remote_overflow now target ev s e ?nx ?ny r = Some (r', out)"
            using h Some s ev edge by (simp add: route_def Let_def)
          show ?thesis
            using ok Some s
          proof (cases rule: remote_overflow_cases [where now = now and ev = ev and e = e and nx = ?nx and ny = ?ny])
            case (stay r1 cx cy)
            with over Some show ?thesis by auto
          next
            case (home r1)
            then have "return_home now target e r1 = (r', out)" using over by simp
            from return_home_ok [OF home(2) this home(3)] Forward show ?thesis by simp
          qed
        qed
      qed
      ultimately show ?thesis using Some Forward by simp
    next
      case (ReturnHome src e entry armed)
      obtain r1 where "r_active_remote r = Some src" "router_ok r1" "r_active_remote r1 = Some src"
        "return_home now src e r1 = (r', ReturnHome src e entry armed)"
        by (rule route_return_homeE [OF ok h [unfolded ReturnHome]]) blast
      with return_home_ok [of r1 now src e r'] ReturnHome show ?thesis by simp
    qed (use remote in auto)
  qed
qed

section \<open>Coming home\<close>

lemma restore_local_ex:
  assumes "router_ok r" "r_active_remote r = Some from"
  shows "\<exists>r' cx cy. restore_local from r = Inr (r', cx, cy)"
  using assms router_ok_local_screen [OF assms(1)]
  by (auto simp: restore_local_def Let_def)

lemma restore_local_locked: "restore_local from r = Inr (r', cx, cy) \<Longrightarrow> r_locked r' = r_locked r"
  by (auto simp: restore_local_def Let_def split: if_splits option.splits)

lemma resync_home_keeps:
  "router_ok r \<Longrightarrow> router_ok (resync_home_to_truth mo r)"
  "r_active_remote (resync_home_to_truth mo r) = r_active_remote r"
  "r_locked (resync_home_to_truth mo r) = r_locked r"
  by (simp_all add: resync_home_to_truth_def resync_if_local_ok split: option.split)

lemma restore_home_keeps:
  assumes "router_ok r" "r_active_remote r = None \<or> r_active_remote r = Some target"
  shows "router_ok (restore_home mo target r)" "r_active_remote (restore_home mo target r) = None"
    "r_locked (restore_home mo target r) = r_locked r"
proof -
  obtain r1 where r1: "kept_at r (restore_local target r) = r1" "router_ok r1" "r_active_remote r1 = None" "r_locked r1 = r_locked r"
  proof (cases "r_active_remote r")
    case None
    then have "restore_local target r = Inl (NotActiveRemote target None)" by (simp add: restore_local_def)
    with that [of r] None assms(1) show ?thesis by (simp add: kept_at_def)
  next
    case (Some t)
    with assms obtain r' cx cy where "restore_local target r = Inr (r', cx, cy)" using restore_local_ex by fastforce
    with that [of r'] restore_local_ok [OF assms(1)] restore_local_locked show ?thesis by (auto simp: kept_at_def)
  qed
  then show "router_ok (restore_home mo target r)" "r_active_remote (restore_home mo target r) = None"
    "r_locked (restore_home mo target r) = r_locked r"
    by (simp_all add: restore_home_def resync_home_keeps)
qed

lemma seed_keeps:
  assumes "router_ok r"
  shows "router_ok (kept r (seed_position x y g r))" "r_active_remote (kept r (seed_position x y g r)) = r_active_remote r"
    "r_locked (kept r (seed_position x y g r)) = r_locked r"
proof -
  show "router_ok (kept r (seed_position x y g r))"
    using seed_position_Inr [of x y g r] assms by (auto simp: kept_def split: sum.splits)
  show "r_active_remote (kept r (seed_position x y g r)) = r_active_remote r"
    "r_locked (kept r (seed_position x y g r)) = r_locked r"
    by (auto simp: kept_def seed_position_def Let_def split: sum.splits option.splits if_splits)
qed

lemma park_inside_keeps:
  assumes "router_ok r"
  shows "router_ok (park_inside e r)" "r_active_remote (park_inside e r) = r_active_remote r"
    "r_locked (park_inside e r) = r_locked r"
  using seed_keeps [OF assms] by (cases e; simp add: park_inside_def place_local_cursor_def Let_def)+

section \<open>The invariant\<close>

text \<open>
  \<open>in_step\<close>: router and session name the same driven screen, a lock is total, and the task
  believes that it grabbed the input exactly while it drives, and wishes it only then.
\<close>

definition agrees :: "edge_router \<Rightarrow> drive_session option \<Rightarrow> bool" where
  "agrees r s \<longleftrightarrow> router_ok r \<and> r_active_remote r = map_option ts_target s"

definition lock_total :: "drive \<Rightarrow> bool" where
  "lock_total d \<longleftrightarrow> (r_locked (dv_router d) \<longrightarrow> dv_active d = None \<and> dv_parked d = None)"

definition grab_known :: "drive \<Rightarrow> bool" where
  "grab_known d \<longleftrightarrow> (dv_suppressed d \<longleftrightarrow> dv_active d \<noteq> None) \<and> (dv_exclusive d \<longrightarrow> dv_active d \<noteq> None)"

definition in_step :: "drive \<Rightarrow> bool" where
  "in_step d \<longleftrightarrow> agrees (dv_router d) (dv_active d) \<and> lock_total d \<and> grab_known d"

text \<open>
  What a step does to the grab: a drive that it starts, or hands on, is wished and called for, one
  that goes on keeps wish and hold, and the end of one clears the wish and calls for the release.
  The hold follows where the platform takes the call.
\<close>

definition grab_follows :: "moment \<Rightarrow> drive \<Rightarrow> drive \<Rightarrow> bool" where
  "grab_follows mo d d' \<longleftrightarrow>
     (if dv_active d' \<noteq> None
      then dv_active d \<noteq> None \<and> dv_exclusive d' = dv_exclusive d \<and> dv_hold d' = dv_hold d
           \<or> dv_exclusive d' \<and> (mo_takes mo True \<longrightarrow> dv_hold d')
      else dv_active d = None \<and> dv_hold d' = dv_hold d \<or> (mo_takes mo False \<longrightarrow> \<not> dv_hold d'))"

lemma grab_follows_same:
  "dv_active d' = dv_active d \<Longrightarrow> dv_exclusive d' = dv_exclusive d \<Longrightarrow> dv_hold d' = dv_hold d \<Longrightarrow> grab_follows mo d d'"
  by (simp add: grab_follows_def)

lemma grab_follows_trans: "grab_follows mo d d1 \<Longrightarrow> grab_follows mo d1 d2 \<Longrightarrow> grab_follows mo d d2"
  unfolding grab_follows_def by (cases "dv_active d1 = None"; cases "dv_active d2 = None"; simp; blast)

text \<open>A step keeps the invariant, and the barrier rises when it ends a drive.\<close>

definition step_keeps :: "moment \<Rightarrow> drive \<Rightarrow> drive \<Rightarrow> bool" where
  "step_keeps mo d d' \<longleftrightarrow> in_step d' \<and> grab_follows mo d d'
     \<and> dv_discarded d \<le> dv_discarded d'
     \<and> (dv_active d \<noteq> None \<and> dv_active d' = None \<longrightarrow> sn_last_event_id (mo_snapshot mo) \<le> dv_discarded d')"

lemma resync_agrees: "agrees r s \<Longrightarrow> agrees (resync_home_to_truth mo r) s"
  by (simp add: agrees_def resync_home_keeps)

lemma restore_agrees:
  "router_ok r \<Longrightarrow> r_active_remote r = None \<or> r_active_remote r = Some target \<Longrightarrow> agrees (restore_home mo target r) None"
  by (simp add: agrees_def restore_home_keeps)

lemma agrees_restore_locked:
  "agrees r (Some s) \<Longrightarrow> r_locked (restore_home mo (ts_target s) r) = r_locked r"
  by (simp add: agrees_def restore_home_keeps)

lemma park_agrees: "agrees r s \<Longrightarrow> agrees (park_inside e r) s"
  by (simp add: agrees_def park_inside_keeps)

section \<open>Before the event is routed\<close>

lemma adopt_local_keeps:
  assumes "adopt_local_screen_size w h r = Some (r', a)"
  shows "r_active_remote r' = r_active_remote r" "r_locked r' = r_locked r"
  using assms by (auto simp: adopt_local_screen_size_def Let_def split: prod.splits if_splits option.splits)

lemma adopt_peer_keeps:
  assumes "adopt_peer_screen_size fp w h r = Some (r', a)"
  shows "r_active_remote r' = r_active_remote r" "r_locked r' = r_locked r"
  using assms by (auto simp: adopt_peer_screen_size_def Let_def split: prod.splits if_splits option.splits)

text \<open>A state that differs only in its router, and in what does not matter here.\<close>

definition same_but_router :: "drive \<Rightarrow> drive \<Rightarrow> bool" where
  "same_but_router d d' \<longleftrightarrow> dv_active d' = dv_active d \<and> dv_parked d' = dv_parked d
     \<and> dv_exclusive d' = dv_exclusive d \<and> dv_suppressed d' = dv_suppressed d \<and> dv_hold d' = dv_hold d
     \<and> dv_discarded d' = dv_discarded d \<and> r_locked (dv_router d') = r_locked (dv_router d)"

lemma same_but_router_refl [simp]: "same_but_router d d"
  by (simp add: same_but_router_def)

lemma same_but_router_trans: "same_but_router d d1 \<Longrightarrow> same_but_router d1 d2 \<Longrightarrow> same_but_router d d2"
  by (simp add: same_but_router_def)

lemma same_keeps:
  assumes "same_but_router d d'" "in_step d" "agrees (dv_router d') (dv_active d)"
  shows "step_keeps mo d d'"
  using assms by (auto simp: same_but_router_def in_step_def step_keeps_def lock_total_def grab_known_def grab_follows_same)

lemma follow_truth_keeps:
  "same_but_router d (follow_truth mo d)" "agrees (dv_router d) s \<Longrightarrow> agrees (dv_router (follow_truth mo d)) s"
  by (simp_all add: follow_truth_def same_but_router_def Let_def resync_agrees resync_home_keeps)

lemma follow_display_keeps:
  assumes "agrees (dv_router d) s"
  shows "\<exists>d'. follow_display mo d = Some d' \<and> same_but_router d d' \<and> agrees (dv_router d') s"
proof -
  have ok: "router_ok (dv_router d)" using assms by (simp add: agrees_def)
  have adopt: "\<exists>r a. adopt_local_screen_size w h (dv_router d) = Some (r, a) \<and> agrees r s \<and> r_locked r = r_locked (dv_router d)" for w h
  proof -
    obtain r a where r: "adopt_local_screen_size w h (dv_router d) = Some (r, a)" "router_ok r"
      using ok by (rule adopt_local_ok)
    with adopt_local_keeps [OF r(1)] assms show ?thesis by (auto simp: agrees_def)
  qed
  show ?thesis
  proof (cases "mo_display mo")
    case None
    with assms show ?thesis by (simp add: follow_display_def Let_def same_but_router_def)
  next
    case (Some wh)
    obtain w h where wh: "wh = (w, h)" by force
    obtain r a where r: "adopt_local_screen_size w h (dv_router d) = Some (r, a)" "agrees r s" "r_locked r = r_locked (dv_router d)"
      using adopt by blast
    show ?thesis
      using assms r by (simp add: follow_display_def Let_def same_but_router_def Some wh split: option.split)
  qed
qed

lemma before_routing_keeps:
  assumes "agrees (dv_router d) s"
  shows "\<exists>d'. before_routing mo event d = Some d' \<and> same_but_router d d' \<and> agrees (dv_router d') s"
proof -
  note first = follow_truth_keeps(1) [of d mo] follow_truth_keeps(2) [OF assms, of mo]
  from follow_display_keeps [OF first(2), of mo] first(1) assms show ?thesis
    by (auto simp: before_routing_def intro: same_but_router_trans)
qed

section \<open>Ways home\<close>

lemma release_raise_fields [simp]:
  "dv_router (release_suppression mo d) = dv_router d" "dv_active (release_suppression mo d) = dv_active d"
  "dv_parked (release_suppression mo d) = dv_parked d" "dv_discarded (release_suppression mo d) = dv_discarded d"
  "\<not> dv_exclusive (release_suppression mo d)" "\<not> dv_suppressed (release_suppression mo d)"
  "dv_hold (release_suppression mo d) = (\<not> mo_takes mo False \<and> dv_hold d)"
  "dv_sequence (release_suppression mo d) = dv_sequence d" "dv_hold (raise_barrier mo d) = dv_hold d"
  "dv_router (raise_barrier mo d) = dv_router d" "dv_active (raise_barrier mo d) = dv_active d"
  "dv_parked (raise_barrier mo d) = dv_parked d" "dv_exclusive (raise_barrier mo d) = dv_exclusive d"
  "dv_suppressed (raise_barrier mo d) = dv_suppressed d" "dv_sequence (raise_barrier mo d) = dv_sequence d"
  "dv_discarded (raise_barrier mo d) = max (dv_discarded d) (sn_last_event_id (mo_snapshot mo))"
  by (simp_all add: release_suppression_def set_exclusive_def raise_barrier_def)

text \<open>Whatever ends a drive: the grab released, the barrier raised, nothing active.\<close>

lemma home_keeps:
  assumes "in_step d" and "agrees (dv_router d') None" "dv_active d' = None"
    and "\<not> dv_exclusive d'" "\<not> dv_suppressed d'" "mo_takes mo False \<Longrightarrow> \<not> dv_hold d'"
    and "dv_discarded d' = max (dv_discarded d) (sn_last_event_id (mo_snapshot mo))"
    and "r_locked (dv_router d') \<longrightarrow> dv_parked d' = None"
  shows "step_keeps mo d d'"
  using assms by (auto simp: in_step_def step_keeps_def lock_total_def grab_known_def grab_follows_def)

lemma toggle_lock_keeps:
  assumes "in_step d"
  shows "step_keeps mo d (fst (toggle_lock mo d))"
    and "r_locked (dv_router (fst (toggle_lock mo d))) = (\<not> r_locked (dv_router d))"
proof -
  have locked_agrees: "agrees (set_locked b r) s = agrees r s" for b r s
    by (simp add: agrees_def)
      (simp add: set_locked_def router_ok_def push_ok_def)
  have lock: "r_locked (set_locked b r) = b" for b r by (simp add: set_locked_def)
  note step = assms [unfolded in_step_def]
  show "r_locked (dv_router (fst (toggle_lock mo d))) = (\<not> r_locked (dv_router d))"
    by (simp add: toggle_lock_def lock Let_def split: option.split)
  show "step_keeps mo d (fst (toggle_lock mo d))"
  proof (cases "r_locked (dv_router d)")
    case True
    with step show ?thesis
      by (auto simp: toggle_lock_def step_keeps_def in_step_def locked_agrees lock lock_total_def grab_known_def
          grab_follows_def)
  next
    case False
    show ?thesis
    proof (cases "dv_active d")
      case None
      with False step show ?thesis
        by (auto simp: toggle_lock_def step_keeps_def in_step_def locked_agrees lock lock_total_def grab_known_def
          grab_follows_def)
    next
      case (Some s)
      with step have "agrees (restore_home mo (ts_target s) (dv_router d)) None"
        by (auto simp: agrees_def restore_home_keeps)
      with False Some show ?thesis
        by (intro home_keeps [OF assms]) (simp_all add: toggle_lock_def Let_def locked_agrees)
    qed
  qed
qed

lemma yield_keeps:
  assumes "in_step d" "dv_active d \<noteq> None"
  shows "step_keeps mo d (fst (yield_drive_to_inbound mo d))"
proof -
  obtain s where s: "dv_active d = Some s" using assms(2) by blast
  let ?r = "restore_home mo (ts_target s) (dv_router d)"
  have r: "router_ok ?r" "r_active_remote ?r = None" "r_locked ?r = r_locked (dv_router d)"
    using assms(1) s restore_home_keeps [of "dv_router d" "ts_target s" mo] by (auto simp: in_step_def agrees_def)
  have unlocked: "\<not> r_locked (dv_router d)" using assms by (auto simp: in_step_def lock_total_def)
  show ?thesis
    by (rule home_keeps [OF assms(1)])
      (use r seed_keeps [OF r(1)] s unlocked in
        \<open>simp_all add: yield_drive_to_inbound_def Let_def agrees_def set_local_cursor_position_def\<close>)
qed

lemma end_episode_keeps:
  assumes "in_step d" "dv_active d = Some s"
  shows "step_keeps mo d (fst (end_episode mo (ts_target s) d))"
proof -
  have "agrees (restore_home mo (ts_target s) (dv_router d)) None"
    using assms by (auto simp: in_step_def agrees_def restore_home_keeps)
  then show ?thesis
    by (intro home_keeps [OF assms(1)]) (simp_all add: end_episode_def Let_def)
qed

lemma peer_closed_keeps:
  assumes "in_step d"
  shows "step_keeps mo d (fst (peer_closed mo d))"
proof (cases "dv_active d")
  case None
  with assms show ?thesis by (intro same_keeps) (simp_all add: peer_closed_def in_step_def)
next
  case (Some s)
  have "agrees (restore_home mo (ts_target s) (dv_router d)) None"
    using assms Some by (auto simp: in_step_def agrees_def restore_home_keeps)
  moreover have "\<not> r_locked (restore_home mo (ts_target s) (dv_router d))"
    using assms Some by (auto simp: in_step_def agrees_def restore_home_keeps lock_total_def)
  ultimately show ?thesis
    using Some by (intro home_keeps [OF assms]) (simp_all add: peer_closed_def Let_def)
qed

section \<open>Forwarding\<close>

lemma census_target [simp]: "ts_target (census event s) = ts_target s"
  by (cases event) (simp_all add: census_def)

lemma mark_target [simp]:
  "ts_target (sd_session (mark_sent e d)) = ts_target (sd_session d)"
  "ts_target (sd_session (mark_stalled now e d)) = ts_target (sd_session d)"
  by (simp_all add: mark_sent_def mark_stalled_def Let_def)

lemma send_stream_target:
  "send_stream held state dl e d = (d', acts, ended) \<Longrightarrow> ts_target (sd_session d') = ts_target (sd_session d)"
  by (auto simp: send_stream_def Let_def split: write_result.splits)

lemma send_one_target:
  assumes "send_one held state dl e d = (d', acts, ended)"
  shows "ts_target (sd_session d') = ts_target (sd_session d)"
  using assms
  by (auto simp: send_one_def Let_def split: prod.splits option.splits if_splits dest!: send_stream_target)

lemma send_each_target:
  "send_each held state dl events d = (d', acts, ended) \<Longrightarrow> ts_target (sd_session d') = ts_target (sd_session d)"
proof (induction events arbitrary: dl d d' acts ended)
  case (Cons event events)
  obtain d1 acts1 ended1 where one: "send_one held state (dl 0) event d = (d1, acts1, ended1)" by (metis prod_cases3)
  show ?case
  proof (cases ended1)
    case True
    with Cons.prems one send_one_target [OF one] show ?thesis by simp
  next
    case False
    obtain d2 acts2 ended2 where rest: "send_each held state (\<lambda>n. dl (Suc n)) events d1 = (d2, acts2, ended2)" by (metis prod_cases3)
    with Cons.prems one False have same: "d' = d2" by simp
    from Cons.IH [OF rest] send_one_target [OF one] same show ?thesis by simp
  qed
qed simp

lemma forward_keeps:
  assumes "in_step d" "dv_active d = Some s" "ts_target s = target"
  shows "\<exists>d' acts. forward_event dp mo target event d = (d', acts, GoesOn) \<and> step_keeps mo d d'"
proof -
  define state where "state = sn_state (mo_snapshot mo)"
  obtain events held where pinch: "pinch_for_send (apply_reverse_scroll event (dp_reverse_scroll dp)) (ts_peer_pinch s)
      (HID_LEFT_CTRL \<in> set (st_pressed_keys state)) (ts_pinch_held s) = (events, held)" by force
  define d0 where "d0 = \<lparr>sd_session = s\<lparr>ts_pinch_held := held\<rparr>, sd_sequence = dv_sequence d,
      sd_strikes = dv_strikes d, sd_stall_since = dv_stall_since d\<rparr>"
  obtain sd acts ended where sent: "send_each (st_pressed_keys state \<noteq> []) state (mo_delivery mo) events d0 = (sd, acts, ended)"
    by (metis prod_cases3)
  define d1 where "d1 = (with_sender sd d)\<lparr>dv_last_outbound := Some (mo_now mo)\<rparr>"
  have sd: "ts_target (sd_session sd) = target" using send_each_target [OF sent] assms(3) by (simp add: d0_def)
  have step1: "in_step d1"
    using assms sd by (auto simp: in_step_def agrees_def lock_total_def grab_known_def d1_def with_sender_def)
  have result: "forward_event dp mo target event d =
      (if ended then (case end_episode mo (ts_target s) d1 of (d2, acts2) \<Rightarrow> (d2, acts @ acts2, GoesOn)) else (d1, acts, GoesOn))"
    using assms(2,3) pinch sent by (simp add: forward_event_def state_def [symmetric] d0_def [symmetric] d1_def [symmetric] Let_def)
  show ?thesis
  proof (cases ended)
    case False
    have "step_keeps mo d d1"
      using step1 assms by (auto simp: step_keeps_def d1_def with_sender_def grab_follows_def)
    with result False show ?thesis by simp
  next
    case True
    obtain d2 acts2 where over: "end_episode mo (ts_target s) d1 = (d2, acts2)" by force
    have active: "dv_active d1 = Some (sd_session sd)" by (simp add: d1_def with_sender_def)
    have "step_keeps mo d1 (fst (end_episode mo (ts_target (sd_session sd)) d1))" by (rule end_episode_keeps [OF step1 active])
    then have "step_keeps mo d1 d2" using over sd assms(3) by simp
    moreover have "dv_discarded d1 = dv_discarded d" by (simp add: d1_def with_sender_def)
    moreover have "grab_follows mo d d1"
      using assms(2) by (simp add: grab_follows_def d1_def with_sender_def)
    ultimately have "step_keeps mo d d2"
      using active grab_follows_trans [of mo d d1 d2] by (auto simp: step_keeps_def)
    with result True over show ?thesis by simp
  qed
qed

section \<open>Returning and opening\<close>

text \<open>Before these arms the router has moved already.\<close>

lemma return_keeps:
  assumes "in_step d" "dv_active d = Some s" "agrees r None" "r_locked r = r_locked (dv_router d)"
  shows "step_keeps mo d (fst (return_from_drive mo (d\<lparr>dv_router := r\<rparr>)))"
proof -
  have "\<not> r_locked r" using assms by (auto simp: in_step_def lock_total_def)
  then show ?thesis
    using assms(2,3)
    by (intro home_keeps [OF assms(1)]) (simp_all add: return_from_drive_def Let_def)
qed

lemma greet_target:
  "greet mo r target tx ty first s sequence = Some (s1, sequence1, acts) \<Longrightarrow> ts_target s1 = ts_target s"
  by (auto simp: greet_def first_event_def split: sum.splits prod.splits option.splits)

lemma resume_target:
  assumes "resume_parked mo r target tx ty first barrier parked sequence = (Some (s, acts), sequence1)"
  shows "ts_target s = target"
proof -
  obtain s0 where s0: "take_parked_for mo target parked = Some s0"
    using assms by (auto simp: resume_parked_def split: option.splits)
  then have "ts_target s0 = target"
    by (auto simp: take_parked_for_def split: option.splits if_splits park_state.splits)
  with assms s0 show ?thesis
    by (auto simp: resume_parked_def split: option.splits if_splits dest!: greet_target)
qed

lemma adopt_geometry_keeps:
  assumes "agrees r s"
  shows "\<exists>r'. adopt_peer_geometry fp g r = Some r' \<and> agrees r' s \<and> r_locked r' = r_locked r"
proof -
  have "\<exists>r' a. adopt_peer_screen_size f w h r = Some (r', a) \<and> agrees r' s \<and> r_locked r' = r_locked r" for f w h
  proof -
    have "router_ok r" using assms by (simp add: agrees_def)
    then obtain r' a where r': "adopt_peer_screen_size f w h r = Some (r', a)" "router_ok r'" by (rule adopt_peer_ok)
    with adopt_peer_keeps [OF r'(1)] assms show ?thesis by (auto simp: agrees_def)
  qed
  then have "\<exists>r'. map_option fst (adopt_peer_screen_size f w h r) = Some r' \<and> agrees r' s \<and> r_locked r' = r_locked r" for f w h
    by (metis fst_conv option.simps(9))
  with assms show ?thesis by (auto simp: adopt_peer_geometry_def split: option.split)
qed

text \<open>\<open>d\<close> is the state before, \<open>d1\<close> the one with the router already on the target.\<close>

definition crossing :: "drive \<Rightarrow> screen_id \<Rightarrow> drive \<Rightarrow> bool" where
  "crossing d target d1 \<longleftrightarrow> dv_active d = None \<and> dv_active d1 = None
     \<and> router_ok (dv_router d1) \<and> r_active_remote (dv_router d1) = Some target \<and> \<not> r_locked (dv_router d1)
     \<and> dv_exclusive d1 = dv_exclusive d \<and> dv_suppressed d1 = dv_suppressed d \<and> dv_hold d1 = dv_hold d
     \<and> dv_discarded d1 = dv_discarded d"

lemma refuse_keeps:
  assumes "in_step d" "crossing d target d1"
  shows "step_keeps mo d (refuse mo target e d1)"
    and "step_keeps mo d (refuse_for_truth mo target e single at d1)"
    and "step_keeps mo d (refuse mo target e (release_suppression mo
           (d1\<lparr>dv_last_failed := x, dv_sequence := n\<rparr>)))"
proof -
  note home = restore_home_keeps [of "dv_router d1" target mo]
  have r: "router_ok (restore_home mo target (dv_router d1))" "r_active_remote (restore_home mo target (dv_router d1)) = None"
    "\<not> r_locked (restore_home mo target (dv_router d1))"
    using home assms(2) by (auto simp: crossing_def)
  note p = park_inside_keeps [OF r(1)]
  have truth: "router_ok (resync_if_local x y (restore_home mo target (dv_router d1)))" for x y
    by (rule resync_if_local_ok [OF r(1)])
  show "step_keeps mo d (refuse mo target e d1)"
    using assms r p
    by (auto simp: step_keeps_def in_step_def agrees_def lock_total_def grab_known_def grab_follows_def refuse_def crossing_def)
  show "step_keeps mo d (refuse_for_truth mo target e single at d1)"
    using assms r truth park_inside_keeps [OF truth]
    by (auto simp: step_keeps_def in_step_def agrees_def lock_total_def grab_known_def grab_follows_def
        refuse_for_truth_def crossing_def Let_def)
  show "step_keeps mo d (refuse mo target e (release_suppression mo (d1\<lparr>dv_last_failed := x, dv_sequence := n\<rparr>)))"
    using assms r p
    by (auto simp: step_keeps_def in_step_def agrees_def lock_total_def grab_known_def grab_follows_def refuse_def crossing_def)
qed

lemma activate_keeps:
  assumes "in_step d" "crossing d target d1" "ts_target s = target"
  shows "\<exists>d2 acts v. activate dp mo e s d1 = Some (d2, acts, v)
    \<and> v = GoesOn \<and> step_keeps mo d d2"
proof -
  have "agrees (dv_router d1) (Some s)" using assms by (simp add: crossing_def agrees_def)
  then obtain r where r: "adopt_peer_geometry (dp_link dp) (ts_peer_geometry s) (dv_router d1) = Some r" "agrees r (Some s)"
    "r_locked r = r_locked (dv_router d1)" using adopt_geometry_keeps by blast
  then show ?thesis
    using assms
    by (auto simp: activate_def set_exclusive_def Let_def step_keeps_def in_step_def lock_total_def grab_known_def grab_follows_def crossing_def)
qed

lemma open_cold_keeps:
  assumes "in_step d" "crossing d target d1"
  shows "\<exists>d2 acts v. open_cold dp mo target tx ty event barrier e d1 = Some (d2, acts, v)
    \<and> (v = GoesOn \<and> step_keeps mo d d2 \<or> v = Stops ''link ended'')"
proof -
  note refuses = refuse_keeps [OF assms]
  show ?thesis
  proof (cases "episode_cooling_down (mo_now mo) (dv_last_failed d1)")
    case True
    with refuses(1) show ?thesis by (auto simp: open_cold_def Let_def)
  next
    case warm: False
    show ?thesis
    proof (cases "mo_opens mo")
      case (Opened c)
      show ?thesis
      proof (cases "greet mo (dv_router d1) target tx ty (Some event) (spawn_episode_driver c target barrier) (dv_sequence d1)")
        case None
        with warm Opened refuses(3) [of mo e "dv_sequence d1" "Some (mo_now mo)"] show ?thesis
          by (auto simp: open_cold_def Let_def)
      next
        case (Some g)
        obtain s sequence acts where g: "g = (s, sequence, acts)" by (metis prod_cases3)
        have target: "ts_target s = target"
          using greet_target [OF Some [unfolded g]] by (simp add: spawn_episode_driver_def)
        have "crossing d target (d1\<lparr>dv_sequence := sequence\<rparr>)" using assms(2) by (simp add: crossing_def)
        from activate_keeps [OF assms(1) this target, of dp mo e] warm Opened Some g show ?thesis
          by (auto simp: open_cold_def Let_def)
      qed
    qed (use warm refuses(3) in \<open>auto simp: open_cold_def Let_def\<close>)
  qed
qed

lemma open_drive_keeps:
  assumes "in_step d" "crossing d target d1"
  shows "\<exists>d2 acts v. open_drive dp mo event_id src target e tx ty event d1 = Some (d2, acts, v)
    \<and> (v = GoesOn \<and> step_keeps mo d d2 \<or> v = Stops ''link ended'')"
proof -
  note refuses = refuse_keeps [OF assms]
  have idle: "dv_active d1 = None" using assms(2) by (simp add: crossing_def)
  have later: "crossing d target (d1\<lparr>dv_parked := p, dv_sequence := n\<rparr>)" for p n
    using assms(2) by (simp add: crossing_def)
  show ?thesis
  proof (cases "\<not> linked_screen dp target (dv_router d1) \<or> transfer_debounced (mo_now mo) (dv_last_transfer d1)
      \<or> yield_cooling_down (mo_now mo) (dv_last_yield d1)")
    case True
    with idle refuses(1) show ?thesis by (auto simp: open_drive_def)
  next
    case False
    let ?single = "handoff_is_single_fling event"
    show ?thesis
    proof (cases "handoff_truth_veto mo (dv_router d1) src e ?single")
      case (Some at)
      with idle False refuses(2) show ?thesis by (auto simp: open_drive_def Let_def)
    next
      case None
      obtain resumed sequence where res: "resume_parked mo (dv_router d1) target tx ty (Some event) event_id (dv_parked d1) (dv_sequence d1)
          = (resumed, sequence)" by force
      show ?thesis
      proof (cases resumed)
        case None': None
        with open_cold_keeps [OF assms(1) later [of sequence None], of dp mo tx ty event event_id e] idle False None res show ?thesis
          by (simp add: open_drive_def Let_def)
      next
        case (Some sa)
        obtain s acts where sa: "sa = (s, acts)" by force
        have target: "ts_target s = target" using resume_target res Some sa by simp
        from activate_keeps [OF assms(1) later [of sequence None] target, of dp mo e] idle False None res Some sa show ?thesis
          by (auto simp: open_drive_def Let_def)
      qed
    qed
  qed
qed

section \<open>Every event\<close>

definition may_stop :: "verdict \<Rightarrow> bool" where
  "may_stop v \<longleftrightarrow> v = Stops ''link ended'' \<or> v = Stops ''release of the capture failed''"

lemma step_keeps_trans:
  assumes "same_but_router d d1" "step_keeps mo d1 d2"
  shows "step_keeps mo d d2"
proof -
  have "grab_follows mo d d1" using assms(1) by (intro grab_follows_same) (simp_all add: same_but_router_def)
  moreover have "grab_follows mo d1 d2" using assms(2) by (simp add: step_keeps_def)
  ultimately have "grab_follows mo d d2" by (rule grab_follows_trans)
  with assms show ?thesis by (simp add: same_but_router_def step_keeps_def)
qed

lemma dispatch_keeps:
  assumes "in_step d" "route now ev (dv_router d) = Some (r, routed)"
  shows "\<exists>d' acts v. dispatch dp mo event_id routed (d\<lparr>dv_router := r\<rparr>) = Some (d', acts, v)
    \<and> (v = GoesOn \<and> step_keeps mo d d' \<or> may_stop v)"
proof -
  have ok: "router_ok (dv_router d)" and agree: "r_active_remote (dv_router d) = map_option ts_target (dv_active d)"
    using assms(1) by (simp_all add: in_step_def agrees_def)
  note routed = route_result [OF ok assms(2)]
  show ?thesis
  proof (cases routed)
    case (Local event)
    with routed agree have "agrees r (dv_active d)" by (simp add: agrees_def)
    then have keeps: "step_keeps mo d (if is_wheel event then d\<lparr>dv_router := r, dv_local_wheel := n\<rparr> else d\<lparr>dv_router := r\<rparr>)" for n
      using routed(2) by (intro same_keeps assms(1)) (simp_all add: same_but_router_def)
    show ?thesis
      using keeps [of "dv_local_wheel d + 1"] by (auto simp: dispatch_def Local may_stop_def)
  next
    case (Forward target event)
    with routed agree obtain s where s: "dv_active d = Some s" "ts_target s = target" by auto
    have step: "in_step (d\<lparr>dv_router := r\<rparr>)"
      using assms(1) routed(1,2) s route_result(5) [OF ok assms(2)] Forward
      by (simp add: in_step_def agrees_def lock_total_def grab_known_def)
    from forward_keeps [OF step, of s target dp mo event] s obtain d' acts
      where "forward_event dp mo target event (d\<lparr>dv_router := r\<rparr>) = (d', acts, GoesOn)" "step_keeps mo (d\<lparr>dv_router := r\<rparr>) d'"
      by auto
    moreover have "same_but_router d (d\<lparr>dv_router := r\<rparr>)" using routed(2) by (simp add: same_but_router_def)
    ultimately show ?thesis using step_keeps_trans by (auto simp: dispatch_def Forward)
  next
    case (Handoff src target e tx ty event)
    with routed agree have "crossing d target (d\<lparr>dv_router := r\<rparr>)" by (auto simp: crossing_def)
    from open_drive_keeps [OF assms(1) this, of dp mo event_id src e tx ty event] show ?thesis
      by (auto simp: dispatch_def Handoff may_stop_def)
  next
    case (ReturnHome src e entry armed)
    with routed agree obtain s where s: "dv_active d = Some s" by auto
    have "agrees r None" using routed ReturnHome by (simp add: agrees_def)
    from return_keeps [OF assms(1) s this routed(2), of mo] show ?thesis
      by (cases "return_from_drive mo (d\<lparr>dv_router := r\<rparr>)") (simp add: dispatch_def ReturnHome)
  qed
qed

lemma handle_keeps:
  assumes "in_step d"
  shows "\<exists>d' acts v. handle_topology_event dp mo captured d = Some (d', acts, v)
    \<and> (v = GoesOn \<and> step_keeps mo d d' \<or> may_stop v)"
proof -
  have "agrees (dv_router d) (dv_active d)" using assms by (simp add: in_step_def)
  from before_routing_keeps [OF this, of mo "ce_event captured"] obtain d1 where
    d1: "before_routing mo (ce_event captured) d = Some d1" "same_but_router d d1" "agrees (dv_router d1) (dv_active d)" by blast
  have step1: "in_step d1"
    using d1(2,3) assms by (simp add: in_step_def same_but_router_def lock_total_def grab_known_def)
  note lift = step_keeps_trans [OF d1(2)]
  show ?thesis
  proof (cases "is_scroll_lock_press (ce_event captured)")
    case True
    with d1(1) lift [OF toggle_lock_keeps(1) [OF step1, of mo]] show ?thesis
      by (cases "toggle_lock mo d1") (simp add: handle_topology_event_def)
  next
    case no_lock: False
    show ?thesis
    proof (cases "yields mo d1")
      case True
      then have "dv_active d1 \<noteq> None" by (simp add: yields_def)
      with True no_lock d1(1) lift [OF yield_keeps [OF step1, of mo]] show ?thesis
        by (cases "yield_drive_to_inbound mo d1") (simp add: handle_topology_event_def)
    next
      case False
      have "router_ok (dv_router d1)" using step1 by (simp add: in_step_def agrees_def)
      then obtain r routed where r: "route (mo_now mo) (ce_event captured) (dv_router d1) = Some (r, routed)" by (rule route_ok)
      from dispatch_keeps [OF step1 r, of dp mo "ce_event_id captured"] lift False no_lock d1(1) r show ?thesis
        by (auto simp: handle_topology_event_def)
    qed
  qed
qed

end
