(* ===== verification/DriveTask.thy ===== *)
theory DriveTask
  imports Driving "HOL-Library.AList"
begin

text \<open>
  The other arms of the drive task's loop, \<^verbatim>\<open>connect_topology\<close> in \<^verbatim>\<open>kvm-daemon/src/service.rs\<close>:
  what a peer signals (a pong, the pointer handed on, the end of its stream), the yield to a peer
  that drives this computer, the watch over a silent peer, the watched settings, and the state the
  task starts in.
\<close>

section \<open>What is known of inbound drives\<close>

definition PEER_DRIVE_FRESH_MS :: u64 where "PEER_DRIVE_FRESH_MS = 2500"
definition INBOUND_SETTLE_MS :: u64 where "INBOUND_SETTLE_MS = 1000"
definition INBOUND_SETTLE_BURST :: u64 where "INBOUND_SETTLE_BURST = 20"
definition INBOUND_HOT_DRIVE_BURST :: u64 where "INBOUND_HOT_DRIVE_BURST = 10"
definition OUTBOUND_HOT_MS :: nat where "OUTBOUND_HOT_MS = 500"

definition peer_drive_is_active :: "bool \<Rightarrow> u64 option \<Rightarrow> bool" where
  "peer_drive_is_active driving last_input_age_ms \<longleftrightarrow>
     driving \<and> (case last_input_age_ms of None \<Rightarrow> False | Some age \<Rightarrow> age \<le> PEER_DRIVE_FRESH_MS)"

text \<open>The parts of a session's status that are read, and the cached snapshot.\<close>

record peer_session =
  ps_fingerprint :: string
  ps_input_events :: u64
  ps_driving :: bool
  ps_last_input_age :: "u64 option"

record inbound_snapshot =
  ib_totals :: "(string \<times> u64) list"
  ib_driving :: "string list"

definition note_session :: "peer_session \<Rightarrow> inbound_snapshot \<Rightarrow> inbound_snapshot" where
  "note_session p s =
     \<lparr>ib_totals = AList.update (ps_fingerprint p)
        (case map_of (ib_totals s) (ps_fingerprint p) of
           None \<Rightarrow> ps_input_events p | Some events \<Rightarrow> max events (ps_input_events p)) (ib_totals s),
      ib_driving = (if peer_drive_is_active (ps_driving p) (ps_last_input_age p)
        then List.insert (ps_fingerprint p) (ib_driving s) else ib_driving s)\<rparr>"

text \<open>The sessions each control endpoint reports; one that does not answer reports none.\<close>

definition snapshot_inbound_inputs :: "peer_session list list \<Rightarrow> inbound_snapshot" where
  "snapshot_inbound_inputs candidates = fold note_session (concat candidates) \<lparr>ib_totals = [], ib_driving = []\<rparr>"

text \<open>New input since the baseline, which becomes the current snapshot.\<close>

fun inbound_inputs_growth :: "(string \<times> u64) list \<Rightarrow> u64 \<Rightarrow> (string \<rightharpoonup> u64) \<Rightarrow> (string \<rightharpoonup> u64) \<times> u64" where
  "inbound_inputs_growth [] growth baseline = (baseline, growth)"
| "inbound_inputs_growth ((fingerprint, count) # current) growth baseline =
     inbound_inputs_growth current
       (case baseline fingerprint of
          None \<Rightarrow> growth
        | Some previous \<Rightarrow> if count > previous then sat_plus growth (count - previous) else growth)
       (baseline(fingerprint \<mapsto> count))"

definition inbound_absorb_threshold :: "u64 \<Rightarrow> bool \<Rightarrow> u64" where
  "inbound_absorb_threshold open_for_ms outbound_hot =
     (if open_for_ms < INBOUND_SETTLE_MS then INBOUND_SETTLE_BURST
      else if outbound_hot then INBOUND_HOT_DRIVE_BURST else 0)"

definition inbound_yield_fires :: "u64 \<Rightarrow> bool \<Rightarrow> bool" where
  "inbound_yield_fires growth peer_driving \<longleftrightarrow>
     growth \<ge> INBOUND_YIELD_MIN_GROWTH \<or> growth > 0 \<and> peer_driving"

definition divert_burst_fires :: "u64 \<Rightarrow> duration \<Rightarrow> bool" where
  "divert_burst_fires delta open_for \<longleftrightarrow> open_for \<ge> DIVERT_SETTLE \<and> delta \<ge> INBOUND_YIELD_MIN_GROWTH"

definition drive_starved :: "u32 \<Rightarrow> bool" where
  "drive_starved unacked_pings \<longleftrightarrow> unacked_pings \<ge> 12"

section \<open>The task\<close>

text \<open>What a read of the watched settings gives: its bytes, with the settings if they parse.\<close>

datatype config_read = Unreadable | ReadBytes string "config option"

record drive_task =
  tk_drive :: drive
  tk_divert_seen :: u64
  tk_baseline :: "string \<rightharpoonup> u64"
  tk_growth_at :: "instant option"
  tk_bytes_seen :: "string option"
  tk_edge_mode :: edge_mode
  tk_double_style :: double_edge_style
  tk_layout :: layout
  tk_pending :: "layout option"

text \<open>
  The start: the measured screen and pointer, the two windows, the discipline of the edges; a
  parked stream if one was opened beforehand.
\<close>

definition prepare_router ::
  "(u32 \<times> u32) option \<Rightarrow> (u32 \<times> u32) option \<Rightarrow> config \<Rightarrow> edge_router \<Rightarrow> edge_router option" where
  "prepare_router measured pointer c r =
     (let r1 = set_handoff_grace (from_millis 40) (set_return_hold (from_millis 0) r)
      in map_option (\<lambda>r2.
           (let r3 = (case pointer of
                  None \<Rightarrow> r2 | Some (x, y) \<Rightarrow> kept r2 (set_local_cursor_position x y r2))
            in set_double_style (cfg_double_edge_style c) (set_edge_mode (cfg_edge_mode c) r3)))
         (case measured of
            None \<Rightarrow> Some r1 | Some (width, height) \<Rightarrow> map_option fst (adopt_local_screen_size width height r1)))"

text \<open>\<open>prewarm_link_stream\<close>: the linked screen, and what its peer greeted with.\<close>

definition prewarm_link_stream :: "edge_router \<Rightarrow> string \<Rightarrow> capabilities option \<Rightarrow> drive_session option" where
  "prewarm_link_stream r fingerprint greeting =
     (case (find (\<lambda>scr. scr_peer scr = Some fingerprint) (ly_screens (r_layout r)), greeting) of
        (Some scr, Some c) \<Rightarrow> Some (spawn_episode_driver c (scr_id scr) 0)
      | _ \<Rightarrow> None)"

definition start_task ::
  "edge_router \<Rightarrow> config \<Rightarrow> drive_session option \<Rightarrow> u64 \<Rightarrow> string option \<Rightarrow> drive_task" where
  "start_task r c warm diverted bytes = \<lparr>
     tk_drive = \<lparr>dv_router = r, dv_active = None, dv_parked = warm, dv_exclusive = False, dv_suppressed = False, dv_hold = False,
       dv_sequence = 0, dv_strikes = 0, dv_stall_since = None, dv_discarded = 0, dv_last_transfer = None,
       dv_last_yield = None, dv_last_failed = None, dv_last_outbound = None, dv_local_wheel = 0,
       dv_last_resync = None, dv_last_dims = None, dv_last_progress = None, dv_unacked_pings = 0,
       dv_divert_baseline = 0, dv_baselines_fresh = True\<rparr>,
     tk_divert_seen = diverted, tk_baseline = Map.empty, tk_growth_at = None, tk_bytes_seen = bytes,
     tk_edge_mode = cfg_edge_mode c, tk_double_style = cfg_double_edge_style c, tk_layout = cfg_layout c,
     tk_pending = None\<rparr>"

section \<open>Signals of the peer\<close>

text \<open>The pointer handed on: \<open>RemoteHandoff\<close>.\<close>

record remote_handoff =
  rh_screen_id :: u32
  rh_target_name :: string
  rh_x :: u32
  rh_y :: u32
  rh_dx :: i32
  rh_dy :: i32
  rh_geometry :: "screen_geometry option"

text \<open>The peer's name of the screen counts; its number only when there is no name.\<close>

definition handoff_target :: "layout \<Rightarrow> remote_handoff \<Rightarrow> screen_id option" where
  "handoff_target l h =
     (if rh_target_name h = [] then Some (ScreenId (rh_screen_id h))
      else map_option scr_id (screen_by_name l (rh_target_name h)))"

definition handoff_position :: "layout \<Rightarrow> screen_id \<Rightarrow> remote_handoff \<Rightarrow> u32 \<times> u32" where
  "handoff_position l target h =
     (case screen_geometry_for l target of
        None \<Rightarrow> (rh_x h, rh_y h)
      | Some g \<Rightarrow> remap_position (rh_x h) (rh_y h) (rh_geometry h) g)"

text \<open>The drive goes on with the next peer.\<close>

definition take_over ::
  "drive_params \<Rightarrow> moment \<Rightarrow> drive_session \<Rightarrow> drive \<Rightarrow> (drive \<times> drive_act list \<times> verdict) option" where
  "take_over dp mo s d =
     map_option (\<lambda>r. ((set_exclusive mo True d)\<lparr>dv_suppressed := True, dv_last_progress := None,
          dv_unacked_pings := 0, dv_router := r, dv_active := Some s\<rparr>, [Suppressed True], GoesOn))
       (adopt_peer_geometry (dp_link dp) (ts_peer_geometry s) (dv_router d))"

definition handoff_motion :: "remote_handoff \<Rightarrow> input_event option" where
  "handoff_motion h = (if rh_dx h \<noteq> 0 \<or> rh_dy h \<noteq> 0 then Some (MouseMove (rh_dx h) (rh_dy h)) else None)"

definition continue_drive ::
  "drive_params \<Rightarrow> moment \<Rightarrow> remote_handoff \<Rightarrow> screen_id \<Rightarrow> u32 \<Rightarrow> u32 \<Rightarrow> drive
     \<Rightarrow> (drive \<times> drive_act list \<times> verdict) option" where
  "continue_drive dp mo h target x y d =
     (let barrier = sn_last_event_id (mo_snapshot mo);
          failed = (\<lambda>sequence.
            let r = restore_home mo target (dv_router d)
            in Some (d\<lparr>dv_parked := None, dv_sequence := sequence, dv_router := r\<rparr>, [warp_home r], GoesOn));
          driving = (\<lambda>s acts sequence.
            map_option (\<lambda>(d1, acts1, v). (d1, acts @ acts1, v))
              (take_over dp mo s (d\<lparr>dv_parked := None, dv_sequence := sequence\<rparr>)))
      in case resume_parked mo (dv_router d) target x y (handoff_motion h) barrier (dv_parked d) (dv_sequence d) of
           (Some (s, acts), sequence) \<Rightarrow> driving s acts sequence
         | (None, sequence) \<Rightarrow>
             (case mo_opens mo of
                LinkBanned \<Rightarrow> Some (d\<lparr>dv_parked := None, dv_sequence := sequence\<rparr>, [], Stops ''link ended'')
              | OpenFailed sent \<Rightarrow> failed (if sent then sequence + 1 else sequence)
              | Opened c \<Rightarrow>
                  (case greet mo (dv_router d) target x y (handoff_motion h) (spawn_episode_driver c target barrier) sequence of
                     None \<Rightarrow> failed sequence
                   | Some (s, sequence1, acts) \<Rightarrow> driving s acts sequence1)))"

definition peer_handoff ::
  "drive_params \<Rightarrow> moment \<Rightarrow> remote_handoff \<Rightarrow> drive \<Rightarrow> (drive \<times> drive_act list \<times> verdict) option" where
  "peer_handoff dp mo h d =
     (case dv_active d of
        None \<Rightarrow> Some (d, [], GoesOn)
      | Some s \<Rightarrow>
          (let d1 = raise_barrier mo (release_suppression mo (d\<lparr>dv_active := None\<rparr>));
               r = dv_router d;
               home = (\<lambda>r1 x y. Some (d1\<lparr>dv_router := r1\<rparr>, release_acts @ [Warped x y],
                 if mo_warps mo then GoesOn else Stops ''warp failed''))
           in case handoff_target (r_layout r) h of
                None \<Rightarrow> Some (d1, release_acts, GoesOn)
              | Some target \<Rightarrow>
                  (case handoff_position (r_layout r) target h of
                     (x, y) \<Rightarrow>
                       if target = r_local_screen r
                       then (case handoff_to (mo_now mo) target (r_local_cursor_x r) (r_local_cursor_y r) r of
                               Inl _ \<Rightarrow> Some (d1, release_acts, Stops ''handoff refused'')
                             | Inr (r1, _) \<Rightarrow> home r1 (r_local_cursor_x r) (r_local_cursor_y r))
                       else (case handoff_to (mo_now mo) target x y r of
                               Inl _ \<Rightarrow> Some (d1, release_acts, Stops ''handoff refused'')
                             | Inr (r1, False) \<Rightarrow> home r1 x y
                             | Inr (r1, True) \<Rightarrow>
                                 map_option (\<lambda>(d2, acts, v). (d2, release_acts @ acts, v))
                                   (continue_drive dp mo h target x y (d1\<lparr>dv_router := r1\<rparr>))))))"

text \<open>A pong; the stream that signals is the active one if there is one.\<close>

definition peer_progress :: "moment \<Rightarrow> drive \<Rightarrow> drive" where
  "peer_progress mo d =
     (if dv_active d \<noteq> None then d\<lparr>dv_last_progress := Some (mo_now mo), dv_unacked_pings := 0\<rparr> else d)"

definition stream_closed :: "moment \<Rightarrow> drive \<Rightarrow> drive \<times> drive_act list" where
  "stream_closed mo d = (if dv_active d \<noteq> None then peer_closed mo d else (d\<lparr>dv_parked := None\<rparr>, []))"

text \<open>A clipboard that cannot be sent ends the drive as a broken input does.\<close>

definition clipboard_send_failed :: "moment \<Rightarrow> drive \<Rightarrow> drive \<times> drive_act list" where
  "clipboard_send_failed mo d =
     (case dv_active d of None \<Rightarrow> (d, []) | Some s \<Rightarrow> end_episode mo (ts_target s) d)"

section \<open>The ticks\<close>

definition probe_inbound_yield :: "moment \<Rightarrow> inbound_snapshot \<Rightarrow> drive_task \<Rightarrow> drive_task \<times> drive_act list" where
  "probe_inbound_yield mo cache tk =
     (let d = tk_drive tk;
          (baseline, growth) = (if dv_baselines_fresh d then inbound_inputs_growth (ib_totals cache) 0 (tk_baseline tk)
            else (map_of (ib_totals cache), 0));
          tk1 = tk\<lparr>tk_drive := d\<lparr>dv_baselines_fresh := True\<rparr>, tk_baseline := baseline,
                  tk_growth_at := (if growth > 0 then Some (mo_now mo) else tk_growth_at tk)\<rparr>;
          open_for_ms = (case dv_last_transfer d of
               None \<Rightarrow> - 1
             | Some at \<Rightarrow> word_of_nat (min (as_millis (elapsed (mo_now mo) at)) (2 ^ 64 - 1)));
          outbound_hot = (case dv_last_outbound d of
               None \<Rightarrow> False | Some at \<Rightarrow> elapsed (mo_now mo) at < from_millis OUTBOUND_HOT_MS)
      in if growth < inbound_absorb_threshold open_for_ms outbound_hot then (tk1, [])
         else if inbound_yield_fires growth (ib_driving cache \<noteq> [])
         then (case yield_drive_to_inbound mo (tk_drive tk1) of (d1, acts) \<Rightarrow> (tk1\<lparr>tk_drive := d1\<rparr>, acts))
         else (tk1, []))"

text \<open>The probe every 300 ms, and again with each keep-alive.\<close>

definition yield_probe :: "moment \<Rightarrow> inbound_snapshot \<Rightarrow> drive_task \<Rightarrow> drive_task \<times> drive_act list" where
  "yield_probe mo cache tk =
     (if dv_active (tk_drive tk) = None then (tk, [])
      else
        (let delta = sat_sub (mo_diverted mo) (tk_divert_seen tk);
             tk1 = tk\<lparr>tk_divert_seen := mo_diverted mo\<rparr>;
             open_for = (case dv_last_transfer (tk_drive tk) of None \<Rightarrow> 0 | Some at \<Rightarrow> elapsed (mo_now mo) at)
         in if divert_burst_fires delta open_for
            then (case yield_drive_to_inbound mo (tk_drive tk1) of (d, acts) \<Rightarrow> (tk1\<lparr>tk_drive := d\<rparr>, acts))
            else probe_inbound_yield mo cache tk1))"

definition end_silent_drive :: "moment \<Rightarrow> screen_id \<Rightarrow> drive \<Rightarrow> drive \<times> drive_act list" where
  "end_silent_drive mo target d =
     (let d1 = raise_barrier mo ((release_suppression mo d)\<lparr>dv_active := None, dv_parked := None\<rparr>);
          r = restore_home mo target (dv_router d)
      in (d1\<lparr>dv_router := r\<rparr>, release_acts @ [warp_home r]))"

definition ping_peer :: "moment \<Rightarrow> drive \<Rightarrow> drive \<times> drive_act list" where
  "ping_peer mo d =
     (case dv_active d of
        Some s \<Rightarrow>
          (let silent = (case dv_last_progress d of
                 None \<Rightarrow> False | Some at \<Rightarrow> elapsed (mo_now mo) at > from_secs 60);
               d1 = (if mo_ping mo then d\<lparr>dv_unacked_pings := sat_plus (dv_unacked_pings d) 1\<rparr> else d)
           in if \<not> mo_ping mo \<or> silent \<or> drive_starved (dv_unacked_pings d1)
              then end_silent_drive mo (ts_target s) d1 else (d1, []))
      | None \<Rightarrow> (if mo_parked_ping mo then d else d\<lparr>dv_parked := None\<rparr>, []))"

text \<open>
  With nothing driven the grab is released at every keep-alive, whatever the task believes: the hold
  may have outlived the belief.
\<close>

definition reap_grab :: "moment \<Rightarrow> drive \<Rightarrow> drive \<times> drive_act list" where
  "reap_grab mo d = (if dv_active d = None then (release_suppression mo d, release_acts) else (d, []))"

definition keep_alive :: "moment \<Rightarrow> inbound_snapshot \<Rightarrow> drive_task \<Rightarrow> drive_task \<times> drive_act list" where
  "keep_alive mo cache tk =
     (case yield_probe mo cache tk of
        (tk1, acts1) \<Rightarrow>
          (case ping_peer mo (tk_drive tk1) of
             (d2, acts2) \<Rightarrow>
               (case reap_grab mo d2 of
                  (d3, acts3) \<Rightarrow> (tk1\<lparr>tk_drive := d3\<rparr>, acts1 @ acts2 @ acts3))))"

text \<open>\<open>apply_live_topology_config\<close>: a new arrangement waits until no screen is driven.\<close>

definition apply_discipline :: "config \<Rightarrow> edge_mode \<Rightarrow> double_edge_style \<Rightarrow> edge_router \<Rightarrow> edge_router" where
  "apply_discipline c mode style r =
     (let r1 = (if cfg_edge_mode c \<noteq> mode then set_edge_mode (cfg_edge_mode c) r else r)
      in if cfg_double_edge_style c \<noteq> style then set_double_style (cfg_double_edge_style c) r1 else r1)"

definition read_settings :: "config_read \<Rightarrow> drive_task \<Rightarrow> drive_task" where
  "read_settings file tk =
     (case file of
        Unreadable \<Rightarrow> tk\<lparr>tk_bytes_seen := None\<rparr>
      | ReadBytes bytes parsed \<Rightarrow>
          if tk_bytes_seen tk = Some bytes then tk
          else
            (let tk1 = tk\<lparr>tk_bytes_seen := Some bytes\<rparr>
             in case parsed of
                  None \<Rightarrow> tk1
                | Some c \<Rightarrow>
                    tk1\<lparr>tk_drive := (tk_drive tk1)\<lparr>dv_router :=
                        apply_discipline c (tk_edge_mode tk1) (tk_double_style tk1) (dv_router (tk_drive tk1))\<rparr>,
                      tk_edge_mode := cfg_edge_mode c, tk_double_style := cfg_double_edge_style c, tk_layout := cfg_layout c,
                      tk_pending := (if cfg_layout c \<noteq> tk_layout tk1 then Some (cfg_layout c) else tk_pending tk1)\<rparr>))"

definition apply_live_topology_config :: "config_read \<Rightarrow> drive_task \<Rightarrow> drive_task" where
  "apply_live_topology_config file tk =
     (let tk1 = read_settings file tk
      in case tk_pending tk1 of
           None \<Rightarrow> tk1
         | Some l \<Rightarrow>
             (case set_layout l (dv_router (tk_drive tk1)) of
                Inl _ \<Rightarrow> tk1
              | Inr r \<Rightarrow> tk1\<lparr>tk_drive := (tk_drive tk1)\<lparr>dv_router := r\<rparr>, tk_pending := None\<rparr>))"

section \<open>The loop\<close>

datatype task_event =
    CapturedInput captured_event
  | PeerPong
  | PeerHandsOff remote_handoff
  | PeerCloses
  | ClipboardFails
  | SettingsTick config_read
  | ProbeTick
  | KeepAliveTick

definition on_drive :: "drive_task \<Rightarrow> drive \<times> drive_act list \<Rightarrow> drive_task \<times> drive_act list \<times> verdict" where
  "on_drive tk res = (case res of (d, acts) \<Rightarrow> (tk\<lparr>tk_drive := d\<rparr>, acts, GoesOn))"

text \<open>\<open>None\<close> is a panic.\<close>

definition task_step ::
  "drive_params \<Rightarrow> moment \<Rightarrow> inbound_snapshot \<Rightarrow> task_event \<Rightarrow> drive_task
     \<Rightarrow> (drive_task \<times> drive_act list \<times> verdict) option" where
  "task_step dp mo cache event tk =
     (let d = tk_drive tk
      in case event of
           CapturedInput captured \<Rightarrow>
             map_option (\<lambda>(d1, acts, v). (tk\<lparr>tk_drive := d1\<rparr>, acts, v)) (handle_captured dp mo captured d)
         | PeerHandsOff h \<Rightarrow>
             map_option (\<lambda>(d1, acts, v). (tk\<lparr>tk_drive := d1\<rparr>, acts, v)) (peer_handoff dp mo h d)
         | PeerPong \<Rightarrow> Some (on_drive tk (peer_progress mo d, []))
         | PeerCloses \<Rightarrow> Some (on_drive tk (stream_closed mo d))
         | ClipboardFails \<Rightarrow> Some (on_drive tk (clipboard_send_failed mo d))
         | SettingsTick file \<Rightarrow> Some (apply_live_topology_config file tk, [], GoesOn)
         | ProbeTick \<Rightarrow> (case yield_probe mo cache tk of (tk1, acts) \<Rightarrow> Some (tk1, acts, GoesOn))
         | KeepAliveTick \<Rightarrow> (case keep_alive mo cache tk of (tk1, acts) \<Rightarrow> Some (tk1, acts, GoesOn)))"

end
