(* ===== verification/DriveTaskRuns.thy ===== *)
theory DriveTaskRuns
  imports DrivingRuns DriveTask
begin

text \<open>
  Any history of the drive task, with the capture thread and the platform acting between its
  steps: no step panics, the task stops for few reasons only, a driven screen has the router on it,
  and the wish and the belief of the grab follow the drive.
\<close>

section \<open>What every arm keeps\<close>

text \<open>
  \<open>near\<close> is \<open>in_step\<close> but for a router that is still on the last driven screen with nothing
  driven, which a handoff to an unknown name leaves.
\<close>

definition near :: "drive \<Rightarrow> bool" where
  "near d \<longleftrightarrow> router_ok (dv_router d)
     \<and> (dv_active d \<noteq> None \<longrightarrow> r_active_remote (dv_router d) = map_option ts_target (dv_active d))
     \<and> lock_total d \<and> grab_known d"

definition moves :: "moment \<Rightarrow> drive \<Rightarrow> drive \<Rightarrow> bool" where
  "moves mo d d' \<longleftrightarrow> near d' \<and> grab_follows mo d d'
     \<and> dv_discarded d \<le> dv_discarded d'
     \<and> (dv_active d \<noteq> None \<and> dv_active d' = None \<longrightarrow> sn_last_event_id (mo_snapshot mo) \<le> dv_discarded d')"

lemma step_keeps_moves: "step_keeps mo d d' \<Longrightarrow> moves mo d d'"
  by (auto simp: step_keeps_def moves_def in_step_def agrees_def near_def)

lemma near_in_step: "near d \<Longrightarrow> dv_active d = Some s \<Longrightarrow> in_step d"
  by (simp add: near_def in_step_def agrees_def)

lemma in_step_near: "in_step d \<Longrightarrow> near d"
  by (simp add: near_def in_step_def agrees_def)

text \<open>A change that leaves what matters here alone.\<close>

lemma same_moves:
  assumes "near d" "near d'" "dv_active d' = dv_active d" "dv_exclusive d' = dv_exclusive d" "dv_hold d' = dv_hold d"
    and "dv_discarded d' = dv_discarded d"
  shows "moves mo d d'"
  using assms by (auto simp: moves_def grab_follows_same)

text \<open>Nothing is driven any more, or still not.\<close>

lemma idle_moves:
  assumes "near d" "router_ok (dv_router d')" "dv_active d' = None"
    and "\<not> dv_exclusive d'" "\<not> dv_suppressed d'" "mo_takes mo False \<Longrightarrow> \<not> dv_hold d'"
    and "dv_discarded d' = max (dv_discarded d) (sn_last_event_id (mo_snapshot mo))"
    and "r_locked (dv_router d') \<longrightarrow> dv_parked d' = None"
  shows "moves mo d d'"
  using assms by (auto simp: near_def moves_def lock_total_def grab_known_def grab_follows_def)

section \<open>A captured event\<close>

lemma stale_handle:
  assumes "near d" "dv_active d = None" "r_active_remote (dv_router d) \<noteq> None"
  shows "\<exists>d' acts. handle_topology_event dp mo captured d = Some (d', acts, GoesOn) \<and> moves mo d d'
    \<and> (\<not> is_scroll_lock_press (ce_event captured) \<longrightarrow> in_step d' \<and> dv_active d' = None)"
proof -
  have before: "before_routing mo (ce_event captured) d = Some d"
    using assms(3) by (auto simp: before_routing_def)
  have ok: "router_ok (dv_router d)" using assms(1) by (simp add: near_def)
  show ?thesis
  proof (cases "is_scroll_lock_press (ce_event captured)")
    case True
    define d' where "d' = (if r_locked (dv_router d) then d\<lparr>dv_router := set_locked False (dv_router d)\<rparr>
      else d\<lparr>dv_parked := None, dv_router := set_locked True (dv_router d)\<rparr>)"
    have toggled: "toggle_lock mo d = (d', [])" using assms(2) by (simp add: toggle_lock_def d'_def)
    have "r_locked (set_locked b r) = b" for b r by (simp add: set_locked_def)
    then have "near d'"
      using assms(1,2) ok by (simp add: d'_def near_def lock_total_def grab_known_def)
    then have "moves mo d (fst (toggle_lock mo d))"
      unfolding toggled by (intro same_moves assms(1)) (simp_all add: d'_def)
    with True before show ?thesis by (cases "toggle_lock mo d") (simp add: handle_topology_event_def)
  next
    case no_lock: False
    obtain r routed where r: "route (mo_now mo) (ce_event captured) (dv_router d) = Some (r, routed)" using ok by (rule route_ok)
    note routed = route_result [OF ok r]
    have handled: "handle_topology_event dp mo captured d = dispatch dp mo (ce_event_id captured) routed (d\<lparr>dv_router := r\<rparr>)"
      using no_lock before r assms(2) by (simp add: handle_topology_event_def yields_def)
    show ?thesis
    proof (cases routed)
      case (Forward target event)
      with routed(5) have remote: "r_active_remote r = None \<or> r_active_remote r = Some target" by simp
      note home = restore_home_keeps [OF routed(1) remote, of mo]
      let ?d = "d\<lparr>dv_router := restore_home mo target r\<rparr>"
      have "in_step ?d"
        using assms(1,2) home routed(2) by (auto simp: in_step_def agrees_def near_def lock_total_def grab_known_def)
      moreover from this have "moves mo d ?d" using assms(1) in_step_near by (intro same_moves) simp_all
      ultimately show ?thesis
        using handled assms(2) by (simp add: dispatch_def Forward forward_event_def Let_def)
    next
      case (ReturnHome src e entry armed)
      let ?d = "fst (return_from_drive mo (d\<lparr>dv_router := r\<rparr>))"
      have fields: "dv_router ?d = r" "dv_active ?d = None" "dv_parked ?d = dv_parked d"
        "\<not> dv_exclusive ?d" "\<not> dv_suppressed ?d" "mo_takes mo False \<Longrightarrow> \<not> dv_hold ?d"
        "dv_discarded ?d = max (dv_discarded d) (sn_last_event_id (mo_snapshot mo))"
        using assms(2) by (simp_all add: return_from_drive_def Let_def)
      have locked: "r_locked r \<longrightarrow> dv_parked d = None" using assms(1) routed(2) by (simp add: near_def lock_total_def)
      have "moves mo d ?d"
        by (rule idle_moves [OF assms(1)]) (use fields routed(1) locked in simp_all)
      moreover have "in_step ?d"
        using \<open>moves mo d ?d\<close> fields routed ReturnHome by (simp add: moves_def near_def in_step_def agrees_def)
      ultimately show ?thesis
        using handled fields(2) by (cases "return_from_drive mo (d\<lparr>dv_router := r\<rparr>)") (simp add: dispatch_def ReturnHome)
    qed (use routed(5) assms(3) in auto)
  qed
qed

lemma handle_moves:
  assumes "near d"
  shows "\<exists>d' acts v. handle_topology_event dp mo captured d = Some (d', acts, v)
    \<and> (v = GoesOn \<and> moves mo d d' \<and> (\<not> is_scroll_lock_press (ce_event captured) \<longrightarrow> in_step d') \<or> may_stop v)"
proof (cases "dv_active d = None \<and> r_active_remote (dv_router d) \<noteq> None")
  case True
  with stale_handle [OF assms] show ?thesis by blast
next
  case False
  with assms have "in_step d" by (auto simp: near_def in_step_def agrees_def)
  then have "\<exists>d' acts v. handle_topology_event dp mo captured d = Some (d', acts, v)
    \<and> (v = GoesOn \<and> step_keeps mo d d' \<or> may_stop v)" by (rule handle_keeps)
  moreover have "step_keeps mo d d' \<Longrightarrow> moves mo d d' \<and> in_step d'" for d'
    using step_keeps_moves by (simp add: step_keeps_def)
  ultimately show ?thesis by blast
qed

lemma captured_moves:
  assumes "near d"
  shows "\<exists>d' acts v. handle_captured dp mo captured d = Some (d', acts, v) \<and> (v = GoesOn \<and> moves mo d d' \<or> may_stop v)"
  using handle_moves [OF assms, of dp mo captured] same_moves [OF assms assms] by (auto simp: handle_captured_def)

section \<open>The other arms\<close>

lemma closed_moves: "near d \<Longrightarrow> moves mo d (fst (stream_closed mo d))"
proof (cases "dv_active d")
  case None
  assume "near d"
  with None show ?thesis
    by (simp add: stream_closed_def) (intro same_moves; simp add: near_def lock_total_def grab_known_def)
next
  case (Some s)
  assume "near d"
  with Some show ?thesis
    by (simp add: stream_closed_def step_keeps_moves peer_closed_keeps near_in_step)
qed

lemma clipboard_moves: "near d \<Longrightarrow> moves mo d (fst (clipboard_send_failed mo d))"
  by (cases "dv_active d")
    (simp_all add: clipboard_send_failed_def same_moves step_keeps_moves end_episode_keeps near_in_step)

lemma progress_moves: "near d \<Longrightarrow> moves mo d (peer_progress mo d)"
  by (intro same_moves) (auto simp: peer_progress_def near_def lock_total_def grab_known_def)

lemma ping_moves:
  assumes "near d"
  shows "moves mo d (fst (ping_peer mo d))"
proof (cases "dv_active d")
  case None
  with assms show ?thesis
    by (intro same_moves) (simp_all add: ping_peer_def near_def lock_total_def grab_known_def)
next
  case (Some s)
  define d1 where "d1 = (if mo_ping mo then d\<lparr>dv_unacked_pings := sat_plus (dv_unacked_pings d) 1\<rparr> else d)"
  have d1: "dv_router d1 = dv_router d" "dv_active d1 = dv_active d" "dv_parked d1 = dv_parked d" "dv_exclusive d1 = dv_exclusive d"
    "dv_suppressed d1 = dv_suppressed d" "dv_hold d1 = dv_hold d" "dv_discarded d1 = dv_discarded d"
    by (simp_all add: d1_def)
  have near1: "near d1" using assms by (simp add: near_def lock_total_def grab_known_def d1)
  have home: "router_ok (restore_home mo (ts_target s) (dv_router d))"
    using assms Some by (auto simp: near_def intro!: restore_home_keeps(1))
  have "moves mo d (fst (end_silent_drive mo (ts_target s) d1))"
    by (rule idle_moves [OF assms]) (use home d1 in \<open>simp_all add: end_silent_drive_def Let_def\<close>)
  moreover have "moves mo d d1" by (rule same_moves [OF assms near1]) (simp_all add: d1)
  moreover have "fst (ping_peer mo d) \<in> {d1, fst (end_silent_drive mo (ts_target s) d1)}"
    unfolding ping_peer_def Let_def by (simp add: Some d1_def)
  ultimately show ?thesis by auto
qed

lemma reap_moves: "near d \<Longrightarrow> moves mo d (fst (reap_grab mo d))"
  by (auto simp: reap_grab_def moves_def near_def lock_total_def grab_known_def grab_follows_def)

lemma yield_moves: "near d \<Longrightarrow> moves mo d (fst (yield_drive_to_inbound mo d))"
proof (cases "dv_active d")
  case None
  assume "near d"
  with None show ?thesis by (simp add: yield_drive_to_inbound_def same_moves)
next
  case (Some s)
  assume "near d"
  with Some show ?thesis by (intro step_keeps_moves yield_keeps near_in_step) simp_all
qed

lemma moves_trans:
  assumes "moves mo d d1" "moves mo d1 d2"
  shows "moves mo d d2"
proof -
  have "dv_discarded d \<le> dv_discarded d2" using assms order_trans by (auto simp: moves_def)
  moreover have "sn_last_event_id (mo_snapshot mo) \<le> dv_discarded d2" if "dv_active d \<noteq> None" "dv_active d2 = None"
    using that assms order_trans by (cases "dv_active d1") (fastforce simp: moves_def)+
  ultimately show ?thesis using assms grab_follows_trans [of mo d d1 d2] by (auto simp: moves_def)
qed

lemma probe_moves:
  assumes "near (tk_drive tk)"
  shows "moves mo (tk_drive tk) (tk_drive (fst (yield_probe mo cache tk)))"
proof -
  have same: "moves mo (tk_drive tk) (tk_drive tk)" using assms by (simp add: same_moves)
  define d where "d = (tk_drive tk)\<lparr>dv_baselines_fresh := True\<rparr>"
  have "near d" using assms by (simp add: d_def near_def lock_total_def grab_known_def)
  then have fresh: "moves mo (tk_drive tk) d" by (intro same_moves assms) (simp_all add: d_def)
  have yielded: "moves mo (tk_drive tk) (fst (yield_drive_to_inbound mo d))"
    by (rule moves_trans [OF fresh yield_moves [OF \<open>near d\<close>]])
  have "moves mo (tk_drive tk) (tk_drive (fst (probe_inbound_yield mo cache tk')))" if "tk_drive tk' = tk_drive tk" for tk'
    using fresh yielded by (simp add: probe_inbound_yield_def Let_def that d_def [symmetric] case_prod_beta)
  with same yield_moves [OF assms] show ?thesis
    by (simp add: yield_probe_def Let_def case_prod_beta)
qed

lemma keep_alive_moves:
  assumes "near (tk_drive tk)"
  shows "moves mo (tk_drive tk) (tk_drive (fst (keep_alive mo cache tk)))"
proof -
  obtain tk1 acts1 where 1: "yield_probe mo cache tk = (tk1, acts1)" by force
  obtain d2 acts2 where 2: "ping_peer mo (tk_drive tk1) = (d2, acts2)" by force
  obtain d3 acts3 where 3: "reap_grab mo d2 = (d3, acts3)" by force
  have m1: "moves mo (tk_drive tk) (tk_drive tk1)" using probe_moves [OF assms, of mo cache] 1 by simp
  then have m2: "moves mo (tk_drive tk1) d2" using ping_moves [of "tk_drive tk1" mo] 2 by (simp add: moves_def)
  then have m3: "moves mo d2 d3" using reap_moves [of d2 mo] 3 by (simp add: moves_def)
  from moves_trans [OF moves_trans [OF m1 m2] m3] 1 2 3 show ?thesis by (simp add: keep_alive_def)
qed

section \<open>The pointer handed on\<close>

definition may_end :: "verdict \<Rightarrow> bool" where
  "may_end v \<longleftrightarrow> may_stop v \<or> v = Stops ''handoff refused'' \<or> v = Stops ''warp failed''"

lemma handoff_to_settings:
  assumes "handoff_to now target x y r = Inr (r', driving)"
  shows "r_locked r' = r_locked r" "r_active_remote r' = (if driving then Some target else None)"
  using assms by (auto simp: handoff_to_def Let_def split: option.splits if_splits)

text \<open>What lies between the old drive and the next: the barrier is up, nothing is active.\<close>

definition between :: "moment \<Rightarrow> drive \<Rightarrow> drive \<Rightarrow> bool" where
  "between mo d d1 \<longleftrightarrow> router_ok (dv_router d1) \<and> \<not> r_locked (dv_router d1) \<and> dv_active d1 = None
     \<and> \<not> dv_exclusive d1 \<and> \<not> dv_suppressed d1 \<and> (mo_takes mo False \<longrightarrow> \<not> dv_hold d1)
     \<and> dv_discarded d1 = max (dv_discarded d) (sn_last_event_id (mo_snapshot mo))"

lemma between_moves: "near d \<Longrightarrow> between mo d d1 \<Longrightarrow> moves mo d d1"
  by (rule idle_moves) (simp_all add: between_def)

lemma take_over_moves:
  assumes "near d" "between mo d d1" "r_active_remote (dv_router d1) = Some (ts_target s)"
  shows "\<exists>d2 acts v. take_over dp mo s d1 = Some (d2, acts, v) \<and> (v = GoesOn \<and> moves mo d d2 \<or> may_end v)"
proof -
  have "agrees (dv_router d1) (Some s)" using assms by (simp add: between_def agrees_def)
  then obtain r where r: "adopt_peer_geometry (dp_link dp) (ts_peer_geometry s) (dv_router d1) = Some r" "agrees r (Some s)"
    "r_locked r = r_locked (dv_router d1)" using adopt_geometry_keeps by blast
  then show ?thesis
    using assms(2)
    by (auto simp: take_over_def set_exclusive_def between_def moves_def near_def agrees_def lock_total_def grab_known_def grab_follows_def
        may_end_def may_stop_def)
qed

lemma continue_moves:
  assumes "near d" "between mo d d1" "r_active_remote (dv_router d1) = Some target"
  shows "\<exists>d2 acts v. continue_drive dp mo h target x y d1 = Some (d2, acts, v) \<and> (v = GoesOn \<and> moves mo d d2 \<or> may_end v)"
proof -
  define barrier where "barrier = sn_last_event_id (mo_snapshot mo)"
  have ok: "router_ok (dv_router d1)" using assms(2) by (simp add: between_def)
  have later: "between mo d (d1\<lparr>dv_parked := None, dv_sequence := n\<rparr>)" for n
    using assms(2) by (simp add: between_def)
  note home = restore_home_keeps [OF ok disjI2 [OF assms(3)], of mo]
  have failed: "moves mo d (d1\<lparr>dv_parked := None, dv_sequence := n, dv_router := restore_home mo target (dv_router d1)\<rparr>)" for n
    using assms(2) home by (intro between_moves assms(1)) (simp add: between_def)
  have driving: "\<exists>d2 acts v. map_option (\<lambda>(d1, acts1, v). (d1, acts0 @ acts1, v))
      (take_over dp mo s (d1\<lparr>dv_parked := None, dv_sequence := n\<rparr>)) = Some (d2, acts, v)
      \<and> (v = GoesOn \<and> moves mo d d2 \<or> may_end v)" if "ts_target s = target" for s acts0 n
    using take_over_moves [OF assms(1) later [of n], of s dp] assms(3) that by auto
  obtain resumed sequence where res: "resume_parked mo (dv_router d1) target x y (handoff_motion h) barrier (dv_parked d1) (dv_sequence d1)
      = (resumed, sequence)" by force
  show ?thesis
  proof (cases resumed)
    case (Some sa)
    obtain s acts where sa: "sa = (s, acts)" by force
    have "ts_target s = target" using resume_target res Some sa by simp
    from driving [OF this] res Some sa show ?thesis
      by (simp add: continue_drive_def Let_def barrier_def [symmetric])
  next
    case none: None
    show ?thesis
    proof (cases "mo_opens mo")
      case (Opened c)
      show ?thesis
      proof (cases "greet mo (dv_router d1) target x y (handoff_motion h) (spawn_episode_driver c target barrier) sequence")
        case None
        with failed [of sequence] res none Opened show ?thesis
          by (simp add: continue_drive_def Let_def barrier_def [symmetric])
      next
        case (Some g)
        obtain s n acts where g: "g = (s, n, acts)" by (metis prod_cases3)
        have "ts_target s = target" using greet_target [OF Some [unfolded g]] by (simp add: spawn_episode_driver_def)
        from driving [OF this] res none Opened Some g show ?thesis
          by (simp add: continue_drive_def Let_def barrier_def [symmetric])
      qed
    next
      case (OpenFailed sent)
      with failed [of "if sent then sequence + 1 else sequence"] res none show ?thesis
        by (simp add: continue_drive_def Let_def barrier_def [symmetric])
    qed (use res none in \<open>simp add: continue_drive_def Let_def barrier_def [symmetric] may_end_def may_stop_def\<close>)
  qed
qed

lemma handoff_moves:
  assumes "near d"
  shows "\<exists>d' acts v. peer_handoff dp mo h d = Some (d', acts, v) \<and> (v = GoesOn \<and> moves mo d d' \<or> may_end v)"
proof (cases "dv_active d")
  case None
  with assms show ?thesis by (simp add: peer_handoff_def same_moves)
next
  case (Some s)
  define d1 where "d1 = raise_barrier mo (release_suppression mo (d\<lparr>dv_active := None\<rparr>))"
  have r: "router_ok (dv_router d)" "\<not> r_locked (dv_router d)"
    using assms Some by (auto simp: near_def lock_total_def)
  have between: "between mo d (d1\<lparr>dv_router := r'\<rparr>)" if "router_ok r'" "\<not> r_locked r'" for r'
    using that by (simp add: between_def d1_def)
  have d1: "moves mo d d1"
    using r by (intro between_moves [OF assms]) (simp add: between_def d1_def)
  show ?thesis
  proof (cases "handoff_target (r_layout (dv_router d)) h")
    case None
    with Some d1 show ?thesis by (simp add: peer_handoff_def Let_def d1_def [symmetric])
  next
    case target: (Some target)
    obtain x y where at: "handoff_position (r_layout (dv_router d)) target h = (x, y)" by force
    have to: "router_ok r' \<and> \<not> r_locked r' \<and> r_active_remote r' = (if driving then Some target else None)"
      if "handoff_to (mo_now mo) target x y (dv_router d) = Inr (r', driving)" for x y r' driving
      using handoff_to_ok [OF r(1) that] handoff_to_settings [OF that] r(2) by simp
    show ?thesis
    proof (cases "target = r_local_screen (dv_router d)")
      case True
      show ?thesis
      proof (cases "handoff_to (mo_now mo) target (r_local_cursor_x (dv_router d)) (r_local_cursor_y (dv_router d)) (dv_router d)")
        case (Inr p)
        obtain r' b where p: "p = (r', b)" by force
        have "moves mo d (d1\<lparr>dv_router := r'\<rparr>)"
          using to [OF Inr [unfolded p]] by (intro between_moves [OF assms] between) simp_all
        with True Some target at Inr p show ?thesis
          by (simp add: peer_handoff_def Let_def d1_def [symmetric] may_end_def)
      qed (use True Some target at in \<open>simp add: peer_handoff_def Let_def may_end_def\<close>)
    next
      case False
      show ?thesis
      proof (cases "handoff_to (mo_now mo) target x y (dv_router d)")
        case (Inr p)
        obtain r' b where p: "p = (r', b)" by force
        note to = to [OF Inr [unfolded p]]
        then have b: "between mo d (d1\<lparr>dv_router := r'\<rparr>)" by (intro between) simp_all
        show ?thesis
        proof (cases b)
          case True
          then have "r_active_remote (dv_router (d1\<lparr>dv_router := r'\<rparr>)) = Some target" using to by simp
          from continue_moves [OF assms b this, of dp h x y] True False Some target at Inr p show ?thesis
            by (auto simp: peer_handoff_def Let_def d1_def [symmetric])
        next
          case no: False
          from between_moves [OF assms b] no False Some target at Inr p show ?thesis
            by (simp add: peer_handoff_def Let_def d1_def [symmetric] may_end_def)
        qed
      qed (use False Some target at in \<open>simp add: peer_handoff_def Let_def may_end_def\<close>)
    qed
  qed
qed

section \<open>The watched settings\<close>

lemma set_layout_settings:
  "set_layout l r = Inr r' \<Longrightarrow> r_active_remote r' = None \<and> r_locked r' = r_locked r"
  by (auto simp: set_layout_def Let_def split: sum.splits if_splits option.splits)

lemma apply_discipline_keeps:
  "router_ok (apply_discipline c mode style r) = router_ok r"
  "r_active_remote (apply_discipline c mode style r) = r_active_remote r"
  "r_locked (apply_discipline c mode style r) = r_locked r" "r_layout (apply_discipline c mode style r) = r_layout r"
  "r_local_screen (apply_discipline c mode style r) = r_local_screen r"
  by (simp add: apply_discipline_def Let_def) (simp_all add: apply_discipline_def Let_def set_edge_mode_def set_double_style_def)

lemma read_settings_drive:
  "tk_drive (read_settings src tk) = tk_drive tk
   \<or> (\<exists>c mode style. tk_drive (read_settings src tk)
        = (tk_drive tk)\<lparr>dv_router := apply_discipline c mode style (dv_router (tk_drive tk))\<rparr>)"
proof (cases src)
  case (ReadBytes bytes parsed)
  show ?thesis
  proof (cases parsed)
    case (Some c)
    show ?thesis
    proof (cases "tk_bytes_seen tk = Some bytes")
      case False
      then have "tk_drive (read_settings src tk) = (tk_drive tk)\<lparr>dv_router :=
          apply_discipline c (tk_edge_mode tk) (tk_double_style tk) (dv_router (tk_drive tk))\<rparr>"
        by (simp add: read_settings_def Let_def ReadBytes Some)
      then show ?thesis by blast
    qed (simp add: read_settings_def ReadBytes)
  qed (simp add: read_settings_def Let_def ReadBytes)
qed (simp add: read_settings_def)

text \<open>In the form the proofs use: only the router changes, and none of what matters of it.\<close>

lemma read_settings_router:
  obtains r where "tk_drive (read_settings src tk) = (tk_drive tk)\<lparr>dv_router := r\<rparr>"
    "router_ok r = router_ok (dv_router (tk_drive tk))" "r_active_remote r = r_active_remote (dv_router (tk_drive tk))"
    "r_locked r = r_locked (dv_router (tk_drive tk))" "r_layout r = r_layout (dv_router (tk_drive tk))"
    "r_local_screen r = r_local_screen (dv_router (tk_drive tk))"
proof -
  consider "tk_drive (read_settings src tk) = (tk_drive tk)\<lparr>dv_router := dv_router (tk_drive tk)\<rparr>"
    | c mode style where "tk_drive (read_settings src tk)
        = (tk_drive tk)\<lparr>dv_router := apply_discipline c mode style (dv_router (tk_drive tk))\<rparr>"
    using read_settings_drive [of src tk] by auto
  then show ?thesis
    by cases (erule that; simp add: apply_discipline_keeps)+
qed

lemma settings_moves:
  assumes "near (tk_drive tk)"
  shows "moves mo (tk_drive tk) (tk_drive (apply_live_topology_config src tk))"
proof -
  have ok: "router_ok (dv_router (tk_drive tk))" using assms by (simp add: near_def)
  obtain r where r: "tk_drive (read_settings src tk) = (tk_drive tk)\<lparr>dv_router := r\<rparr>" "router_ok r"
    "r_active_remote r = r_active_remote (dv_router (tk_drive tk))" "r_locked r = r_locked (dv_router (tk_drive tk))"
    using read_settings_router [of src tk] ok by metis
  have near: "moves mo (tk_drive tk) (d\<lparr>dv_router := r'\<rparr>)"
    if "d = tk_drive tk" "router_ok r'" "r_active_remote r' = r_active_remote (dv_router d)" "r_locked r' = r_locked (dv_router d)" for d r'
    using that assms by (intro same_moves assms) (simp_all add: near_def lock_total_def grab_known_def)
  have applied: "moves mo (tk_drive tk) ((tk_drive tk)\<lparr>dv_router := r'\<rparr>)" if "set_layout l r = Inr r'" for l r'
    using set_layout_Inr [OF that r(2)] set_layout_settings [OF that] r(3,4) by (intro near) simp_all
  from near [OF refl r(2,3,4)] applied r(1) show ?thesis
    by (auto simp: apply_live_topology_config_def Let_def split: option.split sum.split)
qed

section \<open>Every step\<close>

lemma task_step_moves:
  assumes "near (tk_drive tk)"
  shows "\<exists>tk' acts v. task_step dp mo cache event tk = Some (tk', acts, v)
    \<and> (v = GoesOn \<and> moves mo (tk_drive tk) (tk_drive tk') \<or> may_end v)"
proof (cases event)
  case (CapturedInput captured)
  obtain d' acts v where "handle_captured dp mo captured (tk_drive tk) = Some (d', acts, v)"
    "v = GoesOn \<and> moves mo (tk_drive tk) d' \<or> may_stop v" using captured_moves [OF assms] by blast
  with CapturedInput show ?thesis by (auto simp: task_step_def may_end_def)
next
  case (PeerHandsOff h)
  obtain d' acts v where "peer_handoff dp mo h (tk_drive tk) = Some (d', acts, v)"
    "v = GoesOn \<and> moves mo (tk_drive tk) d' \<or> may_end v" using handoff_moves [OF assms] by blast
  with PeerHandsOff show ?thesis by (auto simp: task_step_def)
next
  case (SettingsTick src)
  with settings_moves [OF assms] show ?thesis by (simp add: task_step_def)
next
  case ProbeTick
  with probe_moves [OF assms] show ?thesis by (simp add: task_step_def case_prod_beta)
next
  case KeepAliveTick
  with keep_alive_moves [OF assms] show ?thesis by (simp add: task_step_def case_prod_beta)
qed (use closed_moves [OF assms] clipboard_moves [OF assms] progress_moves [OF assms] in
    \<open>simp_all add: task_step_def on_drive_def case_prod_beta Let_def\<close>)

section \<open>Histories\<close>

text \<open>
  Between two steps of the task the capture thread and the platform act on what they share with
  it. The capture thread may clear the wish, when its watchdog takes the task for wedged, and never
  sets it; the platform may keep its hold, lose it, or take it again for a wish it saw late.
\<close>

definition elsewhere :: "bool \<Rightarrow> bool \<Rightarrow> drive \<Rightarrow> drive" where
  "elsewhere wedged hold d = d\<lparr>dv_exclusive := dv_exclusive d \<and> \<not> wedged, dv_hold := hold\<rparr>"

inductive reaches :: "drive_params \<Rightarrow> drive_task \<Rightarrow> drive_task \<Rightarrow> bool" for dp tk0 where
  here: "reaches dp tk0 tk0"
| step: "reaches dp tk0 tk \<Longrightarrow> task_step dp mo cache event tk = Some (tk', acts, GoesOn) \<Longrightarrow> reaches dp tk0 tk'"
| meanwhile: "reaches dp tk0 tk \<Longrightarrow> reaches dp tk0 (tk\<lparr>tk_drive := elsewhere wedged hold (tk_drive tk)\<rparr>)"

lemma elsewhere_fields [simp]:
  "dv_router (elsewhere wedged hold d) = dv_router d" "dv_active (elsewhere wedged hold d) = dv_active d"
  "dv_parked (elsewhere wedged hold d) = dv_parked d" "dv_discarded (elsewhere wedged hold d) = dv_discarded d"
  "dv_suppressed (elsewhere wedged hold d) = dv_suppressed d" "dv_hold (elsewhere wedged hold d) = hold"
  "dv_exclusive (elsewhere wedged hold d) = (dv_exclusive d \<and> \<not> wedged)"
  "dv_unacked_pings (elsewhere wedged hold d) = dv_unacked_pings d"
  by (simp_all add: elsewhere_def)

lemma elsewhere_near: "near d \<Longrightarrow> near (elsewhere wedged hold d)"
  by (auto simp: near_def lock_total_def grab_known_def)

lemma prepare_router_ok:
  assumes "router_ok r0" "r_active_remote r0 = None" "\<not> r_locked r0"
  shows "\<exists>r. prepare_router measured pointer c r0 = Some r \<and> router_ok r \<and> r_active_remote r = None \<and> \<not> r_locked r"
proof -
  define r1 where "r1 = set_handoff_grace (from_millis 40) (set_return_hold (from_millis 0) r0)"
  have r1: "router_ok r1" "r_active_remote r1 = None" "\<not> r_locked r1"
    using assms by (simp add: r1_def) (use assms in \<open>simp_all add: r1_def set_handoff_grace_def set_return_hold_def\<close>)
  obtain r2 where r2: "(case measured of None \<Rightarrow> Some r1
      | Some (width, height) \<Rightarrow> map_option fst (adopt_local_screen_size width height r1)) = Some r2"
    "router_ok r2" "r_active_remote r2 = None" "\<not> r_locked r2"
  proof (cases measured)
    case None
    with that r1 show ?thesis by simp
  next
    case (Some wh)
    obtain w h where wh: "wh = (w, h)" by force
    obtain r a where r: "adopt_local_screen_size w h r1 = Some (r, a)" "router_ok r" using r1(1) by (rule adopt_local_ok)
    from that [of r] adopt_local_keeps [OF r(1)] r r1 Some wh show ?thesis by simp
  qed
  define r3 where "r3 = (case pointer of None \<Rightarrow> r2 | Some (x, y) \<Rightarrow> kept r2 (set_local_cursor_position x y r2))"
  have "router_ok r3" "r_active_remote r3 = None" "\<not> r_locked r3"
    using r2 seed_keeps [OF r2(2)] by (auto simp: r3_def set_local_cursor_position_def split: option.split)
  moreover have "prepare_router measured pointer c r0
      = Some (set_double_style (cfg_double_edge_style c) (set_edge_mode (cfg_edge_mode c) r3))"
    by (simp add: prepare_router_def Let_def r1_def [symmetric] r2(1) r3_def)
  ultimately show ?thesis by (simp add: set_double_style_def set_edge_mode_def) (simp add: router_ok_def push_ok_def split: option.splits)
qed

lemma started_near:
  "router_ok r \<Longrightarrow> \<not> r_locked r \<Longrightarrow> near (tk_drive (start_task r c warm diverted bytes))"
  by (simp add: near_def start_task_def lock_total_def grab_known_def)

lemma reaches_near: "reaches dp tk0 tk \<Longrightarrow> near (tk_drive tk0) \<Longrightarrow> near (tk_drive tk)"
proof (induction rule: reaches.induct)
  case (step tk mo cache event tk' acts)
  with task_step_moves [of tk dp mo cache event] show ?case by (auto simp: moves_def may_end_def may_stop_def)
qed (simp_all add: elsewhere_near)

section \<open>A peer that does not answer\<close>

text \<open>
  \<open>held dp n tk tk'\<close>: the drive went on from \<open>tk\<close> to \<open>tk'\<close> without a pong, over \<open>n\<close> keep-alives.
\<close>

inductive held :: "drive_params \<Rightarrow> nat \<Rightarrow> drive_task \<Rightarrow> drive_task \<Rightarrow> bool" for dp where
  start: "dv_active (tk_drive tk) \<noteq> None \<Longrightarrow> held dp 0 tk tk"
| goes_on: "held dp n tk tk1 \<Longrightarrow> event \<noteq> PeerPong \<Longrightarrow> \<nexists>h. event = PeerHandsOff h
    \<Longrightarrow> task_step dp mo cache event tk1 = Some (tk2, acts, GoesOn) \<Longrightarrow> dv_active (tk_drive tk2) \<noteq> None
    \<Longrightarrow> held dp (if event = KeepAliveTick then n + 1 else n) tk tk2"
| meanwhile: "held dp n tk tk1 \<Longrightarrow> held dp n tk (tk1\<lparr>tk_drive := elsewhere wedged hold (tk_drive tk1)\<rparr>)"

lemma before_routing_pings:
  "before_routing mo event d = Some d' \<Longrightarrow> dv_unacked_pings d' = dv_unacked_pings d \<and> dv_active d' = dv_active d"
  by (auto simp: before_routing_def follow_display_def follow_truth_def Let_def split: if_splits option.splits prod.splits)

lemma forward_pings:
  assumes "forward_event dp mo target event d = (d', acts, v)" "dv_active d' \<noteq> None"
  shows "dv_unacked_pings d' = dv_unacked_pings d"
  using assms
  by (auto simp: forward_event_def Let_def with_sender_def end_episode_def split: option.splits if_splits prod.splits)

lemma dispatch_pings:
  assumes "dispatch dp mo event_id routed d = Some (d', acts, GoesOn)" "dv_active d \<noteq> None" "dv_active d' \<noteq> None"
  shows "dv_unacked_pings d' = dv_unacked_pings d"
proof (cases routed)
  case (Handoff src target e tx ty event)
  with assms show ?thesis by (simp add: dispatch_def open_drive_def)
next
  case (ReturnHome src e entry armed)
  with assms show ?thesis
    by (auto simp: dispatch_def return_from_drive_def Let_def release_suppression_def set_exclusive_def raise_barrier_def split: option.splits if_splits)
next
  case (Forward target event)
  with assms forward_pings show ?thesis by (simp add: dispatch_def)
qed (use assms in \<open>auto simp: dispatch_def split: if_splits\<close>)

lemma captured_pings:
  assumes "handle_captured dp mo captured d = Some (d', acts, GoesOn)" "dv_active d \<noteq> None" "dv_active d' \<noteq> None"
  shows "dv_unacked_pings d' = dv_unacked_pings d"
proof (cases "handle_topology_event dp mo captured d = Some (d', acts, GoesOn)")
  case False
  with assms(1) show ?thesis by (auto simp: handle_captured_def split: if_splits)
next
  case True
  then obtain d1 where d1: "before_routing mo (ce_event captured) d = Some d1"
    by (auto simp: handle_topology_event_def split: option.splits)
  note same = before_routing_pings [OF d1]
  have locked: "dv_unacked_pings (fst (toggle_lock mo d1)) = dv_unacked_pings d1"
    by (auto simp: toggle_lock_def Let_def release_suppression_def set_exclusive_def raise_barrier_def split: option.split)
  have yielded: "dv_active (fst (yield_drive_to_inbound mo d1)) = None"
    by (auto simp: yield_drive_to_inbound_def Let_def split: option.split)
  have routed: "dv_unacked_pings d' = dv_unacked_pings d1"
    if "dispatch dp mo (ce_event_id captured) routed (d1\<lparr>dv_router := r\<rparr>) = Some (d', acts, GoesOn)" for r routed
    using dispatch_pings [OF that] same assms(2,3) by simp
  from True d1 same locked yielded routed assms(3) show ?thesis
    by (auto simp: handle_topology_event_def case_prod_beta split: if_splits option.splits)
qed

lemma probe_pings:
  assumes "dv_active (tk_drive (fst (yield_probe mo cache tk))) \<noteq> None"
  shows "dv_unacked_pings (tk_drive (fst (yield_probe mo cache tk))) = dv_unacked_pings (tk_drive tk)"
proof -
  have yielded: "dv_active (fst (yield_drive_to_inbound mo d)) = None" for d
    by (auto simp: yield_drive_to_inbound_def Let_def split: option.split)
  have "dv_unacked_pings (tk_drive (fst (probe_inbound_yield mo cache tk1))) = dv_unacked_pings (tk_drive tk1)"
    if "dv_active (tk_drive (fst (probe_inbound_yield mo cache tk1))) \<noteq> None" for tk1
    using that yielded by (auto simp: probe_inbound_yield_def Let_def case_prod_beta split: if_splits)
  with assms yielded show ?thesis
    by (auto simp: yield_probe_def Let_def case_prod_beta split: if_splits)
qed

lemma ping_pings:
  assumes "dv_active (fst (ping_peer mo d)) \<noteq> None"
  shows "dv_unacked_pings (fst (ping_peer mo d)) = sat_plus (dv_unacked_pings d) 1 \<and> \<not> drive_starved (sat_plus (dv_unacked_pings d) 1)"
  using assms
  by (auto simp: ping_peer_def Let_def end_silent_drive_def split: option.splits if_splits)

end
