(* ===== verification/DriveSafety.thy ===== *)
theory DriveSafety
  imports DriveTaskRuns
begin

text \<open>
  What follows for the drive task over any history of events, with the capture thread and the
  platform acting between its steps: it never panics, the grab is wished and believed exactly for
  a drive, input that was grabbed comes back, and a silent peer is left.
\<close>

section \<open>A computer at rest\<close>

definition quiet :: moment where
  "quiet = \<lparr>mo_now = 0, mo_pointer = None, mo_display = None, mo_polls = [], mo_diverted = 0,
     mo_snapshot = \<lparr>sn_state = \<lparr>st_pressed_keys = [], st_pressed_buttons = []\<rparr>, sn_last_event_id = 7\<rparr>,
     mo_takes = (\<lambda>_. True), mo_capture_released = True,
     mo_delivery = (\<lambda>_. \<lparr>dl_at = 0, dl_udp = False, dl_write = Written, dl_sync = True\<rparr>),
     mo_release_written = True, mo_park = ParkClosed, mo_resumes = False, mo_resume_numbered = False,
     mo_opens = OpenFailed False, mo_warps = True, mo_ping = True, mo_parked_ping = True\<rparr>"

definition plain_peer :: capabilities where
  "plain_peer = \<lparr>cb_smooth_scroll = True, cb_pinch_zoom = True, cb_udp_motion = False, cb_motion_lane = False,
     cb_screen_geometry = None\<rparr>"

definition no_inbound :: inbound_snapshot where
  "no_inbound = \<lparr>ib_totals = [], ib_driving = []\<rparr>"

text \<open>A task that drives screen 2.\<close>

definition driving_task :: "edge_router \<Rightarrow> drive_task" where
  "driving_task r =
     (let tk = start_task r (default_config None) None 0 None
      in tk\<lparr>tk_drive := (tk_drive tk)\<lparr>dv_active := Some (spawn_episode_driver plain_peer (ScreenId 2) 0),
           dv_exclusive := True, dv_suppressed := True, dv_hold := True\<rparr>\<rparr>)"

lemma desk_pair_started:
  obtains r0 r where "router_new desk_pair = Inr r0" "prepare_router None None (default_config None) r0 = Some r"
    "router_ok r" "r_active_remote r = None" "\<not> r_locked r"
proof -
  obtain r0 where r0: "router_new desk_pair = Inr r0" using desk_pair_router by blast
  have "r_active_remote r0 = None" "\<not> r_locked r0"
    using r0 by (auto simp: router_new_def split: sum.splits option.splits)
  with router_new_ok [OF r0] obtain r where "prepare_router None None (default_config None) r0 = Some r" "router_ok r"
    "r_active_remote r = None" "\<not> r_locked r"
    using prepare_router_ok [of r0 None None "default_config None"] by auto
  with that [OF r0] show ?thesis by simp
qed

lemma started_router:
  assumes "router_new l = Inr r0" "prepare_router measured pointer c r0 = Some r"
  shows "router_ok r" "r_active_remote r = None" "\<not> r_locked r"
proof -
  have "r_active_remote r0 = None" "\<not> r_locked r0"
    using assms(1) by (auto simp: router_new_def split: sum.splits option.splits)
  with prepare_router_ok [of r0 measured pointer c] router_new_ok [OF assms(1)] assms(2)
  show "router_ok r" "r_active_remote r = None" "\<not> r_locked r" by auto
qed

section \<open>No panic, and the grab\<close>

text \<open>
  C5: the drive task never panics. Started on any arrangement the router accepts, and after
  any history of captured events, signals of the peer and ticks of its clocks, with any answers of
  the platform and the network, every further event is handled; the task then goes on, or stops for
  one of four reasons.
\<close>

theorem drive_task_never_panics:
  assumes "router_new l = Inr r0"
  shows "\<exists>r. prepare_router measured pointer c r0 = Some r
    \<and> (\<forall>dp tk mo cache event. reaches dp (start_task r c warm diverted bytes) tk \<longrightarrow>
         (\<exists>tk' acts v. task_step dp mo cache event tk = Some (tk', acts, v)
            \<and> v \<in> {GoesOn, Stops ''link ended'', Stops ''release of the capture failed'',
                Stops ''handoff refused'', Stops ''warp failed''}))"
proof -
  have "r_active_remote r0 = None" "\<not> r_locked r0"
    using assms by (auto simp: router_new_def split: sum.splits option.splits)
  then obtain r where r: "prepare_router measured pointer c r0 = Some r" "router_ok r" "\<not> r_locked r"
    using prepare_router_ok [of r0 measured pointer c] router_new_ok [OF assms] by auto
  have near: "near (tk_drive tk)" if "reaches dp (start_task r c warm diverted bytes) tk" for dp tk
    by (rule reaches_near [OF that started_near [OF r(2,3)]])
  have steps: "\<exists>tk' acts v. task_step dp mo cache event tk = Some (tk', acts, v)
      \<and> v \<in> {GoesOn, Stops ''link ended'', Stops ''release of the capture failed'',
          Stops ''handoff refused'', Stops ''warp failed''}"
    if run: "reaches dp (start_task r c warm diverted bytes) tk" for dp tk mo cache event
  proof -
    obtain tk' acts v where step: "task_step dp mo cache event tk = Some (tk', acts, v)"
      "v = GoesOn \<and> moves mo (tk_drive tk) (tk_drive tk') \<or> may_end v"
      using task_step_moves [OF near [OF run], of dp mo cache event] by (elim exE conjE) (rule that)
    from step(2) have "v \<in> {GoesOn, Stops ''link ended'', Stops ''release of the capture failed'',
          Stops ''handoff refused'', Stops ''warp failed''}"
      by (elim disjE) (simp_all add: may_end_def may_stop_def)
    with step(1) show ?thesis by (intro exI conjI)
  qed
  show ?thesis by (intro exI [of _ r] conjI allI impI r(1) steps)
qed

lemma drive_task_never_panics_witness:
  "\<exists>r0 r tk' acts v. router_new desk_pair = Inr r0 \<and> prepare_router None None (default_config None) r0 = Some r
     \<and> task_step \<lparr>dp_link = None, dp_reverse_scroll = False\<rparr> quiet no_inbound
         (CapturedInput \<lparr>ce_event = MouseMove 3000 0, ce_event_id = 8\<rparr>)
         (start_task r (default_config None) None 0 None) = Some (tk', acts, v)"
proof -
  obtain r0 where r0: "router_new desk_pair = Inr r0" using desk_pair_router by blast
  obtain r where r: "prepare_router None None (default_config None) r0 = Some r"
    and runs: "\<And>dp tk mo cache event. reaches dp (start_task r (default_config None) None 0 None) tk \<Longrightarrow>
         \<exists>tk' acts v. task_step dp mo cache event tk = Some (tk', acts, v)"
    using drive_task_never_panics [OF r0, where measured = None and pointer = None and c = "default_config None"
        and warm = None and diverted = 0 and bytes = None] by metis
  from runs [OF here] r0 r show ?thesis by blast
qed

text \<open>
  C6: the grab follows the drive. At every moment of any history, whatever the capture thread and
  the platform did in between: while a screen is driven the router is on that very screen and
  nothing is locked; a lock leaves neither a drive nor a parked stream; the task believes that it
  grabbed the input exactly while it drives, and wishes it only then. And a further step that starts
  a drive sets the wish and calls the platform, one that goes on driving leaves wish and hold alone
  or renews them, and one that ends the drive clears the wish and calls for the release; where the
  platform takes the call the hold follows.
\<close>

theorem grab_follows_the_drive:
  assumes "router_new l = Inr r0" "prepare_router measured pointer c r0 = Some r"
    and "reaches dp (start_task r c warm diverted bytes) tk" "tk_drive tk = d"
  shows "(case dv_active d of
      None \<Rightarrow> True
    | Some s \<Rightarrow> r_active_remote (dv_router d) = Some (ts_target s)
        \<and> r_current_screen (dv_router d) = ts_target s \<and> \<not> r_locked (dv_router d))
    \<and> (r_locked (dv_router d) \<longrightarrow> dv_active d = None \<and> dv_parked d = None)
    \<and> (dv_suppressed d \<longleftrightarrow> dv_active d \<noteq> None) \<and> (dv_exclusive d \<longrightarrow> dv_active d \<noteq> None)
    \<and> (\<forall>mo cache event tk' acts. task_step dp mo cache event tk = Some (tk', acts, GoesOn) \<longrightarrow>
         (let d' = tk_drive tk'
          in if dv_active d' \<noteq> None
             then dv_active d \<noteq> None \<and> dv_exclusive d' = dv_exclusive d \<and> dv_hold d' = dv_hold d
               \<or> dv_exclusive d' \<and> (mo_takes mo True \<longrightarrow> dv_hold d')
             else \<not> dv_exclusive d'
               \<and> (dv_active d = None \<and> dv_hold d' = dv_hold d \<or> (mo_takes mo False \<longrightarrow> \<not> dv_hold d'))))"
proof -
  have "near (tk_drive tk)"
    using assms(3) started_near started_router [OF assms(1,2)] by (blast intro: reaches_near)
  then have near: "near d" using assms(4) by simp
  have step: "near (tk_drive tk')" "grab_follows mo d (tk_drive tk')"
    if "task_step dp mo cache event tk = Some (tk', acts, GoesOn)" for mo cache event tk' acts
    using task_step_moves [of tk dp mo cache event] that near assms(4)
    by (auto simp: moves_def may_end_def may_stop_def)
  have follows: "let d' = tk_drive tk'
      in if dv_active d' \<noteq> None
         then dv_active d \<noteq> None \<and> dv_exclusive d' = dv_exclusive d \<and> dv_hold d' = dv_hold d
           \<or> dv_exclusive d' \<and> (mo_takes mo True \<longrightarrow> dv_hold d')
         else \<not> dv_exclusive d'
           \<and> (dv_active d = None \<and> dv_hold d' = dv_hold d \<or> (mo_takes mo False \<longrightarrow> \<not> dv_hold d'))"
    if "task_step dp mo cache event tk = Some (tk', acts, GoesOn)" for mo cache event tk' acts
    using step [OF that]
    by (cases "dv_active (tk_drive tk')") (simp_all add: grab_follows_def near_def grab_known_def Let_def)
  show ?thesis
  proof (intro conjI allI impI)
    show "case dv_active d of None \<Rightarrow> True
      | Some s \<Rightarrow> r_active_remote (dv_router d) = Some (ts_target s)
          \<and> r_current_screen (dv_router d) = ts_target s \<and> \<not> r_locked (dv_router d)"
      using near by (cases "dv_active d") (auto simp: near_def lock_total_def router_ok_def)
  qed (use near follows in \<open>auto simp: near_def lock_total_def grab_known_def\<close>)
qed

text \<open>A message to the platform that was lost: it holds the input with nothing driven or wished.\<close>

lemma stray_hold:
  "reaches dp (start_task r c warm diverted bytes)
     ((start_task r c warm diverted bytes)\<lparr>tk_drive := elsewhere False True (tk_drive (start_task r c warm diverted bytes))\<rparr>)"
  by (rule reaches.meanwhile [OF reaches.here])

lemma grab_follows_the_drive_witness:
  "\<exists>r0 r. router_new desk_pair = Inr r0 \<and> prepare_router None None (default_config None) r0 = Some r
     \<and> (let d = elsewhere False True (tk_drive (start_task r (default_config None) None 0 None))
        in dv_hold d \<and> \<not> dv_suppressed d)"
proof -
  obtain r0 r where r: "router_new desk_pair = Inr r0" "prepare_router None None (default_config None) r0 = Some r"
    by (rule desk_pair_started)
  let ?d = "elsewhere False True (tk_drive (start_task r (default_config None) None 0 None))"
  have "dv_suppressed ?d \<longleftrightarrow> dv_active ?d \<noteq> None"
    using grab_follows_the_drive [OF r stray_hold refl] by simp
  with r show ?thesis by (auto simp: Let_def start_task_def)
qed

lemma probe_grab:
  assumes "dv_active (tk_drive (fst (yield_probe mo cache tk))) \<noteq> None"
  shows "dv_exclusive (tk_drive (fst (yield_probe mo cache tk))) = dv_exclusive (tk_drive tk)
    \<and> dv_hold (tk_drive (fst (yield_probe mo cache tk))) = dv_hold (tk_drive tk)
    \<and> dv_active (tk_drive tk) \<noteq> None"
proof -
  have yielded: "dv_active (fst (yield_drive_to_inbound mo d)) = None" for d
    by (auto simp: yield_drive_to_inbound_def Let_def split: option.split)
  have "dv_exclusive (tk_drive (fst (probe_inbound_yield mo cache tk1))) = dv_exclusive (tk_drive tk1)
      \<and> dv_hold (tk_drive (fst (probe_inbound_yield mo cache tk1))) = dv_hold (tk_drive tk1)"
    if "dv_active (tk_drive (fst (probe_inbound_yield mo cache tk1))) \<noteq> None" for tk1
    using that yielded by (auto simp: probe_inbound_yield_def Let_def case_prod_beta split: if_splits)
  with assms yielded show ?thesis
    by (auto simp: yield_probe_def Let_def case_prod_beta split: if_splits)
qed

lemma ping_grab:
  "dv_active (fst (ping_peer mo d)) \<noteq> None \<Longrightarrow> dv_exclusive (fst (ping_peer mo d)) = dv_exclusive d
     \<and> dv_hold (fst (ping_peer mo d)) = dv_hold d \<and> dv_active d \<noteq> None"
  by (auto simp: ping_peer_def Let_def end_silent_drive_def split: option.splits if_splits)

text \<open>
  C14: grabbed input comes back. Whatever happened before, and whatever the platform holds by then
  without the task knowing: after a keep-alive with nothing driven neither wish nor belief is left,
  the platform has been called to release, and where it takes the call it holds nothing. While a
  screen is driven a keep-alive leaves wish, belief and hold alone.
\<close>

theorem keep_alive_frees_input:
  assumes "router_new l = Inr r0" "prepare_router measured pointer c r0 = Some r"
    and "reaches dp (start_task r c warm diverted bytes) tk"
    and "task_step dp mo cache KeepAliveTick tk = Some (tk', acts, v)"
  shows "(dv_active (tk_drive tk') = None \<longrightarrow> \<not> dv_exclusive (tk_drive tk') \<and> \<not> dv_suppressed (tk_drive tk')
      \<and> Suppressed False \<in> set acts \<and> (mo_takes mo False \<longrightarrow> \<not> dv_hold (tk_drive tk')))
    \<and> (dv_active (tk_drive tk') \<noteq> None \<longrightarrow> dv_suppressed (tk_drive tk')
      \<and> dv_exclusive (tk_drive tk') = dv_exclusive (tk_drive tk) \<and> dv_hold (tk_drive tk') = dv_hold (tk_drive tk))"
proof -
  have "near (tk_drive tk)"
    using assms(3) started_near started_router [OF assms(1,2)] by (blast intro: reaches_near)
  from keep_alive_moves [OF this, of mo cache] assms(4) have near: "near (tk_drive tk')"
    by (simp add: task_step_def case_prod_beta moves_def)
  obtain tk1 acts1 where 1: "yield_probe mo cache tk = (tk1, acts1)" by force
  obtain d2 acts2 where 2: "ping_peer mo (tk_drive tk1) = (d2, acts2)" by force
  show ?thesis
  proof (cases "dv_active d2")
    case None
    then have "tk_drive tk' = release_suppression mo d2" "acts = acts1 @ acts2 @ release_acts"
      using assms(4) 1 2 by (auto simp: task_step_def keep_alive_def reap_grab_def)
    with None show ?thesis by (simp add: release_acts_def)
  next
    case (Some s)
    then have "tk_drive tk' = d2"
      using assms(4) 1 2 by (auto simp: task_step_def keep_alive_def reap_grab_def)
    moreover from this have "dv_suppressed (tk_drive tk')" using near Some by (simp add: near_def grab_known_def)
    ultimately show ?thesis
      using Some ping_grab [of mo "tk_drive tk1"] probe_grab [of mo cache tk] 1 2 by simp
  qed
qed

lemma keep_alive_frees_input_witness:
  "\<exists>r0 r tk tk' acts v. router_new desk_pair = Inr r0 \<and> prepare_router None None (default_config None) r0 = Some r
     \<and> reaches \<lparr>dp_link = None, dp_reverse_scroll = False\<rparr> (start_task r (default_config None) None 0 None) tk
     \<and> dv_hold (tk_drive tk)
     \<and> task_step \<lparr>dp_link = None, dp_reverse_scroll = False\<rparr> quiet no_inbound KeepAliveTick tk = Some (tk', acts, v)
     \<and> \<not> dv_hold (tk_drive tk')"
proof -
  let ?dp = "\<lparr>dp_link = None, dp_reverse_scroll = False\<rparr> :: drive_params"
  obtain r0 r where r: "router_new desk_pair = Inr r0" "prepare_router None None (default_config None) r0 = Some r"
    by (rule desk_pair_started)
  define tk where "tk = (start_task r (default_config None) None 0 None)\<lparr>tk_drive :=
    elsewhere False True (tk_drive (start_task r (default_config None) None 0 None))\<rparr>"
  have run: "reaches ?dp (start_task r (default_config None) None 0 None) tk" unfolding tk_def by (rule stray_hold)
  have step: "task_step ?dp quiet no_inbound KeepAliveTick tk
      = Some (fst (keep_alive quiet no_inbound tk), snd (keep_alive quiet no_inbound tk), GoesOn)"
    by (simp add: task_step_def case_prod_beta)
  have idle: "dv_active (tk_drive tk) = None" "dv_hold (tk_drive tk)" by (simp_all add: tk_def start_task_def)
  then have "dv_active (tk_drive (fst (keep_alive quiet no_inbound tk))) = None"
    by (simp add: keep_alive_def yield_probe_def ping_peer_def reap_grab_def quiet_def)
  with keep_alive_frees_input [OF r run step] have "\<not> dv_hold (tk_drive (fst (keep_alive quiet no_inbound tk)))"
    by (simp add: quiet_def)
  with r run idle step show ?thesis by blast
qed

section \<open>A silent peer\<close>

lemma unat_sat_plus: "unat (sat_plus a b) = min (2 ^ LENGTH('a) - 1) (unat a + unat b)" for a b :: "'a :: len word"
proof (cases "unat a + unat b < 2 ^ LENGTH('a)")
  case True
  then have sum: "unat (a + b) = unat a + unat b" by (simp add: unat_add_lem)
  then have "\<not> a + b < a" by (simp add: word_less_nat_alt)
  with True sum show ?thesis by (simp add: sat_plus_def)
next
  case False
  have less: "unat a < 2 ^ LENGTH('a)" "unat b < 2 ^ LENGTH('a)" by simp_all
  have "(unat a + unat b) mod 2 ^ LENGTH('a) = (unat a + unat b - 2 ^ LENGTH('a)) mod 2 ^ LENGTH('a)"
    by (rule le_mod_geq) (use False in simp)
  also have "\<dots> = unat a + unat b - 2 ^ LENGTH('a)" by (rule mod_less) (use less False in linarith)
  finally have "(unat a + unat b) mod 2 ^ LENGTH('a) = unat a + unat b - 2 ^ LENGTH('a)" .
  then have "unat (a + b) = unat a + unat b - 2 ^ LENGTH('a)" by (simp add: unat_word_ariths(1))
  then have "a + b < a" using False less unfolding word_less_nat_alt by linarith
  with False show ?thesis by (simp add: sat_plus_def unsigned_minus_1_eq_mask mask_eq_exp_minus_1)
qed

lemma held_pings:
  assumes "held dp n tk tk'"
  shows "n \<le> unat (dv_unacked_pings (tk_drive tk')) \<and> n < 12 \<and> dv_active (tk_drive tk') \<noteq> None"
  using assms
proof (induction rule: held.induct)
  case (goes_on n tk tk1 event mo cache tk2 acts)
  note step = goes_on.hyps(4) and active = goes_on.hyps(5)
  show ?case
  proof (cases "event = KeepAliveTick")
    case True
    obtain t1 a1 where probe: "yield_probe mo cache tk1 = (t1, a1)" by force
    obtain d2 a2 where ping: "ping_peer mo (tk_drive t1) = (d2, a2)" by force
    have tk2: "tk_drive tk2 = fst (reap_grab mo d2)"
      using step True probe ping by (auto simp: task_step_def keep_alive_def split: prod.splits)
    with active have d2: "tk_drive tk2 = d2" "dv_active d2 \<noteq> None"
      by (auto simp: reap_grab_def split: if_splits)
    with ping_pings [of mo "tk_drive t1"] ping have
      p: "dv_unacked_pings d2 = sat_plus (dv_unacked_pings (tk_drive t1)) 1" "\<not> drive_starved (dv_unacked_pings d2)" by auto
    have "dv_active (tk_drive t1) \<noteq> None" using d2(2) ping by (auto simp: ping_peer_def split: option.splits if_splits)
    with probe_pings [of mo cache tk1] probe have "dv_unacked_pings (tk_drive t1) = dv_unacked_pings (tk_drive tk1)" by simp
    with p d2 goes_on.IH show ?thesis
      using unat_sat_plus [of "dv_unacked_pings (tk_drive tk1)" 1] True
      by (auto simp: drive_starved_def word_le_nat_alt)
  next
    case False
    have "dv_unacked_pings (tk_drive tk2) = dv_unacked_pings (tk_drive tk1)"
    proof (cases event)
      case (CapturedInput captured)
      with step captured_pings [of dp mo captured "tk_drive tk1"] goes_on.IH active show ?thesis
        by (auto simp: task_step_def)
    next
      case (SettingsTick src)
      obtain r where "tk_drive (read_settings src tk1) = (tk_drive tk1)\<lparr>dv_router := r\<rparr>"
        by (rule read_settings_router)
      with step SettingsTick show ?thesis
        by (auto simp: task_step_def apply_live_topology_config_def Let_def split: option.splits sum.splits)
    next
      case PeerCloses
      with step goes_on.IH active show ?thesis
        by (auto simp: task_step_def on_drive_def stream_closed_def peer_closed_def Let_def split: option.splits)
    next
      case ClipboardFails
      with step goes_on.IH active show ?thesis
        by (auto simp: task_step_def on_drive_def clipboard_send_failed_def end_episode_def Let_def split: option.splits)
    next
      case ProbeTick
      with step probe_pings [of mo cache tk1] active show ?thesis by (auto simp: task_step_def split: prod.splits)
    qed (use goes_on.hyps(2,3) False in auto)
    with goes_on.IH False active show ?thesis by simp
  qed
qed simp_all

text \<open>
  C15: a peer that does not answer is left. However long a drive goes on without a pong,
  with whatever else happening, it is never kept through a twelfth keep-alive.
\<close>

theorem silent_peer_is_left:
  assumes "held dp n tk tk'"
  shows "n < 12"
  using held_pings [OF assms] by blast

lemma driving_task_fields:
  "dv_active (tk_drive (driving_task r)) = Some (spawn_episode_driver plain_peer (ScreenId 2) 0)"
  "dv_last_transfer (tk_drive (driving_task r)) = None" "dv_last_outbound (tk_drive (driving_task r)) = None"
  "dv_baselines_fresh (tk_drive (driving_task r))" "dv_last_progress (tk_drive (driving_task r)) = None"
  "dv_unacked_pings (tk_drive (driving_task r)) = 0" "dv_parked (tk_drive (driving_task r)) = None"
  "dv_router (tk_drive (driving_task r)) = r"
  "tk_divert_seen (driving_task r) = 0" "tk_baseline (driving_task r) = Map.empty"
  by (simp_all add: driving_task_def start_task_def Let_def)

lemma quiet_fields:
  "mo_now quiet = 0" "mo_diverted quiet = 0" "mo_takes quiet b" "mo_ping quiet" "mo_parked_ping quiet"
  by (simp_all add: quiet_def)

lemma driving_task_tick:
  "\<exists>tk' acts. task_step dp quiet no_inbound KeepAliveTick (driving_task r) = Some (tk', acts, GoesOn)
     \<and> dv_active (tk_drive tk') \<noteq> None"
proof -
  define d where "d = tk_drive (driving_task r)"
  have probe: "\<exists>tk1. yield_probe quiet no_inbound (driving_task r) = (tk1, []) \<and> tk_drive tk1 = d\<lparr>dv_baselines_fresh := True\<rparr>"
    by (simp add: yield_probe_def probe_inbound_yield_def Let_def driving_task_fields quiet_fields no_inbound_def sat_sub_def
        divert_burst_fires_def DIVERT_SETTLE_def from_millis_def inbound_absorb_threshold_def inbound_yield_fires_def
        INBOUND_YIELD_MIN_GROWTH_def d_def)
  have "\<not> drive_starved (sat_plus 0 1)" by (simp add: drive_starved_def sat_plus_def word_le_nat_alt)
  then have "ping_peer quiet (d\<lparr>dv_baselines_fresh := True\<rparr>) = (d\<lparr>dv_baselines_fresh := True, dv_unacked_pings := sat_plus 0 1\<rparr>, [])"
    by (simp add: ping_peer_def Let_def driving_task_fields quiet_fields d_def)
  with probe show ?thesis
    by (auto simp: task_step_def keep_alive_def reap_grab_def driving_task_fields d_def)
qed

lemma silent_peer_is_left_witness:
  "\<exists>r tk'. held \<lparr>dp_link = None, dp_reverse_scroll = False\<rparr> 1 (driving_task r) tk' \<and> (1 :: nat) < 12"
proof -
  let ?dp = "\<lparr>dp_link = None, dp_reverse_scroll = False\<rparr> :: drive_params"
  obtain r0 r where "prepare_router None None (default_config None) r0 = Some r" by (rule desk_pair_started)
  obtain tk' acts where step: "task_step ?dp quiet no_inbound KeepAliveTick (driving_task r) = Some (tk', acts, GoesOn)"
    "dv_active (tk_drive tk') \<noteq> None" using driving_task_tick by blast
  have "held ?dp 0 (driving_task r) (driving_task r)"
    by (rule held.start) (simp add: driving_task_def Let_def)
  from held.goes_on [OF this _ _ step] have "held ?dp 1 (driving_task r) tk'" by simp
  with silent_peer_is_left [OF this] show ?thesis by blast
qed

end
