(* ===== verification/DriveYields.thy ===== *)
theory DriveYields
  imports DriveSafety
begin

text \<open>
  What a drive leaves behind and what ends it: old input, a handoff that names no known screen,
  a new arrangement, and the input of a peer that drives this computer.
\<close>

section \<open>After a drive\<close>

lemma reaches_discarded:
  "reaches dp tk0 tk \<Longrightarrow> near (tk_drive tk0) \<Longrightarrow> near (tk_drive tk) \<and> dv_discarded (tk_drive tk0) \<le> dv_discarded (tk_drive tk)"
proof (induction rule: reaches.induct)
  case (step tk mo cache event tk' acts)
  have "moves mo (tk_drive tk) (tk_drive tk')"
    using task_step_moves [of tk dp mo cache event] step by (auto simp: may_end_def may_stop_def)
  with step.IH [OF step.prems] show ?case using order_trans by (auto simp: moves_def)
qed (simp_all add: elsewhere_near)

text \<open>
  C13: old input stays behind. Once a step has ended a drive, whatever was captured before then
  and is not a release is never heard again: in every later state it is dropped, without any effect.
\<close>

theorem old_input_stays_behind:
  assumes "near (tk_drive tk)" "task_step dp mo cache event tk = Some (tk1, acts, GoesOn)"
    and "dv_active (tk_drive tk) \<noteq> None" "dv_active (tk_drive tk1) = None" "reaches dp tk1 tk2"
    and "ce_event_id captured \<le> sn_last_event_id (mo_snapshot mo)" "\<not> is_release (ce_event captured)"
  shows "task_step dp mo2 cache2 (CapturedInput captured) tk2 = Some (tk2, [], GoesOn)"
proof -
  have "moves mo (tk_drive tk) (tk_drive tk1)"
    using task_step_moves [OF assms(1), of dp mo cache event] assms(2) by (auto simp: may_end_def may_stop_def)
  then have "near (tk_drive tk1)" "sn_last_event_id (mo_snapshot mo) \<le> dv_discarded (tk_drive tk1)"
    using assms(3,4) by (auto simp: moves_def)
  with reaches_discarded [OF assms(5)] assms(6) have "ce_event_id captured \<le> dv_discarded (tk_drive tk2)"
    using order_trans by blast
  then show ?thesis using assms(7) by (simp add: task_step_def handle_captured_def event_passes_barrier_def not_less [symmetric])
qed

text \<open>A router on screen 2, and a task that drives it.\<close>

lemma driven_router:
  obtains r where "r_layout r = desk_pair" "near (tk_drive (driving_task r))"
proof -
  obtain r0 r1 where r1: "router_new desk_pair = Inr r0" "prepare_router None None (default_config None) r0 = Some r1"
    "router_ok r1" "r_active_remote r1 = None" "\<not> r_locked r1" by (rule desk_pair_started)
  have own: "r_layout r1 = desk_pair \<and> r_local_screen r1 = ScreenId 1"
  proof -
    have "r_layout r0 = desk_pair" "r_local_screen r0 = ScreenId 1"
      using r1(1) by (auto simp: router_new_def desk_pair_def pair_default_def SELF_SCREEN_ID_def split: sum.splits option.splits)
    moreover have "r_layout r1 = r_layout r0" "r_local_screen r1 = r_local_screen r0"
      using r1(2) by (auto simp: prepare_router_def Let_def setter_defs)
    ultimately show ?thesis by simp
  qed
  have "screen_by_id desk_pair (ScreenId 2) \<noteq> None" by code_simp
  with own obtain r where r: "handoff_to 0 (ScreenId 2) 0 0 r1 = Inr (r, True)"
    by (auto simp: handoff_to_def Let_def)
  note ok = handoff_to_ok [OF r1(3) r] and set = handoff_to_settings [OF r]
  have "near (tk_drive (driving_task r))"
    using ok set r1(5) by (simp add: near_def driving_task_def start_task_def Let_def lock_total_def grab_known_def spawn_episode_driver_def)
  moreover have "r_layout r = desk_pair"
    using r own by (auto simp: handoff_to_def Let_def split: option.splits if_splits)
  ultimately show ?thesis using that by blast
qed

lemma old_input_stays_behind_witness:
  "\<exists>r tk1 acts. task_step \<lparr>dp_link = None, dp_reverse_scroll = False\<rparr> quiet no_inbound ClipboardFails (driving_task r)
       = Some (tk1, acts, GoesOn)
     \<and> task_step \<lparr>dp_link = None, dp_reverse_scroll = False\<rparr> quiet no_inbound
         (CapturedInput \<lparr>ce_event = MouseMove 5 5, ce_event_id = 7\<rparr>) tk1 = Some (tk1, [], GoesOn)"
proof -
  let ?dp = "\<lparr>dp_link = None, dp_reverse_scroll = False\<rparr> :: drive_params"
  obtain r where near: "near (tk_drive (driving_task r))" by (rule driven_router)
  define tk1 acts where "tk1 = (driving_task r)\<lparr>tk_drive := fst (clipboard_send_failed quiet (tk_drive (driving_task r)))\<rparr>"
    and "acts = snd (clipboard_send_failed quiet (tk_drive (driving_task r)))"
  have step: "task_step ?dp quiet no_inbound ClipboardFails (driving_task r) = Some (tk1, acts, GoesOn)"
    by (simp add: task_step_def on_drive_def tk1_def acts_def case_prod_beta Let_def)
  have active: "dv_active (tk_drive (driving_task r)) \<noteq> None" by (simp add: driving_task_fields)
  have ended: "dv_active (tk_drive tk1) = None"
    by (simp add: tk1_def clipboard_send_failed_def driving_task_fields end_episode_def Let_def)
  have old: "ce_event_id \<lparr>ce_event = MouseMove 5 5, ce_event_id = 7\<rparr> \<le> sn_last_event_id (mo_snapshot quiet)"
    "\<not> is_release (ce_event \<lparr>ce_event = MouseMove 5 5, ce_event_id = 7\<rparr>)"
    by (simp_all add: quiet_def)
  from old_input_stays_behind [OF near step active ended here old] step show ?thesis by blast
qed

text \<open>
  C38: a handoff to an unknown name leaves the router away. The source says it stays local; the
  session and the grab end, but the router stays on the screen that was driven and the pointer is
  not put back, until the next event that is heard brings both home.
\<close>

theorem unknown_name_leaves_router_away:
  assumes "near (tk_drive tk)" "dv_active (tk_drive tk) = Some s"
    and "handoff_target (r_layout (dv_router (tk_drive tk))) h = None"
    and "task_step dp mo cache (PeerHandsOff h) tk = Some (tk', acts, v)"
  shows "v = GoesOn \<and> dv_active (tk_drive tk') = None \<and> r_active_remote (dv_router (tk_drive tk')) = Some (ts_target s)
    \<and> acts = release_acts
    \<and> (\<forall>captured. dv_discarded (tk_drive tk') < ce_event_id captured \<and> \<not> is_scroll_lock_press (ce_event captured) \<longrightarrow>
        (\<exists>tk2 acts2. task_step dp mo2 cache2 (CapturedInput captured) tk' = Some (tk2, acts2, GoesOn)
           \<and> r_active_remote (dv_router (tk_drive tk2)) = None))"
proof -
  define d where "d = raise_barrier mo (release_suppression mo ((tk_drive tk)\<lparr>dv_active := None\<rparr>))"
  have remote: "r_active_remote (dv_router (tk_drive tk)) = Some (ts_target s)"
    using assms(1,2) by (simp add: near_def)
  have tk': "tk_drive tk' = d" "v = GoesOn" "acts = release_acts"
    using assms(2-4) by (auto simp: task_step_def peer_handoff_def Let_def d_def)
  have near: "near d"
    using assms(1) by (auto simp: d_def near_def lock_total_def grab_known_def)
  have d: "dv_active d = None" "r_active_remote (dv_router d) = Some (ts_target s)" by (simp_all add: d_def remote)
  have "\<exists>tk2 acts2. task_step dp mo2 cache2 (CapturedInput captured) tk' = Some (tk2, acts2, GoesOn)
      \<and> r_active_remote (dv_router (tk_drive tk2)) = None"
    if heard: "dv_discarded d < ce_event_id captured" "\<not> is_scroll_lock_press (ce_event captured)" for captured
  proof -
    have away: "r_active_remote (dv_router d) \<noteq> None" using d by simp
    obtain d' acts2 where h: "handle_topology_event dp mo2 captured d = Some (d', acts2, GoesOn)" "in_step d'" "dv_active d' = None"
      using stale_handle [OF near d(1) away, of dp mo2 captured] heard(2) by blast
    then have "r_active_remote (dv_router d') = None" by (simp add: in_step_def agrees_def)
    moreover have "handle_captured dp mo2 captured d = Some (d', acts2, GoesOn)"
      using heard(1) d(1) h(1) by (simp add: handle_captured_def event_passes_barrier_def)
    ultimately show ?thesis by (simp add: task_step_def tk'(1))
  qed
  with tk' d show ?thesis by simp
qed

lemma unknown_name_leaves_router_away_witness:
  "\<exists>r tk' acts v. task_step \<lparr>dp_link = None, dp_reverse_scroll = False\<rparr> quiet no_inbound
       (PeerHandsOff \<lparr>rh_screen_id = 1, rh_target_name = ''nobody'', rh_x = 0, rh_y = 0, rh_dx = 0, rh_dy = 0, rh_geometry = None\<rparr>)
       (driving_task r) = Some (tk', acts, v)
     \<and> dv_active (tk_drive tk') = None \<and> r_active_remote (dv_router (tk_drive tk')) = Some (ScreenId 2)"
proof -
  let ?dp = "\<lparr>dp_link = None, dp_reverse_scroll = False\<rparr> :: drive_params"
  define h where "h = \<lparr>rh_screen_id = 1, rh_target_name = ''nobody'', rh_x = 0, rh_y = 0, rh_dx = 0, rh_dy = 0, rh_geometry = None\<rparr>"
  obtain r where layout: "r_layout r = desk_pair" and near: "near (tk_drive (driving_task r))" by (rule driven_router)
  have "screen_by_name desk_pair ''nobody'' = None" by code_simp
  with layout near have r: "near (tk_drive (driving_task r))" "handoff_target (r_layout r) h = None"
    by (simp_all add: handoff_target_def h_def)
  let ?tk = "driving_task r"
  have active: "dv_active (tk_drive ?tk) = Some (spawn_episode_driver plain_peer (ScreenId 2) 0)" by (simp add: driving_task_fields)
  have unknown: "handoff_target (r_layout (dv_router (tk_drive ?tk))) h = None" using r(2) by (simp add: driving_task_fields)
  obtain tk' acts v where step: "task_step ?dp quiet no_inbound (PeerHandsOff h) ?tk = Some (tk', acts, v)"
    using active unknown by (simp add: task_step_def peer_handoff_def Let_def)
  from unknown_name_leaves_router_away [OF r(1) active unknown step] step show ?thesis
    unfolding h_def [symmetric] by (auto simp: spawn_episode_driver_def)
qed

section \<open>A new arrangement\<close>

text \<open>An arrangement with the sizes that are known of its screens, and all else its own.\<close>

definition with_known_sizes :: "layout \<Rightarrow> layout \<Rightarrow> layout" where
  "with_known_sizes known l = l\<lparr>ly_screens := map (\<lambda>s.
     case screen_by_id known (scr_id s) of
       None \<Rightarrow> s | Some old \<Rightarrow> s\<lparr>scr_width := scr_width old, scr_height := scr_height old\<rparr>) (ly_screens l)\<rparr>"

lemma set_layout_accepted:
  assumes "validate l = Inr ()" "r_active_remote r = None" "screen_by_id l (r_local_screen r) \<noteq> None"
  shows "\<exists>r'. set_layout l r = Inr r' \<and> r_layout r' = with_known_sizes (r_layout r) l"
proof -
  define f where "f = (\<lambda>s :: screen. case screen_by_id (r_layout r) (scr_id s) of
      None \<Rightarrow> s | Some old \<Rightarrow> s\<lparr>scr_width := scr_width old, scr_height := scr_height old\<rparr>)"
  have "scr_id (f s) = scr_id s" for s by (simp add: f_def split: option.split)
  then have "screen_by_id (l\<lparr>ly_screens := map f (ly_screens l)\<rparr>) (r_local_screen r) \<noteq> None"
    using assms(3) by (auto simp: screen_by_id_def find_None_iff)
  then show ?thesis
    using assms by (auto simp: set_layout_def with_known_sizes_def f_def [symmetric] Let_def)
qed

text \<open>
  C33: a new arrangement waits for the drive. While a screen is driven no change of the settings
  touches the arrangement the drive runs on; what is pending stays pending, or gives way to a newer
  arrangement of the settings. The first tick with nothing driven and the router at home puts a
  pending arrangement that is valid and has this computer in place: every screen with the name, the
  peer and the neighbours it has there, and only the sizes already known carried over.
\<close>

theorem arrangement_waits_for_the_drive:
  assumes "near (tk_drive tk)" "apply_live_topology_config src tk = tk'"
  shows "(dv_active (tk_drive tk) \<noteq> None \<longrightarrow>
        r_layout (dv_router (tk_drive tk')) = r_layout (dv_router (tk_drive tk))
        \<and> (case src of
             ReadBytes bytes (Some c) \<Rightarrow>
               if tk_bytes_seen tk \<noteq> Some bytes \<and> cfg_layout c \<noteq> tk_layout tk
               then tk_pending tk' = Some (cfg_layout c) else tk_pending tk' = tk_pending tk
           | _ \<Rightarrow> tk_pending tk' = tk_pending tk))
    \<and> (r_active_remote (dv_router (tk_drive tk)) = None \<longrightarrow>
        (\<forall>l. tk_pending (read_settings src tk) = Some l \<and> validate l = Inr ()
           \<and> screen_by_id l (r_local_screen (dv_router (tk_drive tk))) \<noteq> None \<longrightarrow>
           tk_pending tk' = None
           \<and> r_layout (dv_router (tk_drive tk')) = with_known_sizes (r_layout (dv_router (tk_drive tk))) l))"
proof -
  obtain r where r: "tk_drive (read_settings src tk) = (tk_drive tk)\<lparr>dv_router := r\<rparr>" "router_ok r = router_ok (dv_router (tk_drive tk))"
    "r_active_remote r = r_active_remote (dv_router (tk_drive tk))" "r_layout r = r_layout (dv_router (tk_drive tk))"
    "r_local_screen r = r_local_screen (dv_router (tk_drive tk))"
    by (rule read_settings_router [of src tk]) blast
  have pending: "case src of
      ReadBytes bytes (Some c) \<Rightarrow>
        if tk_bytes_seen tk \<noteq> Some bytes \<and> cfg_layout c \<noteq> tk_layout tk
        then tk_pending (read_settings src tk) = Some (cfg_layout c)
        else tk_pending (read_settings src tk) = tk_pending tk
    | _ \<Rightarrow> tk_pending (read_settings src tk) = tk_pending tk"
    by (simp add: read_settings_def Let_def split: config_read.split option.split)
  have applied: "tk' = (case tk_pending (read_settings src tk) of
      None \<Rightarrow> read_settings src tk
    | Some l \<Rightarrow> (case set_layout l r of Inl _ \<Rightarrow> read_settings src tk
        | Inr r' \<Rightarrow> (read_settings src tk)\<lparr>tk_drive := (tk_drive tk)\<lparr>dv_router := r'\<rparr>, tk_pending := None\<rparr>))"
    unfolding assms(2) [symmetric] apply_live_topology_config_def Let_def r(1)
    by (cases "tk_pending (read_settings src tk)") (simp_all split: sum.split)
  have waits: "tk' = read_settings src tk" if "dv_active (tk_drive tk) \<noteq> None"
  proof -
    have "r_active_remote r \<noteq> None" using that assms(1) r(3) by (auto simp: near_def)
    then have "\<exists>e. set_layout l r = Inl e" for l by (simp add: set_layout_def split: sum.split)
    then have "set_layout l r \<noteq> Inr r'" for l r' by (metis sum.distinct(1))
    then show ?thesis
      using applied by (cases "tk_pending (read_settings src tk)") (auto split: sum.splits)
  qed
  have adopts: "tk_pending tk' = None
      \<and> r_layout (dv_router (tk_drive tk')) = with_known_sizes (r_layout (dv_router (tk_drive tk))) l"
    if home: "r_active_remote (dv_router (tk_drive tk)) = None"
      and l: "tk_pending (read_settings src tk) = Some l" "validate l = Inr ()"
        "screen_by_id l (r_local_screen (dv_router (tk_drive tk))) \<noteq> None" for l
  proof -
    obtain r' where "set_layout l r = Inr r'" "r_layout r' = with_known_sizes (r_layout r) l"
      using set_layout_accepted [of l r] home l r by auto
    then show ?thesis using applied l(1) r(4) by simp
  qed
  show ?thesis
  proof (intro conjI impI allI)
    assume active: "dv_active (tk_drive tk) \<noteq> None"
    show "r_layout (dv_router (tk_drive tk')) = r_layout (dv_router (tk_drive tk))" using waits [OF active] r by simp
    show "case src of
        ReadBytes bytes (Some c) \<Rightarrow>
          if tk_bytes_seen tk \<noteq> Some bytes \<and> cfg_layout c \<noteq> tk_layout tk
          then tk_pending tk' = Some (cfg_layout c) else tk_pending tk' = tk_pending tk
      | _ \<Rightarrow> tk_pending tk' = tk_pending tk" using pending unfolding waits [OF active] .
  qed (use adopts in blast)+
qed

lemma arrangement_waits_for_the_drive_witness:
  "\<exists>r. let tk = (driving_task r)\<lparr>tk_pending := Some desk_pair\<rparr> in
     r_layout (dv_router (tk_drive (apply_live_topology_config Unreadable tk))) = desk_pair
     \<and> tk_pending (apply_live_topology_config Unreadable tk) = Some desk_pair"
proof -
  obtain r where layout: "r_layout r = desk_pair" and near: "near (tk_drive (driving_task r))" by (rule driven_router)
  define tk where "tk = (driving_task r)\<lparr>tk_pending := Some desk_pair\<rparr>"
  have tk: "near (tk_drive tk)" "dv_active (tk_drive tk) \<noteq> None" "r_layout (dv_router (tk_drive tk)) = desk_pair"
    "tk_pending tk = Some desk_pair"
    using near by (simp_all add: tk_def driving_task_fields layout)
  from arrangement_waits_for_the_drive [OF tk(1) refl, of Unreadable] tk(2-4) show ?thesis
    unfolding Let_def tk_def [symmetric] by (intro exI [of _ r]) (simp add: tk_def [symmetric])
qed

section \<open>A peer that drives this computer\<close>












end
