(* ===== verification/Receiver.thy ===== *)
theory Receiver
  imports Injector WireGeometry Datagram
begin

text \<open>
  The controlled machine's input session, from \<^verbatim>\<open>kvm-daemon/src/service.rs\<close>: which packets are
  dropped as duplicates or as stale motion, the tracked cursor, the run of pushes that asks the
  controller to take the pointer to another screen, and the injection of all the rest. What the
  operating system knows about the pointer and the display are arguments.
\<close>

section \<open>Ordering and accounting\<close>

text \<open>\<open>MotionSequence::accept\<close>, in serial number arithmetic.\<close>

definition accept_motion :: "u64 \<Rightarrow> u64 option \<Rightarrow> u64 option \<times> bool" where
  "accept_motion sequence latest =
     (let accepted = (case latest of None \<Rightarrow> True
            | Some l \<Rightarrow> (let distance = sequence - l in distance \<noteq> 0 \<and> distance < 2 ^ 63))
      in (if accepted then Some sequence else latest, accepted))"

record applied_motion =
  am_first :: "(i32 \<times> i32) option"
  am_total :: u64
  am_zero :: u64
  am_sum_dx :: int
  am_sum_dy :: int

definition record_motion :: "i32 \<Rightarrow> i32 \<Rightarrow> applied_motion \<Rightarrow> applied_motion" where
  "record_motion dx dy m = m\<lparr>
     am_first := (case am_first m of None \<Rightarrow> Some (dx, dy) | Some d \<Rightarrow> Some d),
     am_total := am_total m + 1,
     am_zero := (if dx = 0 \<and> dy = 0 then am_zero m + 1 else am_zero m),
     am_sum_dx := i64_add (am_sum_dx m) (sint dx),
     am_sum_dy := i64_add (am_sum_dy m) (sint dy)\<rparr>"

definition SEEN_SEQUENCES_MAX :: nat where "SEEN_SEQUENCES_MAX = 4096"

text \<open>The oldest numbers go until at most 4096 are left.\<close>

definition forget_oldest :: "u64 set \<Rightarrow> u64 set" where
  "forget_oldest seen =
     (let numbers = sorted_list_of_set seen
      in set (drop (length numbers - SEEN_SEQUENCES_MAX) numbers))"

section \<open>The pointer\<close>

definition TRUTH_SLACK_PX :: int where "TRUTH_SLACK_PX = 32"

text \<open>
  \<open>receiver_edge_truth_veto\<close>: \<open>truthful\<close> is the measured geometry, \<open>pointer\<close> the position of
  the visible pointer, if the platform can tell.
\<close>

definition receiver_edge_truth_veto ::
  "config \<Rightarrow> screen_geometry option \<Rightarrow> (u32 \<times> u32) option \<Rightarrow> screen_id \<Rightarrow> edge \<Rightarrow> (u32 \<times> u32) option" where
  "receiver_edge_truth_veto c truthful pointer sid e =
     (case (screen_by_id (cfg_layout c) sid, truthful, pointer) of
        (Some scr, Some g, Some (x, y)) \<Rightarrow>
          if sg_screen_id g \<noteq> screen_number sid
             \<or> \<bar>uint (scr_width scr) - uint (sg_width g)\<bar> > 8 \<or> \<bar>uint (scr_height scr) - uint (sg_height g)\<bar> > 8
          then None
          else if scr_width scr \<le> x \<or> scr_height scr \<le> y then None
          else if truth_gap e scr x y \<le> TRUTH_SLACK_PX then None
          else Some (x, y)
      | _ \<Rightarrow> None)"


section \<open>One input\<close>

record receiver =
  rv_remote_screen :: "screen_id option"
  rv_remote_cursor :: "(u32 \<times> u32) option"
  rv_seen :: "u64 set"
  rv_motion :: "u64 option"
  rv_hop_edge :: "edge option"
  rv_hop_accum :: int
  rv_dropped_duplicate :: u64
  rv_dropped_stale :: u64
  rv_applied :: applied_motion
  rv_injector :: uinput_device

text \<open>What an input leads to: nothing more, a request to hand the pointer on, or an error.\<close>

datatype input_outcome = Delivered | HopRequested wire_message | InputFailed string

text \<open>
  What the platform answers: the sizes the session and the platform measured, the visible pointer,
  whether writes to the devices succeed, whether new devices can be made, which releases of the old
  ones reach the kernel then, and whether a write to the new ones succeeds.
\<close>

record surroundings =
  su_sidecar :: "(u32 \<times> u32) option"
  su_measured :: "(u32 \<times> u32) option"
  su_pointer :: "(u32 \<times> u32) option"
  su_io :: bool
  su_rebuilds :: bool
  su_drop :: "device \<times> u16 \<Rightarrow> bool"
  su_io_again :: bool

definition truth_around :: "surroundings \<Rightarrow> layout \<Rightarrow> screen_geometry option" where
  "truth_around su l = truthful_local_geometry (su_sidecar su) (su_measured su) l"

text \<open>The run of pushes on one edge.\<close>

definition note_hop ::
  "config \<Rightarrow> screen_id \<Rightarrow> u32 \<Rightarrow> u32 \<Rightarrow> i32 \<Rightarrow> i32 \<Rightarrow> receiver \<Rightarrow> receiver \<times> bool" where
  "note_hop c sid x y dx dy r =
     (case screen_by_id (cfg_layout c) sid of
        None \<Rightarrow> (r, False)
      | Some scr \<Rightarrow>
          (case edge_overflow (scr_width scr) (scr_height scr) x y dx dy of
             Some (e, overflow) \<Rightarrow>
               (let accum = (if rv_hop_edge r = Some e then i64_add (rv_hop_accum r) overflow else overflow)
                in (r\<lparr>rv_hop_edge := Some e, rv_hop_accum := accum\<rparr>, accum \<ge> EDGE_PUSH_PX))
           | None \<Rightarrow> (r\<lparr>rv_hop_edge := None, rv_hop_accum := 0\<rparr>, False)))"

text \<open>The part of the motion beyond the edge.\<close>

definition hop_remainder :: "edge \<Rightarrow> int \<Rightarrow> int \<Rightarrow> screen \<Rightarrow> i32 \<times> i32" where
  "hop_remainder e next_x next_y scr =
     (case e of
        Left \<Rightarrow> (saturating_i32 next_x, 0)
      | Right \<Rightarrow> (saturating_i32 (next_x - uint (scr_width scr - 1)), 0)
      | Top \<Rightarrow> (0, saturating_i32 next_y)
      | Bottom \<Rightarrow> (0, saturating_i32 (next_y - uint (scr_height scr - 1))))"

definition hop_request ::
  "config \<Rightarrow> screen_geometry option \<Rightarrow> edge_handoff \<Rightarrow> screen \<Rightarrow> int \<Rightarrow> int \<Rightarrow> string + wire_message" where
  "hop_request c peer_geometry h scr next_x next_y =
     (case screen_geometry_for (cfg_layout c) (eh_target h) of
        None \<Rightarrow> Inl ''handoff target screen disappeared''
      | Some configured \<Rightarrow>
          (let target_name = (case screen_by_id (cfg_layout c) (eh_target h) of
                 Some t \<Rightarrow> scr_name t | None \<Rightarrow> []);
               (target_x, target_y) = (case peer_geometry of
                 Some g \<Rightarrow> remap_position (eh_target_x h) (eh_target_y h) (Some configured) g
               | None \<Rightarrow> (eh_target_x h, eh_target_y h));
               (dx, dy) = hop_remainder (eh_edge h) next_x next_y scr
           in Inr (HandoffRequest (screen_number (eh_target h)) target_name target_x target_y dx dy peer_geometry)))"

text \<open>The tracked cursor stays on its screen.\<close>

definition track_cursor :: "config \<Rightarrow> screen_id \<Rightarrow> u32 \<Rightarrow> u32 \<Rightarrow> i32 \<Rightarrow> i32 \<Rightarrow> receiver \<Rightarrow> receiver" where
  "track_cursor c sid x y dx dy r =
     (case screen_by_id (cfg_layout c) sid of
        None \<Rightarrow> r
      | Some scr \<Rightarrow> r\<lparr>rv_remote_cursor := Some
          (word_of_int (max 0 (min (uint (scr_width scr - 1)) (uint x + sint dx))),
           word_of_int (max 0 (min (uint (scr_height scr - 1)) (uint y + sint dy))))\<rparr>)"

text \<open>
  The injection at the end. An injector that fails is rebuilt once, with nothing held, and the
  event tried again; the old devices let go of what they hold.
\<close>

definition inject_packet :: "surroundings \<Rightarrow> input_event \<Rightarrow> receiver \<Rightarrow> receiver \<times> report list \<times> input_outcome" where
  "inject_packet su event r =
     (let r1 = (case event of MouseMove dx dy \<Rightarrow> r\<lparr>rv_applied := record_motion dx dy (rv_applied r)\<rparr> | _ \<Rightarrow> r)
      in case inject_event (su_io su) event (rv_injector r1) of
        (u, Inr out) \<Rightarrow> (r1\<lparr>rv_injector := u\<rparr>, out, Delivered)
      | (u, Inl e) \<Rightarrow>
          if \<not> su_rebuilds su then (r1\<lparr>rv_injector := u\<rparr>, [], InputFailed e)
          else
            (case release_all (su_drop su) u of
               (_, released, _) \<Rightarrow>
                 (case inject_event (su_io_again su) event new_device of
                    (u2, Inr out) \<Rightarrow> (r1\<lparr>rv_injector := u2\<rparr>, released @ out, Delivered)
                  | (u2, Inl e2) \<Rightarrow> (r1\<lparr>rv_injector := u2\<rparr>, released, InputFailed e2))))"

text \<open>The pointer's part: \<open>None\<close> when the event goes on to be injected.\<close>

definition move_pointer ::
  "config \<Rightarrow> screen_geometry option \<Rightarrow> surroundings \<Rightarrow> screen_id \<Rightarrow> u32 \<Rightarrow> u32 \<Rightarrow> i32 \<Rightarrow> i32 \<Rightarrow> receiver
     \<Rightarrow> receiver \<times> input_outcome option" where
  "move_pointer c peer_geometry su sid x y dx dy r =
     (case note_hop c sid x y dx dy r of
        (r1, False) \<Rightarrow> (track_cursor c sid x y dx dy r1, None)
      | (r1, True) \<Rightarrow>
          (let r2 = r1\<lparr>rv_hop_edge := None, rv_hop_accum := 0\<rparr>
           in case handoff_for_motion (cfg_layout c) sid x y dx dy (cfg_edge_mode c) (cfg_double_edge_style c) of
                None \<Rightarrow> (track_cursor c sid x y dx dy r2, None)
              | Some h \<Rightarrow>
                  (case screen_by_id (cfg_layout c) sid of
                     None \<Rightarrow> (r2, Some (InputFailed ''remote pointer screen disappeared during handoff''))
                   | Some scr \<Rightarrow>
                       (case receiver_edge_truth_veto c (truth_around su (cfg_layout c)) (su_pointer su) sid (eh_edge h) of
                          Some truth_at \<Rightarrow> (r2\<lparr>rv_remote_cursor := Some truth_at\<rparr>, Some Delivered)
                        | None \<Rightarrow>
                            (case hop_request c peer_geometry h scr (uint x + sint dx) (uint y + sint dy) of
                               Inl e \<Rightarrow> (r2, Some (InputFailed e))
                             | Inr m \<Rightarrow> (r2, Some (HopRequested m)))))))"

definition apply_motion ::
  "config \<Rightarrow> screen_geometry option \<Rightarrow> surroundings \<Rightarrow> i32 \<Rightarrow> i32 \<Rightarrow> receiver \<Rightarrow> receiver \<times> report list \<times> input_outcome" where
  "apply_motion c peer_geometry su dx dy r =
     (case (rv_remote_screen r, rv_remote_cursor r) of
        (Some sid, Some (x, y)) \<Rightarrow>
          (case move_pointer c peer_geometry su sid x y dx dy r of
             (r1, Some outcome) \<Rightarrow> (r1, [], outcome)
           | (r1, None) \<Rightarrow> inject_packet su (MouseMove dx dy) r1)
      | _ \<Rightarrow> inject_packet su (MouseMove dx dy) r)"

definition process_remote_input ::
  "config \<Rightarrow> screen_geometry option \<Rightarrow> surroundings \<Rightarrow> datagram_input \<Rightarrow> receiver
     \<Rightarrow> receiver \<times> report list \<times> input_outcome" where
  "process_remote_input c peer_geometry su packet r =
     (if di_sequence packet \<in> rv_seen r
      then (r\<lparr>rv_dropped_duplicate := rv_dropped_duplicate r + 1\<rparr>, [], Delivered)
      else
        (let r1 = r\<lparr>rv_seen := insert (di_sequence packet) (rv_seen r)\<rparr>
         in case di_event packet of
              MouseMove dx dy \<Rightarrow>
                (case accept_motion (di_sequence packet) (rv_motion r1) of
                   (latest, False) \<Rightarrow> (r1\<lparr>rv_dropped_stale := rv_dropped_stale r1 + 1\<rparr>, [], Delivered)
                 | (latest, True) \<Rightarrow>
                     apply_motion c peer_geometry su dx dy
                       (r1\<lparr>rv_motion := latest, rv_seen := forget_oldest (rv_seen r1)\<rparr>))
            | event \<Rightarrow> inject_packet su event (r1\<lparr>rv_seen := forget_oldest (rv_seen r1)\<rparr>)))"

end
