(* ===== verification/InputSession.thy ===== *)
theory InputSession
  imports Receiver InjectorRuns Clipboard Registries
begin

text \<open>
  A serving session from its acceptance to its end: the loop of \<^verbatim>\<open>handle_connection\<close> in
  \<^verbatim>\<open>kvm-daemon/src/service.rs\<close> with all its arms, one definition each, on Linux. The session keeps
  what the receiver of its inputs keeps, the permit of the one controller, whether the peer has
  parked its drive, and the lanes. What the platform, the network and the other parts of the daemon
  answer within a step is the record \<open>session_moment\<close>. The watch of the local clipboard is left out;
  it only sends.
\<close>

section \<open>State\<close>

datatype lane_state = LaneAwaited | LaneOpen | LaneClosed

record session_census =
  cn_motion :: u64
  cn_wheel :: u64
  cn_smooth :: u64
  cn_button :: u64
  cn_key :: u64
  cn_busy :: u64
  cn_datagrams :: u64
  cn_udp :: u64

record input_session =
  ss_config :: config
  ss_revision_seen :: u64
  ss_receiver :: receiver
  ss_permit :: bool
  ss_idle :: bool
  ss_activity :: activity
  ss_last_activity :: instant
  ss_lane :: lane_state
  ss_udp :: bool
  ss_pinch_held :: bool
  ss_clipboard :: clipboard_session
  ss_census :: session_census

record session_moment =
  sm_now :: instant
  sm_millis :: u64
  sm_around :: surroundings
  sm_revision :: u64
  sm_live :: config
  sm_slot_free :: bool
  sm_touch :: bool
  sm_releases :: "device \<times> u16 \<Rightarrow> bool"
  sm_written :: bool
  sm_fresh :: bool

text \<open>Who the peer is, and the geometry its greeting told.\<close>

record session_params =
  sp_peer :: string
  sp_geometry :: "screen_geometry option"

text \<open>What a step does, and whether the session goes on; \<open>Failed\<close> leaves it by \<open>?\<close> or \<open>bail!\<close>.\<close>

datatype session_act = Reported "report list" | Replied wire_message

datatype session_verdict = Serving | Finished | Broken_off string | Failed string

type_synonym session_result = "input_session \<times> session_act list \<times> session_verdict"

section \<open>The opening\<close>

definition no_census :: session_census where
  "no_census = \<lparr>cn_motion = 0, cn_wheel = 0, cn_smooth = 0, cn_button = 0, cn_key = 0, cn_busy = 0,
     cn_datagrams = 0, cn_udp = 0\<rparr>"

text \<open>The geometry the peer's greeting names is that of the screen arranged for it.\<close>

definition adopt_hello_geometry :: "session_params \<Rightarrow> config \<Rightarrow> config" where
  "adopt_hello_geometry sp c =
     (case sp_geometry sp of
        None \<Rightarrow> c
      | Some g \<Rightarrow>
          if sg_width g < 2 \<or> sg_height g < 2 then c
          else c\<lparr>cfg_layout := (cfg_layout c)\<lparr>ly_screens :=
                 update_first (\<lambda>scr. scr_peer scr = Some (sp_peer sp))
                   (\<lambda>scr. scr\<lparr>scr_width := sg_width g, scr_height := sg_height g\<rparr>) (ly_screens (cfg_layout c))\<rparr>\<rparr>)"

definition session_config :: "session_params \<Rightarrow> surroundings \<Rightarrow> config \<Rightarrow> config" where
  "session_config sp su c =
     adopt_hello_geometry sp
       (c\<lparr>cfg_layout := apply_truthful_self_geometry (truth_around su (cfg_layout c)) (cfg_layout c)\<rparr>)"

definition new_receiver :: receiver where
  "new_receiver = \<lparr>rv_remote_screen = None, rv_remote_cursor = None, rv_seen = {}, rv_motion = None,
     rv_hop_edge = None, rv_hop_accum = 0, rv_dropped_duplicate = 0, rv_dropped_stale = 0,
     rv_applied = \<lparr>am_first = None, am_total = 0, am_zero = 0, am_sum_dx = 0, am_sum_dy = 0\<rparr>,
     rv_injector = new_device\<rparr>"

definition open_session :: "session_params \<Rightarrow> session_moment \<Rightarrow> config \<Rightarrow> hello \<Rightarrow> input_session" where
  "open_session sp mo c h =
     (let c1 = session_config sp (sm_around mo) c
      in \<lparr>ss_config = c1, ss_revision_seen = sm_revision mo, ss_receiver = new_receiver, ss_permit = False,
          ss_idle = False, ss_activity = fresh_activity, ss_last_activity = sm_now mo,
          ss_lane = (if he_motion_lane h then LaneAwaited else LaneClosed),
          ss_udp = (he_udp_motion h \<and> he_link_id h \<noteq> None), ss_pinch_held = False,
          ss_clipboard = \<lparr>cs_enabled = (cfg_clipboard_enabled c1 \<and> he_clipboard_enabled h),
            cs_max_bytes = of_nat (clipboard_max_bytes c1), cs_remote_revision = 0, cs_text = no_assembly, cs_image = no_image,
            cs_latest_text = None, cs_latest_image = None, cs_relay = None\<rparr>,
          ss_census = no_census\<rparr>)"

section \<open>Parts of the arms\<close>

definition note_activity :: "session_moment \<Rightarrow> input_session \<Rightarrow> input_session" where
  "note_activity mo s =
     (let a = ss_activity s
      in s\<lparr>ss_activity := a\<lparr>ac_input_events := ac_input_events a + 1, ac_last_input := sm_millis mo\<rparr>\<rparr>)"

definition count_event :: "input_event \<Rightarrow> input_session \<Rightarrow> input_session" where
  "count_event event s =
     (let n = ss_census s
      in s\<lparr>ss_census :=
           (case event of
              MouseMove dx dy \<Rightarrow> n\<lparr>cn_motion := cn_motion n + 1\<rparr>
            | Wheel d \<Rightarrow> n\<lparr>cn_wheel := cn_wheel n + 1\<rparr>
            | MouseButton b pressed \<Rightarrow> n\<lparr>cn_button := cn_button n + 1\<rparr>
            | Key key \<Rightarrow> n\<lparr>cn_key := cn_key n + 1\<rparr>
            | _ \<Rightarrow> n\<lparr>cn_smooth := cn_smooth n + 1\<rparr>)\<rparr>)"

text \<open>
  \<open>refresh_live_edge_config\<close>: the edge rules and the arrangement of the local settings, with the
  sizes this session knows.
\<close>

definition known_sizes :: "layout \<Rightarrow> layout \<Rightarrow> layout" where
  "known_sizes known l = l\<lparr>ly_screens := map (\<lambda>scr.
     case screen_by_id known (scr_id scr) of
       None \<Rightarrow> scr | Some k \<Rightarrow> scr\<lparr>scr_width := scr_width k, scr_height := scr_height k\<rparr>) (ly_screens l)\<rparr>"

definition refresh_live_edge_config :: "session_moment \<Rightarrow> input_session \<Rightarrow> input_session" where
  "refresh_live_edge_config mo s =
     (if ss_revision_seen s = sm_revision mo then s
      else
        (let c = ss_config s; live = sm_live mo
         in s\<lparr>ss_revision_seen := sm_revision mo,
              ss_config := c\<lparr>cfg_edge_mode := cfg_edge_mode live, cfg_double_edge_style := cfg_double_edge_style live,
                cfg_layout := (if cfg_layout c \<noteq> cfg_layout live then known_sizes (cfg_layout c) (cfg_layout live)
                  else cfg_layout c)\<rparr>\<rparr>))"

text \<open>Events one by one; what was reported before an error stays reported.\<close>

fun inject_each :: "bool \<Rightarrow> input_event list \<Rightarrow> uinput_device \<Rightarrow> uinput_device \<times> report list \<times> string option" where
  "inject_each io [] u = (u, [], None)"
| "inject_each io (e # es) u =
     (case inject_event io e u of
        (u1, Inl err) \<Rightarrow> (u1, [], Some err)
      | (u1, Inr out) \<Rightarrow>
          (case inject_each io es u1 of (u2, out2, err) \<Rightarrow> (u2, out @ out2, err)))"

definition with_injector :: "uinput_device \<Rightarrow> input_session \<Rightarrow> input_session" where
  "with_injector u s = s\<lparr>ss_receiver := (ss_receiver s)\<lparr>rv_injector := u\<rparr>\<rparr>"

definition carry_on :: "string option \<Rightarrow> session_verdict" where
  "carry_on error = (case error of None \<Rightarrow> Serving | Some e \<Rightarrow> Failed e)"

text \<open>
  \<open>handle_inbound_pinch\<close> on Linux: a touch gesture where there is a touch device, and the zoom by
  Ctrl and wheel otherwise.
\<close>

definition handle_inbound_pinch :: "session_moment \<Rightarrow> input_event \<Rightarrow> input_session \<Rightarrow> session_result" where
  "handle_inbound_pinch mo event s =
     (if (case event of Pinch delta \<Rightarrow> sm_touch mo | _ \<Rightarrow> False) then (s, [], Serving)
      else
        (let u = rv_injector (ss_receiver s);
             (events, held) = pinch_expansion event (key_pressed HID_LEFT_CTRL u) (ss_pinch_held s)
         in case inject_each (su_io (sm_around mo)) events u of
              (u1, out, error) \<Rightarrow> (with_injector u1 (s\<lparr>ss_pinch_held := held\<rparr>), [Reported out], carry_on error)))"

definition deliver_input :: "session_params \<Rightarrow> session_moment \<Rightarrow> datagram_input \<Rightarrow> input_session \<Rightarrow> session_result" where
  "deliver_input sp mo packet s0 =
     (let s = refresh_live_edge_config mo s0
      in case process_remote_input (ss_config s) (sp_geometry sp) (sm_around mo) packet (ss_receiver s) of
           (r, out, Delivered) \<Rightarrow> (s\<lparr>ss_receiver := r\<rparr>, [Reported out], Serving)
         | (r, out, InputFailed e) \<Rightarrow> (s\<lparr>ss_receiver := r\<rparr>, [Reported out], Failed e)
         | (r, out, HopRequested m) \<Rightarrow>
             (s\<lparr>ss_receiver := r\<rparr>, if sm_written mo then [Replied m] else [],
              if sm_written mo then Finished else Failed ''write failed''))"

definition is_pinch :: "input_event \<Rightarrow> bool" where
  "is_pinch event = (case event of Pinch delta \<Rightarrow> True | PinchEnd \<Rightarrow> True | _ \<Rightarrow> False)"

definition take_input :: "session_params \<Rightarrow> session_moment \<Rightarrow> input_packet \<Rightarrow> input_session \<Rightarrow> session_result" where
  "take_input sp mo packet s =
     (if is_pinch (ip_event packet) then handle_inbound_pinch mo (ip_event packet) s
      else deliver_input sp mo \<lparr>di_sequence = ip_sequence packet, di_event = ip_event packet\<rparr> s)"

section \<open>Frames of the episode stream\<close>

definition on_input :: "session_params \<Rightarrow> session_moment \<Rightarrow> input_packet \<Rightarrow> input_session \<Rightarrow> session_result" where
  "on_input sp mo packet s =
     take_input sp mo packet (note_activity mo ((count_event (ip_event packet) s)\<lparr>ss_idle := False\<rparr>))"

definition handoff_accepted :: "config \<Rightarrow> u32 \<Rightarrow> string \<Rightarrow> string + screen_id" where
  "handoff_accepted c sid name =
     (if name \<noteq> [] then
        if name \<noteq> cfg_device_name c then Inl ''peer handed off to another node''
        else (case ly_self (cfg_layout c) of
                None \<Rightarrow> Inl ''handoff accepted by name but no local screen is arranged'' | Some target \<Rightarrow> Inr target)
      else if ly_self (cfg_layout c) = Some (ScreenId sid) then Inr (ScreenId sid)
      else Inl ''peer handed off to another screen'')"

definition on_handoff ::
  "session_moment \<Rightarrow> u32 \<Rightarrow> string \<Rightarrow> u32 \<Rightarrow> u32 \<Rightarrow> screen_geometry option \<Rightarrow> input_session \<Rightarrow> session_result" where
  "on_handoff mo sid name wx wy geometry s0 =
     (let s = (note_activity mo s0)\<lparr>ss_idle := False\<rparr>
      in if \<not> ss_permit s \<and> \<not> sm_slot_free mo
         then (s, if sm_written mo then [Replied (Reject ''another input session already controls this node'')] else [],
               Failed ''another input session already controls this node'')
         else
           (let s1 = s\<lparr>ss_permit := True\<rparr>; l = cfg_layout (ss_config s)
            in case handoff_accepted (ss_config s) sid name of
                 Inl e \<Rightarrow> (s1, [], Failed e)
               | Inr target \<Rightarrow>
                   (case (case truth_around (sm_around mo) l of Some g \<Rightarrow> Some g | None \<Rightarrow> screen_geometry_for l target) of
                      None \<Rightarrow> (s1, [], Failed ''local screen geometry is unavailable'')
                    | Some g \<Rightarrow>
                        (s1\<lparr>ss_receiver := (ss_receiver s1)\<lparr>rv_remote_screen := Some target,
                             rv_remote_cursor := Some (remap_position wx wy geometry g)\<rparr>,
                           ss_activity := (ss_activity s1)\<lparr>ac_driving := True\<rparr>\<rparr>, [], Serving))))"

definition on_release_all :: "session_moment \<Rightarrow> input_session \<Rightarrow> session_result" where
  "on_release_all mo s =
     (case release_all (sm_releases mo) (rv_injector (ss_receiver s)) of
        (u, out, Some e) \<Rightarrow> (with_injector u s, [Reported out], Failed e)
      | (u, out, None) \<Rightarrow>
          ((with_injector u s)\<lparr>ss_idle := True, ss_permit := False,
             ss_activity := (ss_activity s)\<lparr>ac_driving := False\<rparr>\<rparr>, [Reported out], Serving))"

definition on_state :: "session_moment \<Rightarrow> input_state \<Rightarrow> input_session \<Rightarrow> session_result" where
  "on_state mo state s =
     (case check_state state of
        Some e \<Rightarrow> (s, [], Failed e)
      | None \<Rightarrow>
          (case release_all (sm_releases mo) (rv_injector (ss_receiver s)) of
             (u, out, Some e) \<Rightarrow> (with_injector u s, [Reported out], Failed e)
           | (u, out, None) \<Rightarrow>
               (case inject_each (su_io (sm_around mo)) (presses state) u of
                  (u1, out1, error) \<Rightarrow> (with_injector u1 s, [Reported (out @ out1)], carry_on error))))"

definition on_frame :: "session_params \<Rightarrow> session_moment \<Rightarrow> wire_message \<Rightarrow> input_session \<Rightarrow> session_result" where
  "on_frame sp mo message s0 =
     (let s = s0\<lparr>ss_last_activity := sm_now mo\<rparr>
      in case message of
           StateSync state \<Rightarrow> on_state mo state s
         | Input packet \<Rightarrow> on_input sp mo packet s
         | PointerHandoff sid name x y geometry \<Rightarrow> on_handoff mo sid name x y geometry s
         | ReleaseAll \<Rightarrow> on_release_all mo s
         | Ping nonce \<Rightarrow>
             if sm_written mo then (s, [Replied (Pong nonce)], Serving) else (s, [], Failed ''write failed'')
         | other \<Rightarrow>
             (case handle_clipboard other (ss_clipboard s) of
                None \<Rightarrow> (s, [], Failed ''clipboard failed'')
              | Some clip \<Rightarrow> (s\<lparr>ss_clipboard := clip\<rparr>, [], Serving)))"

section \<open>The other lanes\<close>

text \<open>The permit of the one controller: \<open>None\<close> when another session has it.\<close>

definition claim :: "session_moment \<Rightarrow> input_session \<Rightarrow> input_session option" where
  "claim mo s = (if ss_permit s \<or> sm_slot_free mo then Some (s\<lparr>ss_permit := True\<rparr>) else None)"

definition drop_busy :: "input_session \<Rightarrow> input_session" where
  "drop_busy s = s\<lparr>ss_census := (ss_census s)\<lparr>cn_busy := cn_busy (ss_census s) + 1\<rparr>\<rparr>"

definition on_packet :: "session_params \<Rightarrow> session_moment \<Rightarrow> datagram_input \<Rightarrow> input_session \<Rightarrow> session_result" where
  "on_packet sp mo packet s0 =
     (if ss_idle s0 then (s0, [], Serving)
      else
        (let s = s0\<lparr>ss_last_activity := sm_now mo\<rparr>
         in case claim mo s of
              None \<Rightarrow> (drop_busy s, [], Serving)
            | Some s1 \<Rightarrow> deliver_input sp mo packet (count_event (di_event packet) (note_activity mo s1))))"

definition on_datagram :: "session_params \<Rightarrow> session_moment \<Rightarrow> bytes \<Rightarrow> input_session \<Rightarrow> session_result" where
  "on_datagram sp mo payload s =
     (case decode_input_datagram payload of
        Inl e \<Rightarrow> (s, [], Serving)
      | Inr packet \<Rightarrow>
          on_packet sp mo packet (s\<lparr>ss_census := (ss_census s)\<lparr>cn_datagrams := cn_datagrams (ss_census s) + 1\<rparr>\<rparr>))"

definition on_udp :: "session_params \<Rightarrow> session_moment \<Rightarrow> u64 \<Rightarrow> i32 \<Rightarrow> i32 \<Rightarrow> input_session \<Rightarrow> session_result" where
  "on_udp sp mo sequence dx dy s =
     (if \<not> ss_udp s then (s, [], Serving)
      else on_packet sp mo \<lparr>di_sequence = sequence, di_event = MouseMove dx dy\<rparr>
             (s\<lparr>ss_census := (ss_census s)\<lparr>cn_udp := cn_udp (ss_census s) + 1\<rparr>\<rparr>))"

definition on_lane_frame :: "session_params \<Rightarrow> session_moment \<Rightarrow> wire_message \<Rightarrow> input_session \<Rightarrow> session_result" where
  "on_lane_frame sp mo message s0 =
     (if ss_lane s0 \<noteq> LaneOpen then (s0, [], Serving)
      else
        (let s = s0\<lparr>ss_last_activity := sm_now mo\<rparr>
         in case message of
              Input packet \<Rightarrow>
                if ss_idle s then (s, [], Serving)
                else take_input sp mo packet (note_activity mo (count_event (ip_event packet) s))
            | _ \<Rightarrow> (s, [], Serving)))"

section \<open>The loop\<close>

datatype session_event =
    StreamFrame wire_message
  | StreamFinished
  | StreamBroken string
  | LaneAccepted
  | LaneRefused
  | LaneFrame wire_message
  | LaneOver
  | DatagramArrived bytes
  | DatagramsBroken string
  | UdpArrived u64 i32 i32
  | UdpOver
  | LeaseTick
  | PeerRevoked string
  | DroppedByUser

definition lease_expired :: "session_moment \<Rightarrow> input_session \<Rightarrow> bool" where
  "lease_expired mo s \<longleftrightarrow> elapsed (sm_now mo) (ss_last_activity s) > from_secs 45 \<and> \<not> sm_fresh mo"

fun session_step :: "session_params \<Rightarrow> session_moment \<Rightarrow> session_event \<Rightarrow> input_session \<Rightarrow> session_result" where
  "session_step sp mo (StreamFrame m) s = on_frame sp mo m s"
| "session_step sp mo StreamFinished s = (s, [], Finished)"
| "session_step sp mo (StreamBroken e) s = (s, [], Failed e)"
| "session_step sp mo LaneAccepted s =
     (if ss_lane s = LaneAwaited then s\<lparr>ss_lane := LaneOpen\<rparr> else s, [], Serving)"
| "session_step sp mo LaneRefused s =
     (if ss_lane s = LaneAwaited then s\<lparr>ss_lane := LaneClosed\<rparr> else s, [], Serving)"
| "session_step sp mo (LaneFrame m) s = on_lane_frame sp mo m s"
| "session_step sp mo LaneOver s = (if ss_lane s = LaneOpen then s\<lparr>ss_lane := LaneClosed\<rparr> else s, [], Serving)"
| "session_step sp mo (DatagramArrived payload) s = on_datagram sp mo payload s"
| "session_step sp mo (DatagramsBroken e) s = (s, [], Failed e)"
| "session_step sp mo (UdpArrived sequence dx dy) s = on_udp sp mo sequence dx dy s"
| "session_step sp mo UdpOver s = (s\<lparr>ss_udp := False\<rparr>, [], Serving)"
| "session_step sp mo LeaseTick s =
     (s, [], if lease_expired mo s then Broken_off ''input session lease expired; released remote input'' else Serving)"
| "session_step sp mo (PeerRevoked fp) s =
     (s, [], if fp = sp_peer sp then Broken_off ''trusted peer was revoked during the input session'' else Serving)"
| "session_step sp mo DroppedByUser s = (s, [], Finished)"

text \<open>
  The end: what is held is released, by the last lines or, where the session failed, by the
  injector's \<open>Drop\<close>; the permit goes back and the registered entry is gone.
\<close>

definition close_session :: "session_moment \<Rightarrow> input_session \<Rightarrow> input_session \<times> session_act list" where
  "close_session mo s =
     (case release_all (sm_releases mo) (rv_injector (ss_receiver s)) of
        (u, out, _) \<Rightarrow> ((with_injector u s)\<lparr>ss_permit := False\<rparr>, [Reported out]))"

text \<open>A session over the events that come to it; it is closed when it does not go on.\<close>

fun serve :: "session_params \<Rightarrow> (session_moment \<times> session_event) list \<Rightarrow> input_session \<Rightarrow> input_session \<times> session_act list \<times> bool" where
  "serve sp [] s = (s, [], True)"
| "serve sp ((mo, event) # events) s =
     (case session_step sp mo event s of
        (s1, acts, Serving) \<Rightarrow>
          (case serve sp events s1 of (s2, acts2, open) \<Rightarrow> (s2, acts @ acts2, open))
      | (s1, acts, _) \<Rightarrow>
          (case close_session mo s1 of (s2, acts2) \<Rightarrow> (s2, acts @ acts2, False)))"

end
