(* ===== verification/SessionRuns.thy ===== *)
theory SessionRuns
  imports InputSession
begin

text \<open>
  What a serving session guarantees over any sequence of events: nothing it pressed stays down, a
  parked session moves nothing, only one session drives by its fast lanes.
\<close>

section \<open>The kernel's view of a session\<close>

definition held_down :: "input_session \<Rightarrow> (device \<times> u16) set" where
  "held_down s = on_record (rv_injector (ss_receiver s))"

definition finite_record :: "uinput_device \<Rightarrow> bool" where
  "finite_record u \<longleftrightarrow> finite (ui_pressed_keys u) \<and> finite (ui_pressed_buttons u)"

fun reports_of :: "session_act list \<Rightarrow> report list" where
  "reports_of [] = []"
| "reports_of (Reported out # acts) = out @ reports_of acts"
| "reports_of (Replied m # acts) = reports_of acts"

lemma reports_of_append [simp]: "reports_of (a @ b) = reports_of a @ reports_of b"
  by (induction a rule: reports_of.induct) simp_all

text \<open>Moments at which every write to the devices reaches the kernel.\<close>

definition devices_work :: "session_moment \<Rightarrow> bool" where
  "devices_work mo \<longleftrightarrow> su_drop (sm_around mo) = (\<lambda>_. True) \<and> sm_releases mo = (\<lambda>_. True)"

lemma inject_event_finite:
  "inject_event io event u = (u', out) \<Longrightarrow> finite_record u \<Longrightarrow> finite_record u'"
  by (auto simp: inject_event_def finite_record_def split: input_event.splits sum.splits option.splits prod.splits if_splits)

lemma inject_each_kernel:
  assumes "inject_each io events u = (u', out, e)" "finite_record u"
  shows "kernel_after out (on_record u) = on_record u' \<and> finite_record u'"
  using assms
proof (induction events arbitrary: u out)
  case (Cons event events)
  obtain u1 res where step: "inject_event io event u = (u1, res)" by force
  note kernel = inject_event_kernel [OF step] and fin = inject_event_finite [OF step Cons.prems(2)]
  show ?case
  proof (cases res)
    case (Inl err)
    with Cons.prems(1) step kernel fin show ?thesis by simp
  next
    case (Inr out1)
    obtain u2 out2 e2 where rest: "inject_each io events u1 = (u2, out2, e2)" by (metis prod_cases3)
    from Cons.IH [OF _ fin] rest Cons.prems(1) step Inr kernel show ?thesis by auto
  qed
qed simp

lemma release_everything:
  assumes "finite_record u" "release_all (\<lambda>_. True) u = (u', out, e)"
  shows "kernel_after out (on_record u) = {} \<and> on_record u' = {} \<and> e = None \<and> finite_record u'"
proof -
  define codes where "codes = map (Pair Keyboard) (sorted_list_of_set (ui_pressed_keys u))
    @ map (Pair Mouse) (sorted_list_of_set (ui_pressed_buttons u))"
  have all: "set codes = on_record u" using assms(1) by (simp add: codes_def on_record_def finite_record_def)
  obtain out1 e1 where run: "try_releases (\<lambda>_. True) codes = (out1, e1)" by force
  with assms(2) have same: "u' = u\<lparr>ui_pressed_keys := {}, ui_pressed_buttons := {}\<rparr>" "out = out1" "e = e1"
    by (simp_all add: release_all_def codes_def)
  from try_releases_kernel [OF run] all show ?thesis
    unfolding same by (auto simp: on_record_def finite_record_def list_all_iff)
qed

lemma release_nothing:
  "on_record u = {} \<Longrightarrow> release_all io u = (u, [], None)"
  by (simp add: release_all_def on_record_def)

lemma new_device_clean [simp]: "on_record new_device = {}" "finite_record new_device"
  by (simp_all add: new_device_def on_record_def finite_record_def)

text \<open>The ways an injection ends, as equations.\<close>

lemma inject_packet_cases:
  assumes "inject_packet su event r = (r', out, outcome)"
  obtains u out1 where "inject_event (su_io su) event (rv_injector r) = (u, Inr out1)" "rv_injector r' = u" "out = out1"
      "outcome = Delivered"
  | u e where "inject_event (su_io su) event (rv_injector r) = (u, Inl e)" "rv_injector r' = u" "out = []" "outcome = InputFailed e"
  | u e u0 out0 e0 u2 res where "inject_event (su_io su) event (rv_injector r) = (u, Inl e)"
      "release_all (su_drop su) u = (u0, out0, e0)" "inject_event (su_io_again su) event new_device = (u2, res)"
      "rv_injector r' = u2" "out = out0 @ (case res of Inl _ \<Rightarrow> [] | Inr out2 \<Rightarrow> out2)"
      "outcome = (case res of Inl e2 \<Rightarrow> InputFailed e2 | Inr _ \<Rightarrow> Delivered)"
proof -
  define r1 where "r1 = (case event of MouseMove dx dy \<Rightarrow> r\<lparr>rv_applied := record_motion dx dy (rv_applied r)\<rparr> | _ \<Rightarrow> r)"
  have same: "rv_injector r1 = rv_injector r" by (simp add: r1_def split: input_event.split)
  have run: "inject_packet su event r = (case inject_event (su_io su) event (rv_injector r) of
        (u, Inr out) \<Rightarrow> (r1\<lparr>rv_injector := u\<rparr>, out, Delivered)
      | (u, Inl e) \<Rightarrow>
          if \<not> su_rebuilds su then (r1\<lparr>rv_injector := u\<rparr>, [], InputFailed e)
          else
            (case release_all (su_drop su) u of
               (_, released, _) \<Rightarrow>
                 (case inject_event (su_io_again su) event new_device of
                    (u2, Inr out) \<Rightarrow> (r1\<lparr>rv_injector := u2\<rparr>, released @ out, Delivered)
                  | (u2, Inl e2) \<Rightarrow> (r1\<lparr>rv_injector := u2\<rparr>, released, InputFailed e2))))"
    by (simp only: inject_packet_def Let_def r1_def [symmetric] same)
  obtain u res where step: "inject_event (su_io su) event (rv_injector r) = (u, res)" by force
  obtain u0 out0 e0 where rel: "release_all (su_drop su) u = (u0, out0, e0)" by (metis prod_cases3)
  obtain u2 res2 where again: "inject_event (su_io_again su) event new_device = (u2, res2)" by force
  show thesis
  proof (cases res)
    case (Inr out1)
    with assms run step have "rv_injector r' = u" "out = out1" "outcome = Delivered" by auto
    with that(1) step Inr show thesis by blast
  next
    case (Inl e)
    show thesis
    proof (cases "su_rebuilds su")
      case False
      with assms run step Inl have "rv_injector r' = u" "out = []" "outcome = InputFailed e" by auto
      with that(2) step Inl show thesis by blast
    next
      case True
      have "rv_injector r' = u2" "out = out0 @ (case res2 of Inl _ \<Rightarrow> [] | Inr out2 \<Rightarrow> out2)"
        "outcome = (case res2 of Inl e2 \<Rightarrow> InputFailed e2 | Inr _ \<Rightarrow> Delivered)"
        using assms run step Inl True rel again by (cases res2; auto)+
      with that(3) step Inl rel again show thesis by blast
    qed
  qed
qed

lemma inject_packet_kernel:
  assumes "inject_packet su event r = (r', out, outcome)" "finite_record (rv_injector r)" "su_drop su = (\<lambda>_. True)"
  shows "kernel_after out (on_record (rv_injector r)) = on_record (rv_injector r') \<and> finite_record (rv_injector r')"
  using assms(1)
proof (cases rule: inject_packet_cases)
  case (1 u out1)
  with inject_event_kernel [OF 1(1)] inject_event_finite [OF 1(1) assms(2)] show ?thesis by simp
next
  case (2 u e)
  with inject_event_kernel [OF 2(1)] inject_event_finite [OF 2(1) assms(2)] show ?thesis by simp
next
  case (3 u e u0 out0 e0 u2 res)
  note fin = inject_event_finite [OF 3(1) assms(2)]
  have "on_record u = on_record (rv_injector r)" using inject_event_kernel [OF 3(1)] by simp
  with release_everything [OF fin 3(2) [unfolded assms(3)]] have "kernel_after out0 (on_record (rv_injector r)) = {}" by simp
  with 3 inject_event_kernel [OF 3(3)] inject_event_finite [OF 3(3) new_device_clean(2)] show ?thesis
    by (cases res) simp_all
qed

lemma pointer_fields [simp]:
  "rv_injector (track_cursor c sid x y dx dy r) = rv_injector r"
  "rv_seen (track_cursor c sid x y dx dy r) = rv_seen r"
  "rv_motion (track_cursor c sid x y dx dy r) = rv_motion r"
  by (simp_all add: track_cursor_def split: option.split)

lemma note_hop_fields:
  "note_hop c sid x y dx dy r = (r', ready) \<Longrightarrow>
     \<exists>e n. r' = r\<lparr>rv_hop_edge := e, rv_hop_accum := n\<rparr>"
  by (auto simp: note_hop_def Let_def split: option.splits prod.splits)
    (metis receiver.surjective receiver.update_convs(5,6))+

lemma move_pointer_fields:
  assumes "move_pointer c pg su sid x y dx dy r = (r', outcome)"
  shows "rv_injector r' = rv_injector r \<and> rv_seen r' = rv_seen r \<and> rv_motion r' = rv_motion r
    \<and> rv_remote_screen r' = rv_remote_screen r"
proof -
  obtain r1 ready where hop: "note_hop c sid x y dx dy r = (r1, ready)" by force
  then obtain e n where r1: "r1 = r\<lparr>rv_hop_edge := e, rv_hop_accum := n\<rparr>" using note_hop_fields by blast
  have tracked: "rv_remote_screen (track_cursor c sid x y dx dy q) = rv_remote_screen q" for q
    by (simp add: track_cursor_def split: option.split)
  show ?thesis
    using assms hop by (auto simp: move_pointer_def Let_def r1 tracked split: if_splits bool.splits option.splits sum.splits)
qed

lemma apply_motion_cases:
  assumes "apply_motion c pg su dx dy r = (r', out, outcome)"
  obtains "rv_injector r' = rv_injector r" "out = []"
  | r3 where "rv_injector r3 = rv_injector r" "inject_packet su (MouseMove dx dy) r3 = (r', out, outcome)"
proof (cases "\<exists>sid x y. rv_remote_screen r = Some sid \<and> rv_remote_cursor r = Some (x, y)")
  case False
  then have "inject_packet su (MouseMove dx dy) r = (r', out, outcome)"
    using assms by (auto simp: apply_motion_def split: option.splits)
  with that(2) show thesis by blast
next
  case True
  then obtain sid x y where at: "rv_remote_screen r = Some sid" "rv_remote_cursor r = Some (x, y)" by blast
  obtain r3 hop where moved: "move_pointer c pg su sid x y dx dy r = (r3, hop)" by force
  then have r3: "rv_injector r3 = rv_injector r" using move_pointer_fields by simp
  show thesis
  proof (cases hop)
    case None
    with assms at moved have "inject_packet su (MouseMove dx dy) r3 = (r', out, outcome)" by (simp add: apply_motion_def)
    with that(2) r3 show thesis by blast
  next
    case (Some h)
    with assms at moved have "r' = r3" "out = []" by (simp_all add: apply_motion_def)
    with that(1) r3 show thesis by simp
  qed
qed

text \<open>What becomes of a packet: dropped, kept by the pointer's part, or injected.\<close>

lemma process_cases:
  assumes "process_remote_input c pg su packet r = (r', out, outcome)"
  obtains "rv_injector r' = rv_injector r" "out = []"
  | r3 where "rv_injector r3 = rv_injector r" "inject_packet su (di_event packet) r3 = (r', out, outcome)"
proof (cases "di_sequence packet \<in> rv_seen r")
  case True
  with assms that(1) show thesis by (auto simp: process_remote_input_def)
next
  case fresh: False
  define r1 where "r1 = r\<lparr>rv_seen := insert (di_sequence packet) (rv_seen r)\<rparr>"
  have r1: "rv_injector r1 = rv_injector r" by (simp add: r1_def)
  show thesis
  proof (cases "\<exists>dx dy. di_event packet = MouseMove dx dy")
    case False
    then have "inject_packet su (di_event packet) (r1\<lparr>rv_seen := forget_oldest (rv_seen r1)\<rparr>) = (r', out, outcome)"
      using assms fresh by (simp add: process_remote_input_def Let_def r1_def split: input_event.splits)
    with that(2) [of "r1\<lparr>rv_seen := forget_oldest (rv_seen r1)\<rparr>"] r1 show thesis by simp
  next
    case True
    then obtain dx dy where event: "di_event packet = MouseMove dx dy" by blast
    obtain latest ok where accept: "accept_motion (di_sequence packet) (rv_motion r1) = (latest, ok)" by force
    define r2 where "r2 = r1\<lparr>rv_motion := latest, rv_seen := forget_oldest (rv_seen r1)\<rparr>"
    have r2: "rv_injector r2 = rv_injector r" by (simp add: r2_def r1)
    have run: "process_remote_input c pg su packet r = (if \<not> ok then (r1\<lparr>rv_dropped_stale := rv_dropped_stale r1 + 1\<rparr>, [], Delivered)
        else apply_motion c pg su dx dy r2)"
      using fresh event accept unfolding r2_def r1_def
      by (cases ok) (simp_all add: process_remote_input_def Let_def)
    show thesis
    proof (cases ok)
      case False
      with assms run that(1) r1 show thesis by auto
    next
      case True
      with assms run have "apply_motion c pg su dx dy r2 = (r', out, outcome)" by simp
      then show thesis using apply_motion_cases event r2 that by metis
    qed
  qed
qed

lemma process_kernel:
  assumes "process_remote_input c pg su packet r = (r', out, outcome)" "finite_record (rv_injector r)"
    and "su_drop su = (\<lambda>_. True)"
  shows "kernel_after out (on_record (rv_injector r)) = on_record (rv_injector r') \<and> finite_record (rv_injector r')"
  using assms(1)
proof (cases rule: process_cases)
  case 1
  with assms(2) show ?thesis by simp
next
  case (2 r3)
  with inject_packet_kernel [OF 2(2) _ assms(3)] assms(2) show ?thesis by simp
qed

section \<open>Nothing stays down\<close>

definition kernel_step :: "input_session \<Rightarrow> session_result \<Rightarrow> bool" where
  "kernel_step s res \<longleftrightarrow> (case res of (s', acts, v) \<Rightarrow>
     kernel_after (reports_of acts) (held_down s) = held_down s' \<and> finite_record (rv_injector (ss_receiver s')))"

lemma kernel_step_unmoved:
  "rv_injector (ss_receiver s') = rv_injector (ss_receiver s) \<Longrightarrow> reports_of acts = []
     \<Longrightarrow> finite_record (rv_injector (ss_receiver s)) \<Longrightarrow> kernel_step s (s', acts, v)"
  by (simp add: kernel_step_def held_down_def)

lemma session_fields [simp]:
  "ss_receiver (note_activity mo s) = ss_receiver s" "ss_receiver (count_event event s) = ss_receiver s"
  "ss_receiver (refresh_live_edge_config mo s) = ss_receiver s" "ss_receiver (drop_busy s) = ss_receiver s"
  "ss_permit (note_activity mo s) = ss_permit s" "ss_permit (count_event event s) = ss_permit s"
  "ss_permit (refresh_live_edge_config mo s) = ss_permit s" "ss_permit (drop_busy s) = ss_permit s"
  "ss_permit (with_injector u s) = ss_permit s" "rv_injector (ss_receiver (with_injector u s)) = u"
  by (simp_all add: note_activity_def count_event_def refresh_live_edge_config_def drop_busy_def with_injector_def Let_def)

lemma deliver_kernel:
  assumes "finite_record (rv_injector (ss_receiver s))" "devices_work mo"
  shows "kernel_step s (deliver_input sp mo packet s)"
proof -
  obtain r out outcome where run: "process_remote_input (ss_config (refresh_live_edge_config mo s)) (sp_geometry sp) (sm_around mo)
      packet (ss_receiver (refresh_live_edge_config mo s)) = (r, out, outcome)" by (metis prod_cases3)
  then have down: "kernel_after out (held_down s) = on_record (rv_injector r)" "finite_record (rv_injector r)"
    using process_kernel [OF run] assms by (simp_all add: devices_work_def held_down_def)
  moreover have "out = []" if "outcome = HopRequested m" for m
    using run that
  proof (cases rule: process_cases)
    case (2 r3)
    from 2(2) show ?thesis by (cases rule: inject_packet_cases) (use that in \<open>auto split: sum.splits\<close>)
  qed simp
  ultimately show ?thesis
    using run by (cases outcome) (auto simp: deliver_input_def Let_def kernel_step_def held_down_def)
qed

lemma pinch_kernel:
  assumes "finite_record (rv_injector (ss_receiver s))"
  shows "kernel_step s (handle_inbound_pinch mo event s)"
proof -
  let ?u = "rv_injector (ss_receiver s)"
  obtain events held where expanded: "pinch_expansion event (key_pressed HID_LEFT_CTRL ?u) (ss_pinch_held s) = (events, held)" by force
  obtain u out e where run: "inject_each (su_io (sm_around mo)) events ?u = (u, out, e)" by (metis prod_cases3)
  from inject_each_kernel [OF run assms] assms expanded run show ?thesis
    by (simp add: handle_inbound_pinch_def Let_def kernel_step_def held_down_def)
qed

lemma take_input_kernel:
  "finite_record (rv_injector (ss_receiver s)) \<Longrightarrow> devices_work mo \<Longrightarrow> kernel_step s (take_input sp mo packet s)"
  by (simp add: take_input_def deliver_kernel pinch_kernel)

lemma kernel_step_from: "kernel_step s1 res \<Longrightarrow> ss_receiver s1 = ss_receiver s \<Longrightarrow> kernel_step s res"
  by (simp add: kernel_step_def held_down_def)

lemma take_input_kernel_from:
  assumes "ss_receiver s1 = ss_receiver s" "finite_record (rv_injector (ss_receiver s))" "devices_work mo"
  shows "kernel_step s (take_input sp mo packet s1)"
  using take_input_kernel [of s1 mo sp packet] kernel_step_from [OF _ assms(1)] assms by simp

lemma release_kernel:
  assumes "finite_record (rv_injector (ss_receiver s))" "devices_work mo"
    and "release_all (sm_releases mo) (rv_injector (ss_receiver s)) = (u, out, e)"
  shows "kernel_after out (held_down s) = {} \<and> on_record u = {} \<and> e = None \<and> finite_record u"
  using release_everything [OF assms(1)] assms(2,3) by (simp add: devices_work_def held_down_def)

definition frame_rest :: "wire_message \<Rightarrow> bool" where
  "frame_rest m \<longleftrightarrow> (case m of StateSync _ \<Rightarrow> False | Input _ \<Rightarrow> False | PointerHandoff _ _ _ _ _ \<Rightarrow> False
     | ReleaseAll \<Rightarrow> False | Ping _ \<Rightarrow> False | _ \<Rightarrow> True)"

text \<open>The arms of the episode stream.\<close>

lemma on_frame_cases:
  obtains state where "m = StateSync state" "on_frame sp mo m s = on_state mo state (s\<lparr>ss_last_activity := sm_now mo\<rparr>)"
  | packet where "m = Input packet" "on_frame sp mo m s = on_input sp mo packet (s\<lparr>ss_last_activity := sm_now mo\<rparr>)"
  | sid name x y geometry where "m = PointerHandoff sid name x y geometry"
      "on_frame sp mo m s = on_handoff mo sid name x y geometry (s\<lparr>ss_last_activity := sm_now mo\<rparr>)"
  | "m = ReleaseAll" "on_frame sp mo m s = on_release_all mo (s\<lparr>ss_last_activity := sm_now mo\<rparr>)"
  | s' acts v where "frame_rest m" "on_frame sp mo m s = (s', acts, v)" "reports_of acts = []" "ss_receiver s' = ss_receiver s"
      "ss_permit s' = ss_permit s" "ss_idle s' = ss_idle s" "ss_activity s' = ss_activity s"
  | nonce s' acts v where "m = Ping nonce" "on_frame sp mo m s = (s', acts, v)" "reports_of acts = []" "ss_receiver s' = ss_receiver s"
      "ss_permit s' = ss_permit s" "ss_idle s' = ss_idle s" "ss_activity s' = ss_activity s"
proof -
  define s1 where "s1 = s\<lparr>ss_last_activity := sm_now mo\<rparr>"
  have rest: "\<exists>s' acts v. on_frame sp mo m s = (s', acts, v) \<and> reports_of acts = [] \<and> ss_receiver s' = ss_receiver s
      \<and> ss_permit s' = ss_permit s \<and> ss_idle s' = ss_idle s \<and> ss_activity s' = ss_activity s" if "frame_rest m"
  proof -
    have "on_frame sp mo m s = (case handle_clipboard m (ss_clipboard s1) of
        None \<Rightarrow> (s1, [], Failed ''clipboard failed'') | Some clip \<Rightarrow> (s1\<lparr>ss_clipboard := clip\<rparr>, [], Serving))"
      using that unfolding on_frame_def Let_def s1_def [symmetric] frame_rest_def
      by (cases m) (simp_all only: wire_message.case)
    then show ?thesis by (cases "handle_clipboard m (ss_clipboard s1)") (simp_all add: s1_def)
  qed
  show thesis
  proof (cases "frame_rest m")
    case True
    from rest [OF this] that(5) [OF True] show thesis by blast
  next
    case False
    then consider state where "m = StateSync state" | packet where "m = Input packet"
      | sid name x y geometry where "m = PointerHandoff sid name x y geometry" | "m = ReleaseAll" | nonce where "m = Ping nonce"
      by (cases m) (simp_all add: frame_rest_def)
    then show thesis
    proof cases
      case (5 nonce)
      have "on_frame sp mo m s = (if sm_written mo then (s1, [Replied (Pong nonce)], Serving) else (s1, [], Failed ''write failed''))"
        unfolding on_frame_def Let_def s1_def [symmetric] 5 by (simp only: wire_message.case)
      with that(6) [OF 5] show thesis by (cases "sm_written mo") (simp_all add: s1_def)
    qed (use that(1-4) in \<open>simp_all add: on_frame_def Let_def\<close>)
  qed
qed

lemma on_frame_kernel:
  assumes "finite_record (rv_injector (ss_receiver s))" "devices_work mo"
  shows "kernel_step s (on_frame sp mo m s)"
proof -
  define s1 where "s1 = s\<lparr>ss_last_activity := sm_now mo\<rparr>"
  have s1: "ss_receiver s1 = ss_receiver s" by (simp add: s1_def)
  obtain u out e where rel: "release_all (sm_releases mo) (rv_injector (ss_receiver s)) = (u, out, e)" by (metis prod_cases3)
  note freed = release_kernel [OF assms rel]
  show ?thesis
  proof (cases rule: on_frame_cases [where m = m and sp = sp and mo = mo and s = s])
    case (1 state)
    obtain u1 out1 e1 where each: "inject_each (su_io (sm_around mo)) (presses state) u = (u1, out1, e1)" by (metis prod_cases3)
    then have "kernel_step s1 (on_state mo state s1)"
      using inject_each_kernel [OF each] freed rel assms(1)
      by (simp add: on_state_def s1 kernel_step_def held_down_def split: option.split)
    with 1(2) s1 kernel_step_from show ?thesis unfolding s1_def [symmetric] by metis
  next
    case (2 packet)
    have "kernel_step s (on_input sp mo packet s1)"
      unfolding on_input_def using assms by (intro take_input_kernel_from) (simp_all add: s1)
    with 2(2) show ?thesis unfolding s1_def [symmetric] by simp
  next
    case (3 sid name x y geometry)
    have "kernel_step s (on_handoff mo sid name x y geometry s1)"
      using assms(1) by (auto simp: on_handoff_def Let_def s1 kernel_step_def held_down_def split: sum.split option.split)
    with 3(2) show ?thesis unfolding s1_def [symmetric] by simp
  next
    case 4
    have "kernel_step s (on_release_all mo s1)"
      using rel freed by (simp add: on_release_all_def s1 kernel_step_def held_down_def)
    with 4(2) show ?thesis unfolding s1_def [symmetric] by simp
  next
    case (5 s' acts v)
    with assms(1) show ?thesis by (auto intro: kernel_step_unmoved)
  next
    case (6 nonce s' acts v)
    with assms(1) show ?thesis by (auto intro: kernel_step_unmoved)
  qed
qed

lemma on_lane_cases:
  obtains packet where "m = Input packet" "ss_lane s = LaneOpen" "\<not> ss_idle s" "on_lane_frame sp mo m s
        = take_input sp mo packet (note_activity mo (count_event (ip_event packet) (s\<lparr>ss_last_activity := sm_now mo\<rparr>)))"
  | s' where "on_lane_frame sp mo m s = (s', [], Serving)" "s' = s \<or> s' = s\<lparr>ss_last_activity := sm_now mo\<rparr>"
proof (cases "ss_lane s = LaneOpen \<and> \<not> ss_idle s \<and> (\<exists>packet. m = Input packet)")
  case True
  with that(1) show thesis by (auto simp: on_lane_frame_def Let_def)
next
  case False
  then have "on_lane_frame sp mo m s = (s, [], Serving) \<or> on_lane_frame sp mo m s = (s\<lparr>ss_last_activity := sm_now mo\<rparr>, [], Serving)"
    by (cases m) (simp_all add: on_lane_frame_def Let_def)
  with that(2) show thesis by blast
qed

text \<open>A packet of a fast lane: left alone, or delivered by the session that has the permit.\<close>

lemma on_packet_cases:
  obtains s' where "on_packet sp mo packet s = (s', [], Serving)" "ss_receiver s' = ss_receiver s" "ss_permit s' = ss_permit s"
      "ss_idle s' = ss_idle s" "ss_activity s' = ss_activity s"
  | s' where "on_packet sp mo packet s = deliver_input sp mo packet s'" "ss_receiver s' = ss_receiver s" "ss_permit s'"
      "\<not> ss_idle s" "ss_permit s \<or> sm_slot_free mo" "ss_config s' = ss_config s" "ss_revision_seen s' = ss_revision_seen s"
proof (cases "ss_idle s")
  case True
  with that(1) show thesis by (simp add: on_packet_def)
next
  case False
  define s1 where "s1 = s\<lparr>ss_last_activity := sm_now mo\<rparr>"
  have run: "on_packet sp mo packet s = (case claim mo s1 of None \<Rightarrow> (drop_busy s1, [], Serving)
      | Some s2 \<Rightarrow> deliver_input sp mo packet (count_event (di_event packet) (note_activity mo s2)))"
    unfolding s1_def using False by (simp add: on_packet_def Let_def)
  show thesis
  proof (cases "ss_permit s \<or> sm_slot_free mo")
    case True
    then have "on_packet sp mo packet s = deliver_input sp mo packet (count_event (di_event packet) (note_activity mo (s1\<lparr>ss_permit := True\<rparr>)))"
      by (simp add: run claim_def s1_def)
    with that(2) True False show thesis
      by (simp add: s1_def count_event_def note_activity_def Let_def)
  next
    case False
    then have "on_packet sp mo packet s = (drop_busy s1, [], Serving)" by (simp add: run claim_def s1_def)
    with that(1) show thesis by (simp add: s1_def drop_busy_def)
  qed
qed

lemma session_step_kernel:
  assumes "finite_record (rv_injector (ss_receiver s))" "devices_work mo"
  shows "kernel_step s (session_step sp mo event s)"
proof -
  have packet: "kernel_step s (on_packet sp mo p s1)" if same: "ss_receiver s1 = ss_receiver s" for p s1
  proof (cases rule: on_packet_cases [where s = s1 and mo = mo and sp = sp and packet = p])
    case (1 s')
    with assms(1) same show ?thesis by (auto intro: kernel_step_unmoved)
  next
    case (2 s2)
    with deliver_kernel [of s2 mo sp p] assms same kernel_step_from [of s2] show ?thesis by metis
  qed
  have lane: "kernel_step s (on_lane_frame sp mo m s)" for m
  proof -
    have "kernel_step s (take_input sp mo p (note_activity mo (count_event (ip_event p) (s\<lparr>ss_last_activity := sm_now mo\<rparr>))))" for p
      using assms by (intro take_input_kernel_from) simp_all
    then show ?thesis
      using assms(1) by (cases rule: on_lane_cases [where m = m and sp = sp and mo = mo and s = s]) (auto intro: kernel_step_unmoved)
  qed
  show ?thesis
  proof (cases event)
    case (StreamFrame m)
    with on_frame_kernel [OF assms] show ?thesis by simp
  next
    case (LaneFrame m)
    with lane show ?thesis by simp
  next
    case (DatagramArrived payload)
    with packet assms(1) show ?thesis by (auto simp: on_datagram_def intro: kernel_step_unmoved split: sum.split)
  next
    case (UdpArrived sequence dx dy)
    with packet assms(1) show ?thesis by (auto simp: on_udp_def intro: kernel_step_unmoved)
  qed (use assms(1) in \<open>auto intro!: kernel_step_unmoved\<close>)
qed

lemma close_kernel:
  assumes "finite_record (rv_injector (ss_receiver s))" "devices_work mo" "close_session mo s = (s', acts)"
  shows "kernel_after (reports_of acts) (held_down s) = {} \<and> held_down s' = {} \<and> finite_record (rv_injector (ss_receiver s'))"
proof -
  obtain u out e where rel: "release_all (sm_releases mo) (rv_injector (ss_receiver s)) = (u, out, e)" by (metis prod_cases3)
  from release_kernel [OF assms(1,2) rel] rel assms(3) show ?thesis by (auto simp: close_session_def held_down_def)
qed

lemma serve_kernel:
  "serve sp events s = (s', acts, open) \<Longrightarrow> finite_record (rv_injector (ss_receiver s)) \<Longrightarrow> \<forall>(mo, event) \<in> set events. devices_work mo
     \<Longrightarrow> kernel_after (reports_of acts) (held_down s) = held_down s' \<and> (\<not> open \<longrightarrow> held_down s' = {})"
proof (induction events arbitrary: s acts)
  case (Cons x events)
  obtain mo event where x: "x = (mo, event)" by force
  obtain s1 acts1 v where step: "session_step sp mo event s = (s1, acts1, v)" by (metis prod_cases3)
  have work: "devices_work mo" using Cons.prems(3) x by simp
  have kernel: "kernel_after (reports_of acts1) (held_down s) = held_down s1" "finite_record (rv_injector (ss_receiver s1))"
    using session_step_kernel [OF Cons.prems(2) work, of sp event] step by (simp_all add: kernel_step_def)
  show ?case
  proof (cases "v = Serving")
    case True
    obtain s2 acts2 open2 where rest: "serve sp events s1 = (s2, acts2, open2)" by (metis prod_cases3)
    with Cons.prems(1) True step x have same: "s' = s2" "acts = acts1 @ acts2" "open = open2" by simp_all
    have "\<forall>(mo, event) \<in> set events. devices_work mo" using Cons.prems(3) by simp
    from Cons.IH [OF _ kernel(2) this] rest same kernel(1) show ?thesis by simp
  next
    case False
    obtain s2 acts2 where close: "close_session mo s1 = (s2, acts2)" by force
    with Cons.prems(1) False step x have same: "s' = s2" "acts = acts1 @ acts2" "\<not> open" by (cases v; simp)+
    from close_kernel [OF kernel(2) work close] same kernel(1) show ?thesis by simp
  qed
qed simp

text \<open>
  C7: nothing a session pressed stays down. Whatever the peer sends on whatever lane, and
  whichever way the session ends, by the peer, by an error in the middle of an input, by the lease, a
  revocation or the user: once it is closed the kernel has no key and no button down that it pressed.
\<close>

theorem nothing_outlives_the_session:
  assumes "serve sp events (open_session sp mo0 c h) = (s', acts, False)"
    and "\<And>mo event. (mo, event) \<in> set events \<Longrightarrow> devices_work mo"
  shows "kernel_after (reports_of acts) {} = {}"
proof -
  have fresh: "held_down (open_session sp mo0 c h) = {}" "finite_record (rv_injector (ss_receiver (open_session sp mo0 c h)))"
    by (simp_all add: open_session_def Let_def new_receiver_def held_down_def)
  have "\<forall>(mo, event) \<in> set events. devices_work mo" using assms(2) by blast
  from serve_kernel [OF assms(1) fresh(2) this] fresh(1) show ?thesis by simp
qed

end
