(* ===== verification/SessionSafety.thy ===== *)
theory SessionSafety
  imports SessionRuns LayoutEdits
begin

text \<open>
  What the states of serving sessions promise: a parked session moves nothing, one session at a time
  holds the permit, and where these promises end.
\<close>

section \<open>A parked session\<close>

definition parked :: "input_session \<Rightarrow> bool" where
  "parked s \<longleftrightarrow> ss_idle s \<and> \<not> ss_permit s \<and> \<not> ac_driving (ss_activity s) \<and> held_down s = {}"

text \<open>Everything but an input, a handoff or a state on the episode stream.\<close>

definition leaves_parked :: "session_event \<Rightarrow> bool" where
  "leaves_parked event = (case event of
     StreamFrame m \<Rightarrow> (case m of Input _ \<Rightarrow> False | PointerHandoff _ _ _ _ _ \<Rightarrow> False | StateSync _ \<Rightarrow> False | _ \<Rightarrow> True)
   | _ \<Rightarrow> True)"

definition still_parked :: "input_session \<Rightarrow> session_result \<Rightarrow> bool" where
  "still_parked s res \<longleftrightarrow> (case res of (s', acts, v) \<Rightarrow> parked s' \<and> reports_of acts = []
     \<and> rv_remote_cursor (ss_receiver s') = rv_remote_cursor (ss_receiver s)
     \<and> ac_input_events (ss_activity s') = ac_input_events (ss_activity s))"

lemma still_parked_same:
  "parked s \<Longrightarrow> ss_receiver s' = ss_receiver s \<Longrightarrow> ss_permit s' = ss_permit s \<Longrightarrow> ss_idle s' = ss_idle s
     \<Longrightarrow> ss_activity s' = ss_activity s \<Longrightarrow> reports_of acts = [] \<Longrightarrow> still_parked s (s', acts, v)"
  by (simp add: still_parked_def parked_def held_down_def)

lemma still_parked_packet:
  assumes "parked s" "ss_receiver s1 = ss_receiver s" "ss_permit s1 = ss_permit s" "ss_idle s1 = ss_idle s" "ss_activity s1 = ss_activity s"
  shows "still_parked s (on_packet sp mo packet s1)"
proof -
  have "on_packet sp mo packet s1 = (s1, [], Serving)" using assms by (simp add: on_packet_def parked_def)
  with assms still_parked_same show ?thesis by simp
qed

lemma parked_step:
  assumes "parked s" "leaves_parked event"
  shows "still_parked s (session_step sp mo event s)"
proof (cases event)
  case (StreamFrame m)
  show ?thesis
  proof (cases rule: on_frame_cases [where m = m and sp = sp and mo = mo and s = s])
    case 4
    have "on_release_all mo (s\<lparr>ss_last_activity := sm_now mo\<rparr>)
        = ((with_injector (rv_injector (ss_receiver s)) (s\<lparr>ss_last_activity := sm_now mo\<rparr>))\<lparr>ss_idle := True, ss_permit := False,
             ss_activity := (ss_activity s)\<lparr>ac_driving := False\<rparr>\<rparr>, [Reported []], Serving)"
      using assms(1) by (simp add: on_release_all_def parked_def held_down_def release_nothing)
    with 4 StreamFrame show ?thesis
      using assms(1) by (simp add: still_parked_def parked_def held_down_def with_injector_def)
  next
    case (5 s' acts v)
    with StreamFrame assms(1) show ?thesis by (simp add: still_parked_same)
  next
    case (6 nonce s' acts v)
    with StreamFrame assms(1) show ?thesis by (simp add: still_parked_same)
  qed (use assms(2) StreamFrame in \<open>simp_all add: leaves_parked_def\<close>)
next
  case (LaneFrame m)
  show ?thesis
  proof (cases rule: on_lane_cases [where m = m and sp = sp and mo = mo and s = s])
    case 1
    with assms(1) show ?thesis by (simp add: parked_def)
  next
    case (2 s')
    with LaneFrame assms(1) show ?thesis by (auto intro: still_parked_same)
  qed
next
  case (DatagramArrived payload)
  with assms(1) show ?thesis by (auto simp: on_datagram_def intro: still_parked_packet still_parked_same split: sum.split)
next
  case (UdpArrived sequence dx dy)
  with assms(1) show ?thesis by (auto simp: on_udp_def intro: still_parked_packet still_parked_same)
qed (use assms(1) in \<open>auto intro: still_parked_same\<close>)

lemma parked_run:
  "serve sp events s = (s', acts, open) \<Longrightarrow> parked s \<Longrightarrow> \<forall>(mo, event) \<in> set events. leaves_parked event
     \<Longrightarrow> reports_of acts = [] \<and> held_down s' = {} \<and> \<not> ss_permit s' \<and> \<not> ac_driving (ss_activity s')
       \<and> rv_remote_cursor (ss_receiver s') = rv_remote_cursor (ss_receiver s)
       \<and> ac_input_events (ss_activity s') = ac_input_events (ss_activity s)"
proof (induction events arbitrary: s acts)
  case Nil
  then show ?case by (simp add: parked_def)
next
  case (Cons x events)
  obtain mo event where x: "x = (mo, event)" by force
  obtain s1 acts1 v where step: "session_step sp mo event s = (s1, acts1, v)" by (metis prod_cases3)
  have "leaves_parked event" using Cons.prems(3) x by simp
  from parked_step [OF Cons.prems(2) this, of sp mo] step
  have s1: "parked s1" "reports_of acts1 = []" "rv_remote_cursor (ss_receiver s1) = rv_remote_cursor (ss_receiver s)"
    "ac_input_events (ss_activity s1) = ac_input_events (ss_activity s)" by (simp_all add: still_parked_def)
  show ?case
  proof (cases "v = Serving")
    case True
    obtain s2 acts2 open2 where rest: "serve sp events s1 = (s2, acts2, open2)" by (metis prod_cases3)
    with Cons.prems(1) True step x have same: "s' = s2" "acts = acts1 @ acts2" by simp_all
    have "\<forall>(mo, event) \<in> set events. leaves_parked event" using Cons.prems(3) by simp
    from Cons.IH [OF _ s1(1) this, of acts2] rest s1 same Cons.prems(1) True step x show ?thesis by simp
  next
    case False
    have "close_session mo s1 = ((with_injector (rv_injector (ss_receiver s1)) s1)\<lparr>ss_permit := False\<rparr>, [Reported []])"
      using s1(1) by (simp add: close_session_def parked_def held_down_def release_nothing)
    with Cons.prems(1) False step x
    have "s' = (with_injector (rv_injector (ss_receiver s1)) s1)\<lparr>ss_permit := False\<rparr>" "acts = acts1 @ [Reported []]"
      by (cases v; simp)+
    with s1 show ?thesis by (simp add: parked_def held_down_def with_injector_def)
  qed
qed

text \<open>
  C16: a parked session moves nothing. After the peer's release was carried out, whatever still
  arrives late as datagrams, by UDP or on the motion lane, with pings, clipboard frames, ticks and the
  end of the session among it, nothing is injected, the tracked cursor stays, the session counts as
  neither driving nor active and leaves the permit to others; until the peer hands over, sends a
  state or an input on the episode stream.
\<close>

theorem parked_session_moves_nothing:
  assumes "session_step sp mo0 (StreamFrame ReleaseAll) s = (s1, acts0, Serving)"
    and "serve sp events s1 = (s2, acts, open)"
    and "\<forall>event \<in> snd ` set events. leaves_parked event"
  shows "reports_of acts = [] \<and> held_down s2 = {} \<and> \<not> ss_permit s2 \<and> \<not> ac_driving (ss_activity s2)
    \<and> rv_remote_cursor (ss_receiver s2) = rv_remote_cursor (ss_receiver s)
    \<and> ac_input_events (ss_activity s2) = ac_input_events (ss_activity s)"
proof -
  obtain u out e where rel: "release_all (sm_releases mo0) (rv_injector (ss_receiver s)) = (u, out, e)" by (metis prod_cases3)
  have clean: "on_record u = {}" using rel by (auto simp: release_all_def on_record_def split: prod.splits)
  have "parked s1 \<and> rv_remote_cursor (ss_receiver s1) = rv_remote_cursor (ss_receiver s)
      \<and> ac_input_events (ss_activity s1) = ac_input_events (ss_activity s)"
    using assms(1) rel clean
    by (auto simp: on_frame_def Let_def on_release_all_def parked_def held_down_def with_injector_def split: option.splits)
  moreover have "\<forall>(mo, event) \<in> set events. leaves_parked event" using assms(3) by force
  ultimately show ?thesis using parked_run [OF assms(2)] by simp
qed

text \<open>Moments and a session to compute with.\<close>

definition calm :: session_moment where
  "calm = \<lparr>sm_now = 0, sm_millis = 0, sm_around = \<lparr>su_sidecar = None, su_measured = None, su_pointer = None, su_io = True,
       su_rebuilds = True, su_drop = (\<lambda>_. True), su_io_again = True\<rparr>,
     sm_revision = 0, sm_live = default_config None, sm_slot_free = True, sm_touch = False, sm_releases = (\<lambda>_. True),
     sm_written = True, sm_fresh = True\<rparr>"

definition plain_hello :: hello where
  "plain_hello = \<lparr>he_node_name = ''desk'', he_mode = Bidirectional, he_lock_screen_requested = False, he_clipboard_enabled = False,
     he_screen_geometry = None, he_smooth_scroll = True, he_pinch_zoom = True, he_motion_lane = True, he_link_id = Some 7,
     he_udp_motion = True\<rparr>"

definition plain_params :: session_params where
  "plain_params = \<lparr>sp_peer = ''ab'', sp_geometry = None\<rparr>"

definition served :: input_session where
  "served = open_session plain_params calm (default_config None) plain_hello"

definition key_a :: input_event where
  "key_a = Key \<lparr>ke_usage = 4, ke_pressed = True, ke_repeat = False\<rparr>"

lemma calm_simps [simp]:
  "sm_now calm = 0" "sm_slot_free calm" "sm_releases calm = (\<lambda>_. True)" "sm_written calm" "\<not> sm_touch calm"
  "su_io (sm_around calm)" "sm_revision calm = 0" "su_drop (sm_around calm) = (\<lambda>_. True)"
  by (simp_all add: calm_def)

lemma served_simps [simp]:
  "ss_receiver served = new_receiver" "\<not> ss_permit served" "\<not> ss_idle served" "\<not> ss_pinch_held served"
  "ss_revision_seen served = 0" "ss_activity served = fresh_activity" "ss_udp served"
  by (simp_all add: served_def open_session_def Let_def plain_hello_def)

lemma press_a:
  "inject_event True key_a new_device = (new_device\<lparr>ui_pressed_keys := {30}\<rparr>, Inr [(Keyboard, [(EV_KEY, 30, 1)])])"
proof -
  have "hid_to_evdev 4 = Some 30" by code_simp
  then show ?thesis by (simp add: inject_event_def key_a_def emit_def new_device_def)
qed

lemma parked_session_moves_nothing_witness:
  "\<exists>s1 acts0 s2 acts open. session_step plain_params calm (StreamFrame ReleaseAll) served = (s1, acts0, Serving)
     \<and> serve plain_params [(calm, UdpArrived 5 3 0), (calm, StreamFinished)] s1 = (s2, acts, open) \<and> reports_of acts = []"
proof -
  obtain s1 acts0 where park: "session_step plain_params calm (StreamFrame ReleaseAll) served = (s1, acts0, Serving)"
    by (simp add: on_frame_def Let_def on_release_all_def new_receiver_def release_nothing)
  obtain s2 acts on where run: "serve plain_params [(calm, UdpArrived 5 3 0), (calm, StreamFinished)] s1 = (s2, acts, on)"
    by (metis prod_cases3)
  have "\<forall>event \<in> snd ` set [(calm, UdpArrived 5 3 0), (calm, StreamFinished)]. leaves_parked event"
    by (simp add: leaves_parked_def)
  from parked_session_moves_nothing [OF park run this] park run show ?thesis by blast
qed

lemma key_session:
  assumes "su_io (sm_around mo)"
  shows "\<exists>s'. session_step plain_params mo (StreamFrame (Input \<lparr>ip_sequence = 1, ip_event = key_a\<rparr>)) served
     = (s', [Reported [(Keyboard, [(EV_KEY, 30, 1)])]], Serving)"
proof -
  have kept: "forget_oldest {1} = {1}" by (simp add: forget_oldest_def SEEN_SEQUENCES_MAX_def)
  define r where "r = new_receiver\<lparr>rv_seen := {1}\<rparr>"
  have "rv_injector r = new_device" by (simp add: r_def new_receiver_def)
  then have "inject_packet (sm_around mo) key_a r = (r\<lparr>rv_injector := new_device\<lparr>ui_pressed_keys := {30}\<rparr>\<rparr>,
      [(Keyboard, [(EV_KEY, 30, 1)])], Delivered)"
    using press_a assms by (simp add: inject_packet_def Let_def key_a_def)
  moreover have "process_remote_input c g su \<lparr>di_sequence = 1, di_event = key_a\<rparr> new_receiver = inject_packet su key_a r" for c g su
    by (simp add: process_remote_input_def Let_def key_a_def r_def new_receiver_def kept)
  moreover have "\<not> is_pinch key_a" by (simp add: is_pinch_def key_a_def)
  ultimately show ?thesis
    by (simp add: on_frame_def Let_def on_input_def take_input_def deliver_input_def)
qed

lemma nothing_outlives_the_session_witness:
  "\<exists>s' acts. serve plain_params [(calm, StreamFrame (Input \<lparr>ip_sequence = 1, ip_event = key_a\<rparr>)), (calm, StreamFinished)] served
       = (s', acts, False) \<and> (Keyboard, [(EV_KEY, 30, 1)]) \<in> set (reports_of acts) \<and> kernel_after (reports_of acts) {} = {}"
proof -
  obtain s1 where press: "session_step plain_params calm (StreamFrame (Input \<lparr>ip_sequence = 1, ip_event = key_a\<rparr>)) served
     = (s1, [Reported [(Keyboard, [(EV_KEY, 30, 1)])]], Serving)" using key_session [of calm] by auto
  obtain s' acts where close: "close_session calm s1 = (s', acts)" by force
  have run: "serve plain_params [(calm, StreamFrame (Input \<lparr>ip_sequence = 1, ip_event = key_a\<rparr>)), (calm, StreamFinished)] served
       = (s', Reported [(Keyboard, [(EV_KEY, 30, 1)])] # acts, False)" using press close by simp
  have "devices_work mo" if "(mo, event) \<in> set [(calm, StreamFrame (Input \<lparr>ip_sequence = 1, ip_event = key_a\<rparr>)), (calm, StreamFinished)]"
    for mo event using that by (auto simp: devices_work_def)
  from nothing_outlives_the_session [OF run [unfolded served_def] this] run show ?thesis by auto
qed

section \<open>One session drives\<close>

lemma deliver_permit: "deliver_input sp mo packet s = (s', acts, v) \<Longrightarrow> ss_permit s' = ss_permit s"
  by (auto simp: deliver_input_def Let_def split: prod.splits input_outcome.splits)

lemma take_input_permit: "take_input sp mo packet s = (s', acts, v) \<Longrightarrow> ss_permit s' = ss_permit s"
  by (auto simp: take_input_def handle_inbound_pinch_def Let_def deliver_permit split: prod.splits if_splits)

lemma on_packet_permit:
  assumes "on_packet sp mo packet s = (s', acts, v)"
  shows "(ss_permit s \<longrightarrow> ss_permit s') \<and> (ss_permit s' \<longrightarrow> ss_permit s \<or> sm_slot_free mo) \<and> (reports_of acts \<noteq> [] \<longrightarrow> ss_permit s')"
proof (cases rule: on_packet_cases [where s = s and mo = mo and sp = sp and packet = packet])
  case (1 s1)
  with assms show ?thesis by simp
next
  case (2 s1)
  with assms deliver_permit [of sp mo packet s1 s' acts v] show ?thesis by simp
qed

text \<open>A step takes the permit only when it is free.\<close>

lemma step_permit:
  assumes "session_step sp mo event s = (s', acts, v)" "ss_permit s'"
  shows "ss_permit s \<or> sm_slot_free mo"
proof (cases event)
  case (StreamFrame m)
  show ?thesis
  proof (cases rule: on_frame_cases [where m = m and sp = sp and mo = mo and s = s])
    case (1 state)
    with assms StreamFrame show ?thesis by (auto simp: on_state_def split: option.splits prod.splits)
  next
    case (2 packet)
    let ?s1 = "note_activity mo ((count_event (ip_event packet) (s\<lparr>ss_last_activity := sm_now mo\<rparr>))\<lparr>ss_idle := False\<rparr>)"
    have "take_input sp mo packet ?s1 = (s', acts, v)" using 2 assms(1) StreamFrame by (simp add: on_input_def)
    from take_input_permit [OF this] assms(2) show ?thesis by simp
  next
    case (3 sid name x y geometry)
    with assms StreamFrame show ?thesis by (auto simp: on_handoff_def Let_def split: if_splits)
  next
    case 4
    with assms StreamFrame show ?thesis by (auto simp: on_release_all_def split: option.splits prod.splits)
  next
    case (5 s1 acts1 v1)
    with assms StreamFrame show ?thesis by simp
  next
    case (6 nonce s1 acts1 v1)
    with assms StreamFrame show ?thesis by simp
  qed
next
  case (LaneFrame m)
  show ?thesis
  proof (cases rule: on_lane_cases [where m = m and sp = sp and mo = mo and s = s])
    case (1 packet)
    let ?s1 = "note_activity mo (count_event (ip_event packet) (s\<lparr>ss_last_activity := sm_now mo\<rparr>))"
    have "take_input sp mo packet ?s1 = (s', acts, v)" using 1 assms(1) LaneFrame by simp
    from take_input_permit [OF this] assms(2) show ?thesis by simp
  next
    case (2 s1)
    with assms LaneFrame show ?thesis by auto
  qed
next
  case (DatagramArrived payload)
  show ?thesis
  proof (cases "decode_input_datagram payload")
    case (Inl e)
    with assms DatagramArrived show ?thesis by (simp add: on_datagram_def)
  next
    case (Inr packet)
    then have "on_packet sp mo packet (s\<lparr>ss_census := (ss_census s)\<lparr>cn_datagrams := cn_datagrams (ss_census s) + 1\<rparr>\<rparr>) = (s', acts, v)"
      using assms(1) DatagramArrived by (simp add: on_datagram_def)
    from on_packet_permit [OF this] assms(2) show ?thesis by simp
  qed
next
  case (UdpArrived sequence dx dy)
  show ?thesis
  proof (cases "ss_udp s")
    case False
    with assms UdpArrived show ?thesis by (simp add: on_udp_def)
  next
    case True
    then have "on_packet sp mo \<lparr>di_sequence = sequence, di_event = MouseMove dx dy\<rparr>
        (s\<lparr>ss_census := (ss_census s)\<lparr>cn_udp := cn_udp (ss_census s) + 1\<rparr>\<rparr>) = (s', acts, v)"
      using assms(1) UdpArrived by (simp add: on_udp_def)
    from on_packet_permit [OF this] assms(2) show ?thesis by simp
  qed
qed (use assms in \<open>auto split: if_splits\<close>)

lemma fast_lane_permit:
  assumes "session_step sp mo event s = (s', acts, v)" "reports_of acts \<noteq> []"
    and "event = DatagramArrived payload \<or> event = UdpArrived sequence dx dy"
  shows "ss_permit s'"
  using assms(3)
proof
  assume "event = DatagramArrived payload"
  with assms(1,2) show ?thesis by (auto simp: on_datagram_def split: sum.splits dest: on_packet_permit)
next
  assume "event = UdpArrived sequence dx dy"
  with assms(1,2) show ?thesis by (auto simp: on_udp_def split: if_splits dest: on_packet_permit)
qed

text \<open>The sessions of a node, numbered, and the permit.\<close>

record node =
  nd_taken :: bool
  nd_sessions :: "nat \<Rightarrow> input_session option"

definition idle_node :: node where
  "idle_node = \<lparr>nd_taken = False, nd_sessions = Map.empty\<rparr>"

inductive node_step :: "node \<Rightarrow> node \<Rightarrow> bool" where
  opens: "nd_sessions n i = None \<Longrightarrow>
     node_step n (n\<lparr>nd_sessions := (nd_sessions n)(i \<mapsto> open_session sp mo c h)\<rparr>)"
| goes_on: "nd_sessions n i = Some s \<Longrightarrow> sm_slot_free mo = (\<not> nd_taken n)
     \<Longrightarrow> session_step sp mo event s = (s1, acts, Serving) \<Longrightarrow>
     node_step n \<lparr>nd_taken = (ss_permit s1 \<or> nd_taken n \<and> \<not> ss_permit s), nd_sessions = (nd_sessions n)(i \<mapsto> s1)\<rparr>"
| ends: "nd_sessions n i = Some s \<Longrightarrow> sm_slot_free mo = (\<not> nd_taken n)
     \<Longrightarrow> session_step sp mo event s = (s1, acts, v) \<Longrightarrow> v \<noteq> Serving \<Longrightarrow>
     node_step n \<lparr>nd_taken = (nd_taken n \<and> \<not> ss_permit s), nd_sessions = (nd_sessions n)(i := None)\<rparr>"

definition holds :: "node \<Rightarrow> nat \<Rightarrow> bool" where
  "holds n i \<longleftrightarrow> (case nd_sessions n i of None \<Rightarrow> False | Some s \<Rightarrow> ss_permit s)"

definition one_holder :: "node \<Rightarrow> bool" where
  "one_holder n \<longleftrightarrow> (nd_taken n \<longleftrightarrow> (\<exists>i. holds n i)) \<and> (\<forall>i j. holds n i \<longrightarrow> holds n j \<longrightarrow> i = j)"

lemma holds_update: "holds \<lparr>nd_taken = t, nd_sessions = (nd_sessions n)(i := o1)\<rparr> j
    = (if j = i then (case o1 of None \<Rightarrow> False | Some s \<Rightarrow> ss_permit s) else holds n j)"
  by (simp add: holds_def)

lemma node_step_one_holder:
  assumes "node_step n n'" "one_holder n"
  shows "one_holder n'"
  using assms
proof cases
  case (opens i sp mo c h)
  have "\<not> ss_permit (open_session sp mo c h)" by (simp add: open_session_def Let_def)
  then have "holds n' j = holds n j" for j using opens by (simp add: holds_def)
  with assms(2) opens show ?thesis by (simp add: one_holder_def)
next
  case (goes_on i s mo sp event s1 acts)
  have free: "ss_permit s1 \<Longrightarrow> ss_permit s \<or> \<not> nd_taken n" using step_permit [OF goes_on(4)] goes_on(3) by simp
  have i: "holds n i = ss_permit s" using goes_on(2) by (simp add: holds_def)
  have h: "holds n' j = (if j = i then ss_permit s1 else holds n j)" for j using goes_on(1) by (simp add: holds_update)
  have taken: "nd_taken n' = (ss_permit s1 \<or> nd_taken n \<and> \<not> ss_permit s)" using goes_on(1) by simp
  show ?thesis
    using assms(2) free i unfolding one_holder_def h taken by (metis (full_types))
next
  case (ends i s mo sp event s1 acts v)
  have i: "holds n i = ss_permit s" using ends(2) by (simp add: holds_def)
  have h: "holds n' j = (j \<noteq> i \<and> holds n j)" for j using ends(1) by (simp add: holds_update)
  have taken: "nd_taken n' = (nd_taken n \<and> \<not> ss_permit s)" using ends(1) by simp
  show ?thesis
    using assms(2) i unfolding one_holder_def h taken by (metis (full_types))
qed

lemma reachable_one_holder:
  assumes "node_step\<^sup>*\<^sup>* idle_node n"
  shows "one_holder n"
  using assms
proof (induction rule: rtranclp_induct)
  case base
  show ?case by (simp add: one_holder_def holds_def idle_node_def)
qed (rule node_step_one_holder)

text \<open>
  C8: one session drives. However sessions open, take inputs on any lane, park, fail and end, at
  most one of them holds the permit, and the permit is taken exactly while one does; whatever a
  session injects from a datagram or by UDP it injects holding the permit, with no other session
  holding it.
\<close>

theorem one_session_drives:
  assumes "node_step\<^sup>*\<^sup>* idle_node n"
  shows "(\<forall>i j. holds n i \<longrightarrow> holds n j \<longrightarrow> i = j) \<and> (nd_taken n \<longleftrightarrow> (\<exists>i. holds n i))
    \<and> (\<forall>i s sp mo event s1 acts v. nd_sessions n i = Some s \<and> sm_slot_free mo = (\<not> nd_taken n)
        \<and> ((\<exists>payload. event = DatagramArrived payload) \<or> (\<exists>sequence dx dy. event = UdpArrived sequence dx dy))
        \<and> session_step sp mo event s = (s1, acts, v) \<and> reports_of acts \<noteq> [] \<longrightarrow>
        ss_permit s1 \<and> (\<forall>j. j \<noteq> i \<longrightarrow> \<not> holds n j))"
proof -
  have one: "one_holder n" by (rule reachable_one_holder [OF assms])
  have "ss_permit s1 \<and> (\<forall>j. j \<noteq> i \<longrightarrow> \<not> holds n j)"
    if "nd_sessions n i = Some s" "sm_slot_free mo = (\<not> nd_taken n)" "session_step sp mo event s = (s1, acts, v)" "reports_of acts \<noteq> []"
      and lane: "(\<exists>payload. event = DatagramArrived payload) \<or> (\<exists>sequence dx dy. event = UdpArrived sequence dx dy)"
    for i s sp mo event s1 acts v
  proof -
    have permit: "ss_permit s1" using lane fast_lane_permit [OF that(3,4)] by blast
    then have "ss_permit s \<or> \<not> nd_taken n" using step_permit [OF that(3)] that(2) by simp
    then have "\<not> holds n j" if "j \<noteq> i" for j
      using one that \<open>nd_sessions n i = Some s\<close> unfolding one_holder_def by (metis holds_def option.simps(5))
    with permit show ?thesis by blast
  qed
  with one show ?thesis unfolding one_holder_def by blast
qed

lemma one_session_drives_witness:
  "\<exists>n. node_step\<^sup>*\<^sup>* idle_node n \<and> nd_sessions n 0 = Some served \<and> nd_sessions n 1 = Some served
     \<and> \<not> nd_taken n \<and> (\<forall>i. \<not> holds n i)"
proof -
  define n1 where "n1 = idle_node\<lparr>nd_sessions := (nd_sessions idle_node)(0 \<mapsto> served)\<rparr>"
  define n2 where "n2 = n1\<lparr>nd_sessions := (nd_sessions n1)(1 \<mapsto> served)\<rparr>"
  have "node_step idle_node n1" "node_step n1 n2"
    unfolding n1_def n2_def served_def by (rule node_step.opens; simp add: idle_node_def)+
  then have "node_step\<^sup>*\<^sup>* idle_node n2" by (meson rtranclp.rtrancl_into_rtrancl rtranclp.rtrancl_refl)
  with one_session_drives [OF this] show ?thesis by (intro exI [of _ n2]) (auto simp: n2_def n1_def idle_node_def)
qed

section \<open>Where the promises end\<close>

text \<open>
  Input on the episode stream needs no permit. The permit is asked for at handoffs and for
  datagrams and UDP only; an input of the episode stream is carried out whether the permit is free or
  another session drives, and does not take it. A peer that hands nothing over types into a computer
  that another peer drives.
\<close>

theorem stream_input_needs_no_permit:
  "ss_permit (fst (session_step sp mo (StreamFrame (Input packet)) s)) = ss_permit s
   \<and> session_step sp (mo\<lparr>sm_slot_free := free\<rparr>) (StreamFrame (Input packet)) s
       = session_step sp mo (StreamFrame (Input packet)) s
   \<and> \<not> ss_permit served
   \<and> (Keyboard, [(EV_KEY, 30, 1)]) \<in> set (reports_of (fst (snd (session_step plain_params (calm\<lparr>sm_slot_free := False\<rparr>)
        (StreamFrame (Input \<lparr>ip_sequence = 1, ip_event = key_a\<rparr>)) served))))"
proof (intro conjI)
  let ?s = "\<lambda>mo. note_activity mo ((count_event (ip_event packet) (s\<lparr>ss_last_activity := sm_now mo\<rparr>))\<lparr>ss_idle := False\<rparr>)"
  have run: "session_step sp mo (StreamFrame (Input packet)) s = take_input sp mo packet (?s mo)" for mo
    by (simp add: on_frame_def on_input_def Let_def)
  obtain s' acts v where taken: "take_input sp mo packet (?s mo) = (s', acts, v)" by (metis prod_cases3)
  from take_input_permit [OF this] taken show "ss_permit (fst (session_step sp mo (StreamFrame (Input packet)) s)) = ss_permit s"
    unfolding run by simp
  have "take_input sp (mo\<lparr>sm_slot_free := free\<rparr>) packet s1 = take_input sp mo packet s1" for s1
    by (cases "ip_event packet") (simp_all add: take_input_def handle_inbound_pinch_def deliver_input_def refresh_live_edge_config_def)
  moreover have "?s (mo\<lparr>sm_slot_free := free\<rparr>) = ?s mo" by (simp add: note_activity_def)
  ultimately show "session_step sp (mo\<lparr>sm_slot_free := free\<rparr>) (StreamFrame (Input packet)) s
       = session_step sp mo (StreamFrame (Input packet)) s" unfolding run by simp
  show "\<not> ss_permit served" by simp
  show "(Keyboard, [(EV_KEY, 30, 1)]) \<in> set (reports_of (fst (snd (session_step plain_params (calm\<lparr>sm_slot_free := False\<rparr>)
        (StreamFrame (Input \<lparr>ip_sequence = 1, ip_event = key_a\<rparr>)) served))))"
    using key_session [of "calm\<lparr>sm_slot_free := False\<rparr>"] by (auto simp: calm_def)
qed

text \<open>
  A push outlives its drive. A peer that parks and hands over again finds the push run it left on
  an edge: with seven of eight pixels spent before, one pixel beyond that edge now asks for the way
  home.
\<close>

theorem push_outlives_its_drive:
  assumes "session_step sp mo1 (StreamFrame ReleaseAll) s = (s1, acts1, Serving)"
    and "session_step sp mo2 (StreamFrame (PointerHandoff sid name x y geometry)) s1 = (s2, acts2, Serving)"
    and "rv_hop_edge (ss_receiver s) = Some e" "rv_hop_accum (ss_receiver s) = EDGE_PUSH_PX - 1"
  shows "rv_hop_edge (ss_receiver s2) = Some e \<and> rv_hop_accum (ss_receiver s2) = EDGE_PUSH_PX - 1
    \<and> (\<forall>scr px py dx dy. screen_by_id (cfg_layout c) target = Some scr
        \<and> edge_overflow (scr_width scr) (scr_height scr) px py dx dy = Some (e, 1) \<longrightarrow>
        snd (note_hop c target px py dx dy (ss_receiver s2)) \<and> \<not> snd (note_hop c target px py dx dy new_receiver))"
proof -
  have "rv_hop_edge (ss_receiver s1) = Some e" "rv_hop_accum (ss_receiver s1) = EDGE_PUSH_PX - 1"
    using assms(1,3,4) by (auto simp: on_frame_def Let_def on_release_all_def with_injector_def split: prod.splits option.splits)
  then have kept: "rv_hop_edge (ss_receiver s2) = Some e" "rv_hop_accum (ss_receiver s2) = EDGE_PUSH_PX - 1"
    using assms(2) by (auto simp: on_frame_def Let_def on_handoff_def split: if_splits sum.splits option.splits)
  have "snd (note_hop c target px py dx dy (ss_receiver s2)) \<and> \<not> snd (note_hop c target px py dx dy new_receiver)"
    if "screen_by_id (cfg_layout c) target = Some scr" "edge_overflow (scr_width scr) (scr_height scr) px py dx dy = Some (e, 1)"
    for scr px py dx dy
    using that kept by (simp add: note_hop_def Let_def new_receiver_def i64_add_def EDGE_PUSH_PX_def)
  with kept show ?thesis by blast
qed

lemma pinch_fields [simp]:
  "ss_pinch_held (note_activity mo s) = ss_pinch_held s" "ss_pinch_held (count_event event s) = ss_pinch_held s"
  by (simp_all add: note_activity_def count_event_def Let_def)

text \<open>
  A parked zoom scrolls. The Ctrl a pinch holds is released with everything else when the
  peer parks, but the session still counts it as held: the next pinch turns the wheel with no key
  down, and the page scrolls.
\<close>

theorem parked_zoom_scrolls:
  assumes "session_step sp mo1 (StreamFrame ReleaseAll) s = (s1, acts1, Serving)"
    and "ss_pinch_held s" "\<not> sm_touch mo2"
    and "session_step sp mo2 (StreamFrame (Input \<lparr>ip_sequence = n, ip_event = Pinch delta\<rparr>)) s1 = (s2, acts2, v)"
  shows "held_down s1 = {} \<and> held_down s2 = {} \<and> ss_pinch_held s2
    \<and> (su_io (sm_around mo2) \<and> delta \<noteq> 0 \<longrightarrow> v = Serving \<and> reports_of acts2 \<noteq> [])"
proof -
  have s1: "ss_pinch_held s1" "held_down s1 = {}"
    using assms(1,2)
    by (auto simp: on_frame_def Let_def on_release_all_def with_injector_def held_down_def release_all_def on_record_def split: prod.splits option.splits)
  let ?events = "if delta \<noteq> 0 then [SmoothWheel 0 delta] else []"
  let ?u = "rv_injector (ss_receiver s1)"
  obtain u out e where run: "inject_each (su_io (sm_around mo2)) ?events ?u = (u, out, e)" by (metis prod_cases3)
  have keys: "ui_pressed_keys u = ui_pressed_keys ?u" "ui_pressed_buttons u = ui_pressed_buttons ?u"
    using run by (auto simp: inject_event_def split: if_splits prod.splits sum.splits)
  have out: "e = None \<and> out \<noteq> []" if "su_io (sm_around mo2)" "delta \<noteq> 0"
    using run that by (auto simp: inject_event_def emit_def wheel_axis_def split: if_splits prod.splits)
  let ?s0 = "note_activity mo2 ((count_event (Pinch delta) (s1\<lparr>ss_last_activity := sm_now mo2\<rparr>))\<lparr>ss_idle := False\<rparr>)"
  have "take_input sp mo2 \<lparr>ip_sequence = n, ip_event = Pinch delta\<rparr> ?s0
      = (with_injector u (?s0\<lparr>ss_pinch_held := True\<rparr>), [Reported out], carry_on e)"
    using run assms(3) s1(1) by (simp add: take_input_def is_pinch_def handle_inbound_pinch_def Let_def)
  then have s2: "s2 = with_injector u (?s0\<lparr>ss_pinch_held := True\<rparr>)" "acts2 = [Reported out]" "v = carry_on e"
    using assms(4) by (simp_all add: on_frame_def on_input_def Let_def)
  with s1 keys out show ?thesis
    by (auto simp: held_down_def on_record_def with_injector_def carry_on_def)
qed

lemma push_outlives_its_drive_witness:
  "\<exists>s s1 acts1 s2 acts2. session_step plain_params calm (StreamFrame ReleaseAll) s = (s1, acts1, Serving)
     \<and> session_step plain_params calm (StreamFrame (PointerHandoff 1 [] 5 5 None)) s1 = (s2, acts2, Serving)
     \<and> rv_hop_accum (ss_receiver s2) = EDGE_PUSH_PX - 1"
proof -
  define s where "s = served\<lparr>ss_receiver := new_receiver\<lparr>rv_hop_edge := Some Left, rv_hop_accum := EDGE_PUSH_PX - 1\<rparr>,
    ss_config := (default_config None)\<lparr>cfg_layout := desk_pair\<rparr>\<rparr>"
  define s1 where "s1 = (with_injector new_device (s\<lparr>ss_last_activity := 0\<rparr>))\<lparr>ss_idle := True, ss_permit := False,
    ss_activity := (ss_activity s)\<lparr>ac_driving := False\<rparr>\<rparr>"
  have park: "session_step plain_params calm (StreamFrame ReleaseAll) s = (s1, [Reported []], Serving)"
    by (simp add: on_frame_def Let_def on_release_all_def s_def s1_def release_nothing) (simp add: new_receiver_def release_nothing)
  have here: "cfg_layout (ss_config s1) = desk_pair" "ly_self desk_pair = Some (ScreenId 1)"
    by (simp_all add: s1_def s_def with_injector_def desk_pair_def pair_default_def SELF_SCREEN_ID_def)
  have "screen_by_id desk_pair (ScreenId 1) \<noteq> None" by code_simp
  then obtain g where "truth_around (sm_around calm) desk_pair = Some g"
    by (auto simp: truth_around_def truthful_local_geometry_def here pick_geometry_def local_screen_geometry_def
        screen_geometry_for_def calm_def)
  then obtain s2 where enter: "session_step plain_params calm (StreamFrame (PointerHandoff 1 [] 5 5 None)) s1 = (s2, [], Serving)"
    using here by (simp add: on_frame_def on_handoff_def Let_def handoff_accepted_def note_activity_def)
  have "rv_hop_edge (ss_receiver s) = Some Left" "rv_hop_accum (ss_receiver s) = EDGE_PUSH_PX - 1" by (simp_all add: s_def)
  from push_outlives_its_drive [OF park enter this] park enter show ?thesis by blast
qed

lemma parked_zoom_scrolls_witness:
  "\<exists>s s1 acts1 s2 acts2 v. session_step plain_params calm (StreamFrame ReleaseAll) s = (s1, acts1, Serving)
     \<and> session_step plain_params calm (StreamFrame (Input \<lparr>ip_sequence = 3, ip_event = Pinch 120\<rparr>)) s1 = (s2, acts2, v)
     \<and> reports_of acts2 \<noteq> [] \<and> held_down s2 = {}"
proof -
  define s where "s = served\<lparr>ss_pinch_held := True\<rparr>"
  obtain s1 acts1 where park: "session_step plain_params calm (StreamFrame ReleaseAll) s = (s1, acts1, Serving)"
    by (simp add: on_frame_def Let_def on_release_all_def s_def new_receiver_def release_nothing)
  obtain s2 acts2 v where zoom: "session_step plain_params calm (StreamFrame (Input \<lparr>ip_sequence = 3, ip_event = Pinch 120\<rparr>)) s1
      = (s2, acts2, v)" by (metis prod_cases3)
  have "ss_pinch_held s" by (simp add: s_def)
  from parked_zoom_scrolls [OF park this _ zoom] have "reports_of acts2 \<noteq> [] \<and> held_down s2 = {}" by simp
  with park zoom show ?thesis by blast
qed

end
