(* ===== verification/InputOrder.thy ===== *)
theory InputOrder
  imports SessionRuns LayoutEdits
begin

text \<open>
  What a receiver makes of the order of its packets: a second copy changes nothing, on whatever lane
  it comes, and the tracked cursor stays on its screen.
\<close>

section \<open>Copies\<close>

text \<open>Everything but the count of copies.\<close>

definition uncounted :: "receiver \<Rightarrow> receiver" where
  "uncounted r = r\<lparr>rv_dropped_duplicate := 0\<rparr>"

definition recounted :: "u64 \<Rightarrow> receiver \<times> 'b \<times> 'c \<Rightarrow> receiver \<times> 'b \<times> 'c" where
  "recounted n res = (case res of (r, out, outcome) \<Rightarrow> (r\<lparr>rv_dropped_duplicate := n\<rparr>, out, outcome))"

lemma inject_packet_count:
  "inject_packet su event (r\<lparr>rv_dropped_duplicate := n\<rparr>) = recounted n (inject_packet su event r)"
  by (cases event) (simp_all add: inject_packet_def Let_def recounted_def split: prod.split sum.split)

lemma note_hop_count:
  "note_hop c sid x y dx dy (r\<lparr>rv_dropped_duplicate := n\<rparr>)
     = (case note_hop c sid x y dx dy r of (r', ready) \<Rightarrow> (r'\<lparr>rv_dropped_duplicate := n\<rparr>, ready))"
  by (simp add: note_hop_def Let_def split: option.split)

lemma track_cursor_count:
  "track_cursor c sid x y dx dy (r\<lparr>rv_dropped_duplicate := n\<rparr>) = (track_cursor c sid x y dx dy r)\<lparr>rv_dropped_duplicate := n\<rparr>"
  by (simp add: track_cursor_def split: option.split)

lemma swap_count:
  "r\<lparr>rv_dropped_duplicate := n, rv_hop_edge := e, rv_hop_accum := a\<rparr> = r\<lparr>rv_hop_edge := e, rv_hop_accum := a, rv_dropped_duplicate := n\<rparr>"
  "r\<lparr>rv_dropped_duplicate := n, rv_remote_cursor := p\<rparr> = r\<lparr>rv_remote_cursor := p, rv_dropped_duplicate := n\<rparr>"
  "r\<lparr>rv_dropped_duplicate := n, rv_motion := l, rv_seen := S\<rparr> = r\<lparr>rv_motion := l, rv_seen := S, rv_dropped_duplicate := n\<rparr>"
  by simp_all

lemma move_pointer_count:
  "move_pointer c pg su sid x y dx dy (r\<lparr>rv_dropped_duplicate := n\<rparr>)
     = (case move_pointer c pg su sid x y dx dy r of (r', outcome) \<Rightarrow> (r'\<lparr>rv_dropped_duplicate := n\<rparr>, outcome))"
proof -
  obtain r1 ready where hop: "note_hop c sid x y dx dy r = (r1, ready)" by force
  show ?thesis
    by (cases ready) (simp_all add: move_pointer_def note_hop_count hop Let_def track_cursor_count swap_count track_cursor_count
        [where r = "r1\<lparr>rv_hop_edge := None, rv_hop_accum := 0\<rparr>", simplified] split: option.split sum.split)
qed

lemma apply_motion_count:
  "apply_motion c pg su dx dy (r\<lparr>rv_dropped_duplicate := n\<rparr>) = recounted n (apply_motion c pg su dx dy r)"
proof (cases "\<exists>sid x y. rv_remote_screen r = Some sid \<and> rv_remote_cursor r = Some (x, y)")
  case False
  then show ?thesis
    by (auto simp: apply_motion_def inject_packet_count split: option.split)
next
  case True
  then obtain sid x y where at: "rv_remote_screen r = Some sid" "rv_remote_cursor r = Some (x, y)" by blast
  obtain r1 hop where moved: "move_pointer c pg su sid x y dx dy r = (r1, hop)" by force
  then show ?thesis
    using at by (cases hop) (simp_all add: apply_motion_def move_pointer_count inject_packet_count recounted_def)
qed

lemma process_count:
  assumes "di_sequence packet \<notin> rv_seen r"
  shows "process_remote_input c pg su packet (r\<lparr>rv_dropped_duplicate := n\<rparr>) = recounted n (process_remote_input c pg su packet r)"
proof -
  define r1 where "r1 = r\<lparr>rv_seen := insert (di_sequence packet) (rv_seen r)\<rparr>"
  have swap: "r\<lparr>rv_dropped_duplicate := n, rv_seen := S\<rparr> = (r\<lparr>rv_seen := S\<rparr>)\<lparr>rv_dropped_duplicate := n\<rparr>" for S by simp
  have other: "inject_packet su event (r\<lparr>rv_dropped_duplicate := n, rv_seen := S\<rparr>) = recounted n (inject_packet su event (r\<lparr>rv_seen := S\<rparr>))"
    for event S unfolding swap by (rule inject_packet_count)
  have motion: "apply_motion c pg su dx dy (r\<lparr>rv_dropped_duplicate := n, rv_motion := l, rv_seen := S\<rparr>)
      = recounted n (apply_motion c pg su dx dy (r\<lparr>rv_motion := l, rv_seen := S\<rparr>))" for dx dy l S
    unfolding swap_count by (rule apply_motion_count)
  show ?thesis
    using assms
    by (cases "di_event packet"; cases "accept_motion (di_sequence packet) (rv_motion r)"; cases "snd (accept_motion (di_sequence packet) (rv_motion r))")
      (simp_all add: process_remote_input_def Let_def other motion, simp_all add: recounted_def)
qed

text \<open>What is seen of a packet.\<close>

lemma inject_packet_seen: "inject_packet su event r = (r', out, outcome) \<Longrightarrow> rv_seen r' = rv_seen r"
  by (cases event) (auto simp: inject_packet_def Let_def split: prod.splits sum.splits if_splits)

lemma apply_motion_seen:
  assumes "apply_motion c pg su dx dy r = (r', out, outcome)"
  shows "rv_seen r' = rv_seen r"
proof (cases "\<exists>sid x y. rv_remote_screen r = Some sid \<and> rv_remote_cursor r = Some (x, y)")
  case False
  with assms have "inject_packet su (MouseMove dx dy) r = (r', out, outcome)" by (auto simp: apply_motion_def split: option.splits)
  then show ?thesis by (rule inject_packet_seen)
next
  case True
  then obtain sid x y where at: "rv_remote_screen r = Some sid" "rv_remote_cursor r = Some (x, y)" by blast
  obtain r1 hop where moved: "move_pointer c pg su sid x y dx dy r = (r1, hop)" by force
  then show ?thesis
    using assms at move_pointer_fields [OF moved] inject_packet_seen by (cases hop) (auto simp: apply_motion_def)
qed

lemma forget_oldest_few:
  assumes "finite S" "card S \<le> SEEN_SEQUENCES_MAX"
  shows "forget_oldest S = S"
  using assms by (simp add: forget_oldest_def Let_def)

lemma process_seen:
  assumes "process_remote_input c pg su packet r = (r', out, outcome)" "finite (rv_seen r)" "card (rv_seen r) < SEEN_SEQUENCES_MAX"
  shows "rv_seen r' = insert (di_sequence packet) (rv_seen r)"
proof (cases "di_sequence packet \<in> rv_seen r")
  case True
  with assms(1) show ?thesis by (auto simp: process_remote_input_def)
next
  case False
  let ?S = "insert (di_sequence packet) (rv_seen r)"
  have few: "forget_oldest ?S = ?S" using assms(2,3) False by (intro forget_oldest_few) simp_all
  obtain latest ok where accept: "accept_motion (di_sequence packet) (rv_motion r) = (latest, ok)" by force
  show ?thesis
  proof (cases "\<exists>dx dy. di_event packet = MouseMove dx dy")
    case True
    then obtain dx dy where move: "di_event packet = MouseMove dx dy" by blast
    show ?thesis
    proof (cases ok)
      case True
      have "apply_motion c pg su dx dy (r\<lparr>rv_seen := ?S, rv_motion := latest, rv_seen := ?S\<rparr>) = (r', out, outcome)"
        using assms(1) False few accept move True by (simp add: process_remote_input_def Let_def)
      from apply_motion_seen [OF this] show ?thesis by simp
    next
      case stale: False
      have "r' = r\<lparr>rv_seen := ?S, rv_dropped_stale := rv_dropped_stale r + 1\<rparr>"
        using assms(1) False accept move stale by (simp add: process_remote_input_def Let_def)
      then show ?thesis by simp
    qed
  next
    case other: False
    then have "inject_packet su (di_event packet) (r\<lparr>rv_seen := ?S, rv_seen := ?S\<rparr>) = (r', out, outcome)"
      using assms(1) False few by (cases "di_event packet") (simp_all add: process_remote_input_def Let_def)
    from inject_packet_seen [OF this] show ?thesis by simp
  qed
qed

text \<open>
  The packets a session takes, as its calls of \<open>process_remote_input\<close>: each with the settings and the
  surroundings of its moment, up to the first that does not go on. Pinch gestures on the two streams
  do not come here; the session expands them before any check for copies.
\<close>

fun receive_all ::
  "screen_geometry option \<Rightarrow> ((config \<times> surroundings) \<times> datagram_input) list \<Rightarrow> receiver
     \<Rightarrow> receiver \<times> report list \<times> input_outcome" where
  "receive_all pg [] r = (r, [], Delivered)"
| "receive_all pg (((c, su), packet) # packets) r =
     (case process_remote_input c pg su packet r of
        (r1, out, Delivered) \<Rightarrow>
          (case receive_all pg packets r1 of (r2, out2, outcome) \<Rightarrow> (r2, out @ out2, outcome))
      | res \<Rightarrow> res)"

definition not_pinch :: "'a \<times> datagram_input \<Rightarrow> bool" where
  "not_pinch x \<longleftrightarrow> \<not> is_pinch (di_event (snd x))"

fun first_copies :: "u64 set \<Rightarrow> ('a \<times> datagram_input) list \<Rightarrow> ('a \<times> datagram_input) list" where
  "first_copies S [] = []"
| "first_copies S ((su, packet) # packets) =
     (if di_sequence packet \<in> S then first_copies S packets
      else (su, packet) # first_copies (insert (di_sequence packet) S) packets)"

definition same_effect :: "receiver \<times> report list \<times> input_outcome \<Rightarrow> receiver \<times> report list \<times> input_outcome \<Rightarrow> bool" where
  "same_effect a b \<longleftrightarrow> uncounted (fst a) = uncounted (fst b) \<and> snd a = snd b"

lemma uncounted_eq: "uncounted r = uncounted q \<longleftrightarrow> (\<exists>n. r = q\<lparr>rv_dropped_duplicate := n\<rparr>)"
proof
  assume "uncounted r = uncounted q"
  then have "r = q\<lparr>rv_dropped_duplicate := rv_dropped_duplicate r\<rparr>"
    by (cases r; cases q) (simp add: uncounted_def)
  then show "\<exists>n. r = q\<lparr>rv_dropped_duplicate := n\<rparr>" by blast
qed (auto simp: uncounted_def)

lemma copies_change_nothing_from:
  "finite (rv_seen q) \<Longrightarrow> card (rv_seen q) + length packets \<le> SEEN_SEQUENCES_MAX \<Longrightarrow> uncounted r = uncounted q \<Longrightarrow>
     same_effect (receive_all pg packets r) (receive_all pg (first_copies (rv_seen q) packets) q)"
proof (induction packets arbitrary: r q)
  case Nil
  then show ?case by (simp add: same_effect_def)
next
  case (Cons x packets)
  obtain c su packet where x: "x = ((c, su), packet)" by (metis prod.exhaust)
  obtain n where r: "r = q\<lparr>rv_dropped_duplicate := n\<rparr>" using Cons.prems(3) uncounted_eq by blast
  show ?case
  proof (cases "di_sequence packet \<in> rv_seen q")
    case True
    then have step: "process_remote_input c pg su packet r = (r\<lparr>rv_dropped_duplicate := n + 1\<rparr>, [], Delivered)"
      by (simp add: process_remote_input_def r)
    have "uncounted (r\<lparr>rv_dropped_duplicate := n + 1\<rparr>) = uncounted q" by (simp add: uncounted_def r)
    from Cons.IH [OF Cons.prems(1) _ this] Cons.prems(2) step True show ?thesis
      by (simp add: x same_effect_def case_prod_beta)
  next
    case False
    obtain q1 out outcome where one: "process_remote_input c pg su packet q = (q1, out, outcome)" by (metis prod_cases3)
    have step: "process_remote_input c pg su packet r = (q1\<lparr>rv_dropped_duplicate := n\<rparr>, out, outcome)"
      using process_count [OF False, of c pg su n] one by (simp add: r recounted_def)
    have room: "card (rv_seen q) < SEEN_SEQUENCES_MAX" using Cons.prems(2) by simp
    have seen: "rv_seen q1 = insert (di_sequence packet) (rv_seen q)" by (rule process_seen [OF one Cons.prems(1) room])
    have same: "uncounted (q1\<lparr>rv_dropped_duplicate := n\<rparr>) = uncounted q1" by (simp add: uncounted_def)
    have "finite (rv_seen q1)" "card (rv_seen q1) + length packets \<le> SEEN_SEQUENCES_MAX"
      using Cons.prems(1,2) False by (simp_all add: seen)
    from Cons.IH [OF this same] step one False same show ?thesis
      by (cases outcome) (auto simp: x same_effect_def seen case_prod_beta)
  qed
qed

text \<open>
  C17: a copy changes nothing. Among the first 4096 packets of a session that are not pinch
  gestures, in whatever order and on whatever lanes they come, and with the settings and the
  platform changing between them, each is applied at most once: the reports to the devices, the
  outcome and the whole state of the receiver but its count of copies are those of the first copies
  alone.
\<close>

theorem copies_change_nothing:
  assumes "length packets \<le> 4096" "list_all not_pinch packets"
  shows "snd (receive_all pg packets new_receiver) = snd (receive_all pg (first_copies {} packets) new_receiver)
    \<and> uncounted (fst (receive_all pg packets new_receiver)) = uncounted (fst (receive_all pg (first_copies {} packets) new_receiver))"
proof -
  have "rv_seen new_receiver = {}" by (simp add: new_receiver_def)
  with copies_change_nothing_from [of new_receiver packets new_receiver pg] assms(1) show ?thesis
    by (simp add: same_effect_def SEEN_SEQUENCES_MAX_def)
qed

definition at_rest :: surroundings where
  "at_rest = \<lparr>su_sidecar = None, su_measured = None, su_pointer = None, su_io = True, su_rebuilds = True,
     su_drop = (\<lambda>_. True), su_io_again = True\<rparr>"

lemma copies_change_nothing_witness:
  "let c = default_config None; p = ((c, at_rest), \<lparr>di_sequence = 5, di_event = MouseMove 3 4\<rparr>);
       q = ((c\<lparr>cfg_layout := desk_pair\<rparr>, at_rest), \<lparr>di_sequence = 5, di_event = MouseMove 3 4\<rparr>)
   in snd (receive_all None [p, q] new_receiver) = snd (receive_all None [p] new_receiver)"
  using copies_change_nothing [of "[((default_config None, at_rest), \<lparr>di_sequence = 5, di_event = MouseMove 3 4\<rparr>),
    (((default_config None)\<lparr>cfg_layout := desk_pair\<rparr>, at_rest), \<lparr>di_sequence = 5, di_event = MouseMove 3 4\<rparr>)]" None]
  unfolding Let_def by (simp add: not_pinch_def is_pinch_def)

section \<open>The tracked cursor\<close>

lemma clamp_less:
  assumes "w \<noteq> (0 :: u32)"
  shows "word_of_int (max 0 (min (uint (w - 1)) z)) < w"
proof -
  let ?v = "max 0 (min (uint (w - 1)) z)"
  have w: "uint (w - 1) = uint w - 1" by (rule uint_minus_1 [OF assms])
  have "0 \<le> uint (w - 1)" "uint w < 2 ^ 32" by (simp_all add: uint_lt2p [of w, simplified])
  then have "0 \<le> ?v" "?v < 2 ^ 32" "?v < uint w" using w by linarith+
  then show ?thesis by (simp add: word_less_def uint_word_of_int)
qed

lemma veto_inside:
  assumes "receiver_edge_truth_veto c truthful pointer sid e = Some (x, y)" "screen_by_id (cfg_layout c) sid = Some scr"
  shows "x < scr_width scr" "y < scr_height scr"
  using assms by (auto simp: receiver_edge_truth_veto_def split: option.splits if_splits)

definition on_screen :: "screen \<Rightarrow> receiver \<Rightarrow> bool" where
  "on_screen scr r = (case rv_remote_cursor r of Some (x, y) \<Rightarrow> x < scr_width scr \<and> y < scr_height scr | None \<Rightarrow> False)"

lemma track_cursor_inside:
  assumes "screen_by_id (cfg_layout c) sid = Some scr" "scr_width scr \<noteq> 0" "scr_height scr \<noteq> 0"
  shows "on_screen scr (track_cursor c sid x y dx dy r)"
  using assms by (simp add: on_screen_def track_cursor_def clamp_less)

lemma move_pointer_inside:
  assumes "move_pointer c pg su sid x y dx dy r = (r', outcome)" "outcome = None \<or> outcome = Some Delivered"
    and "screen_by_id (cfg_layout c) sid = Some scr" "scr_width scr \<noteq> 0" "scr_height scr \<noteq> 0"
  shows "on_screen scr r'"
proof -
  obtain r1 ready where hop: "note_hop c sid x y dx dy r = (r1, ready)" by force
  have veto: "on_screen scr (r2\<lparr>rv_remote_cursor := Some q\<rparr>)"
    if "receiver_edge_truth_veto c tg pt sid e = Some q" for r2 q tg pt e
    using veto_inside [OF _ assms(3)] that by (cases q) (auto simp: on_screen_def)
  show ?thesis
    using assms(1,2) hop track_cursor_inside [OF assms(3-5)] veto
    by (auto simp: move_pointer_def Let_def assms(3) split: bool.splits option.splits sum.splits)
qed

lemma inject_packet_cursor: "inject_packet su event r = (r', out, outcome) \<Longrightarrow> rv_remote_cursor r' = rv_remote_cursor r"
  by (cases event) (auto simp: inject_packet_def Let_def split: prod.splits sum.splits if_splits)

text \<open>
  C36: the tracked cursor stays on its screen. Wherever it was before, after a motion that was
  accepted and did not end the drive, the tracked cursor is inside the screen it is on: it is clamped
  there, or it is the measured position a refused crossing falls back to.
\<close>

theorem cursor_stays_on_its_screen:
  assumes "process_remote_input c pg su \<lparr>di_sequence = n, di_event = MouseMove dx dy\<rparr> r = (r', out, Delivered)"
    and "n \<notin> rv_seen r" "snd (accept_motion n (rv_motion r))"
    and "rv_remote_screen r = Some sid" "rv_remote_cursor r = Some p"
    and "screen_by_id (cfg_layout c) sid = Some scr" "scr_width scr \<noteq> 0" "scr_height scr \<noteq> 0"
  shows "on_screen scr r'"
proof -
  obtain x y where p: "p = (x, y)" by force
  obtain latest where latest: "accept_motion n (rv_motion r) = (latest, True)" using assms(3) by (metis prod.collapse)
  define q where "q = r\<lparr>rv_seen := insert n (rv_seen r), rv_motion := latest, rv_seen := forget_oldest (insert n (rv_seen r))\<rparr>"
  have applied: "apply_motion c pg su dx dy q = (r', out, Delivered)"
    using assms(1,2) latest by (simp add: process_remote_input_def Let_def q_def)
  have at: "rv_remote_screen q = Some sid" "rv_remote_cursor q = Some (x, y)" using assms(4,5) p by (simp_all add: q_def)
  obtain r1 hop where moved: "move_pointer c pg su sid x y dx dy q = (r1, hop)" by force
  show ?thesis
  proof (cases hop)
    case None
    then have "inject_packet su (MouseMove dx dy) r1 = (r', out, Delivered)" using applied at moved by (simp add: apply_motion_def)
    then have "rv_remote_cursor r' = rv_remote_cursor r1" by (rule inject_packet_cursor)
    with move_pointer_inside [OF moved _ assms(6-8)] None show ?thesis by (simp add: on_screen_def)
  next
    case (Some outcome)
    then have "r' = r1" "outcome = Delivered" using applied at moved by (simp_all add: apply_motion_def)
    with move_pointer_inside [OF moved _ assms(6-8)] Some show ?thesis by simp
  qed
qed

lemma cursor_stays_on_its_screen_witness:
  "\<exists>c su r r' out scr. process_remote_input c None su \<lparr>di_sequence = 5, di_event = MouseMove 3 4\<rparr> r = (r', out, Delivered)
     \<and> on_screen scr r'"
proof -
  define c where "c = (default_config None)\<lparr>cfg_layout := desk_pair\<rparr>"
  define su where "su = \<lparr>su_sidecar = None, su_measured = None, su_pointer = None, su_io = True, su_rebuilds = True,
    su_drop = (\<lambda>_. True), su_io_again = True\<rparr>"
  define r where "r = new_receiver\<lparr>rv_remote_screen := Some (ScreenId 1), rv_remote_cursor := Some (50, 50)\<rparr>"
  obtain scr where scr: "screen_by_id (cfg_layout c) (ScreenId 1) = Some scr"
    "scr_width scr = 1920" "scr_height scr = 1080"
    by (simp add: c_def desk_pair_def pair_default_def screen_by_id_def SELF_SCREEN_ID_def FIRST_PEER_SCREEN_ID_def
        default_screen_width_def default_screen_height_def)
  have seen: "5 \<notin> rv_seen r" "snd (accept_motion 5 (rv_motion r))" by (simp_all add: r_def new_receiver_def accept_motion_def)
  have at: "rv_remote_screen r = Some (ScreenId 1)" "rv_remote_cursor r = Some (50, 50)" by (simp_all add: r_def)
  have inside: "edge_overflow 1920 1080 50 50 3 4 = None" by code_simp
  obtain r' out where run: "process_remote_input c None su \<lparr>di_sequence = 5, di_event = MouseMove 3 4\<rparr> r = (r', out, Delivered)"
    using scr by (simp add: process_remote_input_def Let_def r_def new_receiver_def accept_motion_def apply_motion_def move_pointer_def
        note_hop_def inside inject_packet_def inject_event_def emit_def su_def split: prod.split sum.split)
  have "on_screen scr r'" by (rule cursor_stays_on_its_screen [OF run seen at scr(1)]) (simp_all add: scr)
  with run show ?thesis by blast
qed

end
