(* ===== verification/LocalControl.thy ===== *)
theory LocalControl
  imports Admission RouterRuns
begin

text \<open>
  The rest of the local control channel: changing the settings, pinning a peer, the connections
  that hold a lease, all in \<^verbatim>\<open>handle_connection\<close> of \<^verbatim>\<open>kvm-daemon/src/control.rs\<close>, and the frames of
  \<^verbatim>\<open>kvm-protocol/src/control.rs\<close>. The other requests are in \<^verbatim>\<open>Admission\<close>.
\<close>

section \<open>Changing the settings\<close>

text \<open>A request names what is to change; everything else stays.\<close>

record config_update =
  cu_device_name :: "string option"
  cu_mode :: "mode option"
  cu_allow_lock_screen_control :: "bool option"
  cu_listen_port :: "u16 option"
  cu_layout :: "layout option"
  cu_auto_connect_address :: "string option"
  cu_clear_auto_connect :: bool
  cu_clipboard_enabled :: "bool option"
  cu_clipboard_max_mb :: "u32 option"
  cu_edge_mode :: "edge_mode option"
  cu_transport :: "transport_protocol option"
  cu_reverse_scroll :: "bool option"
  cu_auto_discover :: "bool option"
  cu_double_edge_style :: "double_edge_style option"

text \<open>The live settings, the file, and the revision that wakes running episodes.\<close>

record settings =
  se_live :: config
  se_file :: config
  se_revision :: nat

datatype settings_answer = Applied bool | SettingsRefused string

definition or_kept :: "'a option \<Rightarrow> 'a \<Rightarrow> 'a" where
  "or_kept change current = (case change of None \<Rightarrow> current | Some new \<Rightarrow> new)"

definition update_auto_connect :: "config_update \<Rightarrow> config \<Rightarrow> string + config" where
  "update_auto_connect u c =
     (if cu_clear_auto_connect u then Inr (c\<lparr>cfg_auto_connect_address := None\<rparr>)
      else case cu_auto_connect_address u of
        None \<Rightarrow> Inr c
      | Some address \<Rightarrow>
          if trim address = [] then Inl ''auto-connect address cannot be empty''
          else Inr (c\<lparr>cfg_auto_connect_address := Some (trim address)\<rparr>))"

definition update_clipboard :: "config_update \<Rightarrow> config \<Rightarrow> string + config" where
  "update_clipboard u c =
     (let c1 = c\<lparr>cfg_clipboard_enabled := or_kept (cu_clipboard_enabled u) (cfg_clipboard_enabled c)\<rparr>
      in case cu_clipboard_max_mb u of
           None \<Rightarrow> Inr c1
         | Some max_mb \<Rightarrow>
             if max_mb = 0 \<or> max_mb > MAX_CLIPBOARD_MAX_MB then Inl ''clipboard limit out of range''
             else Inr (c1\<lparr>cfg_clipboard_max_mb := max_mb\<rparr>))"

definition update_layout :: "config_update \<Rightarrow> config \<Rightarrow> string + config" where
  "update_layout u c =
     (case cu_layout u of
        None \<Rightarrow> Inr c
      | Some l \<Rightarrow>
          (case validate l of Inl e \<Rightarrow> Inl ''invalid screen layout'' | Inr _ \<Rightarrow> Inr (c\<lparr>cfg_layout := l\<rparr>)))"

text \<open>The candidate: a request for QUIC is answered with UDP.\<close>

definition updated_config :: "config_update \<Rightarrow> config \<Rightarrow> string + config" where
  "updated_config u c =
     (let c1 = c\<lparr>cfg_device_name := (case cu_device_name u of None \<Rightarrow> cfg_device_name c | Some name \<Rightarrow> trim name),
            cfg_mode := or_kept (cu_mode u) (cfg_mode c),
            cfg_allow_lock_screen_control := or_kept (cu_allow_lock_screen_control u) (cfg_allow_lock_screen_control c)\<rparr>
      in case update_auto_connect u c1 of
           Inl e \<Rightarrow> Inl e
         | Inr c2 \<Rightarrow>
             (case update_clipboard u c2 of
                Inl e \<Rightarrow> Inl e
              | Inr c3 \<Rightarrow>
                  update_layout u (c3\<lparr>cfg_edge_mode := or_kept (cu_edge_mode u) (cfg_edge_mode c3),
                    cfg_reverse_scroll := or_kept (cu_reverse_scroll u) (cfg_reverse_scroll c3),
                    cfg_auto_discover := or_kept (cu_auto_discover u) (cfg_auto_discover c3),
                    cfg_double_edge_style := or_kept (cu_double_edge_style u) (cfg_double_edge_style c3),
                    cfg_transport := (if cu_transport u = None then cfg_transport c3 else Udp)\<rparr>)))"

text \<open>\<open>Config::save\<close>; a file that cannot be written stays as it was.\<close>

definition save_config :: "string option \<Rightarrow> config \<Rightarrow> config \<Rightarrow> config \<times> (string + unit)" where
  "save_config io c file =
     (case validate_config c of
        Inl e \<Rightarrow> (file, Inl ''saving configuration'')
      | Inr _ \<Rightarrow> (case io of Some e \<Rightarrow> (file, Inl e) | None \<Rightarrow> (c, Inr ())))"

definition restart_required :: "bool \<Rightarrow> config \<Rightarrow> config \<Rightarrow> bool" where
  "restart_required windows current updated \<longleftrightarrow>
     windows \<and> (cfg_auto_connect_address updated \<noteq> cfg_auto_connect_address current
       \<or> (cfg_auto_connect_address current \<noteq> None \<or> cfg_auto_connect_address updated \<noteq> None)
         \<and> (cfg_mode updated \<noteq> cfg_mode current
            \<or> cfg_allow_lock_screen_control updated \<noteq> cfg_allow_lock_screen_control current))"

definition set_config :: "bool \<Rightarrow> string option \<Rightarrow> config_update \<Rightarrow> settings \<Rightarrow> settings \<times> settings_answer" where
  "set_config windows io u s =
     (if cu_listen_port u = Some 0 then (s, SettingsRefused ''listen port must be non-zero'')
      else if cu_clear_auto_connect u \<and> cu_auto_connect_address u \<noteq> None
      then (s, SettingsRefused ''auto-connect address cannot be set and cleared together'')
      else if (case cu_listen_port u of None \<Rightarrow> False | Some port \<Rightarrow> port \<noteq> cfg_listen_port (se_live s))
      then (s, SettingsRefused ''changing the listener port requires restarting the daemon'')
      else case updated_config u (se_live s) of
        Inl e \<Rightarrow> (s, SettingsRefused e)
      | Inr c \<Rightarrow>
          (case save_config io c (se_file s) of
             (file, Inl e) \<Rightarrow> (s\<lparr>se_file := file\<rparr>, SettingsRefused e)
           | (file, Inr _) \<Rightarrow>
               (\<lparr>se_live = c, se_file = file, se_revision = se_revision s + 1\<rparr>,
                Applied (restart_required windows (se_live s) c))))"

section \<open>Pinning a peer\<close>

datatype pin_answer = Pinned string | PinRefused string

definition pin_request :: "io_error option \<Rightarrow> string \<Rightarrow> string option \<Rightarrow> string option \<Rightarrow> peer_book \<Rightarrow> peer_book \<times> pin_answer" where
  "pin_request io fp0 node_name address b =
     (if \<not> is_fingerprint fp0 then (b, PinRefused ''peer fingerprint must contain 64 hexadecimal characters'')
      else
        (let fp = to_ascii_lowercase fp0;
             name = (case node_name of
               Some n \<Rightarrow> if trim n \<noteq> [] then n else ''peer-'' @ take 8 fp
             | None \<Rightarrow> ''peer-'' @ take 8 fp)
         in case pin_with_address io name fp address b of
              (b1, Inr _) \<Rightarrow> (b1, Pinned fp)
            | (b1, Inl e) \<Rightarrow> (b1, PinRefused (error_text e))))"

section \<open>Connections that hold a lease\<close>

text \<open>
  What comes next on the connection: the expected ping, with whether its answer can be written, or
  anything else: another frame, the end, an error, or silence.
\<close>

datatype lease_frame = LeasePing instant bool | LeaseOver

text \<open>The frames that are read, and the registries when the loop ends.\<close>

fun presence_pings :: "u64 \<Rightarrow> lease_frame list \<Rightarrow> registries \<Rightarrow> registries" where
  "presence_pings pid [] g = g"
| "presence_pings pid (LeaseOver # frames) g = g"
| "presence_pings pid (LeasePing now written # frames) g =
     (case presence_touch now pid g of
        (g1, going) \<Rightarrow> if going \<and> written then presence_pings pid frames g1 else g1)"

fun lease_pings :: "string \<Rightarrow> u64 option \<Rightarrow> u64 \<Rightarrow> lease_frame list \<Rightarrow> registries \<Rightarrow> registries" where
  "lease_pings fp link_id lid [] g = g"
| "lease_pings fp link_id lid (LeaseOver # frames) g = g"
| "lease_pings fp link_id lid (LeasePing now written # frames) g =
     (case lease_touch now fp link_id lid g of
        (g1, going) \<Rightarrow> if going \<and> written then lease_pings fp link_id lid frames g1 else g1)"

text \<open>
  A whole connection of the application; with its first answer unwritten it is left without its
  end. What happens elsewhere in the meantime is \<open>meanwhile\<close>.
\<close>

definition presence_connection ::
  "instant \<Rightarrow> bool \<Rightarrow> (daemon \<Rightarrow> daemon) \<Rightarrow> lease_frame list \<Rightarrow> daemon \<Rightarrow> daemon" where
  "presence_connection now written meanwhile frames d =
     (case presence_begin now (dm_registries d) of
        (g, pid) \<Rightarrow>
          (let d1 = d\<lparr>dm_registries := g\<rparr>
           in if \<not> written then d1
              else
                (let d2 = meanwhile d1
                 in presence_over pid (d2\<lparr>dm_registries := presence_pings pid frames (dm_registries d2)\<rparr>))))"

definition lease_connection ::
  "instant \<Rightarrow> string \<Rightarrow> string \<Rightarrow> u64 option \<Rightarrow> bool \<Rightarrow> (daemon \<Rightarrow> daemon) \<Rightarrow> lease_frame list \<Rightarrow> daemon \<Rightarrow> daemon" where
  "lease_connection now fp0 address link_id written meanwhile frames d =
     (case link_lease now fp0 address link_id d of
        (d1, None) \<Rightarrow> d1
      | (d1, Some lid) \<Rightarrow>
          if \<not> written then d1
          else
            (let d2 = meanwhile d1; fp = to_ascii_lowercase fp0
             in link_lease_over fp link_id lid
                  (d2\<lparr>dm_registries := lease_pings fp link_id lid frames (dm_registries d2)\<rparr>)))"

text \<open>The lists whose polling shows that an application without a lease runs.\<close>

datatype list_request = ListPeers | ListPendingPairings | ListPendingLinks | OtherRequest

definition note_poll :: "instant \<Rightarrow> list_request \<Rightarrow> registries \<Rightarrow> registries" where
  "note_poll now request g = (if request = OtherRequest then g else note_ui_contact now g)"

section \<open>Frames\<close>

definition MAX_CONTROL_FRAME_SIZE :: nat where "MAX_CONTROL_FRAME_SIZE = 64 * 1024"

text \<open>The JSON text of a request or a response is a parameter.\<close>

definition write_json_frame :: "('a \<Rightarrow> string + bytes) \<Rightarrow> bytes \<Rightarrow> 'a \<Rightarrow> io_error + bytes" where
  "write_json_frame to_json writer v =
     (case to_json v of
        Inl e \<Rightarrow> Inl (InvalidData e)
      | Inr payload \<Rightarrow>
          if payload = [] \<or> length payload > MAX_CONTROL_FRAME_SIZE
          then Inl (InvalidInput ''control message exceeds maximum frame size'')
          else Inr (writer @ be_encode 4 (of_nat (length payload) :: u32) @ payload))"

definition read_json_frame :: "(bytes \<Rightarrow> string + 'a) \<Rightarrow> bytes \<Rightarrow> io_error + ('a \<times> bytes) option" where
  "read_json_frame from_json reader =
     (if length reader < 4 then Inr None
      else
        (let size = unat (be_decode (take 4 reader) :: u32); rest = drop 4 reader
         in if size = 0 \<or> size > MAX_CONTROL_FRAME_SIZE then Inl (InvalidData ''invalid control frame size'')
            else if length rest < size then Inl UnexpectedEof
            else case from_json (take size rest) of
              Inl e \<Rightarrow> Inl (InvalidData e)
            | Inr v \<Rightarrow> Inr (Some (v, drop size rest))))"

section \<open>What the requests guarantee\<close>

lemma update_auto_connect_Inr:
  "update_auto_connect u c = Inr c' \<Longrightarrow> c' = c\<lparr>cfg_auto_connect_address := (if cu_clear_auto_connect u then None
      else case cu_auto_connect_address u of None \<Rightarrow> cfg_auto_connect_address c | Some a \<Rightarrow> Some (trim a))\<rparr>"
  by (simp add: update_auto_connect_def split: if_splits option.splits)

lemma update_clipboard_Inr:
  "update_clipboard u c = Inr c' \<Longrightarrow> c' = c\<lparr>cfg_clipboard_enabled := or_kept (cu_clipboard_enabled u) (cfg_clipboard_enabled c),
      cfg_clipboard_max_mb := or_kept (cu_clipboard_max_mb u) (cfg_clipboard_max_mb c)\<rparr>"
  by (simp add: update_clipboard_def or_kept_def Let_def split: if_splits option.splits)

lemma update_layout_Inr: "update_layout u c = Inr c' \<Longrightarrow> c' = c\<lparr>cfg_layout := or_kept (cu_layout u) (cfg_layout c)\<rparr>"
  by (simp add: update_layout_def or_kept_def split: option.splits sum.splits)

lemma updated_config_keeps:
  assumes "updated_config u c = Inr c'"
  shows "cfg_listen_port c' = cfg_listen_port c" "cfg_transport c = Udp \<Longrightarrow> cfg_transport c' = Udp"
    and "cfg_device_name c' = (case cu_device_name u of None \<Rightarrow> cfg_device_name c | Some name \<Rightarrow> trim name)"
    and "cfg_mode c' = or_kept (cu_mode u) (cfg_mode c)"
    and "cfg_layout c' = or_kept (cu_layout u) (cfg_layout c)"
    and "cfg_clipboard_max_mb c' = or_kept (cu_clipboard_max_mb u) (cfg_clipboard_max_mb c)"
    and "cfg_auto_connect_address c' = (if cu_clear_auto_connect u then None
      else case cu_auto_connect_address u of None \<Rightarrow> cfg_auto_connect_address c | Some a \<Rightarrow> Some (trim a))"
    and "cfg_edge_mode c' = or_kept (cu_edge_mode u) (cfg_edge_mode c)"
    and "cfg_double_edge_style c' = or_kept (cu_double_edge_style u) (cfg_double_edge_style c)"
proof -
  let ?c1 = "c\<lparr>cfg_device_name := (case cu_device_name u of None \<Rightarrow> cfg_device_name c | Some name \<Rightarrow> trim name),
            cfg_mode := or_kept (cu_mode u) (cfg_mode c),
            cfg_allow_lock_screen_control := or_kept (cu_allow_lock_screen_control u) (cfg_allow_lock_screen_control c)\<rparr>"
  obtain c2 where c2: "update_auto_connect u ?c1 = Inr c2"
    using assms by (cases "update_auto_connect u ?c1") (simp_all add: updated_config_def)
  obtain c3 where c3: "update_clipboard u c2 = Inr c3"
    using assms by (cases "update_clipboard u c2") (simp_all add: updated_config_def c2)
  have c': "update_layout u (c3\<lparr>cfg_edge_mode := or_kept (cu_edge_mode u) (cfg_edge_mode c3),
                    cfg_reverse_scroll := or_kept (cu_reverse_scroll u) (cfg_reverse_scroll c3),
                    cfg_auto_discover := or_kept (cu_auto_discover u) (cfg_auto_discover c3),
                    cfg_double_edge_style := or_kept (cu_double_edge_style u) (cfg_double_edge_style c3),
                    cfg_transport := (if cu_transport u = None then cfg_transport c3 else Udp)\<rparr>) = Inr c'"
    using assms by (simp add: updated_config_def c2 c3)
  note eqs = update_layout_Inr [OF c'] update_clipboard_Inr [OF c3] update_auto_connect_Inr [OF c2]
  show "cfg_listen_port c' = cfg_listen_port c" "cfg_transport c = Udp \<Longrightarrow> cfg_transport c' = Udp"
    "cfg_device_name c' = (case cu_device_name u of None \<Rightarrow> cfg_device_name c | Some name \<Rightarrow> trim name)"
    "cfg_mode c' = or_kept (cu_mode u) (cfg_mode c)" "cfg_layout c' = or_kept (cu_layout u) (cfg_layout c)"
    "cfg_clipboard_max_mb c' = or_kept (cu_clipboard_max_mb u) (cfg_clipboard_max_mb c)"
    "cfg_auto_connect_address c' = (if cu_clear_auto_connect u then None
      else case cu_auto_connect_address u of None \<Rightarrow> cfg_auto_connect_address c | Some a \<Rightarrow> Some (trim a))"
    "cfg_edge_mode c' = or_kept (cu_edge_mode u) (cfg_edge_mode c)"
    "cfg_double_edge_style c' = or_kept (cu_double_edge_style u) (cfg_double_edge_style c)"
    unfolding eqs by (simp_all split: option.split)
qed

definition settings_ok :: "settings \<Rightarrow> bool" where
  "settings_ok s \<longleftrightarrow> se_file s = se_live s \<and> config_ok (se_live s) \<and> cfg_transport (se_live s) = Udp"

lemma set_config_cases:
  assumes "set_config windows io u s = (s', answer)"
  obtains (refused) e where "answer = SettingsRefused e" "s' = s"
  | (applied) c where "answer = Applied (restart_required windows (se_live s) c)" "updated_config u (se_live s) = Inr c"
      "config_ok c" "s' = \<lparr>se_live = c, se_file = c, se_revision = se_revision s + 1\<rparr>"
proof (cases "updated_config u (se_live s)")
  case (Inl e)
  have "\<exists>e. set_config windows io u s = (s, SettingsRefused e)" by (simp add: set_config_def Inl)
  with assms refused show ?thesis by auto
next
  case (Inr c)
  show ?thesis
  proof (cases "config_ok c \<and> io = None")
    case True
    then have save: "save_config io c (se_file s) = (c, Inr ())" by (simp add: save_config_def validate_config_iff [symmetric])
    have "(\<exists>e. set_config windows io u s = (s, SettingsRefused e)) \<or> set_config windows io u s
        = (\<lparr>se_live = c, se_file = c, se_revision = se_revision s + 1\<rparr>, Applied (restart_required windows (se_live s) c))"
      by (simp add: set_config_def Inr save)
    with assms refused applied [of c] Inr True show ?thesis by (metis prod.inject)
  next
    case False
    then obtain e where save: "save_config io c (se_file s) = (se_file s, Inl e)"
      by (cases "validate_config c"; cases io) (auto simp: save_config_def validate_config_iff [symmetric])
    have "\<exists>e. set_config windows io u s = (s, SettingsRefused e)" by (simp add: set_config_def Inr save)
    with assms refused show ?thesis by auto
  qed
qed

lemma set_config_ok:
  assumes "settings_ok s"
  shows "settings_ok (fst (set_config windows io u s))"
    and "cfg_listen_port (se_live (fst (set_config windows io u s))) = cfg_listen_port (se_live s)"
proof -
  obtain s' answer where r: "set_config windows io u s = (s', answer)" by force
  then have "settings_ok s' \<and> cfg_listen_port (se_live s') = cfg_listen_port (se_live s)"
    by (cases rule: set_config_cases) (use assms in \<open>auto simp: settings_ok_def updated_config_keeps(1,2)\<close>)
  with r show "settings_ok (fst (set_config windows io u s))"
    "cfg_listen_port (se_live (fst (set_config windows io u s))) = cfg_listen_port (se_live s)" by simp_all
qed

lemma settings_runs:
  "settings_ok s \<Longrightarrow> settings_ok (fold (\<lambda>(io, u) s. fst (set_config windows io u s)) requests s)
     \<and> cfg_listen_port (se_live (fold (\<lambda>(io, u) s. fst (set_config windows io u s)) requests s)) = cfg_listen_port (se_live s)"
proof (induction requests arbitrary: s)
  case (Cons r requests)
  from Cons.IH [OF set_config_ok(1) [OF Cons.prems]] set_config_ok(2) [OF Cons.prems] show ?case
    by (cases r) simp
qed simp

text \<open>
  C37: the settings stay usable. After any sequence of requests to change them, with any of the
  writes failing, the live settings are those in the file, valid, over UDP, on the port the daemon
  listens on; a request that is refused changes nothing at all.
\<close>

theorem settings_stay_usable:
  assumes "config_ok c" "cfg_transport c = Udp"
  shows "let s = fold (\<lambda>(io, u) s. fst (set_config windows io u s)) requests \<lparr>se_live = c, se_file = c, se_revision = 0\<rparr>
    in se_file s = se_live s \<and> validate_config (se_live s) = Inr () \<and> cfg_transport (se_live s) = Udp
      \<and> cfg_listen_port (se_live s) = cfg_listen_port c
      \<and> (\<forall>io u e. snd (set_config windows io u s) = SettingsRefused e \<longrightarrow> fst (set_config windows io u s) = s)"
proof -
  define s where "s = fold (\<lambda>(io, u) s. fst (set_config windows io u s)) requests \<lparr>se_live = c, se_file = c, se_revision = 0\<rparr>"
  have start: "settings_ok \<lparr>se_live = c, se_file = c, se_revision = 0\<rparr>" using assms by (simp add: settings_ok_def)
  have ok: "settings_ok s" and port: "cfg_listen_port (se_live s) = cfg_listen_port c"
    using settings_runs [OF start, of windows requests] by (simp_all add: s_def)
  have "fst (set_config windows io u s) = s" if refused: "snd (set_config windows io u s) = SettingsRefused e" for io u e
  proof -
    obtain s' answer where r: "set_config windows io u s = (s', answer)" by force
    then show ?thesis by (cases rule: set_config_cases) (use refused r in auto)
  qed
  with ok port show ?thesis by (auto simp: settings_ok_def validate_config_iff s_def [symmetric])
qed

lemma default_config_ok: "config_ok ((default_config (Some ''desk''))\<lparr>cfg_layout := desk_pair\<rparr>)"
proof -
  have "layout_ok desk_pair" using desk_pair_router router_new_ok router_okD(1) by metis
  then show ?thesis
    by (simp add: config_ok_def default_config_def Let_def MAX_CLIPBOARD_MAX_MB_def DEFAULT_CLIPBOARD_MAX_MB_def)
      (simp add: MAX_DEVICE_NAME_BYTES_def trim_visible visible_def)
qed

lemma settings_stay_usable_witness:
  "let c = (default_config (Some ''desk''))\<lparr>cfg_layout := desk_pair\<rparr>
   in config_ok c \<and> cfg_transport c = Udp
     \<and> (let s = fold (\<lambda>(io, u) s. fst (set_config True io u s)) [] \<lparr>se_live = c, se_file = c, se_revision = 0\<rparr>
        in cfg_listen_port (se_live s) = 42110)"
proof -
  let ?c = "(default_config (Some ''desk''))\<lparr>cfg_layout := desk_pair\<rparr>"
  have udp: "cfg_transport ?c = Udp" by (simp add: default_config_def)
  from settings_stay_usable [OF default_config_ok udp, of True "[]"] default_config_ok udp show ?thesis
    by (simp add: Let_def default_config_def)
qed

section \<open>A peer pinned without a name\<close>

text \<open>
  Pinning a known peer without a name renames it. The request says the existing name is
  kept when none is given; the name becomes \<open>peer-\<close> with the first digits of the fingerprint.
\<close>

theorem pin_without_a_name_renames:
  assumes "peers_ok (pb_peers b)" "is_fingerprint fp" "trust b (to_ascii_lowercase fp) = Some (name, address)"
    and "pin_request None fp None None b = (b', Pinned fp')"
  shows "fp' = to_ascii_lowercase fp \<and> trust b' fp' = Some (''peer-'' @ take 8 fp', address)"
proof -
  let ?fp = "to_ascii_lowercase fp" and ?name = "''peer-'' @ take 8 (to_ascii_lowercase fp)"
  have pin: "pin_with_address None ?name ?fp None b = (b', Inr ())" and fp': "fp' = ?fp"
  proof -
    obtain b1 res where r: "pin_with_address None ?name ?fp None b = (b1, res)" by force
    have "pin_request None fp None None b = (case res of Inr _ \<Rightarrow> (b1, Pinned ?fp) | Inl e \<Rightarrow> (b1, PinRefused (error_text e)))"
      using assms(2) r by (simp add: pin_request_def Let_def split: sum.split)
    with assms(4) have res: "res = Inr ()" "b1 = b'" "?fp = fp'" by (cases res; simp)+
    show "pin_with_address None ?name ?fp None b = (b', Inr ())" "fp' = ?fp" using r res by simp_all
  qed
  have digits: "list_all is_ascii_hexdigit ?fp" "length ?fp = 64" using assms(2) by (simp_all add: is_fingerprint_def)
  have "length (take 8 ?fp) = 8" using digits(2) by (simp only: length_take)
  then have "take 8 ?fp \<noteq> []" by (metis list.size(3) zero_neq_numeral)
  then have "last ?name = last (take 8 ?fp)" "last (take 8 ?fp) \<in> set ?fp"
    using last_in_set [of "take 8 ?fp"] set_take_subset [of 8 ?fp] by auto
  then have "visible (last ?name)" using digits(1) by (auto simp: list_all_iff intro: hexdigit_visible)
  then have name: "trim ?name = ?name" by (intro trim_visible) (simp_all add: visible_def)
  have "pb_peers b' = put_peer (new_peer ?name ?fp None) (pb_peers b)"
  proof (rule pin_cases [OF assms(1), of None ?name ?fp None])
    fix err
    assume "pin_with_address None ?name ?fp None b = (b, Inl err)"
    with pin show ?thesis by simp
  next
    assume "pin_with_address None ?name ?fp None b = (b, Inr ())"
      "put_peer (new_peer ?name ?fp None) (pb_peers b) = pb_peers b"
    with pin show ?thesis by simp
  next
    fix ps
    assume "ps = put_peer (new_peer ?name ?fp None) (pb_peers b)"
      "pin_with_address None ?name ?fp None b = (saved None ps b, case None of None \<Rightarrow> Inr () | Some e \<Rightarrow> Inl e)"
    with pin have "b' = saved None ps b" by (metis prod.inject)
    with \<open>ps = _\<close> show ?thesis by (simp only: saved_def peer_book.simps)
  qed
  then have "trust b' = trust (saved None (put_peer (new_peer ?name ?fp None) (pb_peers b)) b)"
    by (simp add: trust_def saved_def fun_eq_iff)
  then have "trust b' ?fp = Some (trim ?name, address)"
    using assms(3) by (simp add: trust_put_peer del: append.simps)
  then show ?thesis unfolding fp' name by simp
qed

definition known_desk :: peer_book where
  "known_desk = \<lparr>pb_peers = [\<lparr>pr_name = ''desk'', pr_fingerprint_hex = replicate 64 (CHR ''a''), pr_address = None\<rparr>],
     pb_file = None\<rparr>"

lemma pin_without_a_name_renames_witness:
  "\<exists>b' fp'. pin_request None (replicate 64 (CHR ''a'')) None None known_desk = (b', Pinned fp')
     \<and> trust known_desk fp' = Some (''desk'', None) \<and> trust b' fp' = Some (''peer-'' @ take 8 fp', None)"
proof -
  let ?fp = "replicate 64 (CHR ''a'')"
  have "(case pin_request None ?fp None None known_desk of (_, Pinned _) \<Rightarrow> True | _ \<Rightarrow> False)" by code_simp
  then obtain b' fp' where r: "pin_request None ?fp None None known_desk = (b', Pinned fp')"
    by (auto split: prod.splits pin_answer.splits)
  have "peers_ok (pb_peers known_desk)" "is_fingerprint ?fp" "trust known_desk (to_ascii_lowercase ?fp) = Some (''desk'', None)"
    by code_simp+
  from pin_without_a_name_renames [OF this r] this(3) r show ?thesis by blast
qed

end
