(* ===== verification/Spec2Isabelle.thy ===== *)
theory Spec2Isabelle
  imports KvmPrelude Events Layout LayoutEdits Geometry Router Routing RouterSafety RouteSafety
    RouterRuns RouterOutcomes Crossings Returns
    Config Datagram Wire Udp Reassembly
    Pairing PeerBook Invite Discovery Approvals ApprovalRuns Registries RegistryRuns
    Admission AdmissionRuns
    Utf8 Clipboard ClipboardRuns ClipboardExchange ClipboardReceive
    KeyTables KeyRuns Capture CaptureRuns GestureRuns CaptureQueues Injector InjectorRuns KeyHandover
    WireGeometry Sending SendingRuns Driving DrivingRuns DriveTask DriveTaskRuns DriveSafety DriveYields
    Receiver InputSession SessionRuns SessionSafety InputOrder LocalControl
begin

text \<open>
  TheKVM shares one keyboard and mouse between computers. The daemon of the controlling
  computer captures input, feeds every event to an edge router that decides which screen of
  an arrangement it belongs to, and sends the events of a driven screen to the peer: reliable
  messages as length-prefixed JSON frames, pointer motion as small binary datagrams, both
  also over an encrypted UDP path.

  Theories, and the code they model.

  \<^item> \<open>KvmPrelude\<close>: machine integers, time, UTF-8 strings, big-endian bytes, and the
    interfaces \<open>event_machine\<close> (a step function with an invariant), \<open>wire_codec\<close> and
    \<open>canonical_codec\<close> (encode and decode with their laws).
  \<^item> \<open>Events\<close> (\<^verbatim>\<open>kvm-core/src/event.rs\<close>): the input events.
  \<^item> \<open>Layout\<close>, \<open>LayoutEdits\<close>, \<open>Geometry\<close> (\<^verbatim>\<open>kvm-core/src/layout.rs\<close>): the grid of screens
    and every method of \<^verbatim>\<open>Layout\<close>; proportional mapping, entry points and the stateless
    \<^verbatim>\<open>handoff_for_motion\<close>.
  \<^item> \<open>Router\<close>, \<open>Routing\<close> (\<^verbatim>\<open>kvm-core/src/layout.rs\<close>): the state of \<^verbatim>\<open>EdgeRouter\<close>, a record
    with the fields of the struct, its methods, and \<^verbatim>\<open>route\<close>, one definition per branch.
    A call that may panic returns an option. \<open>RouterSafety\<close> and \<open>RouteSafety\<close> show that
    every method keeps \<open>router_ok\<close>, \<open>RouterRuns\<close> lifts this to sequences of calls,
    \<open>RouterOutcomes\<close> inverts \<open>route\<close> by its result, \<open>Crossings\<close> and \<open>Returns\<close> hold what a
    crossing and a return promise.
  \<^item> \<open>Config\<close> (\<^verbatim>\<open>kvm-core/src/config.rs\<close>): the configuration, its validation and loading.
  \<^item> \<open>Datagram\<close>, \<open>Wire\<close> (\<^verbatim>\<open>kvm-protocol/src/wire.rs\<close>): the pointer datagrams; the control
    messages, their validation and framing, and the greeting of \<^verbatim>\<open>kvm-daemon/src/service.rs\<close>.
  \<^item> \<open>Udp\<close>, \<open>Reassembly\<close> (\<^verbatim>\<open>kvm-protocol/src/udp.rs\<close>): ports, session keys, packets, and the
    buffer that puts fragmented messages together.
  \<^item> \<open>Pairing\<close>, \<open>PeerBook\<close> (\<^verbatim>\<open>kvm-protocol/src/pairing.rs\<close>), \<open>Invite\<close>
    (\<^verbatim>\<open>kvm-protocol/src/invite.rs\<close>), \<open>Discovery\<close> (\<^verbatim>\<open>kvm-protocol/src/discovery.rs\<close>): the
    six-digit codes and the hexadecimal transport; the list of trusted peers in memory and in
    its file, which refines a map; invites; advertisements and the scan.
  \<^item> \<open>Approvals\<close>, \<open>ApprovalRuns\<close> (\<^verbatim>\<open>kvm-daemon/src/control.rs\<close>): the queues of pairing and link
    requests with their waiters, and what any sequence of calls keeps.
  \<^item> \<open>Registries\<close>, \<open>RegistryRuns\<close> (\<^verbatim>\<open>kvm-daemon/src/service.rs\<close>): the process-wide tables, a
    field of the record \<open>registries\<close> per static; the locale \<open>owned_slots\<close> states once that a
    late clean-up spares its successor, and is interpreted on sessions, leases, sinks and
    presence.
  \<^item> \<open>Admission\<close>, \<open>AdmissionRuns\<close> (both files): the gate of a dialing peer, pairing and the
    requests of the local user on one record \<open>daemon\<close>; \<open>daemon_step\<close> runs them in any order,
    the invariant \<open>consent_inv\<close> carries the evidence of the user's consent, and \<open>fold_first\<close>
    finds the call an approval or a noted pairing comes from.
  \<^item> \<open>Utf8\<close>: valid UTF-8, character boundaries and the lossy conversion of the standard
    library. \<open>Clipboard\<close> (\<^verbatim>\<open>kvm-daemon/src/service.rs\<close>, with the application's side from
    \<^verbatim>\<open>kvm-ui/src/main.rs\<close>): cutting a copy, sending, receiving, the slot for the application
    and its offers. \<open>ClipboardRuns\<close> follows one transfer, \<open>ClipboardExchange\<close> a copy from
    application to application, \<open>ClipboardReceive\<close> the receiver under any messages.
  \<^item> \<open>KeyTables\<close>, \<open>KeyRuns\<close> (\<^verbatim>\<open>kvm-platform/src/evdev_capture.rs\<close>, \<^verbatim>\<open>capture.rs\<close>,
    \<^verbatim>\<open>inject.rs\<close>): the key tables of both systems, row by row, and which keys arrive as
    themselves on a machine of the same or of the other kind.
  \<^item> \<open>Capture\<close> (\<^verbatim>\<open>kvm-daemon/src/service.rs\<close>): the record of held controls, the barrier, pinches
    and scrolling. \<open>CaptureRuns\<close> and \<open>GestureRuns\<close> show what sequences of events keep;
    \<open>CaptureQueues\<close> has the two queues to the drive task, as a step relation.
  \<^item> \<open>Injector\<close>, \<open>InjectorRuns\<close> (\<^verbatim>\<open>kvm-platform/src/inject.rs\<close>): the virtual devices on Linux,
    against the set of codes the kernel has down, and the rendering of keys on Windows.
    \<open>KeyHandover\<close>: held keys across the opening of a drive; the locale \<open>held_controls\<close> is
    interpreted on keys and on buttons.
  \<^item> \<open>WireGeometry\<close> (\<^verbatim>\<open>kvm-daemon/src/service.rs\<close>): the geometry a message carries and the
    entry points computed from it. \<open>Sending\<close>, \<open>SendingRuns\<close>: one sender with its stream,
    sequence numbers, the UDP and datagram lanes, the coalesced motion and the stall strikes, and
    what sequences of sends put on the stream.
  \<^item> \<open>Driving\<close>, \<open>DriveTask\<close> (\<^verbatim>\<open>kvm-daemon/src/service.rs\<close>): one input at the controlling
    machine, from the router to the grab and the peer; then the whole drive task, a step per
    wake-up of its \<^verbatim>\<open>select!\<close>. \<open>DrivingRuns\<close> and \<open>DriveTaskRuns\<close> carry the invariant of the
    drive through every step, \<open>DriveSafety\<close> and \<open>DriveYields\<close> hold what follows. The grab of
    the local input is a wish, a belief and the hold of the platform, three fields: the relation
    \<open>reaches\<close> interleaves the steps of the task with those of the capture thread and its watchdog,
    which may clear the wish, and of the platform, whose hold may change at any time.
  \<^item> \<open>Receiver\<close>, \<open>InputSession\<close> (\<^verbatim>\<open>kvm-daemon/src/service.rs\<close>): the controlled machine, its
    ordering of packets and the tracked cursor; then the serving session, a step per frame, datagram,
    lane and timer, with the permit shared by all sessions. \<open>SessionRuns\<close> has the invariants,
    \<open>SessionSafety\<close> what they give for sessions and for a node that serves several,
    \<open>InputOrder\<close> what copies and order change.
  \<^item> \<open>LocalControl\<close> (\<^verbatim>\<open>kvm-daemon/src/control.rs\<close>): the requests of the local user interface on
    settings, arrangement and trusted peers.

  Parameters. Code outside the repository is an argument: \<^verbatim>\<open>serde_json\<close> (\<open>parse\<close>, \<open>to_json\<close>,
  \<open>from_json\<close>), the cipher (\<open>encrypt\<close>, \<open>decrypt\<close>), the hash, and whether a write of a file fails (\<open>io\<close>); \<open>json_ok\<close> and \<open>aead_ok\<close>
  state what the code relies on. The clock is the argument \<open>now\<close>.

  Bounds and recursion. No definition has fuel: most loops run over finite lists, and those
  that do not follow a list's structure (trimming, search for the single peer, the
  application's cutting of a text, the lossy conversion) have termination proofs. The
  daemon's cutting loop \<open>cut_from\<close> is an option, \<open>None\<close> where it would go on forever;
  \<open>cutting_ends\<close> shows that it ends on every valid text. \<open>i64\<close> accumulators wrap as in the release profile.

  Not modelled: file, socket and device I/O; the connecting and accepting tasks of the daemon
  except for their handlers, the drive task and the serving session; the
  platform back ends but for the key tables and the injection of events; the desktop application; the OCR application under \<^verbatim>\<open>snaptext/\<close>.
\<close>

end
